(* ===== verification/ComponentGraph.thy ===== *)
theory ComponentGraph
  imports Prelude "HOL-Library.Multiset"
begin

text \<open>
  The component graph of \<^verbatim>\<open>componentgraph/graph.go\<close>, which orders the start and the stop of the
  daemon's components, and the table of \<^verbatim>\<open>componentgraph/legacy.go\<close>.

  A Go \<^verbatim>\<open>map[string]Component\<close> is the list of its components, with distinct names; the order of the
  list stands for the unspecified iteration order of the map. Component names are strings, ordered
  bytewise as Go orders them. The search of \<^verbatim>\<open>dependencyReaches\<close> shares one \<^verbatim>\<open>visited\<close> map between its
  recursive calls, so the model passes it through and returns it; its recursion depth is bounded by
  a fuel argument that the number of components covers.
\<close>

section \<open>Data\<close>

record Component =
  Name :: string
  DependsOn :: "string list"

datatype Dependency = Dependency (Component: string) (Required: string)

text \<open>The comparison function that \<^verbatim>\<open>StartStages\<close> passes to \<^verbatim>\<open>sort.Slice\<close> for missing dependencies.\<close>

definition dependency_before :: "Dependency \<Rightarrow> Dependency \<Rightarrow> bool" where
  "dependency_before l r \<longleftrightarrow>
     (if Component l = Component r then Required l < Required r else Component l < Component r)"

instantiation Dependency :: linorder
begin

definition less_Dependency :: "Dependency \<Rightarrow> Dependency \<Rightarrow> bool" where
  "less_Dependency l r \<longleftrightarrow> dependency_before l r"

definition less_eq_Dependency :: "Dependency \<Rightarrow> Dependency \<Rightarrow> bool" where
  "less_eq_Dependency l r \<longleftrightarrow> l < r \<or> l = r"

instance
proof
  fix x y z :: Dependency
  show "(x < y) = (x \<le> y \<and> \<not> y \<le> x)"
    by (cases x; cases y) (auto simp: less_Dependency_def dependency_before_def less_eq_Dependency_def)
  show "x \<le> x"
    by (simp add: less_eq_Dependency_def)
  show "x \<le> y \<Longrightarrow> y \<le> z \<Longrightarrow> x \<le> z"
    by (cases x; cases y; cases z)
      (auto simp: less_Dependency_def dependency_before_def less_eq_Dependency_def split: if_splits)
  show "x \<le> y \<Longrightarrow> y \<le> x \<Longrightarrow> x = y"
    by (cases x; cases y) (auto simp: less_Dependency_def dependency_before_def less_eq_Dependency_def split: if_splits)
  show "x \<le> y \<or> y \<le> x"
    by (cases x; cases y) (auto simp: less_Dependency_def dependency_before_def less_eq_Dependency_def)
qed

end

datatype definition_message = EmptyComponentName | DefinedMoreThanOnce string | GraphIsNil

datatype graph_error =
    MissingDependenciesError "Dependency list"
  | CycleError "string list"
  | DefinitionError definition_message

record Graph =
  components :: "Component list"

abbreviation names :: "Component list \<Rightarrow> string list" where
  "names cs \<equiv> map Name cs"

section \<open>Construction\<close>

fun New_loop :: "Component list \<Rightarrow> Component list \<Rightarrow> graph_error + Graph" where
  "New_loop acc [] = Inr \<lparr>components = acc\<rparr>"
| "New_loop acc (c # cs) =
     (if Name c = '''' then Inl (DefinitionError EmptyComponentName)
      else if Name c \<in> set (names acc) then Inl (DefinitionError (DefinedMoreThanOnce (Name c)))
      else New_loop (acc @ [c]) cs)"

definition New :: "Component list \<Rightarrow> graph_error + Graph" where
  "New cs = New_loop [] cs"

definition Components :: "Graph option \<Rightarrow> Component list" where
  "Components graph = (case graph of None \<Rightarrow> [] | Some g \<Rightarrow> sort_key Name (components g))"

section \<open>Cycles\<close>

text \<open>\<^verbatim>\<open>remaining[name].DependsOn\<close>; a missing key gives the zero component.\<close>

definition deps_of :: "Component list \<Rightarrow> string \<Rightarrow> string list" where
  "deps_of rem name = (case find (\<lambda>c. Name c = name) rem of None \<Rightarrow> [] | Some c \<Rightarrow> DependsOn c)"

fun dependencyReaches ::
    "nat \<Rightarrow> string \<Rightarrow> string \<Rightarrow> Component list \<Rightarrow> string list \<Rightarrow> (bool \<times> string list) option"
  and dependencyReaches_loop ::
    "nat \<Rightarrow> string \<Rightarrow> string list \<Rightarrow> Component list \<Rightarrow> string list \<Rightarrow> (bool \<times> string list) option"
where
  "dependencyReaches 0 target current remaining visited = None"
| "dependencyReaches (Suc fuel) target current remaining visited =
     (if current \<in> set visited then Some (False, visited)
      else dependencyReaches_loop fuel target (deps_of remaining current) remaining (current # visited))"
| "dependencyReaches_loop fuel target [] remaining visited = Some (False, visited)"
| "dependencyReaches_loop fuel target (d # ds) remaining visited =
     (if d = target then Some (True, visited)
      else if d \<in> set (names remaining) then
        (case dependencyReaches fuel target d remaining visited of
           None \<Rightarrow> None
         | Some (True, visited') \<Rightarrow> Some (True, visited')
         | Some (False, visited') \<Rightarrow> dependencyReaches_loop fuel target ds remaining visited')
      else dependencyReaches_loop fuel target ds remaining visited)"

text \<open>
  \<open>reaches_self\<close> is the call \<^verbatim>\<open>dependencyReaches(name, name, remaining, {})\<close> with fuel one larger than
  the number of components: every nested call that passes the \<^verbatim>\<open>visited\<close> test marks a new one.
\<close>

definition reaches_self :: "Component list \<Rightarrow> string \<Rightarrow> bool option" where
  "reaches_self remaining name =
     map_option fst (dependencyReaches (length remaining + 2) name name remaining [])"

definition cycleMembers :: "Component list \<Rightarrow> string list" where
  "cycleMembers remaining = filter (\<lambda>name. reaches_self remaining name = Some True) (names remaining)"

section \<open>Stages\<close>

definition active_components :: "Component list \<Rightarrow> string list \<Rightarrow> Component list" where
  "active_components cs skipped = filter (\<lambda>c. Name c \<notin> set skipped) cs"

definition missing_dependencies :: "Component list \<Rightarrow> Dependency list" where
  "missing_dependencies active =
     concat (map (\<lambda>c. map (Dependency (Name c)) (filter (\<lambda>r. r \<notin> set (names active)) (DependsOn c))) active)"

definition ready :: "string list \<Rightarrow> Component \<Rightarrow> bool" where
  "ready staged c \<longleftrightarrow> list_all (\<lambda>r. r \<in> set staged) (DependsOn c)"

function stage_loop ::
    "Component list \<Rightarrow> string list \<Rightarrow> string list list \<Rightarrow> graph_error + string list list" where
  "stage_loop remaining staged stages =
     (if remaining = [] then Inr stages
      else let stage = names (filter (ready staged) remaining)
           in if stage = [] then Inl (CycleError (sort (cycleMembers remaining)))
              else stage_loop (filter (\<lambda>c. Name c \<notin> set stage) remaining) (staged @ sort stage)
                     (stages @ [sort stage]))"
  by pat_completeness auto
termination
proof (relation "measure (\<lambda>(remaining, _, _). length remaining)", goal_cases)
  case (2 remaining staged stages stage)
  then obtain c where c: "c \<in> set remaining" "ready staged c"
    by (auto simp: filter_empty_conv)
  with 2 have "Name c \<in> set stage" by auto
  with c(1) show ?case
    by (auto intro!: length_filter_less)
qed simp

declare stage_loop.simps [simp del]

definition StartStages :: "Graph option \<Rightarrow> string list \<Rightarrow> graph_error + string list list" where
  "StartStages graph skipped =
     (case graph of
        None \<Rightarrow> Inl (DefinitionError GraphIsNil)
      | Some g \<Rightarrow>
          let active = active_components (components g) skipped;
              missing = missing_dependencies active
          in if missing \<noteq> [] then Inl (MissingDependenciesError (sort missing))
             else stage_loop active [] [])"

definition StopStages :: "Graph option \<Rightarrow> string list \<Rightarrow> graph_error + string list list" where
  "StopStages graph skipped =
     (case StartStages graph skipped of Inl e \<Rightarrow> Inl e | Inr stages \<Rightarrow> Inr (rev stages))"

section \<open>Well-formed graphs\<close>

lemma New_loop_Inr:
  "New_loop acc cs = Inr g \<Longrightarrow> distinct (names acc) \<Longrightarrow>
     components g = acc @ cs \<and> distinct (names (acc @ cs)) \<and> '''' \<notin> set (names cs)"
proof (induction acc cs rule: New_loop.induct)
  case (2 acc c cs)
  then show ?case by (auto split: if_splits)
qed auto

lemma New_Inr:
  "New cs = Inr g \<Longrightarrow> components g = cs \<and> distinct (names cs) \<and> '''' \<notin> set (names cs)"
  unfolding New_def by (drule New_loop_Inr) auto

lemma deps_of_member:
  "distinct (names cs) \<Longrightarrow> c \<in> set cs \<Longrightarrow> deps_of cs (Name c) = DependsOn c"
  by (induction cs) (force simp: deps_of_def)+

lemma distinct_names_filter: "distinct (names cs) \<Longrightarrow> distinct (names (filter P cs))"
  by (induction cs) auto

lemma names_filter: "names (filter (\<lambda>c. P (Name c)) cs) = filter P (names cs)"
  by (induction cs) auto

section \<open>The cycle search\<close>

text \<open>An edge leads from a component of the graph to a name it requires.\<close>

definition edges :: "Component list \<Rightarrow> (string \<times> string) set" where
  "edges cs = {(a, b). a \<in> set (names cs) \<and> b \<in> set (deps_of cs a)}"

definition unvisited :: "Component list \<Rightarrow> string list \<Rightarrow> nat" where
  "unvisited rem visited = card (set (names rem) - set visited)"

text \<open>Every name visited since \<open>visited\<close> has been searched completely without meeting the target.\<close>

definition searched :: "string \<Rightarrow> Component list \<Rightarrow> string list \<Rightarrow> string list \<Rightarrow> bool" where
  "searched target rem visited visited' \<longleftrightarrow>
     (\<forall>x \<in> set visited' - set visited. \<forall>d \<in> set (deps_of rem x).
        d \<noteq> target \<and> (d \<in> set (names rem) \<longrightarrow> d \<in> set visited'))"

definition reach_ok ::
    "string \<Rightarrow> string \<Rightarrow> Component list \<Rightarrow> string list \<Rightarrow> (bool \<times> string list) option \<Rightarrow> bool" where
  "reach_ok target current rem visited result \<longleftrightarrow>
     (\<exists>found visited'. result = Some (found, visited') \<and> set visited \<subseteq> set visited' \<and>
        (if found then (current, target) \<in> (edges rem)\<^sup>+
         else current \<in> set visited' \<and> searched target rem visited visited'))"

definition reach_loop_ok ::
    "string \<Rightarrow> string list \<Rightarrow> Component list \<Rightarrow> string list \<Rightarrow> (bool \<times> string list) option \<Rightarrow> bool" where
  "reach_loop_ok target ds rem visited result \<longleftrightarrow>
     (\<exists>found visited'. result = Some (found, visited') \<and> set visited \<subseteq> set visited' \<and>
        (if found then \<exists>d \<in> set ds. d = target \<or> (d, target) \<in> (edges rem)\<^sup>+
         else (\<forall>d \<in> set ds. d \<noteq> target \<and> (d \<in> set (names rem) \<longrightarrow> d \<in> set visited')) \<and>
              searched target rem visited visited'))"

lemma unvisited_Cons:
  assumes "c \<in> set (names rem)" and "c \<notin> set visited"
  shows "unvisited rem visited = Suc (unvisited rem (c # visited))"
proof -
  have eq: "set (names rem) - set visited = insert c (set (names rem) - set (c # visited))"
    using assms by auto
  show ?thesis
    unfolding unvisited_def by (subst eq, rule card_insert_disjoint) auto
qed

lemma unvisited_mono: "set visited \<subseteq> set visited' \<Longrightarrow> unvisited rem visited' \<le> unvisited rem visited"
  unfolding unvisited_def by (rule card_mono) auto

lemma searched_trans:
  assumes "searched t rem v1 v2" and "searched t rem v2 v3" and "set v2 \<subseteq> set v3"
  shows "searched t rem v1 v3"
  unfolding searched_def
proof (intro ballI)
  fix x d
  assume x: "x \<in> set v3 - set v1" and d: "d \<in> set (deps_of rem x)"
  show "d \<noteq> t \<and> (d \<in> set (names rem) \<longrightarrow> d \<in> set v3)"
  proof (cases "x \<in> set v2")
    case True
    with assms(1) x d have "d \<noteq> t \<and> (d \<in> set (names rem) \<longrightarrow> d \<in> set v2)"
      unfolding searched_def by blast
    with assms(3) show ?thesis by blast
  next
    case False
    with assms(2) x d show ?thesis unfolding searched_def by blast
  qed
qed

lemma searched_refl [simp]: "searched t rem v v"
  by (simp add: searched_def)

lemma reach_ok_step:
  assumes "current \<in> set (names rem)" and "current \<notin> set visited"
    and "reach_loop_ok target (deps_of rem current) rem (current # visited) result"
  shows "reach_ok target current rem visited result"
proof -
  obtain found visited' where r: "result = Some (found, visited')" "set (current # visited) \<subseteq> set visited'"
    and body: "if found then \<exists>d \<in> set (deps_of rem current). d = target \<or> (d, target) \<in> (edges rem)\<^sup>+
         else (\<forall>d \<in> set (deps_of rem current). d \<noteq> target \<and> (d \<in> set (names rem) \<longrightarrow> d \<in> set visited')) \<and>
              searched target rem (current # visited) visited'"
    using assms(3) unfolding reach_loop_ok_def by blast
  have edge: "(current, d) \<in> edges rem" if "d \<in> set (deps_of rem current)" for d
    using that assms(1) by (simp add: edges_def)
  show ?thesis
  proof (cases found)
    case True
    with body obtain d where "d \<in> set (deps_of rem current)" "d = target \<or> (d, target) \<in> (edges rem)\<^sup>+"
      by auto
    then have "(current, target) \<in> (edges rem)\<^sup>+"
      using edge by (meson r_into_trancl trancl_into_trancl2)
    with True r show ?thesis by (auto simp: reach_ok_def)
  next
    case False
    have "searched target rem visited visited'"
      unfolding searched_def
    proof (intro ballI)
      fix x d
      assume "x \<in> set visited' - set visited" and d: "d \<in> set (deps_of rem x)"
      then consider "x = current" | "x \<in> set visited' - set (current # visited)" by auto
      then show "d \<noteq> target \<and> (d \<in> set (names rem) \<longrightarrow> d \<in> set visited')"
        using body False d unfolding searched_def by cases metis+
    qed
    with False r show ?thesis by (auto simp: reach_ok_def)
  qed
qed

lemma reach_loop_ok_skip:
  assumes "d \<noteq> target" and "d \<notin> set (names rem)" and "reach_loop_ok target ds rem visited result"
  shows "reach_loop_ok target (d # ds) rem visited result"
proof -
  obtain found v where "result = Some (found, v)" "set visited \<subseteq> set v"
    and "if found then \<exists>d \<in> set ds. d = target \<or> (d, target) \<in> (edges rem)\<^sup>+
         else (\<forall>d \<in> set ds. d \<noteq> target \<and> (d \<in> set (names rem) \<longrightarrow> d \<in> set v)) \<and> searched target rem visited v"
    using assms(3) unfolding reach_loop_ok_def by blast
  with assms(1,2) show ?thesis
    by (cases found) (auto simp: reach_loop_ok_def)
qed

lemma reach_loop_ok_step:
  assumes "d \<noteq> target" and "searched target rem visited visited'" and "d \<in> set visited'"
    and "set visited \<subseteq> set visited'" and "reach_loop_ok target ds rem visited' result"
  shows "reach_loop_ok target (d # ds) rem visited result"
proof -
  obtain found v where r: "result = Some (found, v)" "set visited' \<subseteq> set v"
    and body: "if found then \<exists>d \<in> set ds. d = target \<or> (d, target) \<in> (edges rem)\<^sup>+
         else (\<forall>d \<in> set ds. d \<noteq> target \<and> (d \<in> set (names rem) \<longrightarrow> d \<in> set v)) \<and> searched target rem visited' v"
    using assms(5) unfolding reach_loop_ok_def by blast
  show ?thesis
  proof (cases found)
    case True
    with r body assms(4) show ?thesis by (auto simp: reach_loop_ok_def)
  next
    case False
    then have "searched target rem visited v"
      using searched_trans [OF assms(2) _ r(2)] body by simp
    with False r body assms(1,3,4) show ?thesis by (auto simp: reach_loop_ok_def)
  qed
qed

lemma dependencyReaches_correct:
  "current \<in> set (names rem) \<Longrightarrow> unvisited rem visited < fuel \<Longrightarrow>
     reach_ok target current rem visited (dependencyReaches fuel target current rem visited)"
  "unvisited rem visited < fuel \<Longrightarrow>
     reach_loop_ok target ds rem visited (dependencyReaches_loop fuel target ds rem visited)"
proof (induction fuel target current rem visited and fuel target ds rem visited
    rule: dependencyReaches_dependencyReaches_loop.induct)
  case (1 target current rem visited)
  then show ?case by simp
next
  case (2 fuel target current rem visited)
  show ?case
  proof (cases "current \<in> set visited")
    case True
    then show ?thesis by (auto simp: reach_ok_def)
  next
    case False
    with 2 have "unvisited rem (current # visited) < fuel"
      by (simp add: unvisited_Cons)
    with 2 False show ?thesis by (simp add: reach_ok_step)
  qed
next
  case (3 fuel target rem visited)
  then show ?case by (auto simp: reach_loop_ok_def)
next
  case (4 fuel target d ds rem visited)
  consider "d = target" | "d \<noteq> target" "d \<notin> set (names rem)" | "d \<noteq> target" "d \<in> set (names rem)"
    by blast
  then show ?case
  proof cases
    case 1
    then show ?thesis by (auto simp: reach_loop_ok_def)
  next
    case 2
    with 4 show ?thesis by (simp add: reach_loop_ok_skip)
  next
    case 3
    with 4 have "reach_ok target d rem visited (dependencyReaches fuel target d rem visited)"
      by simp
    then obtain found visited' where r: "dependencyReaches fuel target d rem visited = Some (found, visited')"
      and sub: "set visited \<subseteq> set visited'"
      and body: "if found then (d, target) \<in> (edges rem)\<^sup>+
         else d \<in> set visited' \<and> searched target rem visited visited'"
      unfolding reach_ok_def by blast
    show ?thesis
    proof (cases found)
      case True
      with 3 r sub body show ?thesis by (auto simp: reach_loop_ok_def)
    next
      case False
      have "unvisited rem visited' < fuel"
        using "4.prems" unvisited_mono [OF sub, of rem] by simp
      with "4.IH"(2) 3 r False
      have "reach_loop_ok target ds rem visited' (dependencyReaches_loop fuel target ds rem visited')"
        by simp
      with 3 r sub body False show ?thesis
        using reach_loop_ok_step [of d target rem visited visited' ds] by simp
    qed
  qed
qed

lemma searched_no_path:
  assumes "searched n rem [] visited" and "n \<in> set visited" and "(n, x) \<in> (edges rem)\<^sup>+"
  shows "x \<noteq> n \<and> (x \<in> set (names rem) \<longrightarrow> x \<in> set visited)"
  using assms(3)
proof (induction rule: trancl_induct)
  case (base y)
  then show ?case using assms(1,2) by (auto simp: edges_def searched_def)
next
  case (step y z)
  then have "y \<in> set visited" and "z \<in> set (deps_of rem y)"
    by (auto simp: edges_def)
  then show ?case using assms(1) by (auto simp: searched_def)
qed

lemma reaches_self_iff:
  assumes "n \<in> set (names rem)"
  shows "reaches_self rem n = Some ((n, n) \<in> (edges rem)\<^sup>+)"
proof -
  have "unvisited rem [] \<le> length rem"
    unfolding unvisited_def by (metis Diff_empty card_length length_map list.set(1))
  then have "reach_ok n n rem [] (dependencyReaches (length rem + 2) n n rem [])"
    using assms by (intro dependencyReaches_correct) auto
  then obtain found v where "dependencyReaches (length rem + 2) n n rem [] = Some (found, v)"
    and "if found then (n, n) \<in> (edges rem)\<^sup>+ else n \<in> set v \<and> searched n rem [] v"
    unfolding reach_ok_def by blast
  then show ?thesis
    using searched_no_path [of n rem v n] by (cases found) (auto simp: reaches_self_def)
qed

lemma cycleMembers_eq: "cycleMembers rem = filter (\<lambda>n. (n, n) \<in> (edges rem)\<^sup>+) (names rem)"
  unfolding cycleMembers_def by (rule filter_cong) (auto simp: reaches_self_iff simp del: set_map)

section \<open>The stage loop\<close>

definition cyclic :: "Component list \<Rightarrow> string \<Rightarrow> bool" where
  "cyclic active n \<longleftrightarrow> (n, n) \<in> (edges active)\<^sup>+"

text \<open>
  What holds at every turn of the stage loop: the remaining components are those not staged yet,
  whatever a staged component requires is staged, and no staged component lies on a cycle.
\<close>

definition stage_inv :: "Component list \<Rightarrow> Component list \<Rightarrow> string list \<Rightarrow> bool" where
  "stage_inv active rem staged \<longleftrightarrow>
     distinct (names active) \<and> rem = filter (\<lambda>c. Name c \<notin> set staged) active \<and>
     (\<forall>c \<in> set active. set (DependsOn c) \<subseteq> set (names active)) \<and>
     (\<forall>c \<in> set active. Name c \<in> set staged \<longrightarrow> set (DependsOn c) \<subseteq> set staged) \<and>
     set staged \<subseteq> set (names active) \<and> (\<forall>n \<in> set staged. \<not> cyclic active n)"

lemma edge_iff:
  "distinct (names cs) \<Longrightarrow> (a, b) \<in> edges cs \<longleftrightarrow> (\<exists>c \<in> set cs. a = Name c \<and> b \<in> set (DependsOn c))"
  by (auto simp: edges_def deps_of_member)

lemma stage_inv_rem_names: "stage_inv active rem staged \<Longrightarrow> set (names rem) = set (names active) - set staged"
  by (auto simp: stage_inv_def)

lemma stage_inv_distinct: "stage_inv active rem staged \<Longrightarrow> distinct (names rem)"
  by (simp add: stage_inv_def distinct_names_filter)

lemma staged_closed:
  assumes inv: "stage_inv active rem staged" and "(a, b) \<in> (edges active)\<^sup>+" and "a \<in> set staged"
  shows "b \<in> set staged"
proof -
  have edge: "y \<in> set staged" if "(x, y) \<in> edges active" "x \<in> set staged" for x y
  proof -
    from that(1) inv obtain c where "c \<in> set active" "x = Name c" "y \<in> set (DependsOn c)"
      by (auto simp: stage_inv_def edge_iff)
    with that(2) inv show ?thesis by (auto simp: stage_inv_def)
  qed
  from assms(2,3) show ?thesis
    by (induction rule: trancl_induct) (auto intro: edge)
qed

lemma edges_rem_subset: "stage_inv active rem staged \<Longrightarrow> edges rem \<subseteq> edges active"
  using stage_inv_distinct by (fastforce simp: edge_iff stage_inv_def)

lemma edge_in_rem:
  assumes inv: "stage_inv active rem staged" and "(a, b) \<in> edges active" and "b \<notin> set staged"
  shows "(a, b) \<in> edges rem"
proof -
  have "a \<notin> set staged"
    using staged_closed [OF inv r_into_trancl [OF assms(2)]] assms(3) by blast
  with assms(2) inv show ?thesis
    using stage_inv_distinct [OF inv] by (auto simp: edge_iff stage_inv_def)
qed

lemma path_in_rem:
  assumes inv: "stage_inv active rem staged" and "(a, b) \<in> (edges active)\<^sup>+" and "b \<notin> set staged"
  shows "(a, b) \<in> (edges rem)\<^sup>+"
  using assms(2,3)
proof (induction rule: converse_trancl_induct)
  case (base a)
  then show ?case using edge_in_rem [OF inv] by blast
next
  case (step a c)
  have "c \<notin> set staged"
    using staged_closed [OF inv step.hyps(2)] step.prems by blast
  then have "(a, c) \<in> edges rem"
    using edge_in_rem [OF inv step.hyps(1)] by blast
  with step show ?case by (meson trancl_into_trancl2)
qed

lemma cyclic_rem_iff:
  assumes "stage_inv active rem staged" and "n \<notin> set staged"
  shows "cyclic rem n \<longleftrightarrow> cyclic active n"
  using path_in_rem [OF assms(1) _ assms(2)] trancl_mono [OF _ edges_rem_subset [OF assms(1)]]
  by (auto simp: cyclic_def)

lemma cycleMembers_rem:
  assumes inv: "stage_inv active rem staged"
  shows "cycleMembers rem = filter (cyclic active) (names active)"
proof -
  have "cycleMembers rem = filter (cyclic active) (names rem)"
    unfolding cycleMembers_eq
  proof (rule filter_cong)
    fix n assume "n \<in> set (names rem)"
    then have "n \<notin> set staged" using stage_inv_rem_names [OF inv] by blast
    then show "((n, n) \<in> (edges rem)\<^sup>+) = cyclic active n"
      using cyclic_rem_iff [OF inv] by (simp add: cyclic_def)
  qed simp
  also have "names rem = filter (\<lambda>n. n \<notin> set staged) (names active)"
    using inv names_filter [of "\<lambda>n. n \<notin> set staged" active] by (simp add: stage_inv_def)
  also have "filter (cyclic active) (filter (\<lambda>n. n \<notin> set staged) (names active)) =
      filter (cyclic active) (names active)"
    unfolding filter_filter by (rule filter_cong) (use inv in \<open>auto simp: stage_inv_def\<close>)
  finally show ?thesis .
qed

lemma finite_edges: "finite (edges cs)"
proof -
  have "edges cs = (\<Union>a \<in> set (names cs). (\<lambda>b. (a, b)) ` set (deps_of cs a))"
    by (auto simp: edges_def)
  also have "finite \<dots>" by blast
  finally show ?thesis .
qed

text \<open>When no remaining component is ready, each requires another remaining one: a cycle.\<close>

lemma stuck_cyclic:
  assumes inv: "stage_inv active rem staged" and "rem \<noteq> []" and "filter (ready staged) rem = []"
  shows "\<exists>n. cyclic active n"
proof (rule ccontr)
  assume "\<nexists>n. cyclic active n"
  then have "acyclic (edges active)"
    by (simp add: acyclic_def cyclic_def)
  then have "wf ((edges active)\<inverse>)"
    by (rule finite_acyclic_wf_converse [OF finite_edges])
  moreover have "Name (hd rem) \<in> set (names rem)"
    using assms(2) by simp
  ultimately obtain z where z: "z \<in> set (names rem)"
    and min: "\<And>y. (y, z) \<in> (edges active)\<inverse> \<Longrightarrow> y \<notin> set (names rem)"
    by (rule wfE_min) blast
  obtain c where c: "c \<in> set rem" "z = Name c" using z by auto
  then have "\<not> ready staged c" using assms(3) by (auto simp: filter_empty_conv)
  then obtain r where r: "r \<in> set (DependsOn c)" "r \<notin> set staged"
    by (auto simp: ready_def list_all_iff)
  have ca: "c \<in> set active" using c inv by (auto simp: stage_inv_def)
  then have "(z, r) \<in> edges active" using r(1) c(2) inv by (auto simp: edge_iff stage_inv_def)
  moreover have "r \<in> set (names active)" using ca r(1) inv by (auto simp: stage_inv_def)
  then have "r \<in> set (names rem)" using r(2) stage_inv_rem_names [OF inv] by blast
  ultimately show False using min [of r] by blast
qed

lemma stage_inv_step:
  assumes inv: "stage_inv active rem staged" and stage: "stage = names (filter (ready staged) rem)"
  shows "stage_inv active (filter (\<lambda>c. Name c \<notin> set stage) rem) (staged @ sort stage)"
proof -
  have dist: "distinct (names active)" using inv by (simp add: stage_inv_def)
  have dep: "set (DependsOn c) \<subseteq> set staged" if "c \<in> set active" "Name c \<in> set stage" for c
  proof -
    from that(2) stage obtain c' where c': "c' \<in> set rem" "ready staged c'" "Name c = Name c'" by auto
    then have "c' \<in> set active" using inv by (auto simp: stage_inv_def)
    then have "c = c'" using that(1) c'(3) dist by (auto simp: distinct_map inj_on_def)
    with c'(2) show ?thesis by (auto simp: ready_def list_all_iff)
  qed
  have "\<not> cyclic active n" if "n \<in> set stage" for n
  proof
    assume "cyclic active n"
    then obtain d where d: "(n, d) \<in> edges active" "(d, n) \<in> (edges active)\<^sup>*"
      unfolding cyclic_def by (meson tranclD)
    then obtain c where "c \<in> set active" "n = Name c" "d \<in> set (DependsOn c)"
      using dist by (auto simp: edge_iff)
    with dep that have "d \<in> set staged" by blast
    with d(2) have "n \<in> set staged"
      using staged_closed [OF inv] by (metis rtranclD)
    moreover have "n \<notin> set staged"
      using that stage stage_inv_rem_names [OF inv] by auto
    ultimately show False by blast
  qed
  moreover have "set stage \<subseteq> set (names active)"
    using stage stage_inv_rem_names [OF inv] by auto
  moreover have "filter (\<lambda>c. Name c \<notin> set stage) rem = filter (\<lambda>c. Name c \<notin> set (staged @ sort stage)) active"
    using inv by (simp add: stage_inv_def conj_commute)
  ultimately show ?thesis
    using inv dep unfolding stage_inv_def by (auto simp: subset_iff)
qed

lemma stage_inv_init:
  assumes "distinct (names active)" and "missing_dependencies active = []"
  shows "stage_inv active active []"
  using assms by (fastforce simp: stage_inv_def missing_dependencies_def filter_empty_conv)

lemma stage_loop_outcome:
  "stage_inv active rem staged \<Longrightarrow>
     (case stage_loop rem staged stages of
        Inl e \<Rightarrow> e = CycleError (sort (filter (cyclic active) (names active))) \<and> (\<exists>n. cyclic active n)
      | Inr out \<Rightarrow> (\<nexists>n. cyclic active n))"
proof (induction rem staged stages rule: stage_loop.induct)
  case (1 rem staged stages)
  let ?stage = "names (filter (ready staged) rem)"
  consider "rem = []" | "rem \<noteq> []" "?stage = []" | "rem \<noteq> []" "?stage \<noteq> []" by blast
  then show ?case
  proof cases
    case 1
    have "\<not> cyclic active n" for n
    proof
      assume c: "cyclic active n"
      then have "n \<in> set (names active)"
        unfolding cyclic_def by (auto simp: edges_def dest: tranclD)
      with 1 \<open>stage_inv active rem staged\<close> have "n \<in> set staged"
        using stage_inv_rem_names [of active rem staged] by auto
      with c \<open>stage_inv active rem staged\<close> show False by (auto simp: stage_inv_def)
    qed
    with 1 show ?thesis by (simp add: stage_loop.simps)
  next
    case 2
    with \<open>stage_inv active rem staged\<close> stuck_cyclic cycleMembers_rem show ?thesis
      by (simp add: stage_loop.simps [of rem])
  next
    case 3
    with "1.IH" [OF 3(1) refl 3(2) stage_inv_step [OF "1.prems" refl]] show ?thesis
      by (simp add: stage_loop.simps [of rem] Let_def)
  qed
qed

text \<open>
  The order of the stages: a component is in the stage after the last component it requires, and
  not in a later one.
\<close>

definition ordered_stages :: "Component list \<Rightarrow> string list \<Rightarrow> string list list \<Rightarrow> bool" where
  "ordered_stages active staged stages \<longleftrightarrow>
     (\<forall>i < length stages. \<forall>c \<in> set active. Name c \<in> set (stages ! i) \<longrightarrow>
        set (DependsOn c) \<subseteq> set staged \<union> set (concat (take i stages)) \<and>
        (0 < i \<longrightarrow> \<not> set (DependsOn c) \<subseteq> set staged \<union> set (concat (take (i - 1) stages))))"

lemma ordered_stages_Cons:
  assumes first: "\<And>c. c \<in> set active \<Longrightarrow> Name c \<in> set stage \<Longrightarrow> set (DependsOn c) \<subseteq> set staged"
    and second: "\<And>c. c \<in> set active \<Longrightarrow> rest \<noteq> [] \<Longrightarrow> Name c \<in> set (rest ! 0) \<Longrightarrow> \<not> set (DependsOn c) \<subseteq> set staged"
    and rest: "ordered_stages active (staged @ stage) rest"
  shows "ordered_stages active staged (stage # rest)"
  unfolding ordered_stages_def
proof (intro allI impI ballI)
  fix i c
  assume i: "i < length (stage # rest)" and c: "c \<in> set active" "Name c \<in> set ((stage # rest) ! i)"
  show "set (DependsOn c) \<subseteq> set staged \<union> set (concat (take i (stage # rest))) \<and>
      (0 < i \<longrightarrow> \<not> set (DependsOn c) \<subseteq> set staged \<union> set (concat (take (i - 1) (stage # rest))))"
  proof (cases i)
    case 0
    with c first show ?thesis by auto
  next
    case (Suc j)
    with i c have j: "j < length rest" "Name c \<in> set (rest ! j)" by auto
    have "set (DependsOn c) \<subseteq> set (staged @ stage) \<union> set (concat (take j rest)) \<and>
        (0 < j \<longrightarrow> \<not> set (DependsOn c) \<subseteq> set (staged @ stage) \<union> set (concat (take (j - 1) rest)))"
      using rest c(1) j unfolding ordered_stages_def by blast
    moreover have "\<not> set (DependsOn c) \<subseteq> set staged" if "j = 0"
      using second [OF c(1)] j that by auto
    ultimately show ?thesis
      using Suc by (cases j) (auto simp: Un_assoc)
  qed
qed

definition stages_ok :: "Component list \<Rightarrow> Component list \<Rightarrow> string list \<Rightarrow> string list list \<Rightarrow> bool" where
  "stages_ok active rem staged stages \<longleftrightarrow>
     mset (concat stages) = mset (names rem) \<and> (\<forall>st \<in> set stages. st \<noteq> [] \<and> sorted st) \<and>
     ordered_stages active staged stages"

lemma stages_ok_step:
  assumes inv: "stage_inv active rem staged" and stage: "stage = names (filter (ready staged) rem)"
    and "stage \<noteq> []"
    and rest: "stages_ok active (filter (\<lambda>c. Name c \<notin> set stage) rem) (staged @ sort stage) rest"
  shows "stages_ok active rem staged (sort stage # rest)"
proof -
  have dist: "distinct (names rem)" by (rule stage_inv_distinct [OF inv])
  then have inj: "c = c'" if "c \<in> set rem" "c' \<in> set rem" "Name c = Name c'" for c c'
    using that by (auto simp: distinct_map inj_on_def)
  have ready_iff: "Name c \<in> set stage \<longleftrightarrow> ready staged c" if "c \<in> set rem" for c
    using inj that unfolding stage by auto
  have split: "filter (\<lambda>c. Name c \<notin> set stage) rem = filter (\<lambda>c. \<not> ready staged c) rem"
    by (rule filter_cong) (auto simp: ready_iff)
  have "mset (names rem) = mset stage + mset (names (filter (\<lambda>c. \<not> ready staged c) rem))"
    unfolding stage by (induction rem) auto
  moreover have in_rem: "c \<in> set rem" if "c \<in> set active" "Name c \<in> set (names rem)" for c
    using that inv by (auto simp: stage_inv_def)
  have "ordered_stages active staged (sort stage # rest)"
  proof (rule ordered_stages_Cons)
    fix c assume c: "c \<in> set active" "Name c \<in> set (sort stage)"
    then have "c \<in> set rem" using stage by (auto intro: in_rem)
    with c show "set (DependsOn c) \<subseteq> set staged"
      using ready_iff by (auto simp: ready_def list_all_iff)
  next
    fix c assume c: "c \<in> set active" "rest \<noteq> []" "Name c \<in> set (rest ! 0)"
    then have "Name c \<in># mset (concat rest)" by (auto simp: nth_mem)
    also have "mset (concat rest) = mset (names (filter (\<lambda>c. \<not> ready staged c) rem))"
      using rest split by (simp add: stages_ok_def)
    finally have "Name c \<in> set (names (filter (\<lambda>c. \<not> ready staged c) rem))"
      by (simp only: set_mset_mset)
    then have "c \<in> set rem" "\<not> ready staged c"
      using c(1) by (auto intro: in_rem) (metis inj in_rem image_eqI c(1) image_set)
    then show "\<not> set (DependsOn c) \<subseteq> set staged"
      by (auto simp: ready_def list_all_iff)
  next
    show "ordered_stages active (staged @ sort stage) rest"
      using rest by (simp add: stages_ok_def)
  qed
  moreover have "sort stage \<noteq> []"
    using \<open>stage \<noteq> []\<close> by (metis length_0_conv length_sort)
  ultimately show ?thesis
    using rest split by (auto simp: stages_ok_def)
qed

lemma stage_loop_stages:
  "stage_inv active rem staged \<Longrightarrow> stage_loop rem staged stages = Inr out \<Longrightarrow>
     \<exists>rest. out = stages @ rest \<and> stages_ok active rem staged rest"
proof (induction rem staged stages rule: stage_loop.induct)
  case (1 rem staged stages)
  let ?stage = "names (filter (ready staged) rem)"
  consider "rem = []" | "rem \<noteq> []" "?stage \<noteq> []"
    using "1.prems"(2) by (auto simp: stage_loop.simps [of rem] Let_def split: if_splits)
  then show ?case
  proof cases
    case 1
    with \<open>stage_loop rem staged stages = Inr out\<close> show ?thesis
      by (simp add: stage_loop.simps stages_ok_def ordered_stages_def)
  next
    case 2
    then have "stage_loop (filter (\<lambda>c. Name c \<notin> set ?stage) rem) (staged @ sort ?stage) (stages @ [sort ?stage]) = Inr out"
      using "1.prems"(2) by (simp add: stage_loop.simps [of rem] Let_def)
    then obtain rest where "out = (stages @ [sort ?stage]) @ rest"
      and "stages_ok active (filter (\<lambda>c. Name c \<notin> set ?stage) rem) (staged @ sort ?stage) rest"
      using "1.IH" [OF 2(1) refl 2(2) stage_inv_step [OF "1.prems"(1) refl]] by blast
    with stages_ok_step [OF "1.prems"(1) refl 2(2)] show ?thesis
      by (intro exI [of _ "sort ?stage # rest"]) simp
  qed
qed

section \<open>Iteration order\<close>

lemma sort_mset_cong: "mset xs = mset ys \<Longrightarrow> sort xs = sort ys"
  by (rule properties_for_sort) simp_all

lemma edges_mset_cong:
  assumes "mset cs = mset cs'" and "distinct (names cs)"
  shows "edges cs = edges cs'"
proof -
  have "distinct (names cs')"
    using assms by (metis mset_eq_imp_distinct_iff mset_map)
  with assms show ?thesis
    by (auto simp: edge_iff dest: mset_eq_setD)
qed

lemma cycleMembers_mset_cong:
  assumes "mset cs = mset cs'" and "distinct (names cs)"
  shows "sort (cycleMembers cs) = sort (cycleMembers cs')"
proof (rule sort_mset_cong)
  show "mset (cycleMembers cs) = mset (cycleMembers cs')"
    using assms by (simp add: cycleMembers_eq edges_mset_cong)
qed

lemma stage_loop_mset_cong:
  "mset rem = mset rem' \<Longrightarrow> distinct (names rem) \<Longrightarrow>
     stage_loop rem staged stages = stage_loop rem' staged stages"
proof (induction rem staged stages arbitrary: rem' rule: stage_loop.induct)
  case (1 rem staged stages)
  let ?stage = "names (filter (ready staged) rem)" and ?stage' = "names (filter (ready staged) rem')"
  have m: "mset ?stage = mset ?stage'"
    using "1.prems"(1) by simp
  have sort_eq: "sort ?stage = sort ?stage'" and set_eq: "set ?stage = set ?stage'"
    using m by (rule sort_mset_cong, rule mset_eq_setD)
  consider "rem = []" | "rem \<noteq> []" "?stage = []" | "rem \<noteq> []" "?stage \<noteq> []" by blast
  then show ?case
  proof cases
    case 1
    with \<open>mset rem = mset rem'\<close> show ?thesis by simp
  next
    case 2
    then have "rem' \<noteq> []" "?stage' = []"
      using m \<open>mset rem = mset rem'\<close> by auto
    with 2 "1.prems" show ?thesis
      by (simp add: stage_loop.simps [of rem] stage_loop.simps [of rem'] cycleMembers_mset_cong)
  next
    case 3
    then have "?stage' \<noteq> []"
      by (metis m mset_zero_iff)
    moreover from this have "rem' \<noteq> []" by auto
    moreover have "mset (filter (\<lambda>c. Name c \<notin> set ?stage) rem) = mset (filter (\<lambda>c. Name c \<notin> set ?stage') rem')"
      using \<open>mset rem = mset rem'\<close> set_eq by simp
    moreover have "distinct (names (filter (\<lambda>c. Name c \<notin> set ?stage) rem))"
      using "1.prems"(2) by (rule distinct_names_filter)
    ultimately show ?thesis
      using 3 "1.IH" [OF 3(1) refl 3(2)] sort_eq
      by (simp add: stage_loop.simps [of rem] stage_loop.simps [of rem'] Let_def)
  qed
qed

lemma missing_dependencies_mset_cong:
  assumes "mset cs = mset cs'"
  shows "mset (missing_dependencies cs) = mset (missing_dependencies cs')"
proof -
  have "set (names cs) = set (names cs')"
    using assms by (metis mset_eq_setD set_map)
  moreover have "mset (concat (map f cs)) = mset (concat (map f cs'))" for f :: "Component \<Rightarrow> Dependency list"
    using assms by (simp add: mset_concat flip: sum_mset_sum_list)
  ultimately show ?thesis by (simp add: missing_dependencies_def)
qed

section \<open>The legacy table\<close>

definition legacyDefinitions :: "Component list" where
  "legacyDefinitions = [
    \<lparr>Name = ''database'', DependsOn = []\<rparr>,
    \<lparr>Name = ''wallet'', DependsOn = [''database'']\<rparr>,
    \<lparr>Name = ''wallet_server_payments'', DependsOn = [''wallet'']\<rparr>,
    \<lparr>Name = ''blob_manager'', DependsOn = [''database'']\<rparr>,
    \<lparr>Name = ''dht'', DependsOn = [''upnp'', ''database'']\<rparr>,
    \<lparr>Name = ''hash_announcer'', DependsOn = [''dht'', ''database'']\<rparr>,
    \<lparr>Name = ''file_manager'', DependsOn = [''blob_manager'', ''database'', ''wallet'']\<rparr>,
    \<lparr>Name = ''background_downloader'', DependsOn = [''database'', ''blob_manager'', ''disk_space'']\<rparr>,
    \<lparr>Name = ''disk_space'', DependsOn = [''database'', ''blob_manager'']\<rparr>,
    \<lparr>Name = ''libtorrent_component'', DependsOn = []\<rparr>,
    \<lparr>Name = ''peer_protocol_server'', DependsOn = [''upnp'', ''blob_manager'', ''wallet'']\<rparr>,
    \<lparr>Name = ''upnp'', DependsOn = []\<rparr>,
    \<lparr>Name = ''exchange_rate_manager'', DependsOn = []\<rparr>,
    \<lparr>Name = ''tracker_announcer_component'', DependsOn = [''file_manager'']\<rparr>]"

text \<open>\<^verbatim>\<open>mustNew\<close> panics where \<^verbatim>\<open>New\<close> fails; the panic is \<open>None\<close>.\<close>

definition mustNew :: "Component list \<Rightarrow> Graph option" where
  "mustNew cs = (case New cs of Inl e \<Rightarrow> None | Inr g \<Rightarrow> Some g)"

definition legacyGraph :: "Graph option" where
  "legacyGraph = mustNew legacyDefinitions"

definition LegacyStartStages :: "string list \<Rightarrow> graph_error + string list list" where
  "LegacyStartStages skipped = StartStages legacyGraph skipped"

definition LegacyStopStages :: "string list \<Rightarrow> graph_error + string list list" where
  "LegacyStopStages skipped = StopStages legacyGraph skipped"

section \<open>What StartStages and StopStages return\<close>

lemma active_distinct: "distinct (names cs) \<Longrightarrow> distinct (names (active_components cs skipped))"
  by (simp add: active_components_def distinct_names_filter)

lemma missing_dependencies_Nil:
  "missing_dependencies cs = [] \<longleftrightarrow> (\<forall>c \<in> set cs. set (DependsOn c) \<subseteq> set (names cs))"
  by (auto simp: missing_dependencies_def filter_empty_conv)

lemma StartStages_Inr:
  assumes "New cs = Inr g" and "StartStages (Some g) skipped = Inr stages"
  shows "stages_ok (active_components cs skipped) (active_components cs skipped) [] stages"
proof -
  let ?active = "active_components cs skipped"
  have "stage_inv ?active ?active []" and "stage_loop ?active [] [] = Inr stages"
    using assms New_Inr [OF assms(1)]
    by (auto simp: StartStages_def Let_def active_distinct stage_inv_init split: if_splits)
  then show ?thesis using stage_loop_stages by fastforce
qed

text \<open>
  C16. When \<^verbatim>\<open>StartStages\<close> succeeds, the stages hold every component that is not skipped exactly once,
  each stage is nonempty and sorted, and a component is placed in the first stage before which all
  components it requires have been placed.
\<close>

theorem StartStages_sound:
  assumes "New cs = Inr g" and "StartStages (Some g) skipped = Inr stages"
  shows "mset (concat stages) = mset (names (active_components cs skipped))
    \<and> (\<forall>st \<in> set stages. st \<noteq> [] \<and> sorted st)
    \<and> (\<forall>i < length stages. \<forall>c \<in> set (active_components cs skipped). Name c \<in> set (stages ! i) \<longrightarrow>
         set (DependsOn c) \<subseteq> set (concat (take i stages)) \<and>
         (0 < i \<longrightarrow> \<not> set (DependsOn c) \<subseteq> set (concat (take (i - 1) stages))))"
  using StartStages_Inr [OF assms] by (simp add: stages_ok_def ordered_stages_def)

theorem StartStages_sound_witness:
  "mset (concat [[''a''], [''b'']]) = mset (names (active_components
     [\<lparr>Name = ''b'', DependsOn = [''a'']\<rparr>, \<lparr>Name = ''a'', DependsOn = []\<rparr>] []))"
proof -
  let ?cs = "[\<lparr>Name = ''b'', DependsOn = [''a'']\<rparr>, \<lparr>Name = ''a'', DependsOn = []\<rparr>]"
  have "New ?cs = Inr \<lparr>components = ?cs\<rparr>" by code_simp
  moreover have "StartStages (Some \<lparr>components = ?cs\<rparr>) [] = Inr [[''a''], [''b'']]" by code_simp
  ultimately show ?thesis using StartStages_sound by blast
qed

text \<open>
  C17. Which outcome \<^verbatim>\<open>StartStages\<close> has: missing requirements are reported first, all of them and
  sorted; otherwise it fails exactly when the requirements of the active components have a cycle,
  and then reports exactly the components that lie on a cycle, sorted; otherwise it succeeds. The
  search behind the report always comes back.
\<close>

theorem StartStages_outcome:
  assumes "New cs = Inr g"
  shows "let active = active_components cs skipped; missing = missing_dependencies active;
             on_cycle = filter (cyclic active) (names active)
         in if missing \<noteq> [] then StartStages (Some g) skipped = Inl (MissingDependenciesError (sort missing))
            else if on_cycle \<noteq> [] then StartStages (Some g) skipped = Inl (CycleError (sort on_cycle))
            else \<exists>stages. StartStages (Some g) skipped = Inr stages"
proof -
  let ?active = "active_components cs skipped"
  have dist: "distinct (names ?active)" and comps: "components g = cs"
    using New_Inr [OF assms] by (auto simp: active_distinct)
  show ?thesis
  proof (cases "missing_dependencies ?active = []")
    case False
    then show ?thesis by (simp add: StartStages_def comps Let_def)
  next
    case True
    have cyc: "(\<exists>n. cyclic ?active n) \<longleftrightarrow> filter (cyclic ?active) (names ?active) \<noteq> []"
      by (auto simp: filter_empty_conv cyclic_def edges_def dest: tranclD)
    have "StartStages (Some g) skipped = stage_loop ?active [] []"
      using True by (simp add: StartStages_def comps)
    with stage_loop_outcome [OF stage_inv_init [OF dist True], of "[]"] cyc True show ?thesis
      by (auto simp: Let_def split: sum.splits)
  qed
qed

theorem StartStages_outcome_witness:
  "\<exists>g. New [\<lparr>Name = ''a'', DependsOn = [''a'']\<rparr>] = Inr g \<and> StartStages (Some g) [''a''] = Inr []"
proof -
  let ?cs = "[\<lparr>Name = ''a'', DependsOn = [''a'']\<rparr>]"
  have new: "New ?cs = Inr \<lparr>components = ?cs\<rparr>" by code_simp
  have "missing_dependencies (active_components ?cs [''a'']) = []" by code_simp
  then have "\<exists>stages. StartStages (Some \<lparr>components = ?cs\<rparr>) [''a''] = Inr stages"
    using StartStages_outcome [OF new, of "[''a'']"] by (simp add: active_components_def Let_def)
  moreover have "StartStages (Some \<lparr>components = ?cs\<rparr>) [''a''] = Inr []" by code_simp
  ultimately show ?thesis using new by blast
qed

text \<open>
  The order in which Go iterates over the component map has no influence: two graphs with the
  same components return the same stages or the same error.
\<close>

theorem StartStages_iteration_order:
  assumes "mset (components g) = mset (components g')" and "distinct (names (components g))"
  shows "StartStages (Some g) skipped = StartStages (Some g') skipped"
proof -
  let ?a = "active_components (components g) skipped" and ?a' = "active_components (components g') skipped"
  have m: "mset ?a = mset ?a'"
    using assms(1) by (simp add: active_components_def)
  then have miss: "mset (missing_dependencies ?a) = mset (missing_dependencies ?a')"
    by (rule missing_dependencies_mset_cong)
  then have "missing_dependencies ?a = [] \<longleftrightarrow> missing_dependencies ?a' = []"
    by (metis mset_zero_iff)
  moreover have "sort (missing_dependencies ?a) = sort (missing_dependencies ?a')"
    using miss by (rule sort_mset_cong)
  moreover have "stage_loop ?a [] [] = stage_loop ?a' [] []"
    using m active_distinct [OF assms(2)] by (rule stage_loop_mset_cong)
  ultimately show ?thesis by (simp add: StartStages_def Let_def)
qed

theorem StartStages_iteration_order_witness:
  "StartStages (Some \<lparr>components = [\<lparr>Name = ''b'', DependsOn = []\<rparr>, \<lparr>Name = ''a'', DependsOn = []\<rparr>]\<rparr>) [] =
   StartStages (Some \<lparr>components = [\<lparr>Name = ''a'', DependsOn = []\<rparr>, \<lparr>Name = ''b'', DependsOn = []\<rparr>]\<rparr>) []"
  by (rule StartStages_iteration_order) simp_all

lemma cyclic_active_mono:
  assumes "distinct (names cs)" and "cyclic (active_components cs skipped) n"
  shows "cyclic cs n"
proof -
  have "edges (active_components cs skipped) \<subseteq> edges cs"
    using assms(1) active_distinct [OF assms(1)] by (auto simp: edge_iff active_components_def)
  with assms(2) show ?thesis
    unfolding cyclic_def by (rule trancl_mono)
qed

lemma legacyGraph_eq: "legacyGraph = Some \<lparr>components = legacyDefinitions\<rparr>"
  by code_simp

lemma legacy_acyclic: "\<not> cyclic legacyDefinitions n"
proof -
  have "distinct (names legacyDefinitions)" and "missing_dependencies legacyDefinitions = []"
    by code_simp+
  then have "stage_inv legacyDefinitions legacyDefinitions []" by (rule stage_inv_init)
  moreover have "\<exists>stages. stage_loop legacyDefinitions [] [] = Inr stages"
  proof -
    have "stage_loop legacyDefinitions [] [] =
      Inr [[''database'', ''exchange_rate_manager'', ''libtorrent_component'', ''upnp''],
        [''blob_manager'', ''dht'', ''wallet''],
        [''disk_space'', ''file_manager'', ''hash_announcer'', ''peer_protocol_server'', ''wallet_server_payments''],
        [''background_downloader'', ''tracker_announcer_component'']]"
      by code_simp
    then show ?thesis by blast
  qed
  ultimately show ?thesis
    using stage_loop_outcome [of legacyDefinitions legacyDefinitions "[]" "[]"] by auto
qed

text \<open>
  C18. The daemon's own component table: package initialisation does not panic, the whole table starts
  in four stages (and stops in the reverse order), and whatever components the configuration skips,
  the only way to fail is a component that requires a skipped one, never a cycle.
\<close>

theorem LegacyStartStages_correct:
  "legacyGraph \<noteq> None
   \<and> LegacyStartStages [] = Inr
       [[''database'', ''exchange_rate_manager'', ''libtorrent_component'', ''upnp''],
        [''blob_manager'', ''dht'', ''wallet''],
        [''disk_space'', ''file_manager'', ''hash_announcer'', ''peer_protocol_server'', ''wallet_server_payments''],
        [''background_downloader'', ''tracker_announcer_component'']]
   \<and> LegacyStopStages [] = map_sum id rev (LegacyStartStages [])
   \<and> (if missing_dependencies (active_components legacyDefinitions skipped) = []
      then \<exists>stages. LegacyStartStages skipped = Inr stages
      else LegacyStartStages skipped = Inl (MissingDependenciesError
             (sort (missing_dependencies (active_components legacyDefinitions skipped)))))"
proof -
  let ?active = "active_components legacyDefinitions skipped"
  have dist: "distinct (names legacyDefinitions)" by code_simp
  have start: "LegacyStartStages [] = Inr
       [[''database'', ''exchange_rate_manager'', ''libtorrent_component'', ''upnp''],
        [''blob_manager'', ''dht'', ''wallet''],
        [''disk_space'', ''file_manager'', ''hash_announcer'', ''peer_protocol_server'', ''wallet_server_payments''],
        [''background_downloader'', ''tracker_announcer_component'']]"
    by code_simp
  have skip: "\<exists>stages. LegacyStartStages skipped = Inr stages" if "missing_dependencies ?active = []"
  proof -
    have "stage_inv ?active ?active []"
      using active_distinct [OF dist] that by (rule stage_inv_init)
    then have "\<exists>stages. stage_loop ?active [] [] = Inr stages"
      using stage_loop_outcome [of ?active ?active "[]" "[]"] cyclic_active_mono [OF dist] legacy_acyclic
      by (auto split: sum.splits)
    with that show ?thesis
      by (simp add: LegacyStartStages_def StartStages_def legacyGraph_eq)
  qed
  have stop: "LegacyStopStages [] = map_sum id rev (LegacyStartStages [])"
    unfolding LegacyStopStages_def StopStages_def LegacyStartStages_def by (simp split: sum.split)
  show ?thesis
    using start stop skip by (simp add: legacyGraph_eq LegacyStartStages_def StartStages_def)
qed

end
