(* ===== verification/TransactionScript.thy ===== *)
theory TransactionScript
  imports Prelude
begin

text \<open>
  The script parser of \<^verbatim>\<open>wallet/transaction_script.go\<close>: the tokenizer, the matchers of the output and
  input templates and the nested redeem scripts. The structs are records with the code's fields. A
  \<^verbatim>\<open>nil\<close> and an empty byte slice are both the empty list; where the code tests a slice for \<^verbatim>\<open>nil\<close> the
  model uses an option. A nil error is \<open>None\<close>. The position in the source is the suffix that is
  left to read.
\<close>

section \<open>Opcodes, template names, records\<close>

abbreviation (input) transactionOp0 :: byte where "transactionOp0 \<equiv> 0x00"
abbreviation (input) transactionOpPushData1 :: byte where "transactionOpPushData1 \<equiv> 0x4c"
abbreviation (input) transactionOpPushData2 :: byte where "transactionOpPushData2 \<equiv> 0x4d"
abbreviation (input) transactionOpPushData4 :: byte where "transactionOpPushData4 \<equiv> 0x4e"
abbreviation (input) transactionOp1 :: byte where "transactionOp1 \<equiv> 0x51"
abbreviation (input) transactionOp16 :: byte where "transactionOp16 \<equiv> 0x60"
abbreviation (input) transactionOpReturn :: byte where "transactionOpReturn \<equiv> 0x6a"
abbreviation (input) transactionOp2Drop :: byte where "transactionOp2Drop \<equiv> 0x6d"
abbreviation (input) transactionOpDrop :: byte where "transactionOpDrop \<equiv> 0x75"
abbreviation (input) transactionOpDup :: byte where "transactionOpDup \<equiv> 0x76"
abbreviation (input) transactionOpEqual :: byte where "transactionOpEqual \<equiv> 0x87"
abbreviation (input) transactionOpEqualVerify :: byte where "transactionOpEqualVerify \<equiv> 0x88"
abbreviation (input) transactionOpHash160 :: byte where "transactionOpHash160 \<equiv> 0xa9"
abbreviation (input) transactionOpCheckSig :: byte where "transactionOpCheckSig \<equiv> 0xac"
abbreviation (input) transactionOpCheckMultiSig :: byte where "transactionOpCheckMultiSig \<equiv> 0xae"
abbreviation (input) transactionOpCheckLockTimeVerify :: byte where "transactionOpCheckLockTimeVerify \<equiv> 0xb1"
abbreviation (input) transactionOpClaimName :: byte where "transactionOpClaimName \<equiv> 0xb5"
abbreviation (input) transactionOpSupportClaim :: byte where "transactionOpSupportClaim \<equiv> 0xb6"
abbreviation (input) transactionOpUpdateClaim :: byte where "transactionOpUpdateClaim \<equiv> 0xb7"

abbreviation (input) "TransactionScriptNoScript \<equiv> ''no_script''"
abbreviation (input) "TransactionScriptPayPubKeyFull \<equiv> ''pay_pubkey_full''"
abbreviation (input) "TransactionScriptPayPubKeyHash \<equiv> ''pay_pubkey_hash''"
abbreviation (input) "TransactionScriptPayScriptHash \<equiv> ''pay_script_hash''"
abbreviation (input) "TransactionScriptPaySegWit \<equiv> ''pay_script_hash+segwit''"
abbreviation (input) "TransactionScriptReturnData \<equiv> ''return_data''"
abbreviation (input) "TransactionScriptClaimPubKeyHash \<equiv> ''claim_name+pay_pubkey_hash''"
abbreviation (input) "TransactionScriptClaimScriptHash \<equiv> ''claim_name+pay_script_hash''"
abbreviation (input) "TransactionScriptSupportPubKey \<equiv> ''support_claim+pay_pubkey_hash''"
abbreviation (input) "TransactionScriptSupportScript \<equiv> ''support_claim+pay_script_hash''"
abbreviation (input) "TransactionScriptSupportDataKey \<equiv> ''support_claim+data+pay_pubkey_hash''"
abbreviation (input) "TransactionScriptSupportDataHash \<equiv> ''support_claim+data+pay_script_hash''"
abbreviation (input) "TransactionScriptUpdatePubKey \<equiv> ''update_claim+pay_pubkey_hash''"
abbreviation (input) "TransactionScriptUpdateScript \<equiv> ''update_claim+pay_script_hash''"
abbreviation (input) "TransactionInputNoScript \<equiv> ''no_script''"
abbreviation (input) "TransactionInputPubKey \<equiv> ''pubkey''"
abbreviation (input) "TransactionInputPubKeyHash \<equiv> ''pubkey_hash''"
abbreviation (input) "TransactionInputScriptHashTime \<equiv> ''script_hash+timelock''"
abbreviation (input) "TransactionInputScriptHashMulti \<equiv> ''script_hash+multi_sig''"
abbreviation (input) "TransactionInputTimeLock \<equiv> ''timelock''"
abbreviation (input) "TransactionInputMultiSig \<equiv> ''multi_sig''"

text \<open>
  The errors that parsing and generating put in an error field or return; each constructor is one
  message. The first four wrap \<^verbatim>\<open>ErrInvalidTransactionScript\<close>, the others
  \<^verbatim>\<open>ErrTransactionScriptGeneration\<close>.
\<close>

datatype script_error =
    TruncatedPUSHDATA2
  | TruncatedPUSHDATA4
  | NoMatchingOutputTemplate
  | NoMatchingInputTemplate
  | PushedValueTooLarge
  | ScriptIntegerIsNil
  | SmallIntegerOutside int
  | NoScriptTemplate
  | UnknownTemplate string
  | UnknownClaimOpcode byte
  | SubscriptIsNil
  | InvalidTimelockSource
  | TimelockSourceRequired

record TransactionOutputScript =
  Source :: bytes
  Template :: string
  PublicKey :: bytes
  PubKeyHash :: bytes
  ScriptHash :: bytes
  Data :: bytes
  ClaimName :: bytes
  ClaimID :: bytes
  Claim :: bytes
  Support :: bytes
  HasPubKeyHash :: bool
  HasScriptHash :: bool
  HasSupportData :: bool
  Err :: "script_error option"

definition empty_output_script :: TransactionOutputScript where
  "empty_output_script = \<lparr>Source = [], Template = '''', PublicKey = [], PubKeyHash = [], ScriptHash = [],
     Data = [], ClaimName = [], ClaimID = [], Claim = [], Support = [], HasPubKeyHash = False,
     HasScriptHash = False, HasSupportData = False, Err = None\<rparr>"

record TransactionInputSubscript =
  SubSource :: bytes
  SubTemplate :: string
  Height :: "int option"
  SubPubKeyHash :: bytes
  SignaturesCount :: byte
  PublicKeys :: "bytes list"
  PublicKeysCount :: byte

record TransactionInputScript =
  InSource :: bytes
  InTemplate :: string
  Signature :: bytes
  InPublicKey :: bytes
  Signatures :: "bytes list"
  Script :: "TransactionInputSubscript option"
  InErr :: "script_error option"

definition empty_input_script :: TransactionInputScript where
  "empty_input_script = \<lparr>InSource = [], InTemplate = '''', Signature = [], InPublicKey = [],
     Signatures = [], Script = None, InErr = None\<rparr>"

definition empty_subscript :: TransactionInputSubscript where
  "empty_subscript = \<lparr>SubSource = [], SubTemplate = '''', Height = None, SubPubKeyHash = [],
     SignaturesCount = 0, PublicKeys = [], PublicKeysCount = 0\<rparr>"

section \<open>Predicates of an output script\<close>

definition has_suffix :: "string \<Rightarrow> string \<Rightarrow> bool" where
  "has_suffix s suf \<longleftrightarrow> length suf \<le> length s \<and> drop (length s - length suf) s = suf"

definition IsPayPubKeyHash :: "TransactionOutputScript \<Rightarrow> bool" where
  "IsPayPubKeyHash script \<longleftrightarrow> Err script = None \<and> has_suffix (Template script) TransactionScriptPayPubKeyHash"

definition IsPayScriptHash :: "TransactionOutputScript \<Rightarrow> bool" where
  "IsPayScriptHash script \<longleftrightarrow> Err script = None \<and> has_suffix (Template script) TransactionScriptPayScriptHash"

definition IsClaimName :: "TransactionOutputScript \<Rightarrow> bool" where
  "IsClaimName script \<longleftrightarrow> Template script = TransactionScriptClaimPubKeyHash \<or>
     Template script = TransactionScriptClaimScriptHash"

definition IsUpdateClaim :: "TransactionOutputScript \<Rightarrow> bool" where
  "IsUpdateClaim script \<longleftrightarrow> Template script = TransactionScriptUpdatePubKey \<or>
     Template script = TransactionScriptUpdateScript"

definition IsSupportClaim :: "TransactionOutputScript \<Rightarrow> bool" where
  "IsSupportClaim script \<longleftrightarrow> Template script = TransactionScriptSupportPubKey \<or>
     Template script = TransactionScriptSupportScript \<or>
     Template script = TransactionScriptSupportDataKey \<or>
     Template script = TransactionScriptSupportDataHash"

definition IsSupportData :: "TransactionOutputScript \<Rightarrow> bool" where
  "IsSupportData script \<longleftrightarrow> Template script = TransactionScriptSupportDataKey \<or>
     Template script = TransactionScriptSupportDataHash"

definition IsClaimInvolved :: "TransactionOutputScript \<Rightarrow> bool" where
  "IsClaimInvolved script \<longleftrightarrow> IsClaimName script \<or> IsUpdateClaim script \<or> IsSupportClaim script"

definition HasAddress :: "TransactionOutputScript \<Rightarrow> bool" where
  "HasAddress script \<longleftrightarrow> Err script = None \<and> (HasPubKeyHash script \<or> HasScriptHash script)"

section \<open>Tokens\<close>

record transactionScriptToken =
  opcode :: byte
  data :: bytes
  isData :: bool

definition opcode_token :: "byte \<Rightarrow> transactionScriptToken" where
  "opcode_token op = \<lparr>opcode = op, data = [], isData = False\<rparr>"

definition data_token :: "bytes \<Rightarrow> transactionScriptToken" where
  "data_token d = \<lparr>opcode = 0, data = d, isData = True\<rparr>"

text \<open>
  The length that follows a push opcode, and the source after it. A push opcode at the very end of
  the script has length zero; a partial two- or four-byte length is an error.
\<close>

definition push_length :: "byte \<Rightarrow> bytes \<Rightarrow> script_error + nat \<times> bytes" where
  "push_length op rest =
     (if op = transactionOpPushData1 then
        (case rest of [] \<Rightarrow> Inr (0, []) | n # rest' \<Rightarrow> Inr (unat n, rest'))
      else if op = transactionOpPushData2 then
        (if length rest = 0 then Inr (0, rest)
         else if length rest < 2 then Inl TruncatedPUSHDATA2
         else Inr (le_value (take 2 rest), drop 2 rest))
      else if op = transactionOpPushData4 then
        (if length rest = 0 then Inr (0, rest)
         else if length rest < 4 then Inl TruncatedPUSHDATA4
         else Inr (le_value (take 4 rest), drop 4 rest))
      else Inr (unat op, rest))"

lemma push_length_rest: "push_length op rest = Inr (n, rest') \<Longrightarrow> length rest' \<le> length rest"
  by (auto simp: push_length_def split: if_splits list.splits)

function tokenizeTransactionScript :: "bytes \<Rightarrow> script_error + transactionScriptToken list" where
  "tokenizeTransactionScript [] = Inr []"
| "tokenizeTransactionScript (op # rest) =
     (if op < 1 \<or> op > transactionOpPushData4 then
        (case tokenizeTransactionScript rest of
           Inl e \<Rightarrow> Inl e | Inr tokens \<Rightarrow> Inr (opcode_token op # tokens))
      else case push_length op rest of
        Inl e \<Rightarrow> Inl e
      | Inr (len, rest') \<Rightarrow>
          let len' = (if len > length rest' then length rest' else len)
          in case tokenizeTransactionScript (drop len' rest') of
               Inl e \<Rightarrow> Inl e | Inr tokens \<Rightarrow> Inr (data_token (take len' rest') # tokens))"
  by pat_completeness auto
termination
  by (relation "measure length") (auto dest: push_length_rest simp: less_Suc_eq_le)

declare tokenizeTransactionScript.simps [simp del]

definition tokenOpcode :: "transactionScriptToken \<Rightarrow> byte \<Rightarrow> bool" where
  "tokenOpcode token op \<longleftrightarrow> \<not> isData token \<and> opcode token = op"

definition tokenData :: "transactionScriptToken \<Rightarrow> bytes option" where
  "tokenData token =
     (if isData token then Some (data token)
      else if opcode token = transactionOp0 then Some []
      else None)"

definition strictTokenData :: "transactionScriptToken \<Rightarrow> bytes option" where
  "strictTokenData token = (if isData token then Some (data token) else None)"

definition tokenSmallInteger :: "transactionScriptToken \<Rightarrow> byte option" where
  "tokenSmallInteger token =
     (if isData token \<or> opcode token < transactionOp1 \<or> opcode token > transactionOp16 then None
      else Some (opcode token - transactionOp1 + 1))"

text \<open>The loops that collect signatures or public keys stop at the first token that is no data.\<close>

fun strict_all :: "transactionScriptToken list \<Rightarrow> bytes list option" where
  "strict_all [] = Some []"
| "strict_all (t # ts) =
     (case strictTokenData t of
        None \<Rightarrow> None
      | Some d \<Rightarrow> (case strict_all ts of None \<Rightarrow> None | Some ds \<Rightarrow> Some (d # ds)))"

section \<open>Template matchers\<close>

definition matchPayPubKeyFull :: "transactionScriptToken list \<Rightarrow> bytes option" where
  "matchPayPubKeyFull tokens =
     (if length tokens \<noteq> 2 \<or> \<not> tokenOpcode (tokens ! 1) transactionOpCheckSig then None
      else tokenData (tokens ! 0))"

definition matchPayPubKeyHash :: "transactionScriptToken list \<Rightarrow> bytes option" where
  "matchPayPubKeyHash tokens =
     (if length tokens \<noteq> 5 \<or> \<not> tokenOpcode (tokens ! 0) transactionOpDup \<or>
         \<not> tokenOpcode (tokens ! 1) transactionOpHash160 \<or>
         \<not> tokenOpcode (tokens ! 3) transactionOpEqualVerify \<or>
         \<not> tokenOpcode (tokens ! 4) transactionOpCheckSig then None
      else tokenData (tokens ! 2))"

definition matchPayScriptHash :: "transactionScriptToken list \<Rightarrow> bytes option" where
  "matchPayScriptHash tokens =
     (if length tokens \<noteq> 3 \<or> \<not> tokenOpcode (tokens ! 0) transactionOpHash160 \<or>
         \<not> tokenOpcode (tokens ! 2) transactionOpEqual then None
      else tokenData (tokens ! 1))"

text \<open>
  The first switch of \<^verbatim>\<open>parseClaimTransactionScript\<close>, one definition per case and the switch itself: the
  claim fields and the length of the claim prefix. The caller has checked that there are at least
  eight tokens.
\<close>

definition claim_name_prefix ::
    "transactionScriptToken list \<Rightarrow> TransactionOutputScript \<Rightarrow> (TransactionOutputScript \<times> nat) option" where
  "claim_name_prefix tokens script =
     (if length tokens < 5 \<or> \<not> tokenOpcode (tokens ! 3) transactionOp2Drop \<or>
         \<not> tokenOpcode (tokens ! 4) transactionOpDrop then None
      else (case tokenData (tokens ! 2) of
              None \<Rightarrow> None
            | Some claim \<Rightarrow> Some (script\<lparr>Claim := claim\<rparr>, 5)))"

definition support_claim_prefix ::
    "transactionScriptToken list \<Rightarrow> TransactionOutputScript \<Rightarrow> (TransactionOutputScript \<times> nat) option" where
  "support_claim_prefix tokens script =
     (case tokenData (tokens ! 2) of
        None \<Rightarrow> None
      | Some claimID \<Rightarrow>
          if 6 \<le> length tokens \<and> tokenOpcode (tokens ! 3) transactionOp2Drop \<and>
             tokenOpcode (tokens ! 4) transactionOpDrop then Some (script\<lparr>ClaimID := claimID\<rparr>, 5)
          else if 7 \<le> length tokens \<and> tokenOpcode (tokens ! 4) transactionOp2Drop \<and>
             tokenOpcode (tokens ! 5) transactionOp2Drop then
            (case tokenData (tokens ! 3) of
               None \<Rightarrow> None
             | Some support \<Rightarrow>
                 Some (script\<lparr>ClaimID := claimID, Support := support, HasSupportData := True\<rparr>, 6))
          else None)"

definition update_claim_prefix ::
    "transactionScriptToken list \<Rightarrow> TransactionOutputScript \<Rightarrow> (TransactionOutputScript \<times> nat) option" where
  "update_claim_prefix tokens script =
     (if length tokens < 6 \<or> \<not> tokenOpcode (tokens ! 4) transactionOp2Drop \<or>
         \<not> tokenOpcode (tokens ! 5) transactionOp2Drop then None
      else (case (tokenData (tokens ! 2), tokenData (tokens ! 3)) of
              (Some claimID, Some claim) \<Rightarrow> Some (script\<lparr>ClaimID := claimID, Claim := claim\<rparr>, 6)
            | _ \<Rightarrow> None))"

definition claim_prefix ::
    "transactionScriptToken list \<Rightarrow> TransactionOutputScript \<Rightarrow> (TransactionOutputScript \<times> nat) option" where
  "claim_prefix tokens script =
     (if opcode (tokens ! 0) = transactionOpClaimName then claim_name_prefix tokens script
      else if opcode (tokens ! 0) = transactionOpSupportClaim then support_claim_prefix tokens script
      else if opcode (tokens ! 0) = transactionOpUpdateClaim then update_claim_prefix tokens script
      else None)"

text \<open>The two switches that choose the template once the payment suffix is known.\<close>

definition claim_key_template :: "byte \<Rightarrow> TransactionOutputScript \<Rightarrow> string" where
  "claim_key_template op script =
     (if op = transactionOpClaimName then TransactionScriptClaimPubKeyHash
      else if op = transactionOpSupportClaim then
        (if \<not> HasSupportData script then TransactionScriptSupportPubKey else TransactionScriptSupportDataKey)
      else if op = transactionOpUpdateClaim then TransactionScriptUpdatePubKey
      else Template script)"

definition claim_script_template :: "byte \<Rightarrow> TransactionOutputScript \<Rightarrow> string" where
  "claim_script_template op script =
     (if op = transactionOpClaimName then TransactionScriptClaimScriptHash
      else if op = transactionOpSupportClaim then
        (if \<not> HasSupportData script then TransactionScriptSupportScript else TransactionScriptSupportDataHash)
      else if op = transactionOpUpdateClaim then TransactionScriptUpdateScript
      else Template script)"

definition parseClaimTransactionScript ::
    "transactionScriptToken list \<Rightarrow> TransactionOutputScript \<Rightarrow> TransactionOutputScript option" where
  "parseClaimTransactionScript tokens script =
     (if length tokens < 8 \<or> isData (tokens ! 0) then None
      else case tokenData (tokens ! 1) of
        None \<Rightarrow> None
      | Some claimName \<Rightarrow>
          (case claim_prefix tokens (script\<lparr>ClaimName := claimName\<rparr>) of
             None \<Rightarrow> None
           | Some (script1, prefixLength) \<Rightarrow>
               (case matchPayPubKeyHash (drop prefixLength tokens) of
                  Some hash \<Rightarrow> Some (script1\<lparr>PubKeyHash := hash, HasPubKeyHash := True,
                    Template := claim_key_template (opcode (tokens ! 0)) script1\<rparr>)
                | None \<Rightarrow>
                    (case matchPayScriptHash (drop prefixLength tokens) of
                       Some hash \<Rightarrow> Some (script1\<lparr>ScriptHash := hash, HasScriptHash := True,
                         Template := claim_script_template (opcode (tokens ! 0)) script1\<rparr>)
                     | None \<Rightarrow> None))))"

section \<open>Output scripts\<close>

text \<open>The two-token templates that start with an opcode (\<^verbatim>\<open>OP_0\<close> and \<^verbatim>\<open>OP_RETURN\<close>).\<close>

definition match_two :: "transactionScriptToken list \<Rightarrow> byte \<Rightarrow> bytes option" where
  "match_two tokens op =
     (if length tokens = 2 \<and> tokenOpcode (tokens ! 0) op then tokenData (tokens ! 1) else None)"

definition ParseTransactionOutputScript :: "bytes \<Rightarrow> TransactionOutputScript" where
  "ParseTransactionOutputScript source =
     (let script = empty_output_script\<lparr>Source := source\<rparr>
      in case tokenizeTransactionScript source of
        Inl e \<Rightarrow> script\<lparr>Err := Some e\<rparr>
      | Inr tokens \<Rightarrow>
          if length tokens = 0 then script\<lparr>Template := TransactionScriptNoScript\<rparr>
          else case matchPayPubKeyFull tokens of
            Some key \<Rightarrow> script\<lparr>Template := TransactionScriptPayPubKeyFull, PublicKey := key\<rparr>
          | None \<Rightarrow> (case matchPayPubKeyHash tokens of
            Some hash \<Rightarrow> script\<lparr>Template := TransactionScriptPayPubKeyHash, PubKeyHash := hash, HasPubKeyHash := True\<rparr>
          | None \<Rightarrow> (case matchPayScriptHash tokens of
            Some hash \<Rightarrow> script\<lparr>Template := TransactionScriptPayScriptHash, ScriptHash := hash, HasScriptHash := True\<rparr>
          | None \<Rightarrow> (case match_two tokens transactionOp0 of
            Some hash \<Rightarrow> script\<lparr>Template := TransactionScriptPaySegWit, ScriptHash := hash, HasScriptHash := True\<rparr>
          | None \<Rightarrow> (case match_two tokens transactionOpReturn of
            Some d \<Rightarrow> script\<lparr>Template := TransactionScriptReturnData, Data := d\<rparr>
          | None \<Rightarrow> (case parseClaimTransactionScript tokens script of
            Some claimScript \<Rightarrow> claimScript
          | None \<Rightarrow> script\<lparr>Err := Some NoMatchingOutputTemplate\<rparr>))))))"

section \<open>Redeem scripts and input scripts\<close>

definition littleEndianTransactionInteger :: "bytes \<Rightarrow> int" where
  "littleEndianTransactionInteger source = int (be_value (rev source))"

definition parseTimeLockSubscript :: "bytes \<Rightarrow> TransactionInputSubscript option" where
  "parseTimeLockSubscript source =
     (case tokenizeTransactionScript source of
        Inl e \<Rightarrow> None
      | Inr tokens \<Rightarrow>
          if length tokens \<noteq> 8 \<or>
             \<not> tokenOpcode (tokens ! 1) transactionOpCheckLockTimeVerify \<or>
             \<not> tokenOpcode (tokens ! 2) transactionOpDrop \<or>
             \<not> tokenOpcode (tokens ! 3) transactionOpDup \<or>
             \<not> tokenOpcode (tokens ! 4) transactionOpHash160 \<or>
             \<not> tokenOpcode (tokens ! 6) transactionOpEqualVerify \<or>
             \<not> tokenOpcode (tokens ! 7) transactionOpCheckSig then None
          else (case (strictTokenData (tokens ! 0), tokenData (tokens ! 5)) of
                  (Some heightSource, Some pubKeyHash) \<Rightarrow>
                    Some (empty_subscript\<lparr>SubSource := source, SubTemplate := TransactionInputTimeLock,
                      Height := Some (littleEndianTransactionInteger heightSource),
                      SubPubKeyHash := pubKeyHash\<rparr>)
                | _ \<Rightarrow> None))"

definition parseMultiSigSubscript :: "bytes \<Rightarrow> TransactionInputSubscript option" where
  "parseMultiSigSubscript source =
     (case tokenizeTransactionScript source of
        Inl e \<Rightarrow> None
      | Inr tokens \<Rightarrow>
          let n = length tokens
          in if n < 4 \<or> \<not> tokenOpcode (tokens ! (n - 1)) transactionOpCheckMultiSig then None
             else (case (tokenSmallInteger (tokens ! 0), tokenSmallInteger (tokens ! (n - 2))) of
                     (Some signaturesCount, Some publicKeysCount) \<Rightarrow>
                       (case strict_all (take (n - 3) (drop 1 tokens)) of
                          None \<Rightarrow> None
                        | Some publicKeys \<Rightarrow>
                            if length publicKeys = 0 then None
                            else Some (empty_subscript\<lparr>SubSource := source,
                              SubTemplate := TransactionInputMultiSig,
                              SignaturesCount := signaturesCount, PublicKeys := publicKeys,
                              PublicKeysCount := publicKeysCount\<rparr>))
                   | _ \<Rightarrow> None))"

text \<open>The five attempts of \<^verbatim>\<open>ParseTransactionInputScript\<close>, in the code's order.\<close>

definition match_input_pubkey :: "transactionScriptToken list \<Rightarrow> bytes option" where
  "match_input_pubkey tokens = (if length tokens = 1 then tokenData (tokens ! 0) else None)"

definition match_input_pubkey_hash :: "transactionScriptToken list \<Rightarrow> (bytes \<times> bytes) option" where
  "match_input_pubkey_hash tokens =
     (if length tokens = 2 then
        (case (tokenData (tokens ! 0), tokenData (tokens ! 1)) of
           (Some signature, Some publicKey) \<Rightarrow> Some (signature, publicKey) | _ \<Rightarrow> None)
      else None)"

definition match_input_timelock ::
    "transactionScriptToken list \<Rightarrow> (bytes \<times> bytes \<times> TransactionInputSubscript) option" where
  "match_input_timelock tokens =
     (if length tokens = 3 then
        (case (tokenData (tokens ! 0), tokenData (tokens ! 1), strictTokenData (tokens ! 2)) of
           (Some signature, Some publicKey, Some subscriptSource) \<Rightarrow>
             (case parseTimeLockSubscript subscriptSource of
                Some subscript \<Rightarrow> Some (signature, publicKey, subscript) | None \<Rightarrow> None)
         | _ \<Rightarrow> None)
      else None)"

definition match_input_multisig ::
    "transactionScriptToken list \<Rightarrow> (bytes list \<times> TransactionInputSubscript) option" where
  "match_input_multisig tokens =
     (if 3 \<le> length tokens \<and> tokenOpcode (tokens ! 0) transactionOp0 then
        (case strictTokenData (tokens ! (length tokens - 1)) of
           None \<Rightarrow> None
         | Some subscriptSource \<Rightarrow>
             (case strict_all (take (length tokens - 2) (drop 1 tokens)) of
                None \<Rightarrow> None
              | Some signatures \<Rightarrow>
                  (case parseMultiSigSubscript subscriptSource of
                     Some subscript \<Rightarrow> Some (signatures, subscript) | None \<Rightarrow> None)))
      else None)"

definition ParseTransactionInputScript :: "bytes \<Rightarrow> TransactionInputScript" where
  "ParseTransactionInputScript source =
     (let script = empty_input_script\<lparr>InSource := source\<rparr>
      in case tokenizeTransactionScript source of
        Inl e \<Rightarrow> script\<lparr>InErr := Some e\<rparr>
      | Inr tokens \<Rightarrow>
          if length tokens = 0 then script\<lparr>InTemplate := TransactionInputNoScript\<rparr>
          else case match_input_pubkey tokens of
            Some signature \<Rightarrow> script\<lparr>InTemplate := TransactionInputPubKey, Signature := signature\<rparr>
          | None \<Rightarrow> (case match_input_pubkey_hash tokens of
            Some (signature, publicKey) \<Rightarrow> script\<lparr>InTemplate := TransactionInputPubKeyHash,
              Signature := signature, InPublicKey := publicKey\<rparr>
          | None \<Rightarrow> (case match_input_timelock tokens of
            Some (signature, publicKey, subscript) \<Rightarrow> script\<lparr>InTemplate := TransactionInputScriptHashTime,
              Signature := signature, InPublicKey := publicKey, Script := Some subscript\<rparr>
          | None \<Rightarrow> (case match_input_multisig tokens of
            Some (signatures, subscript) \<Rightarrow> script\<lparr>InTemplate := TransactionInputScriptHashMulti,
              Signatures := signatures, Script := Some subscript\<rparr>
          | None \<Rightarrow> script\<lparr>InErr := Some NoMatchingInputTemplate\<rparr>))))"

end
