(* ===== verification/Radix.thy ===== *)
theory Radix
  imports Prelude
begin

text \<open>
  Positional numerals: the digit loops of \<^verbatim>\<open>math/big\<close> that the Base58 codecs, the node identity and
  the mnemonic use. The locale \<open>positional_alphabet\<close> is the contract between such a codec and its
  table of symbols: a base, the symbol of every digit and the search for a symbol in the table.
\<close>

section \<open>Digits and values\<close>

fun digits_le :: "nat \<Rightarrow> nat \<Rightarrow> nat list" where
  "digits_le b n = (if n = 0 \<or> b < 2 then [] else n mod b # digits_le b (n div b))"

declare digits_le.simps [simp del]

fun value_le :: "nat \<Rightarrow> nat list \<Rightarrow> nat" where
  "value_le b [] = 0"
| "value_le b (d # ds) = d + b * value_le b ds"

lemma digits_le_0 [simp]: "digits_le b 0 = []"
  by (simp add: digits_le.simps)

lemma digits_le_eq_Nil_iff [simp]: "2 \<le> b \<Longrightarrow> digits_le b n = [] \<longleftrightarrow> n = 0"
  by (subst digits_le.simps) auto

lemma digits_le_step: "2 \<le> b \<Longrightarrow> 0 < n \<Longrightarrow> digits_le b n = n mod b # digits_le b (n div b)"
  by (subst digits_le.simps) auto

lemma value_digits_le [simp]: "2 \<le> b \<Longrightarrow> value_le b (digits_le b n) = n"
  by (induction b n rule: digits_le.induct) (subst digits_le.simps, auto)

lemma digits_le_less: "d \<in> set (digits_le b n) \<Longrightarrow> d < b"
proof (induction b n rule: digits_le.induct)
  case (1 b n)
  then show ?case
    by (subst (asm) digits_le.simps) (auto split: if_splits)
qed

lemma last_digits_le: "2 \<le> b \<Longrightarrow> 0 < n \<Longrightarrow> last (digits_le b n) \<noteq> 0"
proof (induction b n rule: digits_le.induct)
  case (1 b n)
  show ?case
  proof (cases "n div b = 0")
    case True
    with 1 show ?thesis by (auto simp: digits_le_step div_eq_0_iff)
  next
    case False
    with 1 show ?thesis by (auto simp: digits_le_step)
  qed
qed

lemma value_le_eq_0_iff: "2 \<le> b \<Longrightarrow> value_le b ds = 0 \<longleftrightarrow> (\<forall>d \<in> set ds. d = 0)"
  by (induction ds) auto

lemma digits_value_le:
  "2 \<le> b \<Longrightarrow> \<forall>d \<in> set ds. d < b \<Longrightarrow> ds \<noteq> [] \<Longrightarrow> last ds \<noteq> 0 \<Longrightarrow> digits_le b (value_le b ds) = ds"
proof (induction ds)
  case (Cons d ds)
  have pos: "0 < d + b * value_le b ds"
  proof (cases "ds = []")
    case False
    then have "last ds \<in> set ds" and "last ds \<noteq> 0" using Cons.prems by simp_all
    then have "value_le b ds \<noteq> 0" using Cons.prems(1) by (metis value_le_eq_0_iff)
    then show ?thesis using Cons.prems(1) by simp
  qed (use Cons.prems in simp)
  have "digits_le b (value_le b ds) = ds"
    using Cons by (cases "ds = []") auto
  with pos Cons.prems show ?case by (simp add: digits_le_step)
qed simp

lemma value_le_bound: "(\<And>d. d \<in> set ds \<Longrightarrow> d < b) \<Longrightarrow> value_le b ds < b ^ length ds"
proof (induction ds)
  case (Cons d ds)
  then have "d < b" and "value_le b ds + 1 \<le> b ^ length ds" by (auto simp: Suc_le_eq)
  then have "d + b * value_le b ds < b * (value_le b ds + 1)"
    and "b * (value_le b ds + 1) \<le> b * b ^ length ds" by (simp, intro mult_le_mono2)
  then show ?case by simp
qed simp

lemma value_le_append: "value_le b (xs @ ys) = value_le b xs + b ^ length xs * value_le b ys"
  by (induction xs) (auto simp: algebra_simps)

lemma value_le_zeros [simp]: "value_le b (replicate k 0) = 0"
  by (induction k) auto

section \<open>Big integers as bytes\<close>

text \<open>\<^verbatim>\<open>big.Int.Bytes\<close>: the big-endian bytes without leading zeros.\<close>

definition bigint_bytes :: "nat \<Rightarrow> bytes" where
  "bigint_bytes n = rev (map of_nat (digits_le 256 n))"

lemma le_value_eq_value_le: "le_value bs = value_le 256 (map unat bs)"
  by (induction bs) auto

lemma be_value_bigint_bytes [simp]: "be_value (bigint_bytes n) = n"
proof -
  have "map (unat \<circ> (of_nat :: nat \<Rightarrow> byte)) (digits_le 256 n) = digits_le 256 n"
    by (rule map_idI) (auto dest: digits_le_less)
  then show ?thesis
    by (simp add: be_value_def bigint_bytes_def le_value_eq_value_le)
qed

lemma be_value_eq_0_iff: "be_value bs = 0 \<longleftrightarrow> (\<forall>b \<in> set bs. b = 0)"
  by (simp add: be_value_def le_value_eq_value_le value_le_eq_0_iff unat_eq_0)

lemma be_value_Cons_0 [simp]: "be_value (0 # bs) = be_value bs"
  by (simp add: be_value_def le_value_append)

lemma be_value_replicate_0 [simp]: "be_value (replicate k 0 @ bs) = be_value bs"
  by (induction k) auto

lemma bigint_bytes_be_value_hd:
  assumes "b \<noteq> 0"
  shows "bigint_bytes (be_value (b # bs)) = b # bs"
proof -
  let ?ds = "map unat (rev (b # bs))"
  have "digits_le 256 (value_le 256 ?ds) = ?ds"
    by (rule digits_value_le) (use assms in \<open>auto simp: unat_eq_0\<close>)
  then have "rev (map of_nat (digits_le 256 (be_value (b # bs)))) = rev (map (of_nat \<circ> unat) (rev (b # bs)))"
    by (simp add: be_value_def le_value_eq_value_le)
  also have "\<dots> = b # bs"
    by (simp add: comp_def rev_map)
  finally show ?thesis by (simp add: bigint_bytes_def)
qed

lemma bigint_bytes_be_value: "bigint_bytes (be_value bs) = dropWhile (\<lambda>b. b = 0) bs"
proof (induction bs)
  case Nil
  show ?case by (simp add: be_value_def bigint_bytes_def)
next
  case (Cons b bs)
  then show ?case by (cases "b = 0") (auto simp: bigint_bytes_be_value_hd)
qed

lemma leading_zeros_split:
  "replicate (length (takeWhile (\<lambda>b. b = 0) bs)) (0 :: byte) @ dropWhile (\<lambda>b. b = 0) bs = bs"
  by (induction bs) auto

lemma bigint_bytes_hd:
  assumes "0 < n"
  shows "bigint_bytes n \<noteq> []" and "hd (bigint_bytes n) \<noteq> 0"
proof -
  have eq: "bigint_bytes n = dropWhile (\<lambda>b. b = 0) (bigint_bytes n)"
    using bigint_bytes_be_value [of "bigint_bytes n"] by simp
  show ne: "bigint_bytes n \<noteq> []"
    using assms by (simp add: bigint_bytes_def)
  show "hd (bigint_bytes n) \<noteq> 0"
    using hd_dropWhile [of "\<lambda>b. b = 0" "bigint_bytes n"] ne eq by simp
qed

section \<open>Searching a table of symbols\<close>

text \<open>\<^verbatim>\<open>strings.IndexByte\<close>: the first position of an element, \<open>None\<close> for the code's \<open>-1\<close>.\<close>

fun IndexByte :: "'a list \<Rightarrow> 'a \<Rightarrow> nat option" where
  "IndexByte [] c = None"
| "IndexByte (x # xs) c = (if x = c then Some 0 else map_option Suc (IndexByte xs c))"

lemma IndexByte_Some: "IndexByte xs c = Some i \<Longrightarrow> i < length xs \<and> xs ! i = c"
  by (induction xs arbitrary: i) (auto split: if_splits)

lemma IndexByte_None: "IndexByte xs c = None \<longleftrightarrow> c \<notin> set xs"
  by (induction xs) auto

lemma IndexByte_nth: "distinct xs \<Longrightarrow> i < length xs \<Longrightarrow> IndexByte xs (xs ! i) = Some i"
proof (induction xs arbitrary: i)
  case (Cons x xs)
  then show ?case by (cases i) auto
qed simp

text \<open>Horner's scheme over symbols, failing at the first unknown one (which it reports).\<close>

fun horner :: "nat \<Rightarrow> ('c \<Rightarrow> nat option) \<Rightarrow> nat \<Rightarrow> 'c list \<Rightarrow> 'c + nat" where
  "horner b ix v [] = Inr v"
| "horner b ix v (c # cs) = (case ix c of None \<Rightarrow> Inl c | Some d \<Rightarrow> horner b ix (v * b + d) cs)"

locale positional_alphabet =
  fixes base :: nat
    and symbol :: "nat \<Rightarrow> 'c"
    and index :: "'c \<Rightarrow> nat option"
  assumes base_ge_2: "2 \<le> base"
    and index_symbol: "d < base \<Longrightarrow> index (symbol d) = Some d"
    and index_SomeD: "index c = Some d \<Longrightarrow> d < base \<and> symbol d = c"
begin

lemma horner_symbols:
  "\<forall>d \<in> set ds. d < base \<Longrightarrow>
     horner base index v (map symbol ds) = Inr (v * base ^ length ds + value_le base (rev ds))"
proof (induction ds arbitrary: v)
  case (Cons d ds)
  then show ?case
    by (simp add: index_symbol value_le_append algebra_simps)
qed simp

lemma horner_digits:
  "horner base index 0 (map symbol (rev (digits_le base n))) = Inr n"
  using base_ge_2 by (subst horner_symbols) (auto dest: digits_le_less)

lemma horner_leading_zero:
  "horner base index 0 (symbol 0 # cs) = horner base index 0 cs"
  using base_ge_2 by (simp add: index_symbol)

lemma horner_leading_zeros:
  "horner base index 0 (replicate k (symbol 0) @ cs) = horner base index 0 cs"
  by (induction k) (simp_all add: horner_leading_zero del: horner.simps)

lemma horner_Inr_digits:
  assumes "horner base index v cs = Inr n"
  obtains ds where "cs = map symbol ds" and "\<forall>d \<in> set ds. d < base"
    and "n = v * base ^ length ds + value_le base (rev ds)"
proof -
  have "\<exists>ds. cs = map symbol ds \<and> (\<forall>d \<in> set ds. d < base)"
    using assms
  proof (induction cs arbitrary: v)
    case (Cons c cs)
    then obtain d where d: "index c = Some d" and "horner base index (v * base + d) cs = Inr n"
      by (auto split: option.splits)
    then obtain ds where "cs = map symbol ds" "\<forall>d \<in> set ds. d < base"
      using Cons.IH by blast
    with index_SomeD [OF d] have "c # cs = map symbol (d # ds) \<and> (\<forall>d \<in> set (d # ds). d < base)"
      by auto
    then show ?case by (intro exI [of _ "d # ds"])
  qed simp
  then obtain ds where ds: "cs = map symbol ds" "\<forall>d \<in> set ds. d < base" by blast
  with assms horner_symbols [OF ds(2), of v] that show thesis by auto
qed

text \<open>A numeral without a leading zero symbol is the one the digit loop prints.\<close>

lemma horner_canonical:
  assumes "horner base index 0 cs = Inr n" and "cs \<noteq> []" and "hd cs \<noteq> symbol 0"
  shows "map symbol (rev (digits_le base n)) = cs"
proof -
  obtain ds where ds: "cs = map symbol ds" "\<forall>d \<in> set ds. d < base" "n = value_le base (rev ds)"
    using horner_Inr_digits [OF assms(1)] by auto
  have "last (rev ds) \<noteq> 0"
    using assms(2,3) ds(1) by (cases ds) (auto intro: ccontr)
  then have "digits_le base n = rev ds"
    using ds assms(2) base_ge_2 by (simp add: digits_value_le)
  with ds(1) show ?thesis by simp
qed

lemma horner_pos:
  assumes "horner base index 0 cs = Inr n" and "cs \<noteq> []" and "hd cs \<noteq> symbol 0"
  shows "0 < n"
proof -
  obtain ds where ds: "cs = map symbol ds" "n = value_le base (rev ds)"
    using horner_Inr_digits [OF assms(1)] by auto
  with assms(2,3) have "ds \<noteq> []" and "symbol (hd ds) \<noteq> symbol 0"
    by (auto simp: hd_map)
  then have "ds \<noteq> []" and "hd ds \<noteq> 0" by metis+
  then have "\<not> (\<forall>d \<in> set (rev ds). d = 0)"
    by (auto intro: hd_in_set)
  then show ?thesis
    unfolding ds(2) using value_le_eq_0_iff [OF base_ge_2, of "rev ds"] by blast
qed

lemma hd_symbol_digits:
  assumes "0 < n"
  shows "map symbol (rev (digits_le base n)) \<noteq> []"
    and "hd (map symbol (rev (digits_le base n))) \<noteq> symbol 0"
proof -
  show ne: "map symbol (rev (digits_le base n)) \<noteq> []"
    using assms base_ge_2 by simp
  have l: "last (digits_le base n) \<noteq> 0" "last (digits_le base n) < base"
    using assms base_ge_2 last_digits_le [of base n] digits_le_less [of "last (digits_le base n)" base n] ne
    by simp_all
  have "index (symbol (last (digits_le base n))) \<noteq> index (symbol 0)"
    using l base_ge_2 by (simp add: index_symbol)
  with ne show "hd (map symbol (rev (digits_le base n))) \<noteq> symbol 0"
    by (auto simp: hd_map hd_rev)
qed

end

end
