(* ===== verification/TransactionScriptBuild.thy ===== *)
theory TransactionScriptBuild
  imports TransactionScript Radix
begin

text \<open>
  The script generators of \<^verbatim>\<open>wallet/transaction_script_build.go\<close> and their agreement with the parser.
  The \<^verbatim>\<open>transactionScriptBuilder\<close> is the byte list it has collected; a method that appends to it
  returns the longer list. A \<^verbatim>\<open>Generate\<close> method returns the updated record, or the error and no
  change. Receivers are not nil.
\<close>

section \<open>The builder\<close>

definition encodeTransactionPushData :: "bytes \<Rightarrow> script_error + bytes" where
  "encodeTransactionPushData d =
     (let size = length d
      in if size < 0x4c then Inr (of_nat size # d)
         else if size \<le> 0xff then Inr ([transactionOpPushData1, of_nat size] @ d)
         else if size \<le> 0xffff then Inr (transactionOpPushData2 # le_bytes 2 size @ d)
         else if size \<le> 0xffffffff then Inr (transactionOpPushData4 # le_bytes 4 size @ d)
         else Inl PushedValueTooLarge)"

text \<open>\<^verbatim>\<open>big.Int.BitLen\<close>, the length of the absolute value in bits.\<close>

definition BitLen :: "int \<Rightarrow> nat" where
  "BitLen v = length (digits_le 2 (nat \<bar>v\<bar>))"

text \<open>
  The big-endian buffer that is filled and then reversed in place is the little-endian one. For a
  negative value the modulus of the buffer is added first.
\<close>

definition encodeTransactionScriptInteger :: "int option \<Rightarrow> script_error + bytes" where
  "encodeTransactionScriptInteger v =
     (case v of
        None \<Rightarrow> Inl ScriptIntegerIsNil
      | Some v \<Rightarrow>
          let byteLength = BitLen v div 8 + 1;
              bigEndian = (if 0 \<le> v then be_bytes byteLength (nat v)
                           else be_bytes byteLength (nat (256 ^ byteLength + v)))
          in encodeTransactionPushData (rev bigEndian))"

definition encodeTransactionSmallInteger :: "int \<Rightarrow> script_error + byte" where
  "encodeTransactionSmallInteger v =
     (if v < 1 \<or> v > 16 then Inl (SmallIntegerOutside v) else Inr (transactionOp1 + of_int (v - 1)))"

definition builder_push :: "bytes \<Rightarrow> bytes \<Rightarrow> script_error + bytes" where
  "builder_push source d = and_then (encodeTransactionPushData d) (\<lambda>encoded. Inr (source @ encoded))"

definition builder_integer :: "bytes \<Rightarrow> int option \<Rightarrow> script_error + bytes" where
  "builder_integer source v = and_then (encodeTransactionScriptInteger v) (\<lambda>encoded. Inr (source @ encoded))"

definition builder_smallInteger :: "bytes \<Rightarrow> int \<Rightarrow> script_error + bytes" where
  "builder_smallInteger source v = and_then (encodeTransactionSmallInteger v) (\<lambda>encoded. Inr (source @ [encoded]))"

fun builder_push_all :: "bytes \<Rightarrow> bytes list \<Rightarrow> script_error + bytes" where
  "builder_push_all source [] = Inr source"
| "builder_push_all source (d # ds) = and_then (builder_push source d) (\<lambda>source'. builder_push_all source' ds)"

section \<open>Output scripts\<close>

definition generateTransactionPayPubKeyHash :: "bytes \<Rightarrow> bytes \<Rightarrow> script_error + bytes" where
  "generateTransactionPayPubKeyHash builder hash =
     and_then (builder_push (builder @ [transactionOpDup, transactionOpHash160]) hash)
       (\<lambda>b. Inr (b @ [transactionOpEqualVerify, transactionOpCheckSig]))"

definition generateTransactionPayScriptHash :: "bytes \<Rightarrow> bytes \<Rightarrow> script_error + bytes" where
  "generateTransactionPayScriptHash builder hash =
     and_then (builder_push (builder @ [transactionOpHash160]) hash) (\<lambda>b. Inr (b @ [transactionOpEqual]))"

definition generateTransactionClaimPrefix ::
    "bytes \<Rightarrow> byte \<Rightarrow> TransactionOutputScript \<Rightarrow> script_error + bytes" where
  "generateTransactionClaimPrefix builder op script =
     and_then (builder_push (builder @ [op]) (ClaimName script)) (\<lambda>b1.
       if op = transactionOpClaimName then
         and_then (builder_push b1 (Claim script)) (\<lambda>b2. Inr (b2 @ [transactionOp2Drop, transactionOpDrop]))
       else if op = transactionOpSupportClaim then
         and_then (builder_push b1 (ClaimID script)) (\<lambda>b2.
           if Template script = TransactionScriptSupportDataKey \<or>
              Template script = TransactionScriptSupportDataHash then
             and_then (builder_push b2 (Support script)) (\<lambda>b3. Inr (b3 @ [transactionOp2Drop, transactionOp2Drop]))
           else Inr (b2 @ [transactionOp2Drop, transactionOpDrop]))
       else if op = transactionOpUpdateClaim then
         and_then (builder_push b1 (ClaimID script)) (\<lambda>b2.
           and_then (builder_push b2 (Claim script)) (\<lambda>b3. Inr (b3 @ [transactionOp2Drop, transactionOp2Drop])))
       else Inl (UnknownClaimOpcode op))"

text \<open>
  The assignments at the end of \<^verbatim>\<open>Generate\<close>, reached only when the template has been written without
  an error: the flags for a public key hash, a script hash and support data.
\<close>

definition finish_output ::
    "TransactionOutputScript \<Rightarrow> bool \<Rightarrow> bool \<Rightarrow> bool \<Rightarrow> script_error + bytes \<Rightarrow> script_error + TransactionOutputScript" where
  "finish_output script hasPubKeyHash hasScriptHash hasSupportData built =
     and_then built (\<lambda>source. Inr (script\<lparr>Source := source, HasPubKeyHash := hasPubKeyHash,
       HasScriptHash := hasScriptHash, HasSupportData := hasSupportData, Err := None\<rparr>))"

definition GenerateOutputScript :: "TransactionOutputScript \<Rightarrow> script_error + TransactionOutputScript" where
  "GenerateOutputScript script =
     (let t = Template script;
          claim_key = (\<lambda>op. and_then (generateTransactionClaimPrefix [] op script)
                               (\<lambda>b. generateTransactionPayPubKeyHash b (PubKeyHash script)));
          claim_script = (\<lambda>op. and_then (generateTransactionClaimPrefix [] op script)
                               (\<lambda>b. generateTransactionPayScriptHash b (ScriptHash script)))
      in if t = TransactionScriptNoScript then Inl NoScriptTemplate
         else if t = TransactionScriptPayPubKeyFull then
           finish_output script False False False
             (and_then (builder_push [] (PublicKey script)) (\<lambda>b. Inr (b @ [transactionOpCheckSig])))
         else if t = TransactionScriptPayPubKeyHash then
           finish_output script True False False (generateTransactionPayPubKeyHash [] (PubKeyHash script))
         else if t = TransactionScriptPayScriptHash then
           finish_output script False True False (generateTransactionPayScriptHash [] (ScriptHash script))
         else if t = TransactionScriptPaySegWit then
           finish_output script False True False (builder_push [transactionOp0] (ScriptHash script))
         else if t = TransactionScriptReturnData then
           finish_output script False False False (builder_push [transactionOpReturn] (Data script))
         else if t = TransactionScriptClaimPubKeyHash then
           finish_output script True False False (claim_key transactionOpClaimName)
         else if t = TransactionScriptClaimScriptHash then
           finish_output script False True False (claim_script transactionOpClaimName)
         else if t = TransactionScriptSupportPubKey then
           finish_output script True False False (claim_key transactionOpSupportClaim)
         else if t = TransactionScriptSupportScript then
           finish_output script False True False (claim_script transactionOpSupportClaim)
         else if t = TransactionScriptSupportDataKey then
           finish_output script True False True (claim_key transactionOpSupportClaim)
         else if t = TransactionScriptSupportDataHash then
           finish_output script False True True (claim_script transactionOpSupportClaim)
         else if t = TransactionScriptUpdatePubKey then
           finish_output script True False False (claim_key transactionOpUpdateClaim)
         else if t = TransactionScriptUpdateScript then
           finish_output script False True False (claim_script transactionOpUpdateClaim)
         else Inl (UnknownTemplate t))"

section \<open>Input scripts and redeem scripts\<close>

definition GenerateInputScript :: "TransactionInputScript \<Rightarrow> script_error + TransactionInputScript" where
  "GenerateInputScript script =
     (let finish = (\<lambda>built. and_then built (\<lambda>source. Inr (script\<lparr>InSource := source, InErr := None\<rparr>)));
          sig_key = and_then (builder_push [] (Signature script)) (\<lambda>b. builder_push b (InPublicKey script));
          t = InTemplate script
      in if t = TransactionInputNoScript then Inl NoScriptTemplate
         else if t = TransactionInputPubKey then finish (builder_push [] (Signature script))
         else if t = TransactionInputPubKeyHash then finish sig_key
         else if t = TransactionInputScriptHashTime then
           (case Script script of
              None \<Rightarrow> Inl SubscriptIsNil
            | Some sub \<Rightarrow> finish (and_then sig_key (\<lambda>b. builder_push b (SubSource sub))))
         else if t = TransactionInputScriptHashMulti then
           (case Script script of
              None \<Rightarrow> Inl SubscriptIsNil
            | Some sub \<Rightarrow> finish (and_then (builder_push_all [transactionOp0] (Signatures script))
                             (\<lambda>b. builder_push b (SubSource sub))))
         else Inl (UnknownTemplate t))"

definition GenerateInputSubscript :: "TransactionInputSubscript \<Rightarrow> script_error + TransactionInputSubscript" where
  "GenerateInputSubscript script =
     (let finish = (\<lambda>built. and_then built (\<lambda>source. Inr (script\<lparr>SubSource := source\<rparr>)));
          t = SubTemplate script
      in if t = TransactionInputTimeLock then
           finish (and_then (builder_integer [] (Height script)) (\<lambda>b.
             and_then (builder_push (b @ [transactionOpCheckLockTimeVerify, transactionOpDrop,
                         transactionOpDup, transactionOpHash160]) (SubPubKeyHash script)) (\<lambda>b2.
             Inr (b2 @ [transactionOpEqualVerify, transactionOpCheckSig]))))
         else if t = TransactionInputMultiSig then
           finish (and_then (builder_smallInteger [] (uint (SignaturesCount script))) (\<lambda>b.
             and_then (builder_push_all b (PublicKeys script)) (\<lambda>b2.
             and_then (builder_smallInteger b2 (uint (PublicKeysCount script))) (\<lambda>b3.
             Inr (b3 @ [transactionOpCheckMultiSig])))))
         else Inl (UnknownTemplate t))"

section \<open>Constructors\<close>

definition NewRedeemPubKeyInputScript :: "bytes \<Rightarrow> script_error + TransactionInputScript" where
  "NewRedeemPubKeyInputScript signature =
     GenerateInputScript (empty_input_script\<lparr>InTemplate := TransactionInputPubKey, Signature := signature\<rparr>)"

definition NewRedeemPubKeyHashInputScript :: "bytes \<Rightarrow> bytes \<Rightarrow> script_error + TransactionInputScript" where
  "NewRedeemPubKeyHashInputScript signature publicKey =
     GenerateInputScript (empty_input_script\<lparr>InTemplate := TransactionInputPubKeyHash,
       Signature := signature, InPublicKey := publicKey\<rparr>)"

definition NewTimeLockInputSubscript :: "int option \<Rightarrow> bytes \<Rightarrow> script_error + TransactionInputSubscript" where
  "NewTimeLockInputSubscript height pubKeyHash =
     GenerateInputSubscript (empty_subscript\<lparr>SubTemplate := TransactionInputTimeLock,
       Height := height, SubPubKeyHash := pubKeyHash\<rparr>)"

definition NewMultiSigInputSubscript ::
    "byte \<Rightarrow> bytes list \<Rightarrow> byte \<Rightarrow> script_error + TransactionInputSubscript" where
  "NewMultiSigInputSubscript signaturesCount publicKeys publicKeysCount =
     GenerateInputSubscript (empty_subscript\<lparr>SubTemplate := TransactionInputMultiSig,
       SignaturesCount := signaturesCount, PublicKeys := publicKeys, PublicKeysCount := publicKeysCount\<rparr>)"

definition NewRedeemMultiSigScriptHashInputScript ::
    "bytes list \<Rightarrow> bytes list \<Rightarrow> script_error + TransactionInputScript" where
  "NewRedeemMultiSigScriptHashInputScript signatures publicKeys =
     and_then (encodeTransactionSmallInteger (int (length signatures))) (\<lambda>_.
     and_then (encodeTransactionSmallInteger (int (length publicKeys))) (\<lambda>_.
     and_then (NewMultiSigInputSubscript (of_nat (length signatures)) publicKeys (of_nat (length publicKeys)))
       (\<lambda>subscript. GenerateInputScript (empty_input_script\<lparr>InTemplate := TransactionInputScriptHashMulti,
          Signatures := signatures, Script := Some subscript\<rparr>))))"

definition NewRedeemTimeLockScriptHashInputScript ::
    "bytes \<Rightarrow> bytes \<Rightarrow> int option \<Rightarrow> bytes \<Rightarrow> bytes \<Rightarrow> script_error + TransactionInputScript" where
  "NewRedeemTimeLockScriptHashInputScript signature publicKey height pubKeyHash scriptSource =
     and_then
       (if height \<noteq> None \<and> height \<noteq> Some 0 \<and> 0 < length pubKeyHash then NewTimeLockInputSubscript height pubKeyHash
        else if 0 < length scriptSource then
          (case parseTimeLockSubscript scriptSource of
             None \<Rightarrow> Inl InvalidTimelockSource | Some parsed \<Rightarrow> Inr parsed)
        else Inl TimelockSourceRequired)
       (\<lambda>subscript. GenerateInputScript (empty_input_script\<lparr>InTemplate := TransactionInputScriptHashTime,
          Signature := signature, InPublicKey := publicKey, Script := Some subscript\<rparr>))"

definition NewPayPubKeyFullOutputScript :: "bytes \<Rightarrow> script_error + TransactionOutputScript" where
  "NewPayPubKeyFullOutputScript publicKey = GenerateOutputScript
     (empty_output_script\<lparr>Template := TransactionScriptPayPubKeyFull, PublicKey := publicKey\<rparr>)"

definition NewPayPubKeyHashOutputScript :: "bytes \<Rightarrow> script_error + TransactionOutputScript" where
  "NewPayPubKeyHashOutputScript pubKeyHash = GenerateOutputScript
     (empty_output_script\<lparr>Template := TransactionScriptPayPubKeyHash, PubKeyHash := pubKeyHash\<rparr>)"

definition NewPayScriptHashOutputScript :: "bytes \<Rightarrow> script_error + TransactionOutputScript" where
  "NewPayScriptHashOutputScript scriptHash = GenerateOutputScript
     (empty_output_script\<lparr>Template := TransactionScriptPayScriptHash, ScriptHash := scriptHash\<rparr>)"

definition NewSegWitOutputScript :: "bytes \<Rightarrow> script_error + TransactionOutputScript" where
  "NewSegWitOutputScript scriptHash = GenerateOutputScript
     (empty_output_script\<lparr>Template := TransactionScriptPaySegWit, ScriptHash := scriptHash\<rparr>)"

definition NewReturnDataOutputScript :: "bytes \<Rightarrow> script_error + TransactionOutputScript" where
  "NewReturnDataOutputScript d = GenerateOutputScript
     (empty_output_script\<lparr>Template := TransactionScriptReturnData, Data := d\<rparr>)"

definition NewClaimNamePubKeyHashOutputScript :: "bytes \<Rightarrow> bytes \<Rightarrow> bytes \<Rightarrow> script_error + TransactionOutputScript" where
  "NewClaimNamePubKeyHashOutputScript claimName claim pubKeyHash = GenerateOutputScript
     (empty_output_script\<lparr>Template := TransactionScriptClaimPubKeyHash, ClaimName := claimName,
        Claim := claim, PubKeyHash := pubKeyHash\<rparr>)"

definition NewClaimNameScriptHashOutputScript :: "bytes \<Rightarrow> bytes \<Rightarrow> bytes \<Rightarrow> script_error + TransactionOutputScript" where
  "NewClaimNameScriptHashOutputScript claimName claim scriptHash = GenerateOutputScript
     (empty_output_script\<lparr>Template := TransactionScriptClaimScriptHash, ClaimName := claimName,
        Claim := claim, ScriptHash := scriptHash\<rparr>)"

definition NewUpdateClaimPubKeyHashOutputScript ::
    "bytes \<Rightarrow> bytes \<Rightarrow> bytes \<Rightarrow> bytes \<Rightarrow> script_error + TransactionOutputScript" where
  "NewUpdateClaimPubKeyHashOutputScript claimName claimID claim pubKeyHash = GenerateOutputScript
     (empty_output_script\<lparr>Template := TransactionScriptUpdatePubKey, ClaimName := claimName,
        ClaimID := claimID, Claim := claim, PubKeyHash := pubKeyHash\<rparr>)"

definition NewUpdateClaimScriptHashOutputScript ::
    "bytes \<Rightarrow> bytes \<Rightarrow> bytes \<Rightarrow> bytes \<Rightarrow> script_error + TransactionOutputScript" where
  "NewUpdateClaimScriptHashOutputScript claimName claimID claim scriptHash = GenerateOutputScript
     (empty_output_script\<lparr>Template := TransactionScriptUpdateScript, ClaimName := claimName,
        ClaimID := claimID, Claim := claim, ScriptHash := scriptHash\<rparr>)"

definition NewSupportPubKeyHashOutputScript :: "bytes \<Rightarrow> bytes \<Rightarrow> bytes \<Rightarrow> script_error + TransactionOutputScript" where
  "NewSupportPubKeyHashOutputScript claimName claimID pubKeyHash = GenerateOutputScript
     (empty_output_script\<lparr>Template := TransactionScriptSupportPubKey, ClaimName := claimName,
        ClaimID := claimID, PubKeyHash := pubKeyHash\<rparr>)"

definition NewSupportScriptHashOutputScript :: "bytes \<Rightarrow> bytes \<Rightarrow> bytes \<Rightarrow> script_error + TransactionOutputScript" where
  "NewSupportScriptHashOutputScript claimName claimID scriptHash = GenerateOutputScript
     (empty_output_script\<lparr>Template := TransactionScriptSupportScript, ClaimName := claimName,
        ClaimID := claimID, ScriptHash := scriptHash\<rparr>)"

definition NewSupportDataPubKeyHashOutputScript ::
    "bytes \<Rightarrow> bytes \<Rightarrow> bytes \<Rightarrow> bytes \<Rightarrow> script_error + TransactionOutputScript" where
  "NewSupportDataPubKeyHashOutputScript claimName claimID support pubKeyHash = GenerateOutputScript
     (empty_output_script\<lparr>Template := TransactionScriptSupportDataKey, ClaimName := claimName,
        ClaimID := claimID, Support := support, PubKeyHash := pubKeyHash\<rparr>)"

definition NewSupportDataScriptHashOutputScript ::
    "bytes \<Rightarrow> bytes \<Rightarrow> bytes \<Rightarrow> bytes \<Rightarrow> script_error + TransactionOutputScript" where
  "NewSupportDataScriptHashOutputScript claimName claimID support scriptHash = GenerateOutputScript
     (empty_output_script\<lparr>Template := TransactionScriptSupportDataHash, ClaimName := claimName,
        ClaimID := claimID, Support := support, ScriptHash := scriptHash\<rparr>)"

section \<open>Tokens of a generated script\<close>

text \<open>The token the tokenizer reads where the builder pushed \<open>d\<close>: an empty push is \<^verbatim>\<open>OP_0\<close>.\<close>

definition push_token :: "bytes \<Rightarrow> transactionScriptToken" where
  "push_token d = (if d = [] then opcode_token 0 else data_token d)"

definition prepend :: "transactionScriptToken \<Rightarrow> script_error + transactionScriptToken list \<Rightarrow>
    script_error + transactionScriptToken list" where
  "prepend t r = (case r of Inl e \<Rightarrow> Inl e | Inr ts \<Rightarrow> Inr (t # ts))"

lemma prepend_Inr [simp]: "prepend t (Inr ts) = Inr (t # ts)"
  by (simp add: prepend_def)

lemma tokenize_Nil [codec_simps]: "tokenizeTransactionScript [] = Inr []"
  by (simp add: tokenizeTransactionScript.simps)

lemma tokenize_opcode:
  "op < 1 \<or> op > 0x4e \<Longrightarrow>
     tokenizeTransactionScript (op # rest) = prepend (opcode_token op) (tokenizeTransactionScript rest)"
  by (subst tokenizeTransactionScript.simps) (simp add: prepend_def)

lemma tokenize_push_op:
  assumes "\<not> op < 1" and "\<not> op > 0x4e" and "push_length op rest = Inr (length d, d @ tail)"
  shows "tokenizeTransactionScript (op # rest) = prepend (data_token d) (tokenizeTransactionScript tail)"
  by (subst tokenizeTransactionScript.simps) (use assms in \<open>simp add: prepend_def split: sum.split\<close>)

lemma tokenize_push:
  assumes "encodeTransactionPushData d = Inr p"
  shows "tokenizeTransactionScript (p @ rest) = prepend (push_token d) (tokenizeTransactionScript rest)"
proof -
  let ?n = "length d"
  consider "d = []" | "d \<noteq> []" "?n < 0x4c" | "0x4c \<le> ?n" "?n \<le> 0xff" | "0xff < ?n" "?n \<le> 0xffff"
    | "0xffff < ?n" "?n \<le> 0xffffffff"
    using assms by (fastforce simp: encodeTransactionPushData_def Let_def split: if_splits)
  then show ?thesis
  proof cases
    case 1
    with assms show ?thesis
      by (auto simp: encodeTransactionPushData_def push_token_def tokenize_opcode)
  next
    case 2
    then have p: "p = of_nat ?n # d" using assms by (simp add: encodeTransactionPushData_def)
    have "unat (of_nat ?n :: byte) = ?n" using 2 by simp
    then have "push_length (of_nat ?n) (d @ rest) = Inr (?n, d @ rest)"
      and "\<not> (of_nat ?n :: byte) < 1" and "\<not> (of_nat ?n :: byte) > 0x4e"
      using 2 by (auto simp: push_length_def word_less_nat_alt dest: arg_cong [of _ _ unat])
    with p 2(1) show ?thesis by (simp add: tokenize_push_op push_token_def)
  next
    case 3
    with assms show ?thesis
      by (auto simp: encodeTransactionPushData_def push_token_def push_length_def Let_def
          intro!: tokenize_push_op)
  next
    case 4
    then have p: "p = 0x4d # le_bytes 2 ?n @ d" using assms by (simp add: encodeTransactionPushData_def Let_def)
    have "push_length 0x4d (le_bytes 2 ?n @ d @ rest) = Inr (?n, d @ rest)"
      using 4 by (simp add: push_length_def le_value_le_bytes_id)
    with 4 p show ?thesis by (auto simp: push_token_def intro!: tokenize_push_op)
  next
    case 5
    then have p: "p = 0x4e # le_bytes 4 ?n @ d" using assms by (simp add: encodeTransactionPushData_def Let_def)
    have "push_length 0x4e (le_bytes 4 ?n @ d @ rest) = Inr (?n, d @ rest)"
      using 5 by (simp add: push_length_def le_value_le_bytes_id)
    with 5 p show ?thesis by (auto simp: push_token_def intro!: tokenize_push_op)
  qed
qed

lemma tokenize_push_end:
  "encodeTransactionPushData d = Inr p \<Longrightarrow> tokenizeTransactionScript p = Inr [push_token d]"
  using tokenize_push [of d p "[]"] by (simp add: tokenize_Nil)

text \<open>What the successful builder steps mean for the tokenizer.\<close>

lemma builder_push_Inr:
  "builder_push b d = Inr b' \<longleftrightarrow> (\<exists>p. encodeTransactionPushData d = Inr p \<and> b' = b @ p)"
  by (auto simp: builder_push_def and_then_Inr)

lemma tokenData_push_token [simp]: "tokenData (push_token d) = Some d"
  by (simp add: push_token_def tokenData_def opcode_token_def data_token_def)

lemma tokenData_opcode_token [simp]: "tokenData (opcode_token op) = (if op = 0 then Some [] else None)"
  by (simp add: tokenData_def opcode_token_def)

lemma tokenOpcode_opcode_token [simp]: "tokenOpcode (opcode_token op) op' \<longleftrightarrow> op = op'"
  by (simp add: tokenOpcode_def opcode_token_def)

lemma tokenOpcode_push_token [simp]: "tokenOpcode (push_token d) op \<longleftrightarrow> d = [] \<and> op = 0"
  by (auto simp: tokenOpcode_def push_token_def opcode_token_def data_token_def)

lemma opcode_token_sel [simp]: "opcode (opcode_token op) = op" "isData (opcode_token op) = False"
  by (simp_all add: opcode_token_def)

lemma strictTokenData_push_token [simp]:
  "strictTokenData (push_token d) = (if d = [] then None else Some d)"
  by (simp add: strictTokenData_def push_token_def opcode_token_def data_token_def)

lemmas generate_simps =
  GenerateOutputScript_def finish_output_def generateTransactionPayPubKeyHash_def
  generateTransactionPayScriptHash_def generateTransactionClaimPrefix_def and_then_Inr builder_push_Inr
  Let_def

lemmas match_simps =
  matchPayPubKeyFull_def matchPayPubKeyHash_def matchPayScriptHash_def match_two_def
  parseClaimTransactionScript_def claim_prefix_def claim_name_prefix_def support_claim_prefix_def
  update_claim_prefix_def claim_key_template_def claim_script_template_def

lemmas parse_output_simps =
  ParseTransactionOutputScript_def match_simps tokenize_push tokenize_push_end tokenize_opcode tokenize_Nil
  empty_output_script_def Let_def

section \<open>Outputs: parsing what was generated\<close>

text \<open>The record with the fields a template does not use set to their zero values.\<close>

definition used_fields :: "TransactionOutputScript \<Rightarrow> TransactionOutputScript" where
  "used_fields s =
     (let t = Template s;
          key = t \<in> {TransactionScriptPayPubKeyHash, TransactionScriptClaimPubKeyHash, TransactionScriptSupportPubKey,
                  TransactionScriptSupportDataKey, TransactionScriptUpdatePubKey};
          script = t \<in> {TransactionScriptPayScriptHash, TransactionScriptPaySegWit, TransactionScriptClaimScriptHash,
                  TransactionScriptSupportScript, TransactionScriptSupportDataHash, TransactionScriptUpdateScript}
      in s\<lparr>PublicKey := (if t = TransactionScriptPayPubKeyFull then PublicKey s else []),
           PubKeyHash := (if key then PubKeyHash s else []),
           ScriptHash := (if script then ScriptHash s else []),
           Data := (if t = TransactionScriptReturnData then Data s else []),
           ClaimName := (if IsClaimInvolved s then ClaimName s else []),
           ClaimID := (if IsUpdateClaim s \<or> IsSupportClaim s then ClaimID s else []),
           Claim := (if IsClaimName s \<or> IsUpdateClaim s then Claim s else []),
           Support := (if IsSupportData s then Support s else [])\<rparr>)"

lemmas used_fields_simps =
  used_fields_def IsClaimInvolved_def IsUpdateClaim_def IsSupportClaim_def IsClaimName_def IsSupportData_def
  Let_def

definition output_templates :: "string list" where
  "output_templates = [TransactionScriptPayPubKeyFull, TransactionScriptPayPubKeyHash, TransactionScriptPayScriptHash,
     TransactionScriptPaySegWit, TransactionScriptReturnData, TransactionScriptClaimPubKeyHash,
     TransactionScriptClaimScriptHash, TransactionScriptSupportPubKey, TransactionScriptSupportScript,
     TransactionScriptSupportDataKey, TransactionScriptSupportDataHash, TransactionScriptUpdatePubKey,
     TransactionScriptUpdateScript]"

lemma GenerateOutputScript_Inr_template:
  "GenerateOutputScript s = Inr s' \<Longrightarrow> Template s \<in> set output_templates"
  by (simp add: GenerateOutputScript_def output_templates_def Let_def split: if_splits)

lemma parse_generated:
  assumes "GenerateOutputScript s = Inr s'" and "Template s \<in> set output_templates"
  shows "ParseTransactionOutputScript (Source s') = used_fields s'"
  using assms(2,1) unfolding output_templates_def
  by (simp only: set_simps insert_iff empty_iff simp_thms)
    (elim disjE; cases s; auto simp: generate_simps; simp add: parse_output_simps used_fields_simps)

section \<open>What the parser returns\<close>

text \<open>
  A recognised output script: its template is known, the fields the template does not use are zero,
  and the three flags say what the template says.
\<close>

definition recognised :: "TransactionOutputScript \<Rightarrow> bool" where
  "recognised p \<longleftrightarrow> Template p \<in> set output_templates \<and> used_fields p = p \<and> Err p = None \<and>
     HasPubKeyHash p = has_suffix (Template p) TransactionScriptPayPubKeyHash \<and>
     HasScriptHash p = (has_suffix (Template p) TransactionScriptPayScriptHash \<or>
                        Template p = TransactionScriptPaySegWit) \<and>
     HasSupportData p = IsSupportData p"

lemmas recognised_simps =
  recognised_def used_fields_simps output_templates_def has_suffix_def empty_output_script_def

text \<open>The values a matcher can take from the tokens, and the fields of a script that hold values.\<close>

definition token_values :: "transactionScriptToken list \<Rightarrow> bytes set" where
  "token_values tokens = {d. \<exists>t\<in>set tokens. tokenData t = Some d}"

definition field_values :: "TransactionOutputScript \<Rightarrow> bytes set" where
  "field_values p = {PublicKey p, PubKeyHash p, ScriptHash p, Data p, ClaimName p, ClaimID p, Claim p, Support p}"

lemma token_valuesI: "tokenData (tokens ! i) = Some d \<Longrightarrow> i < length tokens \<Longrightarrow> d \<in> token_values tokens"
  by (auto simp: token_values_def)

lemma token_values_Cons: "token_values (t # ts) = set_option (tokenData t) \<union> token_values ts"
  by (auto simp: token_values_def)

lemma matched_value:
  "matchPayPubKeyFull tokens = Some d \<Longrightarrow> d \<in> token_values tokens"
  "matchPayPubKeyHash tokens = Some d \<Longrightarrow> d \<in> token_values tokens"
  "matchPayScriptHash tokens = Some d \<Longrightarrow> d \<in> token_values tokens"
  "match_two tokens op = Some d \<Longrightarrow> d \<in> token_values tokens"
  by (auto simp: matchPayPubKeyFull_def matchPayPubKeyHash_def matchPayScriptHash_def match_two_def
      split: if_splits intro!: token_valuesI)

lemma token_values_drop: "d \<in> token_values (drop k tokens) \<Longrightarrow> d \<in> token_values tokens"
  by (auto simp: token_values_def dest: in_set_dropD)

lemma claim_prefix_cases:
  assumes "claim_prefix tokens script = Some (s1, k)" and "8 \<le> length tokens"
  obtains (name) c where "opcode (tokens ! 0) = transactionOpClaimName" "s1 = script\<lparr>Claim := c\<rparr>"
        "c \<in> token_values tokens"
    | (support) i where "opcode (tokens ! 0) = transactionOpSupportClaim" "s1 = script\<lparr>ClaimID := i\<rparr>"
        "i \<in> token_values tokens"
    | (support_data) i d where "opcode (tokens ! 0) = transactionOpSupportClaim"
        "s1 = script\<lparr>ClaimID := i, Support := d, HasSupportData := True\<rparr>"
        "i \<in> token_values tokens" "d \<in> token_values tokens"
    | (update) i c where "opcode (tokens ! 0) = transactionOpUpdateClaim" "s1 = script\<lparr>ClaimID := i, Claim := c\<rparr>"
        "i \<in> token_values tokens" "c \<in> token_values tokens"
proof -
  have val: "tokenData (tokens ! i) = Some d \<Longrightarrow> i < 8 \<Longrightarrow> d \<in> token_values tokens" for i d
    using assms(2) by (simp add: token_valuesI)
  consider "opcode (tokens ! 0) = 0xb5" "claim_name_prefix tokens script = Some (s1, k)"
    | "opcode (tokens ! 0) = 0xb6" "support_claim_prefix tokens script = Some (s1, k)"
    | "opcode (tokens ! 0) = 0xb7" "update_claim_prefix tokens script = Some (s1, k)"
    using assms by (auto simp: claim_prefix_def split: if_splits)
  then show thesis
  proof cases
    case 1
    then show ?thesis using name val [of 2] by (auto simp: claim_name_prefix_def split: if_splits option.splits)
  next
    case 2
    then obtain i where i: "tokenData (tokens ! 2) = Some i"
      by (auto simp: support_claim_prefix_def split: option.splits)
    then have "i \<in> token_values tokens" by (rule val) simp
    moreover have "s1 = script\<lparr>ClaimID := i\<rparr> \<or> (\<exists>d. tokenData (tokens ! 3) = Some d \<and>
        s1 = script\<lparr>ClaimID := i, Support := d, HasSupportData := True\<rparr>)"
      using 2(2) i by (auto simp: support_claim_prefix_def split: if_splits option.splits)
    ultimately show ?thesis using support support_data val 2(1) by auto
  next
    case 3
    then show ?thesis using update val [of 2] val [of 3]
      by (auto simp: update_claim_prefix_def split: if_splits option.splits)
  qed
qed

lemma parseClaim_cases:
  assumes "parseClaimTransactionScript tokens script = Some p"
  obtains (key) n s1 k h where "claim_prefix tokens (script\<lparr>ClaimName := n\<rparr>) = Some (s1, k)"
      "8 \<le> length tokens" "n \<in> token_values tokens" "h \<in> token_values tokens"
      "p = s1\<lparr>PubKeyHash := h, HasPubKeyHash := True, Template := claim_key_template (opcode (tokens ! 0)) s1\<rparr>"
    | (script) n s1 k h where "claim_prefix tokens (script\<lparr>ClaimName := n\<rparr>) = Some (s1, k)"
      "8 \<le> length tokens" "n \<in> token_values tokens" "h \<in> token_values tokens"
      "p = s1\<lparr>ScriptHash := h, HasScriptHash := True, Template := claim_script_template (opcode (tokens ! 0)) s1\<rparr>"
proof -
  obtain n where n: "tokenData (tokens ! 1) = Some n" and len: "8 \<le> length tokens"
    using assms by (auto simp: parseClaimTransactionScript_def split: if_splits option.splits)
  then have "n \<in> token_values tokens" by (auto intro: token_valuesI)
  with assms n len show thesis
    using key [of n] script [of n] unfolding parseClaimTransactionScript_def
    by (auto split: option.split_asm if_split_asm dest!: matched_value token_values_drop)
qed

lemma parseClaim_recognised:
  assumes "parseClaimTransactionScript tokens (empty_output_script\<lparr>Source := src\<rparr>) = Some p"
  shows "recognised p \<and> Source p = src \<and> field_values p \<subseteq> insert [] (token_values tokens)"
  using assms
proof (cases rule: parseClaim_cases)
  case (key n s1 k h)
  from key(1,2) show ?thesis
    by (cases rule: claim_prefix_cases)
      (simp_all add: key(3-5) claim_key_template_def recognised_simps field_values_def)
next
  case (script n s1 k h)
  from script(1,2) show ?thesis
    by (cases rule: claim_prefix_cases)
      (simp_all add: script(3-5) claim_script_template_def recognised_simps field_values_def)
qed

lemma tokenize_values:
  "tokenizeTransactionScript src = Inr tokens \<Longrightarrow> d \<in> token_values tokens \<Longrightarrow> length d \<le> length src"
proof (induction src arbitrary: tokens rule: tokenizeTransactionScript.induct)
  case 1
  then show ?case by (simp add: tokenize_Nil token_values_def)
next
  case (2 op rest)
  show ?case
  proof (cases "op < 1 \<or> op > 0x4e")
    case True
    with 2(1) 2(3,4) show ?thesis
      by (fastforce simp: tokenizeTransactionScript.simps(2) token_values_def split: sum.splits if_splits)
  next
    case False
    then obtain n rest' ts where p: "push_length op rest = Inr (n, rest')"
      and ts: "tokenizeTransactionScript (drop (min n (length rest')) rest') = Inr ts"
      and tokens: "tokens = data_token (take (min n (length rest')) rest') # ts"
      using 2(3) by (auto simp: tokenizeTransactionScript.simps(2) min_def Let_def split: sum.splits if_splits)
    have min: "(if n > length rest' then length rest' else n) = min n (length rest')" by simp
    have "length rest' \<le> length rest" using p by (rule push_length_rest)
    moreover have "d \<in> token_values ts \<Longrightarrow> length d \<le> length rest' - min n (length rest')"
      using 2(2) [OF False p refl refl, of ts] ts by (simp add: min)
    moreover from 2(4) have "d = take (min n (length rest')) rest' \<or> d \<in> token_values ts"
      by (auto simp: tokens token_values_Cons tokenData_def data_token_def)
    ultimately show ?thesis by auto
  qed
qed

text \<open>Everything the parser can return: an error, the empty script, or a recognised template.\<close>

definition recognised_from :: "bytes \<Rightarrow> TransactionOutputScript \<Rightarrow> bool" where
  "recognised_from src p \<longleftrightarrow>
     recognised p \<and> Source p = src \<and> (\<forall>d\<in>field_values p. length d \<le> length src)"

lemma recognised_from_simple:
  fixes d :: bytes
  assumes "length d \<le> length src"
  shows
    "recognised_from src (empty_output_script\<lparr>Source := src, Template := TransactionScriptPayPubKeyFull,
       PublicKey := d\<rparr>)"
    "recognised_from src (empty_output_script\<lparr>Source := src, Template := TransactionScriptPayPubKeyHash,
       PubKeyHash := d, HasPubKeyHash := True\<rparr>)"
    "recognised_from src (empty_output_script\<lparr>Source := src, Template := TransactionScriptPayScriptHash,
       ScriptHash := d, HasScriptHash := True\<rparr>)"
    "recognised_from src (empty_output_script\<lparr>Source := src, Template := TransactionScriptPaySegWit,
       ScriptHash := d, HasScriptHash := True\<rparr>)"
    "recognised_from src (empty_output_script\<lparr>Source := src, Template := TransactionScriptReturnData, Data := d\<rparr>)"
  using assms by (simp_all add: recognised_from_def recognised_simps field_values_def)

lemma ParseTransactionOutputScript_cases:
  obtains (error) e where "ParseTransactionOutputScript src = empty_output_script\<lparr>Source := src, Err := Some e\<rparr>"
    | (no_script) "ParseTransactionOutputScript src =
        empty_output_script\<lparr>Source := src, Template := TransactionScriptNoScript\<rparr>"
    | (template) "recognised_from src (ParseTransactionOutputScript src)"
proof (cases "tokenizeTransactionScript src")
  case (Inl e)
  then show ?thesis using error by (simp add: ParseTransactionOutputScript_def Let_def)
next
  case (Inr tokens)
  note val = tokenize_values [OF Inr] and simple = recognised_from_simple [OF tokenize_values [OF Inr]]
  have claim: "recognised_from src p"
    if "parseClaimTransactionScript tokens (empty_output_script\<lparr>Source := src\<rparr>) = Some p" for p
    using parseClaim_recognised [OF that] val by (force simp: recognised_from_def)
  have "tokens = [] \<or> (\<exists>e. ParseTransactionOutputScript src = empty_output_script\<lparr>Source := src, Err := Some e\<rparr>) \<or>
      recognised_from src (ParseTransactionOutputScript src)"
    by (simp add: ParseTransactionOutputScript_def Let_def Inr claim simple matched_value split: option.split)
      blast
  then show ?thesis
    using error no_script template by (auto simp: ParseTransactionOutputScript_def Inr)
qed

lemma template_recognised:
  assumes "Err (ParseTransactionOutputScript src) = None"
    and "Template (ParseTransactionOutputScript src) \<noteq> TransactionScriptNoScript"
  shows "recognised_from src (ParseTransactionOutputScript src)"
  by (cases rule: ParseTransactionOutputScript_cases [of src]) (use assms in simp_all)

section \<open>Generating what was parsed\<close>

lemma encodeTransactionPushData_Inr:
  "(\<exists>p. encodeTransactionPushData d = Inr p) \<longleftrightarrow> length d \<le> 0xffffffff"
  by (simp add: encodeTransactionPushData_def Let_def)

lemma encodeTransactionPushData_short: "length d \<le> 0xffffffff \<Longrightarrow> \<exists>p. encodeTransactionPushData d = Inr p"
  by (simp add: encodeTransactionPushData_Inr)

lemma GenerateOutputScript_succeeds:
  assumes "Template s \<in> set output_templates" and "\<forall>d\<in>field_values s. length d \<le> 0xffffffff"
  shows "\<exists>s'. GenerateOutputScript s = Inr s'"
proof -
  have "\<exists>p. encodeTransactionPushData d = Inr p" if "d \<in> field_values s" for d
    using assms(2) that by (simp add: encodeTransactionPushData_Inr)
  then have "\<exists>b'. builder_push b d = Inr b'" if "d \<in> field_values s" for b d
    using that by (force simp: builder_push_Inr)
  moreover define f where "f b d = projr (builder_push b d)" for b d
  ultimately have f: "builder_push b d = Inr (f b d)" if "d \<in> field_values s" for b d
    using that by (metis sum.sel(2))
  have "PublicKey s \<in> field_values s" "PubKeyHash s \<in> field_values s" "ScriptHash s \<in> field_values s"
    "Data s \<in> field_values s" "ClaimName s \<in> field_values s" "ClaimID s \<in> field_values s"
    "Claim s \<in> field_values s" "Support s \<in> field_values s"
    by (simp_all add: field_values_def)
  note push = this [THEN f]
  show ?thesis
    using assms(1) unfolding output_templates_def
    by (simp only: set_simps insert_iff empty_iff simp_thms)
      (elim disjE; simp add: GenerateOutputScript_def Let_def finish_output_def push
        generateTransactionPayPubKeyHash_def generateTransactionPayScriptHash_def
        generateTransactionClaimPrefix_def)
qed

lemma GenerateOutputScript_frame:
  "GenerateOutputScript s = Inr s' \<Longrightarrow> \<exists>src k h d. s' = s\<lparr>Source := src, HasPubKeyHash := k, HasScriptHash := h,
     HasSupportData := d, Err := None\<rparr>"
  by (auto simp: GenerateOutputScript_def finish_output_def and_then_Inr Let_def split: if_split_asm)

lemma GenerateOutputScript_Inl:
  assumes "GenerateOutputScript s = Inl e"
  shows "Template s \<notin> set output_templates \<or> (\<exists>d\<in>field_values s. 0xffffffff < length d)"
  using GenerateOutputScript_succeeds [of s] assms by force

lemma recognised_same_flags:
  assumes "recognised p" and "recognised q" and "Template p = Template q"
  shows "HasPubKeyHash p = HasPubKeyHash q" and "HasScriptHash p = HasScriptHash q"
    and "HasSupportData p = HasSupportData q"
  using assms by (auto simp: recognised_def IsSupportData_def)

lemma used_fields_update:
  "used_fields (p\<lparr>Source := src, HasPubKeyHash := k, HasScriptHash := h, HasSupportData := d, Err := None\<rparr>) =
     (used_fields p)\<lparr>Source := src, HasPubKeyHash := k, HasScriptHash := h, HasSupportData := d, Err := None\<rparr>"
  by (simp add: used_fields_simps)

lemma regenerate:
  assumes p: "recognised p" and short: "\<forall>d\<in>field_values p. length d \<le> 0xffffffff"
  obtains src where "GenerateOutputScript p = Inr (p\<lparr>Source := src\<rparr>)"
    and "ParseTransactionOutputScript src = p\<lparr>Source := src\<rparr>"
proof -
  from p have t: "Template p \<in> set output_templates" by (simp add: recognised_def)
  from GenerateOutputScript_succeeds [OF t short] obtain q where q: "GenerateOutputScript p = Inr q" by blast
  then obtain src k h d where
    q': "q = p\<lparr>Source := src, HasPubKeyHash := k, HasScriptHash := h, HasSupportData := d, Err := None\<rparr>"
    using GenerateOutputScript_frame by blast
  have parse: "ParseTransactionOutputScript src = q"
    using parse_generated [OF q t] p by (simp add: q' used_fields_update recognised_def)
  with t have "recognised_from src q"
    using template_recognised [of src] by (auto simp: q' output_templates_def)
  then have "recognised q" by (simp add: recognised_from_def)
  from recognised_same_flags [OF p this]
  have "k = HasPubKeyHash p" "h = HasScriptHash p" "d = HasSupportData p" by (simp_all add: q')
  moreover have "Err p = None" using p by (simp add: recognised_def)
  ultimately have "q = p\<lparr>Source := src\<rparr>" by (cases p) (simp add: q')
  with q parse show thesis using that by simp
qed

definition claim_templates :: "string list" where
  "claim_templates = [TransactionScriptClaimPubKeyHash, TransactionScriptClaimScriptHash,
     TransactionScriptSupportPubKey, TransactionScriptSupportScript, TransactionScriptSupportDataKey,
     TransactionScriptSupportDataHash, TransactionScriptUpdatePubKey, TransactionScriptUpdateScript]"

lemma output_template_kinds:
  assumes "t \<in> set output_templates"
  shows "t \<noteq> [] \<and> t \<noteq> TransactionScriptNoScript \<and>
    \<not> (has_suffix t TransactionScriptPayPubKeyHash \<and>
       (has_suffix t TransactionScriptPayScriptHash \<or> t = TransactionScriptPaySegWit)) \<and>
    (t \<in> set claim_templates \<longrightarrow>
       has_suffix t TransactionScriptPayPubKeyHash \<or> has_suffix t TransactionScriptPayScriptHash)"
proof -
  have "list_all (\<lambda>t. t \<noteq> [] \<and> t \<noteq> TransactionScriptNoScript \<and>
    \<not> (has_suffix t TransactionScriptPayPubKeyHash \<and>
       (has_suffix t TransactionScriptPayScriptHash \<or> t = TransactionScriptPaySegWit)) \<and>
    (t \<in> set claim_templates \<longrightarrow>
       has_suffix t TransactionScriptPayPubKeyHash \<or> has_suffix t TransactionScriptPayScriptHash)) output_templates"
    by code_simp
  with assms show ?thesis by (simp add: list_all_iff)
qed

section \<open>Properties of output scripts\<close>

text \<open>
  C19. Generating an output script and parsing its source gives back the template and every field the
  template uses, with the flags set accordingly; the fields of the record other than the source, the
  flags and the error are untouched. Generation fails only for a template it does not know or a value
  that is too long to push.
\<close>

theorem GenerateOutputScript_correct:
  "case GenerateOutputScript s of
     Inr s' \<Rightarrow> ParseTransactionOutputScript (Source s') = used_fields s' \<and> Err s' = None \<and>
       s'\<lparr>Source := Source s, HasPubKeyHash := HasPubKeyHash s, HasScriptHash := HasScriptHash s,
          HasSupportData := HasSupportData s, Err := Err s\<rparr> = s
   | Inl e \<Rightarrow> Template s \<in> - set output_templates \<or> 0xffffffff < Max (length ` field_values s)"
proof (cases "GenerateOutputScript s")
  case (Inl e)
  from GenerateOutputScript_Inl [OF this] show ?thesis
    by (auto simp: Inl field_values_def less_max_iff_disj)
next
  case (Inr s')
  from GenerateOutputScript_frame [OF Inr] parse_generated [OF Inr GenerateOutputScript_Inr_template [OF Inr]]
  show ?thesis by (auto simp: Inr)
qed

text \<open>
  C20. Parsing then generating is a normal form: every script that is recognised as a template can be
  generated again, and the new source parses to the same fields.
\<close>

theorem ParseTransactionOutputScript_regenerate:
  assumes "length src \<le> 0xffffffff"
    and "Err (ParseTransactionOutputScript src) = None"
    and "Template (ParseTransactionOutputScript src) \<noteq> TransactionScriptNoScript"
  shows "\<exists>src'. GenerateOutputScript (ParseTransactionOutputScript src) =
             Inr ((ParseTransactionOutputScript src)\<lparr>Source := src'\<rparr>) \<and>
           ParseTransactionOutputScript src' = (ParseTransactionOutputScript src)\<lparr>Source := src'\<rparr>"
proof -
  have "recognised (ParseTransactionOutputScript src)"
    and "\<forall>d\<in>field_values (ParseTransactionOutputScript src). length d \<le> 0xffffffff"
    using template_recognised [OF assms(2,3)] assms(1) by (auto simp: recognised_from_def)
  then show ?thesis by (rule regenerate) blast
qed

theorem ParseTransactionOutputScript_regenerate_witness:
  "\<exists>src'. GenerateOutputScript (ParseTransactionOutputScript [0xa9, 0x4c, 2, 7, 8, 0x87]) =
             Inr ((ParseTransactionOutputScript [0xa9, 0x4c, 2, 7, 8, 0x87])\<lparr>Source := src'\<rparr>) \<and>
           ParseTransactionOutputScript src' =
             (ParseTransactionOutputScript [0xa9, 0x4c, 2, 7, 8, 0x87])\<lparr>Source := src'\<rparr>"
proof (rule ParseTransactionOutputScript_regenerate)
  show "length [0xa9, 0x4c, 2, 7, 8, 0x87 :: byte] \<le> 0xffffffff" by simp
qed code_simp+

text \<open>
  What the parser promises of every source: it is kept, an error is set exactly when no template
  is, the flags agree with the predicates on the template, no script pays both to a key and to a
  script, and a claim script always has an address.
\<close>

theorem ParseTransactionOutputScript_flags:
  fixes src :: bytes
  defines "p \<equiv> ParseTransactionOutputScript src"
  shows "Source p = src \<and> (Err p = None \<longleftrightarrow> Template p \<noteq> '''') \<and>
    HasPubKeyHash p = IsPayPubKeyHash p \<and>
    HasScriptHash p = (IsPayScriptHash p \<or> Template p = TransactionScriptPaySegWit) \<and>
    HasSupportData p = IsSupportData p \<and>
    \<not> (HasPubKeyHash p \<and> HasScriptHash p) \<and> \<not> (IsClaimInvolved p \<and> \<not> HasAddress p)"
proof (cases rule: ParseTransactionOutputScript_cases [of src])
  case template
  then have p: "recognised p" "Source p = src" by (simp_all add: p_def recognised_from_def)
  then have "Template p \<in> set output_templates" by (simp add: recognised_def)
  note kinds = output_template_kinds [OF this]
  have "IsClaimInvolved p \<Longrightarrow> Template p \<in> set claim_templates"
    by (auto simp: claim_templates_def IsClaimInvolved_def IsClaimName_def IsUpdateClaim_def IsSupportClaim_def)
  with kinds p show ?thesis
    unfolding recognised_def IsPayPubKeyHash_def IsPayScriptHash_def HasAddress_def by blast
qed (simp_all add: p_def empty_output_script_def IsPayPubKeyHash_def IsPayScriptHash_def has_suffix_def
      IsSupportData_def IsClaimInvolved_def IsClaimName_def IsUpdateClaim_def IsSupportClaim_def)

end
