(* ===== verification/TransactionScriptRedeem.thy ===== *)
theory TransactionScriptRedeem
  imports TransactionScriptBuild
begin

text \<open>
  The input scripts of \<^verbatim>\<open>wallet/transaction_script_build.go\<close>: what the generators of redeem scripts write
  is what the parser of \<^verbatim>\<open>wallet/transaction_script.go\<close> reads.
\<close>

section \<open>Input scripts: parsing what was generated\<close>

lemma strictTokenData_opcode_token [simp]: "strictTokenData (opcode_token op) = None"
  by (simp add: strictTokenData_def opcode_token_def)

lemma BitLen_bound: "0 \<le> v \<Longrightarrow> nat v < 256 ^ (BitLen v div 8 + 1)"
proof -
  assume "0 \<le> v"
  let ?n = "BitLen v"
  have "nat v < 2 ^ ?n" using value_le_bound [of "digits_le 2 (nat v)" 2] \<open>0 \<le> v\<close>
    by (simp add: BitLen_def digits_le_less)
  also have "?n \<le> 8 * (?n div 8 + 1)" by presburger
  then have "(2 :: nat) ^ ?n \<le> 2 ^ (8 * (?n div 8 + 1))" by (rule power_increasing) simp
  also have "\<dots> = 256 ^ (?n div 8 + 1)" unfolding power_mult by simp
  finally show ?thesis .
qed

lemma encodeTransactionScriptInteger_Inr:
  assumes "encodeTransactionScriptInteger h = Inr p"
  obtains v d where "h = Some v" and "encodeTransactionPushData d = Inr p" and "d \<noteq> []"
    and "0 \<le> v \<Longrightarrow> littleEndianTransactionInteger d = v"
proof (cases h)
  case None
  then show thesis using assms by (simp add: encodeTransactionScriptInteger_def)
next
  case (Some v)
  let ?n = "BitLen v div 8 + 1"
  let ?d = "rev (if 0 \<le> v then be_bytes ?n (nat v) else be_bytes ?n (nat (256 ^ ?n + v)))"
  have "length ?d = ?n" by simp
  then have "?d \<noteq> []" by (metis add_is_0 list.size(3) zero_neq_one)
  moreover have "0 \<le> v \<Longrightarrow> littleEndianTransactionInteger ?d = v"
    using BitLen_bound [of v] by (simp add: littleEndianTransactionInteger_def le_simps)
  moreover have "encodeTransactionPushData ?d = Inr p"
    using assms unfolding encodeTransactionScriptInteger_def Some option.case Let_def .
  ultimately show thesis using that [OF Some] by blast
qed

lemma encodeTransactionPushData_nonempty: "encodeTransactionPushData d = Inr p \<Longrightarrow> p \<noteq> []"
  by (auto simp: encodeTransactionPushData_def Let_def split: if_splits)

lemma NewTimeLockInputSubscript_parses:
  assumes "NewTimeLockInputSubscript h hash = Inr sub" and "\<And>v. h = Some v \<Longrightarrow> 0 \<le> v"
  shows "parseTimeLockSubscript (SubSource sub) = Some sub" and "SubSource sub \<noteq> []"
proof -
  from assms(1) obtain p q where p: "encodeTransactionScriptInteger h = Inr p"
    and q: "encodeTransactionPushData hash = Inr q"
    and sub: "sub = empty_subscript\<lparr>SubTemplate := TransactionInputTimeLock, Height := h, SubPubKeyHash := hash,
        SubSource := p @ [0xb1, 0x75, 0x76, 0xa9] @ q @ [0x88, 0xac]\<rparr>"
    by (auto simp: NewTimeLockInputSubscript_def GenerateInputSubscript_def Let_def and_then_Inr
        builder_push_Inr builder_integer_def empty_subscript_def)
  from encodeTransactionScriptInteger_Inr [OF p] obtain v d where h: "h = Some v"
    and d: "encodeTransactionPushData d = Inr p" "d \<noteq> []" "0 \<le> v \<Longrightarrow> littleEndianTransactionInteger d = v"
    by metis
  have "tokenizeTransactionScript (SubSource sub) = Inr [push_token d, opcode_token 0xb1, opcode_token 0x75,
      opcode_token 0x76, opcode_token 0xa9, push_token hash, opcode_token 0x88, opcode_token 0xac]"
    by (simp add: sub tokenize_push [OF d(1)] tokenize_push [OF q] tokenize_opcode tokenize_Nil)
  with d h assms(2) show "parseTimeLockSubscript (SubSource sub) = Some sub"
    by (simp add: parseTimeLockSubscript_def) (simp add: sub empty_subscript_def)
  show "SubSource sub \<noteq> []" by (simp add: sub empty_subscript_def)
qed

lemma parseTimeLockSubscript_source:
  "parseTimeLockSubscript src = Some sub \<Longrightarrow> SubSource sub = src \<and> src \<noteq> []"
  by (auto simp: parseTimeLockSubscript_def tokenize_Nil split: sum.splits if_splits option.splits prod.splits)

lemmas input_simps =
  ParseTransactionInputScript_def match_input_pubkey_def match_input_pubkey_hash_def match_input_timelock_def
  tokenize_push tokenize_push_end tokenize_opcode tokenize_Nil Let_def

lemma timelock_input_parses:
  assumes "GenerateInputScript (empty_input_script\<lparr>InTemplate := TransactionInputScriptHashTime,
      Signature := signature, InPublicKey := publicKey, Script := Some sub\<rparr>) = Inr s"
    and "parseTimeLockSubscript (SubSource sub) = Some sub" and "SubSource sub \<noteq> []"
  shows "ParseTransactionInputScript (InSource s) = s"
  using assms
  by (auto simp: GenerateInputScript_def and_then_Inr builder_push_Inr Let_def)
    (simp add: input_simps empty_input_script_def)

text \<open>
  The input scripts that redeem a key, a key hash or a time-locked script hash parse back to
  exactly the record that generated them, provided a given lock height is not negative.
\<close>

theorem redeem_scripts_parse:
  assumes "NewRedeemPubKeyInputScript signature = Inr s \<or>
    NewRedeemPubKeyHashInputScript signature publicKey = Inr s \<or>
    NewRedeemTimeLockScriptHashInputScript signature publicKey height pubKeyHash scriptSource = Inr s \<and>
      height \<noteq> None \<and> 0 \<le> the height"
  shows "ParseTransactionInputScript (InSource s) = s"
  using assms
proof (elim disjE)
  assume "NewRedeemPubKeyInputScript signature = Inr s"
  then show ?thesis
    by (auto simp: NewRedeemPubKeyInputScript_def GenerateInputScript_def and_then_Inr builder_push_Inr
        empty_input_script_def) (simp add: input_simps empty_input_script_def)
next
  assume "NewRedeemPubKeyHashInputScript signature publicKey = Inr s"
  then show ?thesis
    by (auto simp: NewRedeemPubKeyHashInputScript_def GenerateInputScript_def and_then_Inr builder_push_Inr
        empty_input_script_def Let_def) (simp add: input_simps empty_input_script_def)
next
  assume "NewRedeemTimeLockScriptHashInputScript signature publicKey height pubKeyHash scriptSource = Inr s \<and>
      height \<noteq> None \<and> 0 \<le> the height"
  then obtain sub where
    gen: "GenerateInputScript (empty_input_script\<lparr>InTemplate := TransactionInputScriptHashTime,
      Signature := signature, InPublicKey := publicKey, Script := Some sub\<rparr>) = Inr s"
    and "NewTimeLockInputSubscript height pubKeyHash = Inr sub \<and> (\<forall>v. height = Some v \<longrightarrow> 0 \<le> v) \<or>
      parseTimeLockSubscript scriptSource = Some sub"
    by (auto simp: NewRedeemTimeLockScriptHashInputScript_def and_then_Inr split: if_splits option.splits)
  then show ?thesis
    using timelock_input_parses [OF gen] NewTimeLockInputSubscript_parses parseTimeLockSubscript_source
    by metis
qed

theorem redeem_scripts_parse_witness:
  "ParseTransactionInputScript
     (InSource (projr (NewRedeemTimeLockScriptHashInputScript [1, 2] [3] (Some 300) [4, 5] []))) =
   projr (NewRedeemTimeLockScriptHashInputScript [1, 2] [3] (Some 300) [4, 5] [])"
proof (rule redeem_scripts_parse [where height = "Some 300"], intro disjI2 conjI)
  show "NewRedeemTimeLockScriptHashInputScript [1, 2] [3] (Some 300) [4, 5] [] =
    Inr (projr (NewRedeemTimeLockScriptHashInputScript [1, 2] [3] (Some 300) [4, 5] []))" by code_simp
qed simp_all

lemma builder_push_all_tokens:
  assumes "builder_push_all b ds = Inr b'"
  obtains p where "b' = b @ p"
    and "\<And>rest. tokenizeTransactionScript (p @ rest) = foldr prepend (map push_token ds) (tokenizeTransactionScript rest)"
  using assms
proof (induction ds arbitrary: b thesis)
  case (Cons d ds)
  from Cons.prems(2) obtain q where q: "encodeTransactionPushData d = Inr q"
    and "builder_push_all (b @ q) ds = Inr b'"
    by (auto simp: and_then_Inr builder_push_Inr)
  from Cons.IH [OF _ this(2)] obtain p where p: "b' = (b @ q) @ p"
    "\<And>rest. tokenizeTransactionScript (p @ rest) = foldr prepend (map push_token ds) (tokenizeTransactionScript rest)"
    by metis
  show ?case
    by (rule Cons.prems(1) [of "q @ p"]) (simp_all add: p tokenize_push [OF q])
qed simp

lemma foldr_prepend [simp]: "foldr prepend ts (Inr us) = Inr (ts @ us)"
  by (induction ts) auto

lemma strict_all_push [simp]: "[] \<notin> set ds \<Longrightarrow> strict_all (map push_token ds) = Some ds"
  by (induction ds) auto

lemma encodeTransactionSmallInteger_Inr:
  assumes "encodeTransactionSmallInteger v = Inr op"
  shows "1 \<le> v" "v \<le> 16" "tokenSmallInteger (opcode_token op) = Some (of_int v)" "op > 0x4e"
proof -
  from assms show v: "1 \<le> v" "v \<le> 16"
    by (auto simp: encodeTransactionSmallInteger_def split: if_splits)
  have "v \<in> {1,2,3,4,5,6,7,8,9,10,11,12,13,14,15,16}" using v by simp presburger
  then show "tokenSmallInteger (opcode_token op) = Some (of_int v)" and "op > 0x4e"
    using assms by (auto simp: encodeTransactionSmallInteger_def tokenSmallInteger_def)
qed

lemma NewMultiSigInputSubscript_parses:
  assumes "NewMultiSigInputSubscript m keys n = Inr sub" and "[] \<notin> set keys" and "keys \<noteq> []"
  shows "parseMultiSigSubscript (SubSource sub) = Some sub" and "SubSource sub \<noteq> []"
    and "parseTimeLockSubscript (SubSource sub) = None"
proof -
  from assms(1) obtain a p c where a: "encodeTransactionSmallInteger (uint m) = Inr a"
    and p: "builder_push_all [a] keys = Inr p" and c: "encodeTransactionSmallInteger (uint n) = Inr c"
    and sub: "sub = empty_subscript\<lparr>SubTemplate := TransactionInputMultiSig, SignaturesCount := m,
        PublicKeys := keys, PublicKeysCount := n, SubSource := p @ [c, 0xae]\<rparr>"
    by (auto simp: NewMultiSigInputSubscript_def GenerateInputSubscript_def Let_def and_then_Inr
        builder_smallInteger_def empty_subscript_def)
  note a = encodeTransactionSmallInteger_Inr [OF a] and c = encodeTransactionSmallInteger_Inr [OF c]
  from builder_push_all_tokens [OF p] obtain q where q: "p = a # q"
    "\<And>rest. tokenizeTransactionScript (q @ rest) = foldr prepend (map push_token keys) (tokenizeTransactionScript rest)"
    by auto
  let ?ts = "opcode_token a # map push_token keys @ [opcode_token c, opcode_token 0xae]"
  have ts: "tokenizeTransactionScript (SubSource sub) = Inr ?ts"
    using a(4) c(4) by (simp add: sub q tokenize_opcode tokenize_Nil)
  show "SubSource sub \<noteq> []" by (simp add: sub q)
  from assms(3) have len: "\<not> length ?ts < 4" by (cases keys) auto
  have nth: "?ts ! (length ?ts - 1) = opcode_token 0xae" "?ts ! (length ?ts - 2) = opcode_token c"
    "take (length ?ts - 3) (drop 1 ?ts) = map push_token keys"
    by (simp_all add: nth_append)
  show "parseMultiSigSubscript (SubSource sub) = Some sub"
    unfolding parseMultiSigSubscript_def ts sum.case Let_def nth
    using len a(3) c(3) assms(2,3) by (simp add: sub empty_subscript_def)
  have "\<not> tokenOpcode (?ts ! 1) 0xb1" using assms(3) by (cases keys) auto
  then show "parseTimeLockSubscript (SubSource sub) = None"
    unfolding parseTimeLockSubscript_def ts sum.case by simp
qed

text \<open>
  C21. The input script that redeems a multi-signature script hash parses back to exactly the record
  that generated it, provided no signature and no public key is empty.
\<close>

theorem NewRedeemMultiSigScriptHashInputScript_parses:
  assumes "NewRedeemMultiSigScriptHashInputScript signatures publicKeys = Inr s"
    and "[] \<notin> set signatures" and "[] \<notin> set publicKeys"
  shows "ParseTransactionInputScript (InSource s) = s"
proof -
  from assms(1) obtain x y sub p q
    where x: "encodeTransactionSmallInteger (int (length signatures)) = Inr x"
      and y: "encodeTransactionSmallInteger (int (length publicKeys)) = Inr y"
      and sub: "NewMultiSigInputSubscript (of_nat (length signatures)) publicKeys (of_nat (length publicKeys)) = Inr sub"
      and p: "builder_push_all [0] signatures = Inr p" and q: "encodeTransactionPushData (SubSource sub) = Inr q"
      and s: "s = empty_input_script\<lparr>InTemplate := TransactionInputScriptHashMulti, Signatures := signatures,
        Script := Some sub, InSource := p @ q, InErr := None\<rparr>"
    by (auto simp: NewRedeemMultiSigScriptHashInputScript_def GenerateInputScript_def and_then_Inr Let_def
        builder_push_Inr)
  have ne: "signatures \<noteq> []" "publicKeys \<noteq> []"
    using encodeTransactionSmallInteger_Inr(1) [OF x] encodeTransactionSmallInteger_Inr(1) [OF y] by auto
  note sub' = NewMultiSigInputSubscript_parses [OF sub assms(3) ne(2)]
  from builder_push_all_tokens [OF p] obtain r where r: "p = 0 # r"
    "\<And>rest. tokenizeTransactionScript (r @ rest) = foldr prepend (map push_token signatures) (tokenizeTransactionScript rest)"
    by auto
  let ?ts = "opcode_token 0 # map push_token signatures @ [push_token (SubSource sub)]"
  have ts: "tokenizeTransactionScript (InSource s) = Inr ?ts"
    by (simp add: s r tokenize_opcode tokenize_push_end [OF q])
  from ne(1) have len: "3 \<le> length ?ts" by (cases signatures) auto
  have nth: "?ts ! (length ?ts - 1) = push_token (SubSource sub)"
    "take (length ?ts - 2) (drop 1 ?ts) = map push_token signatures" by (simp_all add: nth_append)
  have multi: "match_input_multisig ?ts = Some (signatures, sub)"
    unfolding match_input_multisig_def nth using len sub'(1,2) assms(2) by simp
  have "match_input_timelock ?ts = None"
    using sub'(3) by (auto simp: match_input_timelock_def nth_append split: option.splits)
  with multi ts ne show ?thesis
    by (simp add: ParseTransactionInputScript_def Let_def match_input_pubkey_def match_input_pubkey_hash_def)
      (simp add: s empty_input_script_def)
qed

theorem NewRedeemMultiSigScriptHashInputScript_parses_witness:
  "ParseTransactionInputScript (InSource (projr (NewRedeemMultiSigScriptHashInputScript [[1]] [[2], [3, 4]]))) =
   projr (NewRedeemMultiSigScriptHashInputScript [[1]] [[2], [3, 4]])"
proof (rule NewRedeemMultiSigScriptHashInputScript_parses)
  show "NewRedeemMultiSigScriptHashInputScript [[1]] [[2], [3, 4]] =
    Inr (projr (NewRedeemMultiSigScriptHashInputScript [[1]] [[2], [3, 4]]))" by code_simp
qed simp_all

end
