(* ===== verification/Codec.thy ===== *)
theory Codec
  imports Prelude
begin

text \<open>
  Wire formats: the contract of a reader and a writer that belong together, as a locale, with the
  lemmas every format inherits; the counted loops of the parsers; and the hexadecimal text of
  \<^verbatim>\<open>encoding/hex\<close>. A reader takes the bytes that are left and returns the value with the bytes
  after it, or an error.
\<close>

type_synonym ('e, 'a) reader = "bytes \<Rightarrow> 'e + 'a \<times> bytes"

section \<open>Readers and writers\<close>

text \<open>
  \<open>decode\<close> reads back every valid value \<open>encode\<close> wrote, and leaves what followed it.
\<close>

locale wire_codec =
  fixes decode :: "('e, 'a) reader" and encode :: "'a \<Rightarrow> bytes" and valid :: "'a \<Rightarrow> bool"
  assumes decode_encode: "valid x \<Longrightarrow> decode (encode x @ rest) = Inr (x, rest)"
begin

lemma decode_encode_end: "valid x \<Longrightarrow> decode (encode x) = Inr (x, [])"
  using decode_encode [of x "[]"] by simp

lemma encode_prefix_free:
  assumes "valid x" and "valid y" and "encode x @ r = encode y @ s"
  shows "x = y \<and> r = s"
proof -
  have "decode (encode x @ r) = Inr (y, s)" unfolding assms(3) by (rule decode_encode [OF assms(2)])
  with decode_encode [OF assms(1)] show ?thesis by simp
qed

end

text \<open>
  A reader that only consumes from the front, and takes at least \<open>least\<close> bytes when it succeeds.
\<close>

locale consuming_reader =
  fixes decode :: "('e, 'a) reader" and least :: nat
  assumes decode_consumes: "decode bs = Inr (x, rest) \<Longrightarrow> \<exists>used. bs = used @ rest \<and> least \<le> length used"
begin

lemma decode_length: "decode bs = Inr (x, rest) \<Longrightarrow> least + length rest \<le> length bs"
  using decode_consumes by fastforce

end

section \<open>Counted loops\<close>

text \<open>
  \<^verbatim>\<open>for index := first; index < first+count; index++ { value, err := f(&reader, index); ... append }\<close>,
  which stops at the first error.
\<close>

fun read_counted :: "(nat \<Rightarrow> ('e, 'a) reader) \<Rightarrow> nat \<Rightarrow> nat \<Rightarrow> ('e, 'a list) reader" where
  "read_counted f first 0 bs = Inr ([], bs)"
| "read_counted f first (Suc count) bs =
     and_then (f first bs) (\<lambda>(x, bs1).
     and_then (read_counted f (Suc first) count bs1) (\<lambda>(xs, bs2). Inr (x # xs, bs2)))"

lemma read_counted_encode:
  assumes "\<And>i rest. i < length xs \<Longrightarrow> f (first + i) (enc (xs ! i) @ rest) = Inr (xs ! i, rest)"
  shows "read_counted f first (length xs) (concat (map enc xs) @ rest) = Inr (xs, rest)"
  using assms
proof (induction xs arbitrary: first)
  case (Cons x xs)
  have "f first (enc x @ r) = Inr (x, r)" for r using Cons.prems [of 0] by simp
  moreover have "read_counted f (Suc first) (length xs) (concat (map enc xs) @ rest) = Inr (xs, rest)"
    by (rule Cons.IH) (use Cons.prems [of "Suc i" for i] in simp)
  ultimately show ?case by simp
qed simp

lemma read_counted_length: "read_counted f first count bs = Inr (xs, rest) \<Longrightarrow> length xs = count"
  by (induction f first count bs arbitrary: xs rest rule: read_counted.induct) (fastforce simp: and_then_Inr)+

lemma read_counted_nth:
  "read_counted f first count bs = Inr (xs, rest) \<Longrightarrow> i < count \<Longrightarrow>
     \<exists>bs1 bs2. f (first + i) bs1 = Inr (xs ! i, bs2)"
proof (induction count arbitrary: first bs xs i)
  case (Suc count)
  then obtain x bs1 xs' where x: "f first bs = Inr (x, bs1)"
    and xs': "read_counted f (Suc first) count bs1 = Inr (xs', rest)" and xs: "xs = x # xs'"
    by (auto simp: and_then_Inr)
  show ?case
  proof (cases i)
    case (Suc j)
    with Suc.IH [OF xs', of j] \<open>i < Suc count\<close> show ?thesis by (simp add: xs)
  qed (use x xs in auto)
qed simp

lemma read_counted_consumes:
  assumes "\<And>i. consuming_reader (f i) least"
  shows "read_counted f first count bs = Inr (xs, rest) \<Longrightarrow>
    \<exists>used. bs = used @ rest \<and> count * least \<le> length used"
proof (induction count arbitrary: first bs xs)
  case (Suc count)
  then obtain x bs1 xs' where "f first bs = Inr (x, bs1)"
    and "read_counted f (Suc first) count bs1 = Inr (xs', rest)"
    by (auto simp: and_then_Inr)
  with Suc.IH consuming_reader.decode_consumes [OF assms [of first]] obtain u v
    where "bs = (u @ v) @ rest" "least \<le> length u" "count * least \<le> length v"
    by (metis append.assoc)
  then show ?case by (intro exI [of _ "u @ v"]) simp
qed simp

section \<open>Hexadecimal text\<close>

definition hex_digit :: "nat \<Rightarrow> char" where
  "hex_digit d = ''0123456789abcdef'' ! d"

definition EncodeToString :: "bytes \<Rightarrow> string" where
  "EncodeToString bs = concat (map (\<lambda>b. [hex_digit (unat b div 16), hex_digit (unat b mod 16)]) bs)"

lemma length_EncodeToString [simp]: "length (EncodeToString bs) = 2 * length bs"
  by (induction bs) (auto simp: EncodeToString_def)

end
