(* ===== verification/Sha2.thy ===== *)
theory Sha2
  imports Prelude
begin

text \<open>
  The SHA-2 functions of Go's \<^verbatim>\<open>crypto/sha256\<close> and \<^verbatim>\<open>crypto/sha512\<close> (FIPS 180-4), which the wallet
  uses for checksums, transaction identifiers and header hashes, and the DHT for node identities and
  tokens. They are written once for both word widths; only the lengths of the digests are used by
  proofs, no theorem of the development rests on a cryptographic property.
\<close>

section \<open>The compression function, for either word width\<close>

record 'w sha2_params =
  round_constants :: "'w list"
  big_sigma0 :: "nat \<times> nat \<times> nat"
  big_sigma1 :: "nat \<times> nat \<times> nat"
  small_sigma0 :: "nat \<times> nat \<times> nat"
  small_sigma1 :: "nat \<times> nat \<times> nat"

fun rot3 :: "nat \<times> nat \<times> nat \<Rightarrow> 'a :: len word \<Rightarrow> 'a word" where
  "rot3 (i, j, k) w = word_rotr i w XOR word_rotr j w XOR word_rotr k w"

fun rot2_shift :: "nat \<times> nat \<times> nat \<Rightarrow> 'a :: len word \<Rightarrow> 'a word" where
  "rot2_shift (i, j, k) w = word_rotr i w XOR word_rotr j w XOR drop_bit k w"

text \<open>The message schedule, extended by \<open>n\<close> words at its end.\<close>

fun sha2_schedule :: "('a :: len) word sha2_params \<Rightarrow> nat \<Rightarrow> 'a word list \<Rightarrow> 'a word list" where
  "sha2_schedule p 0 ws = ws"
| "sha2_schedule p (Suc n) ws =
     (let t = length ws in
      sha2_schedule p n (ws @ [rot2_shift (small_sigma1 p) (ws ! (t - 2)) + ws ! (t - 7)
        + rot2_shift (small_sigma0 p) (ws ! (t - 15)) + ws ! (t - 16)]))"

type_synonym 'a sha2_state =
  "'a word \<times> 'a word \<times> 'a word \<times> 'a word \<times> 'a word \<times> 'a word \<times> 'a word \<times> 'a word"

fun sha2_round :: "('a :: len) word sha2_params \<Rightarrow> 'a sha2_state \<Rightarrow> 'a word \<times> 'a word \<Rightarrow> 'a sha2_state" where
  "sha2_round p (a, b, c, d, e, f, g, h) (k, w) =
     (let t1 = h + rot3 (big_sigma1 p) e + ((e AND f) XOR (NOT e AND g)) + k + w;
          t2 = rot3 (big_sigma0 p) a + ((a AND b) XOR (a AND c) XOR (b AND c))
      in (t1 + t2, a, b, c, d + t1, e, f, g))"

fun sha2_add :: "('a :: len) sha2_state \<Rightarrow> 'a sha2_state \<Rightarrow> 'a sha2_state" where
  "sha2_add (a, b, c, d, e, f, g, h) (a', b', c', d', e', f', g', h') =
     (a + a', b + b', c + c', d + d', e + e', f + f', g + g', h + h')"

definition sha2_block :: "('a :: len) word sha2_params \<Rightarrow> 'a sha2_state \<Rightarrow> 'a word list \<Rightarrow> 'a sha2_state" where
  "sha2_block p s ws =
     (let ks = round_constants p
      in sha2_add s (foldl (sha2_round p) s (zip ks (sha2_schedule p (length ks - 16) ws))))"

fun sha2_list :: "'a sha2_state \<Rightarrow> 'a word list" where
  "sha2_list (a, b, c, d, e, f, g, h) = [a, b, c, d, e, f, g, h]"

section \<open>Padding and chunks\<close>

fun chunks :: "nat \<Rightarrow> nat \<Rightarrow> 'b list \<Rightarrow> 'b list list" where
  "chunks n 0 xs = []"
| "chunks n (Suc k) xs = take n xs # chunks n k (drop n xs)"

text \<open>
  \<open>sha2_pad w msg\<close> pads to a multiple of \<open>16 * w\<close> bytes, where \<open>w\<close> is the number of bytes of a word:
  one bit, zeros, and the bit length in \<open>2 * w\<close> bytes.
\<close>

definition sha2_pad :: "nat \<Rightarrow> bytes \<Rightarrow> bytes" where
  "sha2_pad w msg =
     (let block = 16 * w; used = length msg mod block;
          zeros = (2 * block - 2 * w - 1 - used) mod block
      in msg @ [0x80] @ replicate zeros 0 @ be_bytes (2 * w) (8 * length msg))"

definition sha2 :: "('a :: len) word sha2_params \<Rightarrow> nat \<Rightarrow> 'a sha2_state \<Rightarrow> bytes \<Rightarrow> bytes" where
  "sha2 p w iv msg =
     (let padded = sha2_pad w msg;
          blocks = chunks (16 * w) (length padded div (16 * w)) padded;
          words = (\<lambda>blk. map (of_nat \<circ> be_value) (chunks w 16 blk));
          s = foldl (\<lambda>s blk. sha2_block p s (words blk)) iv blocks
      in concat (map (be_bytes w \<circ> unat) (sha2_list s)))"

section \<open>Constants\<close>

text \<open>
  The constants of the standard are the leading fractional bits of the square and cube roots of the
  first primes. \<open>root_search k n b acc\<close> sets the bits of the \<open>k\<close>-th root of \<open>n\<close> from bit \<open>b\<close> downwards.
\<close>

fun root_search :: "nat \<Rightarrow> nat \<Rightarrow> nat \<Rightarrow> nat \<Rightarrow> nat" where
  "root_search k n 0 acc = acc"
| "root_search k n (Suc b) acc =
     root_search k n b (if (acc + 2 ^ b) ^ k \<le> n then acc + 2 ^ b else acc)"

definition root_fraction :: "nat \<Rightarrow> nat \<Rightarrow> nat \<Rightarrow> nat" where
  "root_fraction k bits p = root_search k (p * 2 ^ (k * bits)) (bits + 5) 0 mod 2 ^ bits"

definition small_primes :: "nat list" where
  "small_primes = filter (\<lambda>n. list_all (\<lambda>d. n mod d \<noteq> 0) [2..<n]) [2..<410]"

fun state_of :: "'a word list \<Rightarrow> ('a :: len) sha2_state" where
  "state_of [a, b, c, d, e, f, g, h] = (a, b, c, d, e, f, g, h)"
| "state_of _ = (0, 0, 0, 0, 0, 0, 0, 0)"

section \<open>The three functions the code uses\<close>

definition sha256_params :: "32 word sha2_params" where
  "sha256_params = \<lparr>round_constants = map (\<lambda>p. of_nat (root_fraction 3 32 p)) (take 64 small_primes),
    big_sigma0 = (2, 13, 22), big_sigma1 = (6, 11, 25),
    small_sigma0 = (7, 18, 3), small_sigma1 = (17, 19, 10)\<rparr>"

definition sha512_params :: "64 word sha2_params" where
  "sha512_params = \<lparr>round_constants = map (\<lambda>p. of_nat (root_fraction 3 64 p)) (take 80 small_primes),
    big_sigma0 = (28, 34, 39), big_sigma1 = (14, 18, 41),
    small_sigma0 = (1, 8, 7), small_sigma1 = (19, 61, 6)\<rparr>"

definition sha256 :: "bytes \<Rightarrow> bytes" where
  "sha256 = sha2 sha256_params 4
     (state_of (map (\<lambda>p. of_nat (root_fraction 2 32 p)) (take 8 small_primes)))"

definition sha512 :: "bytes \<Rightarrow> bytes" where
  "sha512 = sha2 sha512_params 8
     (state_of (map (\<lambda>p. of_nat (root_fraction 2 64 p)) (take 8 small_primes)))"

definition sha384 :: "bytes \<Rightarrow> bytes" where
  "sha384 msg = take 48 (sha2 sha512_params 8
     (state_of (map (\<lambda>p. of_nat (root_fraction 2 64 p)) (take 8 (drop 8 small_primes)))) msg)"

lemma length_sha2 [simp]: "length (sha2 p w iv msg) = 8 * w"
proof -
  have "length (concat (map (be_bytes w \<circ> unat) (sha2_list s))) = 8 * w" for s
    by (cases s rule: sha2_list.cases) simp
  then show ?thesis by (simp add: sha2_def Let_def)
qed

lemma length_sha256 [simp]: "length (sha256 msg) = 32"
  and length_sha512 [simp]: "length (sha512 msg) = 64"
  and length_sha384 [simp]: "length (sha384 msg) = 48"
  by (simp_all add: sha256_def sha512_def sha384_def)

end
