(* ===== verification/Transaction.thy ===== *)
theory Transaction
  imports TransactionScriptBuild Codec Sha2
begin

text \<open>
  The wire format of wallet transactions, \<^verbatim>\<open>wallet/transaction.go\<close>: the \<^verbatim>\<open>transactionReader\<close>, the parser
  and the serializer without witnesses, and the sizes of \<^verbatim>\<open>wallet/transaction_build.go\<close>. The reader is
  the bytes it has left. The pointers a transaction keeps to itself (\<^verbatim>\<open>owner\<close>), the resolved previous
  output of an input and the annotations of an output (\<^verbatim>\<open>IsSpent\<close>, \<^verbatim>\<open>Meta\<close> and the like), which the
  parser leaves nil, are not fields of the records.
\<close>

section \<open>Data\<close>

datatype read_error = ErrUnexpectedEOF | TooManyInputs | TooManyOutputs

text \<open>\<^verbatim>\<open>transactionParseError\<close>: the field that could not be read and why.\<close>

datatype transaction_error = TransactionParseError string read_error

record TransactionInput =
  InputPosition :: u32
  PreviousHash :: bytes
  PreviousTxID :: string
  PreviousIndex :: u32
  Sequence :: u32
  Coinbase :: bytes
  InputScript :: TransactionInputScript

record TransactionOutput =
  TransactionID :: string
  TransactionHash :: bytes
  OutputPosition :: u32
  Amount :: u64
  OutputScript :: TransactionOutputScript

record Transaction =
  Raw :: bytes
  RawSansSegWit :: bytes
  TxHash :: bytes
  ID :: string
  Version :: u32
  LockTime :: u32
  SegWitFlag :: byte
  Witnesses :: "bytes list"
  Inputs :: "TransactionInput list"
  Outputs :: "TransactionOutput list"
  Trailing :: bytes
  TxHeight :: int
  TxPosition :: int

definition IsCoinbase :: "TransactionInput \<Rightarrow> bool" where
  "IsCoinbase input \<longleftrightarrow> PreviousHash input = replicate 32 0"

section \<open>The reader\<close>

definition read :: "nat \<Rightarrow> (read_error, bytes) reader" where
  "read n raw = (if length raw < n then Inl ErrUnexpectedEOF else Inr (take n raw, drop n raw))"

definition read_uint8 :: "(read_error, byte) reader" where
  "read_uint8 raw = and_then (read 1 raw) (\<lambda>(v, raw'). Inr (v ! 0, raw'))"

definition read_uint16 :: "(read_error, 16 word) reader" where
  "read_uint16 raw = and_then (read 2 raw) (\<lambda>(v, raw'). Inr (of_nat (le_value v), raw'))"

definition read_uint32 :: "(read_error, u32) reader" where
  "read_uint32 raw = and_then (read 4 raw) (\<lambda>(v, raw'). Inr (of_nat (le_value v), raw'))"

definition read_uint64 :: "(read_error, u64) reader" where
  "read_uint64 raw = and_then (read 8 raw) (\<lambda>(v, raw'). Inr (of_nat (le_value v), raw'))"

definition compactSize :: "(read_error, u64) reader" where
  "compactSize raw = and_then (read_uint8 raw) (\<lambda>(pre, raw').
     if pre = 0xfd then and_then (read_uint16 raw') (\<lambda>(v, raw''). Inr (ucast v, raw''))
     else if pre = 0xfe then and_then (read_uint32 raw') (\<lambda>(v, raw''). Inr (ucast v, raw''))
     else if pre = 0xff then read_uint64 raw'
     else Inr (ucast pre, raw'))"

definition varBytes :: "(read_error, bytes) reader" where
  "varBytes raw = and_then (compactSize raw) (\<lambda>(len, raw').
     if unat len > length raw' then Inl ErrUnexpectedEOF else read (unat len) raw')"

section \<open>The writer\<close>

definition put_uint32 :: "u32 \<Rightarrow> bytes" where "put_uint32 v = le_bytes 4 (unat v)"

definition put_uint64 :: "u64 \<Rightarrow> bytes" where "put_uint64 v = le_bytes 8 (unat v)"

definition writeTransactionCompactSize :: "u64 \<Rightarrow> bytes" where
  "writeTransactionCompactSize v =
     (if v < 0xfd then [ucast v]
      else if v \<le> 0xffff then 0xfd # le_bytes 2 (unat v)
      else if v \<le> 0xffffffff then 0xfe # le_bytes 4 (unat v)
      else 0xff # le_bytes 8 (unat v))"

definition writeTransactionVarBytes :: "bytes \<Rightarrow> bytes" where
  "writeTransactionVarBytes v = writeTransactionCompactSize (of_nat (length v)) @ v"

definition writeTransactionInput :: "TransactionInput \<Rightarrow> bytes" where
  "writeTransactionInput input =
     PreviousHash input @ put_uint32 (PreviousIndex input) @
     writeTransactionVarBytes (if \<not> IsCoinbase input then InSource (InputScript input) else Coinbase input) @
     put_uint32 (Sequence input)"

definition writeTransactionOutput :: "TransactionOutput \<Rightarrow> bytes" where
  "writeTransactionOutput out = put_uint64 (Amount out) @ writeTransactionVarBytes (Source (OutputScript out))"

definition serializeSansSegWit :: "Transaction \<Rightarrow> bytes" where
  "serializeSansSegWit transaction =
     put_uint32 (Version transaction) @
     writeTransactionCompactSize (of_nat (length (Inputs transaction))) @
     concat (map writeTransactionInput (Inputs transaction)) @
     writeTransactionCompactSize (of_nat (length (Outputs transaction))) @
     concat (map writeTransactionOutput (Outputs transaction)) @
     put_uint32 (LockTime transaction)"

text \<open>\<^verbatim>\<open>TransactionInput.Size\<close> and \<^verbatim>\<open>TransactionOutput.Size\<close>.\<close>

definition TransactionInput_Size :: "TransactionInput \<Rightarrow> nat" where
  "TransactionInput_Size input = length (writeTransactionInput input)"

definition TransactionOutput_Size :: "TransactionOutput \<Rightarrow> nat" where
  "TransactionOutput_Size out = length (writeTransactionOutput out)"

definition OutputSum :: "Transaction \<Rightarrow> u64" where
  "OutputSum transaction = fold (\<lambda>out total. total + Amount out) (Outputs transaction) 0"

section \<open>The parser\<close>

definition field :: "string \<Rightarrow> (read_error, 'a) reader \<Rightarrow> (transaction_error, 'a) reader" where
  "field name f raw = (case f raw of Inl e \<Rightarrow> Inl (TransactionParseError name e) | Inr r \<Rightarrow> Inr r)"

definition new_input :: "nat \<Rightarrow> bytes \<Rightarrow> u32 \<Rightarrow> bytes \<Rightarrow> u32 \<Rightarrow> TransactionInput" where
  "new_input index previousHash previousIndex source seq =
     (let input = \<lparr>InputPosition = of_nat index, PreviousHash = previousHash,
            PreviousTxID = EncodeToString (rev previousHash), PreviousIndex = previousIndex,
            Sequence = seq, Coinbase = [], InputScript = empty_input_script\<rparr>
      in if IsCoinbase input then input\<lparr>Coinbase := source\<rparr>
         else input\<lparr>InputScript := ParseTransactionInputScript source\<rparr>)"

definition parseTransactionInput :: "nat \<Rightarrow> (transaction_error, TransactionInput) reader" where
  "parseTransactionInput index raw =
     (if index > 0xffffffff then Inl (TransactionParseError ''input position'' TooManyInputs)
      else and_then (field ''previous hash'' (read 32) raw) (\<lambda>(previousHash, raw1).
           and_then (field ''previous output position'' read_uint32 raw1) (\<lambda>(previousIndex, raw2).
           and_then (field ''input script'' varBytes raw2) (\<lambda>(source, raw3).
           and_then (field ''input sequence'' read_uint32 raw3) (\<lambda>(seq, raw4).
             Inr (new_input index previousHash previousIndex source seq, raw4))))))"

definition parseTransactionOutput :: "nat \<Rightarrow> (transaction_error, TransactionOutput) reader" where
  "parseTransactionOutput index raw =
     (if index > 0xffffffff then Inl (TransactionParseError ''output position'' TooManyOutputs)
      else and_then (field ''output amount'' read_uint64 raw) (\<lambda>(amount, raw1).
           and_then (field ''output script'' varBytes raw1) (\<lambda>(source, raw2).
             Inr (\<lparr>TransactionID = '''', TransactionHash = replicate 32 0, OutputPosition = of_nat index,
                    Amount = amount, OutputScript = ParseTransactionOutputScript source\<rparr>, raw2))))"

text \<open>The witnesses of one input; \<^verbatim>\<open>ParseTransaction\<close> collects those of all inputs in one list.\<close>

definition parseWitnesses :: "nat \<Rightarrow> (transaction_error, bytes list) reader" where
  "parseWitnesses inputIndex raw =
     and_then (field ''witness count'' compactSize raw) (\<lambda>(witnessCount, raw1).
       read_counted (\<lambda>_. field ''witness'' varBytes) 0 (unat witnessCount) raw1)"

definition double_sha256 :: "bytes \<Rightarrow> bytes" where
  "double_sha256 bs = sha256 (sha256 bs)"

text \<open>
  The last part of \<^verbatim>\<open>ParseTransaction\<close>: hash and identifier over the serialization without witnesses
  (the raw bytes, trailing ones included, when there is no witness), and the links of the outputs.
\<close>

definition finish_transaction :: "Transaction \<Rightarrow> Transaction" where
  "finish_transaction t =
     (let sans = (if SegWitFlag t \<noteq> 0 then serializeSansSegWit t else Raw t);
          hash = double_sha256 sans;
          tid = EncodeToString (rev hash)
      in t\<lparr>RawSansSegWit := sans, TxHash := hash, ID := tid,
           Outputs := map (\<lambda>(index, out). out\<lparr>OutputPosition := of_nat index, TransactionID := tid,
                        TransactionHash := hash\<rparr>) (enumerate 0 (Outputs t))\<rparr>)"

definition ParseTransaction :: "bytes \<Rightarrow> transaction_error + Transaction" where
  "ParseTransaction raw =
     and_then (field ''version'' read_uint32 raw) (\<lambda>(version, raw1).
     and_then (field ''input count'' compactSize raw1) (\<lambda>(count, raw2).
     and_then (if count = 0
               then and_then (field ''segwit flag'' read_uint8 raw2) (\<lambda>(flag, raw3).
                    and_then (field ''segwit input count'' compactSize raw3) (\<lambda>(count', raw4).
                      Inr (flag, count', raw4)))
               else Inr (0, count, raw2)) (\<lambda>(flag, inputCount, raw5).
     and_then (read_counted parseTransactionInput 0 (unat inputCount) raw5) (\<lambda>(ins, raw6).
     and_then (field ''output count'' compactSize raw6) (\<lambda>(outputCount, raw7).
     and_then (read_counted parseTransactionOutput 0 (unat outputCount) raw7) (\<lambda>(outs, raw8).
     and_then (if flag \<noteq> 0
               then and_then (read_counted parseWitnesses 0 (unat inputCount) raw8) (\<lambda>(ws, raw9).
                      Inr (concat ws, raw9))
               else Inr ([], raw8)) (\<lambda>(witnesses, raw10).
     and_then (field ''locktime'' read_uint32 raw10) (\<lambda>(lockTime, trailing).
       Inr (finish_transaction \<lparr>Raw = raw, RawSansSegWit = [], TxHash = replicate 32 0, ID = '''',
              Version = version, LockTime = lockTime, SegWitFlag = flag, Witnesses = witnesses,
              Inputs = ins, Outputs = outs, Trailing = trailing, TxHeight = - 2, TxPosition = - 1\<rparr>)))))))))"

section \<open>Readers and writers agree\<close>

lemma read_append [simp, codec_simps]: "length v = n \<Longrightarrow> read n (v @ rest) = Inr (v, rest)"
  by (simp add: read_def)

lemmas ucast_simps = unsigned_ucast_eq unsigned_of_nat unsigned_take_bit_eq take_bit_nat_eq_self

lemma of_nat_unat_mod_id:
  fixes v :: "'a::len word"
  shows "unat v < 256 ^ n \<Longrightarrow> (of_nat (le_value (le_bytes n (unat v))) :: 'a word) = v"
  by (simp add: le_value_le_bytes_id)

lemma unat_u32_bound: "unat (v :: u32) < 4294967296"
  using unsigned_less [of v] by simp

lemma unat_u64_bound: "unat (v :: u64) < 18446744073709551616"
  using unsigned_less [of v] by simp

interpretation w32: wire_codec read_uint32 put_uint32 "\<lambda>_. True"
  by unfold_locales (simp add: read_uint32_def put_uint32_def codec_simps of_nat_unat_mod_id unat_u32_bound)

interpretation w64: wire_codec read_uint64 put_uint64 "\<lambda>_. True"
  by unfold_locales (simp add: read_uint64_def put_uint64_def codec_simps of_nat_unat_mod_id unat_u64_bound)

lemma read_uint8_Cons [simp, codec_simps]: "read_uint8 (b # rest) = Inr (b, rest)"
  by (simp add: read_uint8_def read_def)

lemma compactSize_write: "compactSize (writeTransactionCompactSize v @ rest) = Inr (v, rest)"
proof -
  consider "v < 0xfd" | "\<not> v < 0xfd" "v \<le> 0xffff" | "\<not> v \<le> 0xffff" "v \<le> 0xffffffff" | "\<not> v \<le> 0xffffffff"
    by blast
  then show ?thesis
  proof cases
    case 1
    then have "unat v < 0xfd" by (simp add: word_less_nat_alt)
    then have "unat (ucast v :: byte) = unat v" by (simp add: ucast_simps)
    then have "(ucast v :: byte) \<notin> {0xfd, 0xfe, 0xff}"
      using \<open>unat v < 0xfd\<close> by (auto dest!: arg_cong [of _ _ unat])
    moreover have "(ucast (ucast v :: byte) :: u64) = v"
      using \<open>unat v < 0xfd\<close>
      by (intro word_unat_eq_iff [THEN iffD2]) (simp add: ucast_simps)
    ultimately show ?thesis using 1 by (simp add: writeTransactionCompactSize_def compactSize_def)
  next
    case 2
    then have "unat v < 256 ^ 2" by (simp add: word_le_nat_alt)
    then have "(ucast (of_nat (unat v) :: 16 word) :: u64) = v"
      by (intro word_unat_eq_iff [THEN iffD2]) (simp add: ucast_simps)
    with 2 \<open>unat v < 256 ^ 2\<close> show ?thesis
      by (simp add: writeTransactionCompactSize_def compactSize_def read_uint16_def le_value_le_bytes_id)
  next
    case 3
    then have "unat v < 256 ^ 4" by (simp add: word_le_nat_alt)
    then have "(ucast (of_nat (unat v) :: u32) :: u64) = v"
      by (intro word_unat_eq_iff [THEN iffD2]) (simp add: ucast_simps)
    moreover have "\<not> v < 0xfd" using 3(1) by (simp add: word_le_nat_alt word_less_nat_alt)
    ultimately show ?thesis using 3 \<open>unat v < 256 ^ 4\<close>
      by (simp add: writeTransactionCompactSize_def compactSize_def read_uint32_def le_value_le_bytes_id)
  next
    case 4
    then have "\<not> v < 0xfd" "\<not> v \<le> 0xffff" by (simp_all add: word_le_nat_alt word_less_nat_alt)
    with 4 show ?thesis using w64.decode_encode [of v]
      by (simp add: writeTransactionCompactSize_def compactSize_def put_uint64_def)
  qed
qed

interpretation wcompact: wire_codec compactSize writeTransactionCompactSize "\<lambda>_. True"
  by unfold_locales (rule compactSize_write)

interpretation wvar: wire_codec varBytes writeTransactionVarBytes "\<lambda>v. length v < 2 ^ 64"
  by unfold_locales
    (simp add: varBytes_def writeTransactionVarBytes_def compactSize_write unsigned_of_nat take_bit_nat_eq_self)

section \<open>Well-formed transactions\<close>

lemma Source_ParseTransactionOutputScript [simp]: "Source (ParseTransactionOutputScript src) = src"
  by (cases rule: ParseTransactionOutputScript_cases [of src]) (simp_all add: recognised_from_def)

lemma InSource_ParseTransactionInputScript [simp]: "InSource (ParseTransactionInputScript src) = src"
  by (simp add: ParseTransactionInputScript_def Let_def split: sum.split option.split)

definition wf_input :: "nat \<Rightarrow> TransactionInput \<Rightarrow> bool" where
  "wf_input i x \<longleftrightarrow> i \<le> 0xffffffff \<and> InputPosition x = of_nat i \<and> length (PreviousHash x) = 32 \<and>
     PreviousTxID x = EncodeToString (rev (PreviousHash x)) \<and>
     (if IsCoinbase x then InputScript x = empty_input_script \<and> length (Coinbase x) < 2 ^ 64
      else Coinbase x = [] \<and> InputScript x = ParseTransactionInputScript (InSource (InputScript x)) \<and>
           length (InSource (InputScript x)) < 2 ^ 64)"

definition wf_output :: "nat \<Rightarrow> TransactionOutput \<Rightarrow> bool" where
  "wf_output i y \<longleftrightarrow> i \<le> 0xffffffff \<and> OutputPosition y = of_nat i \<and>
     OutputScript y = ParseTransactionOutputScript (Source (OutputScript y)) \<and>
     length (Source (OutputScript y)) < 2 ^ 64"

definition unlinked :: "TransactionOutput \<Rightarrow> TransactionOutput" where
  "unlinked y = y\<lparr>TransactionID := '''', TransactionHash := replicate 32 0\<rparr>"

definition wf_transaction :: "Transaction \<Rightarrow> bool" where
  "wf_transaction t \<longleftrightarrow>
     length (Inputs t) < 2 ^ 64 \<and> length (Outputs t) < 2 ^ 64 \<and>
     (\<forall>i < length (Inputs t). wf_input i (Inputs t ! i)) \<and>
     (\<forall>i < length (Outputs t). wf_output i (Outputs t ! i))"

lemma field_Inr [simp, codec_simps]: "f raw = Inr r \<Longrightarrow> field name f raw = Inr r"
  by (simp add: field_def)

lemma field_Inr_iff: "field name f raw = Inr r \<longleftrightarrow> f raw = Inr r"
  by (simp add: field_def split: sum.split)

interpretation winput: wire_codec "parseTransactionInput i" writeTransactionInput "wf_input i" for i
proof
  fix x rest assume "wf_input i x"
  then show "parseTransactionInput i (writeTransactionInput x @ rest) = Inr (x, rest)"
    unfolding wf_input_def
    by (cases x) (auto simp: parseTransactionInput_def writeTransactionInput_def codec_simps new_input_def Let_def
        w32.decode_encode wvar.decode_encode IsCoinbase_def split: if_splits)
qed

interpretation woutput: wire_codec "parseTransactionOutput i" writeTransactionOutput
    "\<lambda>y. wf_output i y \<and> y = unlinked y" for i
proof
  fix y rest assume "wf_output i y \<and> y = unlinked y"
  then show "parseTransactionOutput i (writeTransactionOutput y @ rest) = Inr (y, rest)"
    unfolding wf_output_def unlinked_def
    by (cases y) (auto simp: parseTransactionOutput_def writeTransactionOutput_def codec_simps
        w64.decode_encode wvar.decode_encode)
qed

lemma unlinked_write [simp]: "writeTransactionOutput (unlinked y) = writeTransactionOutput y"
  by (simp add: writeTransactionOutput_def unlinked_def)

lemma wf_output_unlinked [simp]: "wf_output i (unlinked y) = wf_output i y"
  by (simp add: wf_output_def unlinked_def)

lemma unlinked_unlinked [simp]: "unlinked (unlinked y) = unlinked y"
  by (simp add: unlinked_def)

lemma read_output_write:
  "wf_output i y \<Longrightarrow> parseTransactionOutput i (writeTransactionOutput y @ rest) = Inr (unlinked y, rest)"
  using woutput.decode_encode [of i "unlinked y" rest] by simp

lemma read_inputs_write:
  assumes "wf_transaction t"
  shows "read_counted parseTransactionInput 0 (length (Inputs t))
    (concat (map writeTransactionInput (Inputs t)) @ rest) = Inr (Inputs t, rest)"
  using assms by (intro read_counted_encode) (simp add: wf_transaction_def winput.decode_encode)

lemma read_outputs_write:
  assumes "wf_transaction t"
  shows "read_counted parseTransactionOutput 0 (length (Outputs t))
    (concat (map writeTransactionOutput (Outputs t)) @ rest) = Inr (map unlinked (Outputs t), rest)"
proof -
  let ?ys = "map unlinked (Outputs t)"
  have "read_counted parseTransactionOutput 0 (length ?ys) (concat (map writeTransactionOutput ?ys) @ rest) = Inr (?ys, rest)"
    using assms by (intro read_counted_encode) (simp add: wf_transaction_def read_output_write)
  then show ?thesis by (simp add: comp_def)
qed

definition link :: "string \<Rightarrow> bytes \<Rightarrow> nat \<times> TransactionOutput \<Rightarrow> TransactionOutput" where
  "link tid hash = (\<lambda>(index, out). out\<lparr>OutputPosition := of_nat index, TransactionID := tid, TransactionHash := hash\<rparr>)"

lemma link_unlinked [simp]: "link tid hash (i, unlinked y) = link tid hash (i, y)"
  by (simp add: link_def unlinked_def)

lemma map_link_unlinked:
  "map (link tid hash) (enumerate 0 (map unlinked ys)) = map (link tid hash) (enumerate 0 ys)"
  by (rule nth_equalityI) (simp_all add: nth_enumerate_eq)

lemma finish_unlinked:
  "SegWitFlag t = 0 \<Longrightarrow> finish_transaction (t\<lparr>Outputs := map unlinked (Outputs t)\<rparr>) = finish_transaction t"
  by (simp add: finish_transaction_def Let_def map_link_unlinked link_def [symmetric])

lemma ParseTransaction_serialize:
  assumes wf: "wf_transaction t" and ne: "Inputs t \<noteq> []"
  shows "ParseTransaction (serializeSansSegWit t) =
    Inr (finish_transaction \<lparr>Raw = serializeSansSegWit t, RawSansSegWit = [], TxHash = replicate 32 0, ID = '''',
              Version = Version t, LockTime = LockTime t, SegWitFlag = 0, Witnesses = [],
              Inputs = Inputs t, Outputs = map unlinked (Outputs t), Trailing = [], TxHeight = - 2, TxPosition = - 1\<rparr>)"
proof -
  have n: "unat (of_nat (length (Inputs t)) :: u64) = length (Inputs t)"
    "unat (of_nat (length (Outputs t)) :: u64) = length (Outputs t)"
    using wf by (simp_all add: wf_transaction_def unsigned_of_nat take_bit_nat_eq_self)
  with ne have "(of_nat (length (Inputs t)) :: u64) \<noteq> 0" by (metis length_0_conv unsigned_0)
  with n show ?thesis
    unfolding ParseTransaction_def 
    by (subst (1) serializeSansSegWit_def)
      (simp add: w32.decode_encode w32.decode_encode_end wcompact.decode_encode read_inputs_write [OF wf] read_outputs_write [OF wf])
qed
section \<open>Readers only consume\<close>

lemma read_consumes: "read n bs = Inr (v, rest) \<longleftrightarrow> length v = n \<and> bs = v @ rest"
  by (auto simp: read_def)

lemma read_uint_consumes:
  "read_uint8 bs = Inr (x8, rest) \<Longrightarrow> \<exists>v. length v = 1 \<and> bs = v @ rest"
  "read_uint16 bs = Inr (x16, rest) \<Longrightarrow> \<exists>v. length v = 2 \<and> bs = v @ rest \<and> x16 = of_nat (le_value v)"
  "read_uint32 bs = Inr (x32, rest) \<Longrightarrow> \<exists>v. length v = 4 \<and> bs = v @ rest \<and> x32 = of_nat (le_value v)"
  "read_uint64 bs = Inr (x64, rest) \<Longrightarrow> \<exists>v. length v = 8 \<and> bs = v @ rest"
  by (auto simp: read_uint8_def read_uint16_def read_uint32_def read_uint64_def and_then_Inr read_consumes)

interpretation c32: consuming_reader read_uint32 4
  by unfold_locales (auto dest: read_uint_consumes)

interpretation c64: consuming_reader read_uint64 8
  by unfold_locales (auto dest: read_uint_consumes)

text \<open>What \<^verbatim>\<open>compactSize\<close> accepts: one byte, or one of the three longer forms, canonical or not.\<close>

lemma compactSize_cases:
  assumes "compactSize bs = Inr (v, rest)"
  obtains (byte) b where "bs = b # rest" "v = ucast b" "b < 0xfd"
    | (two) p where "length p = 2" "bs = 0xfd # p @ rest" "v = ucast (of_nat (le_value p) :: 16 word)"
    | (four) p where "length p = 4" "bs = 0xfe # p @ rest" "v = ucast (of_nat (le_value p) :: u32)"
    | (eight) p where "length p = 8" "bs = 0xff # p @ rest"
proof -
  from assms obtain b bs1 where b: "bs = b # bs1"
    by (cases bs) (auto simp: compactSize_def read_uint8_def read_def)
  consider "b = 0xfd" | "b = 0xfe" | "b = 0xff" | "b \<noteq> 0xfd" "b \<noteq> 0xfe" "b \<noteq> 0xff" by blast
  then show thesis
  proof cases
    case 1
    with assms b two show ?thesis by (auto simp: compactSize_def and_then_Inr dest!: read_uint_consumes)
  next
    case 2
    with assms b four show ?thesis by (auto simp: compactSize_def and_then_Inr dest!: read_uint_consumes)
  next
    case 3
    with assms b eight show ?thesis by (auto simp: compactSize_def and_then_Inr dest!: read_uint_consumes)
  next
    case 4
    then have "unat b \<noteq> 253" "unat b \<noteq> 254" "unat b \<noteq> 255" by (auto simp: word_unat_eq_iff)
    then have "unat b < 253" using unat_byte_less [of b] by linarith
    with 4 assms b byte show ?thesis by (auto simp: compactSize_def word_less_nat_alt)
  qed
qed

interpretation ccompact: consuming_reader compactSize 1
proof
  fix bs v rest assume "compactSize bs = Inr (v, rest)"
  then show "\<exists>used. bs = used @ rest \<and> 1 \<le> length used"
  proof (cases rule: compactSize_cases)
    case (byte b)
    then show ?thesis by (intro exI [of _ "[b]"]) simp
  next
    case (two p)
    then show ?thesis by (intro exI [of _ "0xfd # p"]) simp
  next
    case (four p)
    then show ?thesis by (intro exI [of _ "0xfe # p"]) simp
  next
    case (eight p)
    then show ?thesis by (intro exI [of _ "0xff # p"]) simp
  qed
qed

lemma varBytes_length: "varBytes bs = Inr (v, rest) \<Longrightarrow> length v < 2 ^ 64"
  using unat_u64_bound by (auto simp: varBytes_def and_then_Inr read_consumes split: if_splits)

interpretation cvar: consuming_reader varBytes 1
proof
  fix bs v rest assume "varBytes bs = Inr (v, rest)"
  then obtain n bs1 where n: "compactSize bs = Inr (n, bs1)" and "bs1 = v @ rest"
    by (auto simp: varBytes_def and_then_Inr read_consumes split: if_splits)
  with ccompact.decode_consumes [OF n] show "\<exists>used. bs = used @ rest \<and> 1 \<le> length used"
    by (metis append.assoc le_add1 le_trans length_append)
qed

lemma reader_chain:
  assumes "bs = u @ rest1" "m \<le> length u" and "\<exists>used. rest1 = used @ rest \<and> n \<le> length used"
  shows "\<exists>used. bs = used @ rest \<and> m + n \<le> length (used :: bytes)"
  using assms by (metis add_mono append.assoc length_append)

interpretation cinput: consuming_reader "parseTransactionInput i" 41 for i
proof
  fix bs x rest assume "parseTransactionInput i bs = Inr (x, rest)"
  then obtain h r1 k r2 s r3 q where "read 32 bs = Inr (h, r1)" and k: "read_uint32 r1 = Inr (k, r2)"
    and s: "varBytes r2 = Inr (s, r3)" and q: "read_uint32 r3 = Inr (q, rest)"
    by (auto simp: parseTransactionInput_def and_then_Inr field_Inr_iff Let_def split: if_splits)
  then have h: "bs = h @ r1" "32 \<le> length h" by (simp_all add: read_consumes)
  from reader_chain [OF _ _ c32.decode_consumes [OF q]] cvar.decode_consumes [OF s]
  have "\<exists>used. r2 = used @ rest \<and> 1 + 4 \<le> length used" by blast
  with reader_chain c32.decode_consumes [OF k] have "\<exists>used. r1 = used @ rest \<and> 4 + (1 + 4) \<le> length used" by blast
  with reader_chain [OF h] have "\<exists>used. bs = used @ rest \<and> 32 + (4 + (1 + 4)) \<le> length used" by blast
  then show "\<exists>used. bs = used @ rest \<and> 41 \<le> length used" by simp
qed

interpretation coutput: consuming_reader "parseTransactionOutput i" 9 for i
proof
  fix bs y rest assume "parseTransactionOutput i bs = Inr (y, rest)"
  then obtain a r1 s where a: "read_uint64 bs = Inr (a, r1)" and s: "varBytes r1 = Inr (s, rest)"
    by (auto simp: parseTransactionOutput_def and_then_Inr field_Inr_iff split: if_splits)
  from reader_chain [OF _ _ cvar.decode_consumes [OF s]] c64.decode_consumes [OF a]
  have "\<exists>used. bs = used @ rest \<and> 8 + 1 \<le> length used" by blast
  then show "\<exists>used. bs = used @ rest \<and> 9 \<le> length used" by simp
qed

lemma IsCoinbase_update [simp]:
  "IsCoinbase (x\<lparr>Coinbase := c\<rparr>) = IsCoinbase x" "IsCoinbase (x\<lparr>InputScript := sc\<rparr>) = IsCoinbase x"
  by (simp_all add: IsCoinbase_def)

lemma wf_new_input [wf_intros]:
  "i \<le> 0xffffffff \<Longrightarrow> length h = 32 \<Longrightarrow> length source < 2 ^ 64 \<Longrightarrow> wf_input i (new_input i h k source q)"
  by (simp add: wf_input_def new_input_def Let_def IsCoinbase_def)

lemma parseTransactionInput_wf:
  assumes "parseTransactionInput i bs = Inr (x, rest)"
  shows "wf_input i x"
proof -
  from assms obtain h r1 k r2 s r3 q where i: "i \<le> 0xffffffff" and "read 32 bs = Inr (h, r1)"
    and s: "varBytes r2 = Inr (s, r3)"
    and x: "x = new_input i h k s q"
    by (auto simp: parseTransactionInput_def and_then_Inr field_Inr_iff split: if_split_asm)
  then have "length h = 32" by (simp add: read_consumes)
  with i varBytes_length [OF s] show ?thesis unfolding x by (intro wf_intros)
qed

lemma parseTransactionOutput_wf: "parseTransactionOutput i bs = Inr (y, rest) \<Longrightarrow> wf_output i y"
  by (auto simp: parseTransactionOutput_def wf_output_def and_then_Inr field_Inr_iff dest!: varBytes_length
      split: if_splits)

section \<open>Properties of the wire format\<close>

lemma serialize_finish [simp]: "serializeSansSegWit (finish_transaction t) = serializeSansSegWit t"
proof -
  have "map writeTransactionOutput (map (link tid h) (enumerate n ys)) = map writeTransactionOutput ys" for tid h n ys
    by (rule nth_equalityI) (simp_all add: nth_enumerate_eq link_def writeTransactionOutput_def)
  then have "map writeTransactionOutput (Outputs (finish_transaction t)) = map writeTransactionOutput (Outputs t)"
    by (simp add: finish_transaction_def Let_def link_def [symmetric])
  moreover from arg_cong [OF this, of length] have "length (Outputs (finish_transaction t)) = length (Outputs t)"
    by simp
  moreover have "Version (finish_transaction t) = Version t" "LockTime (finish_transaction t) = LockTime t"
    "Inputs (finish_transaction t) = Inputs t"
    by (simp_all add: finish_transaction_def Let_def)
  ultimately show ?thesis by (simp add: serializeSansSegWit_def)
qed

lemma wf_finish: "wf_transaction t \<Longrightarrow> wf_transaction (finish_transaction t)"
  by (auto simp: wf_transaction_def wf_output_def finish_transaction_def Let_def nth_enumerate_eq)

lemma finish_sel [simp]:
  "Raw (finish_transaction t) = Raw t" "SegWitFlag (finish_transaction t) = SegWitFlag t"
  "Trailing (finish_transaction t) = Trailing t" "Inputs (finish_transaction t) = Inputs t"
  "length (Outputs (finish_transaction t)) = length (Outputs t)"
  by (simp_all add: finish_transaction_def Let_def)

lemma reader_chain_ex:
  "\<exists>u. bs = u @ r \<and> m \<le> length (u :: bytes) \<Longrightarrow> \<exists>u. r = u @ rest \<and> n \<le> length u \<Longrightarrow>
     \<exists>u. bs = u @ rest \<and> m + n \<le> length u"
  using reader_chain by blast

interpretation cwitness: consuming_reader "field ''witness'' varBytes" 1
  using cvar.decode_consumes by unfold_locales (simp add: field_Inr_iff)

interpretation cwitnesses: consuming_reader "parseWitnesses i" 0 for i
proof
  fix bs ws rest assume "parseWitnesses i bs = Inr (ws, rest)"
  then obtain n r where n: "compactSize bs = Inr (n, r)"
    and "read_counted (\<lambda>_. field ''witness'' varBytes) 0 (unat n) r = Inr (ws, rest)"
    by (auto simp: parseWitnesses_def and_then_Inr field_Inr_iff)
  from read_counted_consumes [OF _ this(2), of 1] cwitness.consuming_reader_axioms
  have "\<exists>u. r = u @ rest \<and> 0 \<le> length u" by auto
  from reader_chain_ex [OF ccompact.decode_consumes [OF n] this]
  show "\<exists>u. bs = u @ rest \<and> 0 \<le> length u" by auto
qed

lemma ParseTransaction_Inr:
  assumes "ParseTransaction raw = Inr t"
  obtains t0 used where "t = finish_transaction t0" "wf_transaction t0" "TxHeight t0 = - 2" "TxPosition t0 = - 1"
    "Raw t0 = raw" "raw = used @ Trailing t0"
    "41 * length (Inputs t0) + 9 * length (Outputs t0) \<le> length used"
proof -
  from assms obtain version r1 count r2 flag inputCount r5 ins r6 outputCount r7 outs r8 ws r10 lockTime trailing where
    1: "read_uint32 raw = Inr (version, r1)" "compactSize r1 = Inr (count, r2)"
    and 2: "(if count = 0
               then and_then (field ''segwit flag'' read_uint8 r2) (\<lambda>(flag, raw3).
                    and_then (field ''segwit input count'' compactSize raw3) (\<lambda>(count', raw4).
                      Inr (flag, count', raw4)))
               else Inr (0, count, r2)) = Inr (flag, inputCount, r5)"
    and 3: "read_counted parseTransactionInput 0 (unat inputCount) r5 = Inr (ins, r6)"
    and 4: "compactSize r6 = Inr (outputCount, r7)"
    and 5: "read_counted parseTransactionOutput 0 (unat outputCount) r7 = Inr (outs, r8)"
    and 6: "(if flag \<noteq> 0
               then and_then (read_counted parseWitnesses 0 (unat inputCount) r8) (\<lambda>(ws, raw9).
                      Inr (concat ws, raw9))
               else Inr ([], r8)) = Inr (ws, r10)"
    and 7: "read_uint32 r10 = Inr (lockTime, trailing)"
    and t: "t = finish_transaction \<lparr>Raw = raw, RawSansSegWit = [], TxHash = replicate 32 0, ID = '''',
              Version = version, LockTime = lockTime, SegWitFlag = flag, Witnesses = ws,
              Inputs = ins, Outputs = outs, Trailing = trailing, TxHeight = - 2, TxPosition = - 1\<rparr>"
      (is "t = finish_transaction ?t0")
    unfolding ParseTransaction_def and_then_Inr field_Inr_iff split_paired_Ex prod.case sum.inject by blast
  have "\<exists>used. r2 = used @ r5 \<and> 0 \<le> length used"
  proof (cases "count = 0")
    case True
    with 2 obtain b r3 c where "read_uint8 r2 = Inr (b, r3)" "compactSize r3 = Inr (c, r5)"
      by (auto simp: and_then_Inr field_Inr_iff)
    then show ?thesis using read_uint_consumes(1) ccompact.decode_consumes by (metis append.assoc zero_le)
  qed (use 2 in auto)
  note header = reader_chain_ex [OF reader_chain_ex [OF c32.decode_consumes [OF 1(1)] ccompact.decode_consumes [OF 1(2)]] this]
  note body = reader_chain_ex [OF header read_counted_consumes [OF cinput.consuming_reader_axioms 3]]
  note body = reader_chain_ex [OF reader_chain_ex [OF body ccompact.decode_consumes [OF 4]]
      read_counted_consumes [OF coutput.consuming_reader_axioms 5]]
  have "\<exists>used. r8 = used @ r10 \<and> 0 \<le> length used"
    using 6 read_counted_consumes [of parseWitnesses 0 0 "unat inputCount" r8] cwitnesses.consuming_reader_axioms
    by (auto simp: and_then_Inr split: if_splits)
  from reader_chain_ex [OF reader_chain_ex [OF body this] c32.decode_consumes [OF 7]]
  obtain used where used: "raw = used @ trailing"
    "41 * unat inputCount + 9 * unat outputCount \<le> length used" by auto
  have len: "length ins = unat inputCount" "length outs = unat outputCount"
    using read_counted_length [OF 3] read_counted_length [OF 5] by simp_all
  moreover have "wf_input i (ins ! i)" if "i < unat inputCount" for i
    using read_counted_nth [OF 3 that] parseTransactionInput_wf by auto
  moreover have "wf_output i (outs ! i)" if "i < unat outputCount" for i
    using read_counted_nth [OF 5 that] parseTransactionOutput_wf by auto
  ultimately have "wf_transaction ?t0" using unat_u64_bound by (simp add: wf_transaction_def)
  then show thesis using that [OF t] used len by simp
qed

text \<open>
  C22. What a parsed transaction promises: its inputs and outputs are well formed and in position, its
  hash and identifier are those of the serialization without witnesses, every output carries them, the
  trailing bytes are the end of the input, and the counts are bounded by the length of the input, so a
  huge count in the input cannot make the parser allocate more.
\<close>

theorem ParseTransaction_wf:
  assumes "ParseTransaction raw = Inr t"
  shows "wf_transaction t \<and> Raw t = raw \<and>
    RawSansSegWit t = (if SegWitFlag t \<noteq> 0 then serializeSansSegWit t else raw) \<and>
    TxHash t = double_sha256 (RawSansSegWit t) \<and> ID t = EncodeToString (rev (TxHash t)) \<and>
    (\<forall>out\<in>set (Outputs t). TransactionID out = ID t \<and> TransactionHash out = TxHash t) \<and>
    (\<exists>used. raw = used @ Trailing t \<and> 41 * length (Inputs t) + 9 * length (Outputs t) \<le> length used)"
proof -
  from assms obtain t0 used where t: "t = finish_transaction t0" and t0: "wf_transaction t0" "Raw t0 = raw"
      "raw = used @ Trailing t0" "41 * length (Inputs t0) + 9 * length (Outputs t0) \<le> length used"
    by (rule ParseTransaction_Inr)
  have "RawSansSegWit t = (if SegWitFlag t \<noteq> 0 then serializeSansSegWit t else raw)"
    unfolding t serialize_finish by (simp add: finish_transaction_def Let_def t0(2))
  moreover have "TxHash t = double_sha256 (RawSansSegWit t)" "ID t = EncodeToString (rev (TxHash t))"
    "\<forall>out\<in>set (Outputs t). TransactionID out = ID t \<and> TransactionHash out = TxHash t"
    by (auto simp: t finish_transaction_def Let_def)
  ultimately show ?thesis using t0 wf_finish [OF t0(1)] by (simp add: t del: ex_simps)
qed
text \<open>A transaction with a coinbase input, a spending input and two outputs, used to exercise the theorems.\<close>

definition example_transaction :: Transaction where
  "example_transaction =
     \<lparr>Raw = [], RawSansSegWit = [], TxHash = [], ID = [], Version = 1, LockTime = 7, SegWitFlag = 0,
      Witnesses = [], Inputs = [new_input 0 (replicate 32 0) 0xffffffff [1, 2] 0, new_input 1 (replicate 32 5) 3 [1, 9] 8],
      Outputs = [\<lparr>TransactionID = [], TransactionHash = [], OutputPosition = 0, Amount = 300,
                  OutputScript = ParseTransactionOutputScript [0xa9, 1, 9, 0x87]\<rparr>,
                 \<lparr>TransactionID = [], TransactionHash = [], OutputPosition = 1, Amount = 5,
                  OutputScript = ParseTransactionOutputScript []\<rparr>],
      Trailing = [], TxHeight = 0, TxPosition = 0\<rparr>"

lemma wf_example: "wf_transaction example_transaction"
  by (auto simp: wf_transaction_def example_transaction_def wf_output_def less_Suc_eq intro!: wf_intros)

lemma Inputs_example: "Inputs example_transaction \<noteq> []"
  by (simp add: example_transaction_def)

theorem ParseTransaction_wf_witness:
  defines "raw \<equiv> serializeSansSegWit example_transaction"
  defines "t \<equiv> projr (ParseTransaction raw)"
  shows "wf_transaction t \<and> Raw t = raw \<and> TxHash t = double_sha256 (RawSansSegWit t) \<and>
    ID t = EncodeToString (rev (TxHash t)) \<and>
    (\<exists>used. raw = used @ Trailing t \<and> 41 * length (Inputs t) + 9 * length (Outputs t) \<le> length used)"
proof -
  have "ParseTransaction raw = Inr t"
    unfolding t_def raw_def using ParseTransaction_serialize [OF wf_example Inputs_example] by simp
  from ParseTransaction_wf [OF this] show ?thesis by blast
qed

text \<open>
  C23. Parsing what the serializer wrote gives back every well-formed transaction with at least one
  input, without its witnesses and trailing bytes and with the links recomputed. (With no input the
  count is read as the marker of a witness serialization.)
\<close>

theorem ParseTransaction_serializeSansSegWit:
  assumes "wf_transaction t" and "Inputs t \<noteq> []"
  shows "ParseTransaction (serializeSansSegWit t) =
    Inr (finish_transaction (t\<lparr>Raw := serializeSansSegWit t, SegWitFlag := 0, Witnesses := [], Trailing := [],
      TxHeight := - 2, TxPosition := - 1\<rparr>))"
  unfolding ParseTransaction_serialize [OF assms]
  by (simp add: finish_transaction_def Let_def link_def [symmetric] map_link_unlinked)

theorem ParseTransaction_serializeSansSegWit_witness:
  "ParseTransaction (serializeSansSegWit example_transaction) =
    Inr (finish_transaction (example_transaction\<lparr>Raw := serializeSansSegWit example_transaction, SegWitFlag := 0,
      Witnesses := [], Trailing := [], TxHeight := - 2, TxPosition := - 1\<rparr>))"
  by (rule ParseTransaction_serializeSansSegWit [OF wf_example Inputs_example])

lemma link_link [simp]: "link tid h (i, link tid' h' (j, y)) = link tid h (i, y)"
  by (simp add: link_def)

lemma map_link_link:
  "map (link tid h) (enumerate 0 (map (link tid' h') (enumerate 0 ys))) = map (link tid h) (enumerate 0 ys)"
  by (rule nth_equalityI) (simp_all add: nth_enumerate_eq)

text \<open>
  Stripping the witnesses keeps a transaction's identity: the bytes the hash of a witness
  transaction covers parse to the same transaction, with the same hash, identifier, inputs and linked
  outputs, and no witness left.
\<close>

theorem ParseTransaction_strip_witnesses:
  assumes "ParseTransaction raw = Inr t" and "SegWitFlag t \<noteq> 0" and "Inputs t \<noteq> []"
  shows "ParseTransaction (RawSansSegWit t) =
    Inr (t\<lparr>Raw := RawSansSegWit t, SegWitFlag := 0, Witnesses := [], Trailing := []\<rparr>)"
proof -
  from assms(1) obtain t0 where t: "t = finish_transaction t0" and t0: "wf_transaction t0"
    and h: "TxHeight t0 = - 2" "TxPosition t0 = - 1"
    by (rule ParseTransaction_Inr)
  from assms(2) have flag: "SegWitFlag t0 \<noteq> 0" by (simp add: t)
  then have raw: "RawSansSegWit t = serializeSansSegWit t0" by (simp add: t finish_transaction_def Let_def)
  from assms(3) have ne: "Inputs t0 \<noteq> []" by (simp add: t)
  show ?thesis
    unfolding raw ParseTransaction_serialize [OF t0 ne]
    using flag h by (simp add: t finish_transaction_def Let_def link_def [symmetric] map_link_unlinked)
qed
text \<open>A serialization with a witness: one input, one output, one witness of two bytes.\<close>

definition example_segwit :: bytes where
  "example_segwit = put_uint32 2 @ [0, 1] @ writeTransactionCompactSize 1 @
     writeTransactionInput (new_input 0 (replicate 32 5) 3 [1, 9] 8) @ writeTransactionCompactSize 1 @
     put_uint64 300 @ writeTransactionVarBytes [0xa9, 1, 9, 0x87] @
     writeTransactionCompactSize 1 @ writeTransactionVarBytes [6, 7] @ put_uint32 9"

lemma compactSize_0 [simp]: "compactSize (0 # rest) = Inr (0, rest)"
  by (simp add: compactSize_def)

lemma example_segwit_parses:
  "\<exists>t. ParseTransaction example_segwit = Inr t \<and> SegWitFlag t \<noteq> 0 \<and> Inputs t \<noteq> []"
proof -
  have x: "parseTransactionInput 0 (writeTransactionInput (new_input 0 (replicate 32 5) 3 [1, 9] 8) @ rest) =
      Inr (new_input 0 (replicate 32 5) 3 [1, 9] 8, rest)" for rest
    by (rule winput.decode_encode) (simp add: wf_new_input)
  show ?thesis
    by (simp add: ParseTransaction_def example_segwit_def w32.decode_encode w32.decode_encode_end wcompact.decode_encode
        x parseTransactionOutput_def parseWitnesses_def w64.decode_encode wvar.decode_encode)
qed

theorem ParseTransaction_strip_witnesses_witness:
  defines "t \<equiv> projr (ParseTransaction example_segwit)"
  shows "ParseTransaction (RawSansSegWit t) =
    Inr (t\<lparr>Raw := RawSansSegWit t, SegWitFlag := 0, Witnesses := [], Trailing := []\<rparr>)"
  using example_segwit_parses unfolding t_def by (auto intro: ParseTransaction_strip_witnesses)

lemma unat_ucast_u16: "unat (ucast (x :: 16 word) :: u64) < 65536"
proof -
  have "unat x < 65536" using unsigned_less [of x] by simp
  then show ?thesis by (simp add: unsigned_ucast_eq take_bit_nat_eq_self)
qed

lemma unat_ucast_u32: "unat (ucast (x :: u32) :: u64) < 4294967296"
  using unat_u32_bound [of x] by (simp add: unsigned_ucast_eq take_bit_nat_eq_self)

text \<open>
  C24. \<^verbatim>\<open>compactSize\<close> reads back what \<^verbatim>\<open>writeTransactionCompactSize\<close> wrote, whatever follows, and no
  accepted encoding of a number is shorter than the written one.
\<close>

theorem writeTransactionCompactSize_minimal:
  "compactSize (writeTransactionCompactSize v @ rest) = Inr (v, rest) \<and>
   (compactSize (used @ rest) = Inr (v, rest) \<longrightarrow> length (writeTransactionCompactSize v) \<le> length used)"
proof (intro conjI impI)
  show "compactSize (writeTransactionCompactSize v @ rest) = Inr (v, rest)" by (rule compactSize_write)
  assume "compactSize (used @ rest) = Inr (v, rest)"
  then show "length (writeTransactionCompactSize v) \<le> length used"
  proof (cases rule: compactSize_cases)
    case (byte b)
    then have "v < 0xfd" by (simp add: word_less_nat_alt unsigned_ucast_eq take_bit_nat_eq_self)
    moreover have "used @ rest = [b] @ rest" using byte by simp
    then have "length used = 1" by simp
    ultimately show ?thesis by (simp add: writeTransactionCompactSize_def)
  next
    case (two p)
    have "unat v < 65536" unfolding two(3) by (rule unat_ucast_u16)
    moreover have "used @ rest = (0xfd # p) @ rest" using two by simp
    then have "length used = 3" using two(1) by simp
    ultimately show ?thesis by (simp add: writeTransactionCompactSize_def word_le_nat_alt)
  next
    case (four p)
    have "unat v < 4294967296" unfolding four(3) by (rule unat_ucast_u32)
    moreover have "used @ rest = (0xfe # p) @ rest" using four by simp
    then have "length used = 5" using four(1) by simp
    ultimately show ?thesis by (simp add: writeTransactionCompactSize_def word_le_nat_alt)
  next
    case (eight p)
    then have "used @ rest = (0xff # p) @ rest" by simp
    then have "length used = 9" using eight(1) by simp
    then show ?thesis by (simp add: writeTransactionCompactSize_def)
  qed
qed

theorem writeTransactionCompactSize_minimal_witness:
  "compactSize [0xfd, 5, 0] = Inr (5, []) \<and> length (writeTransactionCompactSize 5) \<le> length [0xfd, 5, 0 :: byte]"
proof
  show *: "compactSize [0xfd, 5, 0] = Inr (5, [])" by code_simp
  then show "length (writeTransactionCompactSize 5) \<le> length [0xfd, 5, 0 :: byte]"
    using writeTransactionCompactSize_minimal [of 5 "[]" "[0xfd, 5, 0]"] by simp
qed

end
