(* ===== verification/TransactionBuild.thy ===== *)
theory TransactionBuild
  imports Transaction
begin

text \<open>
  Building transactions, \<^verbatim>\<open>wallet/transaction_build.go\<close>: adding inputs and outputs, the derived bytes and
  hashes, sizes and sums, and the constructors of outputs and spends. An input under construction
  carries the output it spends, which is one of a finished transaction: it has the identifier and
  the hash of its transaction and does not change. A transaction under construction is the record of
  \<open>Transaction\<close> with the resolved outputs of its inputs beside it, in the same order.
\<close>

section \<open>Transactions under construction\<close>

type_synonym spend = "TransactionInput \<times> TransactionOutput option"

record Building =
  Tx :: Transaction
  Resolved :: "TransactionOutput option list"

definition spends :: "Building \<Rightarrow> spend list" where
  "spends b = zip (Inputs (Tx b)) (Resolved b)"

definition refreshInputPreviousOutput :: "TransactionOutput \<Rightarrow> TransactionInput \<Rightarrow> TransactionInput" where
  "refreshInputPreviousOutput out input =
     input\<lparr>PreviousHash := TransactionHash out, PreviousTxID := TransactionID out, PreviousIndex := OutputPosition out\<rparr>"

definition rebuild_input :: "nat \<times> spend \<Rightarrow> TransactionInput" where
  "rebuild_input = (\<lambda>(i, (input, resolved)).
     let input1 = input\<lparr>InputPosition := of_nat i\<rparr>
     in case resolved of None \<Rightarrow> input1 | Some out \<Rightarrow> refreshInputPreviousOutput out input1)"

definition ResetDerived :: "Building \<Rightarrow> Building" where
  "ResetDerived b = b\<lparr>Tx := (Tx b)\<lparr>Raw := [], RawSansSegWit := [], TxHash := replicate 32 0, ID := '''',
     Outputs := map (\<lambda>out. out\<lparr>TransactionID := '''', TransactionHash := replicate 32 0\<rparr>) (Outputs (Tx b))\<rparr>\<rparr>"

datatype build_error = TooManyBuildInputs | TooManyBuildOutputs | ErrUnattachedTransactionOutput
  | ErrUnsupportedSpendOutput | ErrInvalidTransactionClaimID | BuildScript script_error

definition RebuildDerived :: "Building \<Rightarrow> build_error + Building" where
  "RebuildDerived b =
     (if length (Inputs (Tx b)) > 0xffffffff + 1 then Inl TooManyBuildInputs
      else if length (Outputs (Tx b)) > 0xffffffff + 1 then Inl TooManyBuildOutputs
      else
        let t1 = (Tx b)\<lparr>Inputs := map rebuild_input (enumerate 0 (spends b)),
                        Outputs := map (\<lambda>(i, out). out\<lparr>OutputPosition := of_nat i\<rparr>) (enumerate 0 (Outputs (Tx b)))\<rparr>;
            raw = serializeSansSegWit t1; hash = double_sha256 raw; tid = EncodeToString (rev hash)
        in Inr (b\<lparr>Tx := t1\<lparr>Raw := raw, RawSansSegWit := raw, TxHash := hash, ID := tid,
             Outputs := map (\<lambda>out. out\<lparr>TransactionID := tid, TransactionHash := hash\<rparr>) (Outputs t1)\<rparr>\<rparr>))"

definition rebuilt :: "Building \<Rightarrow> Building" where
  "rebuilt b = (case RebuildDerived b of Inl _ \<Rightarrow> b | Inr b' \<Rightarrow> b')"

definition NewTransaction :: Building where
  "NewTransaction = rebuilt \<lparr>Tx = \<lparr>Raw = [], RawSansSegWit = [], TxHash = replicate 32 0, ID = '''', Version = 1,
     LockTime = 0, SegWitFlag = 0, Witnesses = [], Inputs = [], Outputs = [], Trailing = [], TxHeight = - 2,
     TxPosition = - 1\<rparr>, Resolved = []\<rparr>"

definition AddInputs :: "spend list \<Rightarrow> Building \<Rightarrow> Building" where
  "AddInputs inputs b =
     (let start = length (Inputs (Tx b));
          placed = map (\<lambda>(i, (input, _)). input\<lparr>InputPosition := of_nat (start + i)\<rparr>) (enumerate 0 inputs)
      in rebuilt (ResetDerived (b\<lparr>Tx := (Tx b)\<lparr>Inputs := Inputs (Tx b) @ placed\<rparr>, Resolved := Resolved b @ map snd inputs\<rparr>)))"

definition AddOutputs :: "TransactionOutput list \<Rightarrow> Building \<Rightarrow> Building" where
  "AddOutputs outputs b =
     (let start = length (Outputs (Tx b));
          placed = map (\<lambda>(i, out). out\<lparr>OutputPosition := of_nat (start + i)\<rparr>) (enumerate 0 outputs)
      in rebuilt (ResetDerived (b\<lparr>Tx := (Tx b)\<lparr>Outputs := Outputs (Tx b) @ placed\<rparr>\<rparr>)))"

section \<open>Sizes and sums\<close>

definition Transaction_Size :: "Building \<Rightarrow> nat" where
  "Transaction_Size b = (if Raw (Tx b) = [] then length (Raw (Tx (rebuilt b))) else length (Raw (Tx b)))"

definition BaseSize :: "Building \<Rightarrow> int" where
  "BaseSize b = fold (\<lambda>out size. size - int (TransactionOutput_Size out)) (Outputs (Tx b))
     (fold (\<lambda>input size. size - int (TransactionInput_Size input)) (Inputs (Tx b)) (int (Transaction_Size b)))"

definition InputSum :: "Building \<Rightarrow> u64" where
  "InputSum b = fold (\<lambda>(_, resolved) sum. case resolved of Some out \<Rightarrow> sum + Amount out | None \<Rightarrow> sum) (spends b) 0"

definition Transaction_Fee :: "Building \<Rightarrow> int" where
  "Transaction_Fee b = wrap64 (sint (InputSum b) - sint (OutputSum (Tx b)))"

section \<open>Outputs\<close>

definition new_output :: "u64 \<Rightarrow> TransactionOutputScript \<Rightarrow> TransactionOutput" where
  "new_output amount script = \<lparr>TransactionID = '''', TransactionHash = replicate 32 0, OutputPosition = 0,
     Amount = amount, OutputScript = script\<rparr>"

text \<open>A script that could not be generated is empty and carries the error.\<close>

definition script_or_error :: "script_error + TransactionOutputScript \<Rightarrow> TransactionOutputScript" where
  "script_or_error r = (case r of Inl e \<Rightarrow> empty_output_script\<lparr>Err := Some e\<rparr> | Inr script \<Rightarrow> script)"

definition NewPayPubKeyHashOutput :: "u64 \<Rightarrow> bytes \<Rightarrow> TransactionOutput" where
  "NewPayPubKeyHashOutput amount pubKeyHash = new_output amount (script_or_error (NewPayPubKeyHashOutputScript pubKeyHash))"

definition NewPayScriptHashOutput :: "u64 \<Rightarrow> bytes \<Rightarrow> TransactionOutput" where
  "NewPayScriptHashOutput amount scriptHash = new_output amount (script_or_error (NewPayScriptHashOutputScript scriptHash))"

definition NewReturnDataOutput :: "bytes \<Rightarrow> TransactionOutput" where
  "NewReturnDataOutput d = new_output 0 (script_or_error (NewReturnDataOutputScript d))"

definition NewClaimNameOutput :: "u64 \<Rightarrow> bytes \<Rightarrow> bytes \<Rightarrow> bytes \<Rightarrow> TransactionOutput" where
  "NewClaimNameOutput amount claimName claim pubKeyHash =
     new_output amount (script_or_error (NewClaimNamePubKeyHashOutputScript claimName claim pubKeyHash))"

text \<open>\<^verbatim>\<open>hex.DecodeString\<close>; a letter may have either case.\<close>

definition hex_value :: "char \<Rightarrow> nat option" where
  "hex_value c =
     (case IndexByte ''0123456789abcdef'' c of
        Some d \<Rightarrow> Some d
      | None \<Rightarrow> (case IndexByte ''0123456789ABCDEF'' c of Some d \<Rightarrow> Some d | None \<Rightarrow> None))"

fun DecodeString :: "string \<Rightarrow> bytes option" where
  "DecodeString [] = Some []"
| "DecodeString [c] = None"
| "DecodeString (c # c' # cs) =
     (case (hex_value c, hex_value c', DecodeString cs) of
        (Some h, Some l, Some bs) \<Rightarrow> Some (of_nat (16 * h + l) # bs) | _ \<Rightarrow> None)"

definition decodeTransactionClaimID :: "string \<Rightarrow> build_error + bytes" where
  "decodeTransactionClaimID claimID =
     (case DecodeString claimID of None \<Rightarrow> Inl ErrInvalidTransactionClaimID | Some decoded \<Rightarrow> Inr (rev decoded))"

definition script_output :: "u64 \<Rightarrow> script_error + TransactionOutputScript \<Rightarrow> build_error + TransactionOutput" where
  "script_output amount r = (case r of Inl e \<Rightarrow> Inl (BuildScript e) | Inr script \<Rightarrow> Inr (new_output amount script))"

definition NewUpdateClaimOutput :: "u64 \<Rightarrow> bytes \<Rightarrow> string \<Rightarrow> bytes \<Rightarrow> bytes \<Rightarrow> build_error + TransactionOutput" where
  "NewUpdateClaimOutput amount claimName claimID claim pubKeyHash =
     and_then (decodeTransactionClaimID claimID) (\<lambda>internalClaimID.
       script_output amount (NewUpdateClaimPubKeyHashOutputScript claimName internalClaimID claim pubKeyHash))"

definition NewSupportOutput :: "u64 \<Rightarrow> bytes \<Rightarrow> string \<Rightarrow> bytes \<Rightarrow> build_error + TransactionOutput" where
  "NewSupportOutput amount claimName claimID pubKeyHash =
     and_then (decodeTransactionClaimID claimID) (\<lambda>internalClaimID.
       script_output amount (NewSupportPubKeyHashOutputScript claimName internalClaimID pubKeyHash))"

definition NewSupportDataOutput :: "u64 \<Rightarrow> bytes \<Rightarrow> string \<Rightarrow> bytes \<Rightarrow> bytes \<Rightarrow> build_error + TransactionOutput" where
  "NewSupportDataOutput amount claimName claimID support pubKeyHash =
     and_then (decodeTransactionClaimID claimID) (\<lambda>internalClaimID.
       script_output amount (NewSupportDataPubKeyHashOutputScript claimName internalClaimID support pubKeyHash))"

section \<open>Spends\<close>

definition ensureSpendableOutputAttached :: "TransactionOutput option \<Rightarrow> build_error + TransactionOutput" where
  "ensureSpendableOutputAttached out =
     (case out of
        None \<Rightarrow> Inl ErrUnattachedTransactionOutput
      | Some out \<Rightarrow> if TransactionID out = '''' then Inl ErrUnattachedTransactionOutput else Inr out)"

definition spend_of :: "TransactionOutput \<Rightarrow> TransactionInputScript \<Rightarrow> spend" where
  "spend_of out script =
     (\<lparr>InputPosition = 0, PreviousHash = TransactionHash out, PreviousTxID = TransactionID out,
       PreviousIndex = OutputPosition out, Sequence = 0xffffffff, Coinbase = [], InputScript = script\<rparr>, Some out)"

definition NewSpendInput :: "TransactionOutput option \<Rightarrow> build_error + spend" where
  "NewSpendInput out =
     (case out of
        None \<Rightarrow> Inl ErrUnattachedTransactionOutput
      | Some o1 \<Rightarrow>
          if \<not> IsPayPubKeyHash (OutputScript o1) then Inl ErrUnsupportedSpendOutput
          else and_then (ensureSpendableOutputAttached out) (\<lambda>o2.
            case NewRedeemPubKeyHashInputScript (replicate 72 0) (replicate 33 0) of
              Inl e \<Rightarrow> Inl (BuildScript e) | Inr script \<Rightarrow> Inr (spend_of o2 script)))"

definition NewTimeLockSpendInput :: "TransactionOutput option \<Rightarrow> bytes \<Rightarrow> build_error + spend" where
  "NewTimeLockSpendInput out scriptSource =
     (case NewRedeemTimeLockScriptHashInputScript (replicate 72 0) (replicate 33 0) None [] scriptSource of
        Inl e \<Rightarrow> Inl (BuildScript e)
      | Inr script \<Rightarrow> and_then (ensureSpendableOutputAttached out) (\<lambda>o2. Inr (spend_of o2 script)))"

section \<open>What rebuilding keeps\<close>

lemma map_enumerate: "map (\<lambda>(i, x). f x) (enumerate n xs) = map f xs"
  by (induction xs arbitrary: n) auto

lemma writeTransactionInput_position [simp]:
  "writeTransactionInput (input\<lparr>InputPosition := p\<rparr>) = writeTransactionInput input"
  by (simp add: writeTransactionInput_def IsCoinbase_def)

lemma writeTransactionOutput_link [simp]:
  "writeTransactionOutput (out\<lparr>OutputPosition := p\<rparr>) = writeTransactionOutput out"
  "writeTransactionOutput (out\<lparr>TransactionID := i, TransactionHash := h\<rparr>) = writeTransactionOutput out"
  by (simp_all add: writeTransactionOutput_def)

definition small :: "Building \<Rightarrow> bool" where
  "small b \<longleftrightarrow> length (Inputs (Tx b)) \<le> 0xffffffff + 1 \<and> length (Outputs (Tx b)) \<le> 0xffffffff + 1"

definition paired :: "Building \<Rightarrow> bool" where
  "paired b \<longleftrightarrow> length (Resolved b) = length (Inputs (Tx b))"

text \<open>An input that already refers to the output it spends.\<close>

definition attached :: "spend \<Rightarrow> bool" where
  "attached s = (case s of (input, Some out) \<Rightarrow> refreshInputPreviousOutput out input = input | _ \<Rightarrow> True)"

text \<open>The derived bytes are those of the current fields, and every input refers to the output it spends.\<close>

definition fresh :: "Building \<Rightarrow> bool" where
  "fresh b \<longleftrightarrow> paired b \<and> Raw (Tx b) = serializeSansSegWit (Tx b) \<and> (\<forall>s\<in>set (spends b). attached s)"

definition placed :: "TransactionOutput \<Rightarrow> u64 \<times> TransactionOutputScript" where
  "placed out = (Amount out, OutputScript out)"

definition refreshed :: "spend \<Rightarrow> TransactionInput" where
  "refreshed s = (case s of (input, Some out) \<Rightarrow> refreshInputPreviousOutput out input | (input, None) \<Rightarrow> input)"

lemma refresh_position: "refreshInputPreviousOutput out (input\<lparr>InputPosition := p\<rparr>) = (refreshInputPreviousOutput out input)\<lparr>InputPosition := p\<rparr>"
  by (simp add: refreshInputPreviousOutput_def)

lemma rebuild_input_refreshed: "rebuild_input (i, s) = (refreshed s)\<lparr>InputPosition := of_nat i\<rparr>"
  by (auto simp: rebuild_input_def refreshed_def refresh_position Let_def split: option.split prod.split)

lemma attached_refreshed: "attached ((refreshed s)\<lparr>InputPosition := p\<rparr>, snd s)"
  by (auto simp: attached_def refreshed_def refreshInputPreviousOutput_def split: option.split prod.split)

lemma refreshed_attached: "attached s \<Longrightarrow> refreshed s = fst s"
  by (auto simp: attached_def refreshed_def split: option.splits prod.splits)

lemma rebuilt_small:
  assumes "small b" "paired b"
  shows "Inputs (Tx (rebuilt b)) = map (\<lambda>(i, s). (refreshed s)\<lparr>InputPosition := of_nat i\<rparr>) (enumerate 0 (spends b))"
    "Resolved (rebuilt b) = Resolved b" "map placed (Outputs (Tx (rebuilt b))) = map placed (Outputs (Tx b))" "fresh (rebuilt b)"
proof -
  have r: "rebuild_input = (\<lambda>(i, s). (refreshed s)\<lparr>InputPosition := of_nat i\<rparr>)"
    by (auto simp: fun_eq_iff rebuild_input_refreshed)
  show ins: "Inputs (Tx (rebuilt b)) = map (\<lambda>(i, s). (refreshed s)\<lparr>InputPosition := of_nat i\<rparr>) (enumerate 0 (spends b))"
    using assms by (simp add: rebuilt_def RebuildDerived_def small_def Let_def r)
  show res: "Resolved (rebuilt b) = Resolved b"
    using assms by (simp add: rebuilt_def RebuildDerived_def small_def Let_def)
  show "map placed (Outputs (Tx (rebuilt b))) = map placed (Outputs (Tx b))"
    using assms map_enumerate [of placed 0 "Outputs (Tx b)"]
    by (simp add: rebuilt_def RebuildDerived_def small_def Let_def placed_def comp_def split_def)
  have len: "length (spends b) = length (Resolved b)" using assms(2) by (simp add: spends_def paired_def)
  have "Raw (Tx (rebuilt b)) = serializeSansSegWit (Tx (rebuilt b))"
    using assms by (simp add: rebuilt_def RebuildDerived_def small_def Let_def serializeSansSegWit_def comp_def)
  moreover have "attached s" if s: "s \<in> set (spends (rebuilt b))" for s
  proof -
    from s obtain i where i: "i < length (Resolved b)" "s = (Inputs (Tx (rebuilt b)) ! i, Resolved b ! i)"
      by (auto simp: spends_def res set_zip)
    then have "snd (spends b ! i) = Resolved b ! i" using assms(2) by (simp add: spends_def paired_def)
    moreover have "Inputs (Tx (rebuilt b)) ! i = (refreshed (spends b ! i))\<lparr>InputPosition := of_nat i\<rparr>"
      using i len by (simp add: ins nth_enumerate_eq)
    ultimately show ?thesis using attached_refreshed [where s = "spends b ! i"] i by simp
  qed
  ultimately show "fresh (rebuilt b)" using len by (simp add: fresh_def paired_def res ins)
qed

lemma Reset_sel [simp]:
  "Inputs (Tx (ResetDerived b)) = Inputs (Tx b)" "Resolved (ResetDerived b) = Resolved b"
  "map placed (Outputs (Tx (ResetDerived b))) = map placed (Outputs (Tx b))" "length (Outputs (Tx (ResetDerived b))) = length (Outputs (Tx b))"
  "paired (ResetDerived b) = paired b" "small (ResetDerived b) = small b" "spends (ResetDerived b) = spends b"
  by (simp_all add: ResetDerived_def placed_def comp_def paired_def small_def spends_def)

lemma rebuilt_lengths:
  "paired b \<Longrightarrow> length (Inputs (Tx (rebuilt b))) = length (Inputs (Tx b))"
  "length (Outputs (Tx (rebuilt b))) = length (Outputs (Tx b))" "paired b \<Longrightarrow> paired (rebuilt b)"
  by (auto simp: rebuilt_def RebuildDerived_def Let_def spends_def paired_def)

lemma AddInputs_lengths:
  assumes "paired b"
  shows "length (Inputs (Tx (AddInputs ss b))) = length (Inputs (Tx b)) + length ss"
    "length (Outputs (Tx (AddInputs ss b))) = length (Outputs (Tx b))" "paired (AddInputs ss b)"
proof -
  let ?placed = "map (\<lambda>(i, (input, _)). input\<lparr>InputPosition := of_nat (length (Inputs (Tx b)) + i)\<rparr>) (enumerate 0 ss)"
  let ?b = "ResetDerived (b\<lparr>Tx := (Tx b)\<lparr>Inputs := Inputs (Tx b) @ ?placed\<rparr>, Resolved := Resolved b @ map snd ss\<rparr>)"
  have "paired ?b" using assms by (simp add: paired_def)
  then show "length (Inputs (Tx (AddInputs ss b))) = length (Inputs (Tx b)) + length ss"
    "length (Outputs (Tx (AddInputs ss b))) = length (Outputs (Tx b))" "paired (AddInputs ss b)"
    using rebuilt_lengths [of ?b] by (simp_all add: AddInputs_def Let_def)
qed

lemma AddOutputs_lengths:
  assumes "paired b"
  shows "length (Inputs (Tx (AddOutputs us b))) = length (Inputs (Tx b))"
    "length (Outputs (Tx (AddOutputs us b))) = length (Outputs (Tx b)) + length us" "paired (AddOutputs us b)"
proof -
  let ?placed = "map (\<lambda>(i, out). out\<lparr>OutputPosition := of_nat (length (Outputs (Tx b)) + i)\<rparr>) (enumerate 0 us)"
  let ?b = "ResetDerived (b\<lparr>Tx := (Tx b)\<lparr>Outputs := Outputs (Tx b) @ ?placed\<rparr>\<rparr>)"
  have "paired ?b" using assms by (simp add: paired_def)
  then show "length (Inputs (Tx (AddOutputs us b))) = length (Inputs (Tx b))"
    "length (Outputs (Tx (AddOutputs us b))) = length (Outputs (Tx b)) + length us" "paired (AddOutputs us b)"
    using rebuilt_lengths [of ?b] by (simp_all add: AddOutputs_def Let_def)
qed

section \<open>Totals and sizes\<close>

definition in_total :: "Building \<Rightarrow> int" where
  "in_total b = (\<Sum>r\<leftarrow>Resolved b. case r of Some out \<Rightarrow> uint (Amount out) | None \<Rightarrow> 0)"

definition out_total :: "Building \<Rightarrow> int" where
  "out_total b = (\<Sum>u\<leftarrow>Outputs (Tx b). uint (Amount u))"

definition in_size :: "Building \<Rightarrow> int" where
  "in_size b = (\<Sum>i\<leftarrow>Inputs (Tx b). int (TransactionInput_Size i))"

definition out_size :: "Building \<Rightarrow> int" where
  "out_size b = (\<Sum>u\<leftarrow>Outputs (Tx b). int (TransactionOutput_Size u))"

lemma placed_total: "map placed us = map placed vs \<Longrightarrow> (\<Sum>u\<leftarrow>us. h (placed u)) = (\<Sum>u\<leftarrow>vs. h (placed u))"
proof -
  assume "map placed us = map placed vs"
  then have "sum_list (map h (map placed us)) = sum_list (map h (map placed vs))" by (simp only:)
  then show ?thesis by (simp only: list.map_comp comp_def)
qed

lemma TransactionOutput_Size_placed: "TransactionOutput_Size u = length (put_uint64 (fst (placed u)) @ writeTransactionVarBytes (Source (snd (placed u))))"
  by (simp add: TransactionOutput_Size_def writeTransactionOutput_def placed_def)

lemma placed_outputs:
  assumes "map placed (Outputs (Tx b)) = map placed (Outputs (Tx c))"
  shows "out_total b = out_total c" "out_size b = out_size c"
  using placed_total [OF assms, of "\<lambda>p. uint (fst p)"]
    placed_total [OF assms, of "\<lambda>p. int (length (put_uint64 (fst p) @ writeTransactionVarBytes (Source (snd p))))"]
  by (simp_all only: out_total_def out_size_def TransactionOutput_Size_placed) (simp add: placed_def)

lemma TransactionInput_Size_position [simp]: "TransactionInput_Size (input\<lparr>InputPosition := p\<rparr>) = TransactionInput_Size input"
  by (simp add: TransactionInput_Size_def)

lemma in_size_rebuilt:
  assumes "small b" "paired b"
  shows "in_size (rebuilt b) = (\<Sum>s\<leftarrow>spends b. int (TransactionInput_Size (refreshed s)))"
  using map_enumerate [of "\<lambda>s. int (TransactionInput_Size (refreshed s))" 0 "spends b"]
  by (simp add: in_size_def rebuilt_small(1) [OF assms] comp_def split_def)

lemma in_size_fresh: "fresh b \<Longrightarrow> (\<Sum>s\<leftarrow>spends b. int (TransactionInput_Size (refreshed s))) = in_size b"
proof -
  assume f: "fresh b"
  then have "map (\<lambda>s. int (TransactionInput_Size (refreshed s))) (spends b) = map (\<lambda>s. int (TransactionInput_Size (fst s))) (spends b)"
    by (simp add: fresh_def refreshed_attached)
  also have "\<dots> = map (\<lambda>i. int (TransactionInput_Size i)) (map fst (spends b))" by simp
  also have "map fst (spends b) = Inputs (Tx b)" using f by (simp add: spends_def fresh_def paired_def)
  finally show ?thesis by (simp only: in_size_def)
qed

lemma refreshed_position: "TransactionInput_Size (refreshed (input\<lparr>InputPosition := p\<rparr>, r)) = TransactionInput_Size (refreshed (input, r))"
  by (auto simp: refreshed_def refresh_position split: option.split)

lemma AddInputs_effect:
  assumes f: "fresh b" and small: "small (AddInputs ss b)"
  shows "fresh (AddInputs ss b)" "Resolved (AddInputs ss b) = Resolved b @ map snd ss"
    "map placed (Outputs (Tx (AddInputs ss b))) = map placed (Outputs (Tx b))"
    "in_size (AddInputs ss b) = in_size b + (\<Sum>s\<leftarrow>ss. int (TransactionInput_Size (refreshed s)))"
proof -
  let ?placed = "map (\<lambda>(i, (input, _)). input\<lparr>InputPosition := of_nat (length (Inputs (Tx b)) + i)\<rparr>) (enumerate 0 ss)"
  let ?c = "b\<lparr>Tx := (Tx b)\<lparr>Inputs := Inputs (Tx b) @ ?placed\<rparr>, Resolved := Resolved b @ map snd ss\<rparr>"
  have paired: "paired b" using f by (simp add: fresh_def)
  then have p: "paired ?c" by (simp add: paired_def)
  have eq: "AddInputs ss b = rebuilt (ResetDerived ?c)" by (simp add: AddInputs_def Let_def)
  have s: "small ?c" using small AddInputs_lengths [OF paired, of ss] by (simp add: small_def)
  note r = rebuilt_small [of "ResetDerived ?c"]
  show "fresh (AddInputs ss b)" "Resolved (AddInputs ss b) = Resolved b @ map snd ss"
    "map placed (Outputs (Tx (AddInputs ss b))) = map placed (Outputs (Tx b))"
    unfolding eq using p s r by simp_all
  have sp: "spends ?c = spends b @ zip ?placed (map snd ss)" using paired by (simp add: spends_def paired_def)
  have "map (\<lambda>s. int (TransactionInput_Size (refreshed s))) (zip ?placed (map snd ss)) = map (\<lambda>s. int (TransactionInput_Size (refreshed s))) ss"
    by (rule nth_equalityI) (auto simp: nth_enumerate_eq refreshed_position split: prod.split)
  then have "(\<Sum>s\<leftarrow>spends ?c. int (TransactionInput_Size (refreshed s))) = in_size b + (\<Sum>s\<leftarrow>ss. int (TransactionInput_Size (refreshed s)))"
    unfolding sp using in_size_fresh [OF f] by simp
  then show "in_size (AddInputs ss b) = in_size b + (\<Sum>s\<leftarrow>ss. int (TransactionInput_Size (refreshed s)))"
    unfolding eq using in_size_rebuilt [of "ResetDerived ?c"] p s by simp
qed

lemma AddOutputs_effect:
  assumes f: "fresh b" and small: "small (AddOutputs us b)"
  shows "fresh (AddOutputs us b)" "Resolved (AddOutputs us b) = Resolved b"
    "map placed (Outputs (Tx (AddOutputs us b))) = map placed (Outputs (Tx b)) @ map placed us" "in_size (AddOutputs us b) = in_size b"
proof -
  let ?placed = "map (\<lambda>(i, out). out\<lparr>OutputPosition := of_nat (length (Outputs (Tx b)) + i)\<rparr>) (enumerate 0 us)"
  let ?c = "b\<lparr>Tx := (Tx b)\<lparr>Outputs := Outputs (Tx b) @ ?placed\<rparr>\<rparr>"
  have paired: "paired b" using f by (simp add: fresh_def)
  then have p: "paired ?c" by (simp add: paired_def)
  have eq: "AddOutputs us b = rebuilt (ResetDerived ?c)" by (simp add: AddOutputs_def Let_def)
  have s: "small ?c" using small AddOutputs_lengths [OF paired, of us] by (simp add: small_def)
  note r = rebuilt_small [of "ResetDerived ?c"]
  have "map placed ?placed = map placed us"
    using map_enumerate [of placed 0 us] by (simp add: placed_def comp_def split_def)
  then show "fresh (AddOutputs us b)" "Resolved (AddOutputs us b) = Resolved b"
    "map placed (Outputs (Tx (AddOutputs us b))) = map placed (Outputs (Tx b)) @ map placed us"
    unfolding eq using p s r by simp_all
  have "spends ?c = spends b" by (simp add: spends_def)
  then show "in_size (AddOutputs us b) = in_size b"
    unfolding eq using in_size_rebuilt [of "ResetDerived ?c"] p s in_size_fresh [OF f] by simp
qed

lemma length_put [simp]: "length (put_uint32 v) = 4" "length (put_uint64 w) = 8"
  by (simp_all add: put_uint32_def put_uint64_def)

text \<open>Below 253 inputs and outputs, everything but the inputs and the outputs takes ten bytes.\<close>

lemma Transaction_Size_fresh:
  assumes "fresh b" "length (Inputs (Tx b)) < 253" "length (Outputs (Tx b)) < 253"
  shows "int (Transaction_Size b) = 10 + in_size b + out_size b" "BaseSize b = 10"
proof -
  have compact: "length (writeTransactionCompactSize (of_nat n)) = 1" if "n < 253" for n
    using that by (simp add: writeTransactionCompactSize_def word_less_nat_alt unsigned_of_nat take_bit_nat_eq_self)
  have raw: "Raw (Tx b) = serializeSansSegWit (Tx b)" using assms by (simp add: fresh_def)
  have ints: "int (sum_list xs) = sum_list (map int xs)" for xs by (induction xs) auto
  have "int (length (serializeSansSegWit (Tx b))) = 10 + in_size b + out_size b"
    using compact [OF assms(2)] compact [OF assms(3)]
    by (simp add: serializeSansSegWit_def in_size_def out_size_def TransactionInput_Size_def TransactionOutput_Size_def
        length_concat comp_def ints)
  moreover have "put_uint32 v \<noteq> []" for v by (metis length_put(1) list.size(3) zero_neq_numeral)
  then have "serializeSansSegWit (Tx b) \<noteq> []" by (simp add: serializeSansSegWit_def)
  ultimately show size: "int (Transaction_Size b) = 10 + in_size b + out_size b" by (simp add: Transaction_Size_def raw)
  have sub: "fold (\<lambda>x size. size - f x) xs k = k - (\<Sum>x\<leftarrow>xs. f x)" for f :: "'x \<Rightarrow> int" and xs k
    by (induction xs arbitrary: k) (simp_all add: algebra_simps)
  show "BaseSize b = 10" by (simp add: BaseSize_def sub size in_size_def out_size_def)
qed

section \<open>What adding keeps\<close>

lemma Resolved_rebuilt [simp]: "Resolved (rebuilt b) = Resolved b"
  by (simp add: rebuilt_def RebuildDerived_def Let_def split: sum.splits)

lemma Resolved_Add [simp]: "Resolved (AddInputs inputs b) = Resolved b @ map snd inputs" "Resolved (AddOutputs outputs b) = Resolved b"
  "Resolved NewTransaction = []"
  by (simp_all add: AddInputs_def AddOutputs_def ResetDerived_def NewTransaction_def Let_def)

text \<open>The scripts of the inputs are those the inputs were added with.\<close>

definition input_scripts :: "Building \<Rightarrow> TransactionInputScript list" where
  "input_scripts b = map InputScript (Inputs (Tx b))"

lemma input_scripts_rebuilt: "paired b \<Longrightarrow> input_scripts (rebuilt b) = input_scripts b"
proof -
  assume p: "paired b"
  have i: "InputScript (rebuild_input (i, s)) = InputScript (fst s)" for i s
    by (auto simp: rebuild_input_def refreshInputPreviousOutput_def Let_def split: option.split prod.split)
  have "map (\<lambda>x. InputScript (rebuild_input x)) (enumerate n ss) = map (InputScript \<circ> fst) ss" for n ss
    by (induction ss arbitrary: n) (simp_all add: i)
  then have "map InputScript (map rebuild_input (enumerate 0 (spends b))) = map InputScript (map fst (spends b))" by (simp add: comp_def)
  also have "map fst (spends b) = Inputs (Tx b)" using p by (simp add: spends_def paired_def)
  finally have "map InputScript (map rebuild_input (enumerate 0 (spends b))) = map InputScript (Inputs (Tx b))" .
  then show ?thesis by (auto simp: input_scripts_def rebuilt_def RebuildDerived_def Let_def split: sum.splits)
qed

lemma input_scripts_Add:
  assumes "paired b"
  shows "input_scripts (AddInputs ss b) = input_scripts b @ map (InputScript \<circ> fst) ss" "input_scripts (AddOutputs us b) = input_scripts b"
proof -
  have p: "paired (ResetDerived (b\<lparr>Tx := (Tx b)\<lparr>Inputs := Inputs (Tx b) @ is\<rparr>, Resolved := Resolved b @ map snd ss\<rparr>))" if "length is = length ss" for "is"
    using assms that by (simp add: paired_def)
  have e: "map (\<lambda>x. InputScript (case x of (i, input, _) \<Rightarrow> input\<lparr>InputPosition := h i\<rparr>)) (enumerate n ss) = map (\<lambda>x. InputScript (fst x)) ss"
    for h n and ss :: "spend list" by (induction ss arbitrary: n) (simp_all add: split_def)
  show "input_scripts (AddInputs ss b) = input_scripts b @ map (InputScript \<circ> fst) ss"
    unfolding AddInputs_def Let_def by (subst input_scripts_rebuilt [OF p]) (simp_all add: input_scripts_def comp_def e)
  have "paired (ResetDerived (b\<lparr>Tx := (Tx b)\<lparr>Outputs := us\<rparr>\<rparr>))" for us using assms by (simp add: paired_def)
  then show "input_scripts (AddOutputs us b) = input_scripts b"
    unfolding AddOutputs_def Let_def by (subst input_scripts_rebuilt) (simp_all add: input_scripts_def)
qed

section \<open>Unsigned inputs\<close>

text \<open>A script that waits for its signature: it has been generated with room for the longest signature.\<close>

definition unsigned_script :: "TransactionInputScript \<Rightarrow> bool" where
  "unsigned_script script \<longleftrightarrow> InTemplate script \<in> {TransactionInputPubKeyHash, TransactionInputScriptHashTime} \<and>
     length (Signature script) = 72 \<and> length (InPublicKey script) = 33 \<and> GenerateInputScript script = Inr script"

lemma GenerateInputScript_idem: "GenerateInputScript script = Inr s \<Longrightarrow> GenerateInputScript s = Inr s"
  by (auto simp: GenerateInputScript_def Let_def and_then_Inr split: if_splits option.splits)

lemma GenerateInputScript_keeps:
  "GenerateInputScript script = Inr s \<Longrightarrow> InTemplate s = InTemplate script \<and> Signature s = Signature script \<and> InPublicKey s = InPublicKey script"
  by (auto simp: GenerateInputScript_def Let_def and_then_Inr split: if_splits option.splits)

lemma NewSpendInput_unsigned:
  assumes "NewSpendInput (Some out) = Inr s"
  shows "unsigned_script (InputScript (fst s))" "snd s = Some out" "attached s" "length (TransactionHash out) = 32 \<longrightarrow> TransactionInput_Size (fst s) \<le> 148"
proof -
  from assms obtain script where script: "NewRedeemPubKeyHashInputScript (replicate 72 0) (replicate 33 0) = Inr script" and s: "s = spend_of out script"
    by (auto simp: NewSpendInput_def and_then_Inr ensureSpendableOutputAttached_def split: if_splits sum.splits)
  show "unsigned_script (InputScript (fst s))"
    using GenerateInputScript_idem [OF script [unfolded NewRedeemPubKeyHashInputScript_def]] GenerateInputScript_keeps [OF script [unfolded NewRedeemPubKeyHashInputScript_def]]
    by (simp add: s spend_of_def unsigned_script_def)
  show "snd s = Some out" "attached s" by (simp_all add: s spend_of_def attached_def refreshInputPreviousOutput_def)
  have "length (InSource script) = 107"
    using script by (auto simp: NewRedeemPubKeyHashInputScript_def GenerateInputScript_def and_then_Inr builder_push_def encodeTransactionPushData_def
        empty_input_script_def)
  then show "length (TransactionHash out) = 32 \<longrightarrow> TransactionInput_Size (fst s) \<le> 148"
    by (auto simp: s spend_of_def TransactionInput_Size_def writeTransactionInput_def writeTransactionVarBytes_def writeTransactionCompactSize_def)
qed

lemma NewTimeLockSpendInput_unsigned:
  assumes "NewTimeLockSpendInput out source = Inr s"
  shows "unsigned_script (InputScript (fst s))"
proof -
  from assms obtain script o2 where script: "NewRedeemTimeLockScriptHashInputScript (replicate 72 0) (replicate 33 0) None [] source = Inr script"
    and s: "s = spend_of o2 script" by (auto simp: NewTimeLockSpendInput_def and_then_Inr split: sum.splits)
  from script obtain sub where "GenerateInputScript (empty_input_script\<lparr>InTemplate := TransactionInputScriptHashTime,
      Signature := replicate 72 0, InPublicKey := replicate 33 0, Script := Some sub\<rparr>) = Inr script"
    unfolding NewRedeemTimeLockScriptHashInputScript_def and_then_Inr by blast
  from GenerateInputScript_idem [OF this] GenerateInputScript_keeps [OF this] show ?thesis
    by (simp add: s spend_of_def unsigned_script_def)
qed

end
