(* ===== verification/CoinSelection.thy ===== *)
theory CoinSelection
  imports TransactionBuild "HOL-Library.Multiset"
begin

text \<open>
  Coin selection, \<^verbatim>\<open>wallet/coin_selection.go\<close> and \<^verbatim>\<open>wallet/coin_selection_python_random.go\<close>. Amounts are
  \<^verbatim>\<open>int64\<close> and every sum the code does not check wraps around. The caller's slice is sorted and shuffled
  in place, so the operations return it. \<open>None\<close> is a panic.
\<close>

section \<open>Random numbers\<close>

text \<open>
  A \<^verbatim>\<open>float64\<close> in the half-open unit interval is \<open>m / 2 ^ e\<close> with \<open>m < 2 ^ 53\<close> and \<open>53 \<le> e\<close>. A source of random
  numbers is a function of its state to such a pair and the next state. \<^verbatim>\<open>int(f * float64(n))\<close> rounds
  the product to 53 significant bits, to even on a tie, before it is truncated.
\<close>

type_synonym draw = "nat \<times> nat"

fun bit_length :: "nat \<Rightarrow> nat" where
  "bit_length n = (if n = 0 then 0 else Suc (bit_length (n div 2)))"

declare bit_length.simps [simp del]

definition round53 :: "nat \<Rightarrow> nat" where
  "round53 x =
     (let e = bit_length x - 53; q = x div 2 ^ e; r = x mod 2 ^ e
      in if 2 * r > 2 ^ e \<or> (2 * r = 2 ^ e \<and> odd q) then (q + 1) * 2 ^ e else q * 2 ^ e)"

definition scaled :: "draw \<Rightarrow> nat \<Rightarrow> nat" where
  "scaled d n = (case d of (m, e) \<Rightarrow> round53 (m * n) div 2 ^ e)"

section \<open>MT19937\<close>

abbreviation (input) coinSelectionMTSize :: nat where "coinSelectionMTSize \<equiv> 624"
abbreviation (input) coinSelectionMTPeriod :: nat where "coinSelectionMTPeriod \<equiv> 397"

record coinSelectionPythonRandom =
  state :: "u32 list"
  index :: nat

definition mix :: "u32 \<Rightarrow> u32" where
  "mix previous = previous XOR drop_bit 30 previous"

definition mt_initial :: "u32 list" where
  "mt_initial = fold (\<lambda>i st. st[i := 1812433253 * mix (st ! (i - 1)) + of_nat i])
     [1..<coinSelectionMTSize] ((replicate coinSelectionMTSize 0)[0 := 19650218])"

text \<open>The wrap-around of \<^verbatim>\<open>stateIndex\<close>: the last word is copied to the front.\<close>

definition mt_advance :: "u32 list \<Rightarrow> nat \<Rightarrow> u32 list \<times> nat" where
  "mt_advance st i = (if i + 1 \<ge> coinSelectionMTSize then (st[0 := st ! (coinSelectionMTSize - 1)], 1) else (st, i + 1))"

fun mt_absorb :: "u32 list \<Rightarrow> nat \<Rightarrow> u32 list \<Rightarrow> nat \<Rightarrow> nat \<Rightarrow> u32 list \<times> nat" where
  "mt_absorb key 0 st i k = (st, i)"
| "mt_absorb key (Suc iterations) st i k =
     (let st1 = st[i := (st ! i XOR (mix (st ! (i - 1)) * 1664525)) + key ! k + of_nat k];
          (st2, i2) = mt_advance st1 i
      in mt_absorb key iterations st2 i2 (if k + 1 \<ge> length key then 0 else k + 1))"

fun mt_stir :: "nat \<Rightarrow> u32 list \<Rightarrow> nat \<Rightarrow> u32 list" where
  "mt_stir 0 st i = st"
| "mt_stir (Suc iterations) st i =
     (let st1 = st[i := (st ! i XOR (mix (st ! (i - 1)) * 1566083941)) - of_nat i];
          (st2, i2) = mt_advance st1 i
      in mt_stir iterations st2 i2)"

definition newCoinSelectionPythonRandom :: "u32 list \<Rightarrow> coinSelectionPythonRandom" where
  "newCoinSelectionPythonRandom key =
     (let (st, i) = mt_absorb key (max coinSelectionMTSize (length key)) mt_initial 1 0;
          st' = mt_stir (coinSelectionMTSize - 1) st i
      in \<lparr>state = st'[0 := 0x80000000], index = coinSelectionMTSize\<rparr>)"

definition seed_key :: "u64 \<Rightarrow> u32 list" where
  "seed_key x = (let high = ucast (drop_bit 32 x) in ucast x # (if high \<noteq> 0 then [high] else []))"

definition newCoinSelectionPythonRandomFromInt :: "int \<Rightarrow> coinSelectionPythonRandom" where
  "newCoinSelectionPythonRandomFromInt seed =
     (let magnitude = (if seed < 0 then word_of_int (- (seed + 1)) + 1 else word_of_int seed)
      in newCoinSelectionPythonRandom (seed_key magnitude))"

text \<open>The characters of the seed, as \<^verbatim>\<open>range\<close> over the string yields them.\<close>

definition newCoinSelectionPythonRandomFromString :: "u32 list \<Rightarrow> coinSelectionPythonRandom" where
  "newCoinSelectionPythonRandomFromString seed =
     (let hash0 = (if seed \<noteq> [] then push_bit 7 (ucast (hd seed)) else 0 :: u64);
          hash = fold (\<lambda>character hash. (1000003 * hash) XOR ucast character) seed hash0
      in newCoinSelectionPythonRandom (seed_key (hash XOR of_nat (length seed))))"

definition mt_twist :: "u32 list \<Rightarrow> nat \<Rightarrow> u32 list" where
  "mt_twist st i =
     (let next = (if i + 1 = coinSelectionMTSize then 0 else i + 1);
          period = (if i + coinSelectionMTPeriod \<ge> coinSelectionMTSize
                    then i + coinSelectionMTPeriod - coinSelectionMTSize else i + coinSelectionMTPeriod);
          v = (st ! i AND 0x80000000) OR (st ! next AND 0x7fffffff);
          s = st ! period XOR drop_bit 1 v
      in st[i := (if v AND 1 \<noteq> 0 then s XOR 0x9908b0df else s)])"

definition temper :: "u32 \<Rightarrow> u32" where
  "temper v =
     (let v1 = v XOR drop_bit 11 v;
          v2 = v1 XOR (push_bit 7 v1 AND 0x9d2c5680);
          v3 = v2 XOR (push_bit 15 v2 AND 0xefc60000)
      in v3 XOR drop_bit 18 v3)"

definition Uint32 :: "coinSelectionPythonRandom \<Rightarrow> u32 \<times> coinSelectionPythonRandom" where
  "Uint32 random =
     (let (st, i) = (if index random \<ge> coinSelectionMTSize
                     then (fold (\<lambda>i st. mt_twist st i) [0..<coinSelectionMTSize] (state random), 0)
                     else (state random, index random))
      in (temper (st ! i), \<lparr>state = st, index = i + 1\<rparr>))"

definition Float64 :: "coinSelectionPythonRandom \<Rightarrow> draw \<times> coinSelectionPythonRandom" where
  "Float64 random =
     (let (a, r1) = Uint32 random; (b, r2) = Uint32 r1;
          high = ucast (drop_bit 5 a) :: u64; low = ucast (drop_bit 6 b) :: u64
      in ((unat (high * 67108864 + low), 53), r2))"

section \<open>Selectors\<close>

abbreviation (input) CoinSelectionMaximumTries :: int where "CoinSelectionMaximumTries \<equiv> 100000"

record TransactionSpendable =
  SpendInput :: spend
  EffectiveAmount :: int

record CoinSelectionEstimator = TransactionSpendable +
  Fee :: int
  Height :: int

record 'r CoinSelector =
  Target :: int
  CostOfChange :: int
  ExactMatch :: bool
  Tries :: int
  random :: 'r

definition NewCoinSelector :: "int \<Rightarrow> int \<Rightarrow> 'r \<Rightarrow> 'r CoinSelector" where
  "NewCoinSelector target costOfChange r =
     \<lparr>Target = target, CostOfChange = costOfChange, ExactMatch = False, Tries = 0, random = r\<rparr>"

definition NewCoinSelectorWithSeed :: "int \<Rightarrow> int \<Rightarrow> int \<Rightarrow> coinSelectionPythonRandom CoinSelector" where
  "NewCoinSelectorWithSeed target costOfChange seed =
     NewCoinSelector target costOfChange (newCoinSelectionPythonRandomFromInt seed)"

definition NewCoinSelectorWithStringSeed :: "int \<Rightarrow> int \<Rightarrow> u32 list \<Rightarrow> coinSelectionPythonRandom CoinSelector" where
  "NewCoinSelectorWithStringSeed target costOfChange seed =
     NewCoinSelector target costOfChange (newCoinSelectionPythonRandomFromString seed)"

definition coinSelectionAvailable :: "CoinSelectionEstimator list \<Rightarrow> int" where
  "coinSelectionAvailable estimators = fold (\<lambda>e available. wrap64 (available + EffectiveAmount e)) estimators 0"

section \<open>Branch and bound\<close>

text \<open>
  The variables of the loop. \<^verbatim>\<open>currentSelection\<close> is a stack, its last element first; the same holds for
  \<^verbatim>\<open>bestSelection\<close>.
\<close>

record search =
  currentValue :: int
  currentAvailableValue :: int
  currentSelection :: "bool list"
  bestWaste :: int
  bestSelection :: "bool list"

fun pop_excluded :: "CoinSelectionEstimator list \<Rightarrow> bool list \<Rightarrow> int \<Rightarrow> bool list \<times> int" where
  "pop_excluded es (False # s) available = pop_excluded es s (wrap64 (available + EffectiveAmount (es ! length s)))"
| "pop_excluded es s available = (s, available)"

definition backtrack :: "CoinSelectionEstimator list \<Rightarrow> search \<Rightarrow> search option" where
  "backtrack es s =
     (case pop_excluded es (currentSelection s) (currentAvailableValue s) of
        ([], available) \<Rightarrow> None
      | (_ # sel, available) \<Rightarrow>
          Some (s\<lparr>currentSelection := False # sel, currentAvailableValue := available,
                  currentValue := wrap64 (currentValue s - EffectiveAmount (es ! length sel))\<rparr>))"

definition branch :: "CoinSelectionEstimator list \<Rightarrow> search \<Rightarrow> search" where
  "branch es s =
     (let i = length (currentSelection s); e = es ! i;
          s1 = s\<lparr>currentAvailableValue := wrap64 (currentAvailableValue s - EffectiveAmount e)\<rparr>
      in if i > 0 \<and> \<not> hd (currentSelection s) \<and> EffectiveAmount e = EffectiveAmount (es ! (i - 1)) \<and> Fee e = Fee (es ! (i - 1))
         then s1\<lparr>currentSelection := False # currentSelection s\<rparr>
         else s1\<lparr>currentSelection := True # currentSelection s, currentValue := wrap64 (currentValue s + EffectiveAmount e)\<rparr>)"

definition out_of_bounds :: "int \<Rightarrow> int \<Rightarrow> search \<Rightarrow> bool" where
  "out_of_bounds target cost s \<longleftrightarrow>
     wrap64 (currentValue s + currentAvailableValue s) < target \<or> currentValue s > wrap64 (target + cost)"

definition record_best :: "int \<Rightarrow> search \<Rightarrow> search" where
  "record_best target s =
     (let newWaste = wrap64 (currentValue s - target)
      in if newWaste \<le> bestWaste s then s\<lparr>bestWaste := newWaste, bestSelection := currentSelection s\<rparr> else s)"

text \<open>One iteration: it leaves the loop, goes on, or indexes past the end of the slice.\<close>

datatype step = Stop search | Continue search | IndexOutOfRange

definition search_step :: "int \<Rightarrow> int \<Rightarrow> CoinSelectionEstimator list \<Rightarrow> search \<Rightarrow> step" where
  "search_step target cost es s =
     (let hit = (\<not> out_of_bounds target cost s \<and> currentValue s \<ge> target);
          s1 = (if hit then record_best target s else s)
      in if out_of_bounds target cost s \<or> hit then
           (case backtrack es s1 of None \<Rightarrow> Stop s1 | Some s2 \<Rightarrow> Continue s2)
         else if length (currentSelection s) < length es then Continue (branch es s)
         else IndexOutOfRange)"

text \<open>What the loop holds at the end, the iterations used, and whether it was left by \<^verbatim>\<open>break\<close>.\<close>

fun search_loop :: "int \<Rightarrow> int \<Rightarrow> CoinSelectionEstimator list \<Rightarrow> nat \<Rightarrow> search \<Rightarrow> (search \<times> nat \<times> bool) option" where
  "search_loop target cost es 0 s = Some (s, 0, False)"
| "search_loop target cost es (Suc left) s =
     (case search_step target cost es s of
        Stop s1 \<Rightarrow> Some (s1, 1, True)
      | Continue s1 \<Rightarrow> map_option (\<lambda>(r, n, b). (r, Suc n, b)) (search_loop target cost es left s1)
      | IndexOutOfRange \<Rightarrow> None)"

definition search_start :: "int \<Rightarrow> int \<Rightarrow> search" where
  "search_start cost available = \<lparr>currentValue = 0, currentAvailableValue = available, currentSelection = [],
     bestWaste = cost, bestSelection = []\<rparr>"

text \<open>An operation returns the selector, the caller's slice and the selection.\<close>

type_synonym 'r selection = "'r CoinSelector \<times> CoinSelectionEstimator list \<times> CoinSelectionEstimator list"

definition chosen :: "CoinSelectionEstimator list \<Rightarrow> bool list \<Rightarrow> CoinSelectionEstimator list" where
  "chosen es flags = map fst (filter snd (zip es flags))"

definition BranchAndBound :: "'r CoinSelector \<Rightarrow> CoinSelectionEstimator list \<Rightarrow> int \<Rightarrow> 'r selection option" where
  "BranchAndBound selector estimators available =
     (let es = sort_key (\<lambda>e. - EffectiveAmount e) estimators
      in case search_loop (Target selector) (CostOfChange selector) es (nat (CoinSelectionMaximumTries - Tries selector))
                (search_start (CostOfChange selector) available) of
           None \<Rightarrow> None
         | Some (s, n, _) \<Rightarrow>
             let selector' = selector\<lparr>Tries := Tries selector + int n\<rparr>
             in if bestSelection s = [] then Some (selector', es, [])
                else Some (selector'\<lparr>ExactMatch := True\<rparr>, es, chosen es (rev (bestSelection s))))"

section \<open>The other strategies\<close>

fun closest :: "int \<Rightarrow> CoinSelectionEstimator list \<Rightarrow> (int \<times> CoinSelectionEstimator) option \<Rightarrow> (int \<times> CoinSelectionEstimator) option" where
  "closest target [] best = best"
| "closest target (e # es) best =
     (if EffectiveAmount e < target then closest target es best
      else
        let change = wrap64 (EffectiveAmount e - target)
        in closest target es
             (case best of
                None \<Rightarrow> Some (change, e)
              | Some (smallestChange, _) \<Rightarrow> if change < smallestChange then Some (change, e) else best))"

definition ClosestMatch :: "'r CoinSelector \<Rightarrow> CoinSelectionEstimator list \<Rightarrow> 'r selection" where
  "ClosestMatch selector estimators =
     (let target = wrap64 (Target selector + CostOfChange selector)
      in (selector, estimators, case closest target estimators None of None \<Rightarrow> [] | Some (_, e) \<Rightarrow> [e]))"

fun shuffle :: "('r \<Rightarrow> draw \<times> 'r) \<Rightarrow> nat \<Rightarrow> 'r \<Rightarrow> 'a list \<Rightarrow> ('r \<times> 'a list) option" where
  "shuffle next 0 r es = Some (r, es)"
| "shuffle next (Suc i) r es =
     (let (d, r') = next r; swap = scaled d (i + 2)
      in if swap < length es then shuffle next i r' (es[Suc i := es ! swap, swap := es ! Suc i]) else None)"

text \<open>The shortest prefix whose amounts reach the target.\<close>

fun draw_until :: "int \<Rightarrow> int \<Rightarrow> CoinSelectionEstimator list \<Rightarrow> CoinSelectionEstimator list option" where
  "draw_until target amount [] = None"
| "draw_until target amount (e # es) =
     (let amount' = wrap64 (amount + EffectiveAmount e)
      in if amount' \<ge> target then Some [e] else map_option (Cons e) (draw_until target amount' es))"

definition RandomDraw :: "('r \<Rightarrow> draw \<times> 'r) \<Rightarrow> 'r CoinSelector \<Rightarrow> CoinSelectionEstimator list \<Rightarrow> 'r selection option" where
  "RandomDraw next selector estimators =
     (case shuffle next (length estimators - 1) (random selector) estimators of
        None \<Rightarrow> None
      | Some (r, es) \<Rightarrow>
          let target = wrap64 (Target selector + CostOfChange selector)
          in Some (selector\<lparr>random := r\<rparr>, es, case draw_until target 0 es of None \<Rightarrow> [] | Some selection \<Rightarrow> selection))"

definition Standard :: "('r \<Rightarrow> draw \<times> 'r) \<Rightarrow> 'r CoinSelector \<Rightarrow> CoinSelectionEstimator list \<Rightarrow> int \<Rightarrow> 'r selection option" where
  "Standard next selector estimators available =
     (case BranchAndBound selector estimators available of
        None \<Rightarrow> None
      | Some (selector1, es, selection) \<Rightarrow>
          if length selection > 0 then Some (selector1, es, selection)
          else
            (case ClosestMatch selector1 es of
               (selector2, es2, selection2) \<Rightarrow>
                 if length selection2 > 0 then Some (selector2, es2, selection2) else RandomDraw next selector2 es2))"

definition OnlyConfirmed :: "('r \<Rightarrow> draw \<times> 'r) \<Rightarrow> 'r CoinSelector \<Rightarrow> CoinSelectionEstimator list \<Rightarrow> 'r selection option" where
  "OnlyConfirmed next selector estimators =
     (let confirmed = filter (\<lambda>e. Height e > 0) estimators
      in if length confirmed = 0 then Some (selector, estimators, [])
         else
           let confirmedAvailable = coinSelectionAvailable confirmed
           in if Target selector > confirmedAvailable then Some (selector, estimators, [])
              else map_option (\<lambda>(s, _, selection). (s, estimators, selection)) (Standard next selector confirmed confirmedAvailable))"

definition PreferConfirmed :: "('r \<Rightarrow> draw \<times> 'r) \<Rightarrow> 'r CoinSelector \<Rightarrow> CoinSelectionEstimator list \<Rightarrow> int \<Rightarrow> 'r selection option" where
  "PreferConfirmed next selector estimators available =
     (case OnlyConfirmed next selector estimators of
        None \<Rightarrow> None
      | Some (selector1, es, selection) \<Rightarrow>
          if length selection > 0 then Some (selector1, es, selection) else Standard next selector1 es available)"

datatype select_error = UnknownStrategy string

definition Select :: "('r \<Rightarrow> draw \<times> 'r) \<Rightarrow> 'r CoinSelector \<Rightarrow> CoinSelectionEstimator list \<Rightarrow> string \<Rightarrow> (select_error + 'r selection) option" where
  "Select next selector estimators strategy =
     (if length estimators = 0 then Some (Inr (selector, estimators, []))
      else
        let available = coinSelectionAvailable estimators
        in if Target selector > available then Some (Inr (selector, estimators, []))
           else if strategy \<in> {'''', ''standard''} then map_option Inr (Standard next selector estimators available)
           else if strategy = ''prefer_confirmed'' then map_option Inr (PreferConfirmed next selector estimators available)
           else if strategy = ''only_confirmed'' then map_option Inr (OnlyConfirmed next selector estimators)
           else if strategy = ''branch_and_bound'' then map_option Inr (BranchAndBound selector estimators available)
           else if strategy = ''closest_match'' then Some (Inr (ClosestMatch selector estimators))
           else if strategy = ''random_draw'' then map_option Inr (RandomDraw next selector estimators)
           else Some (Inl (UnknownStrategy strategy)))"

section \<open>Random indices are in range\<close>

lemma bit_length_bounds: "x \<noteq> 0 \<Longrightarrow> 2 ^ (bit_length x - 1) \<le> x \<and> x < 2 ^ bit_length x \<and> 0 < bit_length x"
proof (induction x rule: bit_length.induct)
  case (1 n)
  show ?case
  proof (cases "n div 2 = 0")
    case True
    with 1(2) have "n = 1" by auto
    then show ?thesis by (simp add: bit_length.simps)
  next
    case False
    with 1 have IH: "2 ^ (bit_length (n div 2) - 1) \<le> n div 2" "n div 2 < 2 ^ bit_length (n div 2)" "0 < bit_length (n div 2)"
      by simp_all
    have "bit_length n = Suc (bit_length (n div 2))" using 1(2) by (simp add: bit_length.simps [of n])
    moreover have "2 * 2 ^ (bit_length (n div 2) - 1) = (2 :: nat) ^ bit_length (n div 2)"
      using IH(3) by (simp add: power_eq_if)
    ultimately show ?thesis using IH(1,2) by simp linarith
  qed
qed

lemma round53_upper:
  assumes "m < 2 ^ 53" and "0 < n"
  shows "round53 (m * n) < n * 2 ^ 53"
proof -
  define x e where "x = m * n" and "e = bit_length x - 53"
  have x: "x + n \<le> n * 2 ^ 53"
  proof -
    have "(m + 1) * n \<le> 2 ^ 53 * n" using assms(1) by (intro mult_le_mono1) simp
    then show ?thesis by (simp add: x_def algebra_simps)
  qed
  define q r where "q = x div 2 ^ e" and "r = x mod 2 ^ e"
  have split: "x = q * 2 ^ e + r" unfolding q_def r_def by (rule div_mult_mod_eq [symmetric])
  have rx: "round53 x = (if 2 * r > 2 ^ e \<or> (2 * r = 2 ^ e \<and> odd q) then (q + 1) * 2 ^ e else q * 2 ^ e)"
    unfolding round53_def Let_def e_def q_def r_def by (rule refl)
  with split rx have up: "2 * round53 x \<le> 2 * x + 2 ^ e" by (auto simp: algebra_simps)
  show ?thesis
  proof (cases "e = 0")
    case True
    with rx have "round53 x = x" by (simp add: q_def r_def)
    with x assms(2) show ?thesis by (simp add: x_def)
  next
    case False
    then have "x \<noteq> 0" using bit_length.simps [of 0] by (cases "x = 0") (simp_all add: e_def)
    from bit_length_bounds [OF this] False have "2 ^ (e + 52) \<le> x" by (simp add: e_def)
    with x assms(2) have "2 ^ (e + 52) < n * 2 ^ 53" by linarith
    then have "2 ^ e < n * 2" by (simp add: power_add)
    with up x show ?thesis unfolding x_def by linarith
  qed
qed

lemma scaled_less: "m < 2 ^ 53 \<Longrightarrow> 53 \<le> e \<Longrightarrow> 0 < n \<Longrightarrow> scaled (m, e) n < n"
proof -
  assume *: "m < 2 ^ 53" "53 \<le> e" "0 < n"
  have "(2 :: nat) ^ 53 \<le> 2 ^ e" using *(2) by (intro power_increasing) simp_all
  then have "round53 (m * n) < n * 2 ^ e" using round53_upper [OF *(1,3)] mult_le_mono2 by (meson less_le_trans)
  then show ?thesis by (simp add: scaled_def less_mult_imp_div_less)
qed

text \<open>
  What the selector needs of its source of random numbers. Both strategies that draw are proved
  once, for every source.
\<close>

locale coin_random =
  fixes "next" :: "'r \<Rightarrow> draw \<times> 'r"
  assumes in_unit_interval: "fst (fst (next r)) < 2 ^ 53 \<and> 53 \<le> snd (fst (next r))"
begin

lemma scaled_next: "0 < n \<Longrightarrow> scaled (fst (next r)) n < n"
  using in_unit_interval [of r] by (cases "fst (next r)") (simp add: scaled_less)

lemma shuffle_permutes:
  "i < length es \<or> es = [] \<and> i = 0 \<Longrightarrow> \<exists>r' es'. shuffle next i r es = Some (r', es') \<and> mset es' = mset es"
proof (induction i arbitrary: r es)
  case (Suc i)
  then have i: "Suc i < length es" by auto
  obtain d r' where n: "next r = (d, r')" by fastforce
  have s: "scaled d (i + 2) < i + 2" using scaled_next [of "i + 2" r] by (simp add: n)
  then have "scaled d (i + 2) < length es" using i by simp
  moreover have "mset (es[Suc i := es ! scaled d (i + 2), scaled d (i + 2) := es ! Suc i]) = mset es"
    using i calculation by (simp add: mset_swap)
  ultimately show ?case
    using Suc.IH [of "es[Suc i := es ! scaled d (i + 2), scaled d (i + 2) := es ! Suc i]" r'] i by (simp add: n Let_def)
qed auto

end

lemma Float64_range: "fst (fst (Float64 r)) < 2 ^ 53 \<and> 53 \<le> snd (fst (Float64 r))"
proof -
  have "unat (ucast (drop_bit 5 a) * 67108864 + ucast (drop_bit 6 b) :: u64) < 9007199254740992" for a b :: u32
  proof -
    have a: "unat (drop_bit 5 a) < 134217728"
      using unsigned_less [of a, where ?'a = nat] by (simp add: drop_bit_eq_div unat_div div_less_iff_less_mult)
    have b: "unat (drop_bit 6 b) < 67108864"
      using unsigned_less [of b, where ?'a = nat] by (simp add: drop_bit_eq_div unat_div div_less_iff_less_mult)
    have "unat (ucast (drop_bit 5 a) * 67108864 + ucast (drop_bit 6 b) :: u64) \<le> unat (drop_bit 5 a) * 67108864 + unat (drop_bit 6 b)"
      by (simp add: unat_word_ariths unsigned_ucast_eq take_bit_eq_mod)
    with a b show ?thesis by linarith
  qed
  then show ?thesis by (simp add: Float64_def Let_def split: prod.split)
qed

interpretation mt: coin_random Float64
  by unfold_locales (rule Float64_range)

section \<open>Branch and bound\<close>

definition total :: "CoinSelectionEstimator list \<Rightarrow> int" where
  "total es = sum_list (map EffectiveAmount es)"

definition val :: "CoinSelectionEstimator list \<Rightarrow> bool list \<Rightarrow> int" where
  "val es flags = total (chosen es flags)"

lemma total_simps [simp]: "total [] = 0" "total (e # es) = EffectiveAmount e + total es" "total (es @ fs) = total es + total fs"
  by (simp_all add: total_def)

lemma val_simps [simp]: "val es [] = 0" "val [] fs = 0" "val (e # es) (b # bs) = (if b then EffectiveAmount e else 0) + val es bs"
  by (simp_all add: val_def chosen_def)

lemma val_append: "length s \<le> length es \<Longrightarrow> val es (s @ t) = val es s + val (drop (length s) es) t"
proof (induction s arbitrary: es)
  case (Cons b s)
  then show ?case by (cases es) auto
qed simp

lemma val_replicate_False [simp]: "val es (replicate j False) = 0"
  by (induction j arbitrary: es) (simp, case_tac es, simp_all)

lemma total_drop: "k < length es \<Longrightarrow> total (drop k es) = EffectiveAmount (es ! k) + total (drop (Suc k) es)"
  by (metis Cons_nth_drop_Suc total_simps(2))

lemma val_snoc: "length s < length es \<Longrightarrow> val es (s @ [b]) = val es s + (if b then EffectiveAmount (es ! length s) else 0)"
proof -
  assume *: "length s < length es"
  then obtain e rest where "drop (length s) es = e # rest" "e = es ! length s" by (metis Cons_nth_drop_Suc)
  with * show ?thesis by (simp add: val_append)
qed

lemma val_bounds: "\<forall>e\<in>set es. 0 \<le> EffectiveAmount e \<Longrightarrow> 0 \<le> val es bs \<and> val es bs \<le> total es"
proof (induction es arbitrary: bs)
  case (Cons e es)
  then show ?case by (cases bs) (fastforce simp: total_def intro: sum_list_nonneg)+
qed simp

lemma coinSelectionAvailable_total: "coinSelectionAvailable es = wrap64 (total es)"
proof -
  have "fold (\<lambda>e available. wrap64 (available + EffectiveAmount e)) es (wrap64 x) = wrap64 (x + total es)" for x
    by (induction es arbitrary: x) (simp_all add: add.assoc)
  from this [of 0] show ?thesis by (simp add: coinSelectionAvailable_def is_int64_def int64_min_def int64_max_def)
qed

text \<open>The bookkeeping of the loop, whatever overflows.\<close>

definition books :: "CoinSelectionEstimator list \<Rightarrow> search \<Rightarrow> bool" where
  "books es s \<longleftrightarrow> length (currentSelection s) \<le> length es \<and>
     currentValue s = wrap64 (val es (rev (currentSelection s))) \<and>
     currentAvailableValue s = wrap64 (total (drop (length (currentSelection s)) es))"

lemma pop_excluded_spec:
  assumes "length s \<le> length es"
  shows "\<exists>j s'. pop_excluded es s (wrap64 (total (drop (length s) es))) = (s', wrap64 (total (drop (length s') es))) \<and>
    s = replicate j False @ s' \<and> (s' = [] \<or> hd s')"
  using assms
proof (induction s)
  case (Cons b s)
  show ?case
  proof (cases b)
    case False
    have "wrap64 (total (drop (Suc (length s)) es) + EffectiveAmount (es ! length s)) = wrap64 (total (drop (length s) es))"
      using Cons.prems by (simp add: total_drop add.commute)
    moreover have "length s \<le> length es" using Cons.prems by simp
    from Cons.IH [OF this] obtain j s' where "pop_excluded es s (wrap64 (total (drop (length s) es))) = (s', wrap64 (total (drop (length s') es)))"
      "s = replicate j False @ s'" "s' = [] \<or> hd s'" by blast
    ultimately show ?thesis using False by (intro exI [of _ "Suc j"] exI [of _ s']) simp
  qed (auto intro!: exI [of _ 0])
qed simp

lemma backtrack_spec:
  assumes "books es s"
  obtains (stop) j where "backtrack es s = None" "currentSelection s = replicate j False"
  | (flip) j sel s' where "backtrack es s = Some s'" "currentSelection s = replicate j False @ True # sel"
      "currentSelection s' = False # sel" "bestWaste s' = bestWaste s" "bestSelection s' = bestSelection s" "books es s'"
proof -
  let ?sel = "currentSelection s"
  have len: "length ?sel \<le> length es" using assms by (simp add: books_def)
  then obtain j sel where p: "pop_excluded es ?sel (currentAvailableValue s) = (sel, wrap64 (total (drop (length sel) es)))"
    "?sel = replicate j False @ sel" "sel = [] \<or> hd sel"
    using pop_excluded_spec [OF len] assms unfolding books_def by metis
  show thesis
  proof (cases sel)
    case Nil
    with p show thesis by (intro stop [of j]) (simp_all add: backtrack_def)
  next
    case (Cons b rest)
    with p have b: "b = True" "?sel = replicate j False @ True # rest" by simp_all
    have rest: "length rest < length es" using len b(2) by simp
    have "val es (rev rest @ True # replicate j False) = val es (rev rest) + EffectiveAmount (es ! length rest)"
      using rest val_append [of "rev rest @ [True]" es "replicate j False"] val_snoc [of "rev rest" es True] by simp
    then have "books es (s\<lparr>currentSelection := False # rest, currentAvailableValue := wrap64 (total (drop (length sel) es)),
        currentValue := wrap64 (currentValue s - EffectiveAmount (es ! length rest))\<rparr>)"
      using assms rest b Cons by (simp add: books_def val_snoc)
    with p Cons b show thesis by (intro flip) (auto simp: backtrack_def)
  qed
qed

lemma books_branch: "books es s \<Longrightarrow> length (currentSelection s) < length es \<Longrightarrow> books es (branch es s)"
  by (auto simp: books_def branch_def Let_def val_snoc total_drop)

lemma books_record [simp]: "books es (record_best target s) = books es s"
  "currentSelection (record_best target s) = currentSelection s"
  by (simp_all add: books_def record_best_def Let_def)

lemma search_step_in_range: "books es s \<Longrightarrow> search_step target cost es s \<noteq> IndexOutOfRange"
  by (auto simp: search_step_def books_def out_of_bounds_def Let_def not_less split: option.split)

lemma books_step:
  "books es s \<Longrightarrow> search_step target cost es s = Continue s' \<Longrightarrow> books es s'"
  "books es s \<Longrightarrow> search_step target cost es s = Stop s' \<Longrightarrow> books es s'"
proof -
  let ?s1 = "if \<not> out_of_bounds target cost s \<and> currentValue s \<ge> target then record_best target s else s"
  assume b: "books es s"
  then have b1: "books es ?s1" by simp
  show "books es s'" if "search_step target cost es s = Stop s'"
    using that b b1 by (auto simp: search_step_def Let_def split: if_splits option.splits)
  show "books es s'" if *: "search_step target cost es s = Continue s'"
  proof (cases "out_of_bounds target cost s \<or> currentValue s \<ge> target")
    case True
    with * have "backtrack es ?s1 = Some s'"
      by (auto simp: search_step_def Let_def split: if_splits option.splits)
    with b1 show ?thesis by (metis backtrack_spec option.distinct(1) option.inject)
  next
    case False
    with * b show ?thesis by (auto simp: search_step_def Let_def intro: books_branch split: if_splits)
  qed
qed

text \<open>The rule for the loop: an invariant of the iterations, and a measure that makes it end by \<^verbatim>\<open>break\<close>.\<close>

lemma search_loop_rule:
  assumes "I s"
    and range: "\<And>s. I s \<Longrightarrow> search_step target cost es s \<noteq> IndexOutOfRange"
    and step: "\<And>s s'. I s \<Longrightarrow> search_step target cost es s = Continue s' \<Longrightarrow> I s' \<and> m s' < (m s :: nat)"
    and stop: "\<And>s s'. I s \<Longrightarrow> search_step target cost es s = Stop s' \<Longrightarrow> Q s'"
    and weak: "\<And>s. I s \<Longrightarrow> P s" "\<And>s. Q s \<Longrightarrow> P s"
  shows "\<exists>r n b. search_loop target cost es left s = Some (r, n, b) \<and> P r \<and> n \<le> left \<and> (b \<longrightarrow> Q r) \<and> (m s < left \<longrightarrow> b)"
  using assms(1)
proof (induction left arbitrary: s)
  case (Suc left)
  show ?case
  proof (cases "search_step target cost es s")
    case (Stop s')
    with stop [OF Suc.prems Stop] weak show ?thesis by (auto intro: exI [of _ True])
  next
    case (Continue s')
    with step [OF Suc.prems Continue] Suc.IH [of s'] show ?thesis by fastforce
  qed (use range [OF Suc.prems] in simp)
qed (use weak in \<open>auto intro: exI [of _ False]\<close>)

text \<open>
  The search visits the prefixes of a selection in the order of a depth-first walk that tries inclusion
  first. \<open>before t s\<close>: the complete selection \<open>t\<close> lies in a part of the tree that was left behind when the
  walk is at \<open>s\<close>. \<open>remaining\<close> counts the nodes that are still ahead.
\<close>

definition before :: "bool list \<Rightarrow> bool list \<Rightarrow> bool" where
  "before t s \<longleftrightarrow> (\<exists>p q r. s = p @ False # q \<and> t = p @ True # r)"

fun remaining :: "nat \<Rightarrow> bool list \<Rightarrow> nat" where
  "remaining n [] = 2 ^ (n + 1) - 1"
| "remaining (Suc n) (b # s) = remaining n s + (if b then 2 ^ (n + 1) - 1 else 0)"
| "remaining 0 (b # s) = 0"

lemma remaining_snoc: "length s < n \<Longrightarrow> remaining n (s @ [b]) < remaining n s"
proof (induction n s rule: remaining.induct)
  case (1 n)
  obtain m where m: "n = Suc m" using 1 by (cases n) auto
  obtain k where "(2 :: nat) ^ m = Suc k" using not0_implies_Suc [of "2 ^ m"] by auto
  then show ?case unfolding m by (cases b) simp_all
qed auto

lemma remaining_pos: "length s \<le> n \<Longrightarrow> 0 < remaining n s"
proof (induction n s rule: remaining.induct)
  case (1 n)
  have "(1 :: nat) < 2 ^ (n + 1)" by (rule one_less_power) simp_all
  then show ?case by simp
qed auto

lemma remaining_flip: "length p + j < n \<Longrightarrow> remaining n (p @ [False]) < remaining n (p @ True # replicate j False)"
proof (induction n p rule: remaining.induct)
  case (1 n)
  then obtain m where m: "n = Suc m" by (cases n) auto
  have "0 < remaining m (replicate j False)" using 1 by (intro remaining_pos) (simp add: m)
  moreover obtain k where "(2 :: nat) ^ m = Suc k" using not0_implies_Suc [of "2 ^ m"] by auto
  ultimately show ?case by (simp add: m)
qed auto

lemma before_snoc_True [simp]: "before t (s @ [True]) \<longleftrightarrow> before t s"
proof -
  have *: "s @ [True] = p @ False # q \<longleftrightarrow> (\<exists>q'. q = q' @ [True] \<and> s = p @ False # q')" for p q
    by (cases q rule: rev_cases) auto
  show ?thesis unfolding before_def * by auto
qed

lemma before_snoc_False: "before t (s @ [False]) \<longleftrightarrow> before t s \<or> (\<exists>r. t = s @ True # r)"
proof -
  have *: "s @ [False] = p @ False # q \<longleftrightarrow> (\<exists>q'. q = q' @ [False] \<and> s = p @ False # q') \<or> q = [] \<and> s = p" for p q
    by (cases q rule: rev_cases) auto
  show ?thesis unfolding before_def * by auto
qed

text \<open>A selection that starts like the current one, or differs by including a coin the walk has excluded.\<close>

lemma below_or_before:
  "length p + j < length t \<Longrightarrow> t = p @ True # r \<Longrightarrow>
     (\<exists>r'. t = (p @ True # replicate j False) @ r') \<or> before t (p @ True # replicate j False)"
proof (induction j)
  case (Suc j)
  have snoc: "p @ True # replicate (Suc j) False = (p @ True # replicate j False) @ [False]"
    by (simp add: replicate_append_same)
  from Suc consider r' where "t = (p @ True # replicate j False) @ r'" | "before t (p @ True # replicate j False)" by fastforce
  then show ?case
  proof cases
    case 1
    with Suc.prems obtain b r'' where "r' = b # r''" by (cases r') auto
    with 1 show ?thesis unfolding snoc before_snoc_False by (cases b) auto
  next
    case 2
    then show ?thesis unfolding snoc before_snoc_False by blast
  qed
qed simp

lemma before_or_all_False: "length t = n \<Longrightarrow> j \<le> n \<Longrightarrow> (\<exists>r'. t = replicate j False @ r') \<or> before t (replicate j False)"
proof (induction j)
  case (Suc j)
  have snoc: "replicate (Suc j) False = replicate j False @ [False]" by (simp add: replicate_append_same)
  from Suc consider r' where "t = replicate j False @ r'" | "before t (replicate j False)" by fastforce
  then show ?case
  proof cases
    case 1
    with Suc.prems obtain b r'' where "r' = b # r''" by (cases r') auto
    with 1 show ?thesis unfolding snoc before_snoc_False by (cases b) auto
  next
    case 2
    then show ?thesis unfolding snoc before_snoc_False by blast
  qed
qed simp

text \<open>Amounts that cannot overflow.\<close>

definition plain :: "int \<Rightarrow> int \<Rightarrow> CoinSelectionEstimator list \<Rightarrow> bool" where
  "plain target cost es \<longleftrightarrow> (\<forall>e\<in>set es. 0 \<le> EffectiveAmount e) \<and> total es \<le> int64_max \<and>
     0 < target \<and> 0 \<le> cost \<and> target + cost \<le> int64_max"

definition goal :: "int \<Rightarrow> int \<Rightarrow> CoinSelectionEstimator list \<Rightarrow> bool list \<Rightarrow> bool" where
  "goal target cost es t \<longleftrightarrow> length t = length es \<and> target \<le> val es t \<and> val es t \<le> target + cost"

definition found :: "int \<Rightarrow> int \<Rightarrow> CoinSelectionEstimator list \<Rightarrow> search \<Rightarrow> bool" where
  "found target cost es s \<longleftrightarrow>
     (if bestSelection s = [] then bestWaste s = cost
      else length (bestSelection s) \<le> length es \<and> val es (rev (bestSelection s)) = target + bestWaste s \<and>
        0 \<le> bestWaste s \<and> bestWaste s \<le> cost)"

definition optimal :: "int \<Rightarrow> int \<Rightarrow> CoinSelectionEstimator list \<Rightarrow> search \<Rightarrow> bool" where
  "optimal target cost es s \<longleftrightarrow> found target cost es s \<and>
     (\<forall>t. goal target cost es t \<longrightarrow> bestSelection s \<noteq> [] \<and> bestWaste s \<le> val es t - target)"

definition searched :: "int \<Rightarrow> int \<Rightarrow> CoinSelectionEstimator list \<Rightarrow> search \<Rightarrow> bool" where
  "searched target cost es s \<longleftrightarrow> books es s \<and> found target cost es s \<and>
     (\<forall>t. goal target cost es t \<longrightarrow> before t (rev (currentSelection s)) \<longrightarrow>
        bestSelection s \<noteq> [] \<and> bestWaste s \<le> val es t - target)"

lemma before_append: "before t p \<Longrightarrow> before t (p @ q)"
  unfolding before_def by (metis append.assoc append_Cons)

lemma val_take: "val (take (length s) es) s = val es s"
proof (induction s arbitrary: es)
  case (Cons b s)
  then show ?case by (cases es) auto
qed simp

lemma is_int64I: "0 \<le> x \<Longrightarrow> x \<le> int64_max \<Longrightarrow> is_int64 x"
  by (simp add: is_int64_def int64_min_def)

lemma is_int64_diff: "0 \<le> x \<Longrightarrow> x \<le> int64_max \<Longrightarrow> 0 \<le> y \<Longrightarrow> y \<le> int64_max \<Longrightarrow> is_int64 (x - y)"
  by (simp add: is_int64_def int64_min_def int64_max_def)

lemma val_below:
  assumes "\<forall>e\<in>set es. 0 \<le> EffectiveAmount e" "length s \<le> length es"
  shows "val es s \<le> val es (s @ r)" "val es (s @ r) \<le> val es s + total (drop (length s) es)"
proof -
  have "\<forall>e\<in>set (drop (length s) es). 0 \<le> EffectiveAmount e" using assms(1) by (meson in_set_dropD)
  from val_bounds [OF this, of r] assms(2)
  show "val es s \<le> val es (s @ r)" "val es (s @ r) \<le> val es s + total (drop (length s) es)"
    by (simp_all add: val_append)
qed

lemma val_prefix_total:
  assumes "\<forall>e\<in>set es. 0 \<le> EffectiveAmount e" "length s \<le> length es"
  shows "val es s + total (drop (length s) es) \<le> total es"
proof -
  have "\<forall>e\<in>set (take (length s) es). 0 \<le> EffectiveAmount e" using assms(1) by (meson in_set_takeD)
  then have "val es s \<le> total (take (length s) es)" using val_bounds val_take by metis
  moreover have "total es = total (take (length s) es) + total (drop (length s) es)"
    by (metis append_take_drop_id total_simps(3))
  ultimately show ?thesis by linarith
qed

lemma plain_values:
  assumes plain: "plain target cost es" and books: "books es s"
  defines "v \<equiv> val es (rev (currentSelection s))" and "w \<equiv> total (drop (length (currentSelection s)) es)"
  shows "currentValue s = v" "out_of_bounds target cost s \<longleftrightarrow> v + w < target \<or> target + cost < v"
    "wrap64 (currentValue s - target) = v - target" "0 \<le> v"
proof -
  have nonneg: "\<forall>e\<in>set es. 0 \<le> EffectiveAmount e" and bound: "total es \<le> int64_max" using plain by (simp_all add: plain_def)
  have len: "length (currentSelection s) \<le> length es" using books by (simp add: books_def)
  have v: "0 \<le> v" "v + w \<le> int64_max"
    using val_bounds [OF nonneg, of "rev (currentSelection s)"] val_prefix_total [OF nonneg, of "rev (currentSelection s)"] len bound
    by (simp_all add: v_def w_def)
  have w: "0 \<le> w" unfolding w_def total_def using nonneg by (intro sum_list_nonneg) (auto dest: in_set_dropD)
  have "is_int64 v" "is_int64 w" "is_int64 (v + w)" using v w by (auto intro: is_int64I)
  then have cv: "currentValue s = v" and av: "currentAvailableValue s = w"
    using books by (simp_all add: books_def v_def w_def)
  show "currentValue s = v" by (rule cv)
  show "0 \<le> v" by (rule v(1))
  have "is_int64 (target + cost)" using plain by (intro is_int64I) (auto simp: plain_def)
  then show "out_of_bounds target cost s \<longleftrightarrow> v + w < target \<or> target + cost < v"
    using \<open>is_int64 (v + w)\<close> by (simp add: out_of_bounds_def cv av)
  have "is_int64 (v - target)" using plain v w by (intro is_int64_diff) (auto simp: plain_def)
  then show "wrap64 (currentValue s - target) = v - target" by (simp add: cv)
qed

text \<open>When the walk turns back, nothing below the current prefix is better than what it holds.\<close>

lemma searched_prune:
  assumes plain: "plain target cost es" and inv: "searched target cost es s"
    and turn: "out_of_bounds target cost s \<or> target \<le> currentValue s"
  defines "s1 \<equiv> (if \<not> out_of_bounds target cost s \<and> target \<le> currentValue s then record_best target s else s)"
  shows "found target cost es s1"
    and "goal target cost es t \<Longrightarrow> before t (rev (currentSelection s)) \<or> (\<exists>r. t = rev (currentSelection s) @ r) \<Longrightarrow>
      bestSelection s1 \<noteq> [] \<and> bestWaste s1 \<le> val es t - target"
proof -
  let ?sel = "currentSelection s" let ?v = "val es (rev ?sel)"
  have books: "books es s" and fnd: "found target cost es s" using inv by (simp_all add: searched_def)
  note vals = plain_values [OF plain books]
  have nonneg: "\<forall>e\<in>set es. 0 \<le> EffectiveAmount e" and pos: "0 < target" using plain by (simp_all add: plain_def)
  have len: "length ?sel \<le> length es" using books by (simp add: books_def)
  have old: "goal target cost es t \<Longrightarrow> before t (rev ?sel) \<Longrightarrow> bestSelection s \<noteq> [] \<and> bestWaste s \<le> val es t - target"
    for t using inv by (simp add: searched_def)
  have below: "?v \<le> val es t \<and> val es t \<le> ?v + total (drop (length ?sel) es)" if "\<exists>r. t = rev ?sel @ r" for t
    using that val_below [OF nonneg, of "rev ?sel"] len by auto
  show "found target cost es s1"
  proof (cases "\<not> out_of_bounds target cost s \<and> target \<le> currentValue s")
    case True
    then have "?sel \<noteq> []" using vals(1) pos by auto
    with True vals fnd len show ?thesis
      by (auto simp: s1_def record_best_def Let_def found_def split: if_splits)
  qed (use fnd in \<open>auto simp: s1_def\<close>)
  assume g: "goal target cost es t" and pos': "before t (rev ?sel) \<or> (\<exists>r. t = rev ?sel @ r)"
  show "bestSelection s1 \<noteq> [] \<and> bestWaste s1 \<le> val es t - target"
  proof (cases "out_of_bounds target cost s")
    case True
    then have "\<not> (\<exists>r. t = rev ?sel @ r)" using below [of t] g vals(2) by (force simp: goal_def)
    with True old [OF g] pos' show ?thesis by (simp add: s1_def)
  next
    case False
    then have ge: "target \<le> ?v" "?v \<le> target + cost" using turn vals by auto
    have sel: "?sel \<noteq> []" using ge(1) pos by auto
    have "bestWaste s1 \<le> ?v - target \<and> bestWaste s1 \<le> bestWaste s \<and> bestSelection s1 \<noteq> []"
      using False turn vals sel fnd ge by (auto simp: s1_def record_best_def Let_def found_def split: if_splits)
    with old [OF g] below [of t] pos' show ?thesis by auto
  qed
qed

lemma val_exchange:
  assumes "Suc (length p) < length es" "EffectiveAmount (es ! Suc (length p)) = EffectiveAmount (es ! length p)"
  shows "val es (p @ False # True # r) = val es (p @ True # False # r)"
proof -
  have "drop (length p) es = es ! length p # es ! Suc (length p) # drop (Suc (Suc (length p))) es"
    using assms(1) by (simp add: Cons_nth_drop_Suc)
  with assms show ?thesis by (simp add: val_append)
qed

lemma searched_branch:
  assumes inv: "searched target cost es s" and len: "length (currentSelection s) < length es"
  shows "searched target cost es (branch es s)"
proof -
  let ?sel = "currentSelection s"
  have books: "books es (branch es s)" using inv len by (simp add: searched_def books_branch)
  have best: "bestSelection (branch es s) = bestSelection s" "bestWaste (branch es s) = bestWaste s"
    by (simp_all add: branch_def Let_def)
  show ?thesis
  proof (cases "currentSelection (branch es s) = True # ?sel")
    case True
    with inv books best show ?thesis by (simp add: searched_def found_def)
  next
    case False
    then have dup: "?sel \<noteq> []" "\<not> hd ?sel" "EffectiveAmount (es ! length ?sel) = EffectiveAmount (es ! (length ?sel - 1))"
      and sel: "currentSelection (branch es s) = False # ?sel"
      by (auto simp: branch_def Let_def split: if_splits)
    then obtain sl where sl: "?sel = False # sl" by (cases ?sel) auto
    have "bestSelection s \<noteq> [] \<and> bestWaste s \<le> val es t - target"
      if g: "goal target cost es t" and b: "before t (rev ?sel @ [False])" for t
    proof -
      have old: "goal target cost es u \<Longrightarrow> before u (rev ?sel) \<Longrightarrow> bestSelection s \<noteq> [] \<and> bestWaste s \<le> val es u - target" for u
        using inv by (simp add: searched_def)
      show ?thesis
      proof (cases "before t (rev ?sel)")
        case False
        then obtain r where t: "t = rev sl @ False # True # r" using b before_snoc_False [of t "rev ?sel"] by (auto simp: sl)
        let ?u = "rev sl @ True # False # r"
        have "val es t = val es ?u" unfolding t using len dup(3) by (intro val_exchange) (simp_all add: sl)
        moreover from this have "goal target cost es ?u" using g by (simp add: goal_def t)
        moreover have "before ?u (rev ?sel)" by (simp add: sl before_snoc_False)
        ultimately show ?thesis using old [of ?u] by simp
      qed (use old g in blast)
    qed
    with inv books best sel show ?thesis by (simp add: searched_def found_def)
  qed
qed

lemma searched_backtrack:
  assumes plain: "plain target cost es" and inv: "searched target cost es s"
    and turn: "out_of_bounds target cost s \<or> target \<le> currentValue s"
  defines "s1 \<equiv> (if \<not> out_of_bounds target cost s \<and> target \<le> currentValue s then record_best target s else s)"
  shows "backtrack es s1 = None \<Longrightarrow> optimal target cost es s1"
    and "backtrack es s1 = Some s2 \<Longrightarrow> searched target cost es s2 \<and>
      remaining (length es) (rev (currentSelection s2)) < remaining (length es) (rev (currentSelection s))"
proof -
  have sel: "currentSelection s1 = currentSelection s" and books: "books es s1"
    using inv by (simp_all add: s1_def searched_def)
  then have len: "length (currentSelection s) \<le> length es" by (simp add: books_def)
  note prune = searched_prune [OF plain inv turn, folded s1_def]
  show "optimal target cost es s1" if none: "backtrack es s1 = None"
    using books
  proof (cases rule: backtrack_spec)
    case (stop j)
    then have "rev (currentSelection s) = replicate j False" by (simp add: sel)
    with prune before_or_all_False [of _ "length es" j] len stop sel show ?thesis
      by (auto simp: optimal_def goal_def)
  qed (use none in simp)
  show "searched target cost es s2 \<and> remaining (length es) (rev (currentSelection s2)) < remaining (length es) (rev (currentSelection s))"
    if some: "backtrack es s1 = Some s2"
    using books
  proof (cases rule: backtrack_spec)
    case (flip j sl s')
    then have s2: "s' = s2" using some by simp
    have cur: "rev (currentSelection s) = rev sl @ True # replicate j False" and len': "length sl + j < length es"
      using flip(2) len by (simp_all add: sel)
    have "bestSelection s1 \<noteq> [] \<and> bestWaste s1 \<le> val es t - target"
      if g: "goal target cost es t" and b: "before t (rev sl @ [False])" for t
    proof (rule prune(2) [OF g])
      from b consider "before t (rev sl)" | r where "t = rev sl @ True # r" by (auto simp: before_snoc_False)
      then show "before t (rev (currentSelection s)) \<or> (\<exists>r. t = rev (currentSelection s) @ r)"
      proof cases
        case 1
        then show ?thesis unfolding cur by (simp add: before_append)
      next
        case 2
        with below_or_before [OF _ 2, of j] g len' show ?thesis unfolding cur by (simp add: goal_def) blast
      qed
    qed
    then have "searched target cost es s2"
      using flip prune(1) unfolding s2 by (simp add: searched_def found_def)
    moreover have "remaining (length es) (rev sl @ [False]) < remaining (length es) (rev sl @ True # replicate j False)"
      using len' by (intro remaining_flip) simp
    ultimately show ?thesis using flip(3) unfolding s2 cur by simp
  qed (use some in simp)
qed

lemma search_optimal:
  assumes plain: "plain target cost es"
  defines "m (s :: search) \<equiv> remaining (length es) (rev (currentSelection s))"
  shows "\<exists>r n b. search_loop target cost es left (search_start cost (wrap64 (total es))) = Some (r, n, b) \<and>
    found target cost es r \<and> n \<le> left \<and> (b \<longrightarrow> optimal target cost es r) \<and> (2 ^ (length es + 1) \<le> left \<longrightarrow> b)"
proof -
  let ?s0 = "search_start cost (wrap64 (total es))"
  have start: "searched target cost es ?s0"
    by (simp add: searched_def search_start_def books_def found_def before_def is_int64_def int64_min_def int64_max_def)
  have m0: "2 ^ (length es + 1) \<le> left \<Longrightarrow> m ?s0 < left"
    by (cases "2 ^ length es :: nat") (simp_all add: m_def search_start_def)
  have "\<exists>r n b. search_loop target cost es left ?s0 = Some (r, n, b) \<and> found target cost es r \<and> n \<le> left \<and>
      (b \<longrightarrow> optimal target cost es r) \<and> (m ?s0 < left \<longrightarrow> b)"
  proof (rule search_loop_rule [where I = "searched target cost es"])
    fix s s' assume I: "searched target cost es s"
    let ?turn = "out_of_bounds target cost s \<or> target \<le> currentValue s"
    let ?s1 = "if \<not> out_of_bounds target cost s \<and> target \<le> currentValue s then record_best target s else s"
    show "search_step target cost es s \<noteq> IndexOutOfRange" using I by (simp add: searched_def search_step_in_range)
    show "found target cost es s" using I by (simp add: searched_def)
    show "searched target cost es s' \<and> m s' < m s" if step: "search_step target cost es s = Continue s'"
    proof (cases ?turn)
      case True
      with step have "backtrack es ?s1 = Some s'" by (auto simp: search_step_def Let_def split: if_splits option.splits)
      with searched_backtrack(2) [OF plain I True] show ?thesis by (simp add: m_def)
    next
      case False
      with step have s': "s' = branch es s" and len: "length (currentSelection s) < length es"
        by (auto simp: search_step_def Let_def split: if_splits)
      have "\<exists>b. currentSelection (branch es s) = b # currentSelection s" by (simp add: branch_def Let_def) blast
      with searched_branch [OF I len] len show ?thesis by (auto simp: s' m_def remaining_snoc)
    qed
    show "optimal target cost es s'" if step: "search_step target cost es s = Stop s'"
    proof -
      have turn: ?turn and "backtrack es ?s1 = None" "s' = ?s1"
        using step by (auto simp: search_step_def Let_def split: if_splits option.splits)
      with searched_backtrack(1) [OF plain I turn] show ?thesis by simp
    qed
  qed (use start in \<open>simp_all add: optimal_def\<close>)
  with m0 show ?thesis by blast
qed

section \<open>What the strategies return\<close>

lemma total_mset: "mset xs = mset ys \<Longrightarrow> total xs = total ys"
  unfolding total_def by (metis mset_map sum_mset_sum_list)

lemma chosen_subset: "mset (chosen es t) \<subseteq># mset es"
proof (induction es arbitrary: t)
  case (Cons e es)
  show ?case
  proof (cases t)
    case (Cons b t')
    then show ?thesis using Cons.IH [of t'] by (auto simp: chosen_def subset_mset.le_imp_less_or_eq intro: subset_mset.order_trans)
  qed (simp add: chosen_def)
qed (simp add: chosen_def)

lemma chosen_surj: "M \<subseteq># mset es \<Longrightarrow> \<exists>t. length t = length es \<and> mset (chosen es t) = M"
proof (induction es arbitrary: M)
  case (Cons e es)
  show ?case
  proof (cases "e \<in># M")
    case True
    then obtain N where "M = add_mset e N" by (meson multi_member_split)
    with Cons obtain t where "length t = length es" "mset (chosen es t) = N" by auto
    with \<open>M = add_mset e N\<close> show ?thesis by (intro exI [of _ "True # t"]) (simp add: chosen_def)
  next
    case False
    with Cons.prems have "M \<subseteq># mset es" by (metis insert_noteq_member mset.simps(2) mset_subset_eqI mset_subset_eq_count count_add_mset not_in_iff le_zero_eq zero_le order_refl)
    with Cons.IH obtain t where "length t = length es" "mset (chosen es t) = M" by blast
    then show ?thesis by (intro exI [of _ "False # t"]) (simp add: chosen_def)
  qed
qed (simp add: chosen_def)

lemma plain_sort [simp]: "plain target cost (sort_key f es) = plain target cost es"
  by (simp add: plain_def total_mset [of "sort_key f es" es])

lemma BranchAndBound_result:
  assumes plain: "plain (Target sel) (CostOfChange sel) estimators"
  obtains sel' es picked where "BranchAndBound sel estimators (coinSelectionAvailable estimators) = Some (sel', es, picked)"
    "mset es = mset estimators" "Target sel' = Target sel" "CostOfChange sel' = CostOfChange sel" "random sel' = random sel"
    "picked \<noteq> [] \<longrightarrow> mset picked \<subseteq># mset estimators \<and> ExactMatch sel' \<and>
       Target sel \<le> total picked \<and> total picked \<le> Target sel + CostOfChange sel"
    "Tries sel + 2 ^ (length estimators + 1) \<le> 100000 \<longrightarrow>
       (\<forall>t. goal (Target sel) (CostOfChange sel) es t \<longrightarrow> picked \<noteq> [] \<and> total picked \<le> val es t)"
proof -
  let ?es = "sort_key (\<lambda>e. - EffectiveAmount e) estimators" let ?t = "Target sel" let ?c = "CostOfChange sel"
  let ?left = "nat (100000 - Tries sel)"
  have tot: "coinSelectionAvailable estimators = wrap64 (total ?es)"
    by (simp add: coinSelectionAvailable_total total_mset [of ?es estimators])
  have pl: "plain ?t ?c ?es" using plain by simp
  then have pos: "0 < ?t" by (simp add: plain_def)
  from search_optimal [OF pl, of ?left]
  obtain r n b where r: "search_loop ?t ?c ?es ?left (search_start ?c (coinSelectionAvailable estimators)) = Some (r, n, b)"
    and f: "found ?t ?c ?es r" and opt: "b \<longrightarrow> optimal ?t ?c ?es r" "2 ^ (length ?es + 1) \<le> ?left \<longrightarrow> b"
    unfolding tot by blast
  have b: b if "Tries sel + 2 ^ (length estimators + 1) \<le> 100000"
  proof -
    have "int (2 ^ (length ?es + 1)) \<le> 100000 - Tries sel" using that by simp
    then show b using opt(2) by (metis nat_int nat_mono)
  qed
  define picked where "picked = (if bestSelection r = [] then [] else chosen ?es (rev (bestSelection r)))"
  have tot_picked: "total picked = ?t + bestWaste r" "0 \<le> bestWaste r" "bestWaste r \<le> ?c" if "bestSelection r \<noteq> []"
    using f that by (simp_all add: picked_def found_def val_def)
  have ne: "picked \<noteq> [] \<longleftrightarrow> bestSelection r \<noteq> []"
    using tot_picked pos by (cases "bestSelection r = []") (auto simp: picked_def)
  have sub: "mset picked \<subseteq># mset estimators" using chosen_subset [of ?es] by (simp add: picked_def)
  define sel' where "sel' = (if bestSelection r = [] then sel\<lparr>Tries := Tries sel + int n\<rparr>
    else sel\<lparr>Tries := Tries sel + int n, ExactMatch := True\<rparr>)"
  have "BranchAndBound sel estimators (coinSelectionAvailable estimators) = Some (sel', ?es, picked)"
    using r by (simp add: BranchAndBound_def Let_def picked_def sel'_def)
  then show thesis
  proof (rule that)
    show "picked \<noteq> [] \<longrightarrow> mset picked \<subseteq># mset estimators \<and> ExactMatch sel' \<and> ?t \<le> total picked \<and> total picked \<le> ?t + ?c"
      using sub tot_picked ne by (simp add: sel'_def)
    show "Tries sel + 2 ^ (length estimators + 1) \<le> 100000 \<longrightarrow>
       (\<forall>t. goal ?t ?c ?es t \<longrightarrow> picked \<noteq> [] \<and> total picked \<le> val ?es t)"
      using b opt(1) ne tot_picked by (fastforce simp: optimal_def)
  qed (simp_all add: sel'_def)
qed

text \<open>
  C8. Branch and bound is optimal. For coins with non-negative effective amounts and sums inside
  \<^verbatim>\<open>int64\<close>, and as long as the tries suffice for the search tree (\<open>2 ^ (n + 1)\<close> for \<open>n\<close> coins, which holds
  for up to fifteen coins and a fresh selector), it finds a selection whenever some set of the coins
  has a sum between the target and the target plus the cost of change, and no such set has a smaller
  sum. What it returns is a part of the given coins and has a sum in that range.
\<close>

theorem BranchAndBound_optimal:
  assumes "plain (Target sel) (CostOfChange sel) estimators"
    and "Tries sel + 2 ^ (length estimators + 1) \<le> 100000"
  shows "\<exists>sel' es picked. BranchAndBound sel estimators (coinSelectionAvailable estimators) = Some (sel', es, picked) \<and>
    mset es = mset estimators \<and> (picked \<noteq> [] \<longrightarrow> mset picked \<subseteq># mset estimators \<and> ExactMatch sel' \<and>
      Target sel \<le> total picked \<and> total picked \<le> Target sel + CostOfChange sel) \<and>
    (\<forall>coins. mset coins \<subseteq># mset estimators \<and> Target sel \<le> total coins \<and> total coins \<le> Target sel + CostOfChange sel \<longrightarrow>
      picked \<noteq> [] \<and> total picked \<le> total coins)"
proof -
  obtain sel' es picked where r: "BranchAndBound sel estimators (coinSelectionAvailable estimators) = Some (sel', es, picked)"
    "mset es = mset estimators" "picked \<noteq> [] \<longrightarrow> mset picked \<subseteq># mset estimators \<and> ExactMatch sel' \<and>
      Target sel \<le> total picked \<and> total picked \<le> Target sel + CostOfChange sel"
    and opt: "Tries sel + 2 ^ (length estimators + 1) \<le> 100000 \<longrightarrow>
       (\<forall>t. goal (Target sel) (CostOfChange sel) es t \<longrightarrow> picked \<noteq> [] \<and> total picked \<le> val es t)"
    by (rule BranchAndBound_result [OF assms(1)])
  have "picked \<noteq> [] \<and> total picked \<le> total coins"
    if "mset coins \<subseteq># mset estimators" "Target sel \<le> total coins" "total coins \<le> Target sel + CostOfChange sel" for coins
  proof -
    from that(1) obtain t where t: "length t = length es" "mset (chosen es t) = mset coins"
      using chosen_surj [of "mset coins" es] r(2) by auto
    then have "val es t = total coins" using total_mset [OF t(2)] by (simp add: val_def)
    with that t opt assms(2) show ?thesis by (force simp: goal_def)
  qed
  with r show ?thesis by blast
qed

definition example_input :: spend where
  "example_input = (new_input 0 [] 0 [] 0, None)"

definition example_coin :: "int \<Rightarrow> int \<Rightarrow> CoinSelectionEstimator" where
  "example_coin amount height = \<lparr>SpendInput = example_input, EffectiveAmount = amount, Fee = 10, Height = height\<rparr>"

theorem BranchAndBound_optimal_witness:
  "\<exists>sel' es picked. BranchAndBound (NewCoinSelector 8 2 ()) [example_coin 3 1, example_coin 7 1, example_coin 5 0]
      (coinSelectionAvailable [example_coin 3 1, example_coin 7 1, example_coin 5 0]) = Some (sel', es, picked) \<and>
     ExactMatch sel' \<and> total picked = 8"
proof -
  let ?coins = "[example_coin 3 1, example_coin 7 1, example_coin 5 0]" let ?sel = "NewCoinSelector 8 2 ()"
  have sel: "Target ?sel = 8" "CostOfChange ?sel = 2" "Tries ?sel = 0" by (simp_all add: NewCoinSelector_def)
  have "plain 8 2 ?coins" by (simp add: plain_def example_coin_def int64_max_def)
  then obtain sel' es picked where r: "BranchAndBound ?sel ?coins (coinSelectionAvailable ?coins) = Some (sel', es, picked)"
    and ok: "picked \<noteq> [] \<longrightarrow> mset picked \<subseteq># mset ?coins \<and> ExactMatch sel' \<and> 8 \<le> total picked \<and> total picked \<le> 8 + 2"
    and opt: "\<forall>coins. mset coins \<subseteq># mset ?coins \<and> 8 \<le> total coins \<and> total coins \<le> 8 + 2 \<longrightarrow> picked \<noteq> [] \<and> total picked \<le> total coins"
    using BranchAndBound_optimal [of ?sel ?coins, unfolded sel] by auto
  have "mset [example_coin 3 1, example_coin 5 0] \<subseteq># mset ?coins" "total [example_coin 3 1, example_coin 5 0] = 8"
    by (simp_all add: example_coin_def)
  with opt have "picked \<noteq> [] \<and> total picked \<le> 8" by (metis add_increasing2 order_refl zero_le_numeral)
  with r ok show ?thesis by force
qed

lemma draw_until_spec:
  assumes "\<And>ys zs. es = ys @ zs \<Longrightarrow> is_int64 (amount + total ys)"
  shows "case draw_until target amount es of
      None \<Rightarrow> es = [] \<or> amount + total es < target
    | Some sel \<Rightarrow> sel \<noteq> [] \<and> (\<exists>rest. es = sel @ rest) \<and> target \<le> amount + total sel"
  using assms
proof (induction es arbitrary: amount)
  case (Cons e es)
  have e: "wrap64 (amount + EffectiveAmount e) = amount + EffectiveAmount e"
    using Cons.prems [of "[e]" es] by simp
  have "is_int64 (amount + EffectiveAmount e + total ys)" if "es = ys @ zs" for ys zs
    using Cons.prems [of "e # ys" zs] that by (simp add: add.assoc)
  note IH = Cons.IH [OF this]
  show ?case
  proof (cases "target \<le> amount + EffectiveAmount e")
    case False
    with IH e show ?thesis by (cases es) (auto simp: Let_def add.assoc split: option.splits)
  qed (simp add: e Let_def)
qed simp


lemma closest_spec:
  assumes "\<And>e. e \<in> set es \<Longrightarrow> target \<le> EffectiveAmount e \<Longrightarrow> is_int64 (EffectiveAmount e - target)"
  shows "case closest target es best of
      None \<Rightarrow> best = None \<and> (\<forall>e\<in>set es. EffectiveAmount e < target)
    | Some (c, e) \<Rightarrow> (best = Some (c, e) \<or> e \<in> set es \<and> target \<le> EffectiveAmount e \<and> c = EffectiveAmount e - target) \<and>
        (\<forall>e'\<in>set es. target \<le> EffectiveAmount e' \<longrightarrow> c \<le> EffectiveAmount e' - target) \<and>
        (\<forall>c0 b. best = Some (c0, b) \<longrightarrow> c \<le> c0)"
  using assms
proof (induction es arbitrary: best)
  case (Cons x es)
  have IH: "case closest target es b of
      None \<Rightarrow> b = None \<and> (\<forall>e\<in>set es. EffectiveAmount e < target)
    | Some (c, e) \<Rightarrow> (b = Some (c, e) \<or> e \<in> set es \<and> target \<le> EffectiveAmount e \<and> c = EffectiveAmount e - target) \<and>
        (\<forall>e'\<in>set es. target \<le> EffectiveAmount e' \<longrightarrow> c \<le> EffectiveAmount e' - target) \<and>
        (\<forall>c0 b'. b = Some (c0, b') \<longrightarrow> c \<le> c0)" for b
    by (rule Cons.IH) (use Cons.prems in simp)
  show ?case
  proof (cases "EffectiveAmount x < target")
    case True
    with IH [of best] show ?thesis by (auto split: option.splits)
  next
    case False
    let ?c = "EffectiveAmount x - target"
    let ?b = "case best of None \<Rightarrow> Some (?c, x) | Some (smallestChange, _) \<Rightarrow> if ?c < smallestChange then Some (?c, x) else best"
    have "wrap64 ?c = ?c" using False Cons.prems [of x] by simp
    then have "closest target (x # es) best = closest target es ?b" using False by (simp add: Let_def)
    with IH [of ?b] False show ?thesis by (cases best) (auto split: option.splits if_splits)
  qed
qed (auto split: option.split)

text \<open>The contract of the strategies.\<close>

definition selection_ok :: "'r CoinSelector \<Rightarrow> CoinSelectionEstimator list \<Rightarrow> 'r selection option \<Rightarrow> bool" where
  "selection_ok sel estimators result \<longleftrightarrow>
     (case result of
        None \<Rightarrow> False
      | Some (sel', es, picked) \<Rightarrow> Target sel' = Target sel \<and> CostOfChange sel' = CostOfChange sel \<and>
          mset es = mset estimators \<and> mset picked \<subseteq># mset estimators \<and> (picked \<noteq> [] \<longrightarrow> Target sel \<le> total picked))"

definition picks :: "'r selection option \<Rightarrow> CoinSelectionEstimator list" where
  "picks result = (case result of Some (_, _, picked) \<Rightarrow> picked | None \<Rightarrow> [])"

lemma plain_mset: "mset es = mset fs \<Longrightarrow> plain t c es = plain t c fs"
  unfolding plain_def by (metis mset_eq_setD total_mset)

lemma plain_prefix:
  assumes "plain t c (ys @ zs)"
  shows "is_int64 (total ys)"
proof -
  have "0 \<le> total ys" "0 \<le> total zs"
    using assms unfolding total_def plain_def by (auto intro!: sum_list_nonneg)
  with assms show ?thesis by (intro is_int64I) (auto simp: plain_def)
qed

lemma plain_coin:
  assumes "plain t c es" "e \<in> set es"
  shows "0 \<le> EffectiveAmount e" "EffectiveAmount e \<le> int64_max"
proof -
  show "0 \<le> EffectiveAmount e" using assms by (simp add: plain_def)
  have "EffectiveAmount e \<le> total es"
    unfolding total_def using assms by (intro member_le_sum_list) (auto simp: plain_def)
  with assms show "EffectiveAmount e \<le> int64_max" by (simp add: plain_def)
qed

lemma plain_sum: "plain t c es \<Longrightarrow> wrap64 (t + c) = t + c" "plain t c es \<Longrightarrow> t \<le> t + c"
  by (auto simp: plain_def is_int64_def int64_min_def)

lemma sum_list_filter_le_nonneg: "(\<And>x. x \<in> set xs \<Longrightarrow> 0 \<le> (f x :: int)) \<Longrightarrow> sum_list (map f (filter P xs)) \<le> sum_list (map f xs)"
  by (induction xs) (auto intro: add_increasing)

lemma plain_filter:
  assumes "plain t c es"
  shows "plain t c (filter P es)"
proof -
  have "total (filter P es) \<le> total es"
    unfolding total_def using assms by (intro sum_list_filter_le_nonneg) (auto simp: plain_def)
  with assms show ?thesis by (auto simp: plain_def)
qed

lemma BranchAndBound_ok:
  "plain (Target sel) (CostOfChange sel) es \<Longrightarrow> selection_ok sel es (BranchAndBound sel es (coinSelectionAvailable es))"
  by (rule BranchAndBound_result [of sel es]) (auto simp: selection_ok_def)

lemma ClosestMatch_ok:
  assumes plain: "plain (Target sel) (CostOfChange sel) es"
  shows "selection_ok sel es (Some (ClosestMatch sel es))"
    "\<forall>e\<in>set (picks (Some (ClosestMatch sel es))). \<forall>e'\<in>set es. Target sel + CostOfChange sel \<le> EffectiveAmount e' \<longrightarrow> EffectiveAmount e \<le> EffectiveAmount e'"
    "picks (Some (ClosestMatch sel es)) = [] \<longleftrightarrow> (\<forall>e\<in>set es. EffectiveAmount e < Target sel + CostOfChange sel)"
proof -
  let ?t = "Target sel + CostOfChange sel"
  have t: "wrap64 ?t = ?t" "0 \<le> ?t" "?t \<le> int64_max" "Target sel \<le> ?t"
    using plain plain_sum [OF plain] by (auto simp: plain_def)
  have "e \<in> set es \<Longrightarrow> is_int64 (EffectiveAmount e - ?t)" for e
    using plain_coin [OF plain, of e] t by (intro is_int64_diff) auto
  note spec = closest_spec [of es ?t None, OF this]
  have "selection_ok sel es (Some (ClosestMatch sel es)) \<and>
    (\<forall>e\<in>set (picks (Some (ClosestMatch sel es))). \<forall>e'\<in>set es. ?t \<le> EffectiveAmount e' \<longrightarrow> EffectiveAmount e \<le> EffectiveAmount e') \<and>
    (picks (Some (ClosestMatch sel es)) = [] \<longleftrightarrow> (\<forall>e\<in>set es. EffectiveAmount e < ?t))"
  proof (cases "closest ?t es None")
    case None
    with spec t show ?thesis by (auto simp: ClosestMatch_def selection_ok_def picks_def)
  next
    case (Some ce)
    with spec obtain e where e: "closest ?t es None = Some (EffectiveAmount e - ?t, e)" "e \<in> set es" "?t \<le> EffectiveAmount e"
      "\<forall>e'\<in>set es. ?t \<le> EffectiveAmount e' \<longrightarrow> EffectiveAmount e - ?t \<le> EffectiveAmount e' - ?t"
      by (cases ce) auto
    then have "{#e#} \<subseteq># mset es" by simp
    with e t show ?thesis by (auto simp: ClosestMatch_def selection_ok_def picks_def not_less)
  qed
  then show "selection_ok sel es (Some (ClosestMatch sel es))"
    "\<forall>e\<in>set (picks (Some (ClosestMatch sel es))). \<forall>e'\<in>set es. ?t \<le> EffectiveAmount e' \<longrightarrow> EffectiveAmount e \<le> EffectiveAmount e'"
    "picks (Some (ClosestMatch sel es)) = [] \<longleftrightarrow> (\<forall>e\<in>set es. EffectiveAmount e < ?t)" by blast+
qed

context coin_random
begin

lemma RandomDraw_ok:
  assumes plain: "plain (Target sel) (CostOfChange sel) es" and ne: "es \<noteq> []"
  shows "selection_ok sel es (RandomDraw next sel es)"
    "Target sel + CostOfChange sel \<le> total es \<Longrightarrow> picks (RandomDraw next sel es) \<noteq> []"
proof -
  let ?t = "Target sel + CostOfChange sel"
  have "length es - 1 < length es" using ne by simp
  then obtain r' es' where s: "shuffle next (length es - 1) (random sel) es = Some (r', es')" "mset es' = mset es"
    using shuffle_permutes [of "length es - 1" es "random sel"] by blast
  have pl: "plain (Target sel) (CostOfChange sel) es'" using plain s(2) plain_mset by metis
  have spec: "case draw_until ?t 0 es' of None \<Rightarrow> es' = [] \<or> 0 + total es' < ?t
      | Some p \<Rightarrow> p \<noteq> [] \<and> (\<exists>rest. es' = p @ rest) \<and> ?t \<le> 0 + total p"
    using pl plain_prefix by (intro draw_until_spec) auto
  have "es' \<noteq> []" "total es' = total es" using s(2) ne total_mset [OF s(2)] by auto
  note facts = this spec s plain_sum [OF plain]
  show "selection_ok sel es (RandomDraw next sel es)"
    using facts by (auto simp: RandomDraw_def selection_ok_def Let_def split: option.splits simp flip: s(2))
  show "picks (RandomDraw next sel es) \<noteq> []" if "?t \<le> total es"
    using facts that by (auto simp: RandomDraw_def picks_def Let_def split: option.splits)
qed

lemma Standard_ok:
  assumes plain: "plain (Target sel) (CostOfChange sel) es" and ne: "es \<noteq> []"
  shows "selection_ok sel es (Standard next sel es (coinSelectionAvailable es))"
    "Target sel + CostOfChange sel \<le> total es \<Longrightarrow> picks (Standard next sel es (coinSelectionAvailable es)) \<noteq> []"
proof -
  obtain sel1 es1 picked where b: "BranchAndBound sel es (coinSelectionAvailable es) = Some (sel1, es1, picked)"
    "Target sel1 = Target sel" "CostOfChange sel1 = CostOfChange sel" "mset es1 = mset es" "mset picked \<subseteq># mset es"
    "picked \<noteq> [] \<longrightarrow> Target sel \<le> total picked"
    using BranchAndBound_ok [OF plain] by (auto simp: selection_ok_def split: option.splits)
  have pl: "plain (Target sel1) (CostOfChange sel1) es1" and ne1: "es1 \<noteq> []" and tot: "total es1 = total es"
    using plain b ne plain_mset [OF b(4)] total_mset [OF b(4)] by auto
  obtain picked2 where c: "ClosestMatch sel1 es1 = (sel1, es1, picked2)" by (simp add: ClosestMatch_def Let_def)
  note ok = ClosestMatch_ok(1) [OF pl] RandomDraw_ok [OF pl ne1]
  show "selection_ok sel es (Standard next sel es (coinSelectionAvailable es))"
    using ok b c by (auto simp: Standard_def selection_ok_def split: option.splits)
  show "picks (Standard next sel es (coinSelectionAvailable es)) \<noteq> []" if "Target sel + CostOfChange sel \<le> total es"
    using ok(3) b c that tot by (auto simp: Standard_def picks_def split: option.splits)
qed

end

context coin_random
begin

lemma OnlyConfirmed_ok:
  assumes plain: "plain (Target sel) (CostOfChange sel) es"
  shows "selection_ok sel es (OnlyConfirmed next sel es)" "\<forall>e\<in>set (picks (OnlyConfirmed next sel es)). 0 < Height e"
proof -
  let ?c = "filter (\<lambda>e. Height e > 0) es"
  have pl: "plain (Target sel) (CostOfChange sel) ?c" using plain by (rule plain_filter)
  have sub: "mset ?c \<subseteq># mset es" by simp
  show "selection_ok sel es (OnlyConfirmed next sel es)"
  proof (cases "?c = []")
    case False
    from Standard_ok(1) [OF pl this] sub show ?thesis
      by (auto simp: OnlyConfirmed_def selection_ok_def Let_def split: option.splits intro: subset_mset.order_trans)
  qed (simp add: OnlyConfirmed_def selection_ok_def)
  show "\<forall>e\<in>set (picks (OnlyConfirmed next sel es)). 0 < Height e"
  proof (cases "?c = [] \<or> Target sel > coinSelectionAvailable ?c")
    case False
    with Standard_ok(1) [OF pl] obtain s2 es2 picked where "Standard next sel ?c (coinSelectionAvailable ?c) = Some (s2, es2, picked)"
      "mset picked \<subseteq># mset ?c" by (auto simp: selection_ok_def split: option.splits)
    moreover from this(2) have "set picked \<subseteq> set ?c" by (metis mset_subset_eqD set_mset_mset subsetI)
    ultimately show ?thesis using False by (auto simp: OnlyConfirmed_def picks_def Let_def)
  qed (auto simp: OnlyConfirmed_def picks_def Let_def)
qed

lemma PreferConfirmed_ok:
  assumes plain: "plain (Target sel) (CostOfChange sel) es" and ne: "es \<noteq> []"
  shows "selection_ok sel es (PreferConfirmed next sel es (coinSelectionAvailable es))"
    "Target sel + CostOfChange sel \<le> total es \<Longrightarrow> picks (PreferConfirmed next sel es (coinSelectionAvailable es)) \<noteq> []"
proof -
  obtain sel1 picked where o: "OnlyConfirmed next sel es = Some (sel1, es, picked)"
    "Target sel1 = Target sel" "CostOfChange sel1 = CostOfChange sel" "mset picked \<subseteq># mset es" "picked \<noteq> [] \<longrightarrow> Target sel \<le> total picked"
    using OnlyConfirmed_ok(1) [OF plain]
    by (auto simp: selection_ok_def OnlyConfirmed_def Let_def split: option.splits if_splits)
  then have pl: "plain (Target sel1) (CostOfChange sel1) es" using plain by simp
  note ok = Standard_ok [OF pl ne]
  show "selection_ok sel es (PreferConfirmed next sel es (coinSelectionAvailable es))"
    using ok(1) o by (auto simp: PreferConfirmed_def selection_ok_def split: option.splits)
  show "picks (PreferConfirmed next sel es (coinSelectionAvailable es)) \<noteq> []" if "Target sel + CostOfChange sel \<le> total es"
    using ok(2) o that by (auto simp: PreferConfirmed_def picks_def)
qed

end

definition known_strategies :: "string list" where
  "known_strategies = ['''', ''standard'', ''prefer_confirmed'', ''only_confirmed'', ''branch_and_bound'', ''closest_match'', ''random_draw'']"

definition enough :: "'r CoinSelector \<Rightarrow> CoinSelectionEstimator list \<Rightarrow> bool" where
  "enough sel es \<longleftrightarrow> es \<noteq> [] \<and> Target sel \<le> total es"

lemma Select_enough:
  assumes "plain (Target sel) (CostOfChange sel) es"
  shows "\<not> enough sel es \<Longrightarrow> Select next sel es strategy = Some (Inr (sel, es, []))"
    "enough sel es \<Longrightarrow> strategy \<notin> set known_strategies \<Longrightarrow> Select next sel es strategy = Some (Inl (UnknownStrategy strategy))"
    "enough sel es \<Longrightarrow> Select next sel es '''' = map_option Inr (Standard next sel es (coinSelectionAvailable es))"
    "enough sel es \<Longrightarrow> Select next sel es ''standard'' = map_option Inr (Standard next sel es (coinSelectionAvailable es))"
    "enough sel es \<Longrightarrow> Select next sel es ''prefer_confirmed'' = map_option Inr (PreferConfirmed next sel es (coinSelectionAvailable es))"
    "enough sel es \<Longrightarrow> Select next sel es ''only_confirmed'' = map_option Inr (OnlyConfirmed next sel es)"
    "enough sel es \<Longrightarrow> Select next sel es ''branch_and_bound'' = map_option Inr (BranchAndBound sel es (coinSelectionAvailable es))"
    "enough sel es \<Longrightarrow> Select next sel es ''closest_match'' = Some (Inr (ClosestMatch sel es))"
    "enough sel es \<Longrightarrow> Select next sel es ''random_draw'' = map_option Inr (RandomDraw next sel es)"
proof -
  have "is_int64 (total es)" using plain_prefix [of _ _ es "[]"] assms by simp
  then have "coinSelectionAvailable es = total es" by (simp add: coinSelectionAvailable_total)
  then show "\<not> enough sel es \<Longrightarrow> Select next sel es strategy = Some (Inr (sel, es, []))"
    "enough sel es \<Longrightarrow> strategy \<notin> set known_strategies \<Longrightarrow> Select next sel es strategy = Some (Inl (UnknownStrategy strategy))"
    "enough sel es \<Longrightarrow> Select next sel es '''' = map_option Inr (Standard next sel es (coinSelectionAvailable es))"
    "enough sel es \<Longrightarrow> Select next sel es ''standard'' = map_option Inr (Standard next sel es (coinSelectionAvailable es))"
    "enough sel es \<Longrightarrow> Select next sel es ''prefer_confirmed'' = map_option Inr (PreferConfirmed next sel es (coinSelectionAvailable es))"
    "enough sel es \<Longrightarrow> Select next sel es ''only_confirmed'' = map_option Inr (OnlyConfirmed next sel es)"
    "enough sel es \<Longrightarrow> Select next sel es ''branch_and_bound'' = map_option Inr (BranchAndBound sel es (coinSelectionAvailable es))"
    "enough sel es \<Longrightarrow> Select next sel es ''closest_match'' = Some (Inr (ClosestMatch sel es))"
    "enough sel es \<Longrightarrow> Select next sel es ''random_draw'' = map_option Inr (RandomDraw next sel es)"
    by (auto simp: Select_def Let_def enough_def known_strategies_def not_less)
qed

lemma selection_result:
  assumes res: "Select next sel es strategy = map_option Inr r" "selection_ok sel es r"
      "strategy = ''only_confirmed'' \<longrightarrow> (\<forall>e\<in>set (picks r). 0 < Height e)"
      "strategy \<in> {'''', ''standard'', ''prefer_confirmed'', ''random_draw''} \<and> Target sel + CostOfChange sel \<le> total es \<longrightarrow> picks r \<noteq> []"
  shows "\<exists>sel' es' picked. Select next sel es strategy = Some (Inr (sel', es', picked)) \<and> mset es' = mset es \<and>
    mset picked \<subseteq># mset es \<and> (picked \<noteq> [] \<longrightarrow> Target sel \<le> total picked) \<and>
    (strategy = ''only_confirmed'' \<longrightarrow> (\<forall>e\<in>set picked. 0 < Height e)) \<and>
    (strategy \<in> {'''', ''standard'', ''prefer_confirmed'', ''random_draw''} \<and> es \<noteq> [] \<and> Target sel + CostOfChange sel \<le> total es \<longrightarrow>
       picked \<noteq> [])"
proof -
  obtain sel' es' picked where r: "r = Some (sel', es', picked)" using res(2) by (cases r) (auto simp: selection_ok_def)
  have ok: "mset es' = mset es" "mset picked \<subseteq># mset es" "picked \<noteq> [] \<longrightarrow> Target sel \<le> total picked"
    using res(2) by (simp_all add: r selection_ok_def)
  have picks: "picks r = picked" by (simp add: r picks_def)
  show ?thesis
  proof (intro exI conjI)
    show "Select next sel es strategy = Some (Inr (sel', es', picked))" using res(1) r by simp
    show "strategy = ''only_confirmed'' \<longrightarrow> (\<forall>e\<in>set picked. 0 < Height e)" using res(3) by (simp only: picks)
    show "strategy \<in> {'''', ''standard'', ''prefer_confirmed'', ''random_draw''} \<and> es \<noteq> [] \<and>
        Target sel + CostOfChange sel \<le> total es \<longrightarrow> picked \<noteq> []"
      using res(4) unfolding picks by argo
  qed (rule ok)+
qed

text \<open>
  C13. Whatever the source of random numbers, \<^verbatim>\<open>Select\<close> with a known strategy neither panics nor fails. It
  reorders the given coins and changes nothing else of them; what it picks is a part of the coins, no
  coin twice, and pays at least the target unless it is empty. \<^verbatim>\<open>only_confirmed\<close> picks confirmed coins only.
  The strategies that fall back on a random draw, \<^verbatim>\<open>standard\<close> (also under the empty name), \<^verbatim>\<open>prefer_confirmed\<close>
  and \<^verbatim>\<open>random_draw\<close>, pick something whenever the coins cover the target and the cost of change.
\<close>

theorem Select_correct:
  assumes "coin_random next" and plain: "plain (Target sel) (CostOfChange sel) es" and known: "strategy \<in> set known_strategies"
  shows "\<exists>sel' es' picked. Select next sel es strategy = Some (Inr (sel', es', picked)) \<and> mset es' = mset es \<and>
    mset picked \<subseteq># mset es \<and> (picked \<noteq> [] \<longrightarrow> Target sel \<le> total picked) \<and>
    (strategy = ''only_confirmed'' \<longrightarrow> (\<forall>e\<in>set picked. 0 < Height e)) \<and>
    (strategy \<in> {'''', ''standard'', ''prefer_confirmed'', ''random_draw''} \<and> es \<noteq> [] \<and> Target sel + CostOfChange sel \<le> total es \<longrightarrow>
       picked \<noteq> [])"
proof (cases "enough sel es")
  case False
  then have small: "es = [] \<or> total es < Target sel + CostOfChange sel" using plain by (auto simp: enough_def plain_def)
  show ?thesis
  proof (intro exI conjI)
    show "Select next sel es strategy = Some (Inr (sel, es, []))" using plain False by (rule Select_enough(1))
  qed (use small in \<open>simp_all add: not_le\<close>)
next
  case True
  then have ne: "es \<noteq> []" by (simp add: enough_def)
  note ok = coin_random.Standard_ok [OF assms(1) plain ne] coin_random.PreferConfirmed_ok [OF assms(1) plain ne]
    coin_random.OnlyConfirmed_ok [OF assms(1) plain] BranchAndBound_ok [OF plain] ClosestMatch_ok(1) [OF plain]
    coin_random.RandomDraw_ok [OF assms(1) plain ne]
  note select = Select_enough [OF plain]
  from known have "strategy = '''' \<or> strategy = ''standard'' \<or> strategy = ''prefer_confirmed'' \<or> strategy = ''only_confirmed'' \<or>
      strategy = ''branch_and_bound'' \<or> strategy = ''closest_match'' \<or> strategy = ''random_draw''"
    by (simp only: known_strategies_def list.set insert_iff empty_iff simp_thms)
  then show ?thesis
  proof (elim disjE)
    assume s: "strategy = ''''"
    show ?thesis by (rule selection_result) (use select(3) True ok(1,2) s in auto)
  next
    assume s: "strategy = ''standard''"
    show ?thesis by (rule selection_result) (use select(4) True ok(1,2) s in auto)
  next
    assume s: "strategy = ''prefer_confirmed''"
    show ?thesis by (rule selection_result) (use select(5) True ok(3,4) s in auto)
  next
    assume s: "strategy = ''only_confirmed''"
    show ?thesis by (rule selection_result) (use select(6) True ok(5,6) s in auto)
  next
    assume s: "strategy = ''branch_and_bound''"
    show ?thesis by (rule selection_result) (use select(7) True ok(7) s in auto)
  next
    assume s: "strategy = ''closest_match''"
    show ?thesis by (rule selection_result [where r = "Some (ClosestMatch sel es)"]) (use select(8) True ok(8) s in auto)
  next
    assume s: "strategy = ''random_draw''"
    show ?thesis by (rule selection_result) (use select(9) True ok(9,10) s in auto)
  qed
qed

theorem Select_correct_witness:
  "\<exists>sel' es' picked. Select Float64 (NewCoinSelectorWithSeed 8 2 5) [example_coin 3 1, example_coin 7 1] ''standard''
     = Some (Inr (sel', es', picked)) \<and> picked \<noteq> []"
proof -
  let ?sel = "NewCoinSelectorWithSeed 8 2 5" let ?es = "[example_coin 3 1, example_coin 7 1]"
  have t: "Target ?sel = 8" "CostOfChange ?sel = 2" by (simp_all add: NewCoinSelectorWithSeed_def NewCoinSelector_def)
  have pl: "plain (Target ?sel) (CostOfChange ?sel) ?es" by (simp add: t plain_def example_coin_def int64_max_def)
  have known: "''standard'' \<in> set known_strategies" by (simp add: known_strategies_def)
  from Select_correct [OF mt.coin_random_axioms pl known]
  obtain sel' es' picked where r: "Select Float64 ?sel ?es ''standard'' = Some (Inr (sel', es', picked))"
    and ne: "''standard'' \<in> {'''', ''standard'', ''prefer_confirmed'', ''random_draw''} \<and> ?es \<noteq> [] \<and>
      Target ?sel + CostOfChange ?sel \<le> total ?es \<longrightarrow> picked \<noteq> []"
    by (elim exE conjE) (rule that)
  have "picked \<noteq> []" by (rule ne [THEN mp]) (simp add: t example_coin_def)
  with r show ?thesis by (intro exI conjI)
qed

end
