(* ===== verification/Balancing.thy ===== *)
theory Balancing
  imports CoinSelection
begin

text \<open>
  Funding a transaction, \<^verbatim>\<open>wallet/transaction_balancing.go\<close>. The callbacks of the options are functions of
  a state \<open>'w\<close> of the wallet (databases, reservations, keys), which they return changed; the context is
  not part of them. A failing balance returns the transaction as far as it was built, since that is
  what the release callback is given.
\<close>

section \<open>Checked amounts\<close>

abbreviation (input) TransactionCoin :: int where "TransactionCoin \<equiv> 100000000"
abbreviation (input) TransactionDust :: int where "TransactionDust \<equiv> 1000"
abbreviation (input) TransactionBalancePasses :: nat where "TransactionBalancePasses \<equiv> 5"

datatype balance_error =
    AmountOutsideInt64 | AdditionOverflows | SubtractionOverflows | MultiplicationOverflows
  | CallbackRequired string | CallbackFailed string | UnattachedOutput nat | ScriptFailed script_error
  | InsufficientFunds | During string balance_error

definition during :: "string \<Rightarrow> balance_error + 'a \<Rightarrow> balance_error + 'a" where
  "during step r = (case r of Inl e \<Rightarrow> Inl (During step e) | Inr x \<Rightarrow> Inr x)"

definition transactionBalanceUint64 :: "u64 \<Rightarrow> balance_error + int" where
  "transactionBalanceUint64 v = (if is_int64 (uint v) then Inr (uint v) else Inl AmountOutsideInt64)"

definition addTransactionBalanceAmount :: "int \<Rightarrow> int \<Rightarrow> balance_error + int" where
  "addTransactionBalanceAmount left right = (if is_int64 (left + right) then Inr (left + right) else Inl AdditionOverflows)"

definition subtractTransactionBalanceAmount :: "int \<Rightarrow> int \<Rightarrow> balance_error + int" where
  "subtractTransactionBalanceAmount left right = (if is_int64 (left - right) then Inr (left - right) else Inl SubtractionOverflows)"

definition multiplyTransactionBalanceAmount :: "int \<Rightarrow> int \<Rightarrow> balance_error + int" where
  "multiplyTransactionBalanceAmount left right = (if is_int64 (left * right) then Inr (left * right) else Inl MultiplicationOverflows)"

section \<open>Fee policies\<close>

record TransactionFeePolicy =
  BaseFee :: "Building \<Rightarrow> balance_error + int"
  InputFee :: "TransactionInput \<Rightarrow> balance_error + int"
  OutputFee :: "TransactionOutput \<Rightarrow> balance_error + int"

definition TransactionFeePolicyFuncs ::
  "(Building \<Rightarrow> balance_error + int) option \<Rightarrow> (TransactionInput \<Rightarrow> balance_error + int) option \<Rightarrow>
   (TransactionOutput \<Rightarrow> balance_error + int) option \<Rightarrow> TransactionFeePolicy" where
  "TransactionFeePolicyFuncs base input out =
     \<lparr>BaseFee = (\<lambda>t. case base of None \<Rightarrow> Inl (CallbackRequired ''base fee'') | Some f \<Rightarrow> f t),
      InputFee = (\<lambda>i. case input of None \<Rightarrow> Inl (CallbackRequired ''input fee'') | Some f \<Rightarrow> f i),
      OutputFee = (\<lambda>u. case out of None \<Rightarrow> Inl (CallbackRequired ''output fee'') | Some f \<Rightarrow> f u)\<rparr>"

definition Legacy_BaseFee :: "int \<Rightarrow> Building \<Rightarrow> balance_error + int" where
  "Legacy_BaseFee feePerByte b = multiplyTransactionBalanceAmount (BaseSize b) feePerByte"

definition Legacy_InputFee :: "int \<Rightarrow> TransactionInput \<Rightarrow> balance_error + int" where
  "Legacy_InputFee feePerByte input = multiplyTransactionBalanceAmount (int (TransactionInput_Size input)) feePerByte"

definition Legacy_OutputFee :: "int \<Rightarrow> int \<Rightarrow> TransactionOutput \<Rightarrow> balance_error + int" where
  "Legacy_OutputFee feePerByte feePerNameCharacter out =
     (case Err (OutputScript out) of
        Some e \<Rightarrow> Inl (ScriptFailed e)
      | None \<Rightarrow>
          and_then (multiplyTransactionBalanceAmount (int (TransactionOutput_Size out)) feePerByte) (\<lambda>byteFee.
          and_then (if IsClaimName (OutputScript out)
                    then multiplyTransactionBalanceAmount (int (length (ClaimName (OutputScript out)))) feePerNameCharacter
                    else Inr 0) (\<lambda>nameFee.
            Inr (if nameFee > byteFee then nameFee else byteFee))))"

definition LegacyTransactionFeePolicy :: "int \<Rightarrow> int \<Rightarrow> TransactionFeePolicy" where
  "LegacyTransactionFeePolicy feePerByte feePerNameCharacter =
     \<lparr>BaseFee = Legacy_BaseFee feePerByte, InputFee = Legacy_InputFee feePerByte,
      OutputFee = Legacy_OutputFee feePerByte feePerNameCharacter\<rparr>"

section \<open>Costs and payments\<close>

definition add_output_cost :: "TransactionFeePolicy \<Rightarrow> TransactionOutput \<Rightarrow> balance_error + int \<Rightarrow> balance_error + int" where
  "add_output_cost policy out r = and_then r (\<lambda>cost.
     and_then (transactionBalanceUint64 (Amount out)) (\<lambda>amount.
     and_then (OutputFee policy out) (\<lambda>fee.
     and_then (addTransactionBalanceAmount amount fee) (\<lambda>amount'.
     addTransactionBalanceAmount cost amount'))))"

definition transactionInitialCost :: "Building \<Rightarrow> TransactionFeePolicy \<Rightarrow> balance_error + int" where
  "transactionInitialCost b policy = fold (add_output_cost policy) (Outputs (Tx b)) (BaseFee policy b)"

definition add_input_payment :: "TransactionFeePolicy \<Rightarrow> nat \<times> spend \<Rightarrow> balance_error + int \<Rightarrow> balance_error + int" where
  "add_input_payment policy s r = and_then r (\<lambda>payment.
     case s of (i, (input, resolved)) \<Rightarrow>
       (case resolved of
          None \<Rightarrow> Inl (UnattachedOutput i)
        | Some out \<Rightarrow>
            and_then (transactionBalanceUint64 (Amount out)) (\<lambda>amount.
            and_then (InputFee policy input) (\<lambda>fee.
            and_then (subtractTransactionBalanceAmount amount fee) (\<lambda>effectiveAmount.
            addTransactionBalanceAmount payment effectiveAmount)))))"

definition transactionInitialPayment :: "Building \<Rightarrow> TransactionFeePolicy \<Rightarrow> balance_error + int" where
  "transactionInitialPayment b policy = fold (add_input_payment policy) (enumerate 0 (spends b)) (Inr 0)"

definition dummyChange :: TransactionOutput where
  "dummyChange = NewPayPubKeyHashOutput (of_int TransactionCoin) (replicate 32 0)"

definition transactionChangeCost :: "Building \<Rightarrow> TransactionFeePolicy \<Rightarrow> balance_error + int" where
  "transactionChangeCost b policy =
     and_then (BaseFee policy b) (\<lambda>baseFee. and_then (OutputFee policy dummyChange) (\<lambda>outputFee.
       addTransactionBalanceAmount baseFee outputFee))"

section \<open>The balance loop\<close>

record 'w TransactionBalanceOptions =
  OptInputs :: "spend list"
  OptOutputs :: "TransactionOutput list"
  Validate :: "(Building \<Rightarrow> string option) option"
  FeePolicy :: "TransactionFeePolicy option"
  SelectSpendables :: "('w \<Rightarrow> int \<Rightarrow> 'w \<times> (string + TransactionSpendable list)) option"
  ChangeAddress :: "('w \<Rightarrow> 'w \<times> (string + string)) option"
  AddressHash :: "('w \<Rightarrow> string \<Rightarrow> 'w \<times> (string + bytes)) option"
  Signer :: "('w \<Rightarrow> Building \<Rightarrow> 'w \<times> Building \<times> string option) option"
  Release :: "('w \<Rightarrow> Building \<Rightarrow> 'w \<times> string option) option"
  SkipSigning :: bool

type_synonym ('w, 'a) balancing = "'w \<times> Building \<times> (balance_error + 'a)"

definition attachTransactionSpendables :: "TransactionSpendable list \<Rightarrow> Building \<Rightarrow> Building" where
  "attachTransactionSpendables spendables b = AddInputs (map SpendInput spendables) b"

definition add_effective :: "TransactionSpendable \<Rightarrow> balance_error + int \<Rightarrow> balance_error + int" where
  "add_effective s r = and_then r (\<lambda>payment. addTransactionBalanceAmount payment (EffectiveAmount s))"

text \<open>The first half of a pass: when the payment does not cover the cost, more inputs are selected.\<close>

definition fund :: "'w TransactionBalanceOptions \<Rightarrow> 'w \<Rightarrow> Building \<Rightarrow> int \<Rightarrow> int \<Rightarrow> ('w, int) balancing" where
  "fund options w b cost payment =
     (if payment < cost then
        (case SelectSpendables options of
           None \<Rightarrow> (w, b, Inl (CallbackRequired ''spendable selector''))
         | Some select \<Rightarrow>
             (case subtractTransactionBalanceAmount cost payment of
                Inl e \<Rightarrow> (w, b, Inl e)
              | Inr deficit \<Rightarrow>
                  (case select w deficit of
                     (w', Inl e) \<Rightarrow> (w', b, Inl (During ''select spendables'' (CallbackFailed e)))
                   | (w', Inr spendables) \<Rightarrow>
                       if length spendables = 0 then (w', b, Inl InsufficientFunds)
                       else (w', attachTransactionSpendables spendables b, fold add_effective spendables (Inr payment)))))
      else (w, b, Inr payment))"

text \<open>The second half: what is paid too much is returned, unless it is dust. The result is the cost of change.\<close>

definition give_change :: "'w TransactionBalanceOptions \<Rightarrow> TransactionFeePolicy \<Rightarrow> 'w \<Rightarrow> Building \<Rightarrow> int \<Rightarrow> int \<Rightarrow> ('w, int) balancing" where
  "give_change options policy w b cost payment =
     (case during ''change cost'' (transactionChangeCost b policy) of
        Inl e \<Rightarrow> (w, b, Inl e)
      | Inr costOfChange \<Rightarrow>
          if payment > cost then
            (case and_then (subtractTransactionBalanceAmount payment cost)
                    (\<lambda>change. subtractTransactionBalanceAmount change costOfChange) of
               Inl e \<Rightarrow> (w, b, Inl e)
             | Inr changeAmount \<Rightarrow>
                 if changeAmount > TransactionDust then
                   (case ChangeAddress options of
                      None \<Rightarrow> (w, b, Inl (CallbackRequired ''change address''))
                    | Some changeAddress \<Rightarrow>
                        (case AddressHash options of
                           None \<Rightarrow> (w, b, Inl (CallbackRequired ''address hash''))
                         | Some addressHash \<Rightarrow>
                             (case changeAddress w of
                                (w1, Inl e) \<Rightarrow> (w1, b, Inl (During ''change address'' (CallbackFailed e)))
                              | (w1, Inr address) \<Rightarrow>
                                  (case addressHash w1 address of
                                     (w2, Inl e) \<Rightarrow> (w2, b, Inl (During ''change address hash'' (CallbackFailed e)))
                                   | (w2, Inr pubKeyHash) \<Rightarrow>
                                       (w2, AddOutputs [NewPayPubKeyHashOutput (of_int changeAmount) pubKeyHash] b, Inr costOfChange)))))
                 else (w, b, Inr costOfChange))
          else (w, b, Inr costOfChange))"

fun balance_passes :: "'w TransactionBalanceOptions \<Rightarrow> TransactionFeePolicy \<Rightarrow> nat \<Rightarrow> 'w \<Rightarrow> Building \<Rightarrow> int \<Rightarrow> int \<Rightarrow> ('w, unit) balancing" where
  "balance_passes options policy 0 w b cost payment = (w, b, Inr ())"
| "balance_passes options policy (Suc left) w b cost payment =
     (case fund options w b cost payment of
        (w1, b1, Inl e) \<Rightarrow> (w1, b1, Inl e)
      | (w1, b1, Inr payment1) \<Rightarrow>
          (case give_change options policy w1 b1 cost payment1 of
             (w2, b2, Inl e) \<Rightarrow> (w2, b2, Inl e)
           | (w2, b2, Inr costOfChange) \<Rightarrow>
               if length (Outputs (Tx b2)) > 0 then (w2, b2, Inr ())
               else
                 (case and_then (addTransactionBalanceAmount cost costOfChange) (\<lambda>c. addTransactionBalanceAmount c 1) of
                    Inl e \<Rightarrow> (w2, b2, Inl e)
                  | Inr cost' \<Rightarrow> balance_passes options policy left w2 b2 cost' payment1)))"

definition sign :: "'w TransactionBalanceOptions \<Rightarrow> 'w \<Rightarrow> Building \<Rightarrow> ('w, unit) balancing" where
  "sign options w b =
     (if SkipSigning options then (w, b, Inr ())
      else
        (case Signer options of
           None \<Rightarrow> (w, b, Inl (CallbackRequired ''signer''))
         | Some signer \<Rightarrow>
             (case signer w b of
                (w', b', Some e) \<Rightarrow> (w', b', Inl (During ''sign transaction'' (CallbackFailed e)))
              | (w', b', None) \<Rightarrow> (w', b', Inr ()))))"

definition balanceAndSignTransaction ::
  "'w TransactionBalanceOptions \<Rightarrow> TransactionFeePolicy \<Rightarrow> 'w \<Rightarrow> Building \<Rightarrow> int \<Rightarrow> int \<Rightarrow> ('w, unit) balancing" where
  "balanceAndSignTransaction options policy w b cost payment =
     (case balance_passes options policy TransactionBalancePasses w b cost payment of
        (w1, b1, Inl e) \<Rightarrow> (w1, b1, Inl e)
      | (w1, b1, Inr _) \<Rightarrow> sign options w1 b1)"

definition release :: "'w TransactionBalanceOptions \<Rightarrow> 'w \<Rightarrow> Building \<Rightarrow> balance_error \<Rightarrow> 'w \<times> balance_error" where
  "release options w b e =
     (case Release options of
        None \<Rightarrow> (w, e)
      | Some f \<Rightarrow> (case f w b of (w', None) \<Rightarrow> (w', e) | (w', Some releaseErr) \<Rightarrow> (w', CallbackFailed releaseErr)))"

definition CreateBalancedTransaction :: "'w TransactionBalanceOptions \<Rightarrow> 'w \<Rightarrow> 'w \<times> (balance_error + Building)" where
  "CreateBalancedTransaction options w =
     (let b = AddOutputs (OptOutputs options) (AddInputs (OptInputs options) NewTransaction)
      in case (case Validate options of None \<Rightarrow> None | Some f \<Rightarrow> f b) of
           Some e \<Rightarrow> (w, Inl (CallbackFailed e))
         | None \<Rightarrow>
             (case FeePolicy options of
                None \<Rightarrow> (w, Inl (CallbackRequired ''fee policy''))
              | Some policy \<Rightarrow>
                  (case and_then (during ''initial cost'' (transactionInitialCost b policy))
                          (\<lambda>cost. and_then (during ''initial payment'' (transactionInitialPayment b policy)) (\<lambda>payment. Inr (cost, payment))) of
                     Inl e \<Rightarrow> (w, Inl e)
                   | Inr (cost, payment) \<Rightarrow>
                       (case balanceAndSignTransaction options policy w b cost payment of
                          (w1, b1, Inr _) \<Rightarrow> (w1, Inr b1)
                        | (w1, b1, Inl e) \<Rightarrow> (case release options w1 b1 e of (w2, e') \<Rightarrow> (w2, Inl e'))))))"

section \<open>What the fees come to\<close>

lemma amount_Inr [simp]:
  "addTransactionBalanceAmount x y = Inr z \<longleftrightarrow> z = x + y \<and> is_int64 z"
  "subtractTransactionBalanceAmount x y = Inr z \<longleftrightarrow> z = x - y \<and> is_int64 z"
  "multiplyTransactionBalanceAmount x y = Inr z \<longleftrightarrow> z = x * y \<and> is_int64 z"
  "transactionBalanceUint64 v = Inr z \<longleftrightarrow> z = uint v \<and> is_int64 z"
  by (auto simp: addTransactionBalanceAmount_def subtractTransactionBalanceAmount_def
      multiplyTransactionBalanceAmount_def transactionBalanceUint64_def)

definition legacy_fee :: "int \<Rightarrow> int \<Rightarrow> TransactionOutput \<Rightarrow> int" where
  "legacy_fee f g out =
     (let byteFee = int (TransactionOutput_Size out) * f;
          nameFee = (if IsClaimName (OutputScript out) then int (length (ClaimName (OutputScript out))) * g else 0)
      in max nameFee byteFee)"

lemma Legacy_OutputFee_Inr: "Legacy_OutputFee f g out = Inr fee \<Longrightarrow> fee = legacy_fee f g out"
  by (auto simp: Legacy_OutputFee_def legacy_fee_def Let_def and_then_Inr split: option.splits if_splits)

lemma legacy_fee_bytes: "int (TransactionOutput_Size out) * f \<le> legacy_fee f g out"
  by (simp add: legacy_fee_def Let_def)

definition output_fees :: "int \<Rightarrow> int \<Rightarrow> TransactionOutput list \<Rightarrow> int" where
  "output_fees f g outs = (\<Sum>u\<leftarrow>outs. legacy_fee f g u)"

lemma fold_add_output_cost:
  "fold (add_output_cost (LegacyTransactionFeePolicy f g)) outs r = Inr cost \<Longrightarrow>
     \<exists>c. r = Inr c \<and> cost = c + (\<Sum>u\<leftarrow>outs. uint (Amount u)) + output_fees f g outs"
proof (induction outs arbitrary: r)
  case (Cons u outs)
  then obtain c where c: "add_output_cost (LegacyTransactionFeePolicy f g) u r = Inr c"
    "cost = c + (\<Sum>u\<leftarrow>outs. uint (Amount u)) + output_fees f g outs" by (metis fold_simps(2))
  from c(1) obtain c0 where "r = Inr c0" "c = c0 + (uint (Amount u) + legacy_fee f g u)"
    by (auto simp: add_output_cost_def and_then_Inr LegacyTransactionFeePolicy_def dest!: Legacy_OutputFee_Inr)
  with c(2) show ?case by (simp add: output_fees_def)
qed (simp add: output_fees_def)

lemma transactionInitialCost_legacy:
  assumes "transactionInitialCost b (LegacyTransactionFeePolicy f g) = Inr cost"
  shows "cost = BaseSize b * f + out_total b + output_fees f g (Outputs (Tx b))"
  using fold_add_output_cost [OF assms [unfolded transactionInitialCost_def]]
  by (auto simp: LegacyTransactionFeePolicy_def Legacy_BaseFee_def out_total_def)

lemma fold_add_input_payment:
  "fold (add_input_payment (LegacyTransactionFeePolicy f g)) (enumerate n ss) r = Inr payment \<Longrightarrow>
     (\<forall>s\<in>set ss. snd s \<noteq> None) \<and>
     (\<exists>p. r = Inr p \<and> payment = p + (\<Sum>s\<leftarrow>ss. case snd s of Some out \<Rightarrow> uint (Amount out) | None \<Rightarrow> 0)
        - (\<Sum>s\<leftarrow>ss. int (TransactionInput_Size (fst s))) * f)"
proof (induction ss arbitrary: n r)
  case (Cons s ss)
  from Cons.prems have "fold (add_input_payment (LegacyTransactionFeePolicy f g)) (enumerate (Suc n) ss)
      (add_input_payment (LegacyTransactionFeePolicy f g) (n, s) r) = Inr payment" by simp
  from Cons.IH [OF this] obtain p where p: "add_input_payment (LegacyTransactionFeePolicy f g) (n, s) r = Inr p"
    "payment = p + (\<Sum>s\<leftarrow>ss. case snd s of Some out \<Rightarrow> uint (Amount out) | None \<Rightarrow> 0) - (\<Sum>s\<leftarrow>ss. int (TransactionInput_Size (fst s))) * f"
    "\<forall>s\<in>set ss. snd s \<noteq> None"
    by blast
  from p(1) obtain p0 out where "r = Inr p0" "snd s = Some out" "p = p0 + (uint (Amount out) - int (TransactionInput_Size (fst s)) * f)"
    by (cases s; cases "snd s") (auto simp: add_input_payment_def and_then_Inr LegacyTransactionFeePolicy_def Legacy_InputFee_def)
  with p show ?case by (simp add: algebra_simps)
qed simp

lemma transactionInitialPayment_legacy:
  assumes "transactionInitialPayment b (LegacyTransactionFeePolicy f g) = Inr payment" and "paired b"
  shows "payment = in_total b - in_size b * f" "None \<notin> set (Resolved b)"
proof -
  note r = fold_add_input_payment [OF assms(1) [unfolded transactionInitialPayment_def]]
  have fst: "map fst (spends b) = Inputs (Tx b)" and snd: "map snd (spends b) = Resolved b"
    using assms(2) by (simp_all add: spends_def paired_def)
  have "in_total b = (\<Sum>s\<leftarrow>spends b. case snd s of Some out \<Rightarrow> uint (Amount out) | None \<Rightarrow> 0)"
    unfolding in_total_def snd [symmetric] by (simp add: comp_def)
  moreover have "in_size b = (\<Sum>s\<leftarrow>spends b. int (TransactionInput_Size (fst s)))"
    unfolding in_size_def fst [symmetric] by (simp add: comp_def)
  ultimately show "payment = in_total b - in_size b * f" using r by simp
  show "None \<notin> set (Resolved b)" using r unfolding snd [symmetric] by (metis (no_types, lifting) imageE list.set_map)
qed

lemma fold_add_effective: "fold add_effective ss r = Inr payment \<Longrightarrow> \<exists>p. r = Inr p \<and> payment = p + (\<Sum>s\<leftarrow>ss. EffectiveAmount s)"
proof (induction ss arbitrary: r)
  case (Cons s ss)
  then obtain p where p: "add_effective s r = Inr p" "payment = p + (\<Sum>s\<leftarrow>ss. EffectiveAmount s)" by (metis fold_simps(2))
  then show ?case by (auto simp: add_effective_def and_then_Inr)
qed simp

text \<open>A pay-to-key-hash output with a hash of up to 75 bytes takes \<open>14 + length hash\<close> bytes; the placeholder 46.\<close>

lemma NewPayPubKeyHashOutput_size:
  assumes "length h < 76"
  shows "TransactionOutput_Size (NewPayPubKeyHashOutput a h) = 14 + length h"
    "\<not> IsClaimName (OutputScript (NewPayPubKeyHashOutput a h))" "Amount (NewPayPubKeyHashOutput a h) = a"
proof -
  have "length h < 256 \<Longrightarrow> length (writeTransactionVarBytes v) = Suc (length v)" if "length v < 253" for v
    using that by (simp add: writeTransactionVarBytes_def writeTransactionCompactSize_def word_less_nat_alt unsigned_of_nat take_bit_nat_eq_self)
  then have var: "length (writeTransactionVarBytes v) = Suc (length v)" if "length v < 253" for v using that assms by simp
  have script: "NewPayPubKeyHashOutputScript h = Inr (empty_output_script\<lparr>Template := TransactionScriptPayPubKeyHash, PubKeyHash := h,
      Source := [transactionOpDup, transactionOpHash160] @ of_nat (length h) # h @ [transactionOpEqualVerify, transactionOpCheckSig],
      HasPubKeyHash := True\<rparr>)"
    using assms by (simp add: NewPayPubKeyHashOutputScript_def GenerateOutputScript_def generateTransactionPayPubKeyHash_def builder_push_def
        encodeTransactionPushData_def finish_output_def empty_output_script_def Let_def)
  show "TransactionOutput_Size (NewPayPubKeyHashOutput a h) = 14 + length h"
    using assms by (simp add: NewPayPubKeyHashOutput_def script script_or_error_def new_output_def TransactionOutput_Size_def writeTransactionOutput_def var)
  show "\<not> IsClaimName (OutputScript (NewPayPubKeyHashOutput a h))" "Amount (NewPayPubKeyHashOutput a h) = a"
    by (simp_all add: NewPayPubKeyHashOutput_def script script_or_error_def new_output_def IsClaimName_def)
qed

section \<open>The passes\<close>

text \<open>What the balance relies on, in the states of the wallet that satisfy \<open>I\<close>: the selector returns unsigned
  spends with their effective amounts, worth at least the deficit as long as their worth fits 64 bits,
  and addresses have hashes of at most 32 bytes. Every callback stays in these states. The callbacks of
  a wallet are shown to keep this in \<open>Payment\<close>.\<close>

definition spendable_ok :: "int \<Rightarrow> TransactionSpendable \<Rightarrow> bool" where
  "spendable_ok f s \<longleftrightarrow> (\<exists>input out. SpendInput s = (input, Some out) \<and> attached (SpendInput s) \<and>
     EffectiveAmount s = uint (Amount out) - int (TransactionInput_Size input) * f \<and>
     TransactionInput_Size input \<le> 148 \<and> unsigned_script (InputScript input))"

definition worth :: "TransactionSpendable list \<Rightarrow> int" where
  "worth ss = (\<Sum>s\<leftarrow>ss. EffectiveAmount s)"

definition callbacks_ok :: "('w \<Rightarrow> bool) \<Rightarrow> int \<Rightarrow> 'w TransactionBalanceOptions \<Rightarrow> bool" where
  "callbacks_ok I f options \<longleftrightarrow>
     (\<forall>select w d w' r. SelectSpendables options = Some select \<longrightarrow> I w \<longrightarrow> select w d = (w', r) \<longrightarrow> I w' \<and>
        (\<forall>ss. r = Inr ss \<longrightarrow> ss \<noteq> [] \<longrightarrow> 0 < d \<longrightarrow> d + 46 * f \<le> int64_max \<longrightarrow>
           (\<forall>s\<in>set ss. spendable_ok f s) \<and> (is_int64 (worth ss) \<longrightarrow> d \<le> worth ss))) \<and>
     (\<forall>change w w' r. ChangeAddress options = Some change \<longrightarrow> I w \<longrightarrow> change w = (w', r) \<longrightarrow> I w') \<and>
     (\<forall>hash w a w' r. AddressHash options = Some hash \<longrightarrow> I w \<longrightarrow> hash w a = (w', r) \<longrightarrow> I w' \<and> (\<forall>h. r = Inr h \<longrightarrow> length h \<le> 32))"

lemmas callbacks_okD = callbacks_ok_def [THEN iffD1, THEN conjunct1, rule_format]
  callbacks_ok_def [THEN iffD1, THEN conjunct2, THEN conjunct1, rule_format]
  callbacks_ok_def [THEN iffD1, THEN conjunct2, THEN conjunct2, rule_format]

definition input_sizes :: "spend list \<Rightarrow> int" where
  "input_sizes ss = (\<Sum>s\<leftarrow>ss. int (TransactionInput_Size (refreshed s)))"

text \<open>The state of the loop: the payment is what the inputs are worth, every selected input takes at most 148
  bytes, and all inputs wait for their signature when the supplied ones do.\<close>

definition unsigned :: "Building \<Rightarrow> bool" where
  "unsigned b \<longleftrightarrow> (\<forall>script\<in>set (input_scripts b). unsigned_script script)"

definition funded :: "int \<Rightarrow> spend list \<Rightarrow> Building \<Rightarrow> int \<Rightarrow> bool" where
  "funded f supplied b payment \<longleftrightarrow> fresh b \<and> None \<notin> set (Resolved b) \<and> payment = in_total b - in_size b * f \<and>
     in_size b \<le> input_sizes supplied + 148 * (int (length (Inputs (Tx b))) - int (length supplied)) \<and>
     ((\<forall>s\<in>set supplied. unsigned_script (InputScript (fst s))) \<longrightarrow> unsigned b)"

definition grows :: "Building \<Rightarrow> Building \<Rightarrow> bool" where
  "grows b b' \<longleftrightarrow> (paired b \<longrightarrow> paired b' \<and> length (Inputs (Tx b)) \<le> length (Inputs (Tx b')) \<and> length (Outputs (Tx b)) \<le> length (Outputs (Tx b'))) \<and>
     in_total b \<le> in_total b'"

lemma grows_refl [simp]: "grows b b" and grows_trans: "grows a b \<Longrightarrow> grows b c \<Longrightarrow> grows a c"
  by (auto simp: grows_def)

lemma in_total_nonneg: "0 \<le> in_total b"
  unfolding in_total_def by (auto intro!: sum_list_nonneg split: option.split)

lemma grows_Add [simp]: "grows b (AddInputs ss b)" "grows b (AddOutputs us b)"
proof -
  have "0 \<le> (\<Sum>r\<leftarrow>map snd ss. case r of Some out \<Rightarrow> uint (Amount out) | None \<Rightarrow> 0)"
    by (auto intro!: sum_list_nonneg split: option.split)
  then have "in_total b \<le> in_total (AddInputs ss b)" by (simp add: in_total_def)
  then show "grows b (AddInputs ss b)" "grows b (AddOutputs us b)"
    by (simp_all add: grows_def AddInputs_lengths AddOutputs_lengths in_total_def)
qed

lemma fund_grows: "fund options w b cost payment = (w', b', r) \<Longrightarrow> grows b b'"
  by (auto simp: fund_def attachTransactionSpendables_def split: if_splits option.splits sum.splits prod.splits)

lemma give_change_grows: "give_change options policy w b cost payment = (w', b', r) \<Longrightarrow> grows b b'"
  by (auto simp: give_change_def split: if_splits option.splits sum.splits prod.splits)

lemma balance_passes_grows: "balance_passes options policy left w b cost payment = (w', b', r) \<Longrightarrow> grows b b'"
proof (induction left arbitrary: w b cost payment)
  case (Suc left)
  obtain w1 b1 r1 where f: "fund options w b cost payment = (w1, b1, r1)" by (metis prod_cases3)
  show ?case
  proof (cases r1)
    case (Inl e)
    with Suc.prems f show ?thesis by (auto dest: fund_grows)
  next
    case (Inr p)
    obtain w2 b2 r2 where c: "give_change options policy w1 b1 cost p = (w2, b2, r2)" by (metis prod_cases3)
    have g: "grows b b2" using fund_grows [OF f] give_change_grows [OF c] by (rule grows_trans)
    show ?thesis
      using Suc.prems f c Inr g Suc.IH [of w2 b2] grows_trans [OF g]
      by (auto split: sum.splits if_splits)
  qed
qed simp

lemma transactionChangeCost_legacy:
  assumes "transactionChangeCost b (LegacyTransactionFeePolicy f g) = Inr c" "BaseSize b = 10" "0 \<le> f"
  shows "c = 56 * f"
proof -
  have "legacy_fee f g dummyChange = 46 * f"
    using NewPayPubKeyHashOutput_size [of "replicate 32 0" "of_int 100000000"] assms(3)
    by (simp add: legacy_fee_def Let_def dummyChange_def)
  then show ?thesis
    using assms(1,2) by (auto simp: transactionChangeCost_def LegacyTransactionFeePolicy_def and_then_Inr Legacy_BaseFee_def dest!: Legacy_OutputFee_Inr)
qed

definition few :: "Building \<Rightarrow> bool" where
  "few b \<longleftrightarrow> length (Inputs (Tx b)) < 253 \<and> length (Outputs (Tx b)) < 253"

lemma few_small: "few b \<Longrightarrow> small b"
  by (simp add: few_def small_def)

lemma few_grows: "grows b b' \<Longrightarrow> paired b \<Longrightarrow> few b' \<Longrightarrow> few b"
  by (auto simp: grows_def few_def)

text \<open>Everything the loop adds up fits 64 bits.\<close>

definition in_range :: "int \<Rightarrow> spend list \<Rightarrow> Building \<Rightarrow> bool" where
  "in_range f supplied b \<longleftrightarrow> in_total b \<le> int64_max \<and> f * (input_sizes supplied + 148 * int (length (Inputs (Tx b)))) \<le> int64_max"

lemma in_range_grows: "grows b b' \<Longrightarrow> paired b \<Longrightarrow> 0 \<le> f \<Longrightarrow> in_range f supplied b' \<Longrightarrow> in_range f supplied b"
proof -
  assume g: "grows b b'" "paired b" and f: "0 \<le> f" and r: "in_range f supplied b'"
  have "f * (input_sizes supplied + 148 * int (length (Inputs (Tx b)))) \<le> f * (input_sizes supplied + 148 * int (length (Inputs (Tx b'))))"
    using g f by (intro mult_left_mono) (auto simp: grows_def)
  with g r show ?thesis by (simp add: in_range_def grows_def)
qed

lemma worth_effect:
  assumes ok: "\<forall>s\<in>set ss. spendable_ok f s" and fr: "fresh b" and b': "b' = AddInputs (map SpendInput ss) b" and small: "small b'"
  shows "worth ss = (in_total b' - in_total b) - (in_size b' - in_size b) * f" "in_size b' \<le> in_size b + 148 * int (length ss)"
    "in_size b \<le> in_size b'"
proof -
  note eff = AddInputs_effect [OF fr, of "map SpendInput ss", folded b', OF small]
  have "map (\<lambda>s. EffectiveAmount s) ss = map (\<lambda>s. (case snd (SpendInput s) of Some out \<Rightarrow> uint (Amount out) | None \<Rightarrow> 0) -
      int (TransactionInput_Size (refreshed (SpendInput s))) * f) ss"
    using ok by (auto simp: spendable_ok_def refreshed_attached)
  then have "worth ss = (\<Sum>s\<leftarrow>ss. (case snd (SpendInput s) of Some out \<Rightarrow> uint (Amount out) | None \<Rightarrow> 0) -
      int (TransactionInput_Size (refreshed (SpendInput s))) * f)" unfolding worth_def by (rule arg_cong)
  also have "\<dots> = (in_total b' - in_total b) - (in_size b' - in_size b) * f"
    unfolding eff(4) in_total_def eff(2) by (simp add: comp_def sum_list_subtractf sum_list_mult_const)
  finally show "worth ss = (in_total b' - in_total b) - (in_size b' - in_size b) * f" .
  have "int (TransactionInput_Size (refreshed (SpendInput s))) \<le> 148" if "s \<in> set ss" for s
    using ok that by (fastforce simp: spendable_ok_def refreshed_attached)
  then have "(\<Sum>s\<leftarrow>ss. int (TransactionInput_Size (refreshed (SpendInput s)))) \<le> (\<Sum>s\<leftarrow>ss. 148)" by (rule sum_list_mono)
  moreover have "0 \<le> (\<Sum>s\<leftarrow>ss. int (TransactionInput_Size (refreshed (SpendInput s))))" by (rule sum_list_nonneg) auto
  ultimately show "in_size b' \<le> in_size b + 148 * int (length ss)" "in_size b \<le> in_size b'" using eff(4) by (simp_all add: comp_def sum_list_triv)
qed

lemma fund_ok:
  assumes funded: "funded f supplied b payment" and ok: "callbacks_ok I f options" "I w" and f: "0 \<le> f" and small: "small b'"
    and range: "cost - payment + 46 * f \<le> int64_max" "in_range f supplied b'"
    and fund: "fund options w b cost payment = (w', b', Inr payment')"
  shows "I w' \<and> funded f supplied b' payment' \<and> cost \<le> payment' \<and> map placed (Outputs (Tx b')) = map placed (Outputs (Tx b))"
proof (cases "payment < cost")
  case False
  with fund funded ok(2) show ?thesis by (simp add: fund_def)
next
  case True
  with fund obtain select ss where select: "SelectSpendables options = Some select" "select w (cost - payment) = (w', Inr ss)" "ss \<noteq> []"
    and b': "b' = AddInputs (map SpendInput ss) b" and p: "fold add_effective ss (Inr payment) = Inr payment'"
    by (auto simp: fund_def attachTransactionSpendables_def subtractTransactionBalanceAmount_def split: option.splits sum.splits if_splits prod.splits)
  from callbacks_okD(1) [OF ok(1) select(1) ok(2) select(2)] select(3) True range(1) have I: "I w'" and sp: "\<forall>s\<in>set ss. spendable_ok f s"
    and sum: "is_int64 (worth ss) \<Longrightarrow> cost - payment \<le> worth ss" by auto
  have pay: "payment' = payment + worth ss" using fold_add_effective [OF p] by (simp add: worth_def)
  have fr: "fresh b" and paired: "paired b" using funded by (simp_all add: funded_def fresh_def)
  note eff = AddInputs_effect [OF fr, of "map SpendInput ss", folded b', OF small]
  note w = worth_effect [OF sp fr b' small]
  have len: "length (Inputs (Tx b')) = length (Inputs (Tx b)) + length ss" using AddInputs_lengths(1) [OF paired] by (simp add: b')
  have size: "in_size b' \<le> input_sizes supplied + 148 * (int (length (Inputs (Tx b'))) - int (length supplied))"
    using w(2) funded by (simp add: funded_def len)
  have "0 \<le> in_size b" unfolding in_size_def by (auto intro!: sum_list_nonneg)
  then have "(in_size b' - in_size b) * f \<le> f * (input_sizes supplied + 148 * int (length (Inputs (Tx b'))))"
    using size f by (subst mult.commute) (intro mult_left_mono, auto)
  moreover have "0 \<le> (in_size b' - in_size b) * f" using w(3) f by simp
  moreover have "in_total b \<le> in_total b'" using grows_Add(1) [of b] by (simp add: b' grows_def)
  ultimately have "is_int64 (worth ss)" using range(2) in_total_nonneg [of b]
    unfolding w(1) in_range_def is_int64_def int64_min_def int64_max_def by linarith
  then have "cost \<le> payment'" using sum pay by simp
  moreover have "payment' = in_total b' - in_size b' * f" using pay funded w(1) by (simp add: funded_def algebra_simps)
  moreover have "None \<notin> snd ` SpendInput ` set ss" "\<forall>s\<in>set ss. unsigned_script (InputScript (fst (SpendInput s)))"
    using sp by (auto simp: spendable_ok_def)
  then have "None \<notin> set (Resolved b')" "unsigned b \<Longrightarrow> unsigned b'"
    using funded by (auto simp: eff(2) funded_def unsigned_def b' input_scripts_Add(1) [OF paired])
  ultimately show ?thesis using eff size I funded by (auto simp: funded_def)
qed

lemma give_change_ok:
  assumes funded: "funded f supplied b payment" and paid: "cost \<le> payment" and f: "0 \<le> f" and ok: "callbacks_ok I f options" "I w" and few: "few b'"
    and change: "give_change options (LegacyTransactionFeePolicy f g) w b cost payment = (w', b', Inr coc)"
  shows "I w' \<and> coc = 56 * f \<and> funded f supplied b' payment \<and> in_total b' = in_total b \<and> in_size b' = in_size b \<and>
    (b' = b \<and> payment - cost \<le> coc + TransactionDust \<or>
     out_total b' = out_total b + (payment - cost - coc) \<and> out_size b' \<le> out_size b + 46 \<and> 1000 < payment - cost - coc)"
proof -
  have fr: "fresh b" and paired: "paired b" using funded by (simp_all add: funded_def fresh_def)
  have "few b" using few_grows [OF give_change_grows [OF change] paired few] .
  then have base: "BaseSize b = 10" using Transaction_Size_fresh(2) [OF fr] by (simp add: few_def)
  from change have tcc: "transactionChangeCost b (LegacyTransactionFeePolicy f g) = Inr coc"
    by (auto simp: give_change_def during_def split: if_splits option.splits sum.splits prod.splits)
  then have coc: "coc = 56 * f" using base f by (rule transactionChangeCost_legacy)
  show ?thesis
  proof (cases "payment > cost \<and> payment - cost - coc > 1000")
    case False
    with change tcc have "b' = b" "w' = w"
      by (auto simp: give_change_def during_def and_then_Inr split: if_splits option.splits sum.splits prod.splits)
    with False paid coc funded f ok(2) show ?thesis by auto
  next
    case True
    with change tcc obtain afun hfun wa addr h where a: "ChangeAddress options = Some afun" "afun w = (wa, Inr addr)"
      and h: "AddressHash options = Some hfun" "hfun wa addr = (w', Inr h)"
      and b': "b' = AddOutputs [NewPayPubKeyHashOutput (of_int (payment - cost - coc)) h] b" and i64: "is_int64 (payment - cost - coc)"
      by (auto simp: give_change_def during_def and_then_Inr split: if_splits option.splits sum.splits prod.splits)
    let ?out = "NewPayPubKeyHashOutput (of_int (payment - cost - coc)) h"
    have I: "I w'" "length h \<le> 32" using callbacks_okD(3) [OF ok(1) h(1) callbacks_okD(2) [OF ok(1) a(1) ok(2) a(2)] h(2)] by auto
    then have size: "TransactionOutput_Size ?out \<le> 46" "Amount ?out = of_int (payment - cost - coc)"
      using NewPayPubKeyHashOutput_size [of h] by auto
    have "uint (of_int x :: u64) = x" if "0 \<le> x" "is_int64 x" for x
      using that by (simp add: unsigned_of_int take_bit_int_eq_self is_int64_def int64_max_def)
    from this [OF _ i64] have amount: "uint (Amount ?out) = payment - cost - coc" using True unfolding size(2) by linarith
    note eff = AddOutputs_effect [OF fr, of "[?out]", folded b', OF few_small [OF few]]
    have m: "map placed (Outputs (Tx b')) = map placed (Outputs (Tx b) @ [?out])" using eff(3) by simp
    let ?c = "b\<lparr>Tx := (Tx b)\<lparr>Outputs := Outputs (Tx b) @ [?out]\<rparr>\<rparr>"
    have "out_total b' = out_total ?c" "out_size b' = out_size ?c" using m by (intro placed_outputs; simp)+
    then have "out_total b' = out_total b + (payment - cost - coc)" "out_size b' \<le> out_size b + 46"
      using amount size(1) by (simp_all add: out_total_def out_size_def)
    moreover have "in_total b' = in_total b" by (simp add: in_total_def eff(2))
    moreover have "length (Inputs (Tx b')) = length (Inputs (Tx b))" "unsigned b' = unsigned b"
      unfolding b' by (simp_all add: AddOutputs_lengths(1) [OF paired] unsigned_def input_scripts_Add(2) [OF paired])
    ultimately show ?thesis using eff coc funded True I by (auto simp: funded_def)
  qed
qed

text \<open>The fee a transaction pays.\<close>

definition paid_fee :: "Building \<Rightarrow> int" where
  "paid_fee b = in_total b - out_total b"

text \<open>One pass that goes through.\<close>

lemma balance_passes_Suc:
  assumes "balance_passes options policy (Suc left) w b cost payment = (w', b', Inr ())"
  obtains w1 b1 p1 w2 b2 coc where "fund options w b cost payment = (w1, b1, Inr p1)" "give_change options policy w1 b1 cost p1 = (w2, b2, Inr coc)"
    "grows b2 b'"
    "if length (Outputs (Tx b2)) > 0 then w' = w2 \<and> b' = b2 else balance_passes options policy left w2 b2 (cost + coc + 1) p1 = (w', b', Inr ())"
proof -
  from assms obtain w1 b1 p1 w2 b2 coc where
    s: "fund options w b cost payment = (w1, b1, Inr p1)" "give_change options policy w1 b1 cost p1 = (w2, b2, Inr coc)"
    "if length (Outputs (Tx b2)) > 0 then w' = w2 \<and> b' = b2 else balance_passes options policy left w2 b2 (cost + coc + 1) p1 = (w', b', Inr ())"
    by (auto simp: and_then_Inr add.assoc split: sum.splits if_splits prod.splits)
  then have "grows b2 b'" by (auto dest: balance_passes_grows split: if_splits)
  with s show thesis using that by blast
qed

text \<open>Both halves of a pass together.\<close>

lemma pass_ok:
  assumes funded: "funded f supplied b payment" and f: "0 \<le> f" and ok: "callbacks_ok I f options" "I w"
    and range: "cost - payment + 46 * f \<le> int64_max" "in_range f supplied b'" and few: "few b'" and grows: "grows b2 b'"
    and fund: "fund options w b cost payment = (w1, b1, Inr p1)"
    and change: "give_change options (LegacyTransactionFeePolicy f g) w1 b1 cost p1 = (w2, b2, Inr coc)"
  shows "I w2 \<and> coc = 56 * f \<and> funded f supplied b2 p1 \<and> cost \<le> p1 \<and>
    (out_total b2 = out_total b \<and> out_size b2 = out_size b \<and> p1 - cost \<le> coc + TransactionDust \<or>
     out_total b2 = out_total b + (p1 - cost - coc) \<and> out_size b2 \<le> out_size b + 46 \<and> 1000 < p1 - cost - coc)"
proof -
  have paired: "paired b" using funded by (simp add: funded_def fresh_def)
  have p1: "paired b1" "paired b2" using fund_grows [OF fund] give_change_grows [OF change] paired by (auto simp: grows_def)
  have few2: "few b2" using few_grows [OF grows p1(2) few] .
  have few1: "few b1" using few_grows [OF give_change_grows [OF change] p1(1) few2] .
  have range1: "in_range f supplied b1"
    using in_range_grows [OF give_change_grows [OF change] p1(1) f] in_range_grows [OF grows p1(2) f range(2)] by blast
  from fund_ok [OF funded ok f few_small [OF few1] range(1) range1 fund]
  have F: "I w1" "funded f supplied b1 p1" "cost \<le> p1" and outs: "map placed (Outputs (Tx b1)) = map placed (Outputs (Tx b))" by auto
  note C = give_change_ok [OF F(2,3) f ok(1) F(1) few2 change]
  show ?thesis using C F(3) unfolding placed_outputs [OF outs] by (auto simp: placed_outputs [OF outs])
qed

lemma balance_passes_lower:
  assumes "funded f supplied b payment" "f * (10 + out_size b) + out_total b \<le> cost" "cost - payment + 46 * f \<le> int64_max" "I w"
    "left = 0 \<longrightarrow> f * (10 + in_size b + out_size b) \<le> paid_fee b"
    and f: "0 \<le> f" "102 * f + 1 \<le> int64_max" and ok: "callbacks_ok I f options" and few: "few b'" "in_range f supplied b'"
    and res: "balance_passes options (LegacyTransactionFeePolicy f g) left w b cost payment = (w', b', Inr ())"
  shows "(\<exists>p. funded f supplied b' p) \<and> f * (10 + in_size b' + out_size b') \<le> paid_fee b'"
  using assms(1-5) res
proof (induction left arbitrary: w b cost payment)
  case 0
  then show ?case by auto
next
  case (Suc left)
  let ?p = "LegacyTransactionFeePolicy f g"
  from Suc.prems(6) obtain w1 b1 p1 w2 b2 coc where
    fund: "fund options w b cost payment = (w1, b1, Inr p1)" and change: "give_change options ?p w1 b1 cost p1 = (w2, b2, Inr coc)"
    and g: "grows b2 b'" and rest: "if length (Outputs (Tx b2)) > 0 then w' = w2 \<and> b' = b2 else balance_passes options ?p left w2 b2 (cost + coc + 1) p1 = (w', b', Inr ())"
    by (rule balance_passes_Suc)
  note P = pass_ok [OF Suc.prems(1) f(1) ok Suc.prems(4,3) few(2,1) g fund change]
  have "f * out_size b2 + out_total b2 + 10 * f \<le> p1"
  proof (cases "out_total b2 = out_total b \<and> out_size b2 = out_size b")
    case True
    with P Suc.prems(2) show ?thesis by (auto simp: algebra_simps)
  next
    case False
    with P have c: "coc = 56 * f" "out_total b2 = out_total b + (p1 - cost - coc)" "out_size b2 \<le> out_size b + 46" by auto
    have "f * out_size b2 \<le> f * (out_size b + 46)" using c f(1) by (intro mult_left_mono) auto
    with c Suc.prems(2) f(1) show ?thesis by (simp add: algebra_simps)
  qed
  then have lower: "f * (10 + in_size b2 + out_size b2) \<le> paid_fee b2" using P by (simp add: funded_def paid_fee_def algebra_simps)
  show ?case
  proof (cases "length (Outputs (Tx b2)) > 0")
    case True
    with rest P lower show ?thesis by auto
  next
    case False
    with rest have r: "balance_passes options ?p left w2 b2 (cost + coc + 1) p1 = (w', b', Inr ())" by simp
    from False have empty: "out_size b2 = 0" "out_total b2 = 0" by (simp_all add: out_size_def out_total_def)
    have "0 \<le> out_size b" "0 \<le> out_total b" unfolding out_size_def out_total_def by (auto intro!: sum_list_nonneg)
    then have "0 \<le> f * out_size b" "0 \<le> out_total b" using f by simp_all
    then have "f * 10 \<le> cost" using Suc.prems(2) by (simp add: distrib_left)
    then have "f * (10 + out_size b2) + out_total b2 \<le> cost + coc + 1" using P f by (simp add: empty)
    moreover have "cost + coc + 1 - p1 + 46 * f \<le> int64_max" using P f(2) by linarith
    ultimately show ?thesis using Suc.IH [OF _ _ _ _ _ r] P lower by blast
  qed
qed

lemma balance_passes_upper:
  assumes funded: "funded f supplied b payment" and cost: "cost = 10 * f + out_total b + fees" and some: "Outputs (Tx b) \<noteq> []" and left: "0 < left"
    and f: "0 \<le> f" and ok: "callbacks_ok I f options" "I w" and few: "few b'"
    and range: "cost - payment + 46 * f \<le> int64_max" "in_range f supplied b'"
    and res: "balance_passes options (LegacyTransactionFeePolicy f g) left w b cost payment = (w', b', Inr ())"
  shows "paid_fee b' \<le> f * (66 + in_size b') + fees + TransactionDust"
proof -
  let ?p = "LegacyTransactionFeePolicy f g"
  obtain l where l: "left = Suc l" using left by (cases left) auto
  have paired: "paired b" using funded by (simp add: funded_def fresh_def)
  from res [unfolded l] obtain w1 b1 p1 w2 b2 coc where
    fund: "fund options w b cost payment = (w1, b1, Inr p1)" and change: "give_change options ?p w1 b1 cost p1 = (w2, b2, Inr coc)"
    and g: "grows b2 b'" and rest: "if length (Outputs (Tx b2)) > 0 then w' = w2 \<and> b' = b2 else balance_passes options ?p l w2 b2 (cost + coc + 1) p1 = (w', b', Inr ())"
    by (rule balance_passes_Suc)
  have "length (Outputs (Tx b2)) > 0" using fund_grows [OF fund] give_change_grows [OF change] some paired by (auto simp: grows_def)
  then have b': "b' = b2" using rest by simp
  note P = pass_ok [OF funded f ok range few g fund change]
  show ?thesis using P cost unfolding b' by (auto simp: paid_fee_def funded_def algebra_simps)
qed

lemma NewTransaction_fresh: "fresh NewTransaction" "Inputs (Tx NewTransaction) = []" "Outputs (Tx NewTransaction) = []" "Resolved NewTransaction = []"
proof -
  let ?b = "\<lparr>Tx = \<lparr>Raw = [], RawSansSegWit = [], TxHash = replicate 32 0, ID = '''', Version = 1,
     LockTime = 0, SegWitFlag = 0, Witnesses = [], Inputs = [], Outputs = [], Trailing = [], TxHeight = - 2,
     TxPosition = - 1\<rparr>, Resolved = []\<rparr>"
  have "small ?b" "paired ?b" by (simp_all add: small_def paired_def)
  from rebuilt_small [OF this] show "fresh NewTransaction" "Inputs (Tx NewTransaction) = []" "Outputs (Tx NewTransaction) = []"
    "Resolved NewTransaction = []"
    unfolding NewTransaction_def by (simp_all add: spends_def)
qed

definition initial :: "'w TransactionBalanceOptions \<Rightarrow> Building" where
  "initial options = AddOutputs (OptOutputs options) (AddInputs (OptInputs options) NewTransaction)"

lemma initial_facts:
  assumes "small (initial options)"
  shows "fresh (initial options)" "map placed (Outputs (Tx (initial options))) = map placed (OptOutputs options)"
proof -
  let ?a = "AddInputs (OptInputs options) NewTransaction"
  have paired: "paired ?a" using NewTransaction_fresh(1) by (simp add: fresh_def AddInputs_lengths)
  have a: "small ?a" using assms AddOutputs_lengths [OF paired] unfolding initial_def small_def by simp
  have "fresh ?a" using AddInputs_effect(1) [OF NewTransaction_fresh(1) a] .
  from AddOutputs_effect [OF this, of "OptOutputs options", folded initial_def, OF assms] AddInputs_effect(3) [OF NewTransaction_fresh(1) a]
  show "fresh (initial options)" "map placed (Outputs (Tx (initial options))) = map placed (OptOutputs options)"
    by (simp_all add: NewTransaction_fresh)
qed

lemma output_fees_placed:
  assumes "map placed us = map placed vs"
  shows "output_fees f g us = output_fees f g vs"
proof -
  define h where "h p = (let byteFee = int (length (put_uint64 (fst p) @ writeTransactionVarBytes (Source (snd p)))) * f;
      nameFee = (if IsClaimName (snd p) then int (length (ClaimName (snd p))) * g else 0) in max nameFee byteFee)"
    for p :: "u64 \<times> TransactionOutputScript"
  have "legacy_fee f g = (\<lambda>u. h (placed u))"
    unfolding h_def legacy_fee_def TransactionOutput_Size_placed placed_def fst_conv snd_conv by (rule refl)
  then show ?thesis unfolding output_fees_def using placed_total [OF assms, of h] by (simp only:)
qed

lemma CreateBalancedTransaction_Inr:
  assumes "CreateBalancedTransaction options w = (w', Inr b)" "FeePolicy options = Some policy"
  obtains cost payment w1 b1 where "transactionInitialCost (initial options) policy = Inr cost"
    "transactionInitialPayment (initial options) policy = Inr payment"
    "balance_passes options policy 5 w (initial options) cost payment = (w1, b1, Inr ())" "sign options w1 b1 = (w', b, Inr ())"
proof -
  let ?b = "initial options"
  have "CreateBalancedTransaction options w =
      (case (case Validate options of None \<Rightarrow> None | Some f \<Rightarrow> f ?b) of
         Some e \<Rightarrow> (w, Inl (CallbackFailed e))
       | None \<Rightarrow> (case and_then (during ''initial cost'' (transactionInitialCost ?b policy))
             (\<lambda>cost. and_then (during ''initial payment'' (transactionInitialPayment ?b policy)) (\<lambda>payment. Inr (cost, payment))) of
           Inl e \<Rightarrow> (w, Inl e)
         | Inr (cost, payment) \<Rightarrow>
             (case balanceAndSignTransaction options policy w ?b cost payment of
                (w1, b1, Inr _) \<Rightarrow> (w1, Inr b1)
              | (w1, b1, Inl e) \<Rightarrow> (case release options w1 b1 e of (w2, e') \<Rightarrow> (w2, Inl e')))))"
    unfolding CreateBalancedTransaction_def initial_def Let_def assms(2) option.case by (rule refl)
  note run = this [unfolded assms(1)]
  have v: "(case Validate options of None \<Rightarrow> None | Some f \<Rightarrow> f ?b) = None"
    using run by (cases "case Validate options of None \<Rightarrow> None | Some f \<Rightarrow> f ?b") simp_all
  obtain cost where c: "transactionInitialCost ?b policy = Inr cost"
    using run unfolding v by (cases "transactionInitialCost ?b policy") (simp_all add: during_def)
  obtain payment where pay: "transactionInitialPayment ?b policy = Inr payment"
    using run unfolding v c by (cases "transactionInitialPayment ?b policy") (simp_all add: during_def)
  note cp = c pay
  obtain w0 b0 r0 where bal0: "balanceAndSignTransaction options policy w ?b cost payment = (w0, b0, r0)" by (metis prod_cases3)
  have "r0 = Inr () \<and> w0 = w' \<and> b0 = b"
    using run unfolding v c pay by (cases r0) (auto simp: during_def bal0 split: prod.splits unit.splits)
  then have bal: "balanceAndSignTransaction options policy w ?b cost payment = (w', b, Inr ())" using bal0 by simp
  obtain w1 b1 r where p: "balance_passes options policy 5 w ?b cost payment = (w1, b1, r)" by (metis prod_cases3)
  with bal have "r = Inr () \<and> sign options w1 b1 = (w', b, Inr ())"
    by (cases r) (auto simp: balanceAndSignTransaction_def split: unit.splits)
  then show thesis using that [OF cp, of w1 b1] p by simp
qed

lemma output_fees_bytes: "(\<Sum>u\<leftarrow>us. int (TransactionOutput_Size u)) * f \<le> output_fees f g us"
proof (induction us)
  case (Cons u us)
  with legacy_fee_bytes [of u f g] show ?case by (simp add: output_fees_def algebra_simps)
qed (simp add: output_fees_def)

lemma initial_funded:
  assumes few: "few (initial options)" and pay: "transactionInitialPayment (initial options) (LegacyTransactionFeePolicy f g) = Inr payment"
  shows "funded f (OptInputs options) (initial options) payment" "in_size (initial options) = input_sizes (OptInputs options)"
proof -
  let ?b = "initial options" let ?a = "AddInputs (OptInputs options) NewTransaction"
  have p: "paired NewTransaction" using NewTransaction_fresh(1) by (simp add: fresh_def)
  have la: "paired ?a" "length (Inputs (Tx ?a)) = length (OptInputs options)" using AddInputs_lengths [OF p] by (simp_all add: NewTransaction_fresh)
  note init = initial_facts [OF few_small [OF few]]
  have paired: "paired ?b" using init(1) by (simp add: fresh_def)
  have sa: "small ?a" using few_small [OF few] AddOutputs_lengths [OF la(1)] unfolding initial_def small_def by simp
  note ea = AddInputs_effect [OF NewTransaction_fresh(1) sa]
  show size: "in_size ?b = input_sizes (OptInputs options)"
    using AddOutputs_effect(4) [OF ea(1), of "OptOutputs options", folded initial_def, OF few_small [OF few]] ea(4)
    by (simp add: input_sizes_def in_size_def NewTransaction_fresh)
  have "length (Inputs (Tx ?b)) = length (OptInputs options)" using AddOutputs_lengths(1) [OF la(1)] la(2) by (simp add: initial_def)
  moreover have "input_scripts ?b = map (InputScript \<circ> fst) (OptInputs options)"
    unfolding initial_def input_scripts_Add(2) [OF la(1)] input_scripts_Add(1) [OF p] by (simp add: input_scripts_def NewTransaction_fresh)
  ultimately show "funded f (OptInputs options) ?b payment"
    using transactionInitialPayment_legacy [OF pay paired] init(1) by (auto simp: funded_def size unsigned_def)
qed

text \<open>
  A balanced transaction, before it is signed, pays for its bytes and, when an output was asked for, not
  much more. \<open>few\<close> is needed: the base fee is that of the transaction before the selection.
\<close>

definition affordable :: "int \<Rightarrow> int \<Rightarrow> spend list \<Rightarrow> TransactionOutput list \<Rightarrow> bool" where
  "affordable f g supplied outputs \<longleftrightarrow>
     (\<Sum>u\<leftarrow>outputs. uint (Amount u)) + output_fees f g outputs + f * (40000 + input_sizes supplied) + 1 \<le> int64_max"

lemma affordable_range:
  assumes a: "affordable f g supplied outputs" and f: "0 \<le> f" and few: "few b" and t: "in_total b \<le> int64_max"
  shows "in_range f supplied b" "102 * f + 1 \<le> int64_max"
    "10 * f + (\<Sum>u\<leftarrow>outputs. uint (Amount u)) + output_fees f g outputs + f * input_sizes supplied + 46 * f \<le> int64_max"
proof -
  have "0 \<le> legacy_fee f g u" for u using order_trans [OF _ legacy_fee_bytes [of u f g]] f by simp
  then have pos: "0 \<le> (\<Sum>u\<leftarrow>outputs. uint (Amount u))" "0 \<le> input_sizes supplied" "0 \<le> output_fees f g outputs"
    unfolding input_sizes_def output_fees_def by (auto intro!: sum_list_nonneg)
  then have p: "0 \<le> f * input_sizes supplied" using f by simp
  have "f * (input_sizes supplied + 148 * int (length (Inputs (Tx b)))) \<le> f * (input_sizes supplied + 148 * 252)"
    using few f by (intro mult_left_mono) (auto simp: few_def)
  then show "in_range f supplied b" "102 * f + 1 \<le> int64_max"
    "10 * f + (\<Sum>u\<leftarrow>outputs. uint (Amount u)) + output_fees f g outputs + f * input_sizes supplied + 46 * f \<le> int64_max"
    using a t pos p f unfolding affordable_def in_range_def distrib_left by linarith+
qed

lemma CreateBalancedTransaction_balanced:
  assumes result: "CreateBalancedTransaction options w = (w', Inr b)" and policy: "FeePolicy options = Some (LegacyTransactionFeePolicy f g)"
    and f: "0 \<le> f" and ok: "callbacks_ok I f options" "I w"
    and a: "affordable f g (OptInputs options) (OptOutputs options)"
  obtains w1 b1 where "sign options w1 b1 = (w', b, Inr ())" "paired b1"
    "few b1 \<Longrightarrow> in_total b1 \<le> int64_max \<Longrightarrow> (\<exists>p. funded f (OptInputs options) b1 p) \<and> f * (10 + in_size b1 + out_size b1) \<le> paid_fee b1 \<and>
       (OptOutputs options \<noteq> [] \<longrightarrow> paid_fee b1 \<le> f * (66 + in_size b1) + output_fees f g (OptOutputs options) + TransactionDust)"
proof -
  let ?b = "initial options" let ?P = "LegacyTransactionFeePolicy f g"
  obtain cost payment w1 b1 where cp: "transactionInitialCost ?b ?P = Inr cost" "transactionInitialPayment ?b ?P = Inr payment"
    and passes: "balance_passes options ?P 5 w ?b cost payment = (w1, b1, Inr ())" and sign: "sign options w1 b1 = (w', b, Inr ())"
    by (rule CreateBalancedTransaction_Inr [OF result policy])
  have paired0: "paired ?b" by (simp add: initial_def AddOutputs_lengths AddInputs_lengths NewTransaction_fresh(1) [unfolded fresh_def])
  have paired1: "paired b1" using balance_passes_grows [OF passes] paired0 by (simp add: grows_def)
  show thesis
  proof (rule that [OF sign paired1])
    assume few1: "few b1" and t: "in_total b1 \<le> int64_max"
    have few0: "few ?b" using few_grows [OF balance_passes_grows [OF passes] paired0 few1] .
    note init = initial_facts [OF few_small [OF few0]] note pay = initial_funded [OF few0 cp(2)]
    have base: "BaseSize ?b = 10" using Transaction_Size_fresh(2) [OF init(1)] few0 by (simp add: few_def)
    have fees: "output_fees f g (Outputs (Tx ?b)) = output_fees f g (OptOutputs options)" using init(2) by (rule output_fees_placed)
    have total: "out_total ?b = (\<Sum>u\<leftarrow>OptOutputs options. uint (Amount u))"
      using placed_total [OF init(2), of "\<lambda>p. uint (fst p)"] by (simp add: out_total_def placed_def)
    have cost: "cost = 10 * f + out_total ?b + output_fees f g (OptOutputs options)"
      using transactionInitialCost_legacy [OF cp(1)] by (simp add: base fees)
    have "out_size ?b * f \<le> output_fees f g (Outputs (Tx ?b))" unfolding out_size_def by (rule output_fees_bytes)
    then have low: "f * (10 + out_size ?b) + out_total ?b \<le> cost" using cost fees by (simp add: algebra_simps)
    note range = affordable_range [OF a f few1 t]
    have "payment = in_total ?b - f * input_sizes (OptInputs options)" using pay by (simp add: funded_def)
    then have range1: "cost - payment + 46 * f \<le> int64_max" using range(3) in_total_nonneg [of ?b] cost total by linarith
    note lower = balance_passes_lower [OF pay(1) low range1 ok(2) _ f range(2) ok(1) few1 range(1) passes]
    have "paid_fee b1 \<le> f * (66 + in_size b1) + output_fees f g (OptOutputs options) + TransactionDust" if some: "OptOutputs options \<noteq> []"
    proof -
      have "Outputs (Tx ?b) \<noteq> []" using init(2) some by auto
      from balance_passes_upper [OF pay(1) cost this _ f ok few1 range1 range(1) passes] show ?thesis by simp
    qed
    with lower show "(\<exists>p. funded f (OptInputs options) b1 p) \<and> f * (10 + in_size b1 + out_size b1) \<le> paid_fee b1 \<and>
       (OptOutputs options \<noteq> [] \<longrightarrow> paid_fee b1 \<le> f * (66 + in_size b1) + output_fees f g (OptOutputs options) + TransactionDust)" by simp
  qed
qed

end
