(* ===== verification/Decimal.thy ===== *)
theory Decimal
  imports Radix
begin

text \<open>
  The decimal text of \<^verbatim>\<open>strconv\<close>: \<^verbatim>\<open>Itoa\<close>/\<^verbatim>\<open>FormatInt\<close> with base 10 and \<^verbatim>\<open>ParseInt\<close> with base 10
  and 64 bits, which \<^verbatim>\<open>Atoi\<close> equals on a 64-bit platform: an optional sign, then decimal digits
  only, with a value in the range of \<^verbatim>\<open>int64\<close>.
\<close>

definition digit_byte :: "nat \<Rightarrow> byte" where
  "digit_byte d = of_nat (48 + d)"

definition is_digit :: "byte \<Rightarrow> bool" where
  "is_digit b \<longleftrightarrow> 48 \<le> b \<and> b \<le> 57"

definition FormatUint :: "nat \<Rightarrow> bytes" where
  "FormatUint n = (if n = 0 then [48] else rev (map digit_byte (digits_le 10 n)))"

definition Itoa :: "int \<Rightarrow> bytes" where
  "Itoa v = (if v < 0 then 45 # FormatUint (nat (- v)) else FormatUint (nat v))"

definition ParseUint :: "bytes \<Rightarrow> nat option" where
  "ParseUint s = (if s = [] \<or> \<not> list_all is_digit s then None
                  else Some (value_le 10 (rev (map (\<lambda>b. unat b - 48) s))))"

definition int64_of :: "int option \<Rightarrow> int option" where
  "int64_of r = (case r of None \<Rightarrow> None | Some v \<Rightarrow> if is_int64 v then Some v else None)"

definition ParseInt :: "bytes \<Rightarrow> int option" where
  "ParseInt s = int64_of
     (case s of
        [] \<Rightarrow> None
      | c # rest \<Rightarrow>
          if c = 43 then map_option int (ParseUint rest)
          else if c = 45 then map_option (\<lambda>n. - int n) (ParseUint rest)
          else map_option int (ParseUint s))"

lemma digit_byte_props:
  assumes "d < 10"
  shows "is_digit (digit_byte d)" and "unat (digit_byte d) - 48 = d"
proof -
  have "unat (digit_byte d) = 48 + d" unfolding digit_byte_def using assms by (intro unat_of_nat_byte) simp
  then show "is_digit (digit_byte d)" and "unat (digit_byte d) - 48 = d"
    using assms by (simp_all add: is_digit_def word_le_nat_alt)
qed

lemma FormatUint_digits: "list_all is_digit (FormatUint n)" and FormatUint_nonempty [simp]: "FormatUint n \<noteq> []"
  by (auto simp: FormatUint_def list_all_iff digit_byte_props(1) dest: digits_le_less) (simp add: is_digit_def)

lemma ParseUint_FormatUint [simp]: "ParseUint (FormatUint n) = Some n"
proof (cases "n = 0")
  case False
  have "map ((\<lambda>b. unat b - 48) \<circ> digit_byte) (digits_le 10 n) = digits_le 10 n"
    by (rule map_idI) (simp add: digit_byte_props(2) digits_le_less)
  then show ?thesis
    using FormatUint_digits [of n] False
    by (simp add: ParseUint_def FormatUint_def rev_map comp_def)
qed (simp add: ParseUint_def FormatUint_def is_digit_def)

lemma hd_FormatUint: "is_digit (hd (FormatUint n))"
  using FormatUint_digits [of n] FormatUint_nonempty [of n] by (cases "FormatUint n") auto

lemma digit_not_sign: "is_digit c \<Longrightarrow> c \<noteq> 43 \<and> c \<noteq> 45"
  by (auto simp: is_digit_def word_le_nat_alt)

lemma ParseInt_Itoa [simp]: "is_int64 v \<Longrightarrow> ParseInt (Itoa v) = Some v"
proof (cases "v < 0")
  case True
  assume "is_int64 v"
  with True show ?thesis by (simp add: ParseInt_def Itoa_def int64_of_def)
next
  case False
  assume "is_int64 v"
  obtain c cs where c: "FormatUint (nat v) = c # cs" by (meson FormatUint_nonempty list.exhaust)
  then have "c \<noteq> 43 \<and> c \<noteq> 45" using hd_FormatUint [of "nat v"] digit_not_sign by simp
  with c ParseUint_FormatUint [of "nat v"] False \<open>is_int64 v\<close> show ?thesis
    by (simp add: ParseInt_def Itoa_def int64_of_def)
qed

lemma Itoa_inject: "Itoa v = Itoa w \<longleftrightarrow> v = w"
proof
  assume eq: "Itoa v = Itoa w"
  have sign: "x < 0 \<longleftrightarrow> hd (Itoa x) = 45" for x
    using hd_FormatUint [of "nat x"] digit_not_sign by (auto simp: Itoa_def)
  have abs: "ParseUint (if x < 0 then tl (Itoa x) else Itoa x) = Some (nat \<bar>x\<bar>)" for x
    by (simp add: Itoa_def)
  have "v < 0 \<longleftrightarrow> w < 0" by (simp add: sign eq)
  moreover with abs [of v] abs [of w] eq have "nat \<bar>v\<bar> = nat \<bar>w\<bar>" by (metis option.inject)
  ultimately show "v = w" by linarith
qed simp

lemma ParseInt_is_int64: "ParseInt s = Some v \<Longrightarrow> is_int64 v"
  by (auto simp: ParseInt_def int64_of_def split: option.splits if_splits)

lemma not_in_Itoa: "\<not> is_digit c \<Longrightarrow> c \<noteq> 45 \<Longrightarrow> c \<notin> set (Itoa v)"
  using FormatUint_digits by (auto simp: Itoa_def list_all_iff)

text \<open>\<^verbatim>\<open>strings.Cut\<close>: what is before and after the first occurrence of a byte.\<close>

definition after_byte :: "byte \<Rightarrow> bytes \<Rightarrow> bytes" where
  "after_byte b s = tl (dropWhile (\<lambda>c. c \<noteq> b) s)"

definition before_byte :: "byte \<Rightarrow> bytes \<Rightarrow> bytes" where
  "before_byte b s = takeWhile (\<lambda>c. c \<noteq> b) s"

lemma cut_at: "b \<notin> set xs \<Longrightarrow> before_byte b (xs @ b # ys) = xs \<and> after_byte b (xs @ b # ys) = ys"
  by (induction xs) (auto simp: before_byte_def after_byte_def)

end
