(* ===== verification/Spendables.thy ===== *)
theory Spendables
  imports Decimal "HOL-Library.Multiset"
begin

text \<open>
  The outputs a wallet can spend, \<^verbatim>\<open>wallet/ledgerdb/spendables.go\<close>, on the four tables of
  \<^verbatim>\<open>wallet/ledgerdb/schema.go\<close> they are read from. A query is written out as what its SQL text selects;
  the engine visits the rows of the join in an order of its own, the parameter \<open>scan\<close>, which shows in the
  result only between rows that \<^verbatim>\<open>ORDER BY\<close> does not tell apart. Failures of the engine itself are not
  modelled: a statement on an open database succeeds.
\<close>

section \<open>Tables and queries\<close>

record TxoRow =
  TxoTXID :: string
  TxoID :: bytes
  TxoAddress :: string
  TxoPosition :: int
  TxoAmount :: int
  TxoScript :: bytes
  TxoReserved :: bool
  TxoType :: int

record TxRow =
  RowTXID :: string
  RowRaw :: bytes
  RowHeight :: int
  RowPosition :: int
  RowVerified :: bool

record LedgerDB =
  txo :: "TxoRow list"
  tx :: "TxRow list"
  txi :: "bytes list"
  account_address :: "(string \<times> string) list"

record SpendableOutputRow =
  TXID :: string
  TXOID :: bytes
  StoredRaw :: bytes
  StoredHeight :: int
  TXPosition :: int
  StoredPosition :: int
  IsVerified :: bool
  StoredAmount :: int
  StoredScript :: bytes

definition scanSpendableOutput :: "TxoRow \<Rightarrow> TxRow \<Rightarrow> SpendableOutputRow" where
  "scanSpendableOutput o1 t =
     \<lparr>TXID = RowTXID t, TXOID = TxoID o1, StoredRaw = RowRaw t, StoredHeight = RowHeight t, TXPosition = RowPosition t,
      StoredPosition = TxoPosition o1, IsVerified = RowVerified t, StoredAmount = TxoAmount o1, StoredScript = TxoScript o1\<rparr>"

text \<open>\<^verbatim>\<open>txo INNER JOIN account_address LEFT JOIN txi INNER JOIN tx\<close>, with the conditions on the joined row. An
  output is joined once with every account that has its address.\<close>

definition join_rows :: "(TxoRow \<Rightarrow> bool) \<Rightarrow> string list \<Rightarrow> LedgerDB \<Rightarrow> SpendableOutputRow list" where
  "join_rows keep accountIDs db =
     concat (map (\<lambda>o1. concat (map (\<lambda>(account, _). map (scanSpendableOutput o1) (filter (\<lambda>t. RowTXID t = TxoTXID o1) (tx db)))
         (filter (\<lambda>(account, address). address = TxoAddress o1 \<and> (accountIDs = [] \<or> account \<in> set accountIDs)) (account_address db))))
       (filter (\<lambda>o1. TxoID o1 \<notin> set (txi db) \<and> \<not> TxoReserved o1 \<and> keep o1) (txo db)))"

text \<open>The two orders, as stable sorts from the last key to the first.\<close>

definition list_order :: "SpendableOutputRow list \<Rightarrow> SpendableOutputRow list" where
  "list_order rows = sort_key (\<lambda>r. if StoredHeight r \<in> {0, - 1} then (0 :: int) else 1) (sort_key (\<lambda>r. - StoredHeight r)
     (sort_key (\<lambda>r. - TXPosition r) (sort_key StoredPosition rows)))"

definition window_order :: "SpendableOutputRow list \<Rightarrow> SpendableOutputRow list" where
  "window_order rows = sort_key StoredAmount (sort_key (\<lambda>r. - StoredHeight r) rows)"

definition ListSpendableOutputs ::
  "(SpendableOutputRow list \<Rightarrow> SpendableOutputRow list) \<Rightarrow> LedgerDB \<Rightarrow> string list \<Rightarrow> SpendableOutputRow list" where
  "ListSpendableOutputs scan db accountIDs = list_order (scan (join_rows (\<lambda>o1. TxoType o1 \<in> {0, 4}) accountIDs db))"

definition spendableWindow ::
  "(SpendableOutputRow list \<Rightarrow> SpendableOutputRow list) \<Rightarrow> LedgerDB \<Rightarrow> string list \<Rightarrow> int \<Rightarrow> int \<Rightarrow> SpendableOutputRow list" where
  "spendableWindow scan db accountIDs floor ceiling =
     window_order (scan (join_rows (\<lambda>o1. TxoType o1 = 0 \<and> floor \<le> TxoAmount o1 \<and> TxoAmount o1 < ceiling) accountIDs db))"

definition reserve_one :: "bool \<Rightarrow> bytes \<Rightarrow> LedgerDB \<Rightarrow> LedgerDB" where
  "reserve_one isReserved outputID db =
     db\<lparr>txo := map (\<lambda>o1. if TxoID o1 = outputID then o1\<lparr>TxoReserved := isReserved\<rparr> else o1) (txo db)\<rparr>"

definition ReserveOutputs :: "bytes list \<Rightarrow> bool \<Rightarrow> LedgerDB \<Rightarrow> LedgerDB" where
  "ReserveOutputs outputIDs isReserved db = fold (reserve_one isReserved) outputIDs db"

section \<open>The window search\<close>

datatype 'e spendable_error = ErrSpendableAmountOverflow | SpendableCallback 'e

definition checkedPositiveProduct :: "int \<Rightarrow> int \<Rightarrow> int option" where
  "checkedPositiveProduct left right =
     (if left = 0 \<or> right = 0 then Some 0
      else if left < 0 \<or> right < 0 \<or> left > int64_max div right then None
      else Some (left * right))"

definition addSpendableEffectiveAmount :: "int \<Rightarrow> int \<Rightarrow> 'e spendable_error + int" where
  "addSpendableEffectiveAmount left right =
     (if right > 0 \<and> left > int64_max - right \<or> right < 0 \<and> left < int64_min - right then Inl ErrSpendableAmountOverflow
      else Inr (left + right))"

definition estimatedPubKeyHashSpendSize :: int where
  "estimatedPubKeyHashSpendSize = 148"

definition sqliteSpendableEffectiveAmount ::
  "int \<Rightarrow> (SpendableOutputRow \<Rightarrow> 'e + int) option \<Rightarrow> SpendableOutputRow \<Rightarrow> 'e spendable_error + int" where
  "sqliteSpendableEffectiveAmount feePerByte effectiveAmount row =
     (case effectiveAmount of
        Some f \<Rightarrow> (case f row of Inl e \<Rightarrow> Inl (SpendableCallback e) | Inr v \<Rightarrow> Inr v)
      | None \<Rightarrow> Inr (wrap64 (StoredAmount row - wrap64 (estimatedPubKeyHashSpendSize * feePerByte))))"

text \<open>A row that is taken: the selection, its sum, or an error.\<close>

definition take_row ::
  "int \<Rightarrow> (SpendableOutputRow \<Rightarrow> 'e + int) option \<Rightarrow> SpendableOutputRow \<Rightarrow> SpendableOutputRow list \<Rightarrow> int \<Rightarrow>
   'e spendable_error + SpendableOutputRow list \<times> int" where
  "take_row feePerByte effectiveAmount row selected reservedAmount =
     and_then (sqliteSpendableEffectiveAmount feePerByte effectiveAmount row) (\<lambda>contribution.
     and_then (addSpendableEffectiveAmount reservedAmount contribution) (\<lambda>reservedAmount'.
       Inr (selected @ [row], reservedAmount')))"

text \<open>The loop over the rows of a window: verified ones are taken until the target is reached, which ends the
  window; the others are kept for the second loop.\<close>

fun take_verified ::
  "int \<Rightarrow> (SpendableOutputRow \<Rightarrow> 'e + int) option \<Rightarrow> (SpendableOutputRow \<Rightarrow> 'e option) option \<Rightarrow> int \<Rightarrow>
   SpendableOutputRow list \<Rightarrow> SpendableOutputRow list \<Rightarrow> SpendableOutputRow list \<Rightarrow> int \<Rightarrow>
   'e spendable_error + SpendableOutputRow list \<times> SpendableOutputRow list \<times> int" where
  "take_verified feePerByte effectiveAmount inspect target [] unconfirmed selected reservedAmount =
     Inr (unconfirmed, selected, reservedAmount)"
| "take_verified feePerByte effectiveAmount inspect target (row # rows) unconfirmed selected reservedAmount =
     (case (case inspect of None \<Rightarrow> None | Some f \<Rightarrow> f row) of
        Some e \<Rightarrow> Inl (SpendableCallback e)
      | None \<Rightarrow>
          if IsVerified row then
            and_then (take_row feePerByte effectiveAmount row selected reservedAmount) (\<lambda>(selected', reservedAmount').
              if reservedAmount' \<ge> target then Inr ([], selected', reservedAmount')
              else take_verified feePerByte effectiveAmount inspect target rows unconfirmed selected' reservedAmount')
          else take_verified feePerByte effectiveAmount inspect target rows (unconfirmed @ [row]) selected reservedAmount)"

fun take_unconfirmed ::
  "int \<Rightarrow> (SpendableOutputRow \<Rightarrow> 'e + int) option \<Rightarrow> int \<Rightarrow> SpendableOutputRow list \<Rightarrow> SpendableOutputRow list \<Rightarrow> int \<Rightarrow>
   'e spendable_error + SpendableOutputRow list \<times> int" where
  "take_unconfirmed feePerByte effectiveAmount target [] selected reservedAmount = Inr (selected, reservedAmount)"
| "take_unconfirmed feePerByte effectiveAmount target (row # rows) selected reservedAmount =
     (if reservedAmount \<ge> target then Inr (selected, reservedAmount)
      else and_then (take_row feePerByte effectiveAmount row selected reservedAmount) (\<lambda>(selected', reservedAmount').
        take_unconfirmed feePerByte effectiveAmount target rows selected' reservedAmount'))"

definition selectSQLiteSpendableWindow ::
  "int \<Rightarrow> (SpendableOutputRow \<Rightarrow> 'e + int) option \<Rightarrow> (SpendableOutputRow \<Rightarrow> 'e option) option \<Rightarrow> int \<Rightarrow>
   SpendableOutputRow list \<Rightarrow> SpendableOutputRow list \<Rightarrow> int \<Rightarrow> 'e spendable_error + SpendableOutputRow list \<times> int" where
  "selectSQLiteSpendableWindow feePerByte effectiveAmount inspect target rows selected reservedAmount =
     and_then (take_verified feePerByte effectiveAmount inspect target rows [] selected reservedAmount)
       (\<lambda>(unconfirmed, selected', reservedAmount').
          take_unconfirmed feePerByte effectiveAmount target unconfirmed selected' reservedAmount')"

text \<open>The loop over windows, for a function that gives the rows of a window. \<^verbatim>\<open>None\<close>: out of fuel.\<close>

fun windows ::
  "(int \<Rightarrow> int \<Rightarrow> SpendableOutputRow list) \<Rightarrow> int \<Rightarrow> (SpendableOutputRow \<Rightarrow> 'e + int) option \<Rightarrow>
   (SpendableOutputRow \<Rightarrow> 'e option) option \<Rightarrow> int \<Rightarrow> nat \<Rightarrow> int \<Rightarrow> int \<Rightarrow> nat \<Rightarrow> SpendableOutputRow list \<Rightarrow> int \<Rightarrow>
   ('e spendable_error + SpendableOutputRow list \<times> int) option" where
  "windows rows feePerByte effectiveAmount inspect target 0 floor multiplier gapCount selected reservedAmount = None"
| "windows rows feePerByte effectiveAmount inspect target (Suc fuel) floor multiplier gapCount selected reservedAmount =
     (if reservedAmount < target \<and> gapCount < 5 then
        (case checkedPositiveProduct floor multiplier of
           None \<Rightarrow> Some (Inr (selected, reservedAmount))
         | Some ceiling \<Rightarrow>
             if ceiling \<ge> int64_max then Some (Inr (selected, reservedAmount))
             else
               (case selectSQLiteSpendableWindow feePerByte effectiveAmount inspect target (rows floor ceiling) selected reservedAmount of
                  Inl e \<Rightarrow> Some (Inl e)
                | Inr (selected', reservedAmount') \<Rightarrow>
                    if reservedAmount' = reservedAmount then
                      if multiplier > int64_max div multiplier then Some (Inr (selected', reservedAmount'))
                      else windows rows feePerByte effectiveAmount inspect target fuel ceiling (multiplier * multiplier) (Suc gapCount) selected' reservedAmount'
                    else windows rows feePerByte effectiveAmount inspect target fuel ceiling 100 0 selected' reservedAmount'))
      else Some (Inr (selected, reservedAmount)))"

text \<open>Eleven windows are enough, see \<open>windows_end\<close>.\<close>

definition window_fuel :: nat where
  "window_fuel = 11"

definition GetAndReserveSpendableOutputs ::
  "(SpendableOutputRow list \<Rightarrow> SpendableOutputRow list) \<Rightarrow> string list \<Rightarrow> int \<Rightarrow> int \<Rightarrow> int \<Rightarrow> bool \<Rightarrow> bool \<Rightarrow>
   (SpendableOutputRow \<Rightarrow> 'e + int) option \<Rightarrow> (SpendableOutputRow \<Rightarrow> 'e option) option \<Rightarrow> LedgerDB \<Rightarrow>
   (LedgerDB \<times> ('e spendable_error + SpendableOutputRow list)) option" where
  "GetAndReserveSpendableOutputs scan accountIDs amountToReserve floor feePerByte setReserved returnInsufficientFunds effectiveAmount inspect db =
     (case windows (spendableWindow scan db accountIDs) feePerByte effectiveAmount inspect amountToReserve window_fuel floor 100 0 [] 0 of
        None \<Rightarrow> None
      | Some (Inl e) \<Rightarrow> Some (db, Inl e)
      | Some (Inr (selected, reservedAmount)) \<Rightarrow>
          if reservedAmount < amountToReserve \<and> \<not> returnInsufficientFunds then Some (db, Inr [])
          else if reservedAmount \<ge> amountToReserve \<and> setReserved
          then Some (ReserveOutputs (map TXOID selected) True db, Inr selected)
          else Some (db, Inr selected))"

section \<open>What the queries give\<close>

text \<open>The tables as the program keeps them: the primary keys are distinct and an output is named by its
  transaction and position.\<close>

definition db_ok :: "LedgerDB \<Rightarrow> bool" where
  "db_ok db \<longleftrightarrow> distinct (map TxoID (txo db)) \<and> distinct (map RowTXID (tx db)) \<and>
     (\<forall>o1\<in>set (txo db). TxoID o1 = str (TxoTXID o1) @ str '':'' @ FormatUint (nat (TxoPosition o1)))"

lemma db_ok_inj: "db_ok db \<Longrightarrow> inj_on TxoID (set (txo db))"
  by (simp add: db_ok_def distinct_map)

definition owned_once :: "LedgerDB \<Rightarrow> bool" where
  "owned_once db \<longleftrightarrow> distinct (map snd (account_address db))"

definition reserved :: "LedgerDB \<Rightarrow> bytes set" where
  "reserved db = TxoID ` {o1\<in>set (txo db). TxoReserved o1}"

definition open_outputs :: "string list \<Rightarrow> LedgerDB \<Rightarrow> bytes set" where
  "open_outputs accountIDs db = TxoID ` {o1\<in>set (txo db). \<not> TxoReserved o1 \<and> TxoID o1 \<notin> set (txi db) \<and>
     (\<exists>account\<in>set accountIDs. (account, TxoAddress o1) \<in> set (account_address db))}"

lemma join_row:
  assumes "r \<in> set (join_rows keep accountIDs db)"
  obtains o1 t account where "o1 \<in> set (txo db)" "t \<in> set (tx db)" "RowTXID t = TxoTXID o1" "r = scanSpendableOutput o1 t"
    "TxoID o1 \<notin> set (txi db)" "\<not> TxoReserved o1" "keep o1" "(account, TxoAddress o1) \<in> set (account_address db)"
    "accountIDs = [] \<or> account \<in> set accountIDs"
  using assms unfolding join_rows_def by auto

lemma join_row_TXOID:
  assumes "r \<in> set (join_rows keep accountIDs db)" and "accountIDs \<noteq> []"
  shows "TXOID r \<in> open_outputs accountIDs db"
proof -
  obtain o1 account where "o1 \<in> set (txo db)" "TXOID r = TxoID o1" "TxoID o1 \<notin> set (txi db)" "\<not> TxoReserved o1"
    "(account, TxoAddress o1) \<in> set (account_address db)" "account \<in> set accountIDs"
    using assms by (elim join_row) (auto simp: scanSpendableOutput_def)
  then show ?thesis unfolding open_outputs_def by auto
qed

lemma distinct_map_concat:
  assumes "distinct (map f xs)" and "\<And>x. x \<in> set xs \<Longrightarrow> length (g x) \<le> 1 \<and> (\<forall>y\<in>set (g x). h y = f x)"
  shows "distinct (map h (concat (map g xs)))"
  using assms
proof (induction xs)
  case (Cons x xs)
  have x: "length (g x) \<le> 1" "\<forall>y\<in>set (g x). h y = f x" using Cons.prems(2) [of x] by simp_all
  have "h y \<noteq> f x" if "a \<in> set xs" "y \<in> set (g a)" for a y
  proof -
    have "f a \<in> f ` set xs" "h y = f a" using that Cons.prems(2) [of a] by simp_all
    then show ?thesis using Cons.prems(1) by auto
  qed
  then have "f x \<notin> h ` set (concat (map g xs))" by (auto simp: image_iff dest: sym)
  moreover have "distinct (map h (g x))" using x(1) by (cases "g x") auto
  moreover have "h ` set (g x) \<inter> h ` set (concat (map g xs)) = {}" using x(2) calculation(1) by auto
  moreover have "distinct (map h (concat (map g xs)))" using Cons by simp
  ultimately show ?case by simp
qed simp

lemma length_filter_distinct:
  assumes "distinct (map f xs)"
  shows "length (filter (\<lambda>x. f x = v \<and> P x) xs) \<le> 1"
  using assms
proof (induction xs)
  case (Cons x xs)
  show ?case
  proof (cases "f x = v")
    case True
    have "f y \<noteq> v" if "y \<in> set xs" for y using imageI [OF that, of f] Cons.prems True by auto
    then have "filter (\<lambda>x. f x = v \<and> P x) xs = []" by (auto simp: filter_empty_conv)
    then show ?thesis by simp
  qed (use Cons in simp)
qed simp

lemma length_concat_map_le:
  assumes "length xs \<le> 1" and "\<And>x. x \<in> set xs \<Longrightarrow> length (g x) \<le> 1"
  shows "length (concat (map g xs)) \<le> 1"
  using assms by (cases xs) auto

lemma distinct_join_rows:
  assumes "db_ok db" and "owned_once db"
  shows "distinct (map TXOID (join_rows keep accountIDs db))"
  unfolding join_rows_def
proof (rule distinct_map_concat [where f = TxoID])
  show "distinct (map TxoID (filter (\<lambda>o1. TxoID o1 \<notin> set (txi db) \<and> \<not> TxoReserved o1 \<and> keep o1) (txo db)))"
    using assms(1) by (simp add: db_ok_def distinct_map_filter)
  fix o1 :: TxoRow
  let ?txs = "filter (\<lambda>t. RowTXID t = TxoTXID o1) (tx db)"
  let ?owners = "filter (\<lambda>(account, address). address = TxoAddress o1 \<and> (accountIDs = [] \<or> account \<in> set accountIDs)) (account_address db)"
  have "length ?txs \<le> 1"
    using length_filter_distinct [of RowTXID "tx db" "TxoTXID o1" "\<lambda>_. True"] assms(1) by (simp add: db_ok_def)
  moreover have "length ?owners \<le> 1"
    using length_filter_distinct [of snd "account_address db" "TxoAddress o1" "\<lambda>p. accountIDs = [] \<or> fst p \<in> set accountIDs"] assms(2)
    by (simp add: owned_once_def case_prod_beta')
  ultimately have "length (concat (map (\<lambda>(account, _). map (scanSpendableOutput o1) ?txs) ?owners)) \<le> 1"
    by (intro length_concat_map_le) auto
  then show "length (concat (map (\<lambda>(account, _). map (scanSpendableOutput o1) ?txs) ?owners)) \<le> 1 \<and>
      (\<forall>y\<in>set (concat (map (\<lambda>(account, _). map (scanSpendableOutput o1) ?txs) ?owners)). TXOID y = TxoID o1)"
    by (auto simp: scanSpendableOutput_def)
qed

lemma mset_orders [simp]: "mset (list_order rows) = mset rows" "mset (window_order rows) = mset rows"
  by (simp_all add: list_order_def window_order_def)

definition scans :: "(SpendableOutputRow list \<Rightarrow> SpendableOutputRow list) \<Rightarrow> bool" where
  "scans scan \<longleftrightarrow> (\<forall>rows. mset (scan rows) = mset rows)"

lemma mset_ListSpendableOutputs:
  "scans scan \<Longrightarrow> mset (ListSpendableOutputs scan db accountIDs) = mset (join_rows (\<lambda>o1. TxoType o1 \<in> {0, 4}) accountIDs db)"
  "scans scan \<Longrightarrow> mset (spendableWindow scan db accountIDs floor ceiling) =
     mset (join_rows (\<lambda>o1. TxoType o1 = 0 \<and> floor \<le> TxoAmount o1 \<and> TxoAmount o1 < ceiling) accountIDs db)"
  by (simp_all add: ListSpendableOutputs_def spendableWindow_def scans_def)

text \<open>The lists of several accounts: every open output of them once, when they are different.\<close>

lemma distinct_account_rows:
  assumes ok: "db_ok db" "owned_once db" and "scans scan" and "distinct accounts"
  shows "distinct (map TXOID (concat (map (\<lambda>a. ListSpendableOutputs scan db [a]) accounts)))"
  using assms(4)
proof (induction accounts)
  case (Cons a accounts)
  let ?rows = "\<lambda>a. join_rows (\<lambda>o1. TxoType o1 \<in> {0, 4}) [a] db"
  have set: "set (ListSpendableOutputs scan db [b]) = set (?rows b)" for b
    using mset_ListSpendableOutputs(1) [OF assms(3), of db "[b]"] by (metis set_mset_mset)
  have "mset (map TXOID (ListSpendableOutputs scan db [a])) = mset (map TXOID (?rows a))"
    using mset_ListSpendableOutputs(1) [OF assms(3), of db "[a]"] by simp
  then have d: "distinct (map TXOID (ListSpendableOutputs scan db [a]))"
    using distinct_join_rows [OF ok] by (metis mset_eq_imp_distinct_iff)
  have "False" if b: "b \<in> set accounts" and r: "r \<in> set (?rows a)" "s \<in> set (?rows b)" "TXOID r = TXOID s" for b r s
  proof -
    from r(1) obtain o1 t account where o: "o1 \<in> set (txo db)" "r = scanSpendableOutput o1 t" "(account, TxoAddress o1) \<in> set (account_address db)"
      "account \<in> set [a]" by (elim join_row) auto
    from r(2) obtain o2 t' account' where o': "o2 \<in> set (txo db)" "s = scanSpendableOutput o2 t'" "(account', TxoAddress o2) \<in> set (account_address db)"
      "account' \<in> set [b]" by (elim join_row) auto
    have "TxoID o1 = TxoID o2" using o(2) o'(2) r(3) by (simp add: scanSpendableOutput_def)
    then have "o1 = o2" using db_ok_inj [OF ok(1)] o(1) o'(1) by (metis inj_onD)
    moreover have "inj_on snd (set (account_address db))" using ok(2) by (simp add: owned_once_def distinct_map)
    ultimately have "account = account'" using o(3) o'(3) by (metis inj_onD prod.inject snd_conv)
    then show False using o(4) o'(4) b Cons.prems by auto
  qed
  then have "set (map TXOID (ListSpendableOutputs scan db [a])) \<inter> set (map TXOID (concat (map (\<lambda>a. ListSpendableOutputs scan db [a]) accounts))) = {}"
    unfolding set_map set_concat by (auto simp: set simp del: One_nat_def)
  then show ?case using d Cons by simp
qed simp

section \<open>Reserving\<close>

text \<open>Nothing but the reservations changes.\<close>

definition same_outputs :: "LedgerDB \<Rightarrow> LedgerDB \<Rightarrow> bool" where
  "same_outputs db db' \<longleftrightarrow> map (\<lambda>o1. o1\<lparr>TxoReserved := False\<rparr>) (txo db') = map (\<lambda>o1. o1\<lparr>TxoReserved := False\<rparr>) (txo db) \<and>
     tx db' = tx db \<and> txi db' = txi db"

lemma same_outputs_refl [simp]: "same_outputs db db"
  and same_outputs_trans: "same_outputs a b \<Longrightarrow> same_outputs b c \<Longrightarrow> same_outputs a c"
  by (simp_all add: same_outputs_def)

lemma reserved_iff: "x \<in> reserved db \<longleftrightarrow> (\<exists>o1\<in>set (txo db). TxoID o1 = x \<and> TxoReserved o1)"
  by (auto simp: reserved_def)

lemma reserve_one_facts:
  "same_outputs db (reserve_one f i db)" "account_address (reserve_one f i db) = account_address db"
  "reserved (reserve_one f i db) = (if f then reserved db \<union> ({i} \<inter> TxoID ` set (txo db)) else reserved db - {i})"
  "TxoID ` set (txo (reserve_one f i db)) = TxoID ` set (txo db)"
proof -
  let ?g = "\<lambda>o1. if TxoID o1 = i then o1\<lparr>TxoReserved := f\<rparr> else o1"
  have g: "TxoID (?g o1) = TxoID o1" "TxoReserved (?g o1) = (if TxoID o1 = i then f else TxoReserved o1)"
    "(?g o1)\<lparr>TxoReserved := False\<rparr> = o1\<lparr>TxoReserved := False\<rparr>" for o1 :: TxoRow by simp_all
  have t: "txo (reserve_one f i db) = map ?g (txo db)" "tx (reserve_one f i db) = tx db" "txi (reserve_one f i db) = txi db"
    "account_address (reserve_one f i db) = account_address db" by (simp_all add: reserve_one_def)
  show "same_outputs db (reserve_one f i db)" unfolding same_outputs_def t by (simp add: g(3))
  show "account_address (reserve_one f i db) = account_address db" by (fact t(4))
  have mem: "x \<in> reserved (reserve_one f i db) \<longleftrightarrow> (\<exists>o1\<in>set (txo db). TxoID o1 = x \<and> (if x = i then f else TxoReserved o1))" for x
    unfolding reserved_iff t set_map bex_simps g by auto
  show "reserved (reserve_one f i db) = (if f then reserved db \<union> ({i} \<inter> TxoID ` set (txo db)) else reserved db - {i})"
  proof (rule set_eqI)
    fix x
    show "x \<in> reserved (reserve_one f i db) \<longleftrightarrow> x \<in> (if f then reserved db \<union> ({i} \<inter> TxoID ` set (txo db)) else reserved db - {i})"
      unfolding mem by (cases "x = i"; cases f) (auto simp: reserved_iff)
  qed
  show "TxoID ` set (txo (reserve_one f i db)) = TxoID ` set (txo db)" unfolding t set_map image_image g ..
qed

lemma ReserveOutputs_facts:
  "same_outputs db (ReserveOutputs ids f db)" "account_address (ReserveOutputs ids f db) = account_address db"
  "reserved (ReserveOutputs ids f db) = (if f then reserved db \<union> (set ids \<inter> TxoID ` set (txo db)) else reserved db - set ids)"
  unfolding ReserveOutputs_def
proof (induction ids arbitrary: db)
  case (Cons i ids)
  { case 1 show ?case using same_outputs_trans [OF reserve_one_facts(1) Cons(1)] by simp }
  { case 2 show ?case using Cons(2) [of "reserve_one f i db"] reserve_one_facts(2) by simp }
  { case 3 show ?case using Cons(3) [of "reserve_one f i db"] reserve_one_facts(3,4) [of f i db] by auto }
qed simp_all

lemma same_outputs_db_ok: "same_outputs db db' \<Longrightarrow> db_ok db' = db_ok db"
proof -
  assume same: "same_outputs db db'"
  let ?p = "\<lambda>o1. (TxoID o1, TxoTXID o1, TxoPosition o1)"
  have p: "?p o1 = ?p (o1\<lparr>TxoReserved := False\<rparr>)" for o1 by simp
  have "map ?p (txo db') = map ?p (map (\<lambda>o1. o1\<lparr>TxoReserved := False\<rparr>) (txo db'))" by simp
  also have "\<dots> = map ?p (map (\<lambda>o1. o1\<lparr>TxoReserved := False\<rparr>) (txo db))" using same unfolding same_outputs_def by (simp only:)
  finally have eq: "map ?p (txo db') = map ?p (txo db)" by simp
  have "map TxoID (txo db') = map fst (map ?p (txo db'))" "map TxoID (txo db) = map fst (map ?p (txo db))" by simp_all
  then have 1: "map TxoID (txo db') = map TxoID (txo db)" using eq by (simp only:)
  have "(\<forall>o1\<in>set (txo d). TxoID o1 = str (TxoTXID o1) @ str '':'' @ FormatUint (nat (TxoPosition o1))) =
      (\<forall>(i, t, n)\<in>set (map ?p (txo d)). i = str t @ str '':'' @ FormatUint (nat n))" for d by auto
  from this [of db] this [of db'] show ?thesis using same unfolding db_ok_def 1 eq same_outputs_def by simp
qed

lemma TxoID_same_outputs: "same_outputs db db' \<Longrightarrow> TxoID ` set (txo db') = TxoID ` set (txo db)"
proof -
  assume same: "same_outputs db db'"
  have "TxoID ` set (txo d) = TxoID ` set (map (\<lambda>o1. o1\<lparr>TxoReserved := False\<rparr>) (txo d))" for d by (simp add: image_image)
  then show ?thesis using same unfolding same_outputs_def by metis
qed

lemma open_outputs_reserved: "open_outputs accountIDs db \<inter> reserved db = {}" if "db_ok db"
  using db_ok_inj [OF that] by (auto simp: open_outputs_def reserved_def dest: inj_onD)

section \<open>The window search\<close>

lemma addSpendableEffectiveAmount_Inr:
  "addSpendableEffectiveAmount left right = Inr v \<Longrightarrow> v = left + right"
  by (auto simp: addSpendableEffectiveAmount_def split: if_splits)

text \<open>What a search has taken: rows with an effective amount, whose sum it has kept.\<close>

definition taken :: "int \<Rightarrow> (SpendableOutputRow \<Rightarrow> 'e + int) option \<Rightarrow> SpendableOutputRow list \<Rightarrow> int \<Rightarrow> bool" where
  "taken feePerByte eff rows amount \<longleftrightarrow> (\<exists>vs. map (sqliteSpendableEffectiveAmount feePerByte eff) rows = map Inr vs \<and> amount = sum_list vs)"

lemma taken_Nil [simp]: "taken f eff [] 0"
  by (simp add: taken_def)

lemma taken_append: "taken f eff xs a \<Longrightarrow> taken f eff ys b \<Longrightarrow> taken f eff (xs @ ys) (a + b)"
proof -
  assume "taken f eff xs a" "taken f eff ys b"
  then obtain vs ws where "map (sqliteSpendableEffectiveAmount f eff) xs = map Inr vs" "a = sum_list vs"
    "map (sqliteSpendableEffectiveAmount f eff) ys = map Inr ws" "b = sum_list ws" unfolding taken_def by blast
  then show ?thesis unfolding taken_def by (intro exI [of _ "vs @ ws"]) simp
qed

lemma taken_effective: "taken f eff rows a \<Longrightarrow> row \<in> set rows \<Longrightarrow> \<exists>v. sqliteSpendableEffectiveAmount f eff row = Inr v"
proof -
  assume "taken f eff rows a" "row \<in> set rows"
  then obtain vs where "map (sqliteSpendableEffectiveAmount f eff) rows = map Inr vs" unfolding taken_def by blast
  then have "sqliteSpendableEffectiveAmount f eff row \<in> set (map Inr vs)" using \<open>row \<in> set rows\<close> by (metis imageI set_map)
  then show ?thesis by auto
qed

lemma take_row_Inr:
  assumes "take_row f eff row selected amount = Inr (selected', amount')"
  shows "selected' = selected @ [row]" "taken f eff [row] (amount' - amount)"
proof -
  from assms have "\<exists>v. sqliteSpendableEffectiveAmount f eff row = Inr v \<and> amount' = amount + v \<and> selected' = selected @ [row]"
    by (auto simp: take_row_def and_then_Inr dest: addSpendableEffectiveAmount_Inr)
  then obtain v where v: "sqliteSpendableEffectiveAmount f eff row = Inr v" "amount' = amount + v" and sel: "selected' = selected @ [row]" by blast
  show "selected' = selected @ [row]" by (fact sel)
  show "taken f eff [row] (amount' - amount)" using v unfolding taken_def by (intro exI [of _ "[v]"]) simp
qed

lemma distinct_subseteq_mset: "mset xs \<subseteq># mset ys \<Longrightarrow> distinct ys \<Longrightarrow> distinct xs"
proof -
  assume sub: "mset xs \<subseteq># mset ys" and d: "distinct ys"
  have "count (mset xs) a = (if a \<in> set xs then 1 else 0)" for a
  proof (cases "a \<in> set xs")
    case True
    have "count (mset xs) a \<le> count (mset ys) a" using sub by (simp add: subseteq_mset_def)
    also have "\<dots> \<le> 1" using d by (simp add: distinct_count_atmost_1)
    finally show ?thesis using True by (simp add: le_Suc_eq)
  qed simp
  then show ?thesis by (simp add: distinct_count_atmost_1)
qed

lemma take_verified_Inr:
  "take_verified f eff inspect target rows unconfirmed selected amount = Inr (unconfirmed', selected', amount') \<Longrightarrow>
   \<exists>xs ys. selected' = selected @ xs \<and> taken f eff xs (amount' - amount) \<and> mset xs + mset ys \<subseteq># mset rows \<and>
     (unconfirmed' = unconfirmed @ ys \<or> unconfirmed' = [] \<and> ys = [])"
proof (induction f eff inspect target rows unconfirmed selected amount rule: take_verified.induct)
  case (2 f eff inspect target row rows unconfirmed selected amount)
  have i: "(case inspect of None \<Rightarrow> None | Some g \<Rightarrow> g row) = None"
    using 2(3) by (cases "case inspect of None \<Rightarrow> None | Some g \<Rightarrow> g row") simp_all
  show ?case
  proof (cases "IsVerified row")
    case True
    with 2(3) obtain s a where t: "take_row f eff row selected amount = Inr (s, a)"
      and rest: "(if a \<ge> target then Inr ([], s, a) else take_verified f eff inspect target rows unconfirmed s a) = Inr (unconfirmed', selected', amount')"
      by (auto simp: i and_then_Inr)
    note step = take_row_Inr [OF t]
    show ?thesis
    proof (cases "a \<ge> target")
      case True
      with rest step show ?thesis by (intro exI [of _ "[row]"] exI [of _ "[]"]) auto
    next
      case False
      with rest have "take_verified f eff inspect target rows unconfirmed s a = Inr (unconfirmed', selected', amount')" by simp
      from "2.IH"(1) [OF i True t refl False this]
      obtain xs ys where xs: "selected' = s @ xs" "taken f eff xs (amount' - a)" "mset xs + mset ys \<subseteq># mset rows"
        "unconfirmed' = unconfirmed @ ys \<or> unconfirmed' = [] \<and> ys = []" by blast
      then show ?thesis using step taken_append [OF step(2) xs(2)]
        by (intro exI [of _ "row # xs"] exI [of _ ys]) auto
    qed
  next
    case False
    with 2(3) have "take_verified f eff inspect target rows (unconfirmed @ [row]) selected amount = Inr (unconfirmed', selected', amount')"
      by (simp add: i)
    from "2.IH"(2) [OF i False this]
    obtain xs ys where xs: "selected' = selected @ xs" "taken f eff xs (amount' - amount)" "mset xs + mset ys \<subseteq># mset rows"
      "unconfirmed' = (unconfirmed @ [row]) @ ys \<or> unconfirmed' = [] \<and> ys = []" by blast
    show ?thesis
    proof (cases "unconfirmed' = []")
      case True
      with xs have "mset xs + mset [] \<subseteq># mset (row # rows)"
        by (auto intro: subset_mset.order_trans [of "mset xs" "mset rows"])
      with True xs show ?thesis by (intro exI [of _ xs] exI [of _ "[]"]) auto
    qed (use xs in \<open>intro exI [of _ xs] exI [of _ "row # ys"], auto\<close>)
  qed
qed (auto simp: taken_def)

lemma take_unconfirmed_Inr:
  "take_unconfirmed f eff target rows selected amount = Inr (selected', amount') \<Longrightarrow>
   \<exists>xs. selected' = selected @ xs \<and> taken f eff xs (amount' - amount) \<and> mset xs \<subseteq># mset rows"
proof (induction f eff target rows selected amount rule: take_unconfirmed.induct)
  case (2 f eff target row rows selected amount)
  show ?case
  proof (cases "amount \<ge> target")
    case True
    with 2(2) show ?thesis by (intro exI [of _ "[]"]) auto
  next
    case False
    with 2(2) obtain s a where t: "take_row f eff row selected amount = Inr (s, a)"
      and rest: "take_unconfirmed f eff target rows s a = Inr (selected', amount')" by (auto simp: and_then_Inr)
    note step = take_row_Inr [OF t]
    from "2.IH" [OF False t refl rest] obtain xs where xs: "selected' = s @ xs" "taken f eff xs (amount' - a)" "mset xs \<subseteq># mset rows"
      by blast
    then show ?thesis using step taken_append [OF step(2) xs(2)] by (intro exI [of _ "row # xs"]) auto
  qed
qed auto

lemma selectSQLiteSpendableWindow_Inr:
  assumes "selectSQLiteSpendableWindow f eff inspect target rows selected amount = Inr (selected', amount')"
  obtains xs where "selected' = selected @ xs" "taken f eff xs (amount' - amount)" "mset xs \<subseteq># mset rows"
proof -
  obtain unconfirmed s a where v: "take_verified f eff inspect target rows [] selected amount = Inr (unconfirmed, s, a)"
    and u: "take_unconfirmed f eff target unconfirmed s a = Inr (selected', amount')"
    using assms by (auto simp: selectSQLiteSpendableWindow_def and_then_Inr)
  from take_verified_Inr [OF v] obtain xs ys where xs: "s = selected @ xs" "taken f eff xs (a - amount)" "mset xs + mset ys \<subseteq># mset rows"
    "unconfirmed = [] @ ys \<or> unconfirmed = [] \<and> ys = []" by blast
  have ys: "unconfirmed = ys" using xs(4) by auto
  from take_unconfirmed_Inr [OF u] obtain zs where zs: "selected' = s @ zs" "taken f eff zs (amount' - a)" "mset zs \<subseteq># mset unconfirmed" by blast
  have "mset (xs @ zs) \<subseteq># mset rows" using subset_mset.order_trans [OF subset_mset.add_left_mono [OF zs(3), of "mset xs"]] xs(3) unfolding ys mset_append .
  then show thesis using that [of "xs @ zs"] xs(1) zs(1) taken_append [OF xs(2) zs(2)] by simp
qed

text \<open>Every window is taken from its own range of amounts, so no row is taken twice.\<close>


lemma checkedPositiveProduct_Some:
  assumes "checkedPositiveProduct left right = Some v" and "1 \<le> right"
  shows "v = left * right" "0 \<le> left" "left \<le> v"
proof -
  show v: "v = left * right" "0 \<le> left" using assms by (auto simp: checkedPositiveProduct_def split: if_splits)
  show "left \<le> v" using mult_left_mono [OF assms(2) v(2)] v(1) by simp
qed

text \<open>A window that is searched, and what the loop does after it.\<close>

lemma windows_Suc:
  assumes "windows rows f eff inspect target (Suc fuel) floor multiplier gap selected amount = Some r"
  obtains "r = Inr (selected, amount)"
  | ceiling e where "checkedPositiveProduct floor multiplier = Some ceiling" "r = Inl e"
      "selectSQLiteSpendableWindow f eff inspect target (rows floor ceiling) selected amount = Inl e"
  | ceiling selected' amount' where "checkedPositiveProduct floor multiplier = Some ceiling"
      "selectSQLiteSpendableWindow f eff inspect target (rows floor ceiling) selected amount = Inr (selected', amount')"
      "r = Inr (selected', amount') \<or> windows rows f eff inspect target fuel ceiling (multiplier * multiplier) (Suc gap) selected' amount' = Some r \<or>
       windows rows f eff inspect target fuel ceiling 100 0 selected' amount' = Some r"
proof (cases "amount < target \<and> gap < 5 \<and> (\<exists>ceiling. checkedPositiveProduct floor multiplier = Some ceiling \<and> ceiling < int64_max)")
  case False
  with assms have "r = Inr (selected, amount)" by (auto split: if_splits option.splits)
  then show thesis by (rule that(1))
next
  case True
  then obtain ceiling where c: "checkedPositiveProduct floor multiplier = Some ceiling" "ceiling < int64_max" by blast
  show thesis
  proof (cases "selectSQLiteSpendableWindow f eff inspect target (rows floor ceiling) selected amount")
    case (Inl e)
    show thesis by (rule that(2) [OF c(1) _ Inl]) (use assms True c Inl in simp)
  next
    case (Inr p)
    then obtain s a where i: "selectSQLiteSpendableWindow f eff inspect target (rows floor ceiling) selected amount = Inr (s, a)" by (cases p) auto
    show thesis by (rule that(3) [OF c(1) i]) (use assms True c i in \<open>simp split: if_splits\<close>)
  qed
qed

lemma windows_Inr:
  assumes rows: "\<And>lo hi. distinct (map TXOID (rows lo hi))"
      "\<And>lo hi row. row \<in> set (rows lo hi) \<Longrightarrow> row \<in> U \<and> lo \<le> StoredAmount row \<and> StoredAmount row < hi"
    and U: "inj_on TXOID U"
  shows "windows rows f eff inspect target fuel floor multiplier gap selected amount = Some (Inr (selected', amount')) \<Longrightarrow> 1 \<le> multiplier \<Longrightarrow>
    \<forall>row\<in>set selected. row \<in> U \<and> StoredAmount row < floor \<Longrightarrow> distinct (map TXOID selected) \<Longrightarrow> taken f eff selected amount \<Longrightarrow>
    set selected' \<subseteq> U \<and> distinct (map TXOID selected') \<and> taken f eff selected' amount'"
proof (induction fuel arbitrary: floor multiplier gap selected amount)
  case (Suc fuel)
  note mult = Suc.prems(2) and old = Suc.prems(3) and dist = Suc.prems(4) and kept = Suc.prems(5)
  from Suc.prems(1) show ?case
  proof (rule windows_Suc)
    assume "Inr (selected', amount') = Inr (selected, amount)"
    then show ?thesis using old dist kept by auto
  next
    fix ceiling s a
    assume c: "checkedPositiveProduct floor multiplier = Some ceiling"
      and w: "selectSQLiteSpendableWindow f eff inspect target (rows floor ceiling) selected amount = Inr (s, a)"
      and rest: "Inr (selected', amount') = Inr (s, a) \<or>
        windows rows f eff inspect target fuel ceiling (multiplier * multiplier) (Suc gap) s a = Some (Inr (selected', amount')) \<or>
        windows rows f eff inspect target fuel ceiling 100 0 s a = Some (Inr (selected', amount'))"
    note range = checkedPositiveProduct_Some [OF c mult]
    from w obtain xs where xs: "s = selected @ xs" "taken f eff xs (a - amount)" "mset xs \<subseteq># mset (rows floor ceiling)"
      by (rule selectSQLiteSpendableWindow_Inr)
    have row: "row \<in> U \<and> floor \<le> StoredAmount row \<and> StoredAmount row < ceiling" if "row \<in> set xs" for row
      using rows(2) [of row floor ceiling] that set_mset_mono [OF xs(3)] by auto
    have "mset (map TXOID xs) \<subseteq># mset (map TXOID (rows floor ceiling))" using image_mset_subseteq_mono [OF xs(3)] by simp
    then have d: "distinct (map TXOID xs)" using rows(1) by (rule distinct_subseteq_mset)
    have "TXOID x \<noteq> TXOID y" if "x \<in> set selected" "y \<in> set xs" for x y
    proof
      assume "TXOID x = TXOID y"
      then have "x = y" using inj_onD [OF U] that old row by blast
      then show False using that old row by fastforce
    qed
    then have "distinct (map TXOID s)" using d dist xs(1) by auto
    moreover have "taken f eff s a" using taken_append [OF kept xs(2)] xs(1) by simp
    moreover have all: "\<forall>row\<in>set s. row \<in> U \<and> StoredAmount row < ceiling" using row old xs(1) range(3) by fastforce
    moreover have "1 \<le> multiplier * multiplier" using mult_mono [of 1 multiplier 1 multiplier] mult by simp
    ultimately show ?thesis using rest Suc.IH [of ceiling "multiplier * multiplier" "Suc gap" s a] Suc.IH [of ceiling 100 0 s a] by auto
  qed simp
qed simp
text \<open>The loop ends: a floor of zero stays there and its windows are empty, any other one grows by a factor of at
  least 100.\<close>

lemma windows_end_zero:
  assumes "rows 0 0 = []" and "5 - gap \<le> fuel"
  shows "windows rows f eff inspect target (Suc fuel) 0 multiplier gap selected amount \<noteq> None"
  using assms(2)
proof (induction fuel arbitrary: gap multiplier)
  case (Suc fuel)
  have "selectSQLiteSpendableWindow f eff inspect target [] selected amount = Inr (selected, amount)"
    by (simp add: selectSQLiteSpendableWindow_def)
  moreover have "windows rows f eff inspect target (Suc fuel) 0 (multiplier * multiplier) (Suc gap) selected amount \<noteq> None"
    by (rule Suc.IH) (use Suc.prems in simp)
  ultimately show ?case
    unfolding windows.simps(2) [of rows f eff inspect target "Suc fuel"] by (simp add: checkedPositiveProduct_def assms(1) del: windows.simps)
qed simp

lemma windows_end_pos:
  assumes "1 \<le> floor" and "100 \<le> multiplier" and "int64_max \<le> floor * 100 ^ fuel"
  shows "windows rows f eff inspect target (Suc fuel) floor multiplier gap selected amount \<noteq> None"
  using assms
proof (induction fuel arbitrary: floor multiplier gap selected amount)
  case 0
  then have "int64_max \<le> v" if "checkedPositiveProduct floor multiplier = Some v" for v
    using checkedPositiveProduct_Some(3) [OF that] by simp
  then show ?case by (auto split: option.splits)
next
  case (Suc fuel)
  have rec: "windows rows f eff inspect target (Suc fuel) ceiling m gap' s a \<noteq> None"
    if c: "checkedPositiveProduct floor multiplier = Some ceiling" and m: "m = multiplier * multiplier \<or> m = 100" for ceiling m gap' s a
  proof (rule Suc.IH)
    note p = checkedPositiveProduct_Some [OF c]
    have v: "ceiling = floor * multiplier" using p(1) Suc.prems(2) by simp
    show "1 \<le> ceiling" using p(3) Suc.prems by simp
    have "1 * 100 \<le> multiplier * multiplier" by (rule mult_mono) (use Suc.prems(2) in simp_all)
    then show "100 \<le> m" using m by auto
    have "floor * 100 ^ Suc fuel \<le> ceiling * 100 ^ fuel"
      unfolding v using mult_mono [of "floor * 100" "floor * multiplier" "100 ^ fuel" "100 ^ fuel"] Suc.prems(1,2) by (simp add: mult.assoc)
    then show "int64_max \<le> ceiling * 100 ^ fuel" using Suc.prems(3) by linarith
  qed
  show ?case unfolding windows.simps(2) [of rows f eff inspect target "Suc fuel"]
    by (auto split: option.splits sum.splits dest: rec [OF _ disjI1 [OF refl]] rec [OF _ disjI2 [OF refl]] simp del: windows.simps)
qed

lemma windows_end:
  assumes "\<And>lo. rows lo lo = []" and "floor \<le> 1"
  shows "windows rows f eff inspect target window_fuel floor 100 0 selected amount \<noteq> None"
proof -
  have fuel: "window_fuel = Suc 10" by (simp add: window_fuel_def)
  consider "floor < 0" | "floor = 0" | "floor = 1" using assms(2) by linarith
  then show ?thesis
  proof cases
    case 1
    then show ?thesis unfolding fuel windows.simps by (simp add: checkedPositiveProduct_def)
  next
    case 2
    show ?thesis unfolding fuel 2 by (rule windows_end_zero) (use assms(1) in simp_all)
  next
    case 3
    show ?thesis unfolding fuel 3 by (rule windows_end_pos) (simp_all add: int64_max_def)
  qed
qed

text \<open>The search returns; it reserves what it selects, which are different open outputs worth the amount, or it
  changes nothing.\<close>

lemma GetAndReserveSpendableOutputs_cases:
  assumes ok: "db_ok db" "owned_once db" "scans scan" and "floor \<le> 1" and ids: "accountIDs \<noteq> []"
  obtains e where "GetAndReserveSpendableOutputs scan accountIDs target floor f True False eff inspect db = Some (db, Inl e)"
  | "GetAndReserveSpendableOutputs scan accountIDs target floor f True False eff inspect db = Some (db, Inr [])"
  | rows amount where "GetAndReserveSpendableOutputs scan accountIDs target floor f True False eff inspect db =
        Some (ReserveOutputs (map TXOID rows) True db, Inr rows)"
      "distinct (map TXOID rows)" "set rows \<subseteq> set (join_rows (\<lambda>o1. TxoType o1 = 0) accountIDs db)" "taken f eff rows amount" "target \<le> amount"
proof -
  let ?U = "set (join_rows (\<lambda>o1. TxoType o1 = 0) accountIDs db)"
  let ?w = "windows (spendableWindow scan db accountIDs) f eff inspect target window_fuel floor 100 0 [] 0"
  have window: "set (spendableWindow scan db accountIDs lo hi) =
      set (join_rows (\<lambda>o1. TxoType o1 = 0 \<and> lo \<le> TxoAmount o1 \<and> TxoAmount o1 < hi) accountIDs db)" for lo hi
    by (rule arg_cong [where f = set_mset, OF mset_ListSpendableOutputs(2) [OF ok(3)], unfolded set_mset_mset])
  have w1: "distinct (map TXOID (spendableWindow scan db accountIDs lo hi))" for lo hi
  proof -
    have "mset (map TXOID (spendableWindow scan db accountIDs lo hi)) =
        mset (map TXOID (join_rows (\<lambda>o1. TxoType o1 = 0 \<and> lo \<le> TxoAmount o1 \<and> TxoAmount o1 < hi) accountIDs db))"
      using mset_ListSpendableOutputs(2) [OF ok(3)] by simp
    from mset_eq_imp_distinct_iff [OF this] show ?thesis using distinct_join_rows [OF ok(1,2)] by (rule iffD2)
  qed
  have w2: "row \<in> ?U \<and> lo \<le> StoredAmount row \<and> StoredAmount row < hi" if "row \<in> set (spendableWindow scan db accountIDs lo hi)" for row lo hi
    using that unfolding window join_rows_def by (auto simp: scanSpendableOutput_def)
  have "spendableWindow scan db accountIDs lo lo = []" for lo
  proof (cases "spendableWindow scan db accountIDs lo lo")
    case (Cons row rows)
    then have "lo \<le> StoredAmount row \<and> StoredAmount row < lo" using w2 [of row lo lo] by simp
    then show ?thesis by linarith
  qed
  then have "?w \<noteq> None" using assms(4) by (rule windows_end)
  then obtain r where r: "?w = Some r" by blast
  show thesis
  proof (cases r)
    case (Inl e)
    show thesis by (rule that(1) [of e]) (simp add: GetAndReserveSpendableOutputs_def r Inl)
  next
    case (Inr p)
    then obtain rows amount where p: "?w = Some (Inr (rows, amount))" using r by (cases p) auto
    have "inj_on TXOID ?U" using distinct_join_rows [OF ok(1,2)] by (simp add: distinct_map)
    from windows_Inr [OF w1 w2 this p] have facts: "set rows \<subseteq> ?U" "distinct (map TXOID rows)" "taken f eff rows amount" by simp_all
    show thesis
    proof (cases "amount < target")
      case True
      show thesis by (rule that(2)) (simp add: GetAndReserveSpendableOutputs_def p True)
    next
      case False
      show thesis by (rule that(3) [OF _ facts(2,1,3)]) (use p False in \<open>simp_all add: GetAndReserveSpendableOutputs_def\<close>)
    qed
  qed
qed

end
