(* ===== verification/Base58.thy ===== *)
theory Base58
  imports Radix Sha2
begin

text \<open>
  Base58 and Base58Check of \<^verbatim>\<open>wallet/keys/base58.go\<close>, and the second, independent Base58 codec that
  \<^verbatim>\<open>dht/identity.go\<close> uses for the node identity file. A Go string is a list of characters, a byte
  slice a list of 8-bit words, a \<^verbatim>\<open>big.Int\<close> that is never negative a natural number.
  \<^verbatim>\<open>ripemd160\<close> is a third-party package and a parameter of \<open>Hash160\<close>.
\<close>

section \<open>The codec of wallet/keys\<close>

definition base58Alphabet :: string where
  "base58Alphabet = ''123456789ABCDEFGHJKLMNPQRSTUVWXYZabcdefghijkmnopqrstuvwxyz''"

datatype base58_error =
    EmptyBase58String
  | ErrInvalidBase58Character char
  | ErrInvalidBase58Checksum

definition Hash160 :: "(bytes \<Rightarrow> bytes) \<Rightarrow> bytes \<Rightarrow> bytes" where
  "Hash160 ripemd160 v = ripemd160 (sha256 v)"

definition doubleSHA256 :: "bytes \<Rightarrow> bytes" where
  "doubleSHA256 v = sha256 (sha256 v)"

text \<open>The division loop of \<^verbatim>\<open>encodeBase58\<close>, which appends one symbol per remainder.\<close>

function encodeBase58_loop :: "nat \<Rightarrow> string \<Rightarrow> string" where
  "encodeBase58_loop integer encoded =
     (if 0 < integer
      then encodeBase58_loop (integer div 58) (encoded @ [base58Alphabet ! (integer mod 58)])
      else encoded)"
  by pat_completeness auto
termination
  by (relation "measure fst") auto

declare encodeBase58_loop.simps [simp del]

definition encodeBase58 :: "bytes \<Rightarrow> string" where
  "encodeBase58 v =
     rev (encodeBase58_loop (be_value v) [] @
          map (\<lambda>_. base58Alphabet ! 0) (takeWhile (\<lambda>character. character = 0) v))"

fun decodeBase58_loop :: "nat \<Rightarrow> string \<Rightarrow> base58_error + nat" where
  "decodeBase58_loop integer [] = Inr integer"
| "decodeBase58_loop integer (c # cs) =
     (case IndexByte base58Alphabet c of
        None \<Rightarrow> Inl (ErrInvalidBase58Character c)
      | Some digit \<Rightarrow> decodeBase58_loop (integer * 58 + digit) cs)"

definition decodeBase58 :: "string \<Rightarrow> base58_error + bytes" where
  "decodeBase58 encoded =
     (if encoded = [] then Inl EmptyBase58String
      else case decodeBase58_loop 0 encoded of
        Inl e \<Rightarrow> Inl e
      | Inr integer \<Rightarrow>
          let decoded = (if integer = 0 then [0] else bigint_bytes integer);
              leadingZeroes = length (takeWhile (\<lambda>c. c = base58Alphabet ! 0) encoded)
          in if leadingZeroes = 0 then Inr decoded
             else Inr (replicate leadingZeroes 0 @ decoded))"

definition EncodeBase58Check :: "bytes \<Rightarrow> string" where
  "EncodeBase58Check payload = encodeBase58 (payload @ take 4 (doubleSHA256 payload))"

definition DecodeBase58Check :: "string \<Rightarrow> base58_error + bytes" where
  "DecodeBase58Check encoded =
     (case decodeBase58 encoded of
        Inl e \<Rightarrow> Inl e
      | Inr decoded \<Rightarrow>
          if length decoded < 4 then Inl ErrInvalidBase58Checksum
          else let payload = take (length decoded - 4) decoded
               in if drop (length decoded - 4) decoded \<noteq> take 4 (doubleSHA256 payload)
                  then Inl ErrInvalidBase58Checksum
                  else Inr payload)"

section \<open>The codec of dht/identity.go\<close>

function encodeNodeIDBase58_loop :: "nat \<Rightarrow> string \<Rightarrow> string" where
  "encodeNodeIDBase58_loop number encoded =
     (if 0 < number
      then let quotient = number div 58; remainder = number mod 58
           in encodeNodeIDBase58_loop quotient (encoded @ [base58Alphabet ! remainder])
      else encoded)"
  by pat_completeness auto
termination
  by (relation "measure fst") auto

declare encodeNodeIDBase58_loop.simps [simp del]

definition encodeNodeIDBase58 :: "bytes \<Rightarrow> string" where
  "encodeNodeIDBase58 v =
     (let leadingZeroes = length (takeWhile (\<lambda>b. b = 0) v)
      in rev (encodeNodeIDBase58_loop (be_value v) [] @ replicate leadingZeroes (base58Alphabet ! 0)))"

fun decodeNodeIDBase58_loop :: "nat \<Rightarrow> string \<Rightarrow> base58_error + nat" where
  "decodeNodeIDBase58_loop number [] = Inr number"
| "decodeNodeIDBase58_loop number (c # cs) =
     (case IndexByte base58Alphabet c of
        None \<Rightarrow> Inl (ErrInvalidBase58Character c)
      | Some digit \<Rightarrow> decodeNodeIDBase58_loop (number * 58 + digit) cs)"

definition decodeNodeIDBase58 :: "string \<Rightarrow> base58_error + bytes" where
  "decodeNodeIDBase58 v =
     (case decodeNodeIDBase58_loop 0 v of
        Inl e \<Rightarrow> Inl e
      | Inr number \<Rightarrow>
          Inr (replicate (length (takeWhile (\<lambda>c. c = base58Alphabet ! 0) v)) 0 @ bigint_bytes number))"

section \<open>The alphabet is a positional alphabet\<close>

lemma length_base58Alphabet [simp]: "length base58Alphabet = 58"
  by (simp add: base58Alphabet_def)

lemma distinct_base58Alphabet [simp]: "distinct base58Alphabet"
  by (simp add: base58Alphabet_def)

interpretation b58: positional_alphabet 58 "\<lambda>d. base58Alphabet ! d" "IndexByte base58Alphabet"
proof unfold_locales
  show "(2 :: nat) \<le> 58" by simp
  show "IndexByte base58Alphabet (base58Alphabet ! d) = Some d" if "d < 58" for d
    using that by (simp add: IndexByte_nth)
  show "d < 58 \<and> base58Alphabet ! d = c" if "IndexByte base58Alphabet c = Some d" for c d
    using IndexByte_Some [OF that] by simp
qed

lemma encodeBase58_loop_eq:
  "encodeBase58_loop n acc = acc @ map (\<lambda>d. base58Alphabet ! d) (digits_le 58 n)"
proof (induction n acc rule: encodeBase58_loop.induct)
  case (1 n acc)
  show ?case
  proof (cases "0 < n")
    case True
    with 1 show ?thesis by (simp add: encodeBase58_loop.simps [of n acc] digits_le_step)
  next
    case False
    then show ?thesis by (simp add: encodeBase58_loop.simps [of 0])
  qed
qed

lemma encodeNodeIDBase58_loop_eq: "encodeNodeIDBase58_loop n acc = encodeBase58_loop n acc"
proof (induction n acc rule: encodeNodeIDBase58_loop.induct)
  case (1 n acc)
  then show ?case
    by (simp add: encodeBase58_loop.simps [of n acc] encodeNodeIDBase58_loop.simps [of n acc])
qed

lemma decodeBase58_loop_eq:
  "decodeBase58_loop v cs = (case horner 58 (IndexByte base58Alphabet) v cs of
     Inl c \<Rightarrow> Inl (ErrInvalidBase58Character c) | Inr n \<Rightarrow> Inr n)"
  by (induction cs arbitrary: v) (simp_all split: option.split)

lemma decodeNodeIDBase58_loop_eq: "decodeNodeIDBase58_loop v cs = decodeBase58_loop v cs"
  by (induction cs arbitrary: v) (simp_all split: option.split)

lemmas base58_loop_simps =
  encodeBase58_loop_eq encodeNodeIDBase58_loop_eq decodeBase58_loop_eq decodeNodeIDBase58_loop_eq

section \<open>Leading zeros\<close>

text \<open>
  An encoding is one zero symbol per leading zero byte, followed by the numeral of the rest. The
  three lemmas below say so, and that the decoder separates the two parts again.
\<close>

abbreviation zeros :: "bytes \<Rightarrow> nat" where
  "zeros v \<equiv> length (takeWhile (\<lambda>b. b = 0) v)"

lemma encodeBase58_eq:
  "encodeBase58 v =
     replicate (zeros v) (base58Alphabet ! 0) @ map (\<lambda>d. base58Alphabet ! d) (rev (digits_le 58 (be_value v)))"
  by (simp add: encodeBase58_def base58_loop_simps map_replicate_const rev_map)

lemma encodeNodeIDBase58_eq: "encodeNodeIDBase58 v = encodeBase58 v"
  by (simp add: encodeNodeIDBase58_def encodeBase58_def base58_loop_simps map_replicate_const)

lemma decodeBase58_loop_encode:
  "decodeBase58_loop 0 (encodeBase58 v) = Inr (be_value v)"
  by (simp add: encodeBase58_eq base58_loop_simps b58.horner_leading_zeros b58.horner_digits)

lemma takeWhile_encodeBase58:
  "length (takeWhile (\<lambda>c. c = base58Alphabet ! 0) (encodeBase58 v)) = zeros v"
proof (cases "be_value v = 0")
  case True
  then show ?thesis by (simp add: encodeBase58_eq)
next
  case False
  let ?ds = "map (\<lambda>d. base58Alphabet ! d) (rev (digits_le 58 (be_value v)))"
  from False have "?ds \<noteq> []" and "hd ?ds \<noteq> base58Alphabet ! 0"
    using b58.hd_symbol_digits [of "be_value v"] by simp_all
  then have "takeWhile (\<lambda>c. c = base58Alphabet ! 0) ?ds = []"
    by (cases ?ds) auto
  then show ?thesis by (simp add: encodeBase58_eq takeWhile_replicate_append)
qed

lemma zeros_all: "v = replicate (length v) 0 \<longleftrightarrow> be_value v = 0"
  by (metis be_value_eq_0_iff in_set_replicate replicate_length_same)

lemma zeros_of_zero:
  assumes "be_value v = 0"
  shows "zeros v = length v"
proof -
  have "takeWhile (\<lambda>b. b = 0) v = v"
    using assms by (simp add: be_value_eq_0_iff takeWhile_eq_all_conv)
  then show ?thesis by (rule arg_cong)
qed

lemma encodeBase58_eq_Nil_iff: "encodeBase58 v = [] \<longleftrightarrow> v = []"
proof (cases "be_value v = 0")
  case True
  then show ?thesis by (simp add: encodeBase58_eq zeros_of_zero)
next
  case False
  then have "v \<noteq> []" by (auto simp: be_value_def)
  with False show ?thesis by (simp add: encodeBase58_eq)
qed

section \<open>Round trips\<close>

lemma decodeBase58_encode_nonzero:
  assumes "be_value v \<noteq> 0"
  shows "decodeBase58 (encodeBase58 v) = Inr v"
proof -
  from assms have "v \<noteq> []" by (auto simp: be_value_def)
  with assms show ?thesis
    using leading_zeros_split [of v]
    by (auto simp: decodeBase58_def encodeBase58_eq_Nil_iff decodeBase58_loop_encode
        takeWhile_encodeBase58 Let_def bigint_bytes_be_value)
qed

lemma decodeBase58_encode_zeros:
  assumes "v \<noteq> []" and "be_value v = 0"
  shows "decodeBase58 (encodeBase58 v) = Inr (v @ [0])"
proof -
  have "v = replicate (length v) 0" using assms(2) by (simp add: zeros_all)
  with assms show ?thesis
    by (simp add: decodeBase58_def encodeBase58_eq_Nil_iff decodeBase58_loop_encode
        takeWhile_encodeBase58 zeros_of_zero Let_def)
qed

text \<open>
  Decoding an encoding: the empty value has no encoding the decoder accepts, a value of zero
  bytes only comes back with one extra zero byte (as the comment on \<^verbatim>\<open>DecodeBase58\<close> says), and every
  other value comes back unchanged.
\<close>

theorem decodeBase58_encodeBase58:
  "decodeBase58 (encodeBase58 v) =
     (if v = [] then Inl EmptyBase58String
      else if v = replicate (length v) 0 then Inr (v @ [0])
      else Inr v)"
proof (cases "v = []")
  case True
  then show ?thesis
    by (simp add: decodeBase58_def encodeBase58_eq_Nil_iff)
next
  case False
  then show ?thesis
    by (simp add: zeros_all decodeBase58_encode_nonzero decodeBase58_encode_zeros)
qed

text \<open>A string with a symbol other than the zero symbol is the only encoding of its value.\<close>

lemma encodeBase58_decode:
  assumes "decodeBase58 s = Inr v" and "s \<noteq> replicate (length s) (base58Alphabet ! 0)"
  shows "encodeBase58 v = s"
proof -
  let ?z = "base58Alphabet ! 0"
  let ?k = "length (takeWhile (\<lambda>c. c = ?z) s)"
  let ?r = "dropWhile (\<lambda>c. c = ?z) s"
  have tw: "takeWhile (\<lambda>c. c = ?z) s = replicate ?k ?z"
    by (rule replicate_length_same [symmetric]) (auto dest: set_takeWhileD)
  then have split: "s = replicate ?k ?z @ ?r"
    by (metis takeWhile_dropWhile_id)
  with assms(2) have r: "?r \<noteq> []"
    by (metis append_Nil2 length_replicate)
  then have hd_r: "hd ?r \<noteq> ?z" by (rule hd_dropWhile)
  obtain n where loop: "decodeBase58_loop 0 s = Inr n"
    using assms(1) by (auto simp: decodeBase58_def split: if_splits sum.splits)
  then have "horner 58 (IndexByte base58Alphabet) 0 (replicate ?k ?z @ ?r) = Inr n"
    using split by (simp add: decodeBase58_loop_eq split: sum.splits)
  then have hr: "horner 58 (IndexByte base58Alphabet) 0 ?r = Inr n"
    by (simp only: b58.horner_leading_zeros)
  have n: "0 < n" and digits: "map (\<lambda>d. base58Alphabet ! d) (rev (digits_le 58 n)) = ?r"
    using b58.horner_pos [OF hr r hd_r] b58.horner_canonical [OF hr r hd_r] by auto
  have v: "v = replicate ?k 0 @ bigint_bytes n"
    using assms(1) loop n by (auto simp: decodeBase58_def Let_def split: if_splits)
  have "zeros v = ?k"
    using bigint_bytes_hd [OF n]
    by (cases "bigint_bytes n") (simp_all add: v takeWhile_replicate_append)
  moreover have "be_value v = n"
    by (simp add: v)
  ultimately show ?thesis
    using digits split by (simp add: encodeBase58_eq)
qed

lemma DecodeBase58Check_encode:
  assumes "be_value (payload @ take 4 (doubleSHA256 payload)) \<noteq> 0"
  shows "DecodeBase58Check (EncodeBase58Check payload) = Inr payload"
proof -
  have "length (take 4 (doubleSHA256 payload)) = 4"
    by (simp add: doubleSHA256_def)
  moreover have "decodeBase58 (EncodeBase58Check payload) = Inr (payload @ take 4 (doubleSHA256 payload))"
    unfolding EncodeBase58Check_def by (rule decodeBase58_encode_nonzero [OF assms])
  ultimately show ?thesis
    by (simp add: DecodeBase58Check_def Let_def)
qed

lemma encodeBase58_zero_symbols:
  assumes "encodeBase58 v = replicate k (base58Alphabet ! 0)"
  shows "be_value v = 0"
  using decodeBase58_loop_encode [of v] b58.horner_leading_zeros [of k "[]"] assms
  by (simp add: decodeBase58_loop_eq)

text \<open>
  C14. Base58Check: what \<^verbatim>\<open>EncodeBase58Check\<close> writes, \<^verbatim>\<open>DecodeBase58Check\<close> accepts and returns, for
  every payload that has a nonzero byte or a nonzero checksum. (A payload of zeros with a zero
  checksum would fall under the extra zero byte of the plain codec.)
\<close>

theorem DecodeBase58Check_EncodeBase58Check:
  assumes "payload @ take 4 (doubleSHA256 payload) \<noteq> replicate (length payload + 4) 0"
  shows "DecodeBase58Check (EncodeBase58Check payload) = Inr payload"
proof (rule DecodeBase58Check_encode)
  have "length (payload @ take 4 (doubleSHA256 payload)) = length payload + 4"
    by (simp add: doubleSHA256_def)
  then show "be_value (payload @ take 4 (doubleSHA256 payload)) \<noteq> 0"
    using assms by (metis zeros_all)
qed

theorem DecodeBase58Check_EncodeBase58Check_witness:
  "DecodeBase58Check (EncodeBase58Check [85, 1, 2]) = Inr [85, 1, 2]"
  by (rule DecodeBase58Check_EncodeBase58Check) (simp add: numeral_eq_Suc)

text \<open>
  C15. Every string \<^verbatim>\<open>DecodeBase58Check\<close> accepts carries the checksum of the payload it returns, and
  (unless it consists of zero symbols only) is the encoding of that payload: no two different
  address strings decode to one payload.
\<close>

theorem DecodeBase58Check_sound:
  assumes "DecodeBase58Check s = Inr payload"
    and "s \<noteq> replicate (length s) (base58Alphabet ! 0)"
  shows "decodeBase58 s = Inr (payload @ take 4 (doubleSHA256 payload)) \<and> s = EncodeBase58Check payload"
proof -
  obtain d where d: "decodeBase58 s = Inr d" "payload = take (length d - 4) d"
      "drop (length d - 4) d = take 4 (doubleSHA256 payload)"
    using assms(1) by (auto simp: DecodeBase58Check_def Let_def split: sum.splits if_splits)
  then have "decodeBase58 s = Inr (payload @ take 4 (doubleSHA256 payload))"
    by (metis append_take_drop_id)
  moreover from this have "s = EncodeBase58Check payload"
    using encodeBase58_decode [OF _ assms(2)] by (simp add: EncodeBase58Check_def)
  ultimately show ?thesis by simp
qed

theorem DecodeBase58Check_sound_witness:
  "decodeBase58 (EncodeBase58Check [85]) = Inr ([85] @ take 4 (doubleSHA256 [85]))"
proof -
  have nz: "be_value ([85] @ take 4 (doubleSHA256 [85])) \<noteq> 0"
    by (auto simp: be_value_eq_0_iff)
  have "EncodeBase58Check [85] \<noteq> replicate k (base58Alphabet ! 0)" for k
    using encodeBase58_zero_symbols [of "[85] @ take 4 (doubleSHA256 [85])" k] nz
    unfolding EncodeBase58Check_def by blast
  from DecodeBase58Check_sound [OF DecodeBase58Check_encode [OF nz] this] show ?thesis by blast
qed

text \<open>
  The node identity codec of the DHT has no special case: decoding an encoding returns the
  value, whatever it is. Its encoder prints the same string as the wallet's.
\<close>

theorem decodeNodeIDBase58_encodeNodeIDBase58:
  "decodeNodeIDBase58 (encodeNodeIDBase58 v) = Inr v \<and> encodeNodeIDBase58 v = encodeBase58 v"
  using leading_zeros_split [of v]
  by (simp add: decodeNodeIDBase58_def encodeNodeIDBase58_eq decodeNodeIDBase58_loop_eq
      decodeBase58_loop_encode takeWhile_encodeBase58 bigint_bytes_be_value)

end
