(* ===== verification/Funding.thy ===== *)
theory Funding
  imports Balancing Spendables Base58
begin

text \<open>
  Transactions paid from the accounts of a wallet, \<^verbatim>\<open>wallet/transaction_balancing_accounts.go\<close>: the callbacks
  of the balance loop on the ledger database. Accounts refer to their ledger and wallet by address, so
  that the comparisons of pointers are comparisons of addresses; the databases are in the state the
  callbacks thread, with one opaque part for everything else (address chains, keys). The value of a
  configured fee and the strategy are fields of the ledger, as \<^verbatim>\<open>transactionLedgerFeeValue\<close> and
  \<^verbatim>\<open>pythonJSONTruthy\<close> give them. The reservation lock makes the selection one step.
\<close>

section \<open>Ledgers and accounts\<close>

datatype strategy = NoStrategy | Strategy string | OtherStrategy

record Ledger =
  fee_per_byte :: "string + int"
  fee_per_name_char :: "string + int"
  CoinSelectionStrategy :: strategy

record Account =
  AccountID :: string
  AccountLedger :: "nat option"
  AccountWallet :: "nat option"
  HasChange :: bool

datatype funding_error =
    FundingAccountNil | FundingLedgerMismatch | FundingWalletMismatch | ChangeLedgerMismatch | ChangeWalletMismatch
  | NoLedger | NoWallet | InvalidLedgerFee string | ReservationUnavailable | ChangeAccountUnavailable
  | UnknownTransactionStrategy | OutputOutOfRange | NegativeStoredAmount | InvalidStoredTransactionID
  | Balance balance_error | Build build_error | ParseFailed | Spendable | SelectFailed select_error
  | AddressFailed base58_error | PanicInSelection

text \<open>One round of the loop over the funding accounts: both baselines are set while there is no ledger.\<close>

fun baseline :: "Account option list \<Rightarrow> nat option \<Rightarrow> nat option \<Rightarrow> funding_error + nat option \<times> nat option" where
  "baseline [] ledger wallet = Inr (ledger, wallet)"
| "baseline (None # accounts) ledger wallet = Inl FundingAccountNil"
| "baseline (Some account # accounts) ledger wallet =
     (let ledger1 = (if ledger = None then AccountLedger account else ledger);
          wallet1 = (if ledger = None then AccountWallet account else wallet)
      in if ledger1 \<noteq> AccountLedger account then Inl FundingLedgerMismatch
         else if wallet1 \<noteq> AccountWallet account then Inl FundingWalletMismatch
         else baseline accounts ledger1 wallet1)"

definition transactionCreateLedgerAndWallet :: "Account option list \<Rightarrow> Account option \<Rightarrow> funding_error + nat \<times> nat" where
  "transactionCreateLedgerAndWallet fundingAccounts changeAccount =
     and_then (baseline fundingAccounts None None) (\<lambda>(ledger, wallet).
     and_then (case changeAccount of
                 None \<Rightarrow> Inr ()
               | Some account \<Rightarrow>
                   if AccountLedger account \<noteq> ledger then Inl ChangeLedgerMismatch
                   else if AccountWallet account \<noteq> wallet then Inl ChangeWalletMismatch
                   else Inr ()) (\<lambda>_.
       case (ledger, wallet) of
         (None, _) \<Rightarrow> Inl NoLedger
       | (_, None) \<Rightarrow> Inl NoWallet
       | (Some l, Some w) \<Rightarrow> Inr (l, w)))"

definition transactionChangeAddressHash :: "string \<Rightarrow> funding_error + bytes" where
  "transactionChangeAddressHash address =
     (case decodeBase58 address of
        Inl e \<Rightarrow> Inl (AddressFailed e)
      | Inr decoded \<Rightarrow>
          if length decoded \<le> 1 then Inr []
          else Inr (drop 1 (take (min (length decoded) 21) decoded)))"

section \<open>The fee policy of a ledger\<close>

definition ledger_fee :: "string + int \<Rightarrow> balance_error + int" where
  "ledger_fee v = (case v of Inl e \<Rightarrow> Inl (CallbackFailed e) | Inr fee \<Rightarrow> Inr fee)"

definition transactionLedgerFeePolicy :: "Ledger option \<Rightarrow> TransactionFeePolicy" where
  "transactionLedgerFeePolicy ledger =
     (let feePerByte = (case ledger of None \<Rightarrow> Inl (CallbackFailed ''No ledger found.'') | Some l \<Rightarrow> ledger_fee (fee_per_byte l));
          feePerNameCharacter = (case ledger of None \<Rightarrow> Inl (CallbackFailed ''No ledger found.'') | Some l \<Rightarrow> ledger_fee (fee_per_name_char l))
      in \<lparr>BaseFee = (\<lambda>b. and_then feePerByte (\<lambda>f. Legacy_BaseFee f b)),
          InputFee = (\<lambda>input. and_then feePerByte (\<lambda>f. Legacy_InputFee f input)),
          OutputFee = (\<lambda>out. and_then feePerByte (\<lambda>f.
            and_then (if IsClaimName (OutputScript out) then feePerNameCharacter else Inr 0) (\<lambda>g. Legacy_OutputFee f g out)))\<rparr>)"

section \<open>Reservations\<close>

definition TransactionOutput_ID :: "TransactionOutput \<Rightarrow> bytes" where
  "TransactionOutput_ID out = str (TransactionID out) @ str '':'' @ FormatUint (unat (OutputPosition out))"

text \<open>\<^verbatim>\<open>None\<close> among the outputs: an input that is not resolved.\<close>

definition ReserveTransactionOutputs ::
  "TransactionOutput option list \<Rightarrow> bool \<Rightarrow> LedgerDB option \<Rightarrow> LedgerDB option \<times> funding_error option" where
  "ReserveTransactionOutputs outputs isReserved database =
     (case database of
        None \<Rightarrow> (None, Some ReservationUnavailable)
      | Some db \<Rightarrow>
          if None \<in> set outputs then (Some db, Some ReservationUnavailable)
          else (Some (ReserveOutputs (map (TransactionOutput_ID \<circ> the) outputs) isReserved db), None))"

definition ReleaseTransaction :: "Building \<Rightarrow> LedgerDB option \<Rightarrow> LedgerDB option \<times> funding_error option" where
  "ReleaseTransaction b database = ReserveTransactionOutputs (Resolved b) False database"

section \<open>Selecting spendable outputs\<close>

definition transactionHashFromID :: "string \<Rightarrow> funding_error + bytes" where
  "transactionHashFromID txid =
     (case DecodeString txid of
        None \<Rightarrow> Inl InvalidStoredTransactionID
      | Some display \<Rightarrow> if length display \<noteq> 32 then Inl InvalidStoredTransactionID else Inr (rev display))"

definition transactionOutputFromStored :: "string \<Rightarrow> int \<Rightarrow> int \<Rightarrow> bytes \<Rightarrow> funding_error + TransactionOutput" where
  "transactionOutputFromStored txid position amount script =
     (if position < 0 \<or> position > 0xffffffff then Inl OutputOutOfRange
      else if amount < 0 then Inl NegativeStoredAmount
      else and_then (transactionHashFromID txid) (\<lambda>hash.
        Inr \<lparr>TransactionID = txid, TransactionHash = hash, OutputPosition = of_int position, Amount = of_int amount,
             OutputScript = ParseTransactionOutputScript script\<rparr>))"

definition balanced :: "balance_error + 'a \<Rightarrow> funding_error + 'a" where
  "balanced r = (case r of Inl e \<Rightarrow> Inl (Balance e) | Inr x \<Rightarrow> Inr x)"

definition built :: "build_error + 'a \<Rightarrow> funding_error + 'a" where
  "built r = (case r of Inl e \<Rightarrow> Inl (Build e) | Inr x \<Rightarrow> Inr x)"

definition transactionCoinSelectionEstimator :: "TransactionFeePolicy \<Rightarrow> SpendableOutputRow \<Rightarrow> funding_error + CoinSelectionEstimator" where
  "transactionCoinSelectionEstimator policy row =
     and_then (transactionOutputFromStored (TXID row) (StoredPosition row) (StoredAmount row) (StoredScript row)) (\<lambda>out.
     and_then (built (NewSpendInput (Some out))) (\<lambda>input.
     and_then (balanced (InputFee policy (fst input))) (\<lambda>fee.
     and_then (balanced (transactionBalanceUint64 (Amount out))) (\<lambda>amount.
     and_then (balanced (subtractTransactionBalanceAmount amount fee)) (\<lambda>effectiveAmount.
       Inr \<lparr>SpendInput = input, EffectiveAmount = effectiveAmount, Fee = fee, Height = StoredHeight row\<rparr>)))))"

text \<open>All results or the first error.\<close>

fun collect :: "('a \<Rightarrow> 'e + 'b) \<Rightarrow> 'a list \<Rightarrow> 'e + 'b list" where
  "collect f [] = Inr []"
| "collect f (x # xs) = and_then (f x) (\<lambda>y. and_then (collect f xs) (\<lambda>ys. Inr (y # ys)))"

definition account_estimators ::
  "(SpendableOutputRow list \<Rightarrow> SpendableOutputRow list) \<Rightarrow> TransactionFeePolicy \<Rightarrow> LedgerDB \<Rightarrow> Account option \<Rightarrow>
   funding_error + CoinSelectionEstimator list" where
  "account_estimators scan policy db account =
     (case account of
        None \<Rightarrow> Inl FundingAccountNil
      | Some a \<Rightarrow> collect (transactionCoinSelectionEstimator policy) (ListSpendableOutputs scan db [AccountID a]))"

definition in_memory_inputs ::
  "(SpendableOutputRow list \<Rightarrow> SpendableOutputRow list) \<Rightarrow> ('r \<Rightarrow> draw \<times> 'r) \<Rightarrow> 'r \<Rightarrow> TransactionFeePolicy \<Rightarrow> strategy \<Rightarrow> int \<Rightarrow> int \<Rightarrow>
   Account option list \<Rightarrow> LedgerDB \<Rightarrow> LedgerDB \<times> (funding_error + TransactionSpendable list)" where
  "in_memory_inputs scan next r policy strategyValue amount costOfChange fundingAccounts db =
     (case collect (account_estimators scan policy db) fundingAccounts of
        Inl e \<Rightarrow> (db, Inl e)
      | Inr rows \<Rightarrow>
          let estimators = concat rows; selector = NewCoinSelector amount costOfChange r
          in if strategyValue = OtherStrategy then
               if length estimators = 0 \<or> Target selector > coinSelectionAvailable estimators then (db, Inr [])
               else (db, Inl UnknownTransactionStrategy)
             else
               (case Select next selector estimators (case strategyValue of Strategy s \<Rightarrow> s | _ \<Rightarrow> '''') of
                  None \<Rightarrow> (db, Inl PanicInSelection)
                | Some (Inl e) \<Rightarrow> (db, Inl (SelectFailed e))
                | Some (Inr (_, _, selected)) \<Rightarrow>
                    if None \<in> set (map (snd \<circ> SpendInput) selected) then (db, Inl (Build ErrUnattachedTransactionOutput))
                    else
                      let outputIDs = map (TransactionOutput_ID \<circ> the \<circ> snd \<circ> SpendInput) selected
                      in (if length outputIDs > 0 then ReserveOutputs outputIDs True db else db,
                          Inr (map TransactionSpendable.truncate selected))))"

subsection \<open>Selection by SQLite\<close>

text \<open>The parent of a row; the code keeps it by transaction identifier, the primary key of the table.\<close>

definition decodeParent :: "bytes \<Rightarrow> funding_error + Transaction" where
  "decodeParent raw = (case ParseTransaction raw of Inl _ \<Rightarrow> Inl ParseFailed | Inr parent \<Rightarrow> Inr parent)"

definition parent_output :: "Transaction \<Rightarrow> int \<Rightarrow> funding_error + TransactionOutput" where
  "parent_output parent position =
     (if position < 0 \<or> position > 0xffffffff \<or> nat position \<ge> length (Outputs parent) then Inl OutputOutOfRange
      else Inr (Outputs parent ! nat position))"

definition row_effective_amount :: "TransactionFeePolicy \<Rightarrow> SpendableOutputRow \<Rightarrow> funding_error + int" where
  "row_effective_amount policy row =
     and_then (decodeParent (StoredRaw row)) (\<lambda>parent.
     and_then (parent_output parent (StoredPosition row)) (\<lambda>out.
     and_then (built (NewSpendInput (Some out))) (\<lambda>input.
     and_then (balanced (InputFee policy (fst input))) (\<lambda>fee.
       balanced (subtractTransactionBalanceAmount (StoredAmount row) fee)))))"

definition row_inspect :: "SpendableOutputRow \<Rightarrow> funding_error option" where
  "row_inspect row = (case decodeParent (StoredRaw row) of Inl e \<Rightarrow> Some e | Inr _ \<Rightarrow> None)"

type_synonym parent_key = "bytes \<times> int \<times> bool"

definition parent_key :: "SpendableOutputRow \<Rightarrow> parent_key" where
  "parent_key row = (StoredRaw row, StoredHeight row, IsVerified row)"

fun add_group :: "parent_key \<Rightarrow> int \<Rightarrow> (parent_key \<times> int list) list \<Rightarrow> (parent_key \<times> int list) list" where
  "add_group key position [] = [(key, [position])]"
| "add_group key position ((key', positions) # groups) =
     (if key = key' then (key', positions @ [position]) # groups else (key', positions) # add_group key position groups)"

definition parent_groups :: "SpendableOutputRow list \<Rightarrow> (parent_key \<times> int list) list" where
  "parent_groups rows = fold (\<lambda>row. add_group (parent_key row) (StoredPosition row)) rows []"

definition parent_spendable :: "TransactionFeePolicy \<Rightarrow> Transaction \<Rightarrow> int \<Rightarrow> funding_error + TransactionSpendable" where
  "parent_spendable policy parent position =
     and_then (parent_output parent position) (\<lambda>out.
     and_then (built (NewSpendInput (Some out))) (\<lambda>input.
     and_then (balanced (InputFee policy (fst input))) (\<lambda>fee.
     and_then (balanced (transactionBalanceUint64 (Amount out))) (\<lambda>inputAmount.
     and_then (balanced (subtractTransactionBalanceAmount inputAmount fee)) (\<lambda>effectiveAmount.
       Inr \<lparr>SpendInput = input, EffectiveAmount = effectiveAmount\<rparr>)))))"

definition group_spendables :: "TransactionFeePolicy \<Rightarrow> (parent_key \<times> int list) list \<Rightarrow> funding_error + TransactionSpendable list" where
  "group_spendables policy groups =
     and_then (collect (\<lambda>((raw, _, _), positions). and_then (decodeParent raw) (\<lambda>parent. Inr (parent, positions))) groups) (\<lambda>parents.
     and_then (collect (\<lambda>(parent, positions). collect (parent_spendable policy parent) positions) parents) (\<lambda>spendables.
       Inr (concat spendables)))"

definition getSQLiteSpendableTransactionInputs ::
  "(SpendableOutputRow list \<Rightarrow> SpendableOutputRow list) \<Rightarrow> TransactionFeePolicy \<Rightarrow> int \<Rightarrow> int \<Rightarrow> int \<Rightarrow> Account option list \<Rightarrow>
   LedgerDB \<Rightarrow> LedgerDB \<times> (funding_error + TransactionSpendable list)" where
  "getSQLiteSpendableTransactionInputs scan policy feePerByte amount costOfChange fundingAccounts db =
     (if None \<in> set fundingAccounts then (db, Inl FundingAccountNil)
      else
        case balanced (addTransactionBalanceAmount amount costOfChange) of
          Inl e \<Rightarrow> (db, Inl e)
        | Inr reserveAmount \<Rightarrow>
            let tenth = (if amount < 0 then - (- amount div 10) else amount div 10);
                minimumAmount = (if tenth < 1 then tenth else 1)
            in (case GetAndReserveSpendableOutputs scan (map (AccountID \<circ> the) fundingAccounts) reserveAmount minimumAmount feePerByte
                       True False (Some (row_effective_amount policy)) (Some row_inspect) db of
                  None \<Rightarrow> (db, Inl PanicInSelection)
                | Some (db', Inl (SpendableCallback e)) \<Rightarrow> (db', Inl e)
                | Some (db', Inl ErrSpendableAmountOverflow) \<Rightarrow> (db', Inl Spendable)
                | Some (db', Inr rows) \<Rightarrow>
                    if length rows = 0 then (db', Inr []) else (db', group_spendables policy (parent_groups rows))))"

subsection \<open>The selector of a ledger\<close>

definition GetSpendableTransactionInputs ::
  "(SpendableOutputRow list \<Rightarrow> SpendableOutputRow list) \<Rightarrow> ('r \<Rightarrow> draw \<times> 'r) \<Rightarrow> 'r \<Rightarrow> Ledger \<Rightarrow> int \<Rightarrow> Account option list \<Rightarrow>
   LedgerDB option \<Rightarrow> LedgerDB option \<times> (funding_error + TransactionSpendable list)" where
  "GetSpendableTransactionInputs scan next r ledger amount fundingAccounts database =
     (case database of
        None \<Rightarrow> (None, Inl ReservationUnavailable)
      | Some db \<Rightarrow>
          (case fee_per_byte ledger of
             Inl e \<Rightarrow> (Some db, Inl (InvalidLedgerFee e))
           | Inr feePerByte \<Rightarrow>
               let policy = LegacyTransactionFeePolicy feePerByte 0
               in case balanced (OutputFee policy dummyChange) of
                    Inl e \<Rightarrow> (Some db, Inl e)
                  | Inr costOfChange \<Rightarrow>
                      apfst Some
                        (if CoinSelectionStrategy ledger = Strategy ''sqlite''
                         then getSQLiteSpendableTransactionInputs scan policy feePerByte amount costOfChange fundingAccounts db
                         else in_memory_inputs scan next r policy (CoinSelectionStrategy ledger) amount costOfChange fundingAccounts db)))"

section \<open>Creating a transaction\<close>

record 'c world =
  Databases :: "nat \<Rightarrow> LedgerDB option"
  Others :: 'c

definition describe :: "funding_error \<Rightarrow> string" where
  "describe e =
     (case e of
        FundingLedgerMismatch \<Rightarrow> ''All funding accounts used to create a transaction must be on the same ledger.''
      | FundingWalletMismatch \<Rightarrow> ''All funding accounts used to create a transaction must be from the same wallet.''
      | ChangeLedgerMismatch \<Rightarrow> ''Change account must use same ledger as funding accounts.''
      | ChangeWalletMismatch \<Rightarrow> ''Change account must use same wallet as funding accounts.''
      | NoLedger \<Rightarrow> ''No ledger found.''
      | NoWallet \<Rightarrow> ''No wallet found.''
      | FundingAccountNil \<Rightarrow> ''funding account is nil''
      | ReservationUnavailable \<Rightarrow> ''transaction output reservation is unavailable''
      | ChangeAccountUnavailable \<Rightarrow> ''transaction change account is unavailable''
      | UnknownTransactionStrategy \<Rightarrow> ''unknown transaction coin selection strategy''
      | _ \<Rightarrow> ''funding failed'')"

definition described :: "funding_error + 'a \<Rightarrow> string + 'a" where
  "described r = (case r of Inl e \<Rightarrow> Inl (describe e) | Inr x \<Rightarrow> Inr x)"

definition select_inputs ::
  "(SpendableOutputRow list \<Rightarrow> SpendableOutputRow list) \<Rightarrow> ('r \<Rightarrow> draw \<times> 'r) \<Rightarrow> ('c \<Rightarrow> 'r \<times> 'c) \<Rightarrow> nat \<Rightarrow> Ledger \<Rightarrow>
   Account option list \<Rightarrow> 'c world \<Rightarrow> int \<Rightarrow> 'c world \<times> (string + TransactionSpendable list)" where
  "select_inputs scan next seed address ledger fundingAccounts w deficit =
     (let (r, others) = seed (Others w);
          (database, selected) = GetSpendableTransactionInputs scan next r ledger deficit fundingAccounts (Databases w address)
      in (w\<lparr>Databases := (Databases w)(address := database), Others := others\<rparr>, described selected))"

definition release_inputs :: "nat \<Rightarrow> 'c world \<Rightarrow> Building \<Rightarrow> 'c world \<times> string option" where
  "release_inputs address w b =
     (let (database, e) = ReleaseTransaction b (Databases w address)
      in (w\<lparr>Databases := (Databases w)(address := database)\<rparr>, map_option describe e))"

text \<open>The options of \<^verbatim>\<open>CreateTransaction\<close>. \<open>heap\<close> holds the ledgers by address; the seed of a selector, the address
  chain of the change account and the signer are the other parts of the wallet.\<close>

definition create_options ::
  "(SpendableOutputRow list \<Rightarrow> SpendableOutputRow list) \<Rightarrow> ('r \<Rightarrow> draw \<times> 'r) \<Rightarrow> ('c \<Rightarrow> 'r \<times> 'c) \<Rightarrow> (nat \<Rightarrow> Ledger) \<Rightarrow>
   (Account \<Rightarrow> 'c world \<Rightarrow> 'c world \<times> (string + string)) \<Rightarrow> ('c world \<Rightarrow> Building \<Rightarrow> 'c world \<times> Building \<times> string option) \<Rightarrow>
   spend list \<Rightarrow> TransactionOutput list \<Rightarrow> Account option list \<Rightarrow> Account option \<Rightarrow> bool \<Rightarrow> 'c world TransactionBalanceOptions" where
  "create_options scan next seed heap changeAddress signer inputs outputs fundingAccounts changeAccount doSign =
     (let chosen = transactionCreateLedgerAndWallet fundingAccounts changeAccount;
          address = (case chosen of Inl _ \<Rightarrow> 0 | Inr (l, _) \<Rightarrow> l)
      in \<lparr>OptInputs = inputs, OptOutputs = outputs,
          Validate = Some (\<lambda>_. case chosen of Inl e \<Rightarrow> Some (describe e) | Inr _ \<Rightarrow> None),
          FeePolicy = Some (transactionLedgerFeePolicy (case chosen of Inl _ \<Rightarrow> None | Inr (l, _) \<Rightarrow> Some (heap l))),
          SelectSpendables = Some (select_inputs scan next seed address (heap address) fundingAccounts),
          ChangeAddress = Some (\<lambda>w. case changeAccount of
              None \<Rightarrow> (w, Inl (describe ChangeAccountUnavailable))
            | Some a \<Rightarrow> if HasChange a then changeAddress a w else (w, Inl (describe ChangeAccountUnavailable))),
          AddressHash = Some (\<lambda>w text. (w, described (case changeAccount of
              None \<Rightarrow> Inl ChangeAccountUnavailable
            | Some a \<Rightarrow> if AccountLedger a = None then Inl ChangeAccountUnavailable else transactionChangeAddressHash text))),
          Signer = Some signer,
          Release = Some (release_inputs address),
          SkipSigning = \<not> doSign\<rparr>)"

definition CreateTransaction ::
  "(SpendableOutputRow list \<Rightarrow> SpendableOutputRow list) \<Rightarrow> ('r \<Rightarrow> draw \<times> 'r) \<Rightarrow> ('c \<Rightarrow> 'r \<times> 'c) \<Rightarrow> (nat \<Rightarrow> Ledger) \<Rightarrow>
   (Account \<Rightarrow> 'c world \<Rightarrow> 'c world \<times> (string + string)) \<Rightarrow> ('c world \<Rightarrow> Building \<Rightarrow> 'c world \<times> Building \<times> string option) \<Rightarrow>
   spend list \<Rightarrow> TransactionOutput list \<Rightarrow> Account option list \<Rightarrow> Account option \<Rightarrow> bool \<Rightarrow> 'c world \<Rightarrow> 'c world \<times> (balance_error + Building)" where
  "CreateTransaction scan next seed heap changeAddress signer inputs outputs fundingAccounts changeAccount doSign w =
     CreateBalancedTransaction (create_options scan next seed heap changeAddress signer inputs outputs fundingAccounts changeAccount doSign) w"

section \<open>Every strategy returns a part of the coins\<close>

definition part_of :: "CoinSelectionEstimator list \<Rightarrow> 'r selection option \<Rightarrow> bool" where
  "part_of es r \<longleftrightarrow> (\<exists>sel es' picked. r = Some (sel, es', picked) \<and> mset es' = mset es \<and> mset picked \<subseteq># mset es)"

lemma search_loop_returns: "books es s \<Longrightarrow> search_loop target cost es left s \<noteq> None"
proof (induction left arbitrary: s)
  case (Suc left)
  show ?case
  proof (cases "search_step target cost es s")
    case (Continue s1)
    with Suc.IH [OF books_step(1) [OF Suc.prems Continue]] show ?thesis by simp
  qed (use search_step_in_range [OF Suc.prems] in simp_all)
qed simp

lemma BranchAndBound_part: "part_of es (BranchAndBound sel es (coinSelectionAvailable es))"
proof -
  let ?es = "sort_key (\<lambda>e. - EffectiveAmount e) es"
  have "coinSelectionAvailable es = wrap64 (total ?es)" by (simp add: coinSelectionAvailable_total total_mset [of ?es es])
  then have "books ?es (search_start (CostOfChange sel) (coinSelectionAvailable es))"
    by (simp add: books_def search_start_def val_def chosen_def total_def wrap64_def)
  from search_loop_returns [OF this] obtain s n b where
    "search_loop (Target sel) (CostOfChange sel) ?es (nat (100000 - Tries sel)) (search_start (CostOfChange sel) (coinSelectionAvailable es)) = Some (s, n, b)"
    by (metis not_None_eq prod_cases3)
  then show ?thesis using chosen_subset [of ?es "rev (bestSelection s)"] by (auto simp: part_of_def BranchAndBound_def Let_def)
qed

lemma closest_member: "closest target es best = Some (c, e) \<Longrightarrow> e \<in> set es \<or> best = Some (c, e)"
  by (induction target es best rule: closest.induct) (auto simp: Let_def split: if_splits option.splits)

lemma ClosestMatch_part: "part_of es (Some (ClosestMatch sel es))"
  using closest_member [of "wrap64 (Target sel + CostOfChange sel)" es None]
  by (auto simp: part_of_def ClosestMatch_def Let_def split: option.split)

lemma draw_until_prefix: "draw_until target amount es = Some picked \<Longrightarrow> mset picked \<subseteq># mset es"
  by (induction target amount es arbitrary: picked rule: draw_until.induct) (auto simp: Let_def split: if_splits)

lemma part_of_trans: "part_of es' r \<Longrightarrow> mset es' = mset es \<Longrightarrow> part_of es r"
  by (simp add: part_of_def)

context coin_random
begin

lemma RandomDraw_part: "es \<noteq> [] \<Longrightarrow> part_of es (RandomDraw next sel es)"
proof -
  assume "es \<noteq> []"
  then obtain r' es' where "shuffle next (length es - 1) (random sel) es = Some (r', es')" "mset es' = mset es"
    using shuffle_permutes [of "length es - 1" es "random sel"] by auto
  then show ?thesis using draw_until_prefix [of "wrap64 (Target sel + CostOfChange sel)" 0 es']
    by (auto simp: part_of_def RandomDraw_def Let_def split: option.split)
qed

lemma Standard_part: "es \<noteq> [] \<Longrightarrow> part_of es (Standard next sel es (coinSelectionAvailable es))"
proof -
  assume ne: "es \<noteq> []"
  obtain sel1 es1 picked where b: "BranchAndBound sel es (coinSelectionAvailable es) = Some (sel1, es1, picked)"
    "mset es1 = mset es" "mset picked \<subseteq># mset es" using BranchAndBound_part [of es sel] by (auto simp: part_of_def)
  obtain picked2 where c: "ClosestMatch sel1 es1 = (sel1, es1, picked2)" by (simp add: ClosestMatch_def Let_def)
  have "es1 \<noteq> []" using ne b(2) by auto
  from part_of_trans [OF ClosestMatch_part [of es1 sel1] b(2)] part_of_trans [OF RandomDraw_part [OF this, of sel1] b(2)]
  show ?thesis using b by (simp add: Standard_def c) (simp add: part_of_def)
qed

lemma OnlyConfirmed_part: "part_of es (OnlyConfirmed next sel es)"
proof (cases "filter (\<lambda>e. Height e > 0) es = []")
  case False
  have "mset (filter (\<lambda>e. Height e > 0) es) \<subseteq># mset es" by (simp add: mset_filter)
  with Standard_part [OF False, of sel] show ?thesis
    by (auto simp: part_of_def OnlyConfirmed_def Let_def intro: subset_mset.order_trans [OF _ multiset_filter_subset])
qed (simp add: part_of_def OnlyConfirmed_def)

lemma PreferConfirmed_part: "es \<noteq> [] \<Longrightarrow> part_of es (PreferConfirmed next sel es (coinSelectionAvailable es))"
proof -
  assume ne: "es \<noteq> []"
  obtain sel1 es1 picked where b: "OnlyConfirmed next sel es = Some (sel1, es1, picked)" "mset picked \<subseteq># mset es" "mset es1 = mset es"
    using OnlyConfirmed_part [of es sel] by (auto simp: part_of_def)
  have "coinSelectionAvailable es1 = coinSelectionAvailable es" by (simp add: coinSelectionAvailable_total total_mset [OF b(3)])
  moreover have "es1 \<noteq> []" using ne b(3) by auto
  ultimately have "part_of es (Standard next sel1 es1 (coinSelectionAvailable es))" using part_of_trans [OF Standard_part b(3)] by metis
  then show ?thesis using b by (simp add: PreferConfirmed_def) (simp add: part_of_def)
qed

lemma Select_part:
  "(\<exists>e. Select next sel es strategy = Some (Inl e)) \<or> (\<exists>r. Select next sel es strategy = Some (Inr r) \<and> part_of es (Some r))"
proof (cases "es = []")
  case True
  then show ?thesis by (auto simp: Select_def part_of_def)
next
  case ne: False
  define good where "good r \<longleftrightarrow> (\<exists>e. r = Some (Inl e)) \<or> (\<exists>s. r = Some (Inr s) \<and> part_of es (Some s))"
    for r :: "(select_error + 'r selection) option"
  have branch: "good r \<Longrightarrow> good r' \<Longrightarrow> good (if P then r else r')" for P r r' by simp
  have lift: "part_of es r \<Longrightarrow> good (map_option Inr r)" for r by (auto simp: part_of_def good_def)
  have other: "good (Some (Inl e))" "good (Some (Inr (ClosestMatch sel es)))" "good (Some (Inr (sel, es, [])))" for e
    using ClosestMatch_part [of es sel] by (auto simp: good_def part_of_def)
  have "good (Select next sel es strategy)" unfolding Select_def Let_def
    by (intro branch lift other Standard_part OnlyConfirmed_part PreferConfirmed_part BranchAndBound_part RandomDraw_part ne)
  then show ?thesis by (simp add: good_def)
qed

end

section \<open>Selected outputs\<close>

text \<open>The identifiers of the outputs that spends refer to.\<close>

definition spend_ids :: "TransactionSpendable list \<Rightarrow> bytes list" where
  "spend_ids ss = map (TransactionOutput_ID \<circ> the \<circ> snd \<circ> SpendInput) ss"

definition resolved :: "TransactionSpendable list \<Rightarrow> bool" where
  "resolved ss \<longleftrightarrow> (\<forall>s\<in>set ss. snd (SpendInput s) \<noteq> None)"

lemma collect_Inr: "collect f xs = Inr ys \<longleftrightarrow> list_all2 (\<lambda>x y. f x = Inr y) xs ys"
proof (induction xs arbitrary: ys)
  case (Cons x xs)
  show ?case by (cases ys) (auto simp: and_then_Inr Cons.IH)
qed auto

lemma NewSpendInput_resolved: "NewSpendInput (Some out) = Inr input \<Longrightarrow> snd input = Some out"
  by (auto simp: NewSpendInput_def and_then_Inr ensureSpendableOutputAttached_def spend_of_def split: if_splits sum.splits)

lemma built_Inr [simp]: "built r = Inr x \<longleftrightarrow> r = Inr x" "balanced b = Inr y \<longleftrightarrow> b = Inr y"
  by (auto simp: built_def balanced_def split: sum.splits)

lemma unat_of_int_u32: "0 \<le> i \<Longrightarrow> i \<le> 0xffffffff \<Longrightarrow> unat (of_int i :: u32) = nat i"
proof -
  assume i: "0 \<le> i" "i \<le> 0xffffffff"
  have "uint (of_int i :: u32) = i mod 4294967296" by (simp add: uint_word_of_int)
  also have "\<dots> = i" using i by (intro mod_pos_pos_trivial) simp_all
  finally show ?thesis by (metis unat_eq_nat_uint)
qed

lemma stored_output_ID:
  assumes "transactionOutputFromStored txid position amount script = Inr out"
  shows "TransactionOutput_ID out = str txid @ str '':'' @ FormatUint (nat position)"
  using assms by (auto simp: transactionOutputFromStored_def TransactionOutput_ID_def and_then_Inr unat_of_int_u32 split: if_splits)

lemma estimator_row:
  assumes "transactionCoinSelectionEstimator policy row = Inr e"
  shows "\<exists>out. snd (SpendInput e) = Some out \<and> TransactionOutput_ID out = str (TXID row) @ str '':'' @ FormatUint (nat (StoredPosition row))"
  using assms by (auto simp: transactionCoinSelectionEstimator_def and_then_Inr dest!: NewSpendInput_resolved stored_output_ID)

lemma row_TXOID:
  assumes "db_ok db" "row \<in> set (join_rows keep ids db)"
  shows "TXOID row = str (TXID row) @ str '':'' @ FormatUint (nat (StoredPosition row))"
  using assms(2) by (rule join_row) (use assms(1) in \<open>auto simp: db_ok_def scanSpendableOutput_def\<close>)

definition estimator_ids :: "CoinSelectionEstimator list \<Rightarrow> bytes list" where
  "estimator_ids es = map (TransactionOutput_ID \<circ> the \<circ> snd \<circ> SpendInput) es"

lemma account_estimators_ids:
  assumes "account_estimators scan policy db account = Inr es" and "db_ok db" and "scans scan"
  shows "None \<notin> set (map (snd \<circ> SpendInput) es)"
    "estimator_ids es = map TXOID (ListSpendableOutputs scan db [AccountID (the account)])" "account \<noteq> None"
proof -
  from assms(1) obtain a where a: "account = Some a"
    and l: "list_all2 (\<lambda>row e. transactionCoinSelectionEstimator policy row = Inr e) (ListSpendableOutputs scan db [AccountID a]) es"
    by (auto simp: account_estimators_def collect_Inr split: option.splits)
  have rows: "set (ListSpendableOutputs scan db [AccountID a]) = set (join_rows (\<lambda>o1. TxoType o1 \<in> {0, 4}) [AccountID a] db)"
    by (rule arg_cong [where f = set_mset, OF mset_ListSpendableOutputs(1) [OF assms(3)], unfolded set_mset_mset])
  have step: "\<exists>out. snd (SpendInput e) = Some out \<and> TransactionOutput_ID out = TXOID row"
    if "row \<in> set (ListSpendableOutputs scan db [AccountID a])" "transactionCoinSelectionEstimator policy row = Inr e" for row e
    using estimator_row [OF that(2)] row_TXOID [OF assms(2) that(1) [unfolded rows]] by simp
  from l step have "list_all2 (\<lambda>row e. \<exists>out. snd (SpendInput e) = Some out \<and> TransactionOutput_ID out = TXOID row) (ListSpendableOutputs scan db [AccountID a]) es"
    by (rule list.rel_mono_strong)
  then have "estimator_ids es = map TXOID (ListSpendableOutputs scan db [AccountID a]) \<and> None \<notin> set (map (snd \<circ> SpendInput) es)"
    by (induction rule: list_all2_induct) (auto simp: estimator_ids_def)
  then show "None \<notin> set (map (snd \<circ> SpendInput) es)"
    "estimator_ids es = map TXOID (ListSpendableOutputs scan db [AccountID (the account)])" "account \<noteq> None" by (simp_all add: a)
qed

lemma all_estimators_ids:
  assumes "collect (account_estimators scan policy db) accounts = Inr rows" and "db_ok db" and "scans scan"
  shows "None \<notin> set (map (snd \<circ> SpendInput) (concat rows))"
    "estimator_ids (concat rows) = map TXOID (concat (map (\<lambda>a. ListSpendableOutputs scan db [a]) (map (AccountID \<circ> the) accounts)))"
proof -
  have "list_all2 (\<lambda>account es. account_estimators scan policy db account = Inr es) accounts rows"
    using assms(1) by (simp add: collect_Inr)
  then have "None \<notin> set (map (snd \<circ> SpendInput) (concat rows)) \<and>
      estimator_ids (concat rows) = map TXOID (concat (map (\<lambda>a. ListSpendableOutputs scan db [a]) (map (AccountID \<circ> the) accounts)))"
  proof (induction rule: list_all2_induct)
    case (Cons account accounts es rows)
    note one = account_estimators_ids [OF Cons(1) assms(2,3)]
    have "estimator_ids (concat (es # rows)) = estimator_ids es @ estimator_ids (concat rows)" by (simp add: estimator_ids_def)
    with one Cons show ?case by auto
  qed (simp add: estimator_ids_def)
  then show "None \<notin> set (map (snd \<circ> SpendInput) (concat rows))"
    "estimator_ids (concat rows) = map TXOID (concat (map (\<lambda>a. ListSpendableOutputs scan db [a]) (map (AccountID \<circ> the) accounts)))" by simp_all
qed

text \<open>What a selection does to the reservations: it fails and changes nothing, or it reserves the outputs it
  returns, which were open and, in a wallet where nothing is listed twice, are all different.\<close>

definition selects :: "string list \<Rightarrow> LedgerDB \<Rightarrow> LedgerDB \<times> (funding_error + TransactionSpendable list) \<Rightarrow> bool" where
  "selects accountIDs db = (\<lambda>(db', r). case r of
      Inl _ \<Rightarrow> db' = db
    | Inr ss \<Rightarrow> resolved ss \<and> db' = ReserveOutputs (spend_ids ss) True db \<and> set (spend_ids ss) \<subseteq> open_outputs accountIDs db \<and>
        (owned_once db \<and> distinct accountIDs \<longrightarrow> distinct (spend_ids ss)))"

lemma ReserveOutputs_Nil [simp]: "ReserveOutputs [] f db = db"
  by (simp add: ReserveOutputs_def)

lemma selects_none [simp]: "selects ids db (db, Inl e)" "selects ids db (db, Inr [])"
  by (simp_all add: selects_def resolved_def spend_ids_def)

lemma in_memory_selects:
  assumes "coin_random next" and ok: "db_ok db" and scan: "scans scan"
  shows "selects (map (AccountID \<circ> the) accounts) db (in_memory_inputs scan next r policy strategyValue amount cost accounts db)"
proof (cases "collect (account_estimators scan policy db) accounts")
  case (Inl e)
  then show ?thesis by (simp add: in_memory_inputs_def)
next
  case (Inr rows)
  let ?ids = "map (AccountID \<circ> the) accounts"
  let ?rows = "concat (map (\<lambda>a. ListSpendableOutputs scan db [a]) ?ids)"
  note ids = all_estimators_ids [OF Inr ok scan]
  show ?thesis
  proof (cases "strategyValue = OtherStrategy")
    case True
    then show ?thesis by (simp add: in_memory_inputs_def Inr)
  next
    case False
    let ?s = "case strategyValue of Strategy s \<Rightarrow> s | _ \<Rightarrow> ''''"
    from coin_random.Select_part [OF assms(1), of "NewCoinSelector amount cost r" "concat rows" ?s]
    consider e where "Select next (NewCoinSelector amount cost r) (concat rows) ?s = Some (Inl e)"
      | sel es' picked where "Select next (NewCoinSelector amount cost r) (concat rows) ?s = Some (Inr (sel, es', picked))" "mset picked \<subseteq># mset (concat rows)"
      unfolding part_of_def by blast
    then show ?thesis
    proof cases
      case 1
      with False show ?thesis by (simp add: in_memory_inputs_def Inr)
    next
      case 2
      have sub: "set picked \<subseteq> set (concat rows)" using set_mset_mono [OF 2(2)] by simp
      have none: "None \<notin> set (map (snd \<circ> SpendInput) picked)" using ids(1) sub by auto
      have "mset (estimator_ids picked) \<subseteq># mset (estimator_ids (concat rows))"
        unfolding estimator_ids_def mset_map using 2(2) by (rule image_mset_subseteq_mono)
      then have sub_ids: "mset (estimator_ids picked) \<subseteq># mset (map TXOID ?rows)" unfolding ids(2) .
      have "row \<in> set ?rows \<Longrightarrow> TXOID row \<in> open_outputs ?ids db" for row
      proof -
        assume "row \<in> set ?rows"
        then obtain a where a: "a \<in> set ?ids" "row \<in> set (ListSpendableOutputs scan db [a])" by auto
        then have "row \<in> set (join_rows (\<lambda>o1. TxoType o1 \<in> {0, 4}) [a] db)"
          using arg_cong [where f = set_mset, OF mset_ListSpendableOutputs(1) [OF scan, of db "[a]"], unfolded set_mset_mset] by simp
        from join_row_TXOID [OF this] a(1) show ?thesis unfolding open_outputs_def by auto
      qed
      then have open_ids: "set (estimator_ids picked) \<subseteq> open_outputs ?ids db" using set_mset_mono [OF sub_ids] unfolding set_mset_mset set_map by blast
      have dist: "distinct (estimator_ids picked)" if "owned_once db" "distinct ?ids"
        using distinct_subseteq_mset [OF sub_ids distinct_account_rows [OF ok that(1) scan that(2)]] .
      let ?ss = "map TransactionSpendable.truncate picked"
      have t: "SpendInput (TransactionSpendable.truncate e) = SpendInput e" for e :: CoinSelectionEstimator by (simp add: TransactionSpendable.truncate_def)
      have same: "spend_ids ?ss = estimator_ids picked" by (simp add: spend_ids_def estimator_ids_def comp_def t)
      have "snd (SpendInput e) \<noteq> None" if "e \<in> set picked" for e
        using none imageI [OF that, of "snd \<circ> SpendInput"] by (metis comp_apply set_map)
      then have "resolved ?ss" by (auto simp: resolved_def t simp del: not_None_eq)
      moreover have "in_memory_inputs scan next r policy strategyValue amount cost accounts db = (ReserveOutputs (spend_ids ?ss) True db, Inr ?ss)"
        using False 2(1) none unfolding same by (cases picked) (simp_all add: in_memory_inputs_def Inr Let_def estimator_ids_def comp_def)
      ultimately show ?thesis using open_ids dist by (simp add: selects_def same)
    qed
  qed
qed

subsection \<open>Selection by SQLite\<close>

text \<open>A stored row agrees with the parent transaction that is stored with it.\<close>

definition row_ok :: "SpendableOutputRow \<Rightarrow> bool" where
  "row_ok row \<longleftrightarrow> (\<exists>parent. ParseTransaction (StoredRaw row) = Inr parent \<and> 0 \<le> StoredPosition row \<and>
     nat (StoredPosition row) < length (Outputs parent) \<and> StoredPosition row \<le> 0xffffffff \<and>
     TransactionOutput_ID (Outputs parent ! nat (StoredPosition row)) = TXOID row \<and>
     Amount (Outputs parent ! nat (StoredPosition row)) = of_int (StoredAmount row) \<and> 0 \<le> StoredAmount row \<and> is_int64 (StoredAmount row))"

definition raw_ok :: "LedgerDB \<Rightarrow> bool" where
  "raw_ok db \<longleftrightarrow> (\<forall>o1\<in>set (txo db). \<forall>t\<in>set (tx db). RowTXID t = TxoTXID o1 \<longrightarrow> row_ok (scanSpendableOutput o1 t))"

lemma join_row_ok: "raw_ok db \<Longrightarrow> row \<in> set (join_rows keep ids db) \<Longrightarrow> row_ok row"
  by (erule join_row) (simp add: raw_ok_def)

lemma uint_of_int_u64: "0 \<le> i \<Longrightarrow> is_int64 i \<Longrightarrow> uint (of_int i :: u64) = i"
  by (simp add: uint_word_of_int is_int64_def int64_max_def)

lemma row_spendable:
  assumes "row_ok row" and "row_effective_amount policy row = Inr v" and "decodeParent (StoredRaw row) = Inr parent"
  obtains s where "parent_spendable policy parent (StoredPosition row) = Inr s" "snd (SpendInput s) \<noteq> None"
    "TransactionOutput_ID (the (snd (SpendInput s))) = TXOID row" "EffectiveAmount s = v"
proof -
  let ?out = "Outputs parent ! nat (StoredPosition row)"
  from assms(1,3) have row: "TransactionOutput_ID ?out = TXOID row" "Amount ?out = of_int (StoredAmount row)" "0 \<le> StoredAmount row" "is_int64 (StoredAmount row)"
    "parent_output parent (StoredPosition row) = Inr ?out"
    by (auto simp: row_ok_def decodeParent_def parent_output_def)
  have amount: "transactionBalanceUint64 (Amount ?out) = Inr (StoredAmount row)"
    using row(2-4) by (simp add: transactionBalanceUint64_def uint_of_int_u64)
  from assms(2) obtain input fee where i: "NewSpendInput (Some ?out) = Inr input" "InputFee policy (fst input) = Inr fee"
    "subtractTransactionBalanceAmount (StoredAmount row) fee = Inr v"
    by (auto simp: row_effective_amount_def assms(3) row(5) and_then_Inr)
  have "parent_spendable policy parent (StoredPosition row) = Inr \<lparr>SpendInput = input, EffectiveAmount = v\<rparr>"
    using i unfolding parent_spendable_def row(5) by (simp add: built_def balanced_def amount del: amount_Inr)
  then show thesis by (rule that) (simp_all add: NewSpendInput_resolved [OF i(1)] row(1))
qed

lemma mset_add_group:
  "mset (concat (map (\<lambda>(k, ps). map (Pair k) ps) (add_group key position groups))) =
   add_mset (key, position) (mset (concat (map (\<lambda>(k, ps). map (Pair k) ps) groups)))"
  by (induction key position groups rule: add_group.induct) auto

lemma mset_parent_groups:
  "mset (concat (map (\<lambda>(k, ps). map (Pair k) ps) (parent_groups rows))) = mset (map (\<lambda>row. (parent_key row, StoredPosition row)) rows)"
proof -
  have "mset (concat (map (\<lambda>(k, ps). map (Pair k) ps) (fold (\<lambda>row. add_group (parent_key row) (StoredPosition row)) rows groups))) =
      mset (map (\<lambda>row. (parent_key row, StoredPosition row)) rows) + mset (concat (map (\<lambda>(k, ps). map (Pair k) ps) groups))" for groups
    by (induction rows arbitrary: groups) (simp_all add: mset_add_group)
  then show ?thesis by (simp add: parent_groups_def)
qed

text \<open>The spends of groups whose members all have one.\<close>

lemma group_spendables_Inr:
  assumes "\<And>key position. (key, position) \<in> set (concat (map (\<lambda>(k, ps). map (Pair k) ps) groups)) \<Longrightarrow>
      \<exists>parent. decodeParent (fst key) = Inr parent \<and> parent_spendable policy parent position = Inr (S (key, position))"
    and "[] \<notin> snd ` set groups"
  shows "group_spendables policy groups = Inr (map S (concat (map (\<lambda>(k, ps). map (Pair k) ps) groups)))"
proof -
  define P where "P key = (case decodeParent (fst key) of Inr parent \<Rightarrow> parent | Inl _ \<Rightarrow> undefined)" for key :: parent_key
  have parent: "decodeParent (fst key) = Inr (P key)" "\<And>p. p \<in> set ps \<Longrightarrow> parent_spendable policy (P key) p = Inr (S (key, p))"
    if group: "(key, ps) \<in> set groups" for key ps
  proof -
    have member: "\<exists>parent. decodeParent (fst key) = Inr parent \<and> parent_spendable policy parent p = Inr (S (key, p))" if "p \<in> set ps" for p
    proof (rule assms(1))
      have "(key, p) \<in> set (map (Pair key) ps)" using \<open>p \<in> set ps\<close> by simp
      moreover have "map (Pair key) ps \<in> set (map (\<lambda>(k, ps). map (Pair k) ps) groups)"
        using imageI [OF group, of "\<lambda>(k, ps). map (Pair k) ps"] by simp
      ultimately show "(key, p) \<in> set (concat (map (\<lambda>(k, ps). map (Pair k) ps) groups))" unfolding set_concat by blast
    qed
    have "ps \<noteq> []" using imageI [OF group, of snd] assms(2) by (metis snd_conv)
    then obtain p where "p \<in> set ps" by (cases ps) auto
    then obtain parent where "decodeParent (fst key) = Inr parent" using member by blast
    then show d: "decodeParent (fst key) = Inr (P key)" by (simp add: P_def)
    fix p assume "p \<in> set ps"
    with member d show "parent_spendable policy (P key) p = Inr (S (key, p))" by fastforce
  qed
  have "collect (\<lambda>((raw, _, _), ps). and_then (decodeParent raw) (\<lambda>parent. Inr (parent, ps))) groups = Inr (map (\<lambda>(k, ps). (P k, ps)) groups)"
    unfolding collect_Inr list_all2_map2 list_all2_same using parent(1) by fastforce
  moreover have "collect (\<lambda>(parent, ps). collect (parent_spendable policy parent) ps) (map (\<lambda>(k, ps). (P k, ps)) groups) =
      Inr (map (\<lambda>(k, ps). map (\<lambda>p. S (k, p)) ps) groups)"
    unfolding collect_Inr list_all2_map1 list_all2_map2 list_all2_same using parent(2) by (auto simp: collect_Inr list_all2_map2 list_all2_same)
  moreover have "concat (map (\<lambda>(k, ps). map (\<lambda>p. S (k, p)) ps) gs) = map S (concat (map (\<lambda>(k, ps). map (Pair k) ps) gs))" for gs
    by (induction gs) auto
  ultimately show ?thesis by (simp add: group_spendables_def)
qed

lemma parent_groups_nonempty: "[] \<notin> snd ` set (parent_groups rows)"
proof -
  have add: "[] \<notin> snd ` set groups \<Longrightarrow> [] \<notin> snd ` set (add_group k p groups)" for k p groups
    by (induction k p groups rule: add_group.induct) auto
  have "[] \<notin> snd ` set groups \<Longrightarrow> [] \<notin> snd ` set (fold (\<lambda>row. add_group (parent_key row) (StoredPosition row)) rows groups)" for groups
    by (induction rows arbitrary: groups) (simp_all add: add)
  from this [of "[]"] show ?thesis unfolding parent_groups_def by simp
qed

lemma row_effective_sqlite:
  "sqliteSpendableEffectiveAmount f (Some (row_effective_amount policy)) row = Inr v \<longleftrightarrow> row_effective_amount policy row = Inr v"
  by (auto simp: sqliteSpendableEffectiveAmount_def split: sum.splits)

text \<open>A spend of an output of a decoded parent.\<close>

definition parent_spend :: "TransactionFeePolicy \<Rightarrow> TransactionSpendable \<Rightarrow> bool" where
  "parent_spend policy s \<longleftrightarrow> (\<exists>raw parent position. decodeParent raw = Inr parent \<and> parent_spendable policy parent position = Inr s)"

lemma selected_spendables:
  assumes "\<forall>row\<in>set rows. row_ok row \<and> row_effective_amount policy row = Inr (V row)"
  obtains ss where "group_spendables policy (parent_groups rows) = Inr ss" "resolved ss" "mset (spend_ids ss) = mset (map TXOID rows)"
    "worth ss = (\<Sum>row\<leftarrow>rows. V row)" "\<forall>s\<in>set ss. parent_spend policy s"
proof -
  let ?members = "concat (map (\<lambda>(k, ps). map (Pair k) ps) (parent_groups rows))"
  let ?pair = "\<lambda>row. (parent_key row, StoredPosition row)"
  define good where "good m s \<longleftrightarrow> (\<exists>parent. decodeParent (fst (fst m)) = Inr parent \<and> parent_spendable policy parent (snd m) = Inr s)"
    for m :: "parent_key \<times> int" and s
  define S where "S m = (SOME s. good m s)" for m
  have ex: "\<exists>s. good (?pair row) s \<and> snd (SpendInput s) \<noteq> None \<and> TransactionOutput_ID (the (snd (SpendInput s))) = TXOID row \<and> EffectiveAmount s = V row"
    if row: "row \<in> set rows" for row
  proof -
    have v: "row_ok row" "row_effective_amount policy row = Inr (V row)" using assms row by blast+
    then obtain parent where p: "decodeParent (StoredRaw row) = Inr parent" by (auto simp: row_effective_amount_def and_then_Inr)
    from row_spendable [OF v p] obtain s where "parent_spendable policy parent (StoredPosition row) = Inr s" "snd (SpendInput s) \<noteq> None"
      "TransactionOutput_ID (the (snd (SpendInput s))) = TXOID row" "EffectiveAmount s = V row" by blast
    then show ?thesis unfolding good_def parent_key_def fst_conv snd_conv p by blast
  qed
  have unique: "good m s \<Longrightarrow> good m s' \<Longrightarrow> s = s'" for m s s' by (auto simp: good_def)
  have row: "good (?pair row) (S (?pair row)) \<and> snd (SpendInput (S (?pair row))) \<noteq> None \<and>
    TransactionOutput_ID (the (snd (SpendInput (S (?pair row))))) = TXOID row \<and> EffectiveAmount (S (?pair row)) = V row" if r: "row \<in> set rows" for row
  proof -
    obtain s where s: "good (?pair row) s" "snd (SpendInput s) \<noteq> None" "TransactionOutput_ID (the (snd (SpendInput s))) = TXOID row" "EffectiveAmount s = V row"
      using ex [OF r] by blast
    have "good (?pair row) (S (?pair row))" unfolding S_def using s(1) by (rule someI)
    from unique [OF this s(1)] s show ?thesis by simp
  qed
  have sets: "set ?members = ?pair ` set rows"
    using arg_cong [OF mset_parent_groups, of set_mset rows] by (simp only: set_mset_mset set_map)
  have "group_spendables policy (parent_groups rows) = Inr (map S ?members)"
  proof (rule group_spendables_Inr [OF _ parent_groups_nonempty])
    fix key position
    assume "(key, position) \<in> set ?members"
    then obtain row where "row \<in> set rows" "(key, position) = ?pair row" unfolding sets by blast
    with row [of row] show "\<exists>parent. decodeParent (fst key) = Inr parent \<and> parent_spendable policy parent position = Inr (S (key, position))"
      by (simp add: good_def)
  qed
  moreover have "resolved (map S ?members)" unfolding resolved_def set_map sets using row by blast
  moreover have "mset (spend_ids (map S ?members)) = mset (map TXOID rows)"
  proof -
    let ?id = "\<lambda>m. TransactionOutput_ID (the (snd (SpendInput (S m))))"
    have "mset (spend_ids (map S ?members)) = image_mset ?id (mset ?members)" by (simp add: spend_ids_def comp_def)
    also have "\<dots> = image_mset ?id (image_mset ?pair (mset rows))" unfolding mset_parent_groups mset_map ..
    also have "\<dots> = image_mset TXOID (mset rows)"
      unfolding multiset.map_comp by (rule image_mset_cong) (use row in simp)
    finally show ?thesis by simp
  qed
  moreover have "worth (map S ?members) = (\<Sum>row\<leftarrow>rows. V row)"
  proof -
    have "worth (map S ?members) = sum_mset (image_mset (\<lambda>m. EffectiveAmount (S m)) (mset ?members))"
      unfolding worth_def by (simp add: sum_mset_sum_list [symmetric] comp_def)
    also have "\<dots> = sum_mset (image_mset (\<lambda>m. EffectiveAmount (S m)) (image_mset ?pair (mset rows)))" unfolding mset_parent_groups mset_map ..
    also have "image_mset (\<lambda>m. EffectiveAmount (S m)) (image_mset ?pair (mset rows)) = image_mset V (mset rows)"
      unfolding multiset.map_comp by (rule image_mset_cong) (use row in simp)
    finally show ?thesis by (simp add: sum_mset_sum_list [symmetric])
  qed
  moreover have "\<forall>s\<in>set (map S ?members). parent_spend policy s" unfolding set_map sets parent_spend_def using row unfolding good_def by blast
  ultimately show thesis by (rule that)
qed

lemma ReserveOutputs_mset: "mset ids = mset ids' \<Longrightarrow> ReserveOutputs ids f db = ReserveOutputs ids' f db"
proof -
  assume eq: "mset ids = mset ids'"
  have "ReserveOutputs ids f db = db\<lparr>txo := map (\<lambda>o1. if TxoID o1 \<in> set ids then o1\<lparr>TxoReserved := f\<rparr> else o1) (txo db)\<rparr>" for ids
    unfolding ReserveOutputs_def by (induction ids arbitrary: db) (simp_all add: reserve_one_def)
  then show ?thesis using mset_eq_setD [OF eq] by simp
qed

text \<open>What a selection by SQLite returns: an error or nothing, or the spends of rows that reach the target.\<close>

lemma sqlite_cases:
  assumes ok: "db_ok db" "owned_once db" "raw_ok db" and scan: "scans scan" and ne: "accounts \<noteq> []"
  obtains e where "getSQLiteSpendableTransactionInputs scan policy f amount cost accounts db = (db, Inl e)"
  | "getSQLiteSpendableTransactionInputs scan policy f amount cost accounts db = (db, Inr [])"
  | rows ss where "getSQLiteSpendableTransactionInputs scan policy f amount cost accounts db = (ReserveOutputs (spend_ids ss) True db, Inr ss)"
      "distinct (map TXOID rows)" "set rows \<subseteq> set (join_rows (\<lambda>o1. TxoType o1 = 0) (map (AccountID \<circ> the) accounts) db)"
      "resolved ss" "mset (spend_ids ss) = mset (map TXOID rows)" "amount + cost \<le> worth ss" "\<forall>s\<in>set ss. parent_spend policy s"
proof (cases "None \<in> set accounts \<or> \<not> is_int64 (amount + cost)")
  case True
  then have "\<exists>e. getSQLiteSpendableTransactionInputs scan policy f amount cost accounts db = (db, Inl e)"
    by (auto simp: getSQLiteSpendableTransactionInputs_def addTransactionBalanceAmount_def balanced_def)
  then show thesis using that(1) by blast
next
  case False
  let ?ids = "map (AccountID \<circ> the) accounts" let ?eff = "Some (row_effective_amount policy)"
  let ?tenth = "if amount < 0 then - (- amount div 10) else amount div 10" let ?min = "if ?tenth < 1 then ?tenth else 1"
  let ?g = "GetAndReserveSpendableOutputs scan ?ids (amount + cost) ?min f True False ?eff (Some row_inspect) db"
  have run: "getSQLiteSpendableTransactionInputs scan policy f amount cost accounts db =
      (case ?g of None \<Rightarrow> (db, Inl PanicInSelection) | Some (db', Inl (SpendableCallback e)) \<Rightarrow> (db', Inl e)
       | Some (db', Inl ErrSpendableAmountOverflow) \<Rightarrow> (db', Inl Spendable)
       | Some (db', Inr rows) \<Rightarrow> if length rows = 0 then (db', Inr []) else (db', group_spendables policy (parent_groups rows)))"
    using False by (simp add: getSQLiteSpendableTransactionInputs_def addTransactionBalanceAmount_def balanced_def Let_def)
  have "?min \<le> 1" "?ids \<noteq> []" using ne by simp_all
  then show thesis
  proof (rule GetAndReserveSpendableOutputs_cases [OF ok(1,2) scan, where target = "amount + cost" and f = f and eff = ?eff and inspect = "Some row_inspect"])
    fix e assume "?g = Some (db, Inl e)"
    then show thesis unfolding run using that(1) [unfolded run] by (cases e) simp_all
  next
    assume "?g = Some (db, Inr [])"
    then show thesis using that(2) [unfolded run] by simp
  next
    fix rows total
    assume g: "?g = Some (ReserveOutputs (map TXOID rows) True db, Inr rows)" and d: "distinct (map TXOID rows)"
      and sub: "set rows \<subseteq> set (join_rows (\<lambda>o1. TxoType o1 = 0) ?ids db)" and t: "taken f ?eff rows total" and target: "amount + cost \<le> total"
    define V where "V row = projr (row_effective_amount policy row)" for row
    have "\<forall>row\<in>set rows. row_ok row \<and> row_effective_amount policy row = Inr (V row)"
      using sub join_row_ok [OF ok(3)] taken_effective [OF t] unfolding row_effective_sqlite V_def by fastforce
    then obtain ss where ss: "group_spendables policy (parent_groups rows) = Inr ss" "resolved ss" "mset (spend_ids ss) = mset (map TXOID rows)"
      "worth ss = (\<Sum>row\<leftarrow>rows. V row)" "\<forall>s\<in>set ss. parent_spend policy s"
      by (rule selected_spendables)
    from t obtain vs where vs: "map (sqliteSpendableEffectiveAmount f ?eff) rows = map Inr vs" "total = sum_list vs" unfolding taken_def by blast
    have "map V rows = vs"
      using vs(1) by (intro nth_equalityI) (auto simp: list_eq_iff_nth_eq row_effective_sqlite V_def)
    then have worth: "worth ss = total" using ss(4) vs(2) by simp
    have "rows = [] \<Longrightarrow> ss = []" using ss(1) by (simp add: parent_groups_def group_spendables_def)
    then have "getSQLiteSpendableTransactionInputs scan policy f amount cost accounts db = (ReserveOutputs (spend_ids ss) True db, Inr ss)"
      unfolding run g using ss(1) ReserveOutputs_mset [OF ss(3)] by (cases "rows = []") simp_all
    from that(3) [OF this d sub ss(2,3) _ ss(5)] target worth show thesis by simp
  qed
qed

lemma sqlite_selects:
  assumes ok: "db_ok db" "owned_once db" "raw_ok db" and scan: "scans scan" and ne: "accounts \<noteq> []"
  shows "selects (map (AccountID \<circ> the) accounts) db (getSQLiteSpendableTransactionInputs scan policy f amount cost accounts db)"
proof (rule sqlite_cases [OF assms, where policy = policy and f = f and amount = amount and cost = cost])
  fix rows ss
  assume run: "getSQLiteSpendableTransactionInputs scan policy f amount cost accounts db = (ReserveOutputs (spend_ids ss) True db, Inr ss)"
    and d: "distinct (map TXOID rows)" and sub: "set rows \<subseteq> set (join_rows (\<lambda>o1. TxoType o1 = 0) (map (AccountID \<circ> the) accounts) db)"
    and ss: "resolved ss" "mset (spend_ids ss) = mset (map TXOID rows)"
  have "distinct (spend_ids ss)" using d mset_eq_imp_distinct_iff [OF ss(2)] by simp
  moreover have "map (AccountID \<circ> the) accounts \<noteq> []" using ne by simp
  then have "set (spend_ids ss) \<subseteq> open_outputs (map (AccountID \<circ> the) accounts) db"
    unfolding mset_eq_setD [OF ss(2)] set_map using sub join_row_TXOID by blast
  ultimately show ?thesis using ss(1) by (simp add: run selects_def)
qed simp_all

section \<open>What balancing does to the state of the wallet\<close>

text \<open>A relation between the state and the resolved outputs of the transaction that every callback keeps holds
  when the balance ends, whether it fails or not.\<close>

definition keeps :: "'w TransactionBalanceOptions \<Rightarrow> ('w \<Rightarrow> TransactionOutput option list \<Rightarrow> bool) \<Rightarrow> bool" where
  "keeps options P \<longleftrightarrow>
     (\<forall>f w d w' r rs. SelectSpendables options = Some f \<longrightarrow> P w rs \<longrightarrow> f w d = (w', r) \<longrightarrow>
        P w' (rs @ (case r of Inl _ \<Rightarrow> [] | Inr ss \<Rightarrow> map (snd \<circ> SpendInput) ss))) \<and>
     (\<forall>f w w' r rs. ChangeAddress options = Some f \<longrightarrow> P w rs \<longrightarrow> f w = (w', r) \<longrightarrow> P w' rs) \<and>
     (\<forall>f w a w' r rs. AddressHash options = Some f \<longrightarrow> P w rs \<longrightarrow> f w a = (w', r) \<longrightarrow> P w' rs) \<and>
     (\<forall>f w b w' b' e. Signer options = Some f \<longrightarrow> P w (Resolved b) \<longrightarrow> f w b = (w', b', e) \<longrightarrow> P w' (Resolved b'))"

lemmas keepsD = keeps_def [THEN iffD1, THEN conjunct1, rule_format] keeps_def [THEN iffD1, THEN conjunct2, THEN conjunct1, rule_format]
  keeps_def [THEN iffD1, THEN conjunct2, THEN conjunct2, THEN conjunct1, rule_format]
  keeps_def [THEN iffD1, THEN conjunct2, THEN conjunct2, THEN conjunct2, rule_format]

lemma fund_keeps:
  assumes "keeps options P" and "P w (Resolved b)" and "fund options w b cost payment = (w', b', r)"
  shows "P w' (Resolved b')"
proof (cases "payment < cost \<and> (\<exists>f d. SelectSpendables options = Some f \<and> subtractTransactionBalanceAmount cost payment = Inr d)")
  case False
  with assms(2,3) show ?thesis by (auto simp: fund_def split: if_splits option.splits sum.splits simp del: amount_Inr)
next
  case True
  then obtain f d where f: "SelectSpendables options = Some f" "subtractTransactionBalanceAmount cost payment = Inr d" by blast
  obtain w1 r1 where s: "f w d = (w1, r1)" by fastforce
  have p: "P w1 (Resolved b @ (case r1 of Inl _ \<Rightarrow> [] | Inr ss \<Rightarrow> map (snd \<circ> SpendInput) ss))"
    using assms(1) f(1) assms(2) s by (rule keepsD(1))
  show ?thesis
  proof (cases r1)
    case (Inl e)
    with assms(3) f s p True show ?thesis by (simp add: fund_def del: amount_Inr)
  next
    case (Inr ss)
    with assms(3) f s p True show ?thesis
      by (cases ss) (auto simp: fund_def attachTransactionSpendables_def comp_def simp del: amount_Inr)
  qed
qed

lemma give_change_keeps:
  assumes k: "keeps options P" and p: "P w (Resolved b)" and run: "give_change options policy w b cost payment = (w', b', r)"
  shows "P w' (Resolved b')"
proof -
  show ?thesis using run p
    by (auto simp: give_change_def split: if_splits option.splits sum.splits prod.splits simp del: amount_Inr
        intro: keepsD(2) [OF k] keepsD(3) [OF k] keepsD(3) [OF k _ keepsD(2) [OF k]])
qed

lemma balance_passes_keeps:
  assumes k: "keeps options P"
  shows "P w (Resolved b) \<Longrightarrow> balance_passes options policy n w b cost payment = (w', b', r) \<Longrightarrow> P w' (Resolved b')"
proof (induction n arbitrary: w b cost payment)
  case (Suc n)
  obtain w1 b1 r1 where f: "fund options w b cost payment = (w1, b1, r1)" by (metis prod_cases3)
  have p1: "P w1 (Resolved b1)" using fund_keeps [OF k Suc.prems(1) f] .
  show ?case
  proof (cases r1)
    case (Inl e)
    with Suc.prems(2) f p1 show ?thesis by simp
  next
    case (Inr payment1)
    obtain w2 b2 r2 where c: "give_change options policy w1 b1 cost payment1 = (w2, b2, r2)" by (metis prod_cases3)
    have p2: "P w2 (Resolved b2)" using give_change_keeps [OF k p1 c] .
    show ?thesis using Suc.prems(2) Suc.IH [OF p2] p2 f c Inr
      by (auto split: sum.splits if_splits simp del: amount_Inr)
  qed
qed auto

lemma sign_keeps_world:
  assumes "keeps options P" and "P w (Resolved b)" and "sign options w b = (w', b', r)"
  shows "P w' (Resolved b')"
proof (cases "SkipSigning options \<or> Signer options = None")
  case True
  with assms show ?thesis by (auto simp: sign_def split: if_splits)
next
  case False
  then obtain f where f: "Signer options = Some f" "\<not> SkipSigning options" by auto
  obtain w1 b1 e where s: "f w b = (w1, b1, e)" by (metis prod_cases3)
  have "P w1 (Resolved b1)" using assms(1) f(1) assms(2) s by (rule keepsD(4))
  with assms(3) f s show ?thesis by (cases e) (simp_all add: sign_def)
qed

lemma transactionInitialPayment_resolved:
  assumes "transactionInitialPayment (AddOutputs outputs (AddInputs inputs NewTransaction)) policy = Inr payment"
  shows "None \<notin> set (Resolved (AddOutputs outputs (AddInputs inputs NewTransaction)))"
proof -
  let ?b = "AddOutputs outputs (AddInputs inputs NewTransaction)"
  have "paired ?b" by (simp add: AddOutputs_lengths AddInputs_lengths NewTransaction_fresh(1) [unfolded fresh_def])
  then have len: "map snd (spends ?b) = Resolved ?b" by (simp add: paired_def spends_def)
  have "fold (add_input_payment policy) xs r = Inr p \<Longrightarrow> None \<notin> set (map (snd \<circ> snd) xs) \<and> (\<exists>p. r = Inr p)" for xs r p
  proof (induction xs arbitrary: r)
    case (Cons x xs)
    from Cons.IH [of "add_input_payment policy x r"] Cons.prems have "None \<notin> set (map (snd \<circ> snd) xs)" "\<exists>p. add_input_payment policy x r = Inr p"
      by simp_all
    moreover obtain i input res where x: "x = (i, input, res)" by (cases x)
    ultimately have "res \<noteq> None \<and> (\<exists>p. r = Inr p)" by (auto simp: add_input_payment_def and_then_Inr split: option.splits)
    then show ?case using \<open>None \<notin> set (map (snd \<circ> snd) xs)\<close> by (auto simp: x)
  qed simp
  from this [of "enumerate 0 (spends ?b)" "Inr 0" payment] assms
  have "None \<notin> set (map (snd \<circ> snd) (enumerate 0 (spends ?b)))" unfolding transactionInitialPayment_def by blast
  moreover have "map (snd \<circ> snd) (enumerate 0 (spends ?b)) = map snd (spends ?b)" by (metis map_map map_snd_enumerate)
  ultimately show ?thesis unfolding len [symmetric] by metis
qed

lemma CreateBalancedTransaction_keeps:
  assumes k: "keeps options P" and p: "P w (map snd (OptInputs options))"
    and run: "CreateBalancedTransaction options w = (w', r)"
  shows "case r of
      Inr b \<Rightarrow> P w' (Resolved b)
    | Inl e \<Rightarrow> w' = w \<or> None \<notin> set (map snd (OptInputs options)) \<and>
        (\<exists>w1 b e'. P w1 (Resolved b) \<and> release options w1 b e' = (w', e))"
proof -
  let ?b = "AddOutputs (OptOutputs options) (AddInputs (OptInputs options) NewTransaction)"
  have b: "Resolved ?b = map snd (OptInputs options)" by simp
  consider "w' = w \<and> (\<exists>e. r = Inl e)"
    | policy cost payment where "transactionInitialPayment ?b policy = Inr payment"
      "(case balanceAndSignTransaction options policy w ?b cost payment of
          (w1, b1, Inr _) \<Rightarrow> (w1, Inr b1) | (w1, b1, Inl e) \<Rightarrow> (case release options w1 b1 e of (w2, e') \<Rightarrow> (w2, Inl e'))) = (w', r)"
    using run unfolding CreateBalancedTransaction_def Let_def
    by (auto simp: during_def and_then_Inr and_then_Inl split: option.splits sum.splits)
  then show ?thesis
  proof cases
    case 1
    then show ?thesis by auto
  next
    case (2 policy cost payment)
    obtain w0 b0 r0 where bal: "balance_passes options policy 5 w ?b cost payment = (w0, b0, r0)" by (metis prod_cases3)
    have p0: "P w0 (Resolved b0)" using balance_passes_keeps [OF k p [folded b] bal] .
    obtain w1 b1 r1 where s: "balanceAndSignTransaction options policy w ?b cost payment = (w1, b1, r1)" by (metis prod_cases3)
    have "P w1 (Resolved b1)"
    proof (cases r0)
      case (Inl e)
      with s bal p0 show ?thesis by (simp add: balanceAndSignTransaction_def)
    next
      case (Inr u)
      with s bal have "sign options w0 b0 = (w1, b1, r1)" by (simp add: balanceAndSignTransaction_def)
      from sign_keeps_world [OF k p0 this] show ?thesis .
    qed
    moreover have "None \<notin> set (map snd (OptInputs options))" using transactionInitialPayment_resolved [OF 2(1)] unfolding b by simp
    ultimately show ?thesis using 2(2) s by (cases r1) (auto split: prod.splits)
  qed
qed

section \<open>Reservations of a created transaction\<close>

definition output_ids :: "TransactionOutput option list \<Rightarrow> bytes list" where
  "output_ids rs = map (TransactionOutput_ID \<circ> the) rs"

lemma open_outputs_iff:
  assumes "db_ok db"
  shows "x \<in> open_outputs accountIDs db \<longleftrightarrow> x \<notin> reserved db \<and> x \<notin> set (txi db) \<and>
    (\<exists>o1\<in>set (txo db). TxoID o1 = x \<and> (\<exists>account\<in>set accountIDs. (account, TxoAddress o1) \<in> set (account_address db)))"
proof -
  have "o1 = o2" if "o1 \<in> set (txo db)" "o2 \<in> set (txo db)" "TxoID o1 = TxoID o2" for o1 o2
    using inj_onD [OF db_ok_inj [OF assms]] that by blast
  then show ?thesis unfolding open_outputs_def reserved_iff by blast
qed

lemma same_outputs_addresses:
  assumes "same_outputs db db'"
  shows "(\<lambda>o1. (TxoID o1, TxoAddress o1)) ` set (txo db') = (\<lambda>o1. (TxoID o1, TxoAddress o1)) ` set (txo db)"
proof -
  let ?p = "\<lambda>o1. (TxoID o1, TxoAddress o1)"
  have p: "?p ` set (txo d) = ?p ` set (map (\<lambda>o1. o1\<lparr>TxoReserved := False\<rparr>) (txo d))" for d by (simp add: image_image)
  show ?thesis unfolding p [of db] p [of db'] using assms unfolding same_outputs_def by simp
qed

lemma open_outputs_same:
  assumes ok: "db_ok db0" and same: "same_outputs db0 db" and res: "reserved db = reserved db0 \<union> N"
  shows "open_outputs accountIDs db = open_outputs accountIDs (db0\<lparr>account_address := account_address db\<rparr>) - N"
proof -
  let ?d = "db0\<lparr>account_address := account_address db\<rparr>"
  have ok': "db_ok db" "db_ok ?d" using ok same_outputs_db_ok [OF same] by (simp_all add: db_ok_def)
  have pair: "(\<exists>o1\<in>set (txo d). TxoID o1 = x \<and> (\<exists>account\<in>set accountIDs. (account, TxoAddress o1) \<in> A)) \<longleftrightarrow>
      (\<exists>p\<in>(\<lambda>o1. (TxoID o1, TxoAddress o1)) ` set (txo d). fst p = x \<and> (\<exists>account\<in>set accountIDs. (account, snd p) \<in> A))" for d x A by auto
  have "reserved ?d = reserved db0" by (simp add: reserved_def)
  then have "x \<in> open_outputs accountIDs db \<longleftrightarrow> x \<in> open_outputs accountIDs ?d - N" for x
    unfolding Diff_iff open_outputs_iff [OF ok'(1)] open_outputs_iff [OF ok'(2)] pair same_outputs_addresses [OF same] res
    using same by (auto simp: same_outputs_def)
  then show ?thesis by blast
qed

lemma raw_ok_same: "same_outputs db0 db \<Longrightarrow> raw_ok db0 \<Longrightarrow> raw_ok db"
proof -
  assume same: "same_outputs db0 db" and ok: "raw_ok db0"
  have row: "scanSpendableOutput (o1\<lparr>TxoReserved := False\<rparr>) t = scanSpendableOutput o1 t" for o1 t by (simp add: scanSpendableOutput_def)
  have "raw_ok d \<longleftrightarrow> (\<forall>o1\<in>set (map (\<lambda>o1. o1\<lparr>TxoReserved := False\<rparr>) (txo d)). \<forall>t\<in>set (tx d). RowTXID t = TxoTXID o1 \<longrightarrow> row_ok (scanSpendableOutput o1 t))"
    for d by (simp add: raw_ok_def row)
  note eq = this
  from same have t: "map (\<lambda>o1. o1\<lparr>TxoReserved := False\<rparr>) (txo db) = map (\<lambda>o1. o1\<lparr>TxoReserved := False\<rparr>) (txo db0)" "tx db = tx db0"
    unfolding same_outputs_def by blast+
  show ?thesis using ok unfolding eq [of db] eq [of db0] t .
qed

text \<open>The other parts of the wallet: the address chain of the change account may add addresses that no account
  has, and the signer changes neither the database nor what the inputs spend.\<close>

definition change_ok :: "(Account \<Rightarrow> 'c world \<Rightarrow> 'c world \<times> (string + string)) \<Rightarrow> bool" where
  "change_ok changeAddress \<longleftrightarrow> (\<forall>a w w' r l db. changeAddress a w = (w', r) \<longrightarrow> Databases w l = Some db \<longrightarrow>
     (\<exists>more. Databases w' l = Some (db\<lparr>account_address := account_address db @ more\<rparr>) \<and>
        (owned_once db \<longrightarrow> owned_once (db\<lparr>account_address := account_address db @ more\<rparr>))))"

definition signer_keeps :: "('c world \<Rightarrow> Building \<Rightarrow> 'c world \<times> Building \<times> string option) \<Rightarrow> bool" where
  "signer_keeps signer \<longleftrightarrow> (\<forall>w b w' b' e. signer w b = (w', b', e) \<longrightarrow> Databases w' = Databases w \<and> Resolved b' = Resolved b)"

text \<open>The invariant of the balance loop: the outputs of the transaction are the supplied ones and new ones, and
  exactly the new ones have been reserved.\<close>

definition funded_by :: "string list \<Rightarrow> TransactionOutput option list \<Rightarrow> LedgerDB \<Rightarrow> nat \<Rightarrow> 'c world \<Rightarrow> TransactionOutput option list \<Rightarrow> bool" where
  "funded_by accountIDs supplied db0 l w rs \<longleftrightarrow> (\<exists>db new. Databases w l = Some db \<and> same_outputs db0 db \<and> owned_once db \<and>
     set (account_address db0) \<subseteq> set (account_address db) \<and> rs = supplied @ map Some new \<and>
     set (map TransactionOutput_ID new) \<subseteq> open_outputs accountIDs (db0\<lparr>account_address := account_address db\<rparr>) \<and>
     reserved db = reserved db0 \<union> set (map TransactionOutput_ID new) \<and> (distinct accountIDs \<longrightarrow> distinct (map TransactionOutput_ID new)))"

lemma resolved_Some: "resolved ss \<Longrightarrow> \<exists>outs. map (snd \<circ> SpendInput) ss = map Some outs \<and> spend_ids ss = map TransactionOutput_ID outs"
proof (induction ss)
  case (Cons s ss)
  then have "resolved ss" by (simp add: resolved_def)
  then obtain outs where "map (snd \<circ> SpendInput) ss = map Some outs" "spend_ids ss = map TransactionOutput_ID outs" using Cons.IH by blast
  moreover obtain out where "snd (SpendInput s) = Some out" using Cons.prems by (auto simp: resolved_def)
  ultimately show ?case by (intro exI [of _ "out # outs"]) (simp add: spend_ids_def comp_def)
qed (simp add: spend_ids_def)

lemma funded_by_select:
  assumes inv: "funded_by ids supplied db0 l w rs" and ok: "db_ok db0" and db: "Databases w l = Some db"
    and sel: "selects ids db (db', Inr ss)" and w': "Databases w' l = Some db'"
  shows "funded_by ids supplied db0 l w' (rs @ map (snd \<circ> SpendInput) ss)"
proof -
  from inv db obtain new where same: "same_outputs db0 db" and own: "owned_once db" "set (account_address db0) \<subseteq> set (account_address db)"
    and rs: "rs = supplied @ map Some new" and opn: "set (map TransactionOutput_ID new) \<subseteq> open_outputs ids (db0\<lparr>account_address := account_address db\<rparr>)"
    and res: "reserved db = reserved db0 \<union> set (map TransactionOutput_ID new)" and dist: "distinct ids \<longrightarrow> distinct (map TransactionOutput_ID new)"
    unfolding funded_by_def by auto
  have s: "resolved ss" "db' = ReserveOutputs (spend_ids ss) True db" "set (spend_ids ss) \<subseteq> open_outputs ids db"
    "owned_once db \<and> distinct ids \<longrightarrow> distinct (spend_ids ss)" using sel by (auto simp: selects_def)
  obtain outs where outs: "map (snd \<circ> SpendInput) ss = map Some outs" "spend_ids ss = map TransactionOutput_ID outs"
    using resolved_Some [OF s(1)] by blast
  note r = ReserveOutputs_facts [where db = db and ids = "spend_ids ss" and f = True, folded s(2)]
  have part: "set (spend_ids ss) \<subseteq> open_outputs ids (db0\<lparr>account_address := account_address db\<rparr>) - set (map TransactionOutput_ID new)"
    using s(3) unfolding open_outputs_same [OF ok same res] .
  have "open_outputs ids db \<subseteq> TxoID ` set (txo db)" by (auto simp: open_outputs_def)
  then have "reserved db' = reserved db0 \<union> set (map TransactionOutput_ID (new @ outs))" using r(3) s(3) res outs(2) by auto
  moreover have "distinct ids \<longrightarrow> distinct (map TransactionOutput_ID (new @ outs))"
    using s(4) own(1) dist part unfolding outs(2) by auto
  moreover have "owned_once db'" using own(1) r(2) by (simp add: owned_once_def)
  moreover have "set (map TransactionOutput_ID (new @ outs)) \<subseteq> open_outputs ids (db0\<lparr>account_address := account_address db'\<rparr>)"
    using opn part r(2) unfolding outs(2) by auto
  ultimately show ?thesis unfolding funded_by_def rs outs(1)
    using w' same_outputs_trans [OF same r(1)] own(2) r(2) by (intro exI [of _ db'] exI [of _ "new @ outs"]) simp
qed

lemma GetSpendable_selects:
  assumes ok: "db_ok db" "owned_once db" "CoinSelectionStrategy ledger = Strategy ''sqlite'' \<longrightarrow> raw_ok db" and scan: "scans scan"
    and random: "coin_random next" and ne: "accounts \<noteq> []"
  obtains db' r' where "GetSpendableTransactionInputs scan next r ledger amount accounts (Some db) = (Some db', r')"
    "selects (map (AccountID \<circ> the) accounts) db (db', r')"
proof -
  let ?ids = "map (AccountID \<circ> the) accounts"
  show thesis
  proof (cases "\<exists>f cost. fee_per_byte ledger = Inr f \<and> balanced (OutputFee (LegacyTransactionFeePolicy f 0) dummyChange) = Inr cost")
    case False
    then have "\<exists>e. GetSpendableTransactionInputs scan next r ledger amount accounts (Some db) = (Some db, Inl e)"
      by (auto simp: GetSpendableTransactionInputs_def Let_def split: sum.splits simp del: built_Inr)
    then show thesis using that selects_none(1) by blast
  next
    case True
    then obtain f cost where f: "fee_per_byte ledger = Inr f" "balanced (OutputFee (LegacyTransactionFeePolicy f 0) dummyChange) = Inr cost" by blast
    define p where "p = (if CoinSelectionStrategy ledger = Strategy ''sqlite''
      then getSQLiteSpendableTransactionInputs scan (LegacyTransactionFeePolicy f 0) f amount cost accounts db
      else in_memory_inputs scan next r (LegacyTransactionFeePolicy f 0) (CoinSelectionStrategy ledger) amount cost accounts db)"
    have "selects ?ids db p" unfolding p_def
      using sqlite_selects [OF ok(1,2) _ scan ne] ok(3) in_memory_selects [OF random ok(1) scan] by (auto split: if_splits)
    moreover have "GetSpendableTransactionInputs scan next r ledger amount accounts (Some db) = apfst Some p"
      unfolding p_def GetSpendableTransactionInputs_def option.case f(1) sum.case Let_def f(2) by (rule refl)
    ultimately show thesis using that [of "fst p" "snd p"] by (cases p) simp
  qed
qed

lemma baseline_nonempty: "transactionCreateLedgerAndWallet accounts change = Inr (l, wallet) \<Longrightarrow> accounts \<noteq> []"
  by (cases accounts) (simp_all add: transactionCreateLedgerAndWallet_def and_then_Inr)

lemma create_options_keeps:
  assumes env: "scans scan" "coin_random next" "change_ok changeAddress" "signer_keeps signer"
    and chosen: "transactionCreateLedgerAndWallet accounts change = Inr (l, wallet)"
    and ok: "db_ok db0" "CoinSelectionStrategy (heap l) = Strategy ''sqlite'' \<longrightarrow> raw_ok db0"
  shows "keeps (create_options scan next seed heap changeAddress signer inputs outputs accounts change doSign)
    (funded_by (map (AccountID \<circ> the) accounts) supplied db0 l)" (is "keeps ?o ?P")
  unfolding keeps_def
proof (intro conjI allI impI)
  fix f w d w' r rs
  assume f: "SelectSpendables ?o = Some f" and inv: "?P w rs" and run: "f w d = (w', r)"
  from inv obtain db where db: "Databases w l = Some db" "same_outputs db0 db" "owned_once db" unfolding funded_by_def by blast
  obtain r0 others where seed: "seed (Others w) = (r0, others)" by fastforce
  have raw: "CoinSelectionStrategy (heap l) = Strategy ''sqlite'' \<longrightarrow> raw_ok db" using ok(2) raw_ok_same [OF db(2)] by blast
  have dbok: "db_ok db" using ok(1) same_outputs_db_ok [OF db(2)] by simp
  obtain db' r' where g: "GetSpendableTransactionInputs scan next r0 (heap l) d accounts (Some db) = (Some db', r')"
    "selects (map (AccountID \<circ> the) accounts) db (db', r')"
    by (rule GetSpendable_selects [OF dbok db(3) raw env(1,2) baseline_nonempty [OF chosen]])
  have w': "w' = w\<lparr>Databases := (Databases w)(l := Some db'), Others := others\<rparr>" "r = described r'"
    using f run chosen db(1) g(1) seed by (auto simp: create_options_def select_inputs_def Let_def)
  show "?P w' (rs @ (case r of Inl _ \<Rightarrow> [] | Inr ss \<Rightarrow> map (snd \<circ> SpendInput) ss))"
  proof (cases r')
    case (Inl e)
    with g(2) have "db' = db" by (simp add: selects_def)
    with inv w' db(1) Inl show ?thesis by (simp add: funded_by_def described_def)
  next
    case (Inr ss)
    with funded_by_select [OF inv ok(1) db(1) g(2) [unfolded Inr], of w'] w' show ?thesis by (simp add: described_def)
  qed
next
  fix f w w' r rs
  assume f: "ChangeAddress ?o = Some f" and inv: "?P w rs" and run: "f w = (w', r)"
  have "w' = w \<or> (\<exists>a. changeAddress a w = (w', r))" using f run
    by (auto simp: create_options_def Let_def split: option.splits if_splits)
  then show "?P w' rs"
  proof
    assume "\<exists>a. changeAddress a w = (w', r)"
    then obtain a where a: "changeAddress a w = (w', r)" by blast
    from inv obtain db new where db: "Databases w l = Some db" "same_outputs db0 db" "owned_once db" "set (account_address db0) \<subseteq> set (account_address db)"
      "rs = supplied @ map Some new"
      "set (map TransactionOutput_ID new) \<subseteq> open_outputs (map (AccountID \<circ> the) accounts) (db0\<lparr>account_address := account_address db\<rparr>)"
      "reserved db = reserved db0 \<union> set (map TransactionOutput_ID new)" "distinct (map (AccountID \<circ> the) accounts) \<longrightarrow> distinct (map TransactionOutput_ID new)"
      unfolding funded_by_def by blast
    obtain more where more: "Databases w' l = Some (db\<lparr>account_address := account_address db @ more\<rparr>)"
      "owned_once (db\<lparr>account_address := account_address db @ more\<rparr>)"
      using env(3) a db(1,3) unfolding change_ok_def by blast
    let ?db = "db\<lparr>account_address := account_address db @ more\<rparr>"
    have "open_outputs ids (db0\<lparr>account_address := account_address db\<rparr>) \<subseteq> open_outputs ids (db0\<lparr>account_address := account_address ?db\<rparr>)" for ids
      unfolding open_outputs_def by auto
    with db(6) have opn: "set (map TransactionOutput_ID new) \<subseteq> open_outputs (map (AccountID \<circ> the) accounts) (db0\<lparr>account_address := account_address ?db\<rparr>)"
      by blast
    have "same_outputs db0 ?db" "reserved ?db = reserved db" "set (account_address db0) \<subseteq> set (account_address ?db)"
      using db(2,4) by (auto simp: same_outputs_def reserved_def)
    with db opn more show ?thesis unfolding funded_by_def by (intro exI [of _ ?db] exI [of _ new]) simp
  qed (use inv in simp)
next
  fix f w a w' r rs
  assume "AddressHash ?o = Some f" and inv: "?P w rs" and "f w a = (w', r)"
  then have "w' = w" by (auto simp: create_options_def Let_def)
  with inv show "?P w' rs" by simp
next
  fix f w b w' b' e
  assume "Signer ?o = Some f" and inv: "?P w (Resolved b)" and "f w b = (w', b', e)"
  then have "signer w b = (w', b', e)" by (simp add: create_options_def Let_def)
  then have "Databases w' = Databases w" "Resolved b' = Resolved b" using env(4) unfolding signer_keeps_def by blast+
  with inv show "?P w' (Resolved b')" by (simp add: funded_by_def)
qed

lemma release_create_options:
  assumes chosen: "transactionCreateLedgerAndWallet accounts change = Inr (l, wallet)" and db: "Databases w l = Some db"
    and all: "None \<notin> set (Resolved b)"
    and run: "release (create_options scan next seed heap changeAddress signer inputs outputs accounts change doSign) w b e = (w', e')"
  shows "Databases w' l = Some (ReserveOutputs (output_ids (Resolved b)) False db)"
  using run chosen db all
  by (auto simp: release_def create_options_def release_inputs_def ReleaseTransaction_def ReserveTransactionOutputs_def output_ids_def Let_def)


text \<open>A wallet with one account and one output of 10000.\<close>

definition example_txid :: string where
  "example_txid = replicate 64 (CHR ''a'')"

definition example_script :: bytes where
  "example_script = Source (script_or_error (NewPayPubKeyHashOutputScript (replicate 20 1)))"

definition example_db :: LedgerDB where
  "example_db = \<lparr>txo = [\<lparr>TxoTXID = example_txid, TxoID = str example_txid @ str '':'' @ FormatUint 0, TxoAddress = ''b'', TxoPosition = 0,
      TxoAmount = 10000, TxoScript = example_script, TxoReserved = False, TxoType = 0\<rparr>],
     tx = [\<lparr>RowTXID = example_txid, RowRaw = [], RowHeight = 7, RowPosition = 0, RowVerified = True\<rparr>], txi = [], account_address = [(''a'', ''b'')]\<rparr>"

definition example_account :: Account where
  "example_account = \<lparr>AccountID = ''a'', AccountLedger = Some 0, AccountWallet = Some 0, HasChange = True\<rparr>"

definition example_ledger :: "nat \<Rightarrow> Ledger" where
  "example_ledger = (\<lambda>_. \<lparr>fee_per_byte = Inr 1, fee_per_name_char = Inr 0, CoinSelectionStrategy = Strategy ''closest_match''\<rparr>)"

definition example_world :: "unit world" where
  "example_world = \<lparr>Databases = (\<lambda>_. Some example_db), Others = ()\<rparr>"

definition example_address :: string where
  "example_address = EncodeBase58Check (0x55 # replicate 20 9)"

lemma NewPayPubKeyHashOutput_fee:
  assumes "length h < 76"
  shows "Legacy_OutputFee 1 0 (NewPayPubKeyHashOutput a h) = Inr (14 + int (length h))"
proof -
  have "Err (OutputScript (NewPayPubKeyHashOutput a h)) = None"
    using assms by (simp add: NewPayPubKeyHashOutput_def script_or_error_def new_output_def NewPayPubKeyHashOutputScript_def
        GenerateOutputScript_def generateTransactionPayPubKeyHash_def builder_push_def encodeTransactionPushData_def finish_output_def
        empty_output_script_def Let_def)
  moreover have "is_int64 (int (length h) + 14)" using assms by (simp add: is_int64_def int64_min_def int64_max_def)
  ultimately show ?thesis
    using NewPayPubKeyHashOutput_size [OF assms, of a]
    by (simp add: Legacy_OutputFee_def multiplyTransactionBalanceAmount_def add.commute)
qed

lemma Legacy_OutputFee_placed: "placed u = placed v \<Longrightarrow> Legacy_OutputFee f g u = Legacy_OutputFee f g v"
proof -
  assume "placed u = placed v"
  then have "OutputScript u = OutputScript v" "TransactionOutput_Size u = TransactionOutput_Size v"
    by (simp_all add: TransactionOutput_Size_def writeTransactionOutput_def placed_def)
  then show ?thesis by (simp only: Legacy_OutputFee_def)
qed

lemma example_hash: "transactionHashFromID example_txid = Inr (replicate 32 0xaa)"
  by code_simp

lemma example_parse: "IsPayPubKeyHash (ParseTransactionOutputScript example_script)" "HasPubKeyHash (ParseTransactionOutputScript example_script)"
  by code_simp+

definition example_output :: TransactionOutput where
  "example_output = \<lparr>TransactionID = example_txid, TransactionHash = replicate 32 0xaa, OutputPosition = 0, Amount = 10000,
     OutputScript = ParseTransactionOutputScript example_script\<rparr>"

lemma example_rows: "ListSpendableOutputs id example_db [''a''] = [\<lparr>TXID = example_txid, TXOID = str example_txid @ str '':'' @ FormatUint 0, StoredRaw = [],
    StoredHeight = 7, TXPosition = 0, StoredPosition = 0, IsVerified = True, StoredAmount = 10000, StoredScript = example_script\<rparr>]"
  by (simp add: ListSpendableOutputs_def list_order_def join_rows_def example_db_def scanSpendableOutput_def)

lemma example_stored: "transactionOutputFromStored example_txid 0 10000 example_script = Inr example_output"
  by (simp add: transactionOutputFromStored_def example_hash example_output_def)

lemma example_spend: "\<exists>s. NewSpendInput (Some example_output) = Inr s \<and> TransactionInput_Size (fst s) = 148"
proof -
  have id: "TransactionID example_output \<noteq> ''''" by (simp add: example_output_def example_txid_def)
  obtain script where script: "NewRedeemPubKeyHashInputScript (replicate 72 0) (replicate 33 0) = Inr script" "length (InSource script) = 107"
    by (auto simp: NewRedeemPubKeyHashInputScript_def GenerateInputScript_def builder_push_def encodeTransactionPushData_def empty_input_script_def Let_def)
  have "NewSpendInput (Some example_output) = Inr (spend_of example_output script)"
    using example_parse id by (simp add: NewSpendInput_def script ensureSpendableOutputAttached_def) (simp add: example_output_def)
  moreover have "\<not> IsCoinbase (fst (spend_of example_output script))" by (simp add: spend_of_def IsCoinbase_def example_output_def)
  ultimately show ?thesis
    by (simp add: spend_of_def TransactionInput_Size_def writeTransactionInput_def writeTransactionVarBytes_def writeTransactionCompactSize_def script(2))
      (simp add: example_output_def)
qed

lemma example_int64: "is_int64 148" "is_int64 10000" "is_int64 9852" "is_int64 544" "is_int64 590" "is_int64 9262" "is_int64 46"
  by (simp_all add: is_int64_def int64_min_def int64_max_def)

lemma example_estimator:
  obtains e where "account_estimators id (LegacyTransactionFeePolicy 1 0) example_db (Some example_account) = Inr [e]"
    "NewSpendInput (Some example_output) = Inr (SpendInput e)" "EffectiveAmount e = 9852" "TransactionInput_Size (fst (SpendInput e)) = 148"
proof -
  obtain s where s: "NewSpendInput (Some example_output) = Inr s" "TransactionInput_Size (fst s) = 148" using example_spend by blast
  have amount: "transactionBalanceUint64 (Amount example_output) = Inr 10000"
    by (simp add: transactionBalanceUint64_def example_output_def example_int64)
  have fee: "InputFee (LegacyTransactionFeePolicy 1 0) (fst s) = Inr 148"
    by (simp add: LegacyTransactionFeePolicy_def Legacy_InputFee_def s multiplyTransactionBalanceAmount_def example_int64)
  have sub: "subtractTransactionBalanceAmount 10000 148 = Inr 9852" by (simp add: example_int64)
  have "account_estimators id (LegacyTransactionFeePolicy 1 0) example_db (Some example_account) =
      Inr [\<lparr>SpendInput = s, EffectiveAmount = 9852, Fee = 148, Height = 7\<rparr>]"
    unfolding account_estimators_def transactionCoinSelectionEstimator_def option.case
    by (simp add: example_account_def example_rows example_stored s amount fee sub built_def balanced_def del: amount_Inr)
  then show thesis by (rule that) (simp_all add: s)
qed

lemma example_select:
  obtains s db where "select_inputs id Float64 seed 0 (example_ledger 0) [Some example_account] example_world 544 =
      (example_world\<lparr>Databases := (Databases example_world)(0 := Some db), Others := snd (seed ())\<rparr>, Inr [s])"
    "NewSpendInput (Some example_output) = Inr (SpendInput s)" "EffectiveAmount s = 9852" "TransactionInput_Size (fst (SpendInput s)) = 148"
proof -
  obtain e where e: "account_estimators id (LegacyTransactionFeePolicy 1 0) example_db (Some example_account) = Inr [e]"
    "NewSpendInput (Some example_output) = Inr (SpendInput e)" "EffectiveAmount e = 9852" "TransactionInput_Size (fst (SpendInput e)) = 148"
    by (rule example_estimator)
  have res: "snd (SpendInput e) = Some example_output" using NewSpendInput_resolved [OF e(2)] .
  obtain r others where seed: "seed () = (r, others)" by (cases "seed ()")
  let ?sel = "NewCoinSelector 544 46 r"
  have closest: "ClosestMatch ?sel [e] = (?sel, [e], [e])"
    by (simp add: ClosestMatch_def NewCoinSelector_def e example_int64 Let_def)
  have "Select Float64 ?sel [e] ''closest_match'' = Some (Inr (?sel, [e], [e]))"
    using closest by (simp add: Select_def coinSelectionAvailable_def e example_int64 Let_def) (simp add: NewCoinSelector_def)
  then have m: "in_memory_inputs id Float64 r (LegacyTransactionFeePolicy 1 0) (Strategy ''closest_match'') 544 46 [Some example_account] example_db =
      (ReserveOutputs [TransactionOutput_ID example_output] True example_db, Inr [TransactionSpendable.truncate e])"
    by (simp add: in_memory_inputs_def e(1) res Let_def)
  have cost: "OutputFee (LegacyTransactionFeePolicy 1 0) dummyChange = Inr 46"
    using NewPayPubKeyHashOutput_fee [of "replicate 32 0"] by (simp add: LegacyTransactionFeePolicy_def dummyChange_def)
  let ?db = "ReserveOutputs [TransactionOutput_ID example_output] True example_db"
  have "GetSpendableTransactionInputs id Float64 r (example_ledger 0) 544 [Some example_account] (Some example_db) =
      (Some ?db, Inr [TransactionSpendable.truncate e])"
    by (simp add: GetSpendableTransactionInputs_def example_ledger_def cost balanced_def m Let_def)
  then have "select_inputs id Float64 seed 0 (example_ledger 0) [Some example_account] example_world 544 =
      (example_world\<lparr>Databases := (Databases example_world)(0 := Some ?db), Others := snd (seed ())\<rparr>, Inr [TransactionSpendable.truncate e])"
    by (simp add: select_inputs_def example_world_def seed described_def)
  then show thesis by (rule that) (simp_all add: e TransactionSpendable.truncate_def)
qed

text \<open>The account is asked for 500. The transaction costs 544 and the selected output is worth 9852 more than its input
  takes, so 9252 come back to a change address.\<close>

definition example_options :: "(unit \<Rightarrow> coinSelectionPythonRandom \<times> unit) \<Rightarrow> (unit world \<Rightarrow> Building \<Rightarrow> unit world \<times> Building \<times> string option) \<Rightarrow> bool \<Rightarrow>
    unit world TransactionBalanceOptions" where
  "example_options seed signer doSign = create_options id Float64 seed example_ledger (\<lambda>_ w. (w, Inr example_address)) signer
     [] [NewPayPubKeyHashOutput 500 (replicate 20 7)] [Some example_account] (Some example_account) doSign"

lemma example_chosen: "transactionCreateLedgerAndWallet [Some example_account] (Some example_account) = Inr (0, 0)"
  by (simp add: transactionCreateLedgerAndWallet_def example_account_def Let_def)

lemma example_policy: "transactionLedgerFeePolicy (Some (example_ledger 0)) = LegacyTransactionFeePolicy 1 0"
  by (simp add: transactionLedgerFeePolicy_def LegacyTransactionFeePolicy_def ledger_fee_def example_ledger_def fun_eq_iff Let_def)

lemma example_options_sel:
  "case Validate (example_options seed signer doSign) of None \<Rightarrow> True | Some f \<Rightarrow> f b = None" "FeePolicy (example_options seed signer doSign) = Some (LegacyTransactionFeePolicy 1 0)"
  "SelectSpendables (example_options seed signer doSign) = Some (select_inputs id Float64 seed 0 (example_ledger 0) [Some example_account])"
  "ChangeAddress (example_options seed signer doSign) = Some (\<lambda>w. (w, Inr example_address))"
  "AddressHash (example_options seed signer doSign) = Some (\<lambda>w text. (w, described (transactionChangeAddressHash text)))"
  "Signer (example_options seed signer doSign) = Some signer" "SkipSigning (example_options seed signer doSign) = (\<not> doSign)"
  "OptInputs (example_options seed signer doSign) = []" "OptOutputs (example_options seed signer doSign) = [NewPayPubKeyHashOutput 500 (replicate 20 7)]"
  by (simp_all add: example_options_def create_options_def example_chosen example_policy Let_def) (simp_all add: example_account_def)

lemma example_address_hash: "transactionChangeAddressHash example_address = Inr (replicate 20 9)"
proof -
  have "decodeBase58 example_address = Inr ((0x55 # replicate 20 9) @ take 4 (doubleSHA256 (0x55 # replicate 20 9)))"
    unfolding example_address_def EncodeBase58Check_def by (rule decodeBase58_encode_nonzero) (simp add: be_value_def le_value_eq_value_le value_le_eq_0_iff)
  then show ?thesis by (simp add: transactionChangeAddressHash_def doubleSHA256_def take_Cons')
qed

lemma example_initial:
  fixes seed signer doSign
  defines "o1 \<equiv> example_options seed signer doSign"
  shows "fresh (initial o1)" "Inputs (Tx (initial o1)) = []" "length (Outputs (Tx (initial o1))) = 1"
    "transactionInitialCost (initial o1) (LegacyTransactionFeePolicy 1 0) = Inr 544" "transactionInitialPayment (initial o1) (LegacyTransactionFeePolicy 1 0) = Inr 0"
proof -
  let ?P = "LegacyTransactionFeePolicy 1 0" let ?b = "initial o1"
  let ?out = "NewPayPubKeyHashOutput 500 (replicate 20 7)"
  note sel = example_options_sel [where seed = seed and signer = signer and doSign = doSign, folded o1_def]
  have p: "paired NewTransaction" using NewTransaction_fresh(1) by (simp add: fresh_def)
  have la: "paired (AddInputs [] NewTransaction)" "Inputs (Tx (AddInputs [] NewTransaction)) = []"
    using AddInputs_lengths [OF p, of "[]"] by (simp_all add: NewTransaction_fresh)
  have lb: "length (Inputs (Tx ?b)) = 0" "length (Outputs (Tx ?b)) = 1"
    using AddOutputs_lengths [OF la(1)] AddInputs_lengths(2) [OF p] la(2) unfolding initial_def sel(8,9) by (simp_all add: NewTransaction_fresh)
  then have small: "small ?b" by (simp add: small_def)
  note init = initial_facts [OF small]
  show "fresh ?b" "Inputs (Tx ?b) = []" "length (Outputs (Tx ?b)) = 1" using init(1) lb by simp_all
  have base: "BaseSize ?b = 10" using Transaction_Size_fresh(2) [OF init(1)] lb by simp
  obtain u where u: "Outputs (Tx ?b) = [u]" "placed u = placed ?out" using init(2) lb(2) unfolding sel(9) by (cases "Outputs (Tx ?b)") auto
  have fee: "Legacy_OutputFee 1 0 u = Inr 34" "Amount u = 500"
    using Legacy_OutputFee_placed [OF u(2)] NewPayPubKeyHashOutput_fee [of "replicate 20 7" 500]
      u(2) NewPayPubKeyHashOutput_size(3) [of "replicate 20 7" 500] by (simp_all add: placed_def)
  show "transactionInitialCost ?b ?P = Inr 544"
    by (simp add: transactionInitialCost_def u(1) add_output_cost_def LegacyTransactionFeePolicy_def Legacy_BaseFee_def base fee
        multiplyTransactionBalanceAmount_def transactionBalanceUint64_def addTransactionBalanceAmount_def is_int64_def int64_min_def int64_max_def)
  show "transactionInitialPayment ?b ?P = Inr 0" using lb(1) by (simp add: transactionInitialPayment_def spends_def)
qed

lemma example_balanced:
  obtains w1 b1 where "\<And>w2 b2. sign (example_options seed signer doSign) w1 b1 = (w2, b2, Inr ()) \<Longrightarrow>
      CreateBalancedTransaction (example_options seed signer doSign) example_world = (w2, Inr b2)"
    "fresh b1" "few b1" "Resolved b1 = [Some example_output]" "length (Inputs (Tx b1)) = 1" "\<forall>script\<in>set (input_scripts b1). InTemplate script = TransactionInputPubKeyHash \<and> InErr script = None"
proof -
  let ?o = "example_options seed signer doSign" let ?P = "LegacyTransactionFeePolicy 1 0" let ?b = "initial ?o"
  note sel = example_options_sel [where seed = seed and signer = signer and doSign = doSign]
  note init = example_initial [where seed = seed and signer = signer and doSign = doSign] note cost = init(4) note pay = init(5)
  have paired: "paired ?b" using init(1) by (simp add: fresh_def)
  obtain s db where select: "select_inputs id Float64 seed 0 (example_ledger 0) [Some example_account] example_world 544 =
      (example_world\<lparr>Databases := (Databases example_world)(0 := Some db), Others := snd (seed ())\<rparr>, Inr [s])"
    and s: "NewSpendInput (Some example_output) = Inr (SpendInput s)" "EffectiveAmount s = 9852" "TransactionInput_Size (fst (SpendInput s)) = 148"
    by (rule example_select)
  let ?w1 = "example_world\<lparr>Databases := (Databases example_world)(0 := Some db), Others := snd (seed ())\<rparr>"
  let ?b1 = "AddInputs [SpendInput s] ?b"
  have fund: "fund ?o example_world ?b 544 0 = (?w1, ?b1, Inr 9852)"
    by (simp add: fund_def sel(3) subtractTransactionBalanceAmount_def example_int64 select attachTransactionSpendables_def add_effective_def
        addTransactionBalanceAmount_def s del: amount_Inr)
  have l1: "length (Inputs (Tx ?b1)) = 1" "length (Outputs (Tx ?b1)) = 1" "paired ?b1" using AddInputs_lengths [OF paired, of "[SpendInput s]"] init(2,3) by simp_all
  then have small1: "small ?b1" by (simp add: small_def)
  note e1 = AddInputs_effect [OF init(1) small1]
  have base1: "BaseSize ?b1 = 10" using Transaction_Size_fresh(2) [OF e1(1)] l1 by simp
  have coc: "transactionChangeCost ?b1 ?P = Inr 56"
    using NewPayPubKeyHashOutput_fee [of "replicate 32 0"]
    by (simp add: transactionChangeCost_def LegacyTransactionFeePolicy_def Legacy_BaseFee_def base1 dummyChange_def
        multiplyTransactionBalanceAmount_def addTransactionBalanceAmount_def is_int64_def int64_min_def int64_max_def)
  let ?c = "AddOutputs [NewPayPubKeyHashOutput (of_int 9252) (replicate 20 9)] ?b1"
  have change: "give_change ?o ?P ?w1 ?b1 544 9852 = (?w1, ?c, Inr 56)"
    by (simp add: give_change_def coc during_def sel(4,5) example_address_hash described_def subtractTransactionBalanceAmount_def is_int64_def int64_min_def int64_max_def)
  have lc: "length (Inputs (Tx ?c)) = 1" "length (Outputs (Tx ?c)) = 2" using AddOutputs_lengths [OF l1(3)] l1 by simp_all
  have ne: "Outputs (Tx ?c) \<noteq> []" using lc(2) by auto
  have five: "(5 :: nat) = Suc 4" by simp
  have passes: "balance_passes ?o ?P 5 example_world ?b 544 0 = (?w1, ?c, Inr ())"
    using fund change ne unfolding five balance_passes.simps by simp
  have "(case Validate ?o of None \<Rightarrow> None | Some f \<Rightarrow> f ?b) = None" using sel(1) by (cases "Validate ?o") auto
  then have "sign ?o ?w1 ?c = (w2, b2, Inr ()) \<Longrightarrow> CreateBalancedTransaction ?o example_world = (w2, Inr b2)" for w2 b2
    unfolding CreateBalancedTransaction_def Let_def initial_def [symmetric] sel(2) option.case
    by (simp add: cost pay during_def balanceAndSignTransaction_def passes)
  moreover have "fresh ?c" by (rule AddOutputs_effect(1) [OF e1(1)]) (use lc in \<open>simp add: small_def\<close>)
  moreover have "few ?c" using lc by (simp add: few_def)
  moreover have "Resolved ?c = [Some example_output]" using NewSpendInput_resolved [OF s(1)] by (simp add: initial_def sel(8))
  moreover have "input_scripts ?c = [InputScript (fst (SpendInput s))]"
    unfolding input_scripts_Add(2) [OF l1(3)] input_scripts_Add(1) [OF paired] using init(2) by (simp add: input_scripts_def)
  moreover have "InTemplate (InputScript (fst (SpendInput s))) = TransactionInputPubKeyHash \<and> InErr (InputScript (fst (SpendInput s))) = None"
  proof -
    from s(1) obtain script where sp: "spend_of example_output script = SpendInput s" "NewRedeemPubKeyHashInputScript (replicate 72 0) (replicate 33 0) = Inr script"
      by (auto simp: NewSpendInput_def and_then_Inr ensureSpendableOutputAttached_def split: if_splits sum.splits)
    from sp(2) show ?thesis unfolding sp(1) [symmetric]
      by (auto simp: spend_of_def NewRedeemPubKeyHashInputScript_def GenerateInputScript_def and_then_Inr empty_input_script_def Let_def)
  qed
  ultimately show thesis using that [of ?w1 ?c] lc(1) by simp
qed


text \<open>The condition on the accounts is needed: an account that is listed twice offers its outputs twice, and a
  single output is spent twice by one transaction when the amount is more than it is worth.\<close>

lemma repeated_account_spends_twice:
  assumes "coin_random next" and e: "account_estimators scan policy db (Some a) = Inr [e]" and ok: "db_ok db" "scans scan"
    and v: "EffectiveAmount e < amount + cost" "amount + cost \<le> 2 * EffectiveAmount e" "2 * EffectiveAmount e \<le> int64_max" "0 < amount" "0 \<le> cost"
  shows "\<exists>db' ss i. in_memory_inputs scan next r policy (Strategy ''random_draw'') amount cost [Some a, Some a] db = (db', Inr ss) \<and> spend_ids ss = [i, i]"
proof -
  let ?sel = "NewCoinSelector amount cost r" let ?v = "EffectiveAmount e"
  obtain r' es' where s: "shuffle next 1 r [e, e] = Some (r', es')" "mset es' = mset [e, e]"
    using coin_random.shuffle_permutes [OF assms(1), of 1 "[e, e]" r] by auto
  have "length es' = 2" "set es' = {e}" using mset_eq_length [OF s(2)] mset_eq_setD [OF s(2)] by simp_all
  then have "es' = replicate 2 e" by (intro replicate_eqI) simp_all
  then have es': "es' = [e, e]" by (simp add: numeral_2_eq_2)
  have i: "is_int64 ?v" "is_int64 (2 * ?v)" "is_int64 (amount + cost)" using v by (auto simp: is_int64_def int64_min_def int64_max_def)
  then have w: "wrap64 ?v = ?v" "wrap64 (?v + ?v) = 2 * ?v" "wrap64 (amount + cost) = amount + cost" by simp_all
  have draw: "draw_until (amount + cost) 0 [e, e] = Some [e, e]" using v(1,2) w by (simp add: Let_def)
  have none: "snd (SpendInput e) \<noteq> None" using account_estimators_ids(1) [OF e ok] by auto
  have "\<not> coinSelectionAvailable [e, e] < amount" unfolding coinSelectionAvailable_total using v w by (simp add: total_def)
  then have "Select next ?sel [e, e] ''random_draw'' = Some (Inr (?sel\<lparr>random := r'\<rparr>, [e, e], [e, e]))"
    using s(1) draw w(3) by (simp add: Select_def NewCoinSelector_def RandomDraw_def es' Let_def)
  then have "in_memory_inputs scan next r policy (Strategy ''random_draw'') amount cost [Some a, Some a] db =
      (ReserveOutputs (estimator_ids [e, e]) True db, Inr (map TransactionSpendable.truncate [e, e]))"
    using none by (auto simp: in_memory_inputs_def e estimator_ids_def Let_def)
  moreover have "spend_ids (map TransactionSpendable.truncate [e, e]) =
      (let i = TransactionOutput_ID (the (snd (SpendInput (TransactionSpendable.truncate e)))) in [i, i])"
    by (simp add: spend_ids_def Let_def)
  ultimately show ?thesis unfolding Let_def by blast
qed

end
