(* ===== verification/HeaderTarget.thy ===== *)
theory HeaderTarget
  imports CoinSelection
begin

text \<open>
  Difficulty targets, the first part of \<^verbatim>\<open>wallet/headers.go\<close>: the compact form of a 256-bit number, the
  arithmetic of \<^verbatim>\<open>ArithUint256\<close> with its wrap at 256 bits and its division through 53-bit floats, and
  the target of the next block. Values are natural numbers: every constructor of the file gives one.
\<close>

unbundle bit_operations_syntax

section \<open>Compact numbers\<close>

type_synonym ArithUint256 = nat

definition ArithUint256FromCompact :: "u32 \<Rightarrow> ArithUint256" where
  "ArithUint256FromCompact compact =
     (let size = unat (drop_bit 24 compact); word = unat (compact AND 0x007fffff)
      in if size \<le> 3 then word div 2 ^ (8 * (3 - size)) else word * 2 ^ (8 * (size - 3)))"

text \<open>\<^verbatim>\<open>Bits\<close> is the number of binary digits, at least one, plus one.\<close>

definition Bits :: "ArithUint256 \<Rightarrow> nat" where
  "Bits value = (if value = 0 then 1 else bit_length value) + 1"

definition calculateCompact :: "bool \<Rightarrow> ArithUint256 \<Rightarrow> u32" where
  "calculateCompact negative value =
     (let size = (Bits value + 7) div 8;
          compact = (if size \<le> 3 then push_bit (8 * (3 - size)) (of_nat value :: u64)
                     else of_nat (value div 2 ^ (8 * (size - 3))));
          (compact1, size1) = (if compact AND 0x00800000 \<noteq> 0 then (drop_bit 8 compact, size + 1) else (compact, size));
          compact2 = compact1 OR push_bit 24 (of_nat size1);
          compact3 = (if negative \<and> compact2 AND 0x007fffff \<noteq> 0 then compact2 OR 0x00800000 else compact2)
      in ucast compact3)"

definition Compact :: "ArithUint256 \<Rightarrow> u32" where
  "Compact value = calculateCompact False value"

definition Negative :: "ArithUint256 \<Rightarrow> u32" where
  "Negative value = calculateCompact True value"

section \<open>Arithmetic\<close>

definition Multiply :: "ArithUint256 \<Rightarrow> int \<Rightarrow> ArithUint256" where
  "Multiply value multiplier = nat ((int value * multiplier) mod 2 ^ 256)"

text \<open>The quotient of two 53-bit floats, rounded to 53 bits, to even on a tie, and truncated. The exponent \<open>s\<close> is the
  one that scales the quotient to 53 bits.\<close>

definition scaled_quotient :: "int \<Rightarrow> nat \<Rightarrow> nat \<Rightarrow> nat \<times> nat" where
  "scaled_quotient s n d = (if s \<ge> 0 then (n * 2 ^ nat s, d) else (n, d * 2 ^ nat (- s)))"

definition quotient53 :: "nat \<Rightarrow> nat \<Rightarrow> nat" where
  "quotient53 n d =
     (if n = 0 then 0
      else
        let b = int (bit_length n) - int (bit_length d);
            (n1, d1) = scaled_quotient (53 - b) n d;
            s = (if n1 div d1 \<ge> 2 ^ 53 then 52 - b else 53 - b);
            (n2, d2) = scaled_quotient s n d;
            m = n2 div d2; r = n2 mod d2;
            m' = (if 2 * r > d2 \<or> (2 * r = d2 \<and> odd m) then m + 1 else m)
        in if s \<ge> 0 then m' div 2 ^ nat s else m' * 2 ^ nat (- s))"

text \<open>\<^verbatim>\<open>None\<close>: the panic on a zero divisor.\<close>

definition Divide :: "ArithUint256 \<Rightarrow> nat \<Rightarrow> ArithUint256 option" where
  "Divide value divisor = (if divisor = 0 then None else Some (quotient53 (round53 value) (round53 divisor)))"

section \<open>The target of the next block\<close>

record BlockHeader =
  HeaderVersion :: u32
  HeaderPreviousHash :: string
  MerkleRoot :: string
  ClaimTrieRoot :: string
  Timestamp :: u32
  HeaderBits :: u32
  Nonce :: u32
  BlockHeight :: int

definition eighth :: "int \<Rightarrow> int" where
  "eighth x = (if x < 0 then - (- x div 8) else x div 8)"

definition clampedTimespan :: "nat \<Rightarrow> int \<Rightarrow> int" where
  "clampedTimespan targetTimespan actualTimespan =
     (let modulatedTimespan = int targetTimespan + eighth (actualTimespan - int targetTimespan);
          minimumTimespan = int targetTimespan - int targetTimespan div 8;
          maximumTimespan = int targetTimespan + int targetTimespan div 2
      in max minimumTimespan (min modulatedTimespan maximumTimespan))"

text \<open>A current header is given whenever a previous one is; \<^verbatim>\<open>None\<close> otherwise, and when the division panics.\<close>

definition NextBlockTarget :: "ArithUint256 \<Rightarrow> nat \<Rightarrow> BlockHeader option \<Rightarrow> BlockHeader option \<Rightarrow> ArithUint256 option" where
  "NextBlockTarget maxTarget targetTimespan previous current =
     (case current of
        None \<Rightarrow> (if previous = None then Some maxTarget else None)
      | Some c \<Rightarrow>
          let p = (case previous of None \<Rightarrow> c | Some p \<Rightarrow> p);
              actualTimespan = uint (Timestamp c) - uint (Timestamp p);
              target = ArithUint256FromCompact (HeaderBits c)
          in map_option (\<lambda>newTarget. if newTarget > maxTarget then maxTarget else newTarget)
               (Divide (Multiply target (clampedTimespan targetTimespan actualTimespan)) targetTimespan))"

section \<open>Compact round trips\<close>

text \<open>Bitcoin's compact form: the number of bytes and the three leading ones, with one more byte when the leading
  bit would be taken for a sign.\<close>

definition compact_form :: "nat \<Rightarrow> nat \<times> nat" where
  "compact_form value =
     (let size = (bit_length value + 7) div 8;
          word = (if size \<le> 3 then value * 2 ^ (8 * (3 - size)) else value div 2 ^ (8 * (size - 3)))
      in if word \<ge> 2 ^ 23 then (size + 1, word div 2 ^ 8) else (size, word))"

lemma bit_length_eqI: "2 ^ n \<le> v \<Longrightarrow> v < 2 ^ Suc n \<Longrightarrow> bit_length v = Suc n"
proof (induction n arbitrary: v)
  case 0
  then have "v = 1" by simp
  then show ?case by (simp add: bit_length.simps)
next
  case (Suc n)
  then have "2 ^ n \<le> v div 2" "v div 2 < 2 ^ Suc n" by (simp_all add: div_less_iff_less_mult less_eq_div_iff_mult_less_eq)
  from Suc.IH [OF this] Suc.prems show ?case by (subst bit_length.simps) simp
qed

text \<open>Size and word of a positive number as the program computes them.\<close>

definition compact_size :: "nat \<Rightarrow> nat" where
  "compact_size v = (bit_length v + 8) div 8"

definition compact_word :: "nat \<Rightarrow> nat" where
  "compact_word v = (if compact_size v \<le> 3 then v * 2 ^ (8 * (3 - compact_size v)) else v div 2 ^ (8 * (compact_size v - 3)))"

lemma compact_size_bounds:
  assumes "0 < v"
  shows "bit_length v < 8 * compact_size v" "8 * compact_size v \<le> bit_length v + 8" "1 \<le> compact_size v" "1 \<le> bit_length v"
  using bit_length_bounds [of v] assms by (auto simp: compact_size_def)

lemma compact_word_bounds:
  assumes "0 < v"
  shows "compact_word v < 2 ^ 23" "2 ^ 15 \<le> compact_word v"
proof -
  let ?n = "bit_length v" let ?s = "compact_size v"
  note b = compact_size_bounds [OF assms]
  have v: "2 ^ (?n - 1) \<le> v" "v < 2 ^ ?n" using bit_length_bounds [of v] assms by simp_all
  have "compact_word v < 2 ^ 23 \<and> 2 ^ 15 \<le> compact_word v"
  proof (cases "?s \<le> 3")
    case True
    let ?k = "8 * (3 - ?s)"
    have w: "compact_word v = v * 2 ^ ?k" using True by (simp add: compact_word_def)
    have "v * 2 ^ ?k < 2 ^ ?n * 2 ^ ?k" using v(2) by simp
    also have "\<dots> = 2 ^ (?n + ?k)" by (simp add: power_add)
    also have "\<dots> \<le> 2 ^ 23" using b True by (intro power_increasing) auto
    finally have upper: "v * 2 ^ ?k < 2 ^ 23" .
    have "2 ^ 15 \<le> (2 :: nat) ^ (?n - 1 + ?k)" using b True by (intro power_increasing) auto
    also have "\<dots> = 2 ^ (?n - 1) * 2 ^ ?k" by (simp add: power_add)
    also have "\<dots> \<le> v * 2 ^ ?k" using v(1) by simp
    finally show ?thesis using upper w by simp
  next
    case False
    let ?k = "8 * (?s - 3)"
    have w: "compact_word v = v div 2 ^ ?k" using False by (simp add: compact_word_def)
    have "(2 :: nat) ^ ?n \<le> 2 ^ (23 + ?k)" using b False by (intro power_increasing) auto
    then have "v < 2 ^ 23 * 2 ^ ?k" using v(2) by (simp only: power_add)
    then have upper: "v div 2 ^ ?k < 2 ^ 23" by (simp add: less_mult_imp_div_less)
    have "(2 :: nat) ^ (15 + ?k) \<le> 2 ^ (?n - 1)" using b False by (intro power_increasing) auto
    then have "2 ^ 15 * 2 ^ ?k \<le> v" using v(1) by (simp only: power_add)
    then have "2 ^ 15 \<le> v div 2 ^ ?k" by (simp add: less_eq_div_iff_mult_less_eq)
    then show ?thesis using upper w by simp
  qed
  then show "compact_word v < 2 ^ 23" "2 ^ 15 \<le> compact_word v" by simp_all
qed

lemma bytes_of_bits:
  "n mod 8 \<noteq> 0 \<Longrightarrow> (n + 8) div 8 = (n + 7) div 8" "n mod 8 = 0 \<Longrightarrow> (n + 8) div 8 = (n + 7) div 8 + 1" "n mod 8 = 0 \<Longrightarrow> n = 8 * ((n + 7) div 8)"
  for n :: nat
proof -
  define q i where "q = n div 8" and "i = n mod 8"
  have n: "n = 8 * q + i" and i: "i < 8" by (simp_all add: q_def i_def)
  have "(n + 8) div 8 = q + 1" using n i by (intro div_nat_eqI) simp_all
  moreover have "(n + 7) div 8 = q + 1" if "i \<noteq> 0" using n i that by (intro div_nat_eqI) simp_all
  moreover have "(n + 7) div 8 = q" if "i = 0" using n i that by (intro div_nat_eqI) simp_all
  ultimately show "n mod 8 \<noteq> 0 \<Longrightarrow> (n + 8) div 8 = (n + 7) div 8" "n mod 8 = 0 \<Longrightarrow> (n + 8) div 8 = (n + 7) div 8 + 1"
    "n mod 8 = 0 \<Longrightarrow> n = 8 * ((n + 7) div 8)" using n by (simp_all flip: i_def)
qed

lemma leading_bits:
  "n = 8 * b \<Longrightarrow> 1 \<le> b \<Longrightarrow> b \<le> 3 \<Longrightarrow> 23 = n - 1 + 8 * (3 - b)" "n = 8 * b \<Longrightarrow> \<not> b \<le> 3 \<Longrightarrow> n - 1 = 23 + 8 * (b - 3)"
  for n b :: nat by simp_all

lemma compact_form_program:
  assumes "0 < v"
  shows "compact_form v = (compact_size v, compact_word v)"
proof -
  let ?n = "bit_length v" let ?b = "(?n + 7) div 8"
  note b = compact_size_bounds [OF assms]
  have v: "2 ^ (?n - 1) \<le> v" "v < 2 ^ ?n" using bit_length_bounds [of v] assms by simp_all
  let ?w = "if ?b \<le> 3 then v * 2 ^ (8 * (3 - ?b)) else v div 2 ^ (8 * (?b - 3))"
  show ?thesis
  proof (cases "?n mod 8 = 0")
    case False
    then have "compact_size v = ?b" unfolding compact_size_def by (rule bytes_of_bits(1))
    then have "?w = compact_word v" by (simp add: compact_word_def)
    then show ?thesis using compact_word_bounds(1) [OF assms] \<open>compact_size v = ?b\<close> by (simp add: compact_form_def Let_def)
  next
    case True
    then have s: "compact_size v = ?b + 1" and n: "?n = 8 * ?b" unfolding compact_size_def by (rule bytes_of_bits)+
    then have one: "1 \<le> ?b" using b(4) by linarith
    have word: "compact_word v = ?w div 2 ^ 8"
    proof (cases "?b \<le> 2")
      case True
      have "8 * (3 - ?b) = 8 * (3 - (?b + 1)) + 8" using True by simp
      then have e: "v * 2 ^ (8 * (3 - ?b)) = v * 2 ^ (8 * (3 - (?b + 1))) * 2 ^ 8" by (simp only: power_add mult.assoc)
      have "?w div 2 ^ 8 = v * 2 ^ (8 * (3 - (?b + 1))) * 2 ^ 8 div 2 ^ 8" using True by (simp only: e [symmetric]) simp
      also have "\<dots> = v * 2 ^ (8 * (3 - (?b + 1)))" by (rule nonzero_mult_div_cancel_right) simp
      finally show ?thesis using True s by (simp add: compact_word_def)
    next
      case False
      have e: "8 * (?b + 1 - 3) = 8 * (?b - 3) + 8" using False by simp
      have "v div 2 ^ (8 * (?b - 3)) div 2 ^ 8 = v div 2 ^ (8 * (?b + 1 - 3))"
        unfolding e power_add by (rule div_mult2_eq [symmetric])
      then show ?thesis using False s by (cases "?b = 3") (simp_all add: compact_word_def)
    qed
    have "2 ^ 23 \<le> ?w"
    proof (cases "?b \<le> 3")
      case True
      have "23 = ?n - 1 + 8 * (3 - ?b)" using n one True by (rule leading_bits(1))
      then have "(2 :: nat) ^ 23 = 2 ^ (?n - 1) * 2 ^ (8 * (3 - ?b))" by (metis power_add)
      also have "\<dots> \<le> v * 2 ^ (8 * (3 - ?b))" using v(1) by simp
      finally show ?thesis using True by simp
    next
      case False
      have "?n - 1 = 23 + 8 * (?b - 3)" using n False by (rule leading_bits(2))
      then have "2 ^ 23 * 2 ^ (8 * (?b - 3)) = (2 :: nat) ^ (?n - 1)" by (metis power_add)
      then have "2 ^ 23 * 2 ^ (8 * (?b - 3)) \<le> v" using v(1) by simp
      then show ?thesis using False by (simp add: less_eq_div_iff_mult_less_eq)
    qed
    then show ?thesis using s word unfolding compact_form_def Let_def by simp
  qed
qed

lemma nat_and_bit23: "w < 2 ^ 23 \<Longrightarrow> w AND 0x00800000 = (0 :: nat)"
proof -
  assume "w < 2 ^ 23"
  then have w: "w = w AND mask 23" by (metis take_bit_eq_mask take_bit_nat_eq_self)
  have "mask 23 AND 0x00800000 = (0 :: nat)" by (simp add: mask_numeral)
  then show ?thesis by (metis w and.assoc and_zero_eq)
qed

lemma nat_or_add: "w < 2 ^ 24 \<Longrightarrow> w OR push_bit 24 s = w + s * 2 ^ 24" for w s :: nat
proof -
  assume "w < 2 ^ 24"
  have "\<not> bit w n" if "24 \<le> n" for n
  proof -
    have "w < 2 ^ n" using \<open>w < 2 ^ 24\<close> power_increasing [OF that, of "2 :: nat"] by linarith
    then show ?thesis by (simp add: bit_iff_odd)
  qed
  then have "w AND push_bit 24 s = 0" by (intro bit_eqI) (auto simp: bit_and_iff bit_push_bit_iff)
  from disjunctive_add_eq_or [OF this] show ?thesis by (simp add: push_bit_eq_mult)
qed

lemma unat_Compact:
  assumes "0 < v" and "v < 2 ^ 256"
  shows "unat (Compact v) = compact_word v + compact_size v * 2 ^ 24" "compact_size v \<le> 33"
proof -
  let ?s = "compact_size v" let ?w = "compact_word v"
  note b = compact_size_bounds [OF assms(1)] and w = compact_word_bounds [OF assms(1)]
  have "2 ^ (bit_length v - 1) < (2 :: nat) ^ 256" 
    using bit_length_bounds [of v] assms by (intro le_less_trans [OF _ assms(2)]) simp
  then have "bit_length v - 1 < 256" by (rule power_less_imp_less_exp [rotated]) simp
  then have "bit_length v \<le> 256" by simp
  then show s: "?s \<le> 33" using b(2) by simp
  have size: "(Bits v + 7) div 8 = ?s" using assms(1) by (simp add: Bits_def compact_size_def)
  have word: "(if ?s \<le> 3 then push_bit (8 * (3 - ?s)) (of_nat v :: u64) else of_nat (v div 2 ^ (8 * (?s - 3)))) = of_nat ?w"
    by (simp add: compact_word_def push_bit_of_nat push_bit_eq_mult)
  have no_sign: "(of_nat ?w :: u64) AND 0x00800000 = 0"
    using arg_cong [OF nat_and_bit23 [OF w(1)], of "of_nat :: nat \<Rightarrow> u64"] by (simp add: of_nat_and_eq)
  define x where "x = ?w + ?s * 2 ^ 24"
  have x: "x < 2 ^ 32" unfolding x_def using w(1) s by simp
  have "(of_nat ?w :: u64) OR push_bit 24 (of_nat ?s) = of_nat x"
    unfolding x_def using arg_cong [OF nat_or_add, of ?w "of_nat :: nat \<Rightarrow> u64" ?s] w(1) by (simp add: of_nat_or_eq push_bit_of_nat)
  then have "Compact v = ucast (of_nat x :: u64)"
    unfolding Compact_def calculateCompact_def Let_def size word no_sign by simp
  then show "unat (Compact v) = ?w + ?s * 2 ^ 24"
    unfolding x_def [symmetric] using x by (simp add: unsigned_ucast_eq unsigned_of_nat take_bit_nat_eq_self)
qed

lemma ArithUint256FromCompact_code:
  assumes "w < 2 ^ 23" and "s < 256" and "unat c = w + s * 2 ^ 24"
  shows "ArithUint256FromCompact c = (if s \<le> 3 then w div 2 ^ (8 * (3 - s)) else w * 2 ^ (8 * (s - 3)))"
proof -
  have "unat (drop_bit 24 c) = drop_bit 24 (w + s * 2 ^ 24)" unfolding assms(3) [symmetric] by (rule unat_drop_bit_eq)
  also have "\<dots> = s" using assms(1) by (simp add: drop_bit_eq_div)
  finally have size: "unat (drop_bit 24 c) = s" .
  have "(0x007fffff :: u32) = mask 23" by (simp add: mask_numeral)
  then have "unat (c AND 0x007fffff) = unat c mod 2 ^ 23"
    by (metis take_bit_eq_mask take_bit_eq_mod unsigned_take_bit_eq)
  also have "unat c = w + (2 * s) * 2 ^ 23" using assms(3) by simp
  also have "(w + (2 * s) * 2 ^ 23) mod 2 ^ 23 = w" using assms(1) by (simp only: mod_mult_self1 mod_less)
  finally show ?thesis by (simp add: ArithUint256FromCompact_def size Let_def)
qed

lemma truncated_compact:
  assumes "0 < v"
  defines "t \<equiv> v - v mod 2 ^ (8 * (compact_size v - 3))"
  shows "0 < t" "t \<le> v" "compact_size t = compact_size v" "compact_word t = compact_word v"
proof -
  let ?s = "compact_size v" let ?k = "8 * (?s - 3)" let ?n = "bit_length v"
  note b = compact_size_bounds [OF assms(1)]
  have t: "t = v div 2 ^ ?k * 2 ^ ?k" unfolding t_def by (rule minus_mod_eq_div_mult)
  show le: "t \<le> v" by (simp add: t_def)
  have v: "2 ^ (?n - 1) \<le> v" "v < 2 ^ ?n" using bit_length_bounds [of v] assms(1) by simp_all
  have "?n - 1 = (?n - 1 - ?k) + ?k" using b by simp
  then have e: "(2 :: nat) ^ (?n - 1) = 2 ^ (?n - 1 - ?k) * 2 ^ ?k" by (metis power_add)
  then have "2 ^ (?n - 1 - ?k) \<le> v div 2 ^ ?k" using v(1) by (simp add: less_eq_div_iff_mult_less_eq)
  then have low: "2 ^ (?n - 1) \<le> t" unfolding t e by simp
  then show "0 < t" using less_le_trans by fastforce
  have n: "?n = Suc (?n - 1)" using b(4) by simp
  have "bit_length t = ?n" using bit_length_eqI [OF low] le v(2) n by simp
  then show size: "compact_size t = ?s" by (simp add: compact_size_def)
  have "t div 2 ^ ?k = v div 2 ^ ?k" unfolding t by simp
  then show "compact_word t = compact_word v" unfolding compact_word_def size by (simp add: t_def)
qed

text \<open>
  C37. Compact targets. For every positive number below \<open>2 ^ 256\<close> the compact form is Bitcoin's: the number of
  bytes above the three leading ones, although the program counts one binary digit too many and so
  never meets the sign bit. Reading it back gives the number without the bytes that were cut off, which
  has the same compact form.
\<close>

theorem Compact_canonical:
  assumes "0 < v" and "v < 2 ^ 256"
  shows "unat (Compact v) = snd (compact_form v) + fst (compact_form v) * 2 ^ 24 \<and>
    ArithUint256FromCompact (Compact v) = v - v mod 2 ^ (8 * (fst (compact_form v) - 3)) \<and>
    Compact (ArithUint256FromCompact (Compact v)) = Compact v"
proof -
  let ?s = "compact_size v" let ?t = "v - v mod 2 ^ (8 * (?s - 3))"
  note form = compact_form_program [OF assms(1)] and code = unat_Compact [OF assms] and t = truncated_compact [OF assms(1)]
  have from_code: "ArithUint256FromCompact (Compact v) = ?t"
    unfolding ArithUint256FromCompact_code [OF compact_word_bounds(1) [OF assms(1)] _ code(1)]
    using code(2) ArithUint256FromCompact_code [OF compact_word_bounds(1) [OF assms(1)] _ code(1)]
    by (simp add: compact_word_def minus_mod_eq_div_mult)
  have "?t < 2 ^ 256" using t(2) assms(2) by (rule le_less_trans)
  from unat_Compact(1) [OF t(1) this] code(1) have "unat (Compact ?t) = unat (Compact v)" unfolding t(3,4) by simp
  then have "Compact ?t = Compact v" by (simp only: unsigned_word_eqI)
  then show ?thesis using from_code code(1) form by simp
qed

theorem Compact_canonical_witness: "Compact (ArithUint256FromCompact (Compact 0x123456789)) = Compact 0x123456789 \<and> unat (Compact 0x123456789) = 0x05012345"
proof -
  have "bit_length 4886718345 = 33" by (simp add: bit_length.simps)
  then have "compact_form 4886718345 = (5, 0x12345)" by (simp add: compact_form_def)
  moreover have "0 < (0x123456789 :: nat)" "(0x123456789 :: nat) < 2 ^ 256" by simp_all
  note c = Compact_canonical [OF this]
  ultimately have "unat (Compact 0x123456789) = 0x05012345" by simp
  with c show ?thesis by blast
qed

end
