(* ===== verification/Base64.thy ===== *)
theory Base64
  imports Prelude
begin

text \<open>
  The tolerant Base64 reader of \<^verbatim>\<open>wallet/crypt.go\<close>, which accounts and checkpoint chunks share, and the writer of
  Go's \<^verbatim>\<open>encoding/base64\<close>. The reader skips characters outside the alphabet and stops at the padding: it reads
  back every written text, also with foreign characters strewn in.
\<close>

unbundle bit_operations_syntax

datatype base64_error = OneMoreThanMultiple | IncorrectPadding

definition pythonBase64Digit :: "char \<Rightarrow> byte option" where
  "pythonBase64Digit value =
     (let v = (of_char value :: nat)
      in if 65 \<le> v \<and> v \<le> 90 then Some (of_nat (v - 65))
         else if 97 \<le> v \<and> v \<le> 122 then Some (of_nat (v - 97 + 26))
         else if 48 \<le> v \<and> v \<le> 57 then Some (of_nat (v - 48 + 52))
         else if value = CHR ''+'' then Some 62
         else if value = CHR ''/'' then Some 63
         else None)"

text \<open>The loop, with its variables as arguments.\<close>

fun decodePythonBase64_loop :: "nat \<Rightarrow> byte \<Rightarrow> nat \<Rightarrow> bytes \<Rightarrow> string \<Rightarrow> base64_error + bytes" where
  "decodePythonBase64_loop quadPosition left pads decoded [] =
     (if quadPosition = 0 then Inr decoded else if quadPosition = 1 then Inl OneMoreThanMultiple else Inl IncorrectPadding)"
| "decodePythonBase64_loop quadPosition left pads decoded (value # encoded) =
     (if value = CHR ''='' then
        if quadPosition \<ge> 2 then
          if quadPosition + (pads + 1) \<ge> 4 then Inr decoded
          else decodePythonBase64_loop quadPosition left (pads + 1) decoded encoded
        else decodePythonBase64_loop quadPosition left pads decoded encoded
      else
        case pythonBase64Digit value of
          None \<Rightarrow> decodePythonBase64_loop quadPosition left pads decoded encoded
        | Some digit \<Rightarrow>
            if quadPosition = 0 then decodePythonBase64_loop 1 digit 0 decoded encoded
            else if quadPosition = 1 then decodePythonBase64_loop 2 (digit AND 0x0f) 0 (decoded @ [push_bit 2 left OR drop_bit 4 digit]) encoded
            else if quadPosition = 2 then decodePythonBase64_loop 3 (digit AND 0x03) 0 (decoded @ [push_bit 4 left OR drop_bit 2 digit]) encoded
            else decodePythonBase64_loop 0 0 0 (decoded @ [push_bit 6 left OR digit]) encoded)"

definition decodePythonBase64 :: "string \<Rightarrow> base64_error + bytes" where
  "decodePythonBase64 encoded = decodePythonBase64_loop 0 0 0 [] encoded"

text \<open>\<^verbatim>\<open>base64.StdEncoding\<close>.\<close>

definition base64Alphabet :: string where
  "base64Alphabet = ''ABCDEFGHIJKLMNOPQRSTUVWXYZabcdefghijklmnopqrstuvwxyz0123456789+/''"

fun StdEncoding :: "bytes \<Rightarrow> string" where
  "StdEncoding [] = []"
| "StdEncoding [a] = [base64Alphabet ! (unat a div 4), base64Alphabet ! (unat a mod 4 * 16), CHR ''='', CHR ''='']"
| "StdEncoding [a, b] =
     [base64Alphabet ! (unat a div 4), base64Alphabet ! (unat a mod 4 * 16 + unat b div 16),
      base64Alphabet ! (unat b mod 16 * 4), CHR ''='']"
| "StdEncoding (a # b # c # bs) =
     [base64Alphabet ! (unat a div 4), base64Alphabet ! (unat a mod 4 * 16 + unat b div 16),
      base64Alphabet ! (unat b mod 16 * 4 + unat c div 64), base64Alphabet ! (unat c mod 64)] @ StdEncoding bs"

definition significant :: "char \<Rightarrow> bool" where
  "significant c \<longleftrightarrow> c = CHR ''='' \<or> pythonBase64Digit c \<noteq> None"

lemma digit_of_alphabet:
  assumes "n < 64"
  shows "pythonBase64Digit (base64Alphabet ! n) = Some (of_nat n) \<and> base64Alphabet ! n \<noteq> CHR ''=''"
proof -
  have "map pythonBase64Digit base64Alphabet = map (\<lambda>n. Some (of_nat n)) [0..<64]"
    by (simp add: base64Alphabet_def pythonBase64Digit_def upt_rec)
  from arg_cong [OF this, of "\<lambda>xs. xs ! n"] have "map pythonBase64Digit base64Alphabet ! n = Some (of_nat n)"
    using assms by (simp only: nth_map nth_upt length_upt diff_zero add_0)
  moreover have "length base64Alphabet = 64" by (simp add: base64Alphabet_def)
  ultimately have "pythonBase64Digit (base64Alphabet ! n) = Some (of_nat n)"
    using assms by (simp only: nth_map)
  moreover have "pythonBase64Digit (CHR ''='') = None" by (simp add: pythonBase64Digit_def)
  ultimately show ?thesis by auto
qed

lemma or_add: "w < 2 ^ k \<Longrightarrow> push_bit k (of_nat h) OR of_nat w = (of_nat (h * 2 ^ k + w) :: byte)" for w h :: nat
proof -
  assume "w < 2 ^ k"
  then have "take_bit k w = w" by (rule take_bit_nat_eq_self)
  then have "\<not> bit w n" if "k \<le> n" for n using that by (metis bit_take_bit_iff not_le)
  then have "push_bit k h AND w = 0" by (intro bit_eqI) (auto simp: bit_and_iff bit_push_bit_iff)
  from disjunctive_add_eq_or [OF this] have "push_bit k h OR w = h * 2 ^ k + w" by (simp add: push_bit_eq_mult)
  then show ?thesis by (metis of_nat_or_eq push_bit_of_nat)
qed

lemma byte_parts:
  assumes "d < 256"
  shows "drop_bit k (of_nat d :: byte) = of_nat (d div 2 ^ k)" "(of_nat d :: byte) AND 0x0f = of_nat (d mod 16)"
    "(of_nat d :: byte) AND 0x03 = of_nat (d mod 4)"
proof -
  have u: "unat (of_nat d :: byte) = d" using assms by simp
  have "drop_bit k (of_nat d :: byte) = of_nat (unat (drop_bit k (of_nat d :: byte)))" by simp
  also have "\<dots> = of_nat (d div 2 ^ k)" by (subst unat_drop_bit_eq, subst u) (simp add: drop_bit_eq_div)
  finally show "drop_bit k (of_nat d :: byte) = of_nat (d div 2 ^ k)" .
  have "(of_nat d :: byte) AND mask k = of_nat (d mod 2 ^ k)" for k
    by (metis take_bit_eq_mask take_bit_of_nat take_bit_eq_mod)
  from this [of 4] this [of 2] show "(of_nat d :: byte) AND 0x0f = of_nat (d mod 16)" "(of_nat d :: byte) AND 0x03 = of_nat (d mod 4)"
    by (simp_all add: mask_numeral)
qed

lemma four_digits:
  fixes a b c :: nat
  assumes "a < 256" "b < 256" "c < 256"
  shows "push_bit 2 (of_nat (a div 4)) OR drop_bit 4 (of_nat (a mod 4 * 16 + b div 16)) = (of_nat a :: byte)"
    "push_bit 4 ((of_nat (a mod 4 * 16 + b div 16) :: byte) AND 0x0f) OR drop_bit 2 (of_nat (b mod 16 * 4 + c div 64)) = (of_nat b :: byte)"
    "push_bit 6 ((of_nat (b mod 16 * 4 + c div 64) :: byte) AND 0x03) OR of_nat (c mod 64) = (of_nat c :: byte)"
proof -
  have lt: "b div 16 < 16" "c div 64 < 4" "a mod 4 * 16 + b div 16 < 256" "b mod 16 * 4 + c div 64 < 256" using assms by auto
  have "(a mod 4 * 16 + b div 16) div 2 ^ 4 = a mod 4" "(a mod 4 * 16 + b div 16) mod 16 = b div 16"
    "(b mod 16 * 4 + c div 64) div 2 ^ 2 = b mod 16" "(b mod 16 * 4 + c div 64) mod 4 = c div 64" using lt by simp_all
  note parts = byte_parts [OF lt(3)] byte_parts [OF lt(4)] this
  show "push_bit 2 (of_nat (a div 4)) OR drop_bit 4 (of_nat (a mod 4 * 16 + b div 16)) = (of_nat a :: byte)"
    using or_add [of "a mod 4" 2 "a div 4"] by (simp only: parts) simp
  show "push_bit 4 ((of_nat (a mod 4 * 16 + b div 16) :: byte) AND 0x0f) OR drop_bit 2 (of_nat (b mod 16 * 4 + c div 64)) = (of_nat b :: byte)"
    using or_add [of "b mod 16" 4 "b div 16"] by (simp only: parts) simp
  show "push_bit 6 ((of_nat (b mod 16 * 4 + c div 64) :: byte) AND 0x03) OR of_nat (c mod 64) = (of_nat c :: byte)"
    using or_add [of "c mod 64" 6 "c div 64"] by (simp only: parts) simp
qed

lemma loop_digit:
  assumes "n < 64"
  shows "decodePythonBase64_loop quadPosition left pads decoded (base64Alphabet ! n # encoded) =
    (if quadPosition = 0 then decodePythonBase64_loop 1 (of_nat n) 0 decoded encoded
     else if quadPosition = 1 then decodePythonBase64_loop 2 (of_nat n AND 0x0f) 0 (decoded @ [push_bit 2 left OR drop_bit 4 (of_nat n)]) encoded
     else if quadPosition = 2 then decodePythonBase64_loop 3 (of_nat n AND 0x03) 0 (decoded @ [push_bit 4 left OR drop_bit 2 (of_nat n)]) encoded
     else decodePythonBase64_loop 0 0 0 (decoded @ [push_bit 6 left OR of_nat n]) encoded)"
  using digit_of_alphabet [OF assms] by simp

lemma loop_pad:
  "decodePythonBase64_loop quadPosition left pads decoded (CHR ''='' # encoded) =
    (if quadPosition \<ge> 2 then
       if quadPosition + (pads + 1) \<ge> 4 then Inr decoded else decodePythonBase64_loop quadPosition left (pads + 1) decoded encoded
     else decodePythonBase64_loop quadPosition left pads decoded encoded)"
  by simp

lemma digit_bounds:
  "unat (a :: byte) div 4 < 64" "unat a mod 4 * 16 + unat (b :: byte) div 16 < 64" "unat b mod 16 * 4 + unat (c :: byte) div 64 < 64"
  "unat c mod 64 < 64" "unat a mod 4 * 16 < 64" "unat b mod 16 * 4 < 64"
proof -
  have "x div 4 < 64" "x mod 4 * 16 + y div 16 < 64" "y mod 16 * 4 + z div 64 < 64" "z mod 64 < 64" "x mod 4 * 16 < 64" "y mod 16 * 4 < 64"
    if "x < 256" "y < 256" "z < 256" for x y z :: nat using that by auto
  note this [OF unat_byte_less [of a] unat_byte_less [of b] unat_byte_less [of c]]
  then show "unat (a :: byte) div 4 < 64" "unat a mod 4 * 16 + unat (b :: byte) div 16 < 64" "unat b mod 16 * 4 + unat (c :: byte) div 64 < 64"
    "unat c mod 64 < 64" "unat a mod 4 * 16 < 64" "unat b mod 16 * 4 < 64" by blast+
qed

lemma decode_encode_loop: "decodePythonBase64_loop 0 left pads decoded (StdEncoding bs) = Inr (decoded @ bs)"
proof (induction bs arbitrary: left pads decoded rule: StdEncoding.induct)
  case (2 a)
  from four_digits [OF unat_byte_less [of a], of 0 0] show ?case by (simp add: loop_digit loop_pad digit_bounds del: decodePythonBase64_loop.simps(2))
next
  case (3 a b)
  from four_digits [OF unat_byte_less [of a] unat_byte_less [of b], of 0] show ?case by (simp add: loop_digit loop_pad digit_bounds del: decodePythonBase64_loop.simps(2))
next
  case (4 a b c bs)
  from four_digits [OF unat_byte_less [of a] unat_byte_less [of b] unat_byte_less [of c]] 4 show ?case by (simp add: loop_digit loop_pad digit_bounds del: decodePythonBase64_loop.simps(2))
qed simp

lemma decode_significant:
  "decodePythonBase64_loop quadPosition left pads decoded (filter significant encoded) = decodePythonBase64_loop quadPosition left pads decoded encoded"
  by (induction quadPosition left pads decoded encoded rule: decodePythonBase64_loop.induct) (auto simp: significant_def split: option.splits)

lemma decodePythonBase64_StdEncoding: "filter significant encoded = StdEncoding bs \<Longrightarrow> decodePythonBase64 encoded = Inr bs"
  unfolding decodePythonBase64_def using decode_encode_loop [of 0 0 "[]" bs] by (metis append_Nil decode_significant)

end
