(* ===== verification/Headers.thy ===== *)
theory Headers
  imports HeaderTarget Base58 Base64
begin

text \<open>
  Block headers, \<^verbatim>\<open>wallet/headers.go\<close>, with the storage of \<^verbatim>\<open>header_storage.go\<close>, the table of
  \<^verbatim>\<open>checkpoints.go\<close> and the fetching of chunks of \<^verbatim>\<open>header_fetch.go\<close>. The state is the record of the store; its
  storage is the sequence of bytes that the in-memory storage and the staged file hold alike. The network
  that delivers chunks is a parameter with a state of its own, which gives the Base64 text of a compressed chunk or an
  error; inflating, which reads at most a limit of bytes, is a parameter as well. Locks make each
  operation one step, and no context is cancelled. The embedded table of checkpoints is a field.
\<close>

abbreviation (input) HeaderSize :: nat where "HeaderSize \<equiv> 112"
abbreviation (input) checkpointInterval :: nat where "checkpointInterval \<equiv> 1000"
abbreviation (input) checkpointDigestSize :: nat where "checkpointDigestSize \<equiv> 32"

section \<open>Serialized headers\<close>

datatype header_error = ErrHeadersNotOpen | ErrInvalidHeaderLength | ErrHeaderOutOfBounds | InvalidHex
  | InvalidHeaderError int string | DivisionByZero | ChunkGetterFailed string | ErrHeaderChunkGetterUnavailable
  | ErrCheckpointBase64TooLarge | CheckpointBase64 base64_error | ErrCheckpointCompressedTooLarge | InflateFailed string
  | ErrCheckpointOutputTooLarge | ErrInvalidCheckpointChunkLength | CheckpointMismatchError int string string

definition decodeReversedHeaderHash :: "string \<Rightarrow> header_error + bytes" where
  "decodeReversedHeaderHash value = (case DecodeString value of None \<Rightarrow> Inl InvalidHex | Some decoded \<Rightarrow> Inr (rev decoded))"

definition encodeReversedHeaderHash :: "bytes \<Rightarrow> string" where
  "encodeReversedHeaderHash value = EncodeToString (rev value)"

definition PutUint32 :: "u32 \<Rightarrow> bytes" where
  "PutUint32 v = le_bytes 4 (unat v)"

definition Uint32At :: "nat \<Rightarrow> bytes \<Rightarrow> u32" where
  "Uint32At offset bs = of_nat (le_value (take 4 (drop offset bs)))"

definition SerializeHeader :: "BlockHeader \<Rightarrow> header_error + bytes" where
  "SerializeHeader header =
     and_then (decodeReversedHeaderHash (HeaderPreviousHash header)) (\<lambda>previous.
     and_then (decodeReversedHeaderHash (MerkleRoot header)) (\<lambda>merkle.
     and_then (decodeReversedHeaderHash (ClaimTrieRoot header)) (\<lambda>claimTrie.
       Inr (PutUint32 (HeaderVersion header) @ previous @ merkle @ claimTrie @ PutUint32 (Timestamp header) @
            PutUint32 (HeaderBits header) @ PutUint32 (Nonce header)))))"

definition DeserializeHeader :: "int \<Rightarrow> bytes \<Rightarrow> header_error + BlockHeader" where
  "DeserializeHeader height serialized =
     (if length serialized < HeaderSize then Inl ErrInvalidHeaderLength
      else Inr \<lparr>HeaderVersion = Uint32At 0 serialized,
        HeaderPreviousHash = encodeReversedHeaderHash (take 32 (drop 4 serialized)),
        MerkleRoot = encodeReversedHeaderHash (take 32 (drop 36 serialized)),
        ClaimTrieRoot = encodeReversedHeaderHash (take 32 (drop 68 serialized)),
        Timestamp = Uint32At 100 serialized, HeaderBits = Uint32At 104 serialized, Nonce = Uint32At 108 serialized,
        BlockHeight = height\<rparr>)"

text \<open>\<^verbatim>\<open>HashHeader(nil)\<close> is not used with headers and is left out.\<close>

definition HashHeader :: "bytes \<Rightarrow> string" where
  "HashHeader serialized = encodeReversedHeaderHash (doubleSHA256 serialized)"

definition HeaderHashToPoWHash :: "(bytes \<Rightarrow> bytes) \<Rightarrow> string \<Rightarrow> header_error + string" where
  "HeaderHashToPoWHash ripemd160 headerHash =
     (case DecodeString headerHash of
        None \<Rightarrow> Inl InvalidHex
      | Some decoded \<Rightarrow>
          let wide = sha512 (rev decoded); combined = ripemd160 (take 32 wide) @ ripemd160 (drop 32 wide)
          in Inr (encodeReversedHeaderHash (doubleSHA256 combined)))"

text \<open>\<^verbatim>\<open>big.Int.SetString\<close> with base 16 on the digits of a hash.\<close>

definition ProofOfWork :: "(bytes \<Rightarrow> bytes) \<Rightarrow> string \<Rightarrow> header_error + ArithUint256" where
  "ProofOfWork ripemd160 headerHash =
     and_then (HeaderHashToPoWHash ripemd160 headerHash) (\<lambda>powHash.
       case DecodeString powHash of None \<Rightarrow> Inl InvalidHex | Some bs \<Rightarrow> Inr (be_value bs))"

section \<open>Checkpoints\<close>

type_synonym checkpointTable = bytes

definition newCheckpointTable :: "bytes \<Rightarrow> checkpointTable option" where
  "newCheckpointTable d = (if length d mod checkpointDigestSize \<noteq> 0 then None else Some d)"

definition checkpoint_len :: "checkpointTable \<Rightarrow> nat" where
  "checkpoint_len table = length table div checkpointDigestSize"

definition lastHeight :: "checkpointTable \<Rightarrow> int" where
  "lastHeight table = (if checkpoint_len table = 0 then - 1 else int ((checkpoint_len table - 1) * checkpointInterval))"

definition checkpoint_at :: "checkpointTable \<Rightarrow> nat \<Rightarrow> string option" where
  "checkpoint_at table i =
     (if i \<ge> checkpoint_len table then None
      else Some (EncodeToString (take checkpointDigestSize (drop (i * checkpointDigestSize) table))))"

definition checkpoint_lookup :: "checkpointTable \<Rightarrow> int \<Rightarrow> string option" where
  "checkpoint_lookup table height =
     (if height < 0 \<or> height mod int checkpointInterval \<noteq> 0 then None else checkpoint_at table (nat (height div int checkpointInterval)))"

section \<open>The store\<close>

record Headers =
  storage :: bytes
  store_size :: nat
  opened :: bool
  checkpoints :: checkpointTable
  missingCheckpoints :: "nat list"
  validateDifficulty :: bool
  genesisHash :: "string option"
  maxTarget :: ArithUint256
  targetTimespan :: nat

definition Resize :: "nat \<Rightarrow> bytes \<Rightarrow> bytes" where
  "Resize n d = (if n < length d then take n d else d @ replicate (n - length d) 0)"

definition WriteAt :: "bytes \<Rightarrow> nat \<Rightarrow> bytes \<Rightarrow> bytes" where
  "WriteAt source offset d =
     (let d1 = (if offset + length source > length d then Resize (offset + length source) d else d)
      in take offset d1 @ source @ drop (offset + length source) d1)"

definition readLocked :: "Headers \<Rightarrow> int \<Rightarrow> header_error + bytes" where
  "readLocked headers height =
     (if height < 0 \<or> height \<ge> int (store_size headers) then Inl ErrHeaderOutOfBounds
      else
        let raw = take HeaderSize (drop (nat height * HeaderSize) (storage headers))
        in if length raw \<noteq> HeaderSize then Inl ErrInvalidHeaderLength else Inr raw)"

definition writeLocked :: "Headers \<Rightarrow> nat \<Rightarrow> bytes \<Rightarrow> Headers" where
  "writeLocked headers height serialized =
     (let offset = height * HeaderSize;
          d = (if offset > length (storage headers) then Resize offset (storage headers) else storage headers);
          written = WriteAt serialized offset d
      in headers\<lparr>storage := written, store_size := max (store_size headers) (length written div HeaderSize)\<rparr>)"

definition chunkHashLocked :: "Headers \<Rightarrow> int \<Rightarrow> int \<Rightarrow> header_error + string" where
  "chunkHashLocked headers start n =
     (if start < 0 \<or> n < 0 then Inl ErrHeaderOutOfBounds
      else if start > int64_max div int HeaderSize \<or> n > int64_max div int HeaderSize then Inl ErrHeaderOutOfBounds
      else Inr (HashHeader (take (nat n * HeaderSize) (drop (nat start * HeaderSize) (storage headers)))))"

definition checkpointEmptyHash :: string where
  "checkpointEmptyHash = ''56944c5d3f98413ef45cf54545538103cc9f298e0575820ad3591376e2e0f65d''"

definition checkpointZeroHeaderHash :: string where
  "checkpointZeroHeaderHash = ''789d737d4f448e554b318c94063bbfa63e9ccda6e208f5648ca76ee68896557b''"

definition hasHeaderLocked :: "Headers \<Rightarrow> int \<Rightarrow> header_error + bool" where
  "hasHeaderLocked headers height =
     (if height < 0 then Inl ErrHeaderOutOfBounds
      else
        let normalized = height div int checkpointInterval * int checkpointInterval
        in case checkpoint_lookup (checkpoints headers) normalized of
             Some _ \<Rightarrow> Inr (nat normalized \<notin> set (missingCheckpoints headers))
           | None \<Rightarrow> and_then (chunkHashLocked headers height 1) (\<lambda>hash.
               Inr (hash \<noteq> checkpointEmptyHash \<and> hash \<noteq> checkpointZeroHeaderHash)))"

text \<open>Newest first.\<close>

definition MissingCheckpointedChunks :: "Headers \<Rightarrow> nat list" where
  "MissingCheckpointedChunks headers =
     filter (\<lambda>height. height \<in> set (missingCheckpoints headers))
       (map (\<lambda>i. i * checkpointInterval) (rev [0..<checkpoint_len (checkpoints headers)]))"

definition ensureCheckpointedSizeLocked :: "Headers \<Rightarrow> Headers" where
  "ensureCheckpointedSizeLocked headers =
     (let last = lastHeight (checkpoints headers)
      in if int (store_size headers) - 1 \<ge> last then headers
         else
           let offset = nat last * HeaderSize; d = Resize (offset + checkpointInterval * HeaderSize) (Resize offset (storage headers))
           in headers\<lparr>storage := d, store_size := length d div HeaderSize\<rparr>)"

text \<open>The loop from the last checkpoint to the first.\<close>

fun find_missing :: "nat list \<Rightarrow> Headers \<Rightarrow> Headers \<times> header_error option" where
  "find_missing [] headers = (headers, None)"
| "find_missing (i # is) headers =
     (let height = i * checkpointInterval
      in if height \<in> set (missingCheckpoints headers) then find_missing is headers
         else (case chunkHashLocked headers (int height) (int checkpointInterval) of
                 Inl e \<Rightarrow> (headers, Some e)
               | Inr actual \<Rightarrow>
                   find_missing is
                     (if Some actual \<noteq> checkpoint_at (checkpoints headers) i
                      then headers\<lparr>missingCheckpoints := height # missingCheckpoints headers\<rparr> else headers)))"

definition findMissingCheckpointsLocked :: "Headers \<Rightarrow> Headers \<times> header_error option" where
  "findMissingCheckpointsLocked headers = find_missing (rev [0..<checkpoint_len (checkpoints headers)]) headers"

section \<open>Validation\<close>

definition validateHeader ::
  "(bytes \<Rightarrow> bytes) \<Rightarrow> Headers \<Rightarrow> int \<Rightarrow> string \<Rightarrow> BlockHeader \<Rightarrow> string option \<Rightarrow> ArithUint256 \<Rightarrow> header_error option" where
  "validateHeader ripemd160 headers height currentHash header previousHash target =
     (case previousHash of
        None \<Rightarrow>
          (if genesisHash headers \<noteq> None \<and> genesisHash headers \<noteq> Some currentHash
           then Some (InvalidHeaderError height ''genesis header doesn't match'') else None)
      | Some previous \<Rightarrow>
          if HeaderPreviousHash header \<noteq> previous then Some (InvalidHeaderError height ''previous hash mismatch'')
          else if \<not> validateDifficulty headers then None
          else if HeaderBits header \<noteq> Compact target then Some (InvalidHeaderError height ''bits mismatch'')
          else (case ProofOfWork ripemd160 currentHash of
                  Inl e \<Rightarrow> Some e
                | Inr proof \<Rightarrow> if proof > target then Some (InvalidHeaderError height ''insufficient proof of work'') else None))"

text \<open>The loop over a chunk, given as its headers; \<open>n\<close> counts them.\<close>

fun validate_loop ::
  "(bytes \<Rightarrow> bytes) \<Rightarrow> Headers \<Rightarrow> int \<Rightarrow> nat \<Rightarrow> bytes list \<Rightarrow> string option \<Rightarrow> BlockHeader option \<Rightarrow> BlockHeader option \<Rightarrow> header_error option" where
  "validate_loop ripemd160 headers start n [] previousHash previous previousPrevious = None"
| "validate_loop ripemd160 headers start n (raw # raws) previousHash previous previousPrevious =
     (case DeserializeHeader (start + int n) raw of
        Inl e \<Rightarrow> Some e
      | Inr current \<Rightarrow>
          let currentHash = HashHeader raw
          in case NextBlockTarget (maxTarget headers) (targetTimespan headers) previousPrevious previous of
               None \<Rightarrow> Some DivisionByZero
             | Some target \<Rightarrow>
                 (case validateHeader ripemd160 headers start currentHash current previousHash target of
                    Some e \<Rightarrow> Some e
                  | None \<Rightarrow> validate_loop ripemd160 headers start (Suc n) raws (Some currentHash) (Some current) previous))"

fun split_headers :: "nat \<Rightarrow> bytes \<Rightarrow> bytes list" where
  "split_headers 0 serialized = []"
| "split_headers (Suc n) serialized = take HeaderSize serialized # split_headers n (drop HeaderSize serialized)"

definition read_header :: "Headers \<Rightarrow> int \<Rightarrow> header_error + bytes \<times> BlockHeader" where
  "read_header headers height =
     and_then (readLocked headers height) (\<lambda>raw. and_then (DeserializeHeader height raw) (\<lambda>decoded. Inr (raw, decoded)))"

definition validateChunkLocked :: "(bytes \<Rightarrow> bytes) \<Rightarrow> Headers \<Rightarrow> int \<Rightarrow> bytes \<Rightarrow> header_error option" where
  "validateChunkLocked ripemd160 headers start serialized =
     (case (if start > 0 then and_then (read_header headers (start - 1)) (\<lambda>(raw, decoded). Inr (Some (HashHeader raw), Some decoded))
            else Inr (None, None)) of
        Inl e \<Rightarrow> Some e
      | Inr (previousHash, previous) \<Rightarrow>
          (case (if start > 1 then and_then (read_header headers (start - 2)) (\<lambda>(_, decoded). Inr (Some decoded)) else Inr None) of
             Inl e \<Rightarrow> Some e
           | Inr previousPrevious \<Rightarrow>
               validate_loop ripemd160 headers start 0 (split_headers (length serialized div HeaderSize) serialized)
                 previousHash previous previousPrevious))"

section \<open>Repair\<close>

definition truncateForRepairLocked :: "nat \<Rightarrow> Headers \<Rightarrow> Headers" where
  "truncateForRepairLocked failedHeight headers =
     (let newSize = failedHeight - 1
      in headers\<lparr>storage := Resize (newSize * HeaderSize) (storage headers), store_size := newSize\<rparr>)"

fun repair_loop :: "nat list \<Rightarrow> string option \<Rightarrow> Headers \<Rightarrow> Headers \<times> header_error option" where
  "repair_loop [] previousHash headers = (headers, None)"
| "repair_loop (height # heights) previousHash headers =
     (case readLocked headers (int height) of
        Inl e \<Rightarrow> (headers, Some e)
      | Inr raw \<Rightarrow>
          let currentHash = HashHeader raw
          in case DeserializeHeader (int height) raw of
               Inl _ \<Rightarrow> (truncateForRepairLocked height headers, None)
             | Inr current \<Rightarrow>
                 if (case previousHash of
                       Some previous \<Rightarrow> HeaderPreviousHash current \<noteq> previous
                     | None \<Rightarrow> height = 0 \<and> genesisHash headers \<noteq> None \<and> genesisHash headers \<noteq> Some currentHash)
                 then (truncateForRepairLocked height headers, None)
                 else repair_loop heights (Some currentHash) headers)"

definition repairLocked :: "int \<Rightarrow> Headers \<Rightarrow> Headers \<times> header_error option" where
  "repairLocked startHeight headers =
     (if startHeight < 0 \<or> startHeight \<ge> int (store_size headers) - 1 then (headers, None)
      else repair_loop [nat startHeight..<store_size headers] None headers)"

definition Repair :: "int \<Rightarrow> Headers \<Rightarrow> Headers \<times> header_error option" where
  "Repair startHeight headers = (if \<not> opened headers then (headers, Some ErrHeadersNotOpen) else repairLocked startHeight headers)"

section \<open>Opening and closing\<close>

text \<open>\<^verbatim>\<open>Open\<close> on a file with the given contents; on a failure the storage, size and flag are those from before,
  while the missing checkpoints that were found stay.\<close>

definition restore :: "Headers \<Rightarrow> Headers \<Rightarrow> Headers" where
  "restore previous headers = headers\<lparr>storage := storage previous, store_size := store_size previous, opened := opened previous\<rparr>"

definition Open :: "bytes \<Rightarrow> Headers \<Rightarrow> Headers \<times> header_error option" where
  "Open contents headers =
     (let h1 = headers\<lparr>storage := contents, store_size := length contents div HeaderSize, opened := True\<rparr>;
          repairStart = lastHeight (checkpoints headers) + int checkpointInterval
      in case (if length contents mod HeaderSize \<noteq> 0 then repairLocked 0 h1 else repairLocked repairStart h1) of
           (h2, Some e) \<Rightarrow> (restore headers h2, Some e)
         | (h2, None) \<Rightarrow>
             (case findMissingCheckpointsLocked (ensureCheckpointedSizeLocked h2) of
                (h3, Some e) \<Rightarrow> (restore headers h3, Some e)
              | (h3, None) \<Rightarrow> (h3, None)))"

text \<open>\<^verbatim>\<open>Commit\<close> writes over a file that exists and does not shorten it. The second result is the new contents.\<close>

definition Commit :: "bytes option \<Rightarrow> bytes \<Rightarrow> bytes" where
  "Commit existing d = (case existing of None \<Rightarrow> d | Some old \<Rightarrow> d @ drop (length d) old)"

definition Close :: "bytes option \<Rightarrow> Headers \<Rightarrow> Headers \<times> bytes option" where
  "Close existing headers =
     (if \<not> opened headers then (headers, existing)
      else (headers\<lparr>storage := [], store_size := 0, opened := False\<rparr>, Some (Commit existing (storage headers))))"

section \<open>Fetching chunks\<close>

abbreviation (input) MaxCheckpointBase64Bytes :: nat where "MaxCheckpointBase64Bytes \<equiv> 512 * 1024"
abbreviation (input) MaxCheckpointCompressedBytes :: nat where "MaxCheckpointCompressedBytes \<equiv> 256 * 1024"
abbreviation (input) CheckpointChunkBytes :: nat where "CheckpointChunkBytes \<equiv> checkpointInterval * HeaderSize"

type_synonym inflater = "nat \<Rightarrow> bytes \<Rightarrow> string + bytes"

type_synonym 'w getter = "'w \<Rightarrow> nat \<Rightarrow> 'w \<times> (string + string)"

type_synonym 'w fetched = "'w \<times> Headers \<times> header_error option"

definition decodeCheckpointChunk :: "inflater \<Rightarrow> string \<Rightarrow> header_error + bytes" where
  "decodeCheckpointChunk inflate encoded =
     (if length encoded > MaxCheckpointBase64Bytes then Inl ErrCheckpointBase64TooLarge
      else
        case decodePythonBase64 encoded of
          Inl e \<Rightarrow> Inl (CheckpointBase64 e)
        | Inr compressed \<Rightarrow>
            if length compressed > MaxCheckpointCompressedBytes then Inl ErrCheckpointCompressedTooLarge
            else
              case inflate (CheckpointChunkBytes + 1) compressed of
                Inl e \<Rightarrow> Inl (InflateFailed e)
              | Inr chunk \<Rightarrow>
                  if length chunk > CheckpointChunkBytes then Inl ErrCheckpointOutputTooLarge
                  else if length chunk \<noteq> CheckpointChunkBytes then Inl ErrInvalidCheckpointChunkLength
                  else Inr chunk)"

definition accept_chunk :: "nat \<Rightarrow> bytes \<Rightarrow> Headers \<Rightarrow> Headers \<times> header_error option" where
  "accept_chunk start chunk headers =
     (let actual = HashHeader chunk
      in if \<not> opened headers then (headers, Some ErrHeadersNotOpen)
         else
           (case checkpoint_lookup (checkpoints headers) (int start) of
              None \<Rightarrow> (headers, None)
            | Some expected \<Rightarrow>
                if actual \<noteq> expected then (headers, Some (CheckpointMismatchError (int start) expected actual))
                else ((writeLocked headers start chunk)\<lparr>missingCheckpoints := removeAll start (missingCheckpoints headers)\<rparr>, None)))"

definition FetchChunk :: "inflater \<Rightarrow> 'w getter option \<Rightarrow> 'w \<Rightarrow> Headers \<Rightarrow> int \<Rightarrow> 'w fetched" where
  "FetchChunk inflate getter w headers height =
     (if height < 0 then (w, headers, Some ErrHeaderOutOfBounds)
      else
        case getter of
          None \<Rightarrow> (w, headers, Some ErrHeaderChunkGetterUnavailable)
        | Some get \<Rightarrow>
            let start = nat height div checkpointInterval * checkpointInterval
            in (case get w start of
                  (w', Inl e) \<Rightarrow> (w', headers, Some (ChunkGetterFailed e))
                | (w', Inr response) \<Rightarrow>
                    (case decodeCheckpointChunk inflate response of
                       Inl e \<Rightarrow> (w', headers, Some e)
                     | Inr chunk \<Rightarrow> (w', accept_chunk start chunk headers))))"

definition HasHeader :: "Headers \<Rightarrow> int \<Rightarrow> header_error + bool" where
  "HasHeader headers height = (if \<not> opened headers then Inl ErrHeadersNotOpen else hasHeaderLocked headers height)"

definition EnsureChunkAt :: "inflater \<Rightarrow> 'w getter option \<Rightarrow> 'w \<Rightarrow> Headers \<Rightarrow> int \<Rightarrow> 'w fetched" where
  "EnsureChunkAt inflate getter w headers height =
     (case HasHeader headers height of
        Inl e \<Rightarrow> (w, headers, Some e)
      | Inr True \<Rightarrow> (w, headers, None)
      | Inr False \<Rightarrow> FetchChunk inflate getter w headers height)"

fun ensure_all :: "inflater \<Rightarrow> 'w getter option \<Rightarrow> 'w \<Rightarrow> Headers \<Rightarrow> int list \<Rightarrow> 'w fetched" where
  "ensure_all inflate getter w headers [] = (w, headers, None)"
| "ensure_all inflate getter w headers (height # heights) =
     (case EnsureChunkAt inflate getter w headers height of
        (w', headers', Some e) \<Rightarrow> (w', headers', Some e)
      | (w', headers', None) \<Rightarrow> ensure_all inflate getter w' headers' heights)"

definition FillMissingCheckpoints :: "inflater \<Rightarrow> 'w getter option \<Rightarrow> 'w \<Rightarrow> Headers \<Rightarrow> 'w fetched" where
  "FillMissingCheckpoints inflate getter w headers = ensure_all inflate getter w headers (map int (MissingCheckpointedChunks headers))"

definition ensureValidationPredecessors :: "inflater \<Rightarrow> 'w getter option \<Rightarrow> 'w \<Rightarrow> Headers \<Rightarrow> int \<Rightarrow> 'w fetched" where
  "ensureValidationPredecessors inflate getter w headers start =
     (if getter = None then (w, headers, None)
      else ensure_all inflate getter w headers ((if start > 0 then [start - 1] else []) @ (if start > 1 then [start - 2] else [])))"

section \<open>Connecting and reading\<close>

definition Connect :: "(bytes \<Rightarrow> bytes) \<Rightarrow> inflater \<Rightarrow> 'w getter option \<Rightarrow> 'w \<Rightarrow> Headers \<Rightarrow> int \<Rightarrow> bytes \<Rightarrow> 'w \<times> Headers \<times> (header_error + nat)" where
  "Connect ripemd160 inflate getter w headers start serialized =
     (if start < 0 then (w, headers, Inl ErrHeaderOutOfBounds)
      else if length serialized mod HeaderSize \<noteq> 0 then (w, headers, Inl ErrInvalidHeaderLength)
      else if length serialized = 0 then (w, headers, Inr 0)
      else
        case ensureValidationPredecessors inflate getter w headers start of
          (w', headers', Some e) \<Rightarrow> (w', headers', Inl e)
        | (w', headers', None) \<Rightarrow>
            if \<not> opened headers' then (w', headers', Inl ErrHeadersNotOpen)
            else
              (case validateChunkLocked ripemd160 headers' start serialized of
                 Some (InvalidHeaderError _ _) \<Rightarrow> (w', headers', Inr 0)
               | Some e \<Rightarrow> (w', headers', Inl e)
               | None \<Rightarrow> (w', writeLocked headers' (nat start) serialized, Inr (length serialized div HeaderSize))))"

definition ValidateChunk :: "(bytes \<Rightarrow> bytes) \<Rightarrow> inflater \<Rightarrow> 'w getter option \<Rightarrow> 'w \<Rightarrow> Headers \<Rightarrow> int \<Rightarrow> bytes \<Rightarrow> 'w fetched" where
  "ValidateChunk ripemd160 inflate getter w headers start serialized =
     (if start < 0 then (w, headers, Some ErrHeaderOutOfBounds)
      else if length serialized mod HeaderSize \<noteq> 0 then (w, headers, Some ErrInvalidHeaderLength)
      else
        case ensureValidationPredecessors inflate getter w headers start of
          (w', headers', Some e) \<Rightarrow> (w', headers', Some e)
        | (w', headers', None) \<Rightarrow>
            (w', headers', if \<not> opened headers' then Some ErrHeadersNotOpen else validateChunkLocked ripemd160 headers' start serialized))"

definition GetRaw :: "inflater \<Rightarrow> 'w getter option \<Rightarrow> 'w \<Rightarrow> Headers \<Rightarrow> int \<Rightarrow> 'w \<times> Headers \<times> (header_error + bytes)" where
  "GetRaw inflate getter w headers height =
     (case (if getter = None then (w, headers, None) else EnsureChunkAt inflate getter w headers height) of
        (w', headers', Some e) \<Rightarrow> (w', headers', Inl e)
      | (w', headers', None) \<Rightarrow> (w', headers', if \<not> opened headers' then Inl ErrHeadersNotOpen else readLocked headers' height))"

definition Get :: "inflater \<Rightarrow> 'w getter option \<Rightarrow> 'w \<Rightarrow> Headers \<Rightarrow> int \<Rightarrow> 'w \<times> Headers \<times> (header_error + BlockHeader)" where
  "Get inflate getter w headers height =
     (case GetRaw inflate getter w headers height of (w', headers', r) \<Rightarrow> (w', headers', and_then r (DeserializeHeader height)))"

definition BestHash :: "inflater \<Rightarrow> 'w getter option \<Rightarrow> 'w \<Rightarrow> Headers \<Rightarrow> 'w \<times> Headers \<times> (header_error + string)" where
  "BestHash inflate getter w headers =
     (if store_size headers = 0 then (w, headers, Inr (case genesisHash headers of None \<Rightarrow> [] | Some h \<Rightarrow> h))
      else case GetRaw inflate getter w headers (int (store_size headers) - 1) of
             (w', headers', r) \<Rightarrow> (w', headers', and_then r (\<lambda>raw. Inr (HashHeader raw))))"

section \<open>New stores\<close>

definition defaultMaxTarget :: ArithUint256 where
  "defaultMaxTarget = 2 ^ 240 - 1"

definition regtestMaxTarget :: ArithUint256 where
  "regtestMaxTarget = 2 ^ 255 - 1"

definition defaultGenesisHash :: string where
  "defaultGenesisHash = ''9c89283ba0f3227f6c03b70216b9f665f0118d5e0fa729cedf4fb34d6a34f463''"

definition regtestGenesisHash :: string where
  "regtestGenesisHash = ''6e3fcf1299d4ec5d79c3a4c91d624a4acf9e2e173d95a1a0504f677669687556''"

definition NewHeaders :: "checkpointTable \<Rightarrow> Headers" where
  "NewHeaders table = \<lparr>storage = [], store_size = 0, opened = False, checkpoints = table, missingCheckpoints = [],
     validateDifficulty = True, genesisHash = Some defaultGenesisHash, maxTarget = defaultMaxTarget, targetTimespan = 150\<rparr>"

datatype Network = MainNet | TestNet | RegTest

definition NewHeadersForNetwork :: "checkpointTable \<Rightarrow> Network \<Rightarrow> Headers" where
  "NewHeadersForNetwork mainnetCheckpoints network =
     (let headers = NewHeaders mainnetCheckpoints;
          h1 = (if network \<noteq> MainNet then headers\<lparr>checkpoints := []\<rparr> else headers)
      in if network = RegTest
         then h1\<lparr>validateDifficulty := False, genesisHash := Some regtestGenesisHash, maxTarget := regtestMaxTarget\<rparr> else h1)"

end
