(* ===== verification/TransactionSigning.thy ===== *)
theory TransactionSigning
  imports Funding Headers
begin

text \<open>
  Signing, \<^verbatim>\<open>wallet/transaction_signing.go\<close>, \<^verbatim>\<open>wallet/transaction_signing_accounts.go\<close> and the signatures of
  \<^verbatim>\<open>wallet/keys/signing.go\<close>. The curve is a third-party package and a parameter: the signature of a digest, the
  verification and the compressed public key. A \<^verbatim>\<open>*PrivateKey\<close> is an option (the pointer) of an option (its
  key). Which key an address has is asked of the ledger database and the address chains, by the
  function \<open>keyForAddress\<close>, of which nothing is assumed. The outputs an input spends are those of finished
  transactions, as in \<open>TransactionBuild\<close>.
\<close>

section \<open>Signatures\<close>

datatype keys_error = ErrInvalidSignatureLength | ErrInvalidDigestLength | ErrInvalidCompactSignature | ErrInvalidPrivateKey | ErrInvalidPublicKey

type_synonym 'k PrivateKey = "'k option"

abbreviation (input) CompactSignatureLength :: nat where "CompactSignatureLength \<equiv> 64"

definition SignCompact :: "('k \<Rightarrow> bytes \<Rightarrow> nat \<times> nat) \<Rightarrow> 'k PrivateKey option \<Rightarrow> bytes \<Rightarrow> keys_error + bytes" where
  "SignCompact ecdsa key digest =
     (if length digest < 32 then Inl ErrInvalidDigestLength
      else
        case key of
          Some (Some k) \<Rightarrow> (case ecdsa k (take 32 digest) of (r, s) \<Rightarrow> Inr (be_bytes 32 r @ be_bytes 32 s))
        | _ \<Rightarrow> Inl ErrInvalidPrivateKey)"

text \<open>\<^verbatim>\<open>asn1.Marshal\<close> of two integers that are not negative: a length below 128 is one byte, a longer one is
  preceded by the number of its bytes, and an integer with its highest bit set gets a zero in front.\<close>

definition big_bytes :: "nat \<Rightarrow> bytes" where
  "big_bytes n = map of_nat (rev (digits_le 256 n))"

definition asn1_length :: "nat \<Rightarrow> bytes" where
  "asn1_length n = (if n < 128 then [of_nat n] else of_nat (128 + length (big_bytes n)) # big_bytes n)"

definition asn1_integer :: "nat \<Rightarrow> bytes" where
  "asn1_integer n =
     (let bs = big_bytes n;
          content = (if n = 0 then [0] else if unat (hd bs) \<ge> 128 then 0 # bs else bs)
      in 0x02 # asn1_length (length content) @ content)"

definition asn1_signature :: "nat \<Rightarrow> nat \<Rightarrow> bytes" where
  "asn1_signature r s = (let body = asn1_integer r @ asn1_integer s in 0x30 # asn1_length (length body) @ body)"

definition serializeCompactSignatureDER :: "bytes \<Rightarrow> keys_error + bytes" where
  "serializeCompactSignatureDER signature =
     (if length signature \<noteq> CompactSignatureLength then Inl ErrInvalidSignatureLength
      else Inr (asn1_signature (be_value (take 32 signature)) (be_value (drop 32 signature))))"

definition PrivateKey_Sign :: "('k \<Rightarrow> bytes \<Rightarrow> nat \<times> nat) \<Rightarrow> 'k PrivateKey option \<Rightarrow> bytes \<Rightarrow> keys_error + bytes" where
  "PrivateKey_Sign ecdsa key d =
     (let first = sha256 d; digest = sha256 first
      in and_then (SignCompact ecdsa key digest) serializeCompactSignatureDER)"

text \<open>The order of the group.\<close>

abbreviation (input) group_order :: nat where
  "group_order \<equiv> 0xfffffffffffffffffffffffffffffffebaaedce6af48a03bbfd25e8cd0364141"

definition verifyCompactSignature :: "('p \<Rightarrow> nat \<times> nat \<Rightarrow> bytes \<Rightarrow> bool) \<Rightarrow> 'p \<Rightarrow> bytes \<Rightarrow> bytes \<Rightarrow> keys_error + bool" where
  "verifyCompactSignature verify publicKey signature digest =
     (if length signature \<noteq> CompactSignatureLength then Inl ErrInvalidSignatureLength
      else if length digest \<noteq> 32 then Inl ErrInvalidDigestLength
      else
        let r = be_value (take 32 signature); s = be_value (drop 32 signature)
        in if r \<ge> group_order \<or> s \<ge> group_order then Inl ErrInvalidCompactSignature
           else Inr (verify publicKey (r, s) digest))"

definition PublicKey_Verify :: "('p \<Rightarrow> nat \<times> nat \<Rightarrow> bytes \<Rightarrow> bool) \<Rightarrow> 'p option \<Rightarrow> bytes \<Rightarrow> bytes \<Rightarrow> keys_error + bool" where
  "PublicKey_Verify verify key signature digest =
     (case key of None \<Rightarrow> Inl ErrInvalidPublicKey | Some p \<Rightarrow> verifyCompactSignature verify p signature digest)"

section \<open>What is signed\<close>

datatype signing_error =
    InputScriptUnavailable nat | InputScriptFailed nat script_error | RedeemScriptUnavailable nat | UnattachedSigningInput nat
  | ResolvedScriptFailed nat script_error | UnsupportedSigningOutput nat | SigningKeyUnavailable nat | KeyProviderFailed nat string
  | PrivateKeyFailed nat keys_error | GenerateFailed nat script_error | RebuildFailed build_error
  | SigningAccountNil nat | ErrTransactionSigningLedger | ErrTransactionSigningWallet

abbreviation (input) TransactionSigHashAll :: u32 where "TransactionSigHashAll \<equiv> 1"

definition script_unavailable :: "TransactionInputScript \<Rightarrow> bool" where
  "script_unavailable script \<longleftrightarrow> InTemplate script = '''' \<and> InSource script = [] \<and> InErr script = None"

definition signingPreviousReference :: "spend \<Rightarrow> bytes \<times> u32" where
  "signingPreviousReference = (\<lambda>(input, resolved).
     case resolved of
       None \<Rightarrow> (PreviousHash input, PreviousIndex input)
     | Some out \<Rightarrow> (TransactionHash out, OutputPosition out))"

definition signatureScriptSource :: "nat \<Rightarrow> spend \<Rightarrow> signing_error + bytes" where
  "signatureScriptSource inputIndex = (\<lambda>(input, resolved).
     if script_unavailable (InputScript input) then Inl (InputScriptUnavailable inputIndex)
     else
       case InErr (InputScript input) of
         Some e \<Rightarrow> Inl (InputScriptFailed inputIndex e)
       | None \<Rightarrow>
           if take 12 (InTemplate (InputScript input)) = ''script_hash+'' then
             (case Script (InputScript input) of
                None \<Rightarrow> Inl (RedeemScriptUnavailable inputIndex) | Some sub \<Rightarrow> Inr (SubSource sub))
           else
             (case resolved of
                None \<Rightarrow> Inl (UnattachedSigningInput inputIndex) | Some out \<Rightarrow> Inr (Source (OutputScript out))))"

definition serializeSigningOutputs :: "Building \<Rightarrow> bytes" where
  "serializeSigningOutputs b =
     writeTransactionCompactSize (of_nat (length (Outputs (Tx b)))) @
     concat (map (\<lambda>out. put_uint64 (Amount out) @ writeTransactionVarBytes (Source (OutputScript out))) (Outputs (Tx b)))"

definition preimage_input :: "int \<Rightarrow> nat \<times> spend \<Rightarrow> signing_error + bytes" where
  "preimage_input inputIndex = (\<lambda>(position, s).
     let (previousHash, previousIndex) = signingPreviousReference s
     in and_then (if int position = inputIndex then signatureScriptSource position s else Inr []) (\<lambda>scriptSource.
          Inr (previousHash @ put_uint32 previousIndex @ writeTransactionVarBytes scriptSource @ put_uint32 (Sequence (fst s)))))"

definition signaturePreimage :: "Building \<Rightarrow> int \<Rightarrow> bytes \<Rightarrow> signing_error + bytes" where
  "signaturePreimage b inputIndex serializedOutputs =
     and_then (collect (preimage_input inputIndex) (enumerate 0 (spends b))) (\<lambda>inputs.
       Inr (put_uint32 (Version (Tx b)) @ writeTransactionCompactSize (of_nat (length (Inputs (Tx b)))) @ concat inputs @
            serializedOutputs @ put_uint32 (LockTime (Tx b)) @ put_uint32 TransactionSigHashAll))"

definition SignaturePreimage :: "Building \<Rightarrow> int \<Rightarrow> signing_error + bytes" where
  "SignaturePreimage b inputIndex = signaturePreimage b inputIndex (serializeSigningOutputs b)"

definition SignatureDigest :: "Building \<Rightarrow> int \<Rightarrow> signing_error + bytes" where
  "SignatureDigest b inputIndex = and_then (SignaturePreimage b inputIndex) (\<lambda>preimage. Inr (sha256 (sha256 preimage)))"

section \<open>Signing a transaction\<close>

type_synonym 'k key_provider = "nat \<Rightarrow> TransactionInput \<Rightarrow> TransactionOutput \<Rightarrow> string + 'k PrivateKey option"

definition set_script :: "nat \<Rightarrow> TransactionInputScript \<Rightarrow> Building \<Rightarrow> Building" where
  "set_script position script b =
     b\<lparr>Tx := (Tx b)\<lparr>Inputs := (Inputs (Tx b))[position := (Inputs (Tx b) ! position)\<lparr>InputScript := script\<rparr>]\<rparr>\<rparr>"

text \<open>One round of the loop. The signature and the key stay in the script when it cannot be generated.\<close>

definition sign_input ::
  "('k \<Rightarrow> bytes \<Rightarrow> nat \<times> nat) \<Rightarrow> ('k \<Rightarrow> bytes) \<Rightarrow> 'k key_provider option \<Rightarrow> bytes \<Rightarrow> nat \<Rightarrow> Building \<Rightarrow> Building \<times> signing_error option" where
  "sign_input ecdsa compressed keyProvider serializedOutputs position b =
     (let (input, resolved) = spends b ! position; script = InputScript input
      in if script_unavailable script then (b, Some (InputScriptUnavailable position))
         else
           case resolved of
             None \<Rightarrow> (b, Some (UnattachedSigningInput position))
           | Some out \<Rightarrow>
               (case Err (OutputScript out) of
                  Some e \<Rightarrow> (b, Some (ResolvedScriptFailed position e))
                | None \<Rightarrow>
                    if \<not> IsPayPubKeyHash (OutputScript out) \<and> \<not> IsPayScriptHash (OutputScript out)
                    then (b, Some (UnsupportedSigningOutput position))
                    else
                      case keyProvider of
                        None \<Rightarrow> (b, Some (SigningKeyUnavailable position))
                      | Some provide \<Rightarrow>
                          (case provide position input out of
                             Inl e \<Rightarrow> (b, Some (KeyProviderFailed position e))
                           | Inr None \<Rightarrow> (b, Some (SigningKeyUnavailable position))
                           | Inr (Some key) \<Rightarrow>
                               (case signaturePreimage b (int position) serializedOutputs of
                                  Inl e \<Rightarrow> (b, Some e)
                                | Inr preimage \<Rightarrow>
                                    (case PrivateKey_Sign ecdsa (Some key) preimage of
                                       Inl e \<Rightarrow> (b, Some (PrivateKeyFailed position e))
                                     | Inr signature \<Rightarrow>
                                         let script1 = script\<lparr>Signature := signature @ [ucast TransactionSigHashAll],
                                                              InPublicKey := compressed (the key)\<rparr>
                                         in case GenerateInputScript script1 of
                                              Inl e \<Rightarrow> (set_script position script1 b, Some (GenerateFailed position e))
                                            | Inr script2 \<Rightarrow> (set_script position script2 b, None))))))"

fun sign_inputs ::
  "('k \<Rightarrow> bytes \<Rightarrow> nat \<times> nat) \<Rightarrow> ('k \<Rightarrow> bytes) \<Rightarrow> 'k key_provider option \<Rightarrow> bytes \<Rightarrow> nat list \<Rightarrow> Building \<Rightarrow> Building \<times> signing_error option" where
  "sign_inputs ecdsa compressed keyProvider serializedOutputs [] b = (b, None)"
| "sign_inputs ecdsa compressed keyProvider serializedOutputs (position # rest) b =
     (case sign_input ecdsa compressed keyProvider serializedOutputs position b of
        (b', Some e) \<Rightarrow> (b', Some e)
      | (b', None) \<Rightarrow> sign_inputs ecdsa compressed keyProvider serializedOutputs rest b')"

text \<open>The outputs are serialized at the first input that needs them; the loop does not change them.\<close>

definition Transaction_Sign ::
  "('k \<Rightarrow> bytes \<Rightarrow> nat \<times> nat) \<Rightarrow> ('k \<Rightarrow> bytes) \<Rightarrow> 'k key_provider option \<Rightarrow> Building \<Rightarrow> Building \<times> signing_error option" where
  "Transaction_Sign ecdsa compressed keyProvider b =
     (let b0 = ResetDerived b
      in case sign_inputs ecdsa compressed keyProvider (serializeSigningOutputs b0) [0..<length (Inputs (Tx b0))] b0 of
           (b1, Some e) \<Rightarrow> (b1, Some e)
         | (b1, None) \<Rightarrow>
             let b2 = ResetDerived b1
             in case RebuildDerived b2 of Inl e \<Rightarrow> (b2, Some (RebuildFailed e)) | Inr b3 \<Rightarrow> (b3, None))"

section \<open>Signing with accounts\<close>

fun PubKeyAddressPrefix :: "Network \<Rightarrow> byte" where
  "PubKeyAddressPrefix MainNet = 0x55" | "PubKeyAddressPrefix TestNet = 0x6f" | "PubKeyAddressPrefix RegTest = 0x6f"

fun ScriptAddressPrefix :: "Network \<Rightarrow> byte" where
  "ScriptAddressPrefix MainNet = 0x7a" | "ScriptAddressPrefix TestNet = 0xc4" | "ScriptAddressPrefix RegTest = 0xc4"

definition TransactionOutput_Address :: "Network \<Rightarrow> TransactionOutput \<Rightarrow> string + string" where
  "TransactionOutput_Address network out =
     (let script = OutputScript out
      in if Err script \<noteq> None then Inl ''script''
         else if HasPubKeyHash script then Inr (EncodeBase58Check (PubKeyAddressPrefix network # PubKeyHash script))
         else if HasScriptHash script then Inr (EncodeBase58Check (ScriptAddressPrefix network # ScriptHash script))
         else Inl ''transaction output has no address'')"

fun signing_baseline :: "nat \<Rightarrow> Account option list \<Rightarrow> nat option \<Rightarrow> nat option \<Rightarrow> signing_error + nat option \<times> nat option" where
  "signing_baseline position [] ledger wallet = Inr (ledger, wallet)"
| "signing_baseline position (None # accounts) ledger wallet = Inl (SigningAccountNil position)"
| "signing_baseline position (Some account # accounts) ledger wallet =
     (let ledger1 = (if ledger = None then AccountLedger account else ledger);
          wallet1 = (if ledger = None then AccountWallet account else wallet)
      in if ledger1 \<noteq> AccountLedger account then Inl ErrTransactionSigningLedger
         else if wallet1 \<noteq> AccountWallet account then Inl ErrTransactionSigningWallet
         else signing_baseline (Suc position) accounts ledger1 wallet1)"

definition transactionSigningLedgerAndWallet :: "Account option list \<Rightarrow> signing_error + nat \<times> nat" where
  "transactionSigningLedgerAndWallet accounts =
     and_then (signing_baseline 0 accounts None None) (\<lambda>(ledger, wallet).
       case (ledger, wallet) of
         (None, _) \<Rightarrow> Inl ErrTransactionSigningLedger
       | (_, None) \<Rightarrow> Inl ErrTransactionSigningWallet
       | (Some l, Some w) \<Rightarrow> Inr (l, w))"

definition account_key ::
  "(nat \<Rightarrow> Network) \<Rightarrow> (nat \<Rightarrow> nat \<Rightarrow> string \<Rightarrow> string + 'k PrivateKey option) \<Rightarrow> 'k PrivateKey option list \<Rightarrow> nat \<Rightarrow> nat \<Rightarrow> 'k key_provider" where
  "account_key network keyForAddress extraKeys ledger wallet = (\<lambda>_ _ out.
     if HasPubKeyHash (OutputScript out) then and_then (TransactionOutput_Address (network ledger) out) (keyForAddress ledger wallet)
     else if length extraKeys = 0 then Inr None
     else Inr (hd extraKeys))"

definition SignWithAccounts ::
  "('k \<Rightarrow> bytes \<Rightarrow> nat \<times> nat) \<Rightarrow> ('k \<Rightarrow> bytes) \<Rightarrow> (nat \<Rightarrow> Network) \<Rightarrow> (nat \<Rightarrow> nat \<Rightarrow> string \<Rightarrow> string + 'k PrivateKey option) \<Rightarrow>
   Account option list \<Rightarrow> 'k PrivateKey option list \<Rightarrow> Building \<Rightarrow> Building \<times> signing_error option" where
  "SignWithAccounts ecdsa compressed network keyForAddress fundingAccounts extraKeys b =
     (let b0 = ResetDerived b
      in case transactionSigningLedgerAndWallet fundingAccounts of
           Inl e \<Rightarrow> (b0, Some e)
         | Inr (ledger, wallet) \<Rightarrow> Transaction_Sign ecdsa compressed (Some (account_key network keyForAddress extraKeys ledger wallet)) b0)"

text \<open>The signer that \<^verbatim>\<open>CreateTransaction\<close> hands to the balance. The keys are read from the databases and the
  address chains of the state.\<close>

definition wallet_signer ::
  "('k \<Rightarrow> bytes \<Rightarrow> nat \<times> nat) \<Rightarrow> ('k \<Rightarrow> bytes) \<Rightarrow> (nat \<Rightarrow> Network) \<Rightarrow> ('c world \<Rightarrow> nat \<Rightarrow> nat \<Rightarrow> string \<Rightarrow> string + 'k PrivateKey option) \<Rightarrow>
   Account option list \<Rightarrow> 'c world \<Rightarrow> Building \<Rightarrow> 'c world \<times> Building \<times> string option" where
  "wallet_signer ecdsa compressed network keyForAddress fundingAccounts w b =
     (case SignWithAccounts ecdsa compressed network (keyForAddress w) fundingAccounts [] b of
        (b', e) \<Rightarrow> (w, b', map_option (\<lambda>_. ''wallet transaction signing failed'') e))"

section \<open>The length of a signature\<close>

text \<open>What is documented of the curve: scalars are below the order of the group, \<^verbatim>\<open>ecdsa.Sign\<close> returns the smaller of
  the two values of \<open>s\<close>, which is at most half the order, and a compressed key has 33 bytes.\<close>

definition curve_ok :: "('k \<Rightarrow> bytes \<Rightarrow> nat \<times> nat) \<Rightarrow> ('k \<Rightarrow> bytes) \<Rightarrow> bool" where
  "curve_ok ecdsa compressed \<longleftrightarrow> (\<forall>k d. fst (ecdsa k d) < group_order \<and> snd (ecdsa k d) \<le> group_order div 2) \<and> (\<forall>k. length (compressed k) = 33)"

lemma digits_le_length: "2 \<le> b \<Longrightarrow> n < b ^ k \<Longrightarrow> length (digits_le b n) \<le> k"
proof (induction k arbitrary: n)
  case 0
  then show ?case by simp
next
  case (Suc k)
  show ?case
  proof (cases "n = 0")
    case False
    have "n div b < b ^ k" using Suc.prems by (simp add: less_mult_imp_div_less mult.commute)
    from Suc.IH [OF Suc.prems(1) this] False Suc.prems(1) show ?thesis by (simp add: digits_le_step)
  qed simp
qed

lemma digits_le_top: "2 \<le> b \<Longrightarrow> 0 < n \<Longrightarrow> last (digits_le b n) * b ^ (length (digits_le b n) - 1) \<le> n"
proof -
  assume b: "2 \<le> b" "0 < n"
  then have ne: "digits_le b n \<noteq> []" by simp
  have "n = value_le b (butlast (digits_le b n) @ [last (digits_le b n)])" using b ne by simp
  also have "\<dots> = value_le b (butlast (digits_le b n)) + b ^ (length (digits_le b n) - 1) * last (digits_le b n)" by (simp only: value_le_append) simp
  finally show ?thesis by (simp add: mult.commute)
qed

text \<open>An integer below \<open>2 ^ (8 * k + 7)\<close> takes at most \<open>k + 1\<close> bytes of content.\<close>

lemma length_asn1_integer:
  assumes "n < 128 * 256 ^ k" "k < 100"
  shows "length (asn1_integer n) \<le> k + 3"
proof -
  have two: "(2 :: nat) \<le> 256" by simp
  have "n < 256 ^ Suc k" using assms(1) by simp
  then have len: "length (big_bytes n) \<le> Suc k" unfolding big_bytes_def using digits_le_length [OF two, of n "Suc k"] by simp
  have small: "unat (hd (big_bytes n)) < 128" if "length (big_bytes n) = Suc k" "0 < n"
  proof -
    have ne: "digits_le 256 n \<noteq> []" and l: "length (digits_le 256 n) = Suc k" using that by (auto simp: big_bytes_def)
    then have hd: "hd (big_bytes n) = of_nat (last (digits_le 256 n))" by (simp add: big_bytes_def hd_map hd_rev)
    have "last (digits_le 256 n) * 256 ^ k < 128 * 256 ^ k"
      by (rule le_less_trans [OF _ assms(1)]) (use digits_le_top [OF two that(2)] l in simp)
    then have "last (digits_le 256 n) < 128" by (simp only: mult_less_cancel2)
    then show ?thesis unfolding hd by (simp add: unat_of_nat take_bit_nat_eq_self)
  qed
  have "length (if n = 0 then [0] else if unat (hd (big_bytes n)) \<ge> 128 then 0 # big_bytes n else big_bytes n) \<le> Suc k"
    using len small by (auto simp: le_Suc_eq)
  then show ?thesis using assms(2) by (simp add: asn1_integer_def asn1_length_def Let_def)
qed

lemma PrivateKey_Sign_length:
  assumes "curve_ok ecdsa compressed" and "PrivateKey_Sign ecdsa key d = Inr signature"
  shows "length signature \<le> 71" "\<exists>k. key = Some (Some k)"
proof -
  from assms(2) obtain compact where c: "SignCompact ecdsa key (sha256 (sha256 d)) = Inr compact" "serializeCompactSignatureDER compact = Inr signature"
    by (auto simp: PrivateKey_Sign_def and_then_Inr Let_def)
  from c(1) obtain k r s where k: "key = Some (Some k)" "ecdsa k (take 32 (sha256 (sha256 d))) = (r, s)" "compact = be_bytes 32 r @ be_bytes 32 s"
    by (auto simp: SignCompact_def split: option.splits prod.splits if_splits)
  have rs: "r < group_order" "s \<le> group_order div 2" using assms(1) k(2) unfolding curve_ok_def by (metis fst_conv, metis snd_conv)
  then have "r < 128 * 256 ^ 32" "s < 128 * 256 ^ 31" "r < 256 ^ 32" "s < 256 ^ 32" by simp_all
  then have "length (asn1_integer r) \<le> 35" "length (asn1_integer s) \<le> 34" "signature = asn1_signature r s"
    using length_asn1_integer [of r 32] length_asn1_integer [of s 31] c(2) by (simp_all add: k(3) serializeCompactSignatureDER_def be_value_be_bytes)
  then show "length signature \<le> 71" "\<exists>k. key = Some (Some k)" by (simp_all add: k(1) asn1_signature_def asn1_length_def Let_def)
qed

text \<open>What \<^verbatim>\<open>SignCompact\<close> signs is verified, when the curve verifies its own signatures.\<close>

lemma verify_SignCompact:
  assumes "\<And>k d. verify (public k) (ecdsa k d) d" and "curve_ok ecdsa compressed" and "length digest = 32"
    and "SignCompact ecdsa (Some (Some k)) digest = Inr signature"
  shows "PublicKey_Verify verify (Some (public k)) signature digest = Inr True"
proof -
  obtain r s where rs: "ecdsa k digest = (r, s)" by fastforce
  have "fst (ecdsa k digest) < group_order \<and> snd (ecdsa k digest) \<le> group_order div 2" using assms(2) unfolding curve_ok_def by blast
  then have b: "r < group_order" "s < group_order" "r < 256 ^ 32" "s < 256 ^ 32" unfolding rs by simp_all
  have sig: "signature = be_bytes 32 r @ be_bytes 32 s" using assms(3,4) by (simp add: SignCompact_def rs)
  have "be_value (take 32 signature) = r" "be_value (drop 32 signature) = s" using b(3,4) by (simp_all add: sig be_value_be_bytes)
  then show ?thesis using b(1,2) assms(1) [of k digest] assms(3)
    by (simp add: PublicKey_Verify_def verifyCompactSignature_def sig rs)
qed

section \<open>Signing does not make a transaction longer\<close>

lemma encodeTransactionPushData_mono:
  "encodeTransactionPushData d = Inr e \<Longrightarrow> encodeTransactionPushData d' = Inr e' \<Longrightarrow> length d \<le> length d' \<Longrightarrow> length e \<le> length e' \<and> length e' \<le> 0xffffffff + 5"
  by (auto simp: encodeTransactionPushData_def Let_def split: if_splits)

text \<open>A script with the template and the redeem script of another one, not longer than it if that one waits for its signature.\<close>

definition signed_like :: "TransactionInputScript \<Rightarrow> TransactionInputScript \<Rightarrow> bool" where
  "signed_like script script' \<longleftrightarrow> InTemplate script' = InTemplate script \<and> Script script' = Script script \<and>
     (unsigned_script script \<longrightarrow> length (InSource script') \<le> length (InSource script))"

lemma GenerateInputScript_source:
  assumes "GenerateInputScript script = Inr script'" and "InTemplate script \<in> {TransactionInputPubKeyHash, TransactionInputScriptHashTime}"
  obtains e1 e2 e3 where "encodeTransactionPushData (Signature script) = Inr e1" "encodeTransactionPushData (InPublicKey script) = Inr e2"
    "if InTemplate script = TransactionInputPubKeyHash then e3 = [] else \<exists>sub. Script script = Some sub \<and> encodeTransactionPushData (SubSource sub) = Inr e3"
    "InSource script' = e1 @ e2 @ e3"
proof (cases "InTemplate script = TransactionInputPubKeyHash")
  case True
  with assms(1) obtain e1 e2 where "encodeTransactionPushData (Signature script) = Inr e1" "encodeTransactionPushData (InPublicKey script) = Inr e2"
    "InSource script' = e1 @ e2" by (auto simp: GenerateInputScript_def builder_push_def and_then_Inr Let_def)
  then show thesis using that [of e1 e2 "[]"] True by simp
next
  case False
  then have t: "InTemplate script = TransactionInputScriptHashTime" using assms(2) by simp
  with assms(1) obtain sub e1 e2 e3 where "encodeTransactionPushData (Signature script) = Inr e1" "encodeTransactionPushData (InPublicKey script) = Inr e2"
    "Script script = Some sub" "encodeTransactionPushData (SubSource sub) = Inr e3" "InSource script' = e1 @ e2 @ e3"
    by (auto simp: GenerateInputScript_def builder_push_def and_then_Inr Let_def split: option.splits)
  then show thesis using that [of e1 e2 e3] t by simp
qed

lemma GenerateInputScript_signed:
  assumes unsigned: "unsigned_script script" and like: "InTemplate script1 = InTemplate script" "Script script1 = Script script"
    and len: "length (Signature script1) \<le> 72" "length (InPublicKey script1) \<le> 33" and gen: "GenerateInputScript script1 = Inr script2"
  shows "length (InSource script2) \<le> length (InSource script)"
proof -
  have u: "GenerateInputScript script = Inr script" "length (Signature script) = 72" "length (InPublicKey script) = 33"
    "InTemplate script \<in> {TransactionInputPubKeyHash, TransactionInputScriptHashTime}" using unsigned by (simp_all add: unsigned_script_def)
  have push: "length e \<le> length e'" if "encodeTransactionPushData d = Inr e" "encodeTransactionPushData d' = Inr e'" "length d \<le> length d'" for d d' e e'
    using encodeTransactionPushData_mono [OF that] by blast
  obtain e1 e2 e3 where e: "encodeTransactionPushData (Signature script) = Inr e1" "encodeTransactionPushData (InPublicKey script) = Inr e2"
    "if InTemplate script = TransactionInputPubKeyHash then e3 = [] else \<exists>sub. Script script = Some sub \<and> encodeTransactionPushData (SubSource sub) = Inr e3"
    "InSource script = e1 @ e2 @ e3" by (rule GenerateInputScript_source [OF u(1,4)])
  obtain d1 d2 d3 where d: "encodeTransactionPushData (Signature script1) = Inr d1" "encodeTransactionPushData (InPublicKey script1) = Inr d2"
    "if InTemplate script1 = TransactionInputPubKeyHash then d3 = [] else \<exists>sub. Script script1 = Some sub \<and> encodeTransactionPushData (SubSource sub) = Inr d3"
    "InSource script2 = d1 @ d2 @ d3" by (rule GenerateInputScript_source [OF gen u(4) [folded like(1)]])
  have "d3 = e3" using d(3) e(3) unfolding like by (auto split: if_splits)
  then show ?thesis using push [OF d(1) e(1)] push [OF d(2) e(2)] len u(2,3) by (simp add: d(4) e(4))
qed

lemma unsigned_script_bound:
  assumes "unsigned_script script"
  shows "length (InSource script) < 2 ^ 64"
proof -
  have u: "GenerateInputScript script = Inr script" "InTemplate script \<in> {TransactionInputPubKeyHash, TransactionInputScriptHashTime}"
    using assms by (simp_all add: unsigned_script_def)
  have push: "length e \<le> 0xffffffff + 5" if "encodeTransactionPushData d = Inr e" for d e using encodeTransactionPushData_mono [OF that that] by blast
  show ?thesis by (rule GenerateInputScript_source [OF u]) (auto split: if_splits dest!: push)
qed

text \<open>The transaction with other scripts: what is spent and paid and the rest of the inputs are the same.\<close>

definition signs :: "Building \<Rightarrow> Building \<Rightarrow> bool" where
  "signs b b' \<longleftrightarrow> Resolved b' = Resolved b \<and> Outputs (Tx b') = Outputs (Tx b) \<and>
     list_all2 (\<lambda>i i'. i'\<lparr>InputScript := InputScript i\<rparr> = i \<and> signed_like (InputScript i) (InputScript i')) (Inputs (Tx b)) (Inputs (Tx b'))"

lemma signs_refl: "signs b b"
  by (simp add: signs_def signed_like_def list_all2_same)

lemma signs_set_script:
  assumes "signs b0 b" and "position < length (Inputs (Tx b0))" and "signed_like (InputScript (Inputs (Tx b0) ! position)) script"
  shows "signs b0 (set_script position script b)"
  using assms by (auto simp: signs_def set_script_def list_all2_conv_all_nth nth_list_update)

lemma sign_input_cases:
  assumes "sign_input ecdsa compressed keyProvider outs position b = (b', e)"
  obtains "b' = b" "e \<noteq> None"
  | key signature d script1 script2 where "PrivateKey_Sign ecdsa (Some key) d = Inr signature"
      "script1 = (InputScript (fst (spends b ! position)))\<lparr>Signature := signature @ [1], InPublicKey := compressed (the key)\<rparr>"
      "b' = set_script position script2 b" "script2 = script1 \<and> e \<noteq> None \<or> GenerateInputScript script1 = Inr script2 \<and> e = None"
proof -
  obtain input resolved where s: "spends b ! position = (input, resolved)" by fastforce
  note run = assms [unfolded sign_input_def s Let_def prod.case]
  show thesis
  proof (cases "b' = b \<and> e \<noteq> None")
    case False
    from run False that(2) show thesis
      by (auto simp: s Let_def split: if_splits option.splits sum.splits)
  qed (use that(1) in blast)
qed

lemma sign_input_signs:
  assumes curve: "curve_ok ecdsa compressed" and signs: "signs b0 b" and position: "position < length (Inputs (Tx b0))" and paired: "paired b0"
    and run: "sign_input ecdsa compressed keyProvider outs position b = (b', e)"
  shows "signs b0 b'"
  using run
proof (cases rule: sign_input_cases)
  case 1
  with signs show ?thesis by simp
next
  case (2 key signature d script1 script2)
  let ?old = "InputScript (Inputs (Tx b0) ! position)" let ?cur = "InputScript (Inputs (Tx b) ! position)"
  have len: "length (Inputs (Tx b)) = length (Inputs (Tx b0))" "length (Resolved b) = length (Inputs (Tx b0))"
    using signs paired by (auto simp: signs_def paired_def dest: list_all2_lengthD)
  have "list_all2 (\<lambda>i i'. i'\<lparr>InputScript := InputScript i\<rparr> = i \<and> signed_like (InputScript i) (InputScript i')) (Inputs (Tx b0)) (Inputs (Tx b))"
    using signs unfolding signs_def by blast
  from list_all2_nthD [OF this position] have like: "signed_like ?old ?cur" by (rule conjunct2)
  have script1: "script1 = ?cur\<lparr>Signature := signature @ [1], InPublicKey := compressed (the key)\<rparr>" using 2(2) position len by (simp add: spends_def)
  have sig: "length (Signature script1) \<le> 72" "length (InPublicKey script1) \<le> 33"
    using PrivateKey_Sign_length [OF curve 2(1)] curve by (simp_all add: script1 curve_ok_def)
  have same: "InTemplate script1 = InTemplate ?old" "Script script1 = Script ?old" using like by (simp_all add: script1 signed_like_def)
  from 2(4) have "signed_like ?old script2"
  proof
    assume "script2 = script1 \<and> e \<noteq> None"
    with like show ?thesis by (simp add: script1 signed_like_def)
  next
    assume g: "GenerateInputScript script1 = Inr script2 \<and> e = None"
    then have "InTemplate script2 = InTemplate script1" "Script script2 = Script script1"
      by (auto simp: GenerateInputScript_def Let_def and_then_Inr split: if_splits option.splits)
    with GenerateInputScript_signed [OF _ same sig] g same show ?thesis by (simp add: signed_like_def)
  qed
  from signs_set_script [OF signs position this] show ?thesis by (simp add: 2(3))
qed

lemma sign_inputs_signs:
  assumes "curve_ok ecdsa compressed" and "paired b0"
  shows "signs b0 b \<Longrightarrow> set positions \<subseteq> {..<length (Inputs (Tx b0))} \<Longrightarrow>
    sign_inputs ecdsa compressed keyProvider outs positions b = (b', e) \<Longrightarrow> signs b0 b'"
proof (induction positions arbitrary: b)
  case (Cons position positions)
  obtain b1 e1 where s: "sign_input ecdsa compressed keyProvider outs position b = (b1, e1)" by fastforce
  have "signs b0 b1" using sign_input_signs [OF assms(1) Cons.prems(1) _ assms(2) s] Cons.prems(2) by simp
  with Cons s show ?case by (cases e1) auto
qed simp

lemma Resolved_set_script [simp]: "Resolved (set_script position script b) = Resolved b"
  by (simp add: set_script_def)

lemma sign_inputs_Resolved: "sign_inputs ecdsa compressed keyProvider outs positions b = (b', e) \<Longrightarrow> Resolved b' = Resolved b"
proof (induction positions arbitrary: b)
  case (Cons position positions)
  obtain b1 e1 where s: "sign_input ecdsa compressed keyProvider outs position b = (b1, e1)" by fastforce
  have "Resolved b1 = Resolved b" by (rule sign_input_cases [OF s]) auto
  with Cons s show ?case by (cases e1) auto
qed simp

lemma Transaction_Sign_Resolved: "Transaction_Sign ecdsa compressed keyProvider b = (b', e) \<Longrightarrow> Resolved b' = Resolved b"
proof -
  assume run: "Transaction_Sign ecdsa compressed keyProvider b = (b', e)"
  obtain b1 e1 where s: "sign_inputs ecdsa compressed keyProvider (serializeSigningOutputs (ResetDerived b)) [0..<length (Inputs (Tx (ResetDerived b)))] (ResetDerived b) = (b1, e1)"
    by fastforce
  have "Resolved b1 = Resolved b" using sign_inputs_Resolved [OF s] by simp
  moreover have "Resolved b3 = Resolved b1" if "RebuildDerived (ResetDerived b1) = Inr b3" for b3
    using Resolved_rebuilt [of "ResetDerived b1"] that by (simp add: rebuilt_def)
  ultimately show ?thesis using run s by (cases e1) (auto simp: Transaction_Sign_def Let_def split: sum.splits)
qed

lemma Transaction_Sign_lengths:
  assumes curve: "curve_ok ecdsa compressed" and paired: "paired b" and run: "Transaction_Sign ecdsa compressed keyProvider b = (b', None)"
  obtains b1 where "signs (ResetDerived b) b1" "b' = rebuilt (ResetDerived b1)" "paired b1" "length (Inputs (Tx b')) = length (Inputs (Tx b))"
    "length (Outputs (Tx b')) = length (Outputs (Tx b))"
proof -
  let ?b0 = "ResetDerived b"
  obtain b1 e1 where s: "sign_inputs ecdsa compressed keyProvider (serializeSigningOutputs ?b0) [0..<length (Inputs (Tx ?b0))] ?b0 = (b1, e1)" by fastforce
  have e1: "e1 = None" and "RebuildDerived (ResetDerived b1) = Inr b'" using run s
    by (cases e1; auto simp: Transaction_Sign_def Let_def split: sum.splits)+
  then have b': "b' = rebuilt (ResetDerived b1)" by (simp add: rebuilt_def)
  have signs: "signs ?b0 b1" by (rule sign_inputs_signs [OF curve _ signs_refl _ s]) (use paired in auto)
  then have len: "length (Inputs (Tx b1)) = length (Inputs (Tx b))" "Outputs (Tx b1) = Outputs (Tx ?b0)" "Resolved b1 = Resolved b"
    by (auto simp: signs_def dest: list_all2_lengthD)
  then have p1: "paired b1" using paired by (simp add: paired_def)
  from that [OF signs b' p1] show thesis using rebuilt_lengths [of "ResetDerived b1"] p1 len by (simp add: b')
qed

lemma writeTransactionVarBytes_mono:
  "length v \<le> length v' \<Longrightarrow> length v' < 2 ^ 64 \<Longrightarrow> length (writeTransactionVarBytes v) \<le> length (writeTransactionVarBytes v')"
proof -
  assume len: "length v \<le> length v'" "length v' < 2 ^ 64"
  have n: "unat (of_nat k :: u64) = k" if "k < 2 ^ 64" for k using that by (simp add: unat_of_nat take_bit_nat_eq_self)
  from len show ?thesis
    by (simp add: writeTransactionVarBytes_def writeTransactionCompactSize_def word_less_nat_alt word_le_nat_alt n)
qed

lemma TransactionInput_Size_signed:
  assumes "i'\<lparr>InputScript := InputScript i\<rparr> = i" and "signed_like (InputScript i) (InputScript i')" and "unsigned_script (InputScript i)"
  shows "TransactionInput_Size i' \<le> TransactionInput_Size i"
proof -
  have i: "i = i'\<lparr>InputScript := InputScript i\<rparr>" using assms(1) by simp
  have same: "PreviousHash i = PreviousHash i'" "PreviousIndex i = PreviousIndex i'" "Sequence i = Sequence i'" "Coinbase i = Coinbase i'"
    by (subst i, simp)+
  have "length (InSource (InputScript i')) \<le> length (InSource (InputScript i))" using assms(2,3) by (simp add: signed_like_def)
  from writeTransactionVarBytes_mono [OF this unsigned_script_bound [OF assms(3)]] show ?thesis
    by (simp add: TransactionInput_Size_def writeTransactionInput_def IsCoinbase_def same)
qed

lemma refresh_script: "refreshInputPreviousOutput out (i\<lparr>InputScript := script\<rparr>) = i\<lparr>InputScript := script\<rparr> \<longleftrightarrow> refreshInputPreviousOutput out i = i"
  by (cases i) (simp add: refreshInputPreviousOutput_def)

text \<open>A transaction that was signed: it spends and pays the same and, when all its inputs were waiting for their
  signature, its inputs have not become longer.\<close>

lemma Transaction_Sign_effect:
  assumes curve: "curve_ok ecdsa compressed" and fr: "fresh b" and small: "small b" and run: "Transaction_Sign ecdsa compressed keyProvider b = (b', None)"
  shows "fresh b'" "Resolved b' = Resolved b" "map placed (Outputs (Tx b')) = map placed (Outputs (Tx b))"
    "length (Inputs (Tx b')) = length (Inputs (Tx b))" "unsigned b \<Longrightarrow> in_size b' \<le> in_size b"
proof -
  let ?b0 = "ResetDerived b"
  have paired: "paired b" using fr by (simp add: fresh_def)
  obtain b1 where signs: "signs ?b0 b1" and b': "b' = rebuilt (ResetDerived b1)"
    by (rule Transaction_Sign_lengths [OF curve paired run])
  then have len: "length (Inputs (Tx b1)) = length (Inputs (Tx b))" "length (Outputs (Tx b1)) = length (Outputs (Tx b))" "Resolved b1 = Resolved b"
    by (auto simp: signs_def dest: list_all2_lengthD)
  then have p1: "paired b1" "small b1" using paired small by (simp_all add: paired_def small_def)
  have "small (ResetDerived b1)" "paired (ResetDerived b1)" using p1 by simp_all
  note r = rebuilt_small [OF this, folded b']
  show "fresh b'" "Resolved b' = Resolved b" using r len by simp_all
  have "map placed (Outputs (Tx ?b0)) = map placed (Outputs (Tx b))" by simp
  then show "map placed (Outputs (Tx b')) = map placed (Outputs (Tx b))" using r(3) signs by (simp add: signs_def)
  show "length (Inputs (Tx b')) = length (Inputs (Tx b))" using r(1) len p1 by (simp add: spends_def paired_def)
  assume u: "unsigned b"
  have size: "int (TransactionInput_Size (refreshed (spends b1 ! j))) \<le> int (TransactionInput_Size (refreshed (spends b ! j)))" if j: "j < length (Inputs (Tx b))" for j
  proof -
    let ?i = "Inputs (Tx b) ! j" let ?i' = "Inputs (Tx b1) ! j" let ?r = "Resolved b ! j"
    have lr: "j < length (Resolved b)" using j paired by (simp add: paired_def)
    have s: "spends b ! j = (?i, ?r)" "spends b1 ! j = (?i', ?r)" using j lr len by (simp_all add: spends_def)
    have l: "?i'\<lparr>InputScript := InputScript ?i\<rparr> = ?i" "signed_like (InputScript ?i) (InputScript ?i')"
      using signs j by (simp_all add: signs_def list_all2_conv_all_nth)
    have "(?i, ?r) \<in> set (spends b)" using j lr s(1) nth_mem [of j "spends b"] by (simp add: spends_def)
    then have att: "attached (?i, ?r)" using fr by (auto simp: fresh_def)
    have "attached (?i', ?r)"
    proof (cases ?r)
      case (Some out)
      have "refreshInputPreviousOutput out (?i'\<lparr>InputScript := InputScript ?i\<rparr>) = ?i'\<lparr>InputScript := InputScript ?i\<rparr>"
        using att Some unfolding l(1) by (simp add: attached_def)
      then show ?thesis using Some unfolding refresh_script by (simp add: attached_def)
    qed (simp add: attached_def)
    with att have "refreshed (spends b1 ! j) = ?i'" "refreshed (spends b ! j) = ?i" by (simp_all add: s refreshed_attached)
    moreover have "unsigned_script (InputScript ?i)" using u j by (auto simp: unsigned_def input_scripts_def)
    ultimately show ?thesis using TransactionInput_Size_signed [OF l] by simp
  qed
  have ls: "length (spends b1) = length (spends b)" "length (spends b) = length (Inputs (Tx b))" using paired p1 len by (simp_all add: spends_def paired_def)
  have "in_size b' = (\<Sum>s\<leftarrow>spends b1. int (TransactionInput_Size (refreshed s)))"
    using in_size_rebuilt [of "ResetDerived b1"] p1 by (simp add: b')
  also have "\<dots> \<le> (\<Sum>s\<leftarrow>spends b. int (TransactionInput_Size (refreshed s)))"
    unfolding sum_list_sum_nth length_map ls using size ls by (intro sum_mono) simp
  also have "\<dots> = in_size b" using in_size_fresh [OF fr] .
  finally show "in_size b' \<le> in_size b" .
qed

section \<open>The signer of a wallet\<close>

lemma ResetDerived_idem [simp]: "ResetDerived (ResetDerived b) = ResetDerived b"
  by (simp add: ResetDerived_def comp_def)

lemma SignWithAccounts_Sign:
  "SignWithAccounts ecdsa compressed network keyForAddress accounts extraKeys b =
     (case transactionSigningLedgerAndWallet accounts of
        Inl e \<Rightarrow> (ResetDerived b, Some e)
      | Inr (ledger, wallet) \<Rightarrow> Transaction_Sign ecdsa compressed (Some (account_key network keyForAddress extraKeys ledger wallet)) b)"
  unfolding SignWithAccounts_def Let_def Transaction_Sign_def ResetDerived_idem by (rule refl)

lemma wallet_signer_keeps: "signer_keeps (wallet_signer ecdsa compressed network keyForAddress accounts)"
  unfolding signer_keeps_def wallet_signer_def SignWithAccounts_Sign
  by (auto split: sum.splits prod.splits dest: Transaction_Sign_Resolved)

lemma wallet_signer_Sign:
  assumes "wallet_signer ecdsa compressed network keyForAddress accounts w b = (w', b', None)"
  obtains provider where "Transaction_Sign ecdsa compressed (Some provider) b = (b', None)"
  using assms by (auto simp: wallet_signer_def SignWithAccounts_Sign split: sum.splits prod.splits)

text \<open>Signing succeeds when every input is an unsigned spend of a pay-to-key-hash output whose key is known.\<close>

definition signable :: "'k key_provider \<Rightarrow> Building \<Rightarrow> bool" where
  "signable provide b \<longleftrightarrow> paired b \<and> (\<forall>script\<in>set (input_scripts b). InTemplate script = TransactionInputPubKeyHash \<and> InErr script = None) \<and>
     (\<forall>r\<in>set (Resolved b). \<exists>out. r = Some out \<and> IsPayPubKeyHash (OutputScript out) \<and> (\<forall>i input. \<exists>k. provide i input out = Inr (Some (Some k))))"

lemma collect_all: "(\<And>x. x \<in> set xs \<Longrightarrow> \<exists>y. f x = Inr y) \<Longrightarrow> \<exists>ys. collect f xs = Inr ys"
proof (induction xs)
  case (Cons x xs)
  then obtain y ys where "f x = Inr y" "collect f xs = Inr ys" by (metis list.set_intros)
  then show ?case by simp
qed simp

lemma sign_input_signable:
  assumes curve: "curve_ok ecdsa compressed" and ok: "signable provide b" and position: "position < length (Inputs (Tx b))"
  obtains b' where "sign_input ecdsa compressed (Some provide) outs position b = (b', None)" "signable provide b'"
    "length (Inputs (Tx b')) = length (Inputs (Tx b))"
proof -
  let ?input = "Inputs (Tx b) ! position" let ?script = "InputScript ?input"
  have lr: "position < length (Resolved b)" using ok position by (simp add: signable_def paired_def)
  then obtain out k where out: "Resolved b ! position = Some out" "IsPayPubKeyHash (OutputScript out)" "provide position ?input out = Inr (Some (Some k))"
    using ok nth_mem [of position "Resolved b"] unfolding signable_def by metis
  have s: "spends b ! position = (?input, Some out)" using position lr out(1) by (simp add: spends_def)
  have scripts: "?script \<in> set (input_scripts b)" using position by (simp add: input_scripts_def)
  then have script: "InTemplate ?script = TransactionInputPubKeyHash" "InErr ?script = None" using ok by (auto simp: signable_def)
  have len: "length (spends b) = length (Inputs (Tx b))" using ok by (simp add: signable_def spends_def paired_def)
  have "\<exists>y. preimage_input (int position) x = Inr y" if x: "x \<in> set (enumerate 0 (spends b))" for x
  proof (cases "fst x = position")
    case True
    then have "x = (position, spends b ! position)" using x len by (auto simp: in_set_conv_nth nth_enumerate_eq)
    then show ?thesis using script out by (simp add: s preimage_input_def signatureScriptSource_def script_unavailable_def split: prod.split)
  qed (auto simp: preimage_input_def split: prod.splits)
  then obtain inputs where "collect (preimage_input (int position)) (enumerate 0 (spends b)) = Inr inputs" using collect_all by blast
  then obtain preimage where preimage: "signaturePreimage b (int position) outs = Inr preimage" by (simp add: signaturePreimage_def)
  obtain signature where signature: "PrivateKey_Sign ecdsa (Some (Some k)) preimage = Inr signature"
    by (cases "ecdsa k (sha256 (sha256 preimage))") (auto simp: PrivateKey_Sign_def SignCompact_def serializeCompactSignatureDER_def Let_def)
  let ?script1 = "?script\<lparr>Signature := signature @ [1], InPublicKey := compressed k\<rparr>"
  have "length signature \<le> 71" "length (compressed k) = 33" using PrivateKey_Sign_length(1) [OF curve signature] curve by (simp_all add: curve_ok_def)
  then obtain script2 where gen: "GenerateInputScript ?script1 = Inr script2" "InTemplate script2 = TransactionInputPubKeyHash" "InErr script2 = None"
    using script(1) by (auto simp: GenerateInputScript_def builder_push_def encodeTransactionPushData_def Let_def)
  have "Err (OutputScript out) = None" using out(2) by (simp add: IsPayPubKeyHash_def)
  then have "sign_input ecdsa compressed (Some provide) outs position b = (set_script position script2 b, None)"
    using script out(2,3) preimage signature gen(1) by (simp add: sign_input_def s script_unavailable_def Let_def)
  moreover have "set (input_scripts (set_script position script2 b)) \<subseteq> insert script2 (set (input_scripts b))"
    unfolding input_scripts_def set_script_def by (auto simp: map_update dest!: set_update_subset_insert [THEN subsetD])
  then have "signable provide (set_script position script2 b)" using ok gen by (auto simp: signable_def paired_def set_script_def)
  ultimately show thesis using that by (simp add: set_script_def)
qed

lemma Transaction_Sign_succeeds:
  assumes curve: "curve_ok ecdsa compressed" and ok: "signable provide b" and small: "small b"
  shows "\<exists>b'. Transaction_Sign ecdsa compressed (Some provide) b = (b', None)"
proof -
  have "\<exists>c'. sign_inputs ecdsa compressed (Some provide) outs positions c = (c', None) \<and> length (Inputs (Tx c')) = length (Inputs (Tx c)) \<and> Outputs (Tx c') = Outputs (Tx c)"
    if "signable provide c" "set positions \<subseteq> {..<length (Inputs (Tx c))}" for positions c outs
    using that
  proof (induction positions arbitrary: c)
    case (Cons position positions)
    have "position < length (Inputs (Tx c))" using Cons.prems(2) by simp
    then obtain c1 where c1: "sign_input ecdsa compressed (Some provide) outs position c = (c1, None)" "signable provide c1"
      "length (Inputs (Tx c1)) = length (Inputs (Tx c))" by (rule sign_input_signable [OF curve Cons.prems(1)])
    have "Outputs (Tx c1) = Outputs (Tx c)" by (rule sign_input_cases [OF c1(1)]) (auto simp: set_script_def)
    with Cons.IH [OF c1(2)] c1 Cons.prems(2) show ?case by auto
  qed simp
  moreover have "signable provide (ResetDerived b)" using ok by (simp add: signable_def input_scripts_def)
  ultimately obtain c where c: "sign_inputs ecdsa compressed (Some provide) (serializeSigningOutputs (ResetDerived b)) [0..<length (Inputs (Tx (ResetDerived b)))] (ResetDerived b) = (c, None)"
    "length (Inputs (Tx c)) = length (Inputs (Tx b))" "length (Outputs (Tx c)) = length (Outputs (Tx b))"
    by (metis Reset_sel(1,4) atLeast0LessThan atLeast_upt set_upt subset_refl)
  then have "\<exists>d. RebuildDerived (ResetDerived c) = Inr d" using small by (simp add: RebuildDerived_def small_def Let_def)
  with c show ?thesis by (auto simp: Transaction_Sign_def Let_def)
qed

end
