(* ===== verification/Payment.thy ===== *)
theory Payment
  imports TransactionSigning
begin

text \<open>
  What a created transaction pays. The selection of \<open>Funding\<close> covers what the balance asks for, under every
  strategy, and the signer of \<open>TransactionSigning\<close> does not make a transaction longer; together with the
  passes of \<open>Balancing\<close> this bounds the fee of a transaction that \<^verbatim>\<open>CreateTransaction\<close> returns from both sides.
\<close>

section \<open>Every strategy pays the target\<close>

text \<open>A selection that is not empty pays the target, as long as what it picked fits 64 bits; coins may be worth less than nothing.\<close>

definition pays :: "int \<Rightarrow> 'r selection option \<Rightarrow> bool" where
  "pays target r \<longleftrightarrow> (\<forall>sel es picked. r = Some (sel, es, picked) \<longrightarrow> picked \<noteq> [] \<longrightarrow> is_int64 (total picked) \<longrightarrow> target \<le> total picked)"

lemma search_loop_best:
  assumes "search_loop target cost es left s = Some (s', n, b)" and "books es s" and "bestSelection s \<noteq> [] \<Longrightarrow> target \<le> wrap64 (val es (rev (bestSelection s)))"
    and "bestSelection s' \<noteq> []"
  shows "target \<le> wrap64 (val es (rev (bestSelection s')))"
  using assms
proof (induction left arbitrary: s n)
  case (Suc left)
  define hit where "hit \<longleftrightarrow> \<not> out_of_bounds target cost s \<and> currentValue s \<ge> target"
  define s1 where "s1 = (if hit then record_best target s else s)"
  have best1: "bestSelection s1 \<noteq> [] \<Longrightarrow> target \<le> wrap64 (val es (rev (bestSelection s1)))"
    using Suc.prems(2,3) by (auto simp: s1_def hit_def record_best_def books_def Let_def split: if_splits)
  have step: "search_step target cost es s = (if out_of_bounds target cost s \<or> hit then (case backtrack es s1 of None \<Rightarrow> Stop s1 | Some s2 \<Rightarrow> Continue s2)
      else if length (currentSelection s) < length es then Continue (branch es s) else IndexOutOfRange)"
    unfolding search_step_def Let_def hit_def [symmetric] s1_def [symmetric] ..
  have keep: "backtrack es s1 = Some s2 \<Longrightarrow> bestSelection s2 = bestSelection s1" "bestSelection (branch es s) = bestSelection s" for s2
    by (auto simp: backtrack_def branch_def Let_def split: prod.splits list.splits)
  show ?case
  proof (cases "search_step target cost es s")
    case (Stop s2)
    then have "s2 = s1" "s' = s2" using step Suc.prems(1) by (auto split: if_splits option.splits)
    then show ?thesis using best1 Suc.prems(4) by simp
  next
    case (Continue s2)
    have "bestSelection s2 \<noteq> [] \<Longrightarrow> target \<le> wrap64 (val es (rev (bestSelection s2)))"
      using Continue best1 keep Suc.prems(3) unfolding step by (auto split: if_splits option.splits)
    moreover obtain n' where "search_loop target cost es left s2 = Some (s', n', b)" using Suc.prems(1) Continue by auto
    ultimately show ?thesis using Suc.IH [OF _ books_step(1) [OF Suc.prems(2) Continue]] Suc.prems(4) by blast
  next
    case IndexOutOfRange
    then show ?thesis using Suc.prems(1) by simp
  qed
qed simp

lemma BranchAndBound_pays: "pays (Target sel) (BranchAndBound sel es (coinSelectionAvailable es))"
proof -
  let ?es = "sort_key (\<lambda>e. - EffectiveAmount e) es" let ?start = "search_start (CostOfChange sel) (coinSelectionAvailable es)"
  have "coinSelectionAvailable es = wrap64 (total ?es)" by (simp add: coinSelectionAvailable_total total_mset [of ?es es])
  then have books: "books ?es ?start" by (simp add: books_def search_start_def val_def chosen_def total_def wrap64_def)
  have "Target sel \<le> total (chosen ?es (rev (bestSelection s)))"
    if "search_loop (Target sel) (CostOfChange sel) ?es m ?start = Some (s, n, b)" "bestSelection s \<noteq> []" "is_int64 (total (chosen ?es (rev (bestSelection s))))" for s n b m
    using search_loop_best [OF that(1) books _ that(2)] that(3) by (simp add: search_start_def val_def)
  then show ?thesis by (auto simp: pays_def BranchAndBound_def Let_def split: option.splits if_splits)
qed

lemma closest_enough: "closest target es best = Some (c, e) \<Longrightarrow> (\<And>c e. best = Some (c, e) \<Longrightarrow> target \<le> EffectiveAmount e) \<Longrightarrow> target \<le> EffectiveAmount e"
  by (induction target es best rule: closest.induct) (auto simp: Let_def split: if_splits option.splits)

lemma draw_until_enough: "draw_until target amount es = Some picked \<Longrightarrow> picked \<noteq> [] \<and> target \<le> wrap64 (amount + total picked)"
proof (induction target amount es arbitrary: picked rule: draw_until.induct)
  case (2 target amount e es)
  show ?case
  proof (cases "wrap64 (amount + EffectiveAmount e) \<ge> target")
    case False
    with "2.prems" obtain ps where ps: "picked = e # ps" "draw_until target (wrap64 (amount + EffectiveAmount e)) es = Some ps" by (auto simp: Let_def)
    from "2.IH" [OF refl False ps(2)] show ?thesis by (simp add: ps(1) add.assoc)
  qed (use "2.prems" in \<open>auto simp: Let_def\<close>)
qed simp

text \<open>The selectors of the later stages have the target and the cost of the first one.\<close>

definition aims :: "int \<Rightarrow> int \<Rightarrow> 'r CoinSelector \<Rightarrow> bool" where
  "aims target cost sel \<longleftrightarrow> Target sel = target \<and> CostOfChange sel = cost \<and> 0 \<le> cost \<and> is_int64 target \<and> target + cost \<le> int64_max"

lemma aims_wrap: "aims target cost sel \<Longrightarrow> wrap64 (Target sel + CostOfChange sel) = target + cost \<and> target \<le> target + cost"
  by (auto simp: aims_def is_int64_def intro!: wrap64_id)

lemma ClosestMatch_pays: "aims target cost sel \<Longrightarrow> pays target (Some (ClosestMatch sel es))"
proof -
  assume a: "aims target cost sel"
  have "target \<le> EffectiveAmount e" if "closest (target + cost) es None = Some (c, e)" for c e
    using closest_enough [OF that] aims_wrap [OF a] by simp
  then show ?thesis using aims_wrap [OF a] by (auto simp: pays_def ClosestMatch_def Let_def split: option.splits)
qed

lemma RandomDraw_pays: "aims target cost sel \<Longrightarrow> pays target (RandomDraw next sel es)"
proof -
  assume a: "aims target cost sel"
  have "target \<le> total picked" if "draw_until (target + cost) 0 es' = Some picked" "is_int64 (total picked)" for es' picked
    using draw_until_enough [OF that(1)] that(2) aims_wrap [OF a] by simp
  then show ?thesis using aims_wrap [OF a] by (auto simp: pays_def RandomDraw_def Let_def split: option.splits)
qed

lemma BranchAndBound_sel: "BranchAndBound sel es available = Some (sel', es', picked) \<Longrightarrow> aims target cost sel \<Longrightarrow> aims target cost sel' \<and> mset es' = mset es"
  by (auto simp: BranchAndBound_def aims_def Let_def split: option.splits if_splits)

lemma Standard_pays: "aims target cost sel \<Longrightarrow> pays target (Standard next sel es (coinSelectionAvailable es))"
proof -
  assume a: "aims target cost sel"
  show ?thesis
  proof (cases "BranchAndBound sel es (coinSelectionAvailable es)")
    case (Some r)
    obtain sel1 es1 picked where r: "r = (sel1, es1, picked)" by (cases r)
    have b: "pays target (Some r)" using BranchAndBound_pays [of sel es] a Some by (simp add: aims_def)
    have a1: "aims target cost sel1" using BranchAndBound_sel [of sel es _ sel1 es1 picked] Some r a by blast
    obtain picked2 where c: "ClosestMatch sel1 es1 = (sel1, es1, picked2)" by (simp add: ClosestMatch_def Let_def)
    show ?thesis using b ClosestMatch_pays [OF a1, of es1] RandomDraw_pays [OF a1, of "next" es1] by (simp add: Standard_def Some r c)
  qed (simp add: Standard_def pays_def)
qed

lemma OnlyConfirmed_pays: "aims target cost sel \<Longrightarrow> pays target (OnlyConfirmed next sel es)"
  using Standard_pays [of target cost sel "next" "filter (\<lambda>e. Height e > 0) es"] by (auto simp: OnlyConfirmed_def pays_def Let_def)

lemma Standard_sel:
  assumes "Standard next sel es available = Some (sel', es', picked)" and a: "aims target cost sel"
  shows "aims target cost sel'"
proof -
  obtain sel1 es1 picked1 where b: "BranchAndBound sel es available = Some (sel1, es1, picked1)" using assms(1) by (auto simp: Standard_def split: option.splits)
  have "aims target cost sel1" using BranchAndBound_sel [OF b a] by blast
  then show ?thesis using assms(1)
    by (auto simp: Standard_def b ClosestMatch_def RandomDraw_def aims_def Let_def split: option.splits if_splits)
qed

lemma OnlyConfirmed_sel: "OnlyConfirmed next sel es = Some (sel', es', picked) \<Longrightarrow> aims target cost sel \<Longrightarrow> aims target cost sel'"
  by (auto simp: OnlyConfirmed_def Let_def split: if_splits dest: Standard_sel)

context coin_random
begin

lemma PreferConfirmed_pays: "aims target cost sel \<Longrightarrow> pays target (PreferConfirmed next sel es (coinSelectionAvailable es))"
proof -
  assume a: "aims target cost sel"
  show ?thesis
  proof (cases "OnlyConfirmed next sel es")
    case (Some r)
    obtain sel1 es1 picked where r: "r = (sel1, es1, picked)" by (cases r)
    have b: "pays target (Some r)" using OnlyConfirmed_pays [OF a, of "next" es] Some by simp
    have same: "mset es1 = mset es" using OnlyConfirmed_part [of es sel] Some r by (auto simp: part_of_def)
    have available: "coinSelectionAvailable es1 = coinSelectionAvailable es" by (simp add: coinSelectionAvailable_total total_mset [OF same])
    have "aims target cost sel1" using OnlyConfirmed_sel [OF Some [unfolded r] a] .
    from b Standard_pays [OF this, of "next" es1] show ?thesis unfolding PreferConfirmed_def Some r available by simp
  qed (simp add: PreferConfirmed_def pays_def)
qed

lemma Select_pays:
  assumes "aims target cost sel" and "Select next sel es strategy = Some (Inr r)"
  shows "pays target (Some r)"
proof -
  define good where "good q \<longleftrightarrow> (\<forall>r. q = Some (Inr r) \<longrightarrow> pays target (Some r))" for q :: "(select_error + 'r selection) option"
  have branch: "good q \<Longrightarrow> good q' \<Longrightarrow> good (if P then q else q')" for P q q' by simp
  have lift: "pays target q \<Longrightarrow> good (map_option Inr q)" for q by (auto simp: good_def)
  have other: "good (Some (Inl e))" "good (Some (Inr (ClosestMatch sel es)))" "good (Some (Inr (sel, es, [])))" for e
    using ClosestMatch_pays [OF assms(1)] by (auto simp: good_def pays_def)
  have t: "pays target (BranchAndBound sel es (coinSelectionAvailable es))" using BranchAndBound_pays [of sel es] assms(1) by (simp add: aims_def)
  have "good (Select next sel es strategy)" unfolding Select_def Let_def
    by (intro branch lift other t Standard_pays [OF assms(1)] OnlyConfirmed_pays [OF assms(1)] PreferConfirmed_pays [OF assms(1)] RandomDraw_pays [OF assms(1)])
  then show ?thesis using assms(2) by (simp add: good_def)
qed

end

section \<open>What the selected outputs are worth\<close>

definition covers :: "int \<Rightarrow> int \<Rightarrow> funding_error + TransactionSpendable list \<Rightarrow> bool" where
  "covers f amount r \<longleftrightarrow> (\<forall>ss. r = Inr ss \<longrightarrow> ss \<noteq> [] \<longrightarrow>
     (\<forall>s\<in>set ss. spendable_ok f s) \<and> (is_int64 (worth ss) \<longrightarrow> amount \<le> worth ss))"

lemma new_spend_ok:
  assumes "NewSpendInput (Some out) = Inr input" and "length (TransactionHash out) = 32" and "SpendInput s = input"
    and "InputFee (LegacyTransactionFeePolicy f g) (fst input) = Inr fee" and "transactionBalanceUint64 (Amount out) = Inr amount"
    and "subtractTransactionBalanceAmount amount fee = Inr (EffectiveAmount s)"
  shows "spendable_ok f s"
proof -
  note n = NewSpendInput_unsigned [OF assms(1)]
  have "input = (fst input, Some out)" using n(2) by (cases input) simp
  moreover have "EffectiveAmount s = uint (Amount out) - int (TransactionInput_Size (fst input)) * f"
    using assms(4-6) by (auto simp: LegacyTransactionFeePolicy_def Legacy_InputFee_def)
  ultimately show ?thesis using n assms(2,3) unfolding spendable_ok_def by (metis fst_conv)
qed

lemma estimator_ok:
  assumes "transactionCoinSelectionEstimator (LegacyTransactionFeePolicy f g) row = Inr e"
  shows "spendable_ok f (TransactionSpendable.truncate e)"
proof -
  from assms obtain out input fee amount where e: "transactionOutputFromStored (TXID row) (StoredPosition row) (StoredAmount row) (StoredScript row) = Inr out"
    "NewSpendInput (Some out) = Inr input" "InputFee (LegacyTransactionFeePolicy f g) (fst input) = Inr fee"
    "transactionBalanceUint64 (Amount out) = Inr amount" "subtractTransactionBalanceAmount amount fee = Inr (EffectiveAmount e)" "SpendInput e = input"
    unfolding transactionCoinSelectionEstimator_def and_then_Inr built_Inr by (auto simp del: amount_Inr)
  have "length (TransactionHash out) = 32"
    using e(1) by (auto simp: transactionOutputFromStored_def transactionHashFromID_def and_then_Inr split: if_splits option.splits)
  from new_spend_ok [OF e(2) this _ e(3,4), of "TransactionSpendable.truncate e"] e(5,6) show ?thesis
    by (simp add: TransactionSpendable.truncate_def del: amount_Inr)
qed

lemma decodeParent_Inr: "decodeParent raw = Inr parent \<longleftrightarrow> ParseTransaction raw = Inr parent"
  by (simp add: decodeParent_def split: sum.split)

lemma parent_spend_ok:
  assumes "parent_spend (LegacyTransactionFeePolicy f g) s"
  shows "spendable_ok f s"
proof -
  from assms obtain raw parent position out input fee amount where p: "ParseTransaction raw = Inr parent" "parent_output parent position = Inr out"
    "NewSpendInput (Some out) = Inr input" "InputFee (LegacyTransactionFeePolicy f g) (fst input) = Inr fee"
    "transactionBalanceUint64 (Amount out) = Inr amount" "subtractTransactionBalanceAmount amount fee = Inr (EffectiveAmount s)" "SpendInput s = input"
    unfolding parent_spend_def parent_spendable_def and_then_Inr built_Inr decodeParent_Inr by (auto simp del: amount_Inr)
  have "out \<in> set (Outputs parent)" using p(2) by (auto simp: parent_output_def split: if_splits)
  moreover obtain t where "parent = finish_transaction t" by (rule ParseTransaction_Inr [OF p(1)])
  ultimately have "length (TransactionHash out) = 32" by (auto simp: finish_transaction_def double_sha256_def Let_def)
  from new_spend_ok [OF p(3) this p(7,4,5,6)] show ?thesis .
qed

lemma in_memory_covers:
  assumes "coin_random next" and cost: "0 \<le> cost" and amount: "0 < amount" "amount + cost \<le> int64_max"
    and run: "in_memory_inputs scan next r (LegacyTransactionFeePolicy f g) strategyValue amount cost accounts db = (db', res)"
  shows "covers f amount res"
  unfolding covers_def
proof (intro allI impI)
  fix ss assume res: "res = Inr ss" and ne: "ss \<noteq> []"
  let ?policy = "LegacyTransactionFeePolicy f g" let ?sel = "NewCoinSelector amount cost r"
  let ?s = "case strategyValue of Strategy s \<Rightarrow> s | _ \<Rightarrow> ''''"
  from run obtain rows where rows: "collect (account_estimators scan ?policy db) accounts = Inr rows"
    by (cases "collect (account_estimators scan ?policy db) accounts") (simp_all add: in_memory_inputs_def res)
  have "strategyValue \<noteq> OtherStrategy" using run ne by (auto simp: in_memory_inputs_def rows res Let_def split: if_splits)
  with run obtain sel es' picked where sel: "Select next ?sel (concat rows) ?s = Some (Inr (sel, es', picked))" and ss: "ss = map TransactionSpendable.truncate picked"
    by (auto simp: in_memory_inputs_def rows res Let_def split: option.splits sum.splits prod.splits if_splits)
  have "aims amount cost ?sel" using cost amount by (simp add: aims_def NewCoinSelector_def is_int64_def int64_min_def)
  from coin_random.Select_pays [OF assms(1) this sel] have pays: "pays amount (Some (sel, es', picked))" .
  have part: "mset picked \<subseteq># mset (concat rows)"
    using coin_random.Select_part [OF assms(1), of ?sel "concat rows" ?s] by (auto simp: sel part_of_def)
  have "worth ss = total picked" by (simp add: ss worth_def total_def comp_def TransactionSpendable.truncate_def)
  moreover have "spendable_ok f (TransactionSpendable.truncate e)" if e: "e \<in> set picked" for e
  proof -
    have "e \<in> set (concat rows)" using set_mset_mono [OF part] e by auto
    then obtain es where es: "es \<in> set rows" "e \<in> set es" by auto
    obtain a where "account_estimators scan ?policy db a = Inr es"
      using rows es(1) unfolding collect_Inr list_all2_conv_all_nth in_set_conv_nth by metis
    then obtain row where "transactionCoinSelectionEstimator ?policy row = Inr e"
      using es(2) unfolding account_estimators_def by (auto simp: collect_Inr list_all2_conv_all_nth in_set_conv_nth split: option.splits)
    then show ?thesis by (rule estimator_ok)
  qed
  ultimately show "(\<forall>s\<in>set ss. spendable_ok f s) \<and> (is_int64 (worth ss) \<longrightarrow> amount \<le> worth ss)"
    using pays ne by (auto simp: pays_def ss)
qed

lemma dummyChange_fee: "OutputFee (LegacyTransactionFeePolicy f 0) dummyChange = Inr cost \<Longrightarrow> 0 \<le> f \<Longrightarrow> cost = 46 * f"
proof -
  assume c: "OutputFee (LegacyTransactionFeePolicy f 0) dummyChange = Inr cost" and f: "0 \<le> f"
  have "cost = legacy_fee f 0 dummyChange" using c by (simp add: LegacyTransactionFeePolicy_def Legacy_OutputFee_Inr)
  then show ?thesis using NewPayPubKeyHashOutput_size [of "replicate 32 0" "of_int 100000000"] f
    by (simp add: legacy_fee_def Let_def dummyChange_def)
qed

lemma GetSpendable_covers:
  assumes ok: "CoinSelectionStrategy ledger = Strategy ''sqlite'' \<longrightarrow> db_ok db \<and> owned_once db \<and> raw_ok db \<and> scans scan"
    and random: "coin_random next" and ne: "accounts \<noteq> []" and f: "fee_per_byte ledger = Inr f" "0 \<le> f"
    and amount: "0 < amount" "amount + 46 * f \<le> int64_max"
    and run: "GetSpendableTransactionInputs scan next r ledger amount accounts (Some db) = (database, res)"
  shows "covers f amount res"
proof (cases "OutputFee (LegacyTransactionFeePolicy f 0) dummyChange")
  case (Inl e)
  with run f(1) show ?thesis by (auto simp: GetSpendableTransactionInputs_def balanced_def covers_def Let_def)
next
  case (Inr cost)
  let ?P = "LegacyTransactionFeePolicy f 0"
  have cost: "cost = 46 * f" using dummyChange_fee [OF Inr f(2)] .
  show ?thesis
  proof (cases "CoinSelectionStrategy ledger = Strategy ''sqlite''")
    case True
    with run Inr f(1) have r: "res = snd (getSQLiteSpendableTransactionInputs scan ?P f amount cost accounts db)"
      by (auto simp: GetSpendableTransactionInputs_def balanced_def Let_def apfst_def map_prod_def split: prod.splits)
    have sq: "db_ok db" "owned_once db" "raw_ok db" "scans scan" using ok True by blast+
    show ?thesis
      by (rule sqlite_cases [OF sq ne, where policy = ?P and f = f and amount = amount and cost = cost])
        (use cost f(2) in \<open>auto simp: r covers_def intro: parent_spend_ok\<close>)
  next
    case False
    obtain db' res' where m: "in_memory_inputs scan next r ?P (CoinSelectionStrategy ledger) amount cost accounts db = (db', res')" by fastforce
    have "res = res'" using run Inr f(1) False m by (simp add: GetSpendableTransactionInputs_def balanced_def Let_def)
    with in_memory_covers [OF random _ _ _ m] cost f(2) amount show ?thesis by simp
  qed
qed

section \<open>The callbacks of a wallet\<close>

lemma transactionLedgerFeePolicy_legacy:
  assumes "fee_per_byte ledger = Inr f" "fee_per_name_char ledger = Inr g"
  shows "transactionLedgerFeePolicy (Some ledger) = LegacyTransactionFeePolicy f g"
proof -
  have "Legacy_OutputFee f 0 out = Legacy_OutputFee f g out" if "\<not> IsClaimName (OutputScript out)" for out
    using that by (simp add: Legacy_OutputFee_def)
  then have "(\<lambda>out. Legacy_OutputFee f (if IsClaimName (OutputScript out) then g else 0) out) = Legacy_OutputFee f g" by auto
  moreover have "(\<lambda>out. and_then (if IsClaimName (OutputScript out) then Inr g else Inr 0) (\<lambda>g. Legacy_OutputFee f g out)) =
      (\<lambda>out. Legacy_OutputFee f (if IsClaimName (OutputScript out) then g else 0) out)" by auto
  ultimately show ?thesis using assms by (simp add: transactionLedgerFeePolicy_def LegacyTransactionFeePolicy_def ledger_fee_def)
qed

lemma transactionChangeAddressHash_length: "transactionChangeAddressHash address = Inr h \<Longrightarrow> length h \<le> 20"
  by (auto simp: transactionChangeAddressHash_def split: sum.splits if_splits)

text \<open>What the selection by SQLite needs of the tables: the stored rows agree with their stored parents.\<close>

definition tables_ok :: "Ledger \<Rightarrow> nat \<Rightarrow> 'c world \<Rightarrow> bool" where
  "tables_ok ledger l w \<longleftrightarrow> (CoinSelectionStrategy ledger = Strategy ''sqlite'' \<longrightarrow>
     (\<exists>db. Databases w l = Some db \<and> db_ok db \<and> owned_once db \<and> raw_ok db))"

lemma select_inputs_tables:
  assumes ok: "tables_ok ledger l w" and scan: "CoinSelectionStrategy ledger = Strategy ''sqlite'' \<longrightarrow> scans scan"
    and random: "coin_random next" and ne: "accounts \<noteq> []"
    and run: "select_inputs scan next seed l ledger accounts w d = (w', res)"
  shows "tables_ok ledger l w'"
proof (cases "CoinSelectionStrategy ledger = Strategy ''sqlite''")
  case True
  with ok obtain db where db: "Databases w l = Some db" "db_ok db" "owned_once db" "raw_ok db" by (auto simp: tables_ok_def)
  obtain r0 others where seed: "seed (Others w) = (r0, others)" by fastforce
  from scan True have sc: "scans scan" by blast
  obtain db' r' where g: "GetSpendableTransactionInputs scan next r0 ledger d accounts (Some db) = (Some db', r')"
    "selects (map (AccountID \<circ> the) accounts) db (db', r')"
    by (rule GetSpendable_selects [OF db(2,3) _ sc random ne]) (use db(4) in auto)
  have w': "Databases w' l = Some db'" using run db(1) g(1) seed by (auto simp: select_inputs_def)
  from g(2) have "db' = db \<or> (\<exists>ids. db' = ReserveOutputs ids True db)" by (cases r') (auto simp: selects_def)
  then have "same_outputs db db' \<and> account_address db' = account_address db"
    using ReserveOutputs_facts(1,2) by (auto simp: same_outputs_def)
  with db w' show ?thesis using same_outputs_db_ok [of db db'] raw_ok_same [of db db'] by (auto simp: tables_ok_def owned_once_def)
qed (simp add: tables_ok_def)

lemma select_inputs_covers:
  assumes ok: "tables_ok ledger l w" and scan: "CoinSelectionStrategy ledger = Strategy ''sqlite'' \<longrightarrow> scans scan"
    and random: "coin_random next" and ne: "accounts \<noteq> []" and f: "fee_per_byte ledger = Inr f" "0 \<le> f" and d: "0 < d" "d + 46 * f \<le> int64_max"
    and run: "select_inputs scan next seed l ledger accounts w d = (w', Inr ss)" and some: "ss \<noteq> []"
  shows "(\<forall>s\<in>set ss. spendable_ok f s) \<and> (is_int64 (worth ss) \<longrightarrow> d \<le> worth ss)"
proof -
  obtain r0 others where seed: "seed (Others w) = (r0, others)" by fastforce
  obtain database res where g: "GetSpendableTransactionInputs scan next r0 ledger d accounts (Databases w l) = (database, res)" by fastforce
  have res: "res = Inr ss" using run g seed by (auto simp: select_inputs_def described_def split: sum.splits)
  then obtain db where db: "Databases w l = Some db" using g by (cases "Databases w l") (auto simp: GetSpendableTransactionInputs_def)
  have sq: "CoinSelectionStrategy ledger = Strategy ''sqlite'' \<longrightarrow> db_ok db \<and> owned_once db \<and> raw_ok db \<and> scans scan"
    using ok scan db by (auto simp: tables_ok_def)
  from GetSpendable_covers [OF sq random ne f d g [unfolded db]] show ?thesis using res some by (simp add: covers_def)
qed

lemma create_options_callbacks:
  assumes scan: "CoinSelectionStrategy (heap l) = Strategy ''sqlite'' \<longrightarrow> scans scan \<and> change_ok changeAddress" and random: "coin_random next"
    and chosen: "transactionCreateLedgerAndWallet accounts change = Inr (l, wallet)" and f: "fee_per_byte (heap l) = Inr f" "0 \<le> f"
  shows "callbacks_ok (tables_ok (heap l) l) f (create_options scan next seed heap changeAddress signer inputs outputs accounts change doSign)"
  (is "callbacks_ok ?I f ?o")
  unfolding callbacks_ok_def
proof (intro conjI allI impI)
  fix select w d w' r
  assume "SelectSpendables ?o = Some select" and I: "?I w" and "select w d = (w', r)"
  then have run: "select_inputs scan next seed l (heap l) accounts w d = (w', r)" using chosen by (simp add: create_options_def Let_def)
  note ne = baseline_nonempty [OF chosen]
  have sc: "CoinSelectionStrategy (heap l) = Strategy ''sqlite'' \<longrightarrow> scans scan" using scan by blast
  show "?I w'" by (rule select_inputs_tables [OF I sc random ne run])
  fix ss assume "r = Inr ss" "ss \<noteq> []" "0 < d" "d + 46 * f \<le> int64_max"
  with select_inputs_covers [OF I sc random ne f, of d seed w' ss] run
  show "\<forall>s\<in>set ss. spendable_ok f s" and "is_int64 (worth ss) \<Longrightarrow> d \<le> worth ss" by simp_all
next
  fix callback w w' r
  assume c: "ChangeAddress ?o = Some callback" and I: "?I w" and run: "callback w = (w', r)"
  have "w' = w \<or> (\<exists>a. changeAddress a w = (w', r))" using c run by (auto simp: create_options_def Let_def split: option.splits if_splits)
  then show "?I w'"
  proof
    assume "\<exists>a. changeAddress a w = (w', r)"
    then obtain a where a: "changeAddress a w = (w', r)" by blast
    show ?thesis unfolding tables_ok_def
    proof
      assume sq: "CoinSelectionStrategy (heap l) = Strategy ''sqlite''"
      with I obtain db where db: "Databases w l = Some db" "db_ok db" "owned_once db" "raw_ok db" by (auto simp: tables_ok_def)
      from sq scan have "change_ok changeAddress" by blast
      then obtain more where "Databases w' l = Some (db\<lparr>account_address := account_address db @ more\<rparr>)"
        "owned_once (db\<lparr>account_address := account_address db @ more\<rparr>)" using a db(1,3) unfolding change_ok_def by blast
      with db show "\<exists>db. Databases w' l = Some db \<and> db_ok db \<and> owned_once db \<and> raw_ok db" by (auto simp: db_ok_def raw_ok_def)
    qed
  qed (use I in simp)
next
  fix hash w a w' r
  assume h: "AddressHash ?o = Some hash" and I: "?I w" and run: "hash w a = (w', r)"
  then show "?I w'" by (auto simp: create_options_def Let_def)
  fix h assume "r = Inr h"
  with h run have "transactionChangeAddressHash a = Inr h"
    by (auto simp: create_options_def described_def Let_def split: option.splits if_splits sum.splits)
  then show "length h \<le> 32" using transactionChangeAddressHash_length by fastforce
qed

section \<open>The fee of a created transaction\<close>

lemma signed_effect:
  assumes curve: "curve_ok ecdsa compressed" and paired: "paired b1" and few: "few b"
    and signed: "doSign \<and> wallet_signer ecdsa compressed network keyForAddress accounts w1 b1 = (w', b, None) \<or> \<not> doSign \<and> b = b1"
  shows "few b1" "in_total b1 = in_total b" "length (Inputs (Tx b)) = length (Inputs (Tx b1))"
    "fresh b1 \<Longrightarrow> doSign \<longrightarrow> unsigned b1 \<Longrightarrow> int (Transaction_Size b) \<le> 10 + in_size b1 + out_size b1 \<and> paid_fee b = paid_fee b1"
proof -
  have "few b1 \<and> in_total b1 = in_total b \<and> length (Inputs (Tx b)) = length (Inputs (Tx b1)) \<and>
    (fresh b1 \<longrightarrow> (doSign \<longrightarrow> unsigned b1) \<longrightarrow> int (Transaction_Size b) \<le> 10 + in_size b1 + out_size b1 \<and> paid_fee b = paid_fee b1)"
    using signed
  proof
    assume "\<not> doSign \<and> b = b1"
    then show ?thesis using few Transaction_Size_fresh(1) [of b1] by (auto simp: few_def)
  next
    assume s: "doSign \<and> wallet_signer ecdsa compressed network keyForAddress accounts w1 b1 = (w', b, None)"
    then obtain provider where t: "Transaction_Sign ecdsa compressed (Some provider) b1 = (b, None)" by (auto elim: wallet_signer_Sign)
    have len: "length (Inputs (Tx b)) = length (Inputs (Tx b1))" "length (Outputs (Tx b)) = length (Outputs (Tx b1))"
      by (rule Transaction_Sign_lengths [OF curve paired t], blast)+
    then have few1: "few b1" using few by (simp add: few_def)
    moreover have res: "in_total b1 = in_total b" using Transaction_Sign_Resolved [OF t] by (simp add: in_total_def)
    moreover have "int (Transaction_Size b) \<le> 10 + in_size b1 + out_size b1 \<and> paid_fee b = paid_fee b1" if fr: "fresh b1" and u: "unsigned b1"
    proof -
      note e = Transaction_Sign_effect [OF curve fr few_small [OF few1] t]
      show ?thesis using Transaction_Size_fresh(1) [OF e(1)] few placed_outputs [OF e(3)] e(5) [OF u] res by (simp add: few_def paid_fee_def)
    qed
    ultimately show ?thesis using len s by blast
  qed
  then show "few b1" "in_total b1 = in_total b" "length (Inputs (Tx b)) = length (Inputs (Tx b1))"
    "fresh b1 \<Longrightarrow> doSign \<longrightarrow> unsigned b1 \<Longrightarrow> int (Transaction_Size b) \<le> 10 + in_size b1 + out_size b1 \<and> paid_fee b = paid_fee b1" by blast+
qed

text \<open>
  C2. A created transaction pays its fee and not much more. The ledger has a fee of \<open>f\<close> per byte and of \<open>g\<close> per
  character of a claim name. A transaction with fewer than 253 inputs and outputs that \<^verbatim>\<open>CreateTransaction\<close>
  returns, signed by the accounts or left unsigned, leaves at least \<open>f\<close> for every byte of it; when an output was
  asked for, it leaves at most the fee of 66 bytes (for the rest of the transaction and a change
  output), of the supplied inputs, of 148 bytes for every selected input and of the requested outputs,
  and the dust limit. This is so for every strategy of selection, with the random numbers of the program
  or any others, for every key the accounts have and every change address. It takes that amounts stay within 64
  bits, that supplied inputs of a transaction to be signed wait for their signature (as
  \<^verbatim>\<open>NewSpendInput\<close> and \<^verbatim>\<open>NewTimeLockSpendInput\<close> make them), and of the curve that signatures have a low
  \<open>s\<close> and keys 33 bytes; and when SQLite selects, that the stored rows agree with their stored parents and
  that the change account only adds addresses.
\<close>

theorem CreateTransaction_pays:
  assumes chosen: "transactionCreateLedgerAndWallet accounts change = Inr (l, wallet)"
    and fees: "fee_per_byte (heap l) = Inr f" "fee_per_name_char (heap l) = Inr g" "0 \<le> f"
    and env: "coin_random next" "curve_ok ecdsa compressed" "CoinSelectionStrategy (heap l) = Strategy ''sqlite'' \<longrightarrow> scans scan \<and> change_ok changeAddress"
    and tables: "tables_ok (heap l) l w" and unsigned: "doSign \<longrightarrow> (\<forall>s\<in>set inputs. unsigned_script (InputScript (fst s)))"
    and run: "CreateTransaction scan next seed heap changeAddress (wallet_signer ecdsa compressed network keyForAddress accounts)
      inputs outputs accounts change doSign w = (w', Inr b)"
    and range: "affordable f g inputs outputs" "in_total b \<le> int64_max" and few: "few b"
  shows "f * int (Transaction_Size b) \<le> paid_fee b \<and>
    (outputs \<noteq> [] \<longrightarrow> paid_fee b \<le>
       f * (66 + input_sizes inputs + 148 * (int (length (Inputs (Tx b))) - int (length inputs))) + output_fees f g outputs + 1000)"
proof -
  let ?signer = "wallet_signer ecdsa compressed network keyForAddress accounts"
  let ?o = "create_options scan next seed heap changeAddress ?signer inputs outputs accounts change doSign"
  have o: "OptInputs ?o = inputs" "OptOutputs ?o = outputs" "SkipSigning ?o \<longleftrightarrow> \<not> doSign" "Signer ?o = Some ?signer"
    "FeePolicy ?o = Some (LegacyTransactionFeePolicy f g)"
    using chosen transactionLedgerFeePolicy_legacy [OF fees(1,2)] by (simp_all add: create_options_def Let_def)
  have ok: "callbacks_ok (tables_ok (heap l) l) f ?o" by (rule create_options_callbacks [where heap = heap, OF env(3,1) chosen fees(1,3)])
  obtain w1 b1 where sign: "sign ?o w1 b1 = (w', b, Inr ())" and paired: "paired b1"
    and balanced: "few b1 \<Longrightarrow> in_total b1 \<le> int64_max \<Longrightarrow> (\<exists>p. funded f inputs b1 p) \<and> f * (10 + in_size b1 + out_size b1) \<le> paid_fee b1 \<and>
       (outputs \<noteq> [] \<longrightarrow> paid_fee b1 \<le> f * (66 + in_size b1) + output_fees f g outputs + 1000)"
    by (rule CreateBalancedTransaction_balanced [OF run [unfolded CreateTransaction_def] o(5) fees(3) ok tables, unfolded o]) (use range(1) in auto)
  have signed: "doSign \<and> ?signer w1 b1 = (w', b, None) \<or> \<not> doSign \<and> b = b1" using sign by (auto simp: sign_def o split: option.splits if_splits prod.splits)
  note same = signed_effect [OF env(2) paired few signed]
  from balanced same(1,2) range(2) obtain p where F: "funded f inputs b1 p" "f * (10 + in_size b1 + out_size b1) \<le> paid_fee b1"
    "outputs \<noteq> [] \<Longrightarrow> paid_fee b1 \<le> f * (66 + in_size b1) + output_fees f g outputs + 1000" by auto
  have "fresh b1" "doSign \<longrightarrow> unsigned b1" and size: "in_size b1 \<le> input_sizes inputs + 148 * (int (length (Inputs (Tx b))) - int (length inputs))"
    using F(1) unsigned same(3) by (auto simp: funded_def)
  note eff = same(4) [OF this(1,2)]
  have "f * int (Transaction_Size b) \<le> f * (10 + in_size b1 + out_size b1)" using eff fees(3) by (intro mult_left_mono) auto
  moreover have "f * (66 + in_size b1) \<le> f * (66 + input_sizes inputs + 148 * (int (length (Inputs (Tx b))) - int (length inputs)))"
    using size fees(3) by (intro mult_left_mono) auto
  ultimately show ?thesis using F(2,3) eff by auto
qed

text \<open>An account pays 500 out of an output of 10000 and signs: the selection, the change and the signature succeed.\<close>

definition example_ecdsa :: "unit \<Rightarrow> bytes \<Rightarrow> nat \<times> nat" where "example_ecdsa k d = (1, 1)"

definition example_compressed :: "unit \<Rightarrow> bytes" where "example_compressed k = replicate 33 2"

definition example_signer :: "unit world \<Rightarrow> Building \<Rightarrow> unit world \<times> Building \<times> string option" where
  "example_signer = wallet_signer example_ecdsa example_compressed (\<lambda>_. MainNet) (\<lambda>_ _ _ _. Inr (Some (Some ()))) [Some example_account]"

lemma example_curve: "curve_ok example_ecdsa example_compressed"
  by (simp add: curve_ok_def example_ecdsa_def example_compressed_def)

lemma example_signed:
  assumes "fresh b1" "few b1" "Resolved b1 = [Some example_output]"
    "\<forall>script\<in>set (input_scripts b1). InTemplate script = TransactionInputPubKeyHash \<and> InErr script = None"
  shows "\<exists>b. example_signer w1 b1 = (w1, b, None)"
proof -
  let ?provide = "account_key (\<lambda>_. MainNet) (\<lambda>_ _ _. Inr (Some (Some ()))) [] 0 0"
  have "Err (OutputScript example_output) = None" using example_parse(1) by (simp add: example_output_def IsPayPubKeyHash_def)
  then have "?provide i input example_output = Inr (Some (Some ()))" for i input
    using example_parse(2) by (simp add: account_key_def TransactionOutput_Address_def example_output_def Let_def)
  then have "signable ?provide b1" using assms example_parse(1) by (simp add: signable_def fresh_def example_output_def)
  from Transaction_Sign_succeeds [OF example_curve this few_small [OF assms(2)]]
  obtain b where b: "Transaction_Sign example_ecdsa example_compressed (Some ?provide) b1 = (b, None)" by blast
  have "transactionSigningLedgerAndWallet [Some example_account] = Inr (0, 0)"
    by (simp add: transactionSigningLedgerAndWallet_def example_account_def Let_def)
  then show ?thesis using b by (simp add: example_signer_def wallet_signer_def SignWithAccounts_Sign)
qed

theorem CreateTransaction_pays_witness:
  "\<exists>w' b. CreateTransaction id Float64 (\<lambda>u. (newCoinSelectionPythonRandomFromInt 5, u)) example_ledger (\<lambda>_ w. (w, Inr example_address))
       (wallet_signer example_ecdsa example_compressed (\<lambda>_. MainNet) (\<lambda>_ _ _ _. Inr (Some (Some ()))) [Some example_account])
       [] [NewPayPubKeyHashOutput 500 (replicate 20 7)] [Some example_account] (Some example_account) True example_world = (w', Inr b) \<and>
     length (Inputs (Tx b)) = 1 \<and> int (Transaction_Size b) \<le> paid_fee b \<and> paid_fee b \<le> 1248"
proof -
  let ?seed = "\<lambda>u. (newCoinSelectionPythonRandomFromInt 5, u)" let ?out = "NewPayPubKeyHashOutput 500 (replicate 20 7)"
  let ?o = "example_options ?seed example_signer True"
  obtain w1 b1 where next_step: "\<And>w2 b2. sign ?o w1 b1 = (w2, b2, Inr ()) \<Longrightarrow> CreateBalancedTransaction ?o example_world = (w2, Inr b2)"
    and b1: "fresh b1" "few b1" "Resolved b1 = [Some example_output]" "length (Inputs (Tx b1)) = 1"
      "\<forall>script\<in>set (input_scripts b1). InTemplate script = TransactionInputPubKeyHash \<and> InErr script = None"
    by (rule example_balanced [where seed = ?seed and signer = example_signer and doSign = True]) blast
  obtain b where b: "example_signer w1 b1 = (w1, b, None)" using example_signed [OF b1(1-3,5)] by blast
  then have "sign ?o w1 b1 = (w1, b, Inr ())" by (simp add: sign_def example_options_sel)
  from next_step [OF this] have run: "CreateTransaction id Float64 ?seed example_ledger (\<lambda>_ w. (w, Inr example_address))
      (wallet_signer example_ecdsa example_compressed (\<lambda>_. MainNet) (\<lambda>_ _ _ _. Inr (Some (Some ()))) [Some example_account])
      [] [?out] [Some example_account] (Some example_account) True example_world = (w1, Inr b)"
    by (simp add: CreateTransaction_def example_options_def example_signer_def)
  obtain provider where t: "Transaction_Sign example_ecdsa example_compressed (Some provider) b1 = (b, None)"
    using b unfolding example_signer_def by (rule wallet_signer_Sign)
  have res: "Resolved b = [Some example_output]" using Transaction_Sign_Resolved [OF t] b1(3) by simp
  have paired: "paired b1" using b1(1) by (simp add: fresh_def)
  have len: "length (Inputs (Tx b)) = 1" "length (Outputs (Tx b)) = length (Outputs (Tx b1))"
    by (rule Transaction_Sign_lengths [OF example_curve paired t], simp add: b1(4))+
  then have few: "few b" using b1(2) by (simp add: few_def)
  have fee: "legacy_fee 1 0 ?out = 34" using NewPayPubKeyHashOutput_size [of "replicate 20 7" 500] by (simp add: legacy_fee_def Let_def)
  have range: "affordable 1 0 [] [?out]" "in_total b \<le> int64_max"
    using NewPayPubKeyHashOutput_size(3) [of "replicate 20 7" 500]
    by (simp_all add: affordable_def output_fees_def fee input_sizes_def int64_max_def in_total_def res example_output_def)
  have ledger: "fee_per_byte (example_ledger 0) = Inr 1" "fee_per_name_char (example_ledger 0) = Inr 0" "CoinSelectionStrategy (example_ledger 0) \<noteq> Strategy ''sqlite''"
    by (simp_all add: example_ledger_def)
  have tables: "tables_ok (example_ledger 0) 0 example_world" using ledger(3) by (simp add: tables_ok_def)
  have "1 * int (Transaction_Size b) \<le> paid_fee b \<and> ([?out] \<noteq> [] \<longrightarrow> paid_fee b \<le> 1 * (66 + input_sizes [] + 148 * (int (length (Inputs (Tx b))) - int (length ([] :: spend list)))) +
      output_fees 1 0 [?out] + 1000)"
    by (rule CreateTransaction_pays [OF example_chosen ledger(1,2) _ mt.coin_random_axioms example_curve _ tables _ run range few]) (use ledger(3) in simp_all)
  then have "int (Transaction_Size b) \<le> paid_fee b \<and> paid_fee b \<le> 1248" by (simp add: output_fees_def fee input_sizes_def len)
  with run len(1) show ?thesis by blast
qed

end
