(* ===== verification/Kademlia.thy ===== *)
theory Kademlia
  imports Prelude "HOL-Library.Multiset"
begin

text \<open>
  The XOR metric and the routing table of \<^verbatim>\<open>dht/node.go\<close>. A node identifier is a list of 48 bytes, a
  \<^verbatim>\<open>net.IP\<close> the bytes it holds, a time a number. The table is the record of the code; every method
  runs under the table's mutex, so it is one step, and returns the new table. \<^verbatim>\<open>time.Now()\<close> is an
  argument.
\<close>

section \<open>Addresses\<close>

type_synonym node_id = bytes
type_synonym ip_addr = bytes

definition v4InV6Prefix :: bytes where
  "v4InV6Prefix = replicate 10 0 @ [0xff, 0xff]"

text \<open>\<^verbatim>\<open>net.IP.To4\<close>, \<open>None\<close> for nil, and \<^verbatim>\<open>net.IP.Equal\<close>.\<close>

definition To4 :: "ip_addr \<Rightarrow> bytes option" where
  "To4 ip = (if length ip = 4 then Some ip
             else if length ip = 16 \<and> take 12 ip = v4InV6Prefix then Some (drop 12 ip)
             else None)"

definition IP_Equal :: "ip_addr \<Rightarrow> ip_addr \<Rightarrow> bool" where
  "IP_Equal ip x =
     (if length ip = length x then ip = x
      else if length ip = 4 \<and> length x = 16 then take 12 x = v4InV6Prefix \<and> ip = drop 12 x
      else if length ip = 16 \<and> length x = 4 then take 12 ip = v4InV6Prefix \<and> drop 12 ip = x
      else False)"

section \<open>The metric\<close>

abbreviation (input) HashSize :: nat where "HashSize \<equiv> 48"
abbreviation (input) K :: nat where "K \<equiv> 8"

definition Distance :: "node_id \<Rightarrow> node_id \<Rightarrow> bytes" where
  "Distance a b = map2 (XOR) a b"

fun DistanceLess :: "bytes \<Rightarrow> bytes \<Rightarrow> bool" where
  "DistanceLess (x # xs) (y # ys) = (if x < y then True else if x > y then False else DistanceLess xs ys)"
| "DistanceLess _ _ = False"

text \<open>The highest set bit of a byte, counted from the most significant one: the inner loop.\<close>

fun first_bit :: "nat \<Rightarrow> byte \<Rightarrow> nat option" where
  "first_bit 0 b = None"
| "first_bit (Suc k) b = (if bit b k then Some (7 - k) else first_bit k b)"

fun prefix_index :: "nat \<Rightarrow> bytes \<Rightarrow> nat option" where
  "prefix_index i [] = None"
| "prefix_index i (b # bs) =
     (case first_bit 8 b of Some k \<Rightarrow> Some (i * 8 + k) | None \<Rightarrow> prefix_index (Suc i) bs)"

section \<open>The routing table\<close>

record Peer =
  PeerID :: node_id
  IP :: ip_addr
  UDPPort :: int
  TCPPort :: int
  LastSeen :: int

record RoutingTable =
  selfID :: node_id
  buckets :: "Peer list list"
  failures :: "node_id \<rightharpoonup> int"

definition NewRoutingTable :: "node_id \<Rightarrow> RoutingTable" where
  "NewRoutingTable self = \<lparr>selfID = self, buckets = replicate (HashSize * 8) [], failures = Map.empty\<rparr>"

definition bucketIndex :: "RoutingTable \<Rightarrow> node_id \<Rightarrow> nat" where
  "bucketIndex rt nodeID =
     (case prefix_index 0 (Distance (selfID rt) nodeID) of Some i \<Rightarrow> i | None \<Rightarrow> HashSize * 8 - 1)"

text \<open>
  Another contact at the same endpoint. The first loop of \<^verbatim>\<open>AddPeer\<close> removes all of them, with their
  failure counts.
\<close>

definition same_endpoint :: "Peer \<Rightarrow> Peer \<Rightarrow> bool" where
  "same_endpoint p existing \<longleftrightarrow> UDPPort existing = UDPPort p \<and> IP_Equal (IP existing) (IP p)"

definition conflicts :: "Peer \<Rightarrow> Peer \<Rightarrow> bool" where
  "conflicts p existing \<longleftrightarrow> PeerID existing \<noteq> PeerID p \<and> same_endpoint p existing"

definition evict :: "Peer \<Rightarrow> RoutingTable \<Rightarrow> RoutingTable" where
  "evict p rt = rt\<lparr>buckets := map (filter (\<lambda>e. \<not> conflicts p e)) (buckets rt),
     failures := (failures rt) |` (- (PeerID ` set (filter (conflicts p) (concat (buckets rt)))))\<rparr>"

definition set_bucket :: "nat \<Rightarrow> Peer list \<Rightarrow> RoutingTable \<Rightarrow> RoutingTable" where
  "set_bucket idx peers rt = rt\<lparr>buckets := (buckets rt)[idx := peers]\<rparr>"

definition forget :: "node_id \<Rightarrow> RoutingTable \<Rightarrow> RoutingTable" where
  "forget nodeID rt = rt\<lparr>failures := (failures rt)(nodeID := None)\<rparr>"

text \<open>\<^verbatim>\<open>append(peers[:i], peers[i+1:]...)\<close> for the first peer with the identifier.\<close>

fun remove_first :: "node_id \<Rightarrow> Peer list \<Rightarrow> Peer list" where
  "remove_first i [] = []"
| "remove_first i (p # ps) = (if PeerID p = i then ps else p # remove_first i ps)"

definition has_peer :: "node_id \<Rightarrow> Peer list \<Rightarrow> bool" where
  "has_peer i ps = list_ex (\<lambda>p. PeerID p = i) ps"

definition AddPeer :: "int \<Rightarrow> RoutingTable \<Rightarrow> Peer \<Rightarrow> bool \<times> RoutingTable" where
  "AddPeer now rt p =
     (if PeerID p = selfID rt \<or> To4 (IP p) = None \<or> UDPPort p \<le> 0 \<or> UDPPort p > 65535 then (False, rt)
      else
        let rt1 = evict p rt;
            idx = bucketIndex rt1 (PeerID p);
            peers = buckets rt1 ! idx
        in case find (\<lambda>e. PeerID e = PeerID p) peers of
             Some existing \<Rightarrow>
               let updated = existing\<lparr>LastSeen := now, IP := IP p, UDPPort := UDPPort p,
                     TCPPort := (if TCPPort p > 0 then TCPPort p else TCPPort existing)\<rparr>
               in (True, forget (PeerID p) (set_bucket idx (remove_first (PeerID p) peers @ [updated]) rt1))
           | None \<Rightarrow>
               if length peers < K
               then (True, forget (PeerID p) (set_bucket idx (peers @ [p\<lparr>LastSeen := now\<rparr>]) rt1))
               else (False, rt1))"

definition RemovePeer :: "RoutingTable \<Rightarrow> node_id \<Rightarrow> bool \<times> RoutingTable" where
  "RemovePeer rt nodeID =
     (let idx = bucketIndex rt nodeID; peers = buckets rt ! idx
      in if has_peer nodeID peers
         then (True, forget nodeID (set_bucket idx (remove_first nodeID peers) rt))
         else (False, forget nodeID rt))"

definition MarkFailure :: "RoutingTable \<Rightarrow> node_id \<Rightarrow> bool \<times> RoutingTable" where
  "MarkFailure rt nodeID =
     (let n = (case failures rt nodeID of None \<Rightarrow> 0 | Some k \<Rightarrow> k) + 1;
          rt1 = rt\<lparr>failures := (failures rt)(nodeID \<mapsto> n)\<rparr>
      in if n < 2 then (False, rt1)
         else
           let idx = bucketIndex rt1 nodeID; peers = buckets rt1 ! idx
           in if has_peer nodeID peers
              then (True, forget nodeID (set_bucket idx (remove_first nodeID peers) rt1))
              else (False, forget nodeID rt1))"

definition PeerCount :: "RoutingTable \<Rightarrow> nat" where
  "PeerCount rt = sum_list (map length (buckets rt))"

definition BucketsSnapshot :: "RoutingTable \<Rightarrow> (nat \<times> Peer list) list" where
  "BucketsSnapshot rt = enumerate 0 (buckets rt)"

text \<open>
  \<^verbatim>\<open>sort.Slice\<close> with \<^verbatim>\<open>DistanceLess\<close>; the order of the bytes is the one of \<^verbatim>\<open>DistanceLess\<close>, and which
  sorting algorithm is used does not matter, since no two peers have the same distance.
\<close>

definition ClosestPeers :: "RoutingTable \<Rightarrow> node_id \<Rightarrow> nat \<Rightarrow> Peer list" where
  "ClosestPeers rt key n = take n (sort_key (\<lambda>p. Distance key (PeerID p)) (concat (buckets rt)))"

section \<open>The metric is a number\<close>

lemma be_value_Cons: "be_value (b # bs) = unat b * 256 ^ length bs + be_value bs"
  by (simp add: be_value_def le_value_append)

lemma be_value_bound: "be_value bs < 256 ^ length bs"
  using le_value_bound [of "rev bs"] by (simp add: be_value_def)

lemma length_Distance [simp]: "length a = length b \<Longrightarrow> length (Distance a b) = length a"
  by (simp add: Distance_def)

lemma DistanceLess_less: "length a = length b \<Longrightarrow> DistanceLess a b \<longleftrightarrow> a < b"
proof (induction a b rule: list_induct2)
  case (Cons x xs y ys)
  then show ?case by (cases x y rule: linorder_cases) auto
qed simp

lemma be_value_less_iff:
  "length a = length b \<Longrightarrow> DistanceLess a b \<longleftrightarrow> be_value a < be_value b"
proof (induction a b rule: list_induct2)
  case (Cons x xs y ys)
  let ?m = "256 ^ length xs"
  have bounds: "be_value xs < ?m" "be_value ys < ?m"
    using be_value_bound [of xs] be_value_bound [of ys] Cons.hyps by simp_all
  have step: "unat u * ?m + k < unat v * ?m + l" if "unat u < unat v" "k < ?m" for u v :: byte and k l
  proof -
    have "unat u * ?m + k < (unat u + 1) * ?m" using that(2) by simp
    also have "\<dots> \<le> unat v * ?m" using that(1) by (intro mult_le_mono1) simp
    finally show ?thesis by simp
  qed
  consider "x < y" | "x = y" | "y < x" by (meson linorder_less_linear)
  then show ?case
  proof cases
    case 1
    with step [of x y] bounds show ?thesis using Cons.hyps by (simp add: be_value_Cons word_less_nat_alt)
  next
    case 2
    with Cons show ?thesis by (simp add: be_value_Cons)
  next
    case 3
    with step [of y x "be_value ys" "be_value xs"] bounds show ?thesis
      using Cons.hyps by (auto simp: be_value_Cons word_less_nat_alt)
  qed
qed simp

lemma Distance_sym: "Distance a b = Distance b a"
  unfolding Distance_def by (induction a b rule: list_induct2') (simp_all add: xor.commute)

lemma Distance_inject:
  "length a = length key \<Longrightarrow> length b = length key \<Longrightarrow> Distance key a = Distance key b \<longleftrightarrow> a = b"
proof (induction key arbitrary: a b)
  case (Cons x key)
  then obtain y a' z b' where ab: "a = y # a'" "b = z # b'" by (auto simp: length_Suc_conv)
  have "x XOR y = x XOR z \<Longrightarrow> y = z" by (drule arg_cong [of _ _ "\<lambda>u. x XOR u"]) (simp flip: xor.assoc)
  with Cons ab show ?case by (auto simp: Distance_def)
qed simp

lemma Distance_eq_zero: "length a = length b \<Longrightarrow> be_value (Distance a b) = 0 \<longleftrightarrow> a = b"
proof (induction a b rule: list_induct2)
  case (Cons x xs y ys)
  have "x XOR y = 0 \<Longrightarrow> x = y" by (drule arg_cong [of _ _ "\<lambda>u. x XOR u"]) (simp flip: xor.assoc)
  then have "x XOR y = 0 \<longleftrightarrow> x = y" by auto
  with Cons show ?case
    by (simp add: Distance_def be_value_Cons unat_eq_0)
qed (simp add: Distance_def be_value_def)

lemma first_bit_Some:
  "first_bit n b = Some k \<Longrightarrow> n \<le> 8 \<Longrightarrow>
     \<exists>m < n. k = 7 - m \<and> bit b m \<and> (\<forall>j. m < j \<longrightarrow> j < n \<longrightarrow> \<not> bit b j)"
  by (induction n b rule: first_bit.induct) (auto split: if_splits simp: less_Suc_eq)

lemma first_bit_None: "first_bit n b = None \<Longrightarrow> \<forall>j < n. \<not> bit b j"
  by (induction n b rule: first_bit.induct) (auto split: if_splits simp: less_Suc_eq)

lemma first_bit_8:
  "first_bit 8 b = None \<Longrightarrow> b = 0"
  "first_bit 8 b = Some k \<Longrightarrow> k < 8 \<and> 2 ^ (7 - k) \<le> unat b \<and> unat b < 2 ^ (8 - k)"
proof -
  have high: "\<not> bit b j" if "8 \<le> j" for j using that bit_imp_le_length [of b j] by auto
  show "first_bit 8 b = None \<Longrightarrow> b = 0"
    using first_bit_None [of 8 b] by (intro bit_eqI) simp
  assume "first_bit 8 b = Some k"
  then obtain m where m: "m < 8" "k = 7 - m" "bit b m" and above: "\<forall>j. m < j \<longrightarrow> j < 8 \<longrightarrow> \<not> bit b j"
    using first_bit_Some [of 8 b k] by auto
  have "odd (unat b div 2 ^ m)" using m(3) by (simp add: bit_iff_odd [symmetric] bit_unsigned_iff)
  then have "1 \<le> unat b div 2 ^ m" by (cases "unat b div 2 ^ m") auto
  then have "2 ^ m \<le> unat b" by (intro leI notI) simp
  moreover have "take_bit (Suc m) b = b"
    using above high by (intro bit_eqI) (auto simp: bit_take_bit_iff less_Suc_eq_le not_le intro: ccontr)
  then have "unat b < 2 ^ Suc m" 
    using take_bit_nat_less_exp [of "Suc m" "unat b"] by (simp flip: unsigned_take_bit_eq)
  moreover have "7 - k = m" "8 - k = Suc m" "k < 8" using m by auto
  ultimately show "k < 8 \<and> 2 ^ (7 - k) \<le> unat b \<and> unat b < 2 ^ (8 - k)" by simp
qed
lemma prefix_index_zero: "prefix_index i bs = None \<longleftrightarrow> (\<forall>b\<in>set bs. b = 0)"
proof (induction i bs rule: prefix_index.induct)
  case (2 i b bs)
  have "first_bit 8 0 = None" by code_simp
  with 2 first_bit_8(1) [of b] show ?case by (auto split: option.splits)
qed simp

lemma prefix_index_range:
  "prefix_index i bs = Some k \<Longrightarrow>
     8 * i \<le> k \<and> k < 8 * (i + length bs) \<and>
     2 ^ (8 * (i + length bs) - 1 - k) \<le> be_value bs \<and> be_value bs < 2 ^ (8 * (i + length bs) - k)"
proof (induction i bs arbitrary: k rule: prefix_index.induct)
  case (2 i b bs)
  let ?n = "length bs"
  have pow: "(256 :: nat) ^ ?n = 2 ^ (8 * ?n)" by (simp add: power_mult)
  show ?case
  proof (cases "first_bit 8 b")
    case None
    with 2(1) [OF None] 2(2) first_bit_8(1) [OF None] show ?thesis by (auto simp: be_value_Cons)
  next
    case (Some m)
    with 2(2) have k: "k = i * 8 + m" by simp
    from first_bit_8(2) [OF Some] have m: "m < 8" and lo: "2 ^ (7 - m) \<le> unat b" and hi: "unat b + 1 \<le> 2 ^ (8 - m)" by auto
    have e: "8 * (i + length (b # bs)) - 1 - k = (7 - m) + 8 * ?n" "8 * (i + length (b # bs)) - k = (8 - m) + 8 * ?n"
      using m by (simp_all add: k)
    have "2 ^ (7 - m) * 2 ^ (8 * ?n) \<le> unat b * 2 ^ (8 * ?n) + be_value bs"
      using lo by (intro trans_le_add1 mult_le_mono1)
    moreover have "unat b * 2 ^ (8 * ?n) + be_value bs < (unat b + 1) * 2 ^ (8 * ?n)"
      using be_value_bound [of bs] by (simp add: pow)
    moreover have "(unat b + 1) * 2 ^ (8 * ?n) \<le> 2 ^ (8 - m) * 2 ^ (8 * ?n)" using hi by (intro mult_le_mono1)
    moreover have "8 * i \<le> k" "k < 8 * (i + length (b # bs))" using m k by auto
    ultimately show ?thesis unfolding e power_add be_value_Cons pow by (meson less_le_trans)
  qed
qed simp

lemma be_value_zeros: "\<forall>b\<in>set bs. b = 0 \<Longrightarrow> be_value bs = 0"
  by (induction bs) (simp_all add: be_value_Cons, simp add: be_value_def)

lemma bucketIndex_less: "length (selfID rt) = 48 \<Longrightarrow> length nodeID = 48 \<Longrightarrow> bucketIndex rt nodeID < 384"
  using prefix_index_range [of 0 "Distance (selfID rt) nodeID"] by (auto simp: bucketIndex_def split: option.split)

text \<open>
  C28. The bucket of a node is the number of leading bits its identifier shares with the own one: the
  distance of a node in bucket \<open>i\<close>, read as a big-endian number, is between \<open>2^(383-i)\<close> and
  \<open>2^(384-i)\<close>; it is the only bucket with that property, and distances compare as these numbers do.
\<close>

theorem bucketIndex_correct:
  assumes "length (selfID rt) = 48" and "length nodeID = 48" and "nodeID \<noteq> selfID rt" and "length e = 48"
  defines "i \<equiv> bucketIndex rt nodeID" and "d \<equiv> Distance (selfID rt) nodeID"
  shows "i < 384 \<and> 2 ^ (383 - i) \<le> be_value d \<and> be_value d < 2 ^ (384 - i) \<and>
    (DistanceLess d e \<longleftrightarrow> be_value d < be_value e)"
proof -
  have len: "length d = 48" using assms(1,2) by (simp add: d_def)
  have "be_value d \<noteq> 0" using Distance_eq_zero [of "selfID rt" nodeID] assms by (auto simp: d_def)
  then have "prefix_index 0 d \<noteq> None" unfolding prefix_index_zero by (metis be_value_zeros)
  then have "prefix_index 0 d = Some i" by (auto simp: i_def bucketIndex_def d_def)
  from prefix_index_range [OF this] len be_value_less_iff [of d e] assms(4) show ?thesis by simp
qed

theorem bucketIndex_correct_witness:
  defines "rt \<equiv> NewRoutingTable (replicate 48 0)"
  defines "i \<equiv> bucketIndex rt (replicate 47 0 @ [6])" and "d \<equiv> Distance (selfID rt) (replicate 47 0 @ [6])"
  shows "i = 381 \<and> 2 ^ (383 - i) \<le> be_value d \<and> be_value d < 2 ^ (384 - i) \<and>
    (DistanceLess d (replicate 48 1) \<longleftrightarrow> be_value d < be_value (replicate 48 1))"
proof -
  have "i = 381" unfolding i_def rt_def by code_simp
  moreover have "replicate 47 0 @ [6] \<noteq> (replicate 48 0 :: bytes)" by code_simp
  ultimately show ?thesis using bucketIndex_correct [of rt "replicate 47 0 @ [6]" "replicate 48 1"]
    unfolding i_def d_def rt_def by (simp add: NewRoutingTable_def)
qed
section \<open>The invariant of the table\<close>

definition contacts :: "RoutingTable \<Rightarrow> Peer set" where
  "contacts rt = set (concat (buckets rt))"

definition peer_ok :: "RoutingTable \<Rightarrow> nat \<Rightarrow> Peer \<Rightarrow> bool" where
  "peer_ok rt i p \<longleftrightarrow> length (PeerID p) = 48 \<and> PeerID p \<noteq> selfID rt \<and> bucketIndex rt (PeerID p) = i \<and>
     To4 (IP p) \<noteq> None \<and> 0 < UDPPort p \<and> UDPPort p \<le> 65535"

definition bucket_ok :: "RoutingTable \<Rightarrow> nat \<Rightarrow> bool" where
  "bucket_ok rt i \<longleftrightarrow> length (buckets rt ! i) \<le> K \<and> distinct (map PeerID (buckets rt ! i)) \<and>
     (\<forall>p\<in>set (buckets rt ! i). peer_ok rt i p)"

text \<open>
  Every bucket holds at most \<open>K\<close> valid contacts, each in the bucket of its distance and once; no two
  contacts have the same endpoint.
\<close>

definition rt_inv :: "RoutingTable \<Rightarrow> bool" where
  "rt_inv rt \<longleftrightarrow> length (selfID rt) = 48 \<and> length (buckets rt) = 384 \<and> (\<forall>i < 384. bucket_ok rt i) \<and>
     (\<forall>p\<in>contacts rt. \<forall>q\<in>contacts rt. \<not> conflicts p q)"

lemma IP_Equal_sym: "IP_Equal a b = IP_Equal b a"
  by (auto simp: IP_Equal_def)

lemma conflicts_sym: "conflicts p q = conflicts q p"
  unfolding conflicts_def same_endpoint_def using IP_Equal_sym by metis

lemma contacts_iff: "p \<in> contacts rt \<longleftrightarrow> (\<exists>i < length (buckets rt). p \<in> set (buckets rt ! i))"
  by (simp add: contacts_def) (metis in_set_conv_nth)

lemma bucketIndex_cong: "selfID rt = selfID rt' \<Longrightarrow> bucketIndex rt = bucketIndex rt'"
  by (rule ext) (simp add: bucketIndex_def)

lemma peer_ok_cong: "selfID rt = selfID rt' \<Longrightarrow> peer_ok rt = peer_ok rt'"
  by (intro ext) (simp add: peer_ok_def bucketIndex_cong [of rt rt'])

lemma update_sel [simp]:
  "selfID (set_bucket i ps rt) = selfID rt" "selfID (forget n rt) = selfID rt" "selfID (evict p rt) = selfID rt"
  "buckets (set_bucket i ps rt) = (buckets rt)[i := ps]" "buckets (forget n rt) = buckets rt"
  "buckets (evict p rt) = map (filter (\<lambda>e. \<not> conflicts p e)) (buckets rt)"
  "bucketIndex (set_bucket i ps rt) = bucketIndex rt" "bucketIndex (forget n rt) = bucketIndex rt"
  "bucketIndex (evict p rt) = bucketIndex rt"
  by (auto simp: set_bucket_def forget_def evict_def intro!: bucketIndex_cong)

lemma remove_first_facts:
  "length (remove_first n ps) \<le> length ps" "set (remove_first n ps) \<subseteq> set ps"
  "distinct (map PeerID ps) \<Longrightarrow> set (remove_first n ps) = {p \<in> set ps. PeerID p \<noteq> n}"
  "has_peer n ps \<Longrightarrow> Suc (length (remove_first n ps)) = length ps"
  by (induction ps) (auto simp: has_peer_def rev_image_eqI)

lemma remove_first_distinct: "distinct (map PeerID ps) \<Longrightarrow> distinct (map PeerID (remove_first n ps))"
  using remove_first_facts(2) by (induction ps) auto

lemma rt_inv_failures: "rt_inv (rt\<lparr>failures := f\<rparr>) = rt_inv rt"
proof -
  have "peer_ok (rt\<lparr>failures := f\<rparr>) = peer_ok rt" by (rule peer_ok_cong) simp
  then show ?thesis by (simp add: rt_inv_def bucket_ok_def contacts_def)
qed

lemma rt_inv_forget [simp]: "rt_inv (forget n rt) = rt_inv rt"
  by (simp add: forget_def rt_inv_failures)

lemma rt_inv_set_bucket:
  assumes "rt_inv rt" and "i < 384" and "length ps \<le> K" and "distinct (map PeerID ps)"
    and "\<And>p. p \<in> set ps \<Longrightarrow> peer_ok rt i p"
    and "\<And>p q. p \<in> set ps \<Longrightarrow> q \<in> set ps \<union> contacts rt \<Longrightarrow> \<not> conflicts p q"
  shows "rt_inv (set_bucket i ps rt)"
proof -
  have ok: "peer_ok (set_bucket i ps rt) = peer_ok rt" by (rule peer_ok_cong) simp
  have len: "length (buckets rt) = 384" using assms(1) by (simp add: rt_inv_def)
  have "bucket_ok (set_bucket i ps rt) j" if "j < 384" for j
    using assms that by (cases "j = i") (simp_all add: bucket_ok_def ok len rt_inv_def)
  moreover have "contacts (set_bucket i ps rt) \<subseteq> set ps \<union> contacts rt"
    by (auto simp: contacts_def dest!: set_update_subset_insert [THEN subsetD])
  moreover have "\<not> conflicts p q" if p: "p \<in> set ps \<union> contacts rt" and q: "q \<in> set ps \<union> contacts rt" for p q
  proof -
    consider "p \<in> set ps" | "q \<in> set ps" | "p \<in> contacts rt" "q \<in> contacts rt" using p q by blast
    then show ?thesis
    proof cases
      case 2
      then show ?thesis using assms(6) [of q p] p conflicts_sym [of p q] by simp
    qed (use assms(1,6) p q in \<open>auto simp: rt_inv_def\<close>)
  qed
  ultimately show ?thesis using assms(1) len unfolding rt_inv_def by (simp add: subset_iff)
qed

lemma rt_inv_new: "length self = 48 \<Longrightarrow> rt_inv (NewRoutingTable self)"
  by (simp add: rt_inv_def NewRoutingTable_def bucket_ok_def contacts_def)

lemma evict_contacts: "contacts (evict p rt) = {q \<in> contacts rt. \<not> conflicts p q}"
  by (auto simp: contacts_def)

lemma rt_inv_evict: "rt_inv rt \<Longrightarrow> rt_inv (evict p rt)"
proof -
  assume inv: "rt_inv rt"
  have ok: "peer_ok (evict p rt) = peer_ok rt" by (rule peer_ok_cong) simp
  have "bucket_ok (evict p rt) i" if "i < 384" for i
    using inv that by (auto simp: rt_inv_def bucket_ok_def ok intro: le_trans [OF length_filter_le] distinct_map_filter)
  with inv show ?thesis by (auto simp: rt_inv_def evict_contacts)
qed

lemma rt_inv_remove:
  assumes "rt_inv rt" and "i < 384"
  shows "rt_inv (set_bucket i (remove_first n (buckets rt ! i)) rt)"
proof (rule rt_inv_set_bucket [OF assms])
  let ?b = "buckets rt ! i"
  have b: "bucket_ok rt i" and len: "length (buckets rt) = 384" using assms by (auto simp: rt_inv_def)
  then show "length (remove_first n ?b) \<le> K" "distinct (map PeerID (remove_first n ?b))"
    using remove_first_facts(1) remove_first_distinct by (auto simp: bucket_ok_def intro: le_trans)
  show "peer_ok rt i p" if "p \<in> set (remove_first n ?b)" for p
    using that b remove_first_facts(2) by (auto simp: bucket_ok_def)
  have "set (remove_first n ?b) \<subseteq> contacts rt"
    using remove_first_facts(2) assms(2) len by (fastforce simp: contacts_iff)
  then show "\<not> conflicts p q" if "p \<in> set (remove_first n ?b)" "q \<in> set (remove_first n ?b) \<union> contacts rt" for p q
    using that assms(1) by (auto simp: rt_inv_def)
qed
lemma find_peer_None: "find (\<lambda>e. PeerID e = n) ps = None \<longleftrightarrow> \<not> has_peer n ps"
  by (auto simp: find_None_iff has_peer_def list_ex_iff)

text \<open>\<^verbatim>\<open>AddPeer\<close>, case by case: refused, refreshed at the end of its bucket, appended, or no room.\<close>

lemma AddPeer_cases:
  fixes rt p
  defines "rt1 \<equiv> evict p rt" and "i \<equiv> bucketIndex rt (PeerID p)"
  obtains (invalid) "PeerID p = selfID rt \<or> To4 (IP p) = None \<or> UDPPort p \<le> 0 \<or> UDPPort p > 65535"
      "AddPeer now rt p = (False, rt)"
    | (known) e where "e \<in> set (buckets rt1 ! i)" "PeerID e = PeerID p"
      "PeerID p \<noteq> selfID rt" "To4 (IP p) \<noteq> None" "0 < UDPPort p" "UDPPort p \<le> 65535"
      "AddPeer now rt p = (True, forget (PeerID p) (set_bucket i (remove_first (PeerID p) (buckets rt1 ! i) @
         [e\<lparr>LastSeen := now, IP := IP p, UDPPort := UDPPort p,
            TCPPort := (if TCPPort p > 0 then TCPPort p else TCPPort e)\<rparr>]) rt1))"
    | (new) "\<not> has_peer (PeerID p) (buckets rt1 ! i)" "length (buckets rt1 ! i) < K"
      "PeerID p \<noteq> selfID rt" "To4 (IP p) \<noteq> None" "0 < UDPPort p" "UDPPort p \<le> 65535"
      "AddPeer now rt p = (True, forget (PeerID p) (set_bucket i (buckets rt1 ! i @ [p\<lparr>LastSeen := now\<rparr>]) rt1))"
    | (full) "\<not> has_peer (PeerID p) (buckets rt1 ! i)" "\<not> length (buckets rt1 ! i) < K"
      "PeerID p \<noteq> selfID rt" "To4 (IP p) \<noteq> None" "0 < UDPPort p" "UDPPort p \<le> 65535"
      "AddPeer now rt p = (False, rt1)"
proof (cases "PeerID p = selfID rt \<or> To4 (IP p) = None \<or> UDPPort p \<le> 0 \<or> UDPPort p > 65535")
  case True
  then show ?thesis by (intro invalid) (auto simp: AddPeer_def)
next
  case False
  then have valid: "PeerID p \<noteq> selfID rt" "To4 (IP p) \<noteq> None" "0 < UDPPort p" "UDPPort p \<le> 65535" by auto
  let ?b = "buckets rt1 ! i"
  have add: "AddPeer now rt p = (case find (\<lambda>e. PeerID e = PeerID p) ?b of
      Some existing \<Rightarrow> (True, forget (PeerID p) (set_bucket i (remove_first (PeerID p) ?b @
         [existing\<lparr>LastSeen := now, IP := IP p, UDPPort := UDPPort p,
            TCPPort := (if TCPPort p > 0 then TCPPort p else TCPPort existing)\<rparr>]) rt1))
    | None \<Rightarrow> if length ?b < K then (True, forget (PeerID p) (set_bucket i (?b @ [p\<lparr>LastSeen := now\<rparr>]) rt1))
        else (False, rt1))"
    using False by (auto simp: AddPeer_def Let_def rt1_def i_def split: option.split)
  show ?thesis
  proof (cases "find (\<lambda>e. PeerID e = PeerID p) ?b")
    case None
    then have nh: "\<not> has_peer (PeerID p) ?b" by (simp add: find_peer_None)
    show ?thesis
    proof (cases "length ?b < K")
      case True
      with add None show ?thesis by (intro new [OF nh True valid]) simp
    next
      case False
      with add None show ?thesis by (intro full [OF nh False valid]) simp
    qed
  next
    case (Some e)
    then have "e \<in> set ?b" "PeerID e = PeerID p" by (auto simp: find_Some_iff)
    then show ?thesis using known valid add Some by simp
  qed
qed

text \<open>Where a contact may stand after the others at its endpoint have been evicted.\<close>

lemma rt_inv_place:
  assumes inv: "rt_inv rt" and i: "i = bucketIndex rt (PeerID q)" and q: "peer_ok rt i q"
    and ps: "set ps \<subseteq> set (buckets rt ! i)" "length ps < K" "distinct (map PeerID ps)" "PeerID q \<notin> PeerID ` set ps"
    and free: "\<And>x. x \<in> contacts rt \<Longrightarrow> \<not> conflicts q x"
  shows "rt_inv (set_bucket i (ps @ [q]) rt)"
proof -
  have "i < 384" using inv q by (simp add: i rt_inv_def peer_ok_def bucketIndex_less)
  then have b: "bucket_ok rt i" and sub: "set ps \<subseteq> contacts rt"
    using inv ps(1) by (auto simp: rt_inv_def contacts_iff intro!: exI [of _ i])
  show ?thesis
  proof (rule rt_inv_set_bucket [OF inv \<open>i < 384\<close>])
    fix x y assume x: "x \<in> set (ps @ [q])" and y: "y \<in> set (ps @ [q]) \<union> contacts rt"
    have self: "\<not> conflicts q q" by (simp add: conflicts_def)
    consider "x = q" | "x \<in> contacts rt" "y = q" | "x \<in> contacts rt" "y \<in> contacts rt" using x y sub by auto
    then show "\<not> conflicts x y"
    proof cases
      case 1
      then show ?thesis using y sub free self by auto
    next
      case 2
      then show ?thesis using free conflicts_sym by auto
    next
      case 3
      then show ?thesis using inv by (simp add: rt_inv_def)
    qed
  qed (use b ps q in \<open>auto simp: bucket_ok_def\<close>)
qed

lemma rt_inv_AddPeer:
  assumes inv: "rt_inv rt" and len: "length (PeerID p) = 48"
  shows "rt_inv (snd (AddPeer now rt p))"
proof -
  let ?rt1 = "evict p rt" let ?i = "bucketIndex rt (PeerID p)" let ?b = "buckets ?rt1 ! ?i"
  have inv1: "rt_inv ?rt1" using inv by (rule rt_inv_evict)
  then have i: "?i < 384" using len by (simp add: rt_inv_def bucketIndex_less)
  then have b: "bucket_ok ?rt1 ?i" using inv1 by (simp add: rt_inv_def)
  have free: "\<not> conflicts q x" if "x \<in> contacts ?rt1" "PeerID q = PeerID p" "IP q = IP p" "UDPPort q = UDPPort p" for q x
    using that by (simp add: evict_contacts conflicts_def same_endpoint_def)
  show ?thesis
  proof (cases rule: AddPeer_cases [of p rt now])
    case (known e)
    have has: "has_peer (PeerID p) ?b" using known(1,2) by (auto simp: has_peer_def list_ex_iff)
    have "length (remove_first (PeerID p) ?b) < K"
      using remove_first_facts(4) [OF has] b by (simp add: bucket_ok_def)
    moreover have "PeerID p \<notin> PeerID ` set (remove_first (PeerID p) ?b)"
      using remove_first_facts(3) [of ?b "PeerID p"] b by (auto simp: bucket_ok_def)
    moreover have "set (remove_first (PeerID p) ?b) \<subseteq> set ?b" by (rule remove_first_facts(2))
    moreover have "distinct (map PeerID (remove_first (PeerID p) ?b))"
      using b by (intro remove_first_distinct) (simp add: bucket_ok_def)
    ultimately show ?thesis
      unfolding known(7) snd_conv rt_inv_forget
      using known(2-6) len by (intro rt_inv_place [OF inv1] free) (simp_all add: peer_ok_def)
  next
    case new
    moreover have "distinct (map PeerID ?b)" using b by (simp add: bucket_ok_def)
    moreover have "PeerID p \<notin> PeerID ` set ?b" using new(1) by (auto simp: has_peer_def list_ex_iff)
    ultimately show ?thesis
      unfolding new(7) snd_conv rt_inv_forget
      using len by (intro rt_inv_place [OF inv1] free) (simp_all add: peer_ok_def)
  qed (use inv inv1 in simp_all)
qed

lemma rt_inv_bucketIndex: "rt_inv rt \<Longrightarrow> length n = 48 \<Longrightarrow> bucketIndex rt n < 384"
  by (simp add: rt_inv_def bucketIndex_less)

lemma rt_inv_RemovePeer: "rt_inv rt \<Longrightarrow> length n = 48 \<Longrightarrow> rt_inv (snd (RemovePeer rt n))"
  by (simp add: RemovePeer_def Let_def rt_inv_remove rt_inv_bucketIndex)

lemma rt_inv_MarkFailure:
  assumes "rt_inv rt" and "length n = 48"
  shows "rt_inv (snd (MarkFailure rt n))"
proof -
  have "rt_inv (rt\<lparr>failures := f\<rparr>)" for f using assms(1) by (simp add: rt_inv_failures)
  then have "rt_inv (set_bucket i (remove_first n (buckets rt ! i)) (rt\<lparr>failures := f\<rparr>))" if "i < 384" for f i
    using rt_inv_remove [of "rt\<lparr>failures := f\<rparr>" i n] that by simp
  moreover have "bucketIndex (rt\<lparr>failures := f\<rparr>) n < 384" for f
    using assms rt_inv_bucketIndex by (simp add: rt_inv_failures)
  ultimately show ?thesis using assms(1) by (simp add: MarkFailure_def Let_def rt_inv_failures)
qed
section \<open>Reachable tables\<close>

inductive rt_reachable :: "node_id \<Rightarrow> RoutingTable \<Rightarrow> bool" for self where
  new: "rt_reachable self (NewRoutingTable self)"
| add: "rt_reachable self rt \<Longrightarrow> length (PeerID p) = 48 \<Longrightarrow> AddPeer now rt p = (ok, rt') \<Longrightarrow> rt_reachable self rt'"
| remove: "rt_reachable self rt \<Longrightarrow> length n = 48 \<Longrightarrow> RemovePeer rt n = (ok, rt') \<Longrightarrow> rt_reachable self rt'"
| failure: "rt_reachable self rt \<Longrightarrow> length n = 48 \<Longrightarrow> MarkFailure rt n = (ok, rt') \<Longrightarrow> rt_reachable self rt'"

lemma AddPeer_selfID [simp]: "selfID (snd (AddPeer now rt p)) = selfID rt"
  by (cases rule: AddPeer_cases [of p rt now]) simp_all

lemma RemovePeer_selfID [simp]: "selfID (snd (RemovePeer rt n)) = selfID rt"
  by (simp add: RemovePeer_def Let_def)

lemma MarkFailure_selfID [simp]: "selfID (snd (MarkFailure rt n)) = selfID rt"
  by (simp add: MarkFailure_def Let_def)

lemma rt_reachable_inv: "rt_reachable self rt \<Longrightarrow> length self = 48 \<Longrightarrow> rt_inv rt \<and> selfID rt = self"
proof (induction rule: rt_reachable.induct)
  case new
  then show ?case by (simp add: rt_inv_new) (simp add: NewRoutingTable_def)
next
  case (add rt p now ok rt')
  then show ?case using rt_inv_AddPeer [of rt p now] AddPeer_selfID [of now rt p] by simp
next
  case (remove rt n ok rt')
  then show ?case using rt_inv_RemovePeer [of rt n] RemovePeer_selfID [of rt n] by simp
next
  case (failure rt n ok rt')
  then show ?case using rt_inv_MarkFailure [of rt n] MarkFailure_selfID [of rt n] by simp
qed

lemma bucket_of_contact:
  assumes "rt_inv rt" and "p \<in> contacts rt"
  shows "p \<in> set (buckets rt ! bucketIndex rt (PeerID p))"
proof -
  from assms obtain i where "i < 384" "p \<in> set (buckets rt ! i)" by (auto simp: contacts_iff rt_inv_def)
  moreover from this assms(1) have "bucketIndex rt (PeerID p) = i" by (auto simp: rt_inv_def bucket_ok_def peer_ok_def)
  ultimately show ?thesis by simp
qed

lemma in_bucket_iff:
  assumes "rt_inv rt" and "i < 384"
  shows "q \<in> set (buckets rt ! i) \<longleftrightarrow> q \<in> contacts rt \<and> bucketIndex rt (PeerID q) = i"
proof
  assume "q \<in> set (buckets rt ! i)"
  with assms show "q \<in> contacts rt \<and> bucketIndex rt (PeerID q) = i"
    unfolding rt_inv_def bucket_ok_def peer_ok_def contacts_iff by auto
qed (use bucket_of_contact [OF assms(1)] in auto)

lemma contacts_inj: "rt_inv rt \<Longrightarrow> inj_on PeerID (contacts rt)"
proof (rule inj_onI)
  fix p q assume inv: "rt_inv rt" and "p \<in> contacts rt" "q \<in> contacts rt" and eq: "PeerID p = PeerID q"
  let ?b = "buckets rt ! bucketIndex rt (PeerID p)"
  have "p \<in> set ?b" "q \<in> set ?b"
    using bucket_of_contact [OF inv \<open>p \<in> contacts rt\<close>] bucket_of_contact [OF inv \<open>q \<in> contacts rt\<close>] eq by simp_all
  moreover have "distinct (map PeerID ?b)"
    using inv \<open>p \<in> contacts rt\<close> by (auto simp: rt_inv_def bucket_ok_def contacts_iff peer_ok_def)
  ultimately show "p = q" using eq by (auto simp: distinct_map inj_on_def)
qed

lemma sum_list_bound: "\<forall>x\<in>set xs. x \<le> (k :: nat) \<Longrightarrow> sum_list xs \<le> k * length xs"
  by (induction xs) auto

lemma PeerCount_length: "PeerCount rt = length (concat (buckets rt))"
  by (simp add: PeerCount_def length_concat)

lemma contacts_distinct:
  assumes inv: "rt_inv rt"
  shows "distinct (concat (buckets rt))"
proof -
  have bs: "distinct (buckets rt ! i)" "\<forall>p\<in>set (buckets rt ! i). bucketIndex rt (PeerID p) = i" if "i < 384" for i
    using inv that by (auto simp: rt_inv_def bucket_ok_def peer_ok_def distinct_map)
  have len: "length (buckets rt) = 384" using inv by (simp add: rt_inv_def)
  have "distinct (concat (map (\<lambda>i. buckets rt ! i) xs))" if "set xs \<subseteq> {..<384}" "distinct xs" for xs
    using that
  proof (induction xs)
    case (Cons i xs)
    have disj: "set (buckets rt ! i) \<inter> set (buckets rt ! j) = {}" if "j \<in> set xs" for j
    proof -
      have "i < 384" "j < 384" "j \<noteq> i" using Cons.prems that by auto
      then show ?thesis using bs(2) [of i] bs(2) [of j] by auto
    qed
    then have "set (buckets rt ! i) \<inter> set (concat (map (\<lambda>i. buckets rt ! i) xs)) = {}"
      unfolding disjoint_iff by auto
    with Cons bs(1) [of i] show ?case by (simp del: set_concat)
  qed simp
  from this [of "[0..<384]"] have "distinct (concat (map (\<lambda>i. buckets rt ! i) [0..<384]))"
    by (simp add: lessThan_atLeast0)
  then show ?thesis by (simp add: len [symmetric] map_nth)
qed

text \<open>
  C29. Every table that the methods can build, starting from \<^verbatim>\<open>NewRoutingTable\<close>, keeps its invariant: at
  most \<open>K\<close> contacts per bucket, each valid and in the bucket of its distance, no identifier and no
  endpoint twice. \<^verbatim>\<open>PeerCount\<close> is the number of different identifiers, at most 3072.
\<close>

theorem rt_reachable_invariant:
  assumes "rt_reachable self rt" and "length self = 48"
  shows "rt_inv rt \<and> selfID rt = self \<and> PeerCount rt = card (PeerID ` contacts rt) \<and> PeerCount rt \<le> 3072"
proof -
  from rt_reachable_inv [OF assms] have inv: "rt_inv rt" and self: "selfID rt = self" by simp_all
  have "PeerCount rt = card (contacts rt)"
    using contacts_distinct [OF inv] by (simp add: PeerCount_length contacts_def distinct_card del: set_concat)
  also have "\<dots> = card (PeerID ` contacts rt)" using contacts_inj [OF inv] by (simp add: card_image)
  finally have "PeerCount rt = card (PeerID ` contacts rt)" .
  moreover have "\<forall>b\<in>set (buckets rt). length b \<le> 8"
    using inv by (auto simp: rt_inv_def bucket_ok_def in_set_conv_nth)
  then have "PeerCount rt \<le> 8 * length (buckets rt)"
    unfolding PeerCount_def using sum_list_bound [of "map length (buckets rt)" 8] by simp
  ultimately show ?thesis using inv self by (simp add: rt_inv_def)
qed

definition example_peer :: Peer where
  "example_peer = \<lparr>PeerID = replicate 47 0 @ [6], IP = [127, 0, 0, 1], UDPPort = 4444, TCPPort = 3333, LastSeen = 0\<rparr>"

theorem rt_reachable_invariant_witness:
  defines "rt \<equiv> snd (AddPeer 9 (NewRoutingTable (replicate 48 0)) example_peer)"
  shows "rt_inv rt \<and> selfID rt = replicate 48 0 \<and> PeerCount rt = card (PeerID ` contacts rt) \<and> PeerCount rt \<le> 3072"
proof (rule rt_reachable_invariant)
  show "rt_reachable (replicate 48 0) rt"
    by (rule rt_reachable.add [where p = example_peer and now = 9 and ok = "fst (AddPeer 9 (NewRoutingTable (replicate 48 0)) example_peer)",
          OF rt_reachable.new]) (simp_all add: rt_def example_peer_def)
qed simp
section \<open>What the methods do\<close>

lemma bucketIndex_contact: "rt_inv rt \<Longrightarrow> q \<in> contacts rt \<Longrightarrow> bucketIndex rt (PeerID q) < 384"
  by (auto simp: contacts_iff rt_inv_def bucket_ok_def peer_ok_def)

lemma contacts_set_bucket:
  assumes "rt_inv rt" and "i < 384"
  shows "contacts (set_bucket i ps rt) = {q \<in> contacts rt. bucketIndex rt (PeerID q) \<noteq> i} \<union> set ps"
proof (rule set_eqI)
  fix q
  have len: "length (buckets rt) = 384" using assms(1) by (simp add: rt_inv_def)
  have "q \<in> contacts (set_bucket i ps rt) \<longleftrightarrow> (\<exists>j < 384. q \<in> set (if j = i then ps else buckets rt ! j))"
    using len by (auto simp: contacts_iff nth_list_update)
  also have "\<dots> \<longleftrightarrow> (\<exists>j < 384. if j = i then q \<in> set ps else q \<in> contacts rt \<and> bucketIndex rt (PeerID q) = j)"
    using in_bucket_iff [OF assms(1)] by (auto split: if_splits)
  also have "\<dots> \<longleftrightarrow> q \<in> {q \<in> contacts rt. bucketIndex rt (PeerID q) \<noteq> i} \<union> set ps"
    using assms(2) len bucketIndex_contact [OF assms(1)] by (auto split: if_splits)
  finally show "q \<in> contacts (set_bucket i ps rt) \<longleftrightarrow>
      q \<in> {q \<in> contacts rt. bucketIndex rt (PeerID q) \<noteq> i} \<union> set ps" .
qed

lemma contacts_forget [simp]: "contacts (forget n rt) = contacts rt" "contacts (rt\<lparr>failures := f\<rparr>) = contacts rt"
  by (simp_all add: contacts_def)

lemma bucketIndex_failures [simp]: "bucketIndex (rt\<lparr>failures := f\<rparr>) = bucketIndex rt"
  by (rule bucketIndex_cong) simp

lemma failures_sel [simp]: "failures (forget n rt) n = None" "failures (set_bucket i ps rt) = failures rt"
  by (simp_all add: forget_def set_bucket_def)

text \<open>The table after a contact has been removed from its bucket.\<close>

lemma contacts_remove:
  assumes "rt_inv rt" and "length n = 48"
  defines "i \<equiv> bucketIndex rt n"
  shows "contacts (set_bucket i (remove_first n (buckets rt ! i)) rt) = {q \<in> contacts rt. PeerID q \<noteq> n}"
proof -
  have i: "i < 384" using assms by (simp add: rt_inv_bucketIndex)
  then have "distinct (map PeerID (buckets rt ! i))" using assms(1) by (simp add: rt_inv_def bucket_ok_def)
  then have "set (remove_first n (buckets rt ! i)) = {q \<in> set (buckets rt ! i). PeerID q \<noteq> n}"
    by (rule remove_first_facts(3))
  then show ?thesis
    unfolding contacts_set_bucket [OF assms(1) i] in_bucket_iff [OF assms(1) i] by (auto simp: i_def)
qed

lemma has_peer_contacts:
  assumes "rt_inv rt" and "length n = 48"
  shows "has_peer n (buckets rt ! bucketIndex rt n) \<longleftrightarrow> n \<in> PeerID ` contacts rt"
  using in_bucket_iff [OF assms(1) rt_inv_bucketIndex [OF assms]] by (auto simp: has_peer_def list_ex_iff)

text \<open>
  A contact is dropped at the second failure in a row: the first \<^verbatim>\<open>MarkFailure\<close> leaves the table's
  contacts alone, the second removes exactly that contact, reports whether it was there, and clears
  its count.
\<close>

theorem MarkFailure_twice:
  assumes "rt_inv rt" and "length n = 48" and "failures rt n = None"
  defines "r1 \<equiv> MarkFailure rt n"
  defines "r2 \<equiv> MarkFailure (snd r1) n"
  shows "\<not> fst r1 \<and> contacts (snd r1) = contacts rt \<and> failures (snd r1) n = Some 1 \<and>
    (fst r2 \<longleftrightarrow> n \<in> PeerID ` contacts rt) \<and> contacts (snd r2) = {p \<in> contacts rt. PeerID p \<noteq> n} \<and>
    failures (snd r2) n = None"
proof -
  let ?rt1 = "rt\<lparr>failures := (failures rt)(n \<mapsto> 1)\<rparr>" and ?rt2 = "rt\<lparr>failures := (failures rt)(n \<mapsto> 2)\<rparr>"
  have r1: "r1 = (False, ?rt1)" using assms(3) by (simp add: r1_def MarkFailure_def)
  have inv2: "rt_inv ?rt2" using assms(1) by (simp add: rt_inv_failures)
  have same: "contacts ?rt2 = contacts rt" "buckets ?rt2 = buckets rt" "bucketIndex ?rt2 = bucketIndex rt"
    by simp_all
  have r2: "r2 = (if has_peer n (buckets ?rt2 ! bucketIndex ?rt2 n)
      then (True, forget n (set_bucket (bucketIndex ?rt2 n) (remove_first n (buckets ?rt2 ! bucketIndex ?rt2 n)) ?rt2))
      else (False, forget n ?rt2))"
    by (simp add: r2_def r1 MarkFailure_def Let_def)
  have c: "contacts (snd r2) = {p \<in> contacts rt. PeerID p \<noteq> n}"
  proof (cases "n \<in> PeerID ` contacts ?rt2")
    case True
    then show ?thesis unfolding r2 has_peer_contacts [OF inv2 assms(2)]
      by (simp only: if_True snd_conv contacts_forget contacts_remove [OF inv2 assms(2)])
  next
    case False
    then have "{p \<in> contacts rt. PeerID p \<noteq> n} = contacts rt" by auto
    with False show ?thesis unfolding r2 has_peer_contacts [OF inv2 assms(2)]
      by (simp only: if_False snd_conv contacts_forget)
  qed
  have "failures (snd r2) n = None" "fst r2 \<longleftrightarrow> n \<in> PeerID ` contacts rt"
    unfolding r2 has_peer_contacts [OF inv2 assms(2)] by simp_all
  with c r1 show ?thesis by simp
qed

theorem MarkFailure_twice_witness:
  defines "rt \<equiv> snd (AddPeer 9 (NewRoutingTable (replicate 48 0)) example_peer)" and "n \<equiv> replicate 47 0 @ [6]"
  defines "r1 \<equiv> MarkFailure rt n"
  defines "r2 \<equiv> MarkFailure (snd r1) n"
  shows "\<not> fst r1 \<and> contacts (snd r1) = contacts rt \<and> failures (snd r1) n = Some 1 \<and>
    (fst r2 \<longleftrightarrow> n \<in> PeerID ` contacts rt) \<and> contacts (snd r2) = {p \<in> contacts rt. PeerID p \<noteq> n} \<and>
    failures (snd r2) n = None"
  unfolding r2_def r1_def
proof (rule MarkFailure_twice)
  show "rt_inv rt" unfolding rt_def by (intro rt_inv_AddPeer rt_inv_new) (simp_all add: example_peer_def)
  show "length n = 48" by (simp add: n_def)
  show "failures rt n = None" unfolding rt_def n_def by code_simp
qed
lemma rt_inv_distinct: "rt_inv rt \<Longrightarrow> i < 384 \<Longrightarrow> distinct (map PeerID (buckets rt ! i))"
  by (simp add: rt_inv_def bucket_ok_def)

lemma bucket_length:
  assumes "rt_inv rt" and "i < 384"
  shows "length (buckets rt ! i) = card {q \<in> contacts rt. bucketIndex rt (PeerID q) = i}"
proof -
  have "distinct (buckets rt ! i)" using assms by (simp add: rt_inv_def bucket_ok_def distinct_map)
  then have "length (buckets rt ! i) = card (set (buckets rt ! i))" by (simp add: distinct_card)
  also have "set (buckets rt ! i) = {q \<in> contacts rt. bucketIndex rt (PeerID q) = i}"
    using in_bucket_iff [OF assms] by auto
  finally show ?thesis .
qed

definition valid_peer :: "RoutingTable \<Rightarrow> Peer \<Rightarrow> bool" where
  "valid_peer rt p \<longleftrightarrow> PeerID p \<noteq> selfID rt \<and> To4 (IP p) \<noteq> None \<and> 0 < UDPPort p \<and> UDPPort p \<le> 65535"

text \<open>
  C30. \<^verbatim>\<open>AddPeer\<close> accepts a valid contact exactly when it is known already or its bucket has room once the
  contacts at its endpoint are gone. The other contacts that stay are those with another endpoint, the
  accepted contact stands last in its bucket with the given address and time, and its failures are
  forgotten; an invalid contact changes nothing.
\<close>

theorem AddPeer_correct:
  assumes inv: "rt_inv rt" and len: "length (PeerID p) = 48" and add: "AddPeer now rt p = (ok, rt')"
  defines "i \<equiv> bucketIndex rt (PeerID p)"
  shows "(ok \<longleftrightarrow> valid_peer rt p \<and> (PeerID p \<in> PeerID ` contacts rt \<or>
        card {q \<in> contacts rt. bucketIndex rt (PeerID q) = i \<and> \<not> conflicts p q} < K)) \<and>
    {q \<in> contacts rt'. PeerID q \<noteq> PeerID p} =
      {q \<in> contacts rt. PeerID q \<noteq> PeerID p \<and> (valid_peer rt p \<longrightarrow> \<not> same_endpoint p q)} \<and>
    (\<not> valid_peer rt p \<longrightarrow> rt' = rt) \<and>
    (ok \<longrightarrow> failures rt' (PeerID p) = None \<and>
       (\<exists>ps q. buckets rt' ! i = ps @ [q] \<and> PeerID q = PeerID p \<and> IP q = IP p \<and> UDPPort q = UDPPort p \<and>
          LastSeen q = now))"
proof -
  let ?rt1 = "evict p rt" let ?b = "buckets ?rt1 ! i"
  have inv1: "rt_inv ?rt1" using inv by (rule rt_inv_evict)
  have i: "i < 384" using inv len by (simp add: i_def rt_inv_bucketIndex)
  then have i1: "i < length (buckets ?rt1)" using inv1 by (simp add: rt_inv_def)
  have known_iff: "has_peer (PeerID p) ?b \<longleftrightarrow> PeerID p \<in> PeerID ` contacts rt"
    using has_peer_contacts [OF inv1 len] by (auto simp: i_def evict_contacts conflicts_def)
  have room: "length ?b = card {q \<in> contacts rt. bucketIndex rt (PeerID q) = i \<and> \<not> conflicts p q}"
    unfolding bucket_length [OF inv1 i] evict_contacts by (rule arg_cong [of _ _ card]) auto
  have others: "{q \<in> contacts (set_bucket i ps ?rt1). PeerID q \<noteq> PeerID p} =
      {q \<in> contacts rt. PeerID q \<noteq> PeerID p \<and> \<not> same_endpoint p q}"
    if "{q \<in> set ps. PeerID q \<noteq> PeerID p} = {q \<in> set ?b. PeerID q \<noteq> PeerID p}" for ps
    using that in_bucket_iff [OF inv1 i] unfolding contacts_set_bucket [OF inv1 i]
    by (auto simp: evict_contacts conflicts_def)
  have others1: "{q \<in> contacts ?rt1. PeerID q \<noteq> PeerID p} = {q \<in> contacts rt. PeerID q \<noteq> PeerID p \<and> \<not> same_endpoint p q}"
    by (auto simp: evict_contacts conflicts_def)
  show ?thesis
  proof (cases rule: AddPeer_cases [of p rt now])
    case invalid
    then have "\<not> valid_peer rt p" by (auto simp: valid_peer_def)
    with invalid add show ?thesis by simp
  next
    case (known e)
    then have v: "valid_peer rt p" by (simp add: valid_peer_def)
    have has: "has_peer (PeerID p) ?b" using known(1,2) by (auto simp: has_peer_def list_ex_iff i_def)
    have "distinct (map PeerID ?b)" using inv1 i by (rule rt_inv_distinct)
    note rem = remove_first_facts(3) [OF this]
    let ?u = "e\<lparr>LastSeen := now, IP := IP p, UDPPort := UDPPort p,
        TCPPort := (if TCPPort p > 0 then TCPPort p else TCPPort e)\<rparr>"
    have rt': "rt' = forget (PeerID p) (set_bucket i (remove_first (PeerID p) ?b @ [?u]) ?rt1)" and ok
      using add unfolding known(7) by (simp_all add: i_def)
    have "{q \<in> contacts rt'. PeerID q \<noteq> PeerID p} = {q \<in> contacts rt. PeerID q \<noteq> PeerID p \<and> \<not> same_endpoint p q}"
      unfolding rt' contacts_forget by (rule others) (use rem known(2) in auto)
    moreover have "buckets rt' ! i = remove_first (PeerID p) ?b @ [?u]" using i1 by (simp add: rt')
    moreover have "failures rt' (PeerID p) = None" by (simp add: rt')
    ultimately show ?thesis using v has known_iff known(2) \<open>ok\<close> by simp
  next
    case new
    then have v: "valid_peer rt p" by (simp add: valid_peer_def)
    have rt': "rt' = forget (PeerID p) (set_bucket i (?b @ [p\<lparr>LastSeen := now\<rparr>]) ?rt1)" and ok
      using add unfolding new(7) by (simp_all add: i_def)
    have "{q \<in> contacts rt'. PeerID q \<noteq> PeerID p} = {q \<in> contacts rt. PeerID q \<noteq> PeerID p \<and> \<not> same_endpoint p q}"
      unfolding rt' contacts_forget by (rule others) auto
    moreover have "buckets rt' ! i = ?b @ [p\<lparr>LastSeen := now\<rparr>]" using i1 by (simp add: rt')
    moreover have "failures rt' (PeerID p) = None" by (simp add: rt')
    moreover have "length ?b < K" using new(2) by (simp add: i_def)
    ultimately show ?thesis using v room \<open>ok\<close> by simp
  next
    case full
    then have v: "valid_peer rt p" by (simp add: valid_peer_def)
    with full(1,2) known_iff room add others1 show ?thesis unfolding full(7) by (auto simp: i_def)
  qed
qed

theorem AddPeer_correct_witness:
  defines "rt \<equiv> NewRoutingTable (replicate 48 0)"
  shows "fst (AddPeer 9 rt example_peer) \<and> failures (snd (AddPeer 9 rt example_peer)) (PeerID example_peer) = None \<and>
    (\<exists>ps q. buckets (snd (AddPeer 9 rt example_peer)) ! 381 = ps @ [q] \<and> PeerID q = PeerID example_peer \<and>
       IP q = IP example_peer \<and> UDPPort q = UDPPort example_peer \<and> LastSeen q = 9)"
proof -
  have ok: "fst (AddPeer 9 rt example_peer)" unfolding rt_def by code_simp
  have i: "bucketIndex rt (PeerID example_peer) = 381" unfolding rt_def by code_simp
  from AddPeer_correct [of rt example_peer 9 "fst (AddPeer 9 rt example_peer)" "snd (AddPeer 9 rt example_peer)"] ok i
  show ?thesis by (simp add: rt_def rt_inv_new example_peer_def)
qed

section \<open>Closest contacts\<close>

lemma sort_key_unique:
  assumes "mset xs = mset ys" and "sorted (map f ys)" and "inj_on f (set xs)"
  shows "ys = sort_key f xs"
  using sort_key_inj_key_eq [OF assms(1,3,2)] by simp

lemma distance_inj:
  assumes "rt_inv rt" and "length key = 48"
  shows "inj_on (\<lambda>p. Distance key (PeerID p)) (contacts rt)"
proof (rule inj_onI)
  fix p q assume pq: "p \<in> contacts rt" "q \<in> contacts rt" and "Distance key (PeerID p) = Distance key (PeerID q)"
  moreover have "length (PeerID p) = 48" "length (PeerID q) = 48"
    using pq assms(1) by (auto simp: contacts_iff rt_inv_def bucket_ok_def peer_ok_def)
  ultimately have "PeerID p = PeerID q" using Distance_inject [of "PeerID p" key "PeerID q"] assms(2) by simp
  then show "p = q" using contacts_inj [OF assms(1)] pq by (auto dest: inj_onD)
qed

lemma sorted_key_take_drop:
  assumes "sorted (map f xs)" and "x \<in> set (take n xs)" and "y \<in> set (drop n xs)"
  shows "f x \<le> f y"
proof -
  have "sorted (map f (take n xs) @ map f (drop n xs))" using assms(1) by (simp flip: map_append)
  with assms(2,3) show ?thesis by (simp add: sorted_append)
qed

text \<open>
  C31. \<^verbatim>\<open>ClosestPeers\<close> returns as many contacts as asked for and available, without repetition, ordered by
  their distance as a number, and every contact it leaves out is farther away than each one it returns.
  The result does not depend on the sorting algorithm: any arrangement of the contacts in which no one
  is followed by a closer one has the same first \<open>n\<close> elements.
\<close>

theorem ClosestPeers_correct:
  fixes n :: nat
  assumes inv: "rt_inv rt" and key: "length key = 48"
  defines "dist \<equiv> \<lambda>p. be_value (Distance key (PeerID p))" and "r \<equiv> ClosestPeers rt key n"
  shows "length r = min n (PeerCount rt) \<and> distinct r \<and> set r \<subseteq> contacts rt \<and> sorted (map dist r) \<and>
    (\<forall>p\<in>set r. \<forall>q\<in>contacts rt - set r. dist p < dist q) \<and>
    (\<forall>xs. mset xs = mset (concat (buckets rt)) \<and>
       sorted_wrt (\<lambda>p q. \<not> DistanceLess (Distance key (PeerID q)) (Distance key (PeerID p))) xs \<longrightarrow> take n xs = r)"
proof -
  let ?f = "\<lambda>p. Distance key (PeerID p)" let ?xs = "concat (buckets rt)" let ?s = "sort_key ?f ?xs"
  have set_s: "set ?s = contacts rt" by (simp add: contacts_def)
  have dist_s: "distinct ?s" using contacts_distinct [OF inv] by simp
  have len: "length (PeerID p) = 48" if "p \<in> contacts rt" for p
    using that inv by (auto simp: contacts_iff rt_inv_def bucket_ok_def peer_ok_def)
  have le_iff: "?f p \<le> ?f q \<longleftrightarrow> dist p \<le> dist q" if "p \<in> contacts rt" "q \<in> contacts rt" for p q
    using len that key be_value_less_iff [of "?f q" "?f p"] DistanceLess_less [of "?f q" "?f p"]
    by (simp add: dist_def not_less [symmetric])
  have inj: "inj_on ?f (contacts rt)" using distance_inj [OF inv key] .
  have sub: "set r \<subseteq> contacts rt" using set_take_subset [of n ?s] set_s by (simp add: r_def ClosestPeers_def)
  have sorted_r: "sorted (map ?f r)"
    unfolding r_def ClosestPeers_def take_map [symmetric] by (rule sorted_wrt_take) simp
  then have "sorted_wrt (\<lambda>p q. ?f p \<le> ?f q) r" by (simp add: sorted_map)
  then have "sorted_wrt (\<lambda>p q. dist p \<le> dist q) r"
    by (rule sorted_wrt_mono_rel [rotated]) (use sub le_iff in blast)
  then have "sorted (map dist r)" by (simp add: sorted_map)
  moreover have "dist p < dist q" if p: "p \<in> set r" and q: "q \<in> contacts rt - set r" for p q
  proof -
    have "q \<in> set (drop n ?s)"
      using q set_s by (metis (no_types, lifting) ClosestPeers_def DiffE Un_iff append_take_drop_id r_def set_append)
    then have "?f p \<le> ?f q" using p by (intro sorted_key_take_drop [of ?f ?s p n q]) (simp_all add: r_def ClosestPeers_def)
    moreover have "?f p \<noteq> ?f q" using inj_onD [OF inj, of p q] p q sub by auto
    ultimately have "?f p < ?f q" by simp
    then show ?thesis using le_iff [of q p] p q sub by (auto simp: not_le [symmetric])
  qed
  moreover have "take n xs = r" if "mset xs = mset ?xs" "sorted_wrt (\<lambda>p q. \<not> DistanceLess (?f q) (?f p)) xs" for xs
  proof -
    have "set xs = contacts rt" using that(1) by (metis mset_eq_setD contacts_def)
    from that(2) have "sorted_wrt (\<lambda>p q. ?f p \<le> ?f q) xs"
      by (rule sorted_wrt_mono_rel [rotated]) (use len key \<open>set xs = contacts rt\<close> in \<open>auto simp: DistanceLess_less\<close>)
    then have "sorted (map ?f xs)" by (simp add: sorted_map)
    then have "xs = ?s" using that(1) inj by (intro sort_key_unique) (simp_all add: contacts_def)
    then show ?thesis by (simp add: r_def ClosestPeers_def)
  qed
  ultimately show ?thesis
    using sub dist_s by (auto simp: r_def ClosestPeers_def PeerCount_length)
qed

theorem ClosestPeers_correct_witness:
  defines "rt \<equiv> snd (AddPeer 9 (NewRoutingTable (replicate 48 0)) example_peer)"
  defines "r \<equiv> ClosestPeers rt (replicate 48 1) 5"
  shows "length r = min 5 (PeerCount rt) \<and> distinct r \<and> set r \<subseteq> contacts rt \<and>
    sorted (map (\<lambda>p. be_value (Distance (replicate 48 1) (PeerID p))) r)"
proof -
  have "rt_inv rt" unfolding rt_def by (intro rt_inv_AddPeer rt_inv_new) (simp_all add: example_peer_def)
  from ClosestPeers_correct [OF this, of "replicate 48 1" 5] show ?thesis unfolding r_def by simp
qed

end
