(* ===== verification/Bencode.thy ===== *)
theory Bencode
  imports Decimal "HOL-Library.Multiset"
begin

text \<open>
  The bencode codec of the DHT, \<^verbatim>\<open>dht/bencode.go\<close>. A Go value behind \<^verbatim>\<open>any\<close> is a datatype with one
  constructor per type the encoder knows and one for all others; a map is an association list whose
  keys are distinct, in an arbitrary order. The decoder takes the rest of the data and returns the
  value with the number of bytes it used; besides errors it can panic, and the mutually recursive
  functions carry fuel, which \<^verbatim>\<open>BencodeDecode\<close> gives in an amount that is never used up.
\<close>

section \<open>Values and the encoder\<close>

datatype any =
    AInt int
  | AUint64 u64
  | ABytes bytes
  | AString bytes
  | AList "any list"
  | ADict "(bytes \<times> any) list"
  | AIntDict "(int \<times> any) list"
  | AOther string

datatype benc_error =
    UnsupportedType string
  | EmptyData
  | UnexpectedByte byte
  | UnterminatedInteger
  | InvalidInteger
  | MissingColon
  | InvalidStringLength
  | StringOverflow
  | UnterminatedList
  | UnterminatedDict
  | InvalidDictIntKey benc_error
  | InvalidDictKey benc_error

abbreviation (input) ch_i :: byte where "ch_i \<equiv> 105"
abbreviation (input) ch_e :: byte where "ch_e \<equiv> 101"
abbreviation (input) ch_l :: byte where "ch_l \<equiv> 108"
abbreviation (input) ch_d :: byte where "ch_d \<equiv> 100"
abbreviation (input) ch_colon :: byte where "ch_colon \<equiv> 58"

text \<open>Writes in order until the first error; what has been written is dropped with the error.\<close>

fun write_all :: "(benc_error + bytes) list \<Rightarrow> benc_error + bytes" where
  "write_all [] = Inr []"
| "write_all (w # ws) = and_then w (\<lambda>b. and_then (write_all ws) (\<lambda>bs. Inr (b @ bs)))"

definition encode_string :: "bytes \<Rightarrow> bytes" where
  "encode_string s = Itoa (int (length s)) @ ch_colon # s"

definition encode_int :: "int \<Rightarrow> bytes" where
  "encode_int v = ch_i # Itoa v @ [ch_e]"

fun bencEncode :: "any \<Rightarrow> benc_error + bytes" where
  "bencEncode (AInt v) = Inr (encode_int v)"
| "bencEncode (AUint64 v) = Inr (encode_int (uint v))"
| "bencEncode (ABytes s) = Inr (encode_string s)"
| "bencEncode (AString s) = Inr (encode_string s)"
| "bencEncode (AList vs) =
     and_then (write_all (map bencEncode vs)) (\<lambda>bs. Inr (ch_l # bs @ [ch_e]))"
| "bencEncode (ADict kvs) =
     and_then (write_all (map (\<lambda>(k, w). and_then w (\<lambda>b. Inr (encode_string k @ b)))
                 (sort_key fst (map (\<lambda>(k, v). (k, bencEncode v)) kvs)))) (\<lambda>bs. Inr (ch_d # bs @ [ch_e]))"
| "bencEncode (AIntDict kvs) =
     and_then (write_all (map (\<lambda>(k, w). and_then w (\<lambda>b. Inr (encode_int k @ b)))
                 (sort_key fst (map (\<lambda>(k, v). (k, bencEncode v)) kvs)))) (\<lambda>bs. Inr (ch_d # bs @ [ch_e]))"
| "bencEncode (AOther t) = Inl (UnsupportedType t)"

definition BencodeEncode :: "any \<Rightarrow> benc_error + bytes" where
  "BencodeEncode v = bencEncode v"

section \<open>The decoder\<close>

datatype 'a decoded = Decoded 'a nat | DecodeError benc_error | Panic | OutOfFuel

definition IndexOf :: "bytes \<Rightarrow> byte \<Rightarrow> nat option" where
  "IndexOf bs c = (if c \<in> set bs then Some (length (takeWhile (\<lambda>b. b \<noteq> c) bs)) else None)"

definition bencDecodeInt :: "bytes \<Rightarrow> int decoded" where
  "bencDecodeInt d =
     (case IndexOf d ch_e of
        None \<Rightarrow> DecodeError UnterminatedInteger
      | Some e \<Rightarrow> (case ParseInt (drop 1 (take e d)) of
          None \<Rightarrow> DecodeError InvalidInteger
        | Some n \<Rightarrow> Decoded n (e + 1)))"

text \<open>
  \<^verbatim>\<open>end := start + length\<close> wraps around, and \<^verbatim>\<open>make([]byte, length)\<close> panics for a length that is
  negative or cannot be allocated, as \<^verbatim>\<open>data[start:end]\<close> does when \<^verbatim>\<open>end < start\<close>. A length that passes
  the test \<^verbatim>\<open>end > len(data)\<close> is at most the length of the data, or negative, or so large that the sum
  has wrapped.
\<close>

definition bencDecodeBytes :: "bytes \<Rightarrow> bytes decoded" where
  "bencDecodeBytes d =
     (case IndexOf d ch_colon of
        None \<Rightarrow> DecodeError MissingColon
      | Some colon \<Rightarrow> (case ParseInt (take colon d) of
          None \<Rightarrow> DecodeError InvalidStringLength
        | Some len \<Rightarrow>
            let start = colon + 1; stop = wrap64 (int start + len)
            in if stop > int (length d) then DecodeError StringOverflow
               else if len < 0 \<or> len > int (length d) \<or> stop < int start then Panic
               else Decoded (take (nat stop - start) (drop start d)) (nat stop)))"

text \<open>\<^verbatim>\<open>dict[key] = val\<close>\<close>

fun put :: "'k \<Rightarrow> 'v \<Rightarrow> ('k \<times> 'v) list \<Rightarrow> ('k \<times> 'v) list" where
  "put k v [] = [(k, v)]"
| "put k v ((k', v') # kvs) = (if k' = k then (k, v) # kvs else (k', v') # put k v kvs)"

text \<open>The key of a dictionary entry: an integer is kept as its decimal text.\<close>

definition decode_key :: "bytes \<Rightarrow> bytes decoded" where
  "decode_key d =
     (if hd d = ch_i then
        (case bencDecodeInt d of
           Decoded k n \<Rightarrow> Decoded (Itoa k) n
         | DecodeError e \<Rightarrow> DecodeError (InvalidDictIntKey e)
         | Panic \<Rightarrow> Panic | OutOfFuel \<Rightarrow> OutOfFuel)
      else
        (case bencDecodeBytes d of
           Decoded k n \<Rightarrow> Decoded k n
         | DecodeError e \<Rightarrow> DecodeError (InvalidDictKey e)
         | Panic \<Rightarrow> Panic | OutOfFuel \<Rightarrow> OutOfFuel))"

definition map_decoded :: "('a \<Rightarrow> 'b) \<Rightarrow> 'a decoded \<Rightarrow> 'b decoded" where
  "map_decoded f r =
     (case r of Decoded x n \<Rightarrow> Decoded (f x) n | DecodeError e \<Rightarrow> DecodeError e | Panic \<Rightarrow> Panic
      | OutOfFuel \<Rightarrow> OutOfFuel)"

text \<open>The loops of \<^verbatim>\<open>bencDecodeList\<close> and \<^verbatim>\<open>bencDecodeDict\<close> have the bytes from \<^verbatim>\<open>pos\<close> on and \<^verbatim>\<open>pos\<close>.\<close>

fun decode_value :: "nat \<Rightarrow> bytes \<Rightarrow> any decoded"
  and decode_list :: "nat \<Rightarrow> any list \<Rightarrow> nat \<Rightarrow> bytes \<Rightarrow> any decoded"
  and decode_dict :: "nat \<Rightarrow> (bytes \<times> any) list \<Rightarrow> nat \<Rightarrow> bytes \<Rightarrow> any decoded" where
  "decode_value 0 d = OutOfFuel"
| "decode_value (Suc fuel) d =
     (if d = [] then DecodeError EmptyData
      else if hd d = ch_i then map_decoded AInt (bencDecodeInt d)
      else if hd d = ch_l then decode_list fuel [] 1 (drop 1 d)
      else if hd d = ch_d then decode_dict fuel [] 1 (drop 1 d)
      else if is_digit (hd d) then map_decoded ABytes (bencDecodeBytes d)
      else DecodeError (UnexpectedByte (hd d)))"
| "decode_list 0 vs pos d = OutOfFuel"
| "decode_list (Suc fuel) vs pos d =
     (if d = [] then DecodeError UnterminatedList
      else if hd d = ch_e then Decoded (AList vs) (pos + 1)
      else case decode_value fuel d of
        Decoded v n \<Rightarrow> decode_list fuel (vs @ [v]) (pos + n) (drop n d)
      | r \<Rightarrow> r)"
| "decode_dict 0 kvs pos d = OutOfFuel"
| "decode_dict (Suc fuel) kvs pos d =
     (if d = [] then DecodeError UnterminatedDict
      else if hd d = ch_e then Decoded (ADict kvs) (pos + 1)
      else case decode_key d of
        Decoded k n \<Rightarrow>
          (case decode_value fuel (drop n d) of
             Decoded v n' \<Rightarrow> decode_dict fuel (put k v kvs) (pos + n + n') (drop n' (drop n d))
           | r \<Rightarrow> r)
      | DecodeError e \<Rightarrow> DecodeError e | Panic \<Rightarrow> Panic | OutOfFuel \<Rightarrow> OutOfFuel)"

definition BencodeDecode :: "bytes \<Rightarrow> any decoded" where
  "BencodeDecode d = decode_value (2 * length d + 1) d"

section \<open>The decoder is total and stays inside the data\<close>

lemma IndexOf_Some: "IndexOf d c = Some n \<Longrightarrow> n < length d"
  by (induction d arbitrary: n) (auto simp: IndexOf_def split: if_splits)

lemma IndexOf_append: "c \<notin> set xs \<Longrightarrow> IndexOf (xs @ c # ys) c = Some (length xs)"
  by (induction xs) (auto simp: IndexOf_def split: if_splits)

lemma bencDecodeInt_bounds:
  "bencDecodeInt d = Decoded v n \<Longrightarrow> 1 \<le> n \<and> n \<le> length d \<and> is_int64 v"
  by (auto simp: bencDecodeInt_def split: option.splits dest: IndexOf_Some ParseInt_is_int64)

lemma bencDecodeBytes_bounds: "bencDecodeBytes d = Decoded s n \<Longrightarrow> 1 \<le> n \<and> n \<le> length d"
  by (auto simp: bencDecodeBytes_def Let_def split: option.splits if_splits)

lemma decode_key_bounds: "decode_key d = Decoded k n \<Longrightarrow> 1 \<le> n \<and> n \<le> length d"
  by (auto simp: decode_key_def split: decoded.splits if_splits dest: bencDecodeInt_bounds bencDecodeBytes_bounds)

lemma no_fuel_in_leaves [simp]:
  "bencDecodeInt d \<noteq> OutOfFuel" "bencDecodeBytes d \<noteq> OutOfFuel" "decode_key d \<noteq> OutOfFuel"
  by (auto simp: bencDecodeInt_def bencDecodeBytes_def decode_key_def Let_def split: option.splits decoded.splits)

lemma map_decoded_simps [simp]:
  "map_decoded f (Decoded x n) = Decoded (f x) n" "map_decoded f r = OutOfFuel \<longleftrightarrow> r = OutOfFuel"
  "map_decoded f r = Panic \<longleftrightarrow> r = Panic"
  "map_decoded f r = Decoded y n \<longleftrightarrow> (\<exists>x. r = Decoded x n \<and> y = f x)"
  by (auto simp: map_decoded_def split: decoded.splits)

text \<open>What the decoder returns: integers in range, and dictionaries with distinct keys.\<close>

fun wf_any :: "any \<Rightarrow> bool" where
  "wf_any (AInt v) \<longleftrightarrow> is_int64 v"
| "wf_any (ABytes s) \<longleftrightarrow> True"
| "wf_any (AList vs) \<longleftrightarrow> (\<forall>v\<in>set vs. wf_any v)"
| "wf_any (ADict kvs) \<longleftrightarrow> distinct (map fst kvs) \<and> (\<forall>kv\<in>set kvs. wf_any (snd kv))"
| "wf_any _ \<longleftrightarrow> False"

lemma put_keys [simp]: "fst ` set (put k v kvs) = insert k (fst ` set kvs)"
  by (induction k v kvs rule: put.induct) auto

lemma put_distinct: "distinct (map fst kvs) \<Longrightarrow> distinct (map fst (put k v kvs))"
  by (induction k v kvs rule: put.induct) auto

lemma put_set: "set (put k v kvs) \<subseteq> insert (k, v) (set kvs)"
  by (induction k v kvs rule: put.induct) auto

lemma put_wf: "wf_any (ADict kvs) \<Longrightarrow> wf_any v \<Longrightarrow> wf_any (ADict (put k v kvs))"
  using put_set [of k v kvs] by (auto simp: put_distinct)

lemma decode_bounds:
  "decode_value fuel d = Decoded v n \<Longrightarrow> 1 \<le> n \<and> n \<le> length d \<and> wf_any v"
  "decode_list fuel vs pos d = Decoded v n \<Longrightarrow> wf_any (AList vs) \<Longrightarrow> pos < n \<and> n \<le> pos + length d \<and> wf_any v"
  "decode_dict fuel kvs pos d = Decoded v n \<Longrightarrow> wf_any (ADict kvs) \<Longrightarrow> pos < n \<and> n \<le> pos + length d \<and> wf_any v"
proof (induction fuel d and fuel vs pos d and fuel kvs pos d arbitrary: v n and v n and v n
    rule: decode_value_decode_list_decode_dict.induct)
  case (2 fuel d)
  then show ?case
    by (cases d) (auto split: if_split_asm dest: bencDecodeInt_bounds bencDecodeBytes_bounds)
next
  case (4 fuel vs pos d)
  show ?case
  proof (cases "d = [] \<or> hd d = ch_e")
    case False
    with 4(3) obtain w m where w: "decode_value fuel d = Decoded w m"
      and rest: "decode_list fuel (vs @ [w]) (pos + m) (drop m d) = Decoded v n"
      by (auto split: decoded.splits)
    from False 4(1) w have m: "1 \<le> m \<and> m \<le> length d \<and> wf_any w" by blast
    from False 4(2) [OF _ _ w rest] m 4(4) show ?thesis by auto
  qed (use 4 in \<open>auto split: if_splits simp: Suc_le_eq\<close>)
next
  case (6 fuel kvs pos d)
  show ?case
  proof (cases "d = [] \<or> hd d = ch_e")
    case False
    with 6(3) obtain k m w m' where k: "decode_key d = Decoded k m"
      and w: "decode_value fuel (drop m d) = Decoded w m'"
      and rest: "decode_dict fuel (put k w kvs) (pos + m + m') (drop m' (drop m d)) = Decoded v n"
      by (auto split: decoded.splits)
    from False 6(1) k w have m': "1 \<le> m' \<and> m' \<le> length (drop m d) \<and> wf_any w" by blast
    from False 6(2) [OF _ _ k w rest put_wf] m' 6(4) decode_key_bounds [OF k] show ?thesis by auto
  qed (use 6 in \<open>auto split: if_splits simp: Suc_le_eq\<close>)
qed simp_all

lemma decode_fuel:
  "2 * length d + 1 \<le> fuel \<Longrightarrow> decode_value fuel d \<noteq> OutOfFuel"
  "2 * length d + 2 \<le> fuel \<Longrightarrow> wf_any (AList vs) \<Longrightarrow> decode_list fuel vs pos d \<noteq> OutOfFuel"
  "2 * length d + 2 \<le> fuel \<Longrightarrow> wf_any (ADict kvs) \<Longrightarrow> decode_dict fuel kvs pos d \<noteq> OutOfFuel"
proof (induction fuel arbitrary: d vs kvs pos)
  case (Suc fuel)
  case 1
  with Suc(2,3) [of "drop 1 d"] show ?case by (cases d) auto
next
  case (Suc fuel)
  case 2
  show ?case
  proof (cases "decode_value fuel d")
    case (Decoded v n)
    note vn = decode_bounds(1) [OF Decoded]
    have "2 * length (drop n d) + 2 \<le> fuel" using 2 vn by auto
    with 2 vn Decoded Suc(2) [of "drop n d" "vs @ [v]" "pos + n"] show ?thesis by auto
  qed (use 2 Suc(1) [of d] in auto)
next
  case (Suc fuel)
  case 3
  show ?case
  proof (cases "decode_key d")
    case (Decoded k n)
    note kn = decode_key_bounds [OF Decoded]
    show ?thesis
    proof (cases "decode_value fuel (drop n d)")
      case (Decoded v m)
      note vm = decode_bounds(1) [OF Decoded]
      have "2 * length (drop m (drop n d)) + 2 \<le> fuel" using 3 vm kn by auto
      with 3 put_wf vm Suc(3) [of "drop m (drop n d)" "put k v kvs" "pos + n + m"] Decoded \<open>decode_key d = Decoded k n\<close>
      show ?thesis by auto
    next
      case OutOfFuel
      have "2 * length (drop n d) + 1 \<le> fuel" using 3 kn by auto
      with Suc(1) OutOfFuel show ?thesis by blast
    qed (use \<open>decode_key d = Decoded k n\<close> in auto)
  qed auto
qed simp_all
section \<open>Decoding what was encoded\<close>

text \<open>
  The value a decoder can return for an encoded one: strings become byte strings, 64-bit integers
  integers, dictionaries are in key order and integer keys are their decimal text.
\<close>

fun norm :: "any \<Rightarrow> any" where
  "norm (AInt v) = AInt v"
| "norm (AUint64 v) = AInt (uint v)"
| "norm (ABytes s) = ABytes s"
| "norm (AString s) = ABytes s"
| "norm (AList vs) = AList (map norm vs)"
| "norm (ADict kvs) = ADict (sort_key fst (map (\<lambda>(k, v). (k, norm v)) kvs))"
| "norm (AIntDict kvs) = ADict (map (\<lambda>(k, v). (Itoa k, v)) (sort_key fst (map (\<lambda>(k, v). (k, norm v)) kvs)))"
| "norm (AOther t) = AOther t"

text \<open>The values Go can hold: \<^verbatim>\<open>int\<close> and \<^verbatim>\<open>int64\<close> in range, maps without repeated keys; a \<^verbatim>\<open>uint64\<close>
  must fit in 63 bits to be read back.\<close>

fun encodable :: "any \<Rightarrow> bool" where
  "encodable (AInt v) \<longleftrightarrow> is_int64 v"
| "encodable (AUint64 v) \<longleftrightarrow> is_int64 (uint v)"
| "encodable (ABytes s) \<longleftrightarrow> True"
| "encodable (AString s) \<longleftrightarrow> True"
| "encodable (AList vs) \<longleftrightarrow> (\<forall>v\<in>set vs. encodable v)"
| "encodable (ADict kvs) \<longleftrightarrow> distinct (map fst kvs) \<and> (\<forall>kv\<in>set kvs. encodable (snd kv))"
| "encodable (AIntDict kvs) \<longleftrightarrow> distinct (map fst kvs) \<and> (\<forall>kv\<in>set kvs. is_int64 (fst kv) \<and> encodable (snd kv))"
| "encodable (AOther t) \<longleftrightarrow> False"

definition fits :: "bytes \<Rightarrow> bool" where
  "fits d \<longleftrightarrow> int (length d) \<le> int64_max"

definition decodes :: "bytes \<Rightarrow> any \<Rightarrow> bool" where
  "decodes b v \<longleftrightarrow> b \<noteq> [] \<and> hd b \<noteq> ch_e \<and>
     (\<forall>fuel rest. fits (b @ rest) \<longrightarrow> 2 * length (b @ rest) + 1 \<le> fuel \<longrightarrow>
        decode_value fuel (b @ rest) = Decoded v (length b))"

definition key_decodes :: "bytes \<Rightarrow> bytes \<Rightarrow> bool" where
  "key_decodes b k \<longleftrightarrow> b \<noteq> [] \<and> hd b \<noteq> ch_e \<and>
     (\<forall>rest. fits (b @ rest) \<longrightarrow> decode_key (b @ rest) = Decoded k (length b))"

lemma bencDecodeInt_encode: "is_int64 v \<Longrightarrow> bencDecodeInt (encode_int v @ rest) = Decoded v (length (encode_int v))"
proof -
  assume v: "is_int64 v"
  have "ch_e \<notin> set (ch_i # Itoa v)" using not_in_Itoa [of ch_e v] by (simp add: is_digit_def)
  from IndexOf_append [OF this, of rest] have "IndexOf (encode_int v @ rest) ch_e = Some (length (Itoa v) + 1)"
    by (simp add: encode_int_def)
  with v show ?thesis by (simp add: bencDecodeInt_def encode_int_def)
qed

lemma hd_Itoa_nat: "is_digit (hd (Itoa (int n)))" and Itoa_nonempty [simp]: "Itoa v \<noteq> []"
  using hd_FormatUint [of n] by (simp_all add: Itoa_def)

lemma bencDecodeBytes_encode:
  assumes "fits (encode_string s @ rest)"
  shows "bencDecodeBytes (encode_string s @ rest) = Decoded s (length (encode_string s))"
proof -
  let ?n = "Itoa (int (length s))"
  have "ch_colon \<notin> set ?n" using not_in_Itoa [of ch_colon] by (simp add: is_digit_def)
  from IndexOf_append [OF this, of "s @ rest"] have "IndexOf (encode_string s @ rest) ch_colon = Some (length ?n)"
    by (simp add: encode_string_def)
  moreover have "is_int64 (int (length s))" and "is_int64 (1 + int (length ?n) + int (length s))"
    using assms by (auto simp: fits_def encode_string_def is_int64_def int64_min_def)
  ultimately show ?thesis
    by (simp add: bencDecodeBytes_def encode_string_def Let_def nat_add_distrib)
qed

lemma encode_string_digit: "encode_string s \<noteq> []" "is_digit (hd (encode_string s))"
  using hd_Itoa_nat [of "length s"] by (simp_all add: encode_string_def hd_append)

lemma digit_not_tag: "is_digit c \<Longrightarrow> c \<noteq> ch_e \<and> c \<noteq> ch_i \<and> c \<noteq> ch_l \<and> c \<noteq> ch_d"
  by (auto simp: is_digit_def)

lemma decodes_string: "decodes (encode_string s) (ABytes s)"
  unfolding decodes_def
proof (intro conjI allI impI)
  fix fuel rest assume f: "fits (encode_string s @ rest)" and "2 * length (encode_string s @ rest) + 1 \<le> fuel"
  then obtain fuel' where "fuel = Suc fuel'" by (cases fuel) auto
  then show "decode_value fuel (encode_string s @ rest) = Decoded (ABytes s) (length (encode_string s))"
    using encode_string_digit [of s] digit_not_tag bencDecodeBytes_encode [OF f] by auto
qed (use encode_string_digit digit_not_tag in blast)+

lemma decodes_int: "is_int64 v \<Longrightarrow> decodes (encode_int v) (AInt v)"
  unfolding decodes_def
proof (intro conjI allI impI)
  fix fuel rest assume v: "is_int64 v" and "2 * length (encode_int v @ rest) + 1 \<le> fuel"
  then obtain fuel' where "fuel = Suc fuel'" by (cases fuel) auto
  then show "decode_value fuel (encode_int v @ rest) = Decoded (AInt v) (length (encode_int v))"
    using bencDecodeInt_encode [OF v, of rest] by (simp add: encode_int_def)
qed (simp_all add: encode_int_def)

lemma key_decodes_string: "key_decodes (encode_string s) s"
  using encode_string_digit [of s] digit_not_tag bencDecodeBytes_encode
  by (auto simp: key_decodes_def decode_key_def)

lemma key_decodes_int: "is_int64 v \<Longrightarrow> key_decodes (encode_int v) (Itoa v)"
  using bencDecodeInt_encode [of v] by (simp add: key_decodes_def decode_key_def encode_int_def)

lemma fits_append: "fits (xs @ ys) \<Longrightarrow> fits ys"
  by (auto simp: fits_def)

lemma decode_list_entries:
  assumes "list_all2 decodes bs vs"
  shows "fits (concat bs @ ch_e # rest) \<Longrightarrow> 2 * length (concat bs @ ch_e # rest) + 2 \<le> fuel \<Longrightarrow>
    decode_list fuel acc pos (concat bs @ ch_e # rest) = Decoded (AList (acc @ vs)) (pos + length (concat bs) + 1)"
  using assms
proof (induction arbitrary: fuel acc pos rule: list_all2_induct)
  case Nil
  then show ?case by (cases fuel) auto
next
  case (Cons b bs v vs)
  then obtain fuel' where fuel: "fuel = Suc fuel'" by (cases fuel) auto
  from Cons.hyps have b: "b \<noteq> []" "hd b \<noteq> ch_e" and
    dec: "\<And>rest fuel. fits (b @ rest) \<Longrightarrow> 2 * length (b @ rest) + 1 \<le> fuel \<Longrightarrow> decode_value fuel (b @ rest) = Decoded v (length b)"
    by (auto simp: decodes_def)
  have "decode_value fuel' (b @ concat bs @ ch_e # rest) = Decoded v (length b)"
    using Cons.prems fuel by (intro dec) auto
  moreover have "decode_list fuel' (acc @ [v]) (pos + length b) (concat bs @ ch_e # rest) =
      Decoded (AList ((acc @ [v]) @ vs)) (pos + length b + length (concat bs) + 1)"
    using Cons.prems fuel b(1) by (intro Cons.IH) (cases b; auto simp: fits_def)+
  ultimately show ?case using b fuel by simp
qed

lemma put_new: "k \<notin> fst ` set kvs \<Longrightarrow> put k v kvs = kvs @ [(k, v)]"
  by (induction k v kvs rule: put.induct) auto

lemma decode_dict_entries:
  assumes "list_all2 (\<lambda>(kb, b) (k, v). key_decodes kb k \<and> decodes b v) es kvs"
  shows "fits (concat (map (\<lambda>(kb, b). kb @ b) es) @ ch_e # rest) \<Longrightarrow>
    2 * length (concat (map (\<lambda>(kb, b). kb @ b) es) @ ch_e # rest) + 2 \<le> fuel \<Longrightarrow>
    distinct (map fst (acc @ kvs)) \<Longrightarrow>
    decode_dict fuel acc pos (concat (map (\<lambda>(kb, b). kb @ b) es) @ ch_e # rest) =
      Decoded (ADict (acc @ kvs)) (pos + length (concat (map (\<lambda>(kb, b). kb @ b) es)) + 1)"
  using assms
proof (induction arbitrary: fuel acc pos rule: list_all2_induct)
  case Nil
  then show ?case by (cases fuel) auto
next
  case (Cons e es kv kvs)
  obtain kb b where e: "e = (kb, b)" by (cases e)
  obtain k v where kv: "kv = (k, v)" by (cases kv)
  let ?tail = "concat (map (\<lambda>(kb, b). kb @ b) es) @ ch_e # rest"
  from Cons.prems obtain fuel' where fuel: "fuel = Suc fuel'" by (cases fuel) auto
  from Cons.hyps have kb: "key_decodes kb k" and b: "decodes b v" by (auto simp: e kv)
  have key: "decode_key (kb @ b @ ?tail) = Decoded k (length kb)" and ne: "kb \<noteq> []" "hd kb \<noteq> ch_e"
    using kb Cons.prems(1) by (auto simp: key_decodes_def e)
  have val: "decode_value fuel' (b @ ?tail) = Decoded v (length b)"
    using b Cons.prems(1,2) fuel ne by (auto simp: decodes_def e fits_def)
  have put: "put k v acc = acc @ [(k, v)]" using Cons.prems(3) by (intro put_new) (auto simp: kv)
  have "decode_dict fuel' (acc @ [(k, v)]) (pos + length kb + length b) ?tail =
      Decoded (ADict ((acc @ [(k, v)]) @ kvs)) (pos + length kb + length b + length (concat (map (\<lambda>(kb, b). kb @ b) es)) + 1)"
    using Cons.prems fuel ne(1) by (intro Cons.IH) (cases kb; auto simp: e kv fits_def)+
  with key val put ne show ?case by (simp add: e kv fuel)
qed
lemma write_all_map_Inr: "write_all (map Inr bs) = Inr (concat bs)"
  by (induction bs) auto

lemma sort_key_map_snd:
  "sort_key fst (map (\<lambda>(k, v). (k, f v)) kvs) = map (\<lambda>(k, v). (k, f v)) (sort_key fst kvs)"
proof -
  have ins: "insort_key fst (k, f v) (map (\<lambda>(k, v). (k, f v)) xs) = map (\<lambda>(k, v). (k, f v)) (insort_key fst (k, v) xs)"
    for k v xs
    by (induction xs) auto
  show ?thesis by (induction kvs) (auto simp: ins)
qed

lemma write_all_Inr: "write_all ws = Inr out \<longleftrightarrow> (\<exists>bs. ws = map Inr bs \<and> out = concat bs)"
proof (induction ws arbitrary: out)
  case (Cons w ws)
  show ?case
  proof
    assume "write_all (w # ws) = Inr out"
    then obtain b bs' where "w = Inr b" "write_all ws = Inr bs'" "out = b @ bs'" by (auto simp: and_then_Inr)
    with Cons.IH obtain bs where "ws = map Inr bs" "bs' = concat bs" by blast
    with \<open>w = Inr b\<close> \<open>out = b @ bs'\<close> show "\<exists>bs. w # ws = map Inr bs \<and> out = concat bs"
      by (intro exI [of _ "b # bs"]) simp
  next
    assume "\<exists>bs. w # ws = map Inr bs \<and> out = concat bs"
    then show "write_all (w # ws) = Inr out" by (auto simp: Cons_eq_map_conv write_all_map_Inr)
  qed
qed auto

text \<open>The entries of a dictionary, for both kinds of keys: \<open>kf\<close> writes a key and \<open>kt\<close> is its text.\<close>

lemma dict_entries:
  fixes kf :: "'k::linorder \<Rightarrow> bytes"
  assumes out: "write_all (map (\<lambda>(k, w). and_then w (\<lambda>b. Inr (kf k @ b)))
      (sort_key fst (map (\<lambda>(k, v). (k, bencEncode v)) kvs))) = Inr out"
    and vals: "\<And>k v b. (k, v) \<in> set kvs \<Longrightarrow> bencEncode v = Inr b \<Longrightarrow> decodes b (norm v)"
    and keys: "\<And>k v. (k, v) \<in> set kvs \<Longrightarrow> key_decodes (kf k) (kt k)"
  obtains es where "out = concat (map (\<lambda>(kb, b). kb @ b) es)"
    and "list_all2 (\<lambda>(kb, b) (k, v). key_decodes kb k \<and> decodes b v) es
      (map (\<lambda>(k, v). (kt k, v)) (sort_key fst (map (\<lambda>(k, v). (k, norm v)) kvs)))"
proof -
  let ?sorted = "sort_key fst kvs"
  note s1 = sort_key_map_snd
  from out obtain bs where bs: "map (\<lambda>(k, v). and_then (bencEncode v) (\<lambda>b. Inr (kf k @ b))) ?sorted = map Inr bs"
    and out': "out = concat bs"
    unfolding s1 write_all_Inr by (auto simp: comp_def case_prod_unfold)
  let ?b = "\<lambda>v. projr (bencEncode v)"
  let ?es = "map (\<lambda>(k, v). (kf k, ?b v)) ?sorted"
  have enc: "bencEncode v = Inr (?b v)" if "(k, v) \<in> set kvs" for k v
  proof -
    from that have "and_then (bencEncode v) (\<lambda>b. Inr (kf k @ b)) \<in> set (map Inr bs)"
      unfolding bs [symmetric] by force
    then show ?thesis by (cases "bencEncode v") auto
  qed
  have mem: "(fst (?sorted ! i), snd (?sorted ! i)) \<in> set kvs" if "i < length kvs" for i
    using nth_mem [of i ?sorted] that by simp
  have step: "and_then (bencEncode v) (\<lambda>b. Inr (kf k @ b)) = Inr (kf k @ ?b v)" if "(k, v) \<in> set kvs" for k v
    by (subst enc [OF that]) simp
  have "map Inr bs = (map Inr (map (\<lambda>e. fst e @ snd e) ?es) :: (benc_error + bytes) list)"
    unfolding bs [symmetric] by (auto simp: step)
  then have "bs = map (\<lambda>e. fst e @ snd e) ?es" by (simp only: inj_map_eq_map [OF inj_Inr])
  then have "out = concat (map (\<lambda>(kb, b). kb @ b) ?es)" by (simp add: out' case_prod_unfold)
  moreover have "list_all2 (\<lambda>(kb, b) (k, v). key_decodes kb k \<and> decodes b v) ?es
      (map (\<lambda>(k, v). (kt k, v)) (sort_key fst (map (\<lambda>(k, v). (k, norm v)) kvs)))"
    unfolding s1 using mem
    by (auto simp: list_all2_conv_all_nth case_prod_unfold intro: keys [OF mem] vals [OF mem enc [OF mem]])
  ultimately show thesis by (rule that)
qed
lemma decodes_wrapped_list:
  assumes "list_all2 decodes bs vs"
  shows "decodes (ch_l # concat bs @ [ch_e]) (AList vs)"
  unfolding decodes_def
proof (intro conjI allI impI)
  fix fuel rest
  assume f: "fits ((ch_l # concat bs @ [ch_e]) @ rest)" and g: "2 * length ((ch_l # concat bs @ [ch_e]) @ rest) + 1 \<le> fuel"
  then obtain fuel' where fuel: "fuel = Suc fuel'" by (cases fuel) auto
  have "decode_list fuel' [] 1 (concat bs @ ch_e # rest) = Decoded (AList ([] @ vs)) (1 + length (concat bs) + 1)"
    using f g fuel by (intro decode_list_entries [OF assms]) (auto simp: fits_def)
  then show "decode_value fuel ((ch_l # concat bs @ [ch_e]) @ rest) = Decoded (AList vs) (length (ch_l # concat bs @ [ch_e]))"
    by (simp add: fuel)
qed simp_all

lemma decodes_wrapped_dict:
  assumes "list_all2 (\<lambda>(kb, b) (k, v). key_decodes kb k \<and> decodes b v) es kvs" and "distinct (map fst kvs)"
  defines "bs \<equiv> concat (map (\<lambda>(kb, b). kb @ b) es)"
  shows "decodes (ch_d # bs @ [ch_e]) (ADict kvs)"
  unfolding decodes_def
proof (intro conjI allI impI)
  fix fuel rest
  assume f: "fits ((ch_d # bs @ [ch_e]) @ rest)" and g: "2 * length ((ch_d # bs @ [ch_e]) @ rest) + 1 \<le> fuel"
  then obtain fuel' where fuel: "fuel = Suc fuel'" by (cases fuel) auto
  have "decode_dict fuel' [] 1 (bs @ ch_e # rest) = Decoded (ADict ([] @ kvs)) (1 + length bs + 1)"
    unfolding bs_def using f g fuel assms(2)
    by (intro decode_dict_entries [OF assms(1)]) (auto simp: fits_def bs_def)
  then show "decode_value fuel ((ch_d # bs @ [ch_e]) @ rest) = Decoded (ADict kvs) (length (ch_d # bs @ [ch_e]))"
    by (simp add: fuel)
qed simp_all

lemma distinct_sorted_text:
  assumes "distinct (map fst kvs)" and "\<And>k l. kt k = kt l \<Longrightarrow> k = l"
  shows "distinct (map fst (map (\<lambda>(k, v). (kt k, v)) (sort_key fst (map (\<lambda>(k, v). (k, g v)) kvs))))"
proof -
  have "distinct (map fst (sort_key fst kvs))" using assms(1) by (simp add: distinct_map)
  then have "distinct (map kt (map fst (sort_key fst kvs)))"
    using assms(2) by (subst distinct_map) (auto intro: inj_onI)
  then show ?thesis unfolding sort_key_map_snd by (simp add: comp_def case_prod_unfold)
qed

lemma encode_decodes: "encodable v \<Longrightarrow> bencEncode v = Inr b \<Longrightarrow> decodes b (norm v)"
proof (induction v arbitrary: b rule: bencEncode.induct)
  case (5 vs)
  then obtain bs where bs: "map bencEncode vs = map Inr bs" and b: "b = ch_l # concat bs @ [ch_e]"
    by (auto simp: and_then_Inr write_all_Inr)
  have "length bs = length vs" using arg_cong [OF bs, of length] by simp
  moreover have "decodes (bs ! i) (norm (vs ! i))" if "i < length vs" for i
    using 5(1) [of "vs ! i" "bs ! i"] 5(2) that arg_cong [OF bs, of "\<lambda>xs. xs ! i"] \<open>length bs = length vs\<close> by simp
  ultimately show ?case
    unfolding b norm.simps by (intro decodes_wrapped_list) (simp add: list_all2_conv_all_nth)
next
  case (6 kvs)
  then obtain bs where w: "write_all (map (\<lambda>(k, w). and_then w (\<lambda>b. Inr (encode_string k @ b)))
      (sort_key fst (map (\<lambda>(k, v). (k, bencEncode v)) kvs))) = Inr bs" and b: "b = ch_d # bs @ [ch_e]"
    by (auto simp: and_then_Inr)
  show ?case
  proof (rule dict_entries [OF w, of id])
    fix es assume "bs = concat (map (\<lambda>(kb, b). kb @ b) es)" and
      "list_all2 (\<lambda>(kb, b) (k, v). key_decodes kb k \<and> decodes b v) es
         (map (\<lambda>(k, v). (id k, v)) (sort_key fst (map (\<lambda>(k, v). (k, norm v)) kvs)))"
    then show ?thesis
      unfolding b using distinct_sorted_text [of kvs id norm] 6(2) decodes_wrapped_dict by (auto simp: split_def)
  qed (use 6 key_decodes_string in auto)
next
  case (7 kvs)
  then obtain bs where w: "write_all (map (\<lambda>(k, w). and_then w (\<lambda>b. Inr (encode_int k @ b)))
      (sort_key fst (map (\<lambda>(k, v). (k, bencEncode v)) kvs))) = Inr bs" and b: "b = ch_d # bs @ [ch_e]"
    by (auto simp: and_then_Inr)
  show ?case
  proof (rule dict_entries [OF w, of Itoa])
    fix es assume "bs = concat (map (\<lambda>(kb, b). kb @ b) es)" and
      "list_all2 (\<lambda>(kb, b) (k, v). key_decodes kb k \<and> decodes b v) es
         (map (\<lambda>(k, v). (Itoa k, v)) (sort_key fst (map (\<lambda>(k, v). (k, norm v)) kvs)))"
    then show ?thesis
      unfolding b using distinct_sorted_text [of kvs Itoa norm] 7(2) decodes_wrapped_dict Itoa_inject by auto
  qed (use 7 key_decodes_int in force)+
qed (auto simp: decodes_string decodes_int)
lemma sort_key_permuted:
  assumes "mset kvs = mset kvs'" and "distinct (map fst kvs)"
  shows "sort_key fst kvs = sort_key fst kvs'"
  using assms by (intro sort_key_inj_key_eq) (simp_all add: distinct_map)

lemma BencodeDecode_bytes:
  "d \<noteq> [] \<Longrightarrow> is_digit (hd d) \<Longrightarrow> BencodeDecode d = map_decoded ABytes (bencDecodeBytes d)"
  using digit_not_tag [of "hd d"] by (simp add: BencodeDecode_def)

section \<open>Properties of the codec\<close>

text \<open>
  C25. The decoder reads back what the encoder wrote, whatever follows it: strings as byte strings,
  dictionaries with all their entries (integer keys as decimal text), and it uses exactly the bytes
  that were written.
\<close>

theorem BencodeDecode_BencodeEncode:
  assumes "encodable v" and "BencodeEncode v = Inr b" and "int (length (b @ rest)) \<le> int64_max"
  shows "BencodeDecode (b @ rest) = Decoded (norm v) (length b)"
proof -
  have "decodes b (norm v)" using encode_decodes assms(1,2) by (simp add: BencodeEncode_def)
  then show ?thesis
    unfolding BencodeDecode_def decodes_def using assms(3) by (simp del: decode_value.simps add: fits_def)
qed

theorem BencodeDecode_BencodeEncode_witness:
  "BencodeDecode (projr (BencodeEncode (AIntDict [(3, AList [AString [7], AInt (- 5)]), (0, AUint64 9)])) @ [1, 2]) =
   Decoded (norm (AIntDict [(3, AList [AString [7], AInt (- 5)]), (0, AUint64 9)]))
     (length (projr (BencodeEncode (AIntDict [(3, AList [AString [7], AInt (- 5)]), (0, AUint64 9)]))))"
proof (rule BencodeDecode_BencodeEncode)
  show "encodable (AIntDict [(3, AList [AString [7], AInt (- 5)]), (0, AUint64 9)])"
    by (simp add: is_int64_def int64_min_def int64_max_def)
  show "BencodeEncode (AIntDict [(3, AList [AString [7], AInt (- 5)]), (0, AUint64 9)]) =
    Inr (projr (BencodeEncode (AIntDict [(3, AList [AString [7], AInt (- 5)]), (0, AUint64 9)])))"
    by (simp add: BencodeEncode_def)
  have "length (projr (BencodeEncode (AIntDict [(3, AList [AString [7], AInt (- 5)]), (0, AUint64 9)])) @ [1, 2]) = 22"
    by code_simp
  then show "int (length (projr (BencodeEncode (AIntDict [(3, AList [AString [7], AInt (- 5)]), (0, AUint64 9)])) @ [1, 2])) \<le> int64_max"
    by (simp add: int64_max_def)
qed

text \<open>
  C26. The decoder ends on every input, and a successful result used at least one byte and no more
  than there are; the integers in it are in range and its dictionaries have distinct keys.
\<close>

theorem BencodeDecode_total:
  "BencodeDecode d \<noteq> OutOfFuel \<and>
   (BencodeDecode d = Decoded v n \<longrightarrow> 1 \<le> n \<and> n \<le> length d \<and> wf_any v)"
  using decode_fuel(1) decode_bounds(1) unfolding BencodeDecode_def by blast

theorem BencodeDecode_total_witness:
  "BencodeDecode (str ''d1:ai5ee!'') = Decoded (ADict [(str ''a'', AInt 5)]) 8 \<and> 1 \<le> (8 :: nat) \<and>
   8 \<le> length (str ''d1:ai5ee!'') \<and> wf_any (ADict [(str ''a'', AInt 5)])"
proof
  show *: "BencodeDecode (str ''d1:ai5ee!'') = Decoded (ADict [(str ''a'', AInt 5)]) 8" by code_simp
  with BencodeDecode_total [of "str ''d1:ai5ee!''" "ADict [(str ''a'', AInt 5)]" 8]
  show "1 \<le> (8 :: nat) \<and> 8 \<le> length (str ''d1:ai5ee!'') \<and> wf_any (ADict [(str ''a'', AInt 5)])" by blast
qed



text \<open>
  The encoding of a map does not depend on the order in which the map is iterated.
\<close>

theorem BencodeEncode_iteration_order:
  assumes "mset kvs = mset kvs'" and "distinct (map fst kvs)"
    and "mset ikvs = mset ikvs'" and "distinct (map fst ikvs)"
  shows "BencodeEncode (ADict kvs) = BencodeEncode (ADict kvs') \<and>
    BencodeEncode (AIntDict ikvs) = BencodeEncode (AIntDict ikvs')"
  unfolding BencodeEncode_def bencEncode.simps sort_key_map_snd
    sort_key_permuted [OF assms(1,2)] sort_key_permuted [OF assms(3,4)] by simp

theorem BencodeEncode_iteration_order_witness:
  "BencodeEncode (ADict [([2], AInt 1), ([1], AInt 2)]) = BencodeEncode (ADict [([1], AInt 2), ([2], AInt 1)]) \<and>
   BencodeEncode (AIntDict [(4, AInt 1), (3, AInt 2)]) = BencodeEncode (AIntDict [(3, AInt 2), (4, AInt 1)])"
  by (rule BencodeEncode_iteration_order) simp_all

end
