(* ===== verification/DhtNode.thy ===== *)
theory DhtNode
  imports Kademlia Bencode Sha2
begin

text \<open>
  The message handlers of a DHT node, \<^verbatim>\<open>dht/node.go\<close>: requests, announcements and their expiry, tokens
  and datagrams. A handler is a function of the node, the time and the sender's address. The socket,
  the goroutines and the channels of pending calls are outside the model: a datagram to send is a
  value, a delivered response is a value, and a pending call is the address a response must come from.
  Times are in nanoseconds since the zero time.
\<close>

section \<open>State and messages\<close>

abbreviation (input) RPCIDSize :: nat where "RPCIDSize \<equiv> 20"
abbreviation (input) MsgSizeLimit :: nat where "MsgSizeLimit \<equiv> 1400"
abbreviation (input) AnnouncementExpiration :: int where "AnnouncementExpiration \<equiv> 86400000000000"

record UDPAddr =
  AddrIP :: ip_addr
  Port :: int
  Zone :: string

record Node =
  NodeID :: node_id
  routing :: RoutingTable
  pending :: "bytes \<rightharpoonup> UDPAddr"
  announcements :: "node_id \<rightharpoonup> (node_id \<times> Peer) list"
  announcementTimes :: "node_id \<rightharpoonup> (node_id \<times> int) list"
  announcementOrder :: "node_id list"
  running :: bool
  tokenSecret :: bytes

record DHTMessage =
  MsgType :: int
  RPCID :: bytes
  MsgNodeID :: bytes
  Payload :: "any option"
  Arguments :: "any list option"

definition NewNodeWithID :: "node_id \<Rightarrow> bytes \<Rightarrow> Node" where
  "NewNodeWithID i secret = \<lparr>NodeID = i, routing = NewRoutingTable i, pending = Map.empty,
     announcements = Map.empty, announcementTimes = Map.empty, announcementOrder = [], running = False,
     tokenSecret = secret\<rparr>"

section \<open>Values of messages\<close>

definition toBencInt :: "any option \<Rightarrow> int" where
  "toBencInt v = (case v of Some (AInt n) \<Rightarrow> n | _ \<Rightarrow> 0)"

definition toBytes :: "any option \<Rightarrow> bytes" where
  "toBytes v = (case v of Some (ABytes b) \<Rightarrow> b | Some (AString b) \<Rightarrow> b | _ \<Rightarrow> [])"

definition getBencList :: "(bytes \<times> any) list \<Rightarrow> bytes \<Rightarrow> any list option" where
  "getBencList m key = (case map_of m key of Some (AList l) \<Rightarrow> Some l | _ \<Rightarrow> None)"

definition getKeywordArguments :: "any list \<Rightarrow> (bytes \<times> any) list option" where
  "getKeywordArguments args =
     (if args \<noteq> [] then (case last args of ADict m \<Rightarrow> Some m | _ \<Rightarrow> None) else None)"

definition sameUDPAddress :: "UDPAddr \<Rightarrow> UDPAddr \<Rightarrow> bool" where
  "sameUDPAddress expected actual \<longleftrightarrow> Port expected = Port actual \<and> Zone expected = Zone actual \<and>
     IP_Equal (AddrIP expected) (AddrIP actual)"

text \<open>\<^verbatim>\<open>copy(b[0:4], p.IP.To4())\<close> leaves zeros for a nil address.\<close>

definition CompactAddr :: "Peer \<Rightarrow> bytes" where
  "CompactAddr p = (case To4 (IP p) of Some ip \<Rightarrow> ip | None \<Rightarrow> replicate 4 0) @
     be_bytes 2 (nat (TCPPort p mod 65536)) @ PeerID p"

definition ParseCompactAddr :: "bytes \<Rightarrow> ip_addr \<times> int \<times> node_id" where
  "ParseCompactAddr b = (v4InV6Prefix @ take 4 b, int (be_value (take 2 (drop 4 b))), take HashSize (drop 6 b))"

definition peersToContactList :: "Peer list \<Rightarrow> any list" where
  "peersToContactList peers = concat (map (\<lambda>p. case To4 (IP p) of
       None \<Rightarrow> []
     | Some ip4 \<Rightarrow> [AList [ABytes (PeerID p), ABytes ip4, AInt (UDPPort p)]]) peers)"

section \<open>Tokens\<close>

definition makeToken :: "Node \<Rightarrow> ip_addr \<Rightarrow> bytes" where
  "makeToken n ip = sha384 (tokenSecret n @ (case To4 ip of Some v4 \<Rightarrow> v4 | None \<Rightarrow> []))"

definition verifyToken :: "Node \<Rightarrow> bytes \<Rightarrow> ip_addr \<Rightarrow> bool" where
  "verifyToken n token ip =
     (let expected = makeToken n ip
      in if length token \<noteq> length expected then False
         else fold (\<lambda>(t, e) mismatch. mismatch OR (t XOR e)) (zip token expected) (0 :: byte) = 0)"

section \<open>Requests\<close>

definition handlePing :: "Node \<Rightarrow> string + any" where
  "handlePing n = Inr (AString (str ''pong''))"

definition handleFindNode :: "Node \<Rightarrow> any list \<Rightarrow> string + any" where
  "handleFindNode n args =
     (if length args = 0 then Inl ''Needs arguments''
      else
        let key = toBytes (Some (args ! 0))
        in if length key \<noteq> HashSize then Inl ''Key fails length''
           else Inr (AList (peersToContactList (ClosestPeers (routing n) key K))))"

text \<open>The announcements of a key that have not expired, in the order of the pages.\<close>

definition live :: "int \<Rightarrow> (node_id \<times> int) list \<Rightarrow> node_id \<Rightarrow> bool" where
  "live now timestamps publisher =
     (now < (case map_of timestamps publisher of Some t \<Rightarrow> t | None \<Rightarrow> 0) + AnnouncementExpiration)"

definition announced :: "Node \<Rightarrow> int \<Rightarrow> node_id \<Rightarrow> bytes list" where
  "announced n now key =
     (let stored = (case announcements n key of Some ps \<Rightarrow> ps | None \<Rightarrow> []);
          timestamps = (case announcementTimes n key of Some ts \<Rightarrow> ts | None \<Rightarrow> [])
      in sort (map (\<lambda>(publisher, peer). CompactAddr peer)
           (filter (\<lambda>(publisher, peer). live now timestamps publisher) stored)))"

definition page_count :: "bytes list \<Rightarrow> int" where
  "page_count found = (if length found > 0 then int (length found div (K + 1)) + 1 else 0)"

definition page_providers :: "bytes list \<Rightarrow> int \<Rightarrow> bytes list option" where
  "page_providers found page =
     (if page \<le> int (length found div K) then
        let start = nat page * K
        in if start < length found then Some (take (min (start + K) (length found) - start) (drop start found))
           else None
      else None)"

definition handleFindValue :: "Node \<Rightarrow> int \<Rightarrow> UDPAddr \<Rightarrow> any list \<Rightarrow> string + any" where
  "handleFindValue n now from args =
     (if length args = 0 then Inl ''Needs arguments''
      else
        let key = toBytes (Some (args ! 0))
        in if length key \<noteq> HashSize then Inl ''Key fails length''
           else
             let page = (case getKeywordArguments args of
                           Some kw \<Rightarrow> max 0 (toBencInt (map_of kw (str ''p''))) | None \<Rightarrow> 0);
                 found = announced n now key
             in Inr (ADict (
                  [(str ''token'', AString (makeToken n (AddrIP from))), (str ''protocolVersion'', AInt 1)] @
                  (if page = 0 then [(str ''contacts'', AList (peersToContactList (ClosestPeers (routing n) key K)))]
                   else []) @
                  [(str ''p'', AInt (page_count found))] @
                  (case page_providers found page of
                     Some ps \<Rightarrow> [(key, AList (map ABytes ps))] | None \<Rightarrow> []))))"

text \<open>\<^verbatim>\<open>m[key][publisher] = value\<close>, on a map of maps.\<close>

definition put2 :: "(node_id \<rightharpoonup> (node_id \<times> 'v) list) \<Rightarrow> node_id \<Rightarrow> node_id \<Rightarrow> 'v \<Rightarrow> (node_id \<rightharpoonup> (node_id \<times> 'v) list)" where
  "put2 m key publisher v = m(key \<mapsto> put publisher v (case m key of Some kvs \<Rightarrow> kvs | None \<Rightarrow> []))"

definition store_announcement :: "Node \<Rightarrow> node_id \<Rightarrow> node_id \<Rightarrow> Peer \<Rightarrow> int \<Rightarrow> Node" where
  "store_announcement n key publisher peer now =
     (let fresh = (announcements n key = None);
          times = (if fresh then (announcementTimes n)(key \<mapsto> []) else announcementTimes n)
      in n\<lparr>announcements := put2 (announcements n) key publisher peer,
           announcementTimes := put2 times key publisher now,
           announcementOrder := (if fresh then announcementOrder n @ [key] else announcementOrder n)\<rparr>)"

definition handleStore :: "Node \<Rightarrow> int \<Rightarrow> UDPAddr \<Rightarrow> any list \<Rightarrow> Node \<times> (string + any)" where
  "handleStore n now from args =
     (if length args < 5 then (n, Inl ''store needs five arguments'')
      else
        let blobHash = toBytes (Some (args ! 0)); token = toBytes (Some (args ! 1));
            port = toBencInt (Some (args ! 2)); publisher = toBytes (Some (args ! 3))
        in if length blobHash \<noteq> HashSize \<or> length token \<noteq> HashSize \<or> length publisher \<noteq> HashSize
           then (n, Inl ''invalid store arguments'')
           else if port \<le> 0 \<or> port > 65535 then (n, Inl ''invalid tcp port'')
           else if \<not> verifyToken n token (AddrIP from) then (n, Inl ''Invalid token'')
           else
             (store_announcement n blobHash publisher
                \<lparr>PeerID = publisher, IP = AddrIP from, UDPPort = Port from, TCPPort = port, LastSeen = 0\<rparr> now,
              Inr (AString (str ''OK''))))"

definition authenticatedRequestArguments :: "DHTMessage \<Rightarrow> any list" where
  "authenticatedRequestArguments message =
     (let arguments = (case Arguments message of Some a \<Rightarrow> a | None \<Rightarrow> [])
      in case Payload message of
           Some (ABytes method) \<Rightarrow>
             if method \<noteq> str ''store'' \<or> length (MsgNodeID message) \<noteq> HashSize \<or> length arguments < 4
             then arguments else arguments[3 := ABytes (MsgNodeID message)]
         | _ \<Rightarrow> arguments)"

definition reply_message :: "bytes \<Rightarrow> string + any \<Rightarrow> DHTMessage" where
  "reply_message rpc result =
     (case result of
        Inl e \<Rightarrow> \<lparr>MsgType = 2, RPCID = rpc, MsgNodeID = [], Payload = Some (ABytes (str e)), Arguments = None\<rparr>
      | Inr v \<Rightarrow> \<lparr>MsgType = 1, RPCID = rpc, MsgNodeID = [], Payload = Some v, Arguments = None\<rparr>)"

text \<open>The node and the message that is sent back, if any.\<close>

definition handleRequest :: "Node \<Rightarrow> int \<Rightarrow> UDPAddr \<Rightarrow> DHTMessage \<Rightarrow> Node \<times> DHTMessage option" where
  "handleRequest n now from message =
     (case Payload message of
        Some (ABytes method) \<Rightarrow>
          let args = authenticatedRequestArguments message; reply = reply_message (RPCID message)
          in if method = str ''ping'' then (n, Some (reply (handlePing n)))
             else if method = str ''findNode'' then (n, Some (reply (handleFindNode n args)))
             else if method = str ''findValue'' then (n, Some (reply (handleFindValue n now from args)))
             else if method = str ''store'' then
               (let (n', r) = handleStore n now from args in (n', Some (reply r)))
             else (n, Some (reply (Inl ''Unknown method'')))
      | _ \<Rightarrow> (n, None))"

section \<open>Expiry\<close>

definition expired :: "int \<Rightarrow> (node_id \<times> int) list \<Rightarrow> node_id \<Rightarrow> bool" where
  "expired now timestamps publisher =
     ((case map_of timestamps publisher of Some t \<Rightarrow> t | None \<Rightarrow> 0) + AnnouncementExpiration < now)"

definition expire_key :: "int \<Rightarrow> Node \<Rightarrow> node_id \<Rightarrow> Node" where
  "expire_key now n hash =
     (let providers = (case announcements n hash of Some ps \<Rightarrow> ps | None \<Rightarrow> []);
          timestamps = (case announcementTimes n hash of Some ts \<Rightarrow> ts | None \<Rightarrow> []);
          gone = (\<lambda>publisher. publisher \<in> set (map fst providers) \<and> expired now timestamps publisher);
          providers' = filter (\<lambda>(publisher, _). \<not> gone publisher) providers;
          timestamps' = filter (\<lambda>(publisher, _). \<not> gone publisher) timestamps
      in if providers' = [] then
           n\<lparr>announcements := (announcements n)(hash := None),
             announcementTimes := (announcementTimes n)(hash := None)\<rparr>
         else
           n\<lparr>announcements := (announcements n)(hash \<mapsto> providers'),
             announcementTimes := (announcementTimes n)(hash \<mapsto> timestamps'),
             announcementOrder := announcementOrder n @ [hash]\<rparr>)"

definition expireAnnouncements :: "int \<Rightarrow> Node \<Rightarrow> Node" where
  "expireAnnouncements now n =
     fold (\<lambda>hash n. expire_key now n hash) (announcementOrder n) (n\<lparr>announcementOrder := []\<rparr>)"

section \<open>Datagrams\<close>

datatype send_error = SendEncode benc_error | DatagramTooLarge | NodeStopped

definition sendMessage :: "Node \<Rightarrow> DHTMessage \<Rightarrow> send_error + bytes" where
  "sendMessage n message =
     (let msg = [(0, AInt (MsgType message)), (1, ABytes (RPCID message)), (2, ABytes (NodeID n)),
                 (3, case Payload message of Some v \<Rightarrow> v | None \<Rightarrow> AOther ''nil'')] @
                (case Arguments message of Some a \<Rightarrow> [(4, AList a)] | None \<Rightarrow> [])
      in case BencodeEncode (AIntDict msg) of
           Inl e \<Rightarrow> Inl (SendEncode e)
         | Inr d \<Rightarrow> if length d > MsgSizeLimit then Inl DatagramTooLarge
                    else if running n then Inr d else Inl NodeStopped)"

text \<open>
  What a datagram leads to: nothing, the reply to a request (with the new node), the delivery of a
  response to the call that waits for it, or a panic.
\<close>

datatype received =
    Ignored
  | Replied Node DHTMessage
  | NotReplied Node
  | Delivered Node bytes "(bytes \<times> any) list"
  | Panicked

definition handleMessage :: "Node \<Rightarrow> int \<Rightarrow> bytes \<Rightarrow> UDPAddr \<Rightarrow> received" where
  "handleMessage n now d from =
     (if length d = 0 \<or> length d > MsgSizeLimit then Ignored
      else case BencodeDecode d of
        Panic \<Rightarrow> Panicked
      | Decoded (ADict msg) consumed \<Rightarrow>
          if consumed \<noteq> length d then Ignored
          else (case (map_of msg (str ''0''), map_of msg (str ''1''), map_of msg (str ''2'')) of
             (Some (AInt messageType), Some (ABytes rpcID), Some (ABytes nodeID)) \<Rightarrow>
               if messageType < 0 \<or> messageType > 2 \<or> length rpcID \<noteq> RPCIDSize \<or> length nodeID \<noteq> HashSize then Ignored
               else if messageType = 0 then
                 (case map_of msg (str ''3'') of
                    Some (ABytes method) \<Rightarrow>
                      if length method = 0 then Ignored
                      else
                        (case handleRequest n now from \<lparr>MsgType = messageType, RPCID = rpcID, MsgNodeID = nodeID,
                            Payload = Some (ABytes method), Arguments = getBencList msg (str ''4'')\<rparr> of
                           (n', Some reply) \<Rightarrow> Replied n' reply
                         | (n', None) \<Rightarrow> NotReplied n')
                  | _ \<Rightarrow> Ignored)
               else
                 (case pending n rpcID of
                    Some address \<Rightarrow>
                      if sameUDPAddress address from then
                        Delivered (n\<lparr>routing := snd (AddPeer now (routing n)
                          \<lparr>PeerID = nodeID, IP = AddrIP from, UDPPort = Port from, TCPPort = 0, LastSeen = 0\<rparr>)\<rparr>) rpcID msg
                      else Ignored
                  | None \<Rightarrow> Ignored)
           | _ \<Rightarrow> Ignored)
      | _ \<Rightarrow> Ignored)"

section \<open>Calls\<close>

text \<open>
  \<^verbatim>\<open>sendRPC\<close> up to the datagram it sends, and from the end of its wait. \<^verbatim>\<open>rpcID\<close> is the identifier
  it draws at random, the outcome what its \<^verbatim>\<open>select\<close> sees first.
\<close>

definition with_protocol_version :: "any list \<Rightarrow> any list" where
  "with_protocol_version args =
     (let pv = str ''protocolVersion''
      in if args \<noteq> [] then
           (case last args of
              ADict d \<Rightarrow> butlast args @ [ADict (put pv (AInt 1) d)]
            | _ \<Rightarrow> args @ [ADict [(pv, AInt 1)]])
         else [ADict [(pv, AInt 1)]])"

definition end_call :: "bytes \<Rightarrow> Node \<Rightarrow> Node" where
  "end_call rpcID n = n\<lparr>pending := (pending n)(rpcID := None)\<rparr>"

definition begin_call :: "Node \<Rightarrow> bytes \<Rightarrow> UDPAddr \<Rightarrow> bytes \<Rightarrow> any list \<Rightarrow> Node \<times> (send_error + bytes)" where
  "begin_call n rpcID to method args =
     (if \<not> running n then (n, Inl NodeStopped)
      else
        let n' = n\<lparr>pending := (pending n)(rpcID \<mapsto> to)\<rparr>
        in case sendMessage n' \<lparr>MsgType = 0, RPCID = rpcID, MsgNodeID = [], Payload = Some (ABytes method),
               Arguments = Some (with_protocol_version args)\<rparr> of
             Inl e \<Rightarrow> (end_call rpcID n', Inl e)
           | Inr d \<Rightarrow> (n', Inr d))"

datatype outcome = Response "(bytes \<times> any) list" | Timeout | ContextDone

definition call_result :: "outcome \<Rightarrow> bytes + (bytes \<times> any) list" where
  "call_result r =
     (case r of
        Response resp \<Rightarrow> if toBencInt (map_of resp (str ''0'')) = 2 then Inl (toBytes (map_of resp (str ''3''))) else Inr resp
      | Timeout \<Rightarrow> Inl (str ''rpc timeout'')
      | ContextDone \<Rightarrow> Inl (str ''dht: node stopped''))"

section \<open>The node as a state machine\<close>

definition StoredBlobHashes :: "Node \<Rightarrow> node_id list" where
  "StoredBlobHashes n =
     filter (\<lambda>hash. length (case announcements n hash of Some ps \<Rightarrow> ps | None \<Rightarrow> []) > 0) (announcementOrder n)"

definition ObservePeer :: "int \<Rightarrow> Peer \<Rightarrow> Node \<Rightarrow> Node" where
  "ObservePeer now peer n = n\<lparr>routing := snd (AddPeer now (routing n) peer)\<rparr>"

text \<open>
  What can happen to a node: a datagram, the sweep of the refresh loop, a contact that is observed or
  has failed, a call that begins or ends. A panic ends the run.
\<close>

datatype node_event =
    Receive int bytes UDPAddr
  | Sweep int
  | Observe int Peer
  | Fail node_id
  | Begin bytes UDPAddr bytes "any list"
  | End bytes

definition after_datagram :: "Node \<Rightarrow> received \<Rightarrow> Node option" where
  "after_datagram n r =
     (case r of Ignored \<Rightarrow> Some n | Replied n' _ \<Rightarrow> Some n' | NotReplied n' \<Rightarrow> Some n' | Delivered n' _ _ \<Rightarrow> Some n' | Panicked \<Rightarrow> None)"

primrec node_step :: "node_event \<Rightarrow> Node \<Rightarrow> Node option" where
  "node_step (Receive now d from) n = after_datagram n (handleMessage n now d from)"
| "node_step (Sweep now) n = Some (expireAnnouncements now n)"
| "node_step (Observe now peer) n = Some (ObservePeer now peer n)"
| "node_step (Fail nodeID) n = Some (n\<lparr>routing := snd (MarkFailure (routing n) nodeID)\<rparr>)"
| "node_step (Begin rpcID to method args) n = Some (fst (begin_call n rpcID to method args))"
| "node_step (End rpcID) n = Some (end_call rpcID n)"

inductive node_reachable :: "node_id \<Rightarrow> bytes \<Rightarrow> Node \<Rightarrow> bool" for self secret where
  new: "node_reachable self secret ((NewNodeWithID self secret)\<lparr>running := r\<rparr>)"
| step: "node_reachable self secret n \<Longrightarrow> node_step ev n = Some n' \<Longrightarrow>
    (case ev of Observe now peer \<Rightarrow> length (PeerID peer) = HashSize | Fail nodeID \<Rightarrow> length nodeID = HashSize | _ \<Rightarrow> True) \<Longrightarrow>
    node_reachable self secret n'"
section \<open>Tokens\<close>

lemma or_zero: "(x :: byte) OR y = 0 \<longleftrightarrow> x = 0 \<and> y = 0"
  by (auto simp: bit_eq_iff bit_or_iff)

lemma xor_zero: "(x :: byte) XOR y = 0 \<longleftrightarrow> x = y"
  by (auto simp: bit_eq_iff bit_xor_iff)

lemma mismatch_zero:
  "fold (\<lambda>(t, e) m. m OR (t XOR e)) zs (m0 :: byte) = 0 \<longleftrightarrow> m0 = 0 \<and> (\<forall>(t, e)\<in>set zs. t = e)"
  by (induction zs arbitrary: m0) (auto simp: or_zero xor_zero)

lemma verifyToken_iff: "verifyToken n token ip \<longleftrightarrow> token = makeToken n ip"
proof -
  have "length token = length e \<Longrightarrow> (\<forall>(t, e)\<in>set (zip token e). t = e) \<longleftrightarrow> token = e" for e
    by (induction token e rule: list_induct2) auto
  then show ?thesis by (auto simp: verifyToken_def Let_def mismatch_zero)
qed

section \<open>The announcement store\<close>

text \<open>What is announced: for a key and a publisher, the contact and the time it was stored.\<close>

definition entry :: "Node \<Rightarrow> node_id \<Rightarrow> node_id \<Rightarrow> (Peer \<times> int) option" where
  "entry n key publisher =
     (case (announcements n key, announcementTimes n key) of
        (Some ps, Some ts) \<Rightarrow>
          (case (map_of ps publisher, map_of ts publisher) of
             (Some peer, Some t) \<Rightarrow> Some (peer, t) | _ \<Rightarrow> None)
      | _ \<Rightarrow> None)"

definition ann_inv :: "Node \<Rightarrow> bool" where
  "ann_inv n \<longleftrightarrow>
     distinct (announcementOrder n) \<and> dom (announcements n) = set (announcementOrder n) \<and>
     dom (announcementTimes n) = set (announcementOrder n) \<and>
     (\<forall>key ps. announcements n key = Some ps \<longrightarrow> ps \<noteq> [] \<and> distinct (map fst ps) \<and>
        (\<exists>ts. announcementTimes n key = Some ts \<and> map fst ts = map fst ps))"

text \<open>
  The contract of a store of announcements: what is found after a store and after an expiry. The
  lemmas hold for every implementation of it.
\<close>

locale announcement_store =
  fixes inv :: "'s \<Rightarrow> bool"
    and found :: "'s \<Rightarrow> node_id \<Rightarrow> node_id \<Rightarrow> (Peer \<times> int) option"
    and store :: "'s \<Rightarrow> node_id \<Rightarrow> node_id \<Rightarrow> Peer \<Rightarrow> int \<Rightarrow> 's"
    and expire :: "int \<Rightarrow> 's \<Rightarrow> 's"
  assumes store_inv: "inv s \<Longrightarrow> inv (store s k i p t)"
    and expire_inv: "inv s \<Longrightarrow> inv (expire now s)"
    and found_store: "inv s \<Longrightarrow> found (store s k i p t) k' i' = (if k' = k \<and> i' = i then Some (p, t) else found s k' i')"
    and found_expire: "inv s \<Longrightarrow> found (expire now s) k i =
          (case found s k i of Some (p, t) \<Rightarrow> if t + AnnouncementExpiration < now then None else Some (p, t) | None \<Rightarrow> None)"
begin

lemma expire_monotone: "inv s \<Longrightarrow> now \<le> later \<Longrightarrow> found (expire later (expire now s)) = found (expire later s)"
  by (intro ext) (auto simp: found_expire expire_inv split: option.split)

lemma store_lives: "inv s \<Longrightarrow> now \<le> t + AnnouncementExpiration \<Longrightarrow> found (expire now (store s k i p t)) k i = Some (p, t)"
  by (simp add: found_expire store_inv found_store)

lemma store_dies: "inv s \<Longrightarrow> t + AnnouncementExpiration < now \<Longrightarrow> found (expire now (store s k i p t)) k i = None"
  by (simp add: found_expire store_inv found_store)

lemma store_overwrites: "inv s \<Longrightarrow> found (store (store s k i p t) k i p' t') = found (store s k i p' t')"
  by (intro ext) (simp add: found_store store_inv)

end

lemma map_of_put [simp]: "map_of (put k v kvs) = (map_of kvs)(k \<mapsto> v)"
  by (induction k v kvs rule: put.induct) (auto simp: fun_eq_iff)

lemma put_fst: "map fst xs = map fst ys \<Longrightarrow> map fst (put k v xs) = map fst (put k w ys)"
proof (induction xs arbitrary: ys)
  case (Cons x xs)
  then show ?case by (cases ys; cases x; cases "hd ys") auto
qed simp

lemma put_nonempty [simp]: "put k v kvs \<noteq> []"
  by (cases kvs) (auto split: if_splits)

lemma ann_inv_key:
  assumes "ann_inv n" and "announcements n key = Some ps"
  obtains ts where "announcementTimes n key = Some ts" "map fst ts = map fst ps" "distinct (map fst ps)" "ps \<noteq> []"
  using assms unfolding ann_inv_def by blast

lemma same_keys_map_of: "map fst ts = map fst ps \<Longrightarrow> map_of ts i = None \<longleftrightarrow> map_of ps i = None"
  by (metis list.set_map map_of_eq_None_iff)

lemma ann_inv_store: "ann_inv n \<Longrightarrow> ann_inv (store_announcement n key i peer now)"
proof -
  assume inv: "ann_inv n"
  show ?thesis
  proof (cases "announcements n key")
    case None
    with inv show ?thesis
      by (auto simp: ann_inv_def store_announcement_def put2_def Let_def domIff)
  next
    case (Some ps)
    with inv obtain ts where ts: "announcementTimes n key = Some ts" "map fst ts = map fst ps" "distinct (map fst ps)"
      by (rule ann_inv_key)
    have "key \<in> set (announcementOrder n)" using inv Some by (auto simp: ann_inv_def)
    then show ?thesis
      using inv Some ts put_fst [OF ts(2)] put_distinct [OF ts(3), of i peer]
      by (auto simp: ann_inv_def store_announcement_def put2_def Let_def insert_absorb)
  qed
qed

lemma entry_store:
  assumes inv: "ann_inv n"
  shows "entry (store_announcement n key i peer now) key' i' =
    (if key' = key \<and> i' = i then Some (peer, now) else entry n key' i')"
proof (cases "announcements n key")
  case None
  with inv have "announcementTimes n key = None" by (auto simp: ann_inv_def domIff)
  with None show ?thesis by (auto simp: entry_def store_announcement_def put2_def Let_def)
next
  case (Some ps)
  with inv obtain ts where "announcementTimes n key = Some ts" by (rule ann_inv_key)
  with Some show ?thesis by (auto simp: entry_def store_announcement_def put2_def Let_def)
qed
text \<open>What \<^verbatim>\<open>expireAnnouncements\<close> leaves of one key.\<close>

definition keep :: "int \<Rightarrow> Node \<Rightarrow> node_id \<Rightarrow> node_id \<Rightarrow> bool" where
  "keep now n key i \<longleftrightarrow> \<not> (i \<in> set (map fst (case announcements n key of Some ps \<Rightarrow> ps | None \<Rightarrow> [])) \<and>
     expired now (case announcementTimes n key of Some ts \<Rightarrow> ts | None \<Rightarrow> []) i)"

definition kept_providers :: "int \<Rightarrow> Node \<Rightarrow> node_id \<Rightarrow> (node_id \<times> Peer) list" where
  "kept_providers now n key =
     filter (\<lambda>(i, _). keep now n key i) (case announcements n key of Some ps \<Rightarrow> ps | None \<Rightarrow> [])"

definition kept_times :: "int \<Rightarrow> Node \<Rightarrow> node_id \<Rightarrow> (node_id \<times> int) list" where
  "kept_times now n key =
     filter (\<lambda>(i, _). keep now n key i) (case announcementTimes n key of Some ts \<Rightarrow> ts | None \<Rightarrow> [])"

lemmas kept_defs = keep_def kept_providers_def kept_times_def

lemma expire_key_eq:
  "expire_key now n hash =
     (if kept_providers now n hash = []
      then n\<lparr>announcements := (announcements n)(hash := None), announcementTimes := (announcementTimes n)(hash := None)\<rparr>
      else n\<lparr>announcements := (announcements n)(hash \<mapsto> kept_providers now n hash),
             announcementTimes := (announcementTimes n)(hash \<mapsto> kept_times now n hash),
             announcementOrder := announcementOrder n @ [hash]\<rparr>)"
  by (simp add: expire_key_def kept_defs Let_def)

lemma expire_key_other:
  "k \<noteq> h \<Longrightarrow> kept_providers now (expire_key now n h) k = kept_providers now n k"
  "k \<noteq> h \<Longrightarrow> kept_times now (expire_key now n h) k = kept_times now n k"
  by (simp_all add: expire_key_eq kept_defs)

lemma expire_fold:
  fixes now :: int and hs :: "node_id list"
  assumes "distinct hs"
  defines "m n \<equiv> fold (\<lambda>h n. expire_key now n h) hs n"
  shows "announcements (m n) k = (if k \<in> set hs then if kept_providers now n k = [] then None
            else Some (kept_providers now n k) else announcements n k) \<and>
         announcementTimes (m n) k = (if k \<in> set hs then if kept_providers now n k = [] then None
            else Some (kept_times now n k) else announcementTimes n k) \<and>
         announcementOrder (m n) = announcementOrder n @ filter (\<lambda>h. kept_providers now n h \<noteq> []) hs"
  using assms(1) unfolding m_def
proof (induction hs arbitrary: n)
  case (Cons h hs)
  have "x \<in> set hs \<Longrightarrow> kept_providers now (expire_key now n h) x = kept_providers now n x" for x
    using Cons.prems by (intro expire_key_other) auto
  then have "filter (\<lambda>x. kept_providers now (expire_key now n h) x \<noteq> []) hs = filter (\<lambda>x. kept_providers now n x \<noteq> []) hs"
    by (intro filter_cong) simp_all
  with Cons.IH [of "expire_key now n h"] Cons.prems show ?case
    by (cases "k = h") (simp_all add: expire_key_other, simp_all add: expire_key_eq)
qed simp

lemma expire_announcements:
  assumes "ann_inv n"
  shows "announcements (expireAnnouncements now n) k = (if kept_providers now n k = [] then None else Some (kept_providers now n k))"
    and "announcementTimes (expireAnnouncements now n) k = (if kept_providers now n k = [] then None else Some (kept_times now n k))"
    and "announcementOrder (expireAnnouncements now n) = filter (\<lambda>h. kept_providers now n h \<noteq> []) (announcementOrder n)"
proof -
  let ?n = "n\<lparr>announcementOrder := []\<rparr>"
  have d: "distinct (announcementOrder n)" using assms by (simp add: ann_inv_def)
  have same: "kept_providers now ?n = kept_providers now n" "kept_times now ?n = kept_times now n"
    by (auto simp: kept_defs fun_eq_iff)
  note f = expire_fold [OF d, where n = ?n and now = now and k = k, folded expireAnnouncements_def, unfolded same]
  have outside: "announcements n k = None \<and> announcementTimes n k = None" if "k \<notin> set (announcementOrder n)"
    using assms that unfolding ann_inv_def by (metis domIff)
  then have "k \<notin> set (announcementOrder n) \<Longrightarrow> kept_providers now n k = []" by (simp add: kept_providers_def)
  with f outside
  show "announcements (expireAnnouncements now n) k = (if kept_providers now n k = [] then None else Some (kept_providers now n k))"
    and "announcementTimes (expireAnnouncements now n) k = (if kept_providers now n k = [] then None else Some (kept_times now n k))"
    and "announcementOrder (expireAnnouncements now n) = filter (\<lambda>h. kept_providers now n h \<noteq> []) (announcementOrder n)"
    by auto
qed

lemma map_fst_filter: "map fst (filter (\<lambda>(i, _). P i) xs) = filter P (map fst xs)"
  by (induction xs) auto

lemma kept_same_keys:
  assumes "ann_inv n"
  shows "map fst (kept_times now n k) = map fst (kept_providers now n k)" "distinct (map fst (kept_providers now n k))"
proof -
  have "map fst (kept_times now n k) = map fst (kept_providers now n k) \<and> distinct (map fst (kept_providers now n k))"
  proof (cases "announcements n k")
    case None
    then have "announcementTimes n k = None" using assms unfolding ann_inv_def by (metis domIff)
    with None show ?thesis by (simp add: kept_providers_def kept_times_def)
  next
    case (Some ps)
    with assms show ?thesis
      by (rule ann_inv_key) (simp add: kept_providers_def kept_times_def Some map_fst_filter)
  qed
  then show "map fst (kept_times now n k) = map fst (kept_providers now n k)" "distinct (map fst (kept_providers now n k))"
    by simp_all
qed

lemma ann_inv_expire: "ann_inv n \<Longrightarrow> ann_inv (expireAnnouncements now n)"
proof -
  assume inv: "ann_inv n"
  have none: "kept_providers now n k \<noteq> [] \<Longrightarrow> k \<in> set (announcementOrder n)" for k
    using inv by (auto simp: kept_providers_def ann_inv_def split: option.splits)
  then have "dom (announcements (expireAnnouncements now n)) = set (announcementOrder (expireAnnouncements now n))"
    and "dom (announcementTimes (expireAnnouncements now n)) = set (announcementOrder (expireAnnouncements now n))"
    by (auto simp: expire_announcements [OF inv] dom_def split: if_splits)
  moreover have "distinct (announcementOrder (expireAnnouncements now n))"
    using inv by (simp add: expire_announcements [OF inv] ann_inv_def)
  ultimately show ?thesis
    unfolding ann_inv_def [of "expireAnnouncements now n"]
    using kept_same_keys [OF inv] by (auto simp: expire_announcements [OF inv] split: if_splits)
qed

lemma map_of_filter_key: "map_of (filter (\<lambda>(i, _). P i) xs) i = (if P i then map_of xs i else None)"
  by (induction xs) auto

lemma entry_expire:
  assumes inv: "ann_inv n"
  shows "entry (expireAnnouncements now n) k i =
    (case entry n k i of Some (p, t) \<Rightarrow> if t + AnnouncementExpiration < now then None else Some (p, t) | None \<Rightarrow> None)"
proof (cases "announcements n k")
  case None
  then show ?thesis by (simp add: entry_def expire_announcements [OF inv] kept_providers_def)
next
  case (Some ps)
  with inv obtain ts where ts: "announcementTimes n k = Some ts" "map fst ts = map fst ps" by (rule ann_inv_key)
  have e: "entry n k i = (case (map_of ps i, map_of ts i) of (Some p, Some t) \<Rightarrow> Some (p, t) | _ \<Rightarrow> None)"
    by (simp add: entry_def Some ts)
  have "filter (\<lambda>(i, _). keep now n k i) ps = [] \<Longrightarrow> map_of ps i = Some p \<Longrightarrow> \<not> keep now n k i" for p
    by (auto simp: filter_empty_conv dest: map_of_SomeD)
  then have new: "entry (expireAnnouncements now n) k i =
      (if keep now n k i then entry n k i else None)"
    by (auto simp: entry_def expire_announcements [OF inv] Some ts kept_providers_def kept_times_def map_of_filter_key
        split: option.splits dest: map_of_SomeD simp del: filter_empty_conv)
  show ?thesis
  proof (cases "map_of ps i")
    case None
    with e new show ?thesis by simp
  next
    case (Some p)
    then obtain t where t: "map_of ts i = Some t" using same_keys_map_of [OF ts(2), of i] by fastforce
    have "i \<in> fst ` set ps" using Some by (metis image_eqI fst_conv map_of_SomeD)
    then have "keep now n k i \<longleftrightarrow> \<not> t + AnnouncementExpiration < now"
      using \<open>announcements n k = Some ps\<close> ts t by (simp add: keep_def expired_def)
    with e new Some t show ?thesis by simp
  qed
qed

interpretation ann: announcement_store ann_inv entry store_announcement expireAnnouncements
  by unfold_locales (auto simp: ann_inv_store ann_inv_expire entry_store entry_expire)

section \<open>Stores\<close>

text \<open>The fields a store request carries, and when they are acceptable.\<close>

definition store_ok :: "Node \<Rightarrow> UDPAddr \<Rightarrow> any list \<Rightarrow> bool" where
  "store_ok n from args \<longleftrightarrow> 5 \<le> length args \<and> length (toBytes (Some (args ! 0))) = HashSize \<and>
     length (toBytes (Some (args ! 3))) = HashSize \<and>
     0 < toBencInt (Some (args ! 2)) \<and> toBencInt (Some (args ! 2)) \<le> 65535 \<and>
     toBytes (Some (args ! 1)) = makeToken n (AddrIP from)"

definition provider :: "UDPAddr \<Rightarrow> any list \<Rightarrow> Peer" where
  "provider from args = \<lparr>PeerID = toBytes (Some (args ! 3)), IP = AddrIP from, UDPPort = Port from,
     TCPPort = toBencInt (Some (args ! 2)), LastSeen = 0\<rparr>"

lemma length_makeToken [simp]: "length (makeToken n ip) = 48"
  by (simp add: makeToken_def)

lemma handleStore_accept:
  "store_ok n from args \<Longrightarrow> handleStore n now from args =
     (store_announcement n (toBytes (Some (args ! 0))) (toBytes (Some (args ! 3))) (provider from args) now, Inr (AString (str ''OK'')))"
  by (simp add: handleStore_def store_ok_def verifyToken_iff Let_def provider_def)

lemma handleStore_reject: "\<not> store_ok n from args \<Longrightarrow> \<exists>e. handleStore n now from args = (n, Inl e)"
  by (auto simp: handleStore_def store_ok_def verifyToken_iff Let_def)

text \<open>A datagram that is a request of the given sender for a method.\<close>

definition is_request :: "bytes \<Rightarrow> node_id \<Rightarrow> bytes \<Rightarrow> any list option \<Rightarrow> bool" where
  "is_request d nodeID method args \<longleftrightarrow>
     (\<exists>msg rpcID. BencodeDecode d = Decoded (ADict msg) (length d) \<and> map_of msg (str ''0'') = Some (AInt 0) \<and>
        map_of msg (str ''1'') = Some (ABytes rpcID) \<and> length rpcID = RPCIDSize \<and>
        map_of msg (str ''2'') = Some (ABytes nodeID) \<and> length nodeID = HashSize \<and>
        map_of msg (str ''3'') = Some (ABytes method) \<and> getBencList msg (str ''4'') = args)"

lemma str_methods: "str ''store'' \<noteq> str ''ping''" "str ''store'' \<noteq> str ''findNode''" "str ''store'' \<noteq> str ''findValue''"
  by (simp_all add: str_def)

lemma handleRequest_node:
  assumes "Payload m = Some (ABytes method)"
  shows "fst (handleRequest n now from m) =
    (if method = str ''store'' then fst (handleStore n now from (authenticatedRequestArguments m)) else n)"
  using assms str_methods by (simp add: handleRequest_def Let_def split: prod.split)

lemma after_datagram_request:
  "after_datagram n (case handleRequest n now from m of (n', Some reply) \<Rightarrow> Replied n' reply | (n', None) \<Rightarrow> NotReplied n')
     = Some (fst (handleRequest n now from m))"
  by (cases "handleRequest n now from m"; cases "snd (handleRequest n now from m)") (simp_all add: after_datagram_def)

text \<open>The store arguments of a request: the publisher is the sender of the message.\<close>

definition store_args :: "node_id \<Rightarrow> any list option \<Rightarrow> any list" where
  "store_args nodeID args =
     (let as = (case args of Some a \<Rightarrow> a | None \<Rightarrow> []) in if length as < 4 then as else as[3 := ABytes nodeID])"

lemma handleMessage_node:
  assumes "after_datagram n (handleMessage n now d from) = Some n'"
  obtains (same) "n' = n"
  | (request) nodeID args where "is_request d nodeID (str ''store'') args"
      "n' = fst (handleStore n now from (store_args nodeID args))"
  | (response) nodeID where "length nodeID = HashSize"
      "n' = ObservePeer now \<lparr>PeerID = nodeID, IP = AddrIP from, UDPPort = Port from, TCPPort = 0, LastSeen = 0\<rparr> n"
proof (cases "length d = 0 \<or> length d > MsgSizeLimit \<or> (\<forall>msg. BencodeDecode d \<noteq> Decoded (ADict msg) (length d))")
  case True
  then have "handleMessage n now d from \<in> {Ignored, Panicked}"
    by (auto simp: handleMessage_def split: decoded.split any.split)
  with assms same show thesis by (auto simp: after_datagram_def)
next
  case False
  then obtain msg where msg: "BencodeDecode d = Decoded (ADict msg) (length d)" by blast
  show thesis
  proof (cases "\<exists>t rpcID nodeID. map_of msg (str ''0'') = Some (AInt t) \<and> map_of msg (str ''1'') = Some (ABytes rpcID) \<and>
      map_of msg (str ''2'') = Some (ABytes nodeID) \<and> \<not> (t < 0 \<or> t > 2 \<or> length rpcID \<noteq> RPCIDSize \<or> length nodeID \<noteq> HashSize)")
    case nf: False
    then have "handleMessage n now d from = Ignored"
      using False msg by (auto simp: handleMessage_def split: any.split option.split)
    with assms same show thesis by (simp add: after_datagram_def)
  next
    case True
    then obtain t rpcID nodeID where f: "map_of msg (str ''0'') = Some (AInt t)" "map_of msg (str ''1'') = Some (ABytes rpcID)"
      "map_of msg (str ''2'') = Some (ABytes nodeID)" "\<not> (t < 0 \<or> t > 2 \<or> length rpcID \<noteq> RPCIDSize \<or> length nodeID \<noteq> HashSize)"
      by blast
    show thesis
    proof (cases "t = 0")
      case nz: False
      with f False msg assms same response show thesis
        by (auto simp: handleMessage_def after_datagram_def ObservePeer_def split: option.splits if_splits)
    next
      case zero: True
      show thesis
      proof (cases "\<exists>method. map_of msg (str ''3'') = Some (ABytes method) \<and> length method \<noteq> 0")
        case nm: False
        then have "handleMessage n now d from = Ignored"
          using False msg f zero by (auto simp: handleMessage_def split: any.split option.split)
        with assms same show thesis by (simp add: after_datagram_def)
      next
        case True
        then obtain name where m: "map_of msg (str ''3'') = Some (ABytes name)" "name \<noteq> []" by auto
        let ?m = "\<lparr>MsgType = 0, RPCID = rpcID, MsgNodeID = nodeID, Payload = Some (ABytes name),
          Arguments = getBencList msg (str ''4'')\<rparr>"
        have "n' = fst (handleRequest n now from ?m)"
          using assms False msg f zero m by (simp add: handleMessage_def after_datagram_request)
        then have n': "n' = (if name = str ''store'' then fst (handleStore n now from (authenticatedRequestArguments ?m)) else n)"
          by (simp add: handleRequest_node)
        show thesis
        proof (cases "name = str ''store''")
          case True
          moreover from True f have "authenticatedRequestArguments ?m = store_args nodeID (getBencList msg (str ''4''))"
            by (simp add: authenticatedRequestArguments_def store_args_def Let_def)
          ultimately show thesis
            using n' f zero m msg by (intro request [of nodeID "getBencList msg (str ''4'')"]) (auto simp: is_request_def)
        qed (use n' same in simp)
      qed
    qed
  qed
qed

section \<open>The invariant of a node\<close>

definition provider_ok :: "node_id \<Rightarrow> node_id \<Rightarrow> Peer \<Rightarrow> bool" where
  "provider_ok key i p \<longleftrightarrow> length key = HashSize \<and> length i = HashSize \<and> PeerID p = i \<and> 0 < TCPPort p \<and> TCPPort p \<le> 65535"

definition node_inv :: "node_id \<Rightarrow> bytes \<Rightarrow> Node \<Rightarrow> bool" where
  "node_inv self secret n \<longleftrightarrow> NodeID n = self \<and> tokenSecret n = secret \<and> selfID (routing n) = self \<and>
     rt_inv (routing n) \<and> ann_inv n \<and> (\<forall>key i p t. entry n key i = Some (p, t) \<longrightarrow> provider_ok key i p)"

lemma store_announcement_sel [simp]:
  "NodeID (store_announcement n k i p t) = NodeID n" "routing (store_announcement n k i p t) = routing n"
  "tokenSecret (store_announcement n k i p t) = tokenSecret n"
  by (simp_all add: store_announcement_def Let_def)

lemma expire_sel [simp]:
  "NodeID (expireAnnouncements now n) = NodeID n" "routing (expireAnnouncements now n) = routing n"
  "tokenSecret (expireAnnouncements now n) = tokenSecret n"
proof -
  have "NodeID (fold (\<lambda>h n. expire_key now n h) hs m) = NodeID m \<and> routing (fold (\<lambda>h n. expire_key now n h) hs m) = routing m \<and>
      tokenSecret (fold (\<lambda>h n. expire_key now n h) hs m) = tokenSecret m" for hs m
    by (induction hs arbitrary: m) (simp_all add: expire_key_eq)
  then show "NodeID (expireAnnouncements now n) = NodeID n" "routing (expireAnnouncements now n) = routing n"
    "tokenSecret (expireAnnouncements now n) = tokenSecret n"
    by (simp_all add: expireAnnouncements_def)
qed

lemma routing_update [simp]: "entry (n\<lparr>routing := r\<rparr>) = entry n" "ann_inv (n\<lparr>routing := r\<rparr>) = ann_inv n"
  "entry (n\<lparr>pending := q\<rparr>) = entry n" "ann_inv (n\<lparr>pending := q\<rparr>) = ann_inv n"
  by (auto simp: entry_def ann_inv_def fun_eq_iff)

lemma begin_call_node: "fst (begin_call n rpcID to method args) \<in> range (\<lambda>q. n\<lparr>pending := q\<rparr>)"
proof -
  have "n \<in> range (\<lambda>q. n\<lparr>pending := q\<rparr>)" by (rule range_eqI [of _ _ "pending n"]) simp
  then show ?thesis
    by (auto simp: begin_call_def end_call_def Let_def split: sum.split)
qed

lemma node_inv_pending: "node_inv self secret n \<Longrightarrow> node_inv self secret (n\<lparr>pending := q\<rparr>)"
  by (simp add: node_inv_def)

lemma node_inv_observe:
  "node_inv self secret n \<Longrightarrow> length (PeerID peer) = HashSize \<Longrightarrow> node_inv self secret (ObservePeer now peer n)"
  by (simp add: node_inv_def ObservePeer_def rt_inv_AddPeer)

lemma node_inv_store:
  assumes "node_inv self secret n"
  shows "node_inv self secret (fst (handleStore n now from args))"
proof (cases "store_ok n from args")
  case True
  with assms show ?thesis
    by (auto simp: handleStore_accept node_inv_def ann_inv_store entry_store provider_ok_def provider_def store_ok_def)
next
  case False
  with assms show ?thesis using handleStore_reject [of n "from" args now] by auto
qed

lemma node_inv_expire: "node_inv self secret n \<Longrightarrow> node_inv self secret (expireAnnouncements now n)"
  unfolding node_inv_def by (auto simp: ann_inv_expire entry_expire split: option.splits if_splits)

lemma node_inv_step:
  assumes inv: "node_inv self secret n" and step: "node_step ev n = Some n'"
    and ok: "case ev of Observe now peer \<Rightarrow> length (PeerID peer) = HashSize | Fail nodeID \<Rightarrow> length nodeID = HashSize | _ \<Rightarrow> True"
  shows "node_inv self secret n'"
proof (cases ev)
  case (Receive now d sender)
  with step have "after_datagram n (handleMessage n now d sender) = Some n'" by simp
  then show ?thesis
    by (cases rule: handleMessage_node) (use inv in \<open>auto intro: node_inv_store node_inv_observe\<close>)
next
  case (Begin rpcID to name args)
  with step inv begin_call_node [of n rpcID to name args] show ?thesis by (auto intro: node_inv_pending)
next
  case (Fail nodeID)
  with step ok inv show ?thesis by (auto simp: node_inv_def rt_inv_MarkFailure)
qed (use inv step ok in \<open>auto intro: node_inv_expire node_inv_observe node_inv_pending simp: end_call_def\<close>)

lemma node_reachable_inv:
  "node_reachable self secret n \<Longrightarrow> length self = HashSize \<Longrightarrow> node_inv self secret n"
proof (induction rule: node_reachable.induct)
  case (new r)
  then show ?case
    by (auto simp: node_inv_def NewNodeWithID_def ann_inv_def entry_def rt_inv_new) (simp add: NewRoutingTable_def)
qed (blast intro: node_inv_step)

lemma StoredBlobHashes_order: "ann_inv n \<Longrightarrow> StoredBlobHashes n = announcementOrder n"
  unfolding StoredBlobHashes_def ann_inv_def
  by (intro filter_True ballI) (auto split: option.split)

lemma ann_inv_entry:
  assumes "ann_inv n"
  shows "key \<in> set (announcementOrder n) \<longleftrightarrow> (\<exists>i. entry n key i \<noteq> None)"
proof (cases "announcements n key")
  case None
  with assms show ?thesis unfolding ann_inv_def by (auto simp: entry_def)
next
  case (Some ps)
  with assms obtain ts where ts: "announcementTimes n key = Some ts" "map fst ts = map fst ps" "ps \<noteq> []" by (rule ann_inv_key)
  obtain i p where "hd ps = (i, p)" by fastforce
  with ts(3) have "map_of ps i = Some p" by (cases ps) auto
  moreover from this have "map_of ts i \<noteq> None" using same_keys_map_of [OF ts(2), of i] by simp
  ultimately have "entry n key i \<noteq> None" using Some ts by (auto simp: entry_def)
  moreover have "key \<in> set (announcementOrder n)" using assms Some unfolding ann_inv_def by (metis domI)
  ultimately show ?thesis by blast
qed

text \<open>
  C32. In every state a node can reach (datagrams of any content, sweeps, observed and failed contacts,
  calls), its identity and token secret are those it was created with, the routing table keeps its
  invariant, \<^verbatim>\<open>StoredBlobHashes\<close> lists every announced key exactly once, a listed key has a provider with a
  time, and every provider is stored under its own 48-byte identifier with a valid TCP port.
\<close>

theorem node_reachable_invariant:
  assumes "node_reachable self secret n" and "length self = HashSize"
  shows "NodeID n = self \<and> tokenSecret n = secret \<and> rt_inv (routing n) \<and> distinct (StoredBlobHashes n) \<and>
    (\<forall>key. key \<in> set (StoredBlobHashes n) \<longleftrightarrow> (\<exists>i. entry n key i \<noteq> None)) \<and>
    (\<forall>key i p t. entry n key i = Some (p, t) \<longrightarrow>
       length key = 48 \<and> length i = 48 \<and> PeerID p = i \<and> 0 < TCPPort p \<and> TCPPort p \<le> 65535)"
proof -
  have inv: "node_inv self secret n" using assms by (rule node_reachable_inv)
  then have ann: "ann_inv n" by (simp add: node_inv_def)
  then show ?thesis
    using inv ann_inv_entry [OF ann] unfolding node_inv_def provider_ok_def StoredBlobHashes_order [OF ann]
    by (simp add: ann_inv_def)
qed

definition example_id :: node_id where "example_id = replicate 48 7"

definition example_node :: Node where
  "example_node = (NewNodeWithID (replicate 48 1) (replicate 48 2))\<lparr>running := True\<rparr>"

lemma example_reachable: "node_reachable (replicate 48 1) (replicate 48 2) example_node"
  unfolding example_node_def by (rule node_reachable.new)

lemma example_inv: "node_inv (replicate 48 1) (replicate 48 2) example_node"
  using example_reachable by (rule node_reachable_inv) simp

theorem node_reachable_invariant_witness:
  "NodeID (expireAnnouncements 5 example_node) = replicate 48 1 \<and> distinct (StoredBlobHashes (expireAnnouncements 5 example_node))"
  using node_reachable_invariant
    [OF node_reachable.step [OF example_reachable, of "Sweep 5" "expireAnnouncements 5 example_node"]]
  by simp

section \<open>Announcements as an abstract map\<close>

text \<open>
  The abstract store: who announced what, where and when. A datagram adds at most one announcement,
  in the name of the node that sent it; a sweep removes what is older than a day; nothing else
  touches it.
\<close>

type_synonym announced_map = "node_id \<Rightarrow> node_id \<Rightarrow> (Peer \<times> int) option"

definition spec_store :: "node_id \<Rightarrow> node_id \<Rightarrow> Peer \<Rightarrow> int \<Rightarrow> announced_map \<Rightarrow> announced_map" where
  "spec_store key i p t s = (\<lambda>k j. if k = key \<and> j = i then Some (p, t) else s k j)"

definition spec_expire :: "int \<Rightarrow> announced_map \<Rightarrow> announced_map" where
  "spec_expire now s = (\<lambda>k j. case s k j of
     Some (p, t) \<Rightarrow> if t + AnnouncementExpiration < now then None else Some (p, t) | None \<Rightarrow> None)"

definition spec_step :: "Node \<Rightarrow> node_event \<Rightarrow> announced_map \<Rightarrow> announced_map \<Rightarrow> bool" where
  "spec_step n ev s s' =
     (case ev of
        Sweep now \<Rightarrow> s' = spec_expire now s
      | Receive now d from \<Rightarrow> s' = s \<or>
          (\<exists>nodeID key port token rest publisher. is_request d nodeID (str ''store'') (Some (key # token # AInt port # publisher # rest)) \<and>
             length nodeID = HashSize \<and> 0 < port \<and> port \<le> 65535 \<and> toBytes (Some token) = makeToken n (AddrIP from) \<and>
             s' = spec_store (toBytes (Some key)) nodeID
                    \<lparr>PeerID = nodeID, IP = AddrIP from, UDPPort = Port from, TCPPort = port, LastSeen = 0\<rparr> now s)
      | _ \<Rightarrow> s' = s)"

lemma store_args_ok:
  assumes "store_ok n from (store_args nodeID args)"
  obtains key token port publisher rest where "args = Some (key # token # AInt port # publisher # rest)"
    "store_args nodeID args = key # token # AInt port # ABytes nodeID # rest"
proof -
  define as where "as = (case args of Some a \<Rightarrow> a | None \<Rightarrow> [])"
  have len: "5 \<le> length as"
    using assms by (auto simp: store_ok_def store_args_def Let_def as_def split: if_splits)
  then have "args = Some as" by (cases args) (auto simp: as_def)
  moreover obtain a b c e r where as: "as = a # b # c # e # r"
    using len by (auto simp: numeral_eq_Suc Suc_le_length_iff)
  moreover have "\<exists>port. c = AInt port"
  proof -
    have "toBencInt (Some c) > 0"
      using assms as \<open>args = Some as\<close> by (simp add: store_ok_def store_args_def Let_def)
    then show ?thesis by (auto simp: toBencInt_def split: any.splits)
  qed
  ultimately show thesis
    by (auto simp: store_args_def Let_def intro: that)
qed

lemma entry_handleStore:
  assumes "ann_inv n"
  shows "entry (fst (handleStore n now from args)) =
    (if store_ok n from args then spec_store (toBytes (Some (args ! 0))) (toBytes (Some (args ! 3))) (provider from args) now (entry n)
     else entry n)"
proof (cases "store_ok n from args")
  case True
  then show ?thesis by (simp add: handleStore_accept entry_store [OF assms] spec_store_def fun_eq_iff)
next
  case False
  then show ?thesis using handleStore_reject [of n "from" args now] by auto
qed

text \<open>
  C7. The announcements of a node refine the abstract map: a sweep is the abstract expiry; a datagram
  leaves the map alone or stores one provider, and then it is a \<^verbatim>\<open>store\<close> request whose token is the one
  this node makes for the address the datagram came from, the provider has that address, and it is
  stored under the identifier of the message's sender, whatever publisher the arguments name; no other
  event changes the map.
\<close>

theorem announcements_refine:
  assumes inv: "node_inv self secret n" and step: "node_step ev n = Some n'"
  shows "spec_step n ev (entry n) (entry n')"
proof -
  have ann: "ann_inv n" using inv by (simp add: node_inv_def)
  show ?thesis
  proof (cases ev)
    case (Receive now d sender)
    with step have "after_datagram n (handleMessage n now d sender) = Some n'" by simp
    then show ?thesis
    proof (cases rule: handleMessage_node)
      case (request nodeID args)
      show ?thesis
      proof (cases "store_ok n sender (store_args nodeID args)")
        case True
        then obtain key token port publisher rest where args: "args = Some (key # token # AInt port # publisher # rest)"
          "store_args nodeID args = key # token # AInt port # ABytes nodeID # rest" by (rule store_args_ok)
        have "toBytes (Some (ABytes nodeID)) = nodeID" "toBencInt (Some (AInt port)) = port"
          by (simp_all add: toBytes_def toBencInt_def)
        with True args request Receive show ?thesis
          unfolding spec_step_def
          by (auto simp: entry_handleStore [OF ann] provider_def store_ok_def intro!: exI)
      qed (use request Receive in \<open>auto simp: spec_step_def entry_handleStore [OF ann]\<close>)
    qed (use Receive in \<open>auto simp: spec_step_def ObservePeer_def\<close>)
  next
    case (Begin rpcID to name args)
    with step begin_call_node [of n rpcID to name args] show ?thesis by (auto simp: spec_step_def)
  qed (use step ann in \<open>auto simp: spec_step_def ObservePeer_def end_call_def spec_expire_def entry_expire fun_eq_iff\<close>)
qed

theorem announcements_refine_witness:
  "spec_step example_node (Sweep 5) (entry example_node) (entry (expireAnnouncements 5 example_node))"
  by (rule announcements_refine [OF example_inv]) simp

section \<open>From announcement to discovery\<close>

lemma announced_iff:
  assumes "ann_inv n"
  shows "x \<in> set (announced n now key) \<longleftrightarrow>
    (\<exists>i p t. entry n key i = Some (p, t) \<and> now < t + AnnouncementExpiration \<and> x = CompactAddr p)"
proof (cases "announcements n key")
  case None
  then show ?thesis by (simp add: announced_def entry_def)
next
  case (Some ps)
  with assms obtain ts where ts: "announcementTimes n key = Some ts" "map fst ts = map fst ps" "distinct (map fst ps)"
    by (rule ann_inv_key)
  have e: "entry n key i = Some (p, t) \<longleftrightarrow> map_of ps i = Some p \<and> map_of ts i = Some t" for i p t
    by (cases "map_of ps i"; cases "map_of ts i") (simp_all add: entry_def Some ts(1))
  have mem: "(i, p) \<in> set ps \<longleftrightarrow> map_of ps i = Some p" for i p using ts(3) by simp
  have time: "map_of ps i = Some p \<Longrightarrow> \<exists>t. map_of ts i = Some t" for i p
    using same_keys_map_of [OF ts(2), of i] by auto
  have "x \<in> set (announced n now key) \<longleftrightarrow> (\<exists>(i, p)\<in>set ps. live now ts i \<and> x = CompactAddr p)"
    by (auto simp: announced_def Some ts image_iff)
  also have "\<dots> \<longleftrightarrow> (\<exists>i p. map_of ps i = Some p \<and> live now ts i \<and> x = CompactAddr p)"
    using mem by (fastforce simp: Bex_def)
  also have "\<dots> \<longleftrightarrow> (\<exists>i p t. map_of ps i = Some p \<and> map_of ts i = Some t \<and> now < t + AnnouncementExpiration \<and> x = CompactAddr p)"
    using time unfolding live_def by force
  finally show ?thesis by (simp add: e conj_assoc)
qed

text \<open>
  C33. A provider that asks a node for a token with \<^verbatim>\<open>findValue\<close> and sends it back in a \<^verbatim>\<open>store\<close> request from
  the same IP address is accepted, and for a day every \<^verbatim>\<open>findValue\<close> for the key lists its compact address;
  after a sweep later than that it is not listed.
\<close>

theorem announce_found:
  assumes inv: "ann_inv n" and lengths: "length key = HashSize" "length publisher = HashSize"
    and port: "0 < port" "port \<le> 65535"
    and answer: "handleFindValue n t0 from [ABytes key, ADict kw] = Inr (ADict reply)"
    and token: "map_of reply (str ''token'') = Some token"
    and stored: "handleStore n t1 from [ABytes key, token, AInt port, ABytes publisher, other] = (n', r)"
  defines "p \<equiv> \<lparr>PeerID = publisher, IP = AddrIP from, UDPPort = Port from, TCPPort = port, LastSeen = 0\<rparr>"
  shows "r = Inr (AString (str ''OK'')) \<and> (\<forall>t2. t2 < t1 + AnnouncementExpiration \<longrightarrow> CompactAddr p \<in> set (announced n' t2 key)) \<and>
    (\<forall>t3. t1 + AnnouncementExpiration < t3 \<longrightarrow> entry (expireAnnouncements t3 n') key publisher = None)"
proof -
  have "token = AString (makeToken n (AddrIP from))"
    using answer token lengths by (auto simp: handleFindValue_def toBytes_def Let_def str_def)
  then have "store_ok n from [ABytes key, token, AInt port, ABytes publisher, other]"
    using lengths port by (simp add: store_ok_def toBytes_def toBencInt_def)
  from handleStore_accept [OF this, of t1] stored
  have n': "n' = store_announcement n key publisher p t1" and r: "r = Inr (AString (str ''OK''))"
    by (simp_all add: provider_def toBytes_def toBencInt_def p_def)
  have inv': "ann_inv n'" using inv by (simp add: n' ann_inv_store)
  have "entry n' key publisher = Some (p, t1)" using inv by (simp add: n' entry_store)
  then show ?thesis
    using r announced_iff [OF inv'] ann.store_dies [OF inv] by (auto simp: n')
qed

definition example_addr :: UDPAddr where
  "example_addr = \<lparr>AddrIP = [10, 0, 0, 1], Port = 4444, Zone = ''''\<rparr>"

lemma example_find:
  "\<exists>reply. handleFindValue example_node 0 example_addr [ABytes example_id, ADict []] = Inr (ADict reply) \<and>
     map_of reply (str ''token'') = Some (AString (makeToken example_node (AddrIP example_addr)))"
  by (simp add: handleFindValue_def toBytes_def example_id_def Let_def)

theorem announce_found_witness:
  "snd (handleStore example_node 10 example_addr
     [ABytes example_id, AString (makeToken example_node (AddrIP example_addr)), AInt 3333, ABytes (replicate 48 9), AInt 0])
   = Inr (AString (str ''OK''))"
proof -
  have inv: "ann_inv example_node" using example_inv by (simp add: node_inv_def)
  obtain reply where reply: "handleFindValue example_node 0 example_addr [ABytes example_id, ADict []] = Inr (ADict reply)"
    "map_of reply (str ''token'') = Some (AString (makeToken example_node (AddrIP example_addr)))"
    using example_find by blast
  show ?thesis
    using announce_found [OF inv _ _ _ _ reply prod.collapse [symmetric], where publisher = "replicate 48 9" and port = 3333]
    by (simp add: example_id_def)
qed

section \<open>Pages\<close>

definition page_list :: "bytes list \<Rightarrow> int \<Rightarrow> bytes list" where
  "page_list found page = (case page_providers found page of Some ps \<Rightarrow> ps | None \<Rightarrow> [])"

lemma page_list_slice: "page_list found (int i) = take K (drop (i * K) found)"
proof (cases "i * K < length found")
  case True
  then have "i \<le> length found div K" by (metis div_le_mono less_imp_le nonzero_mult_div_cancel_right zero_neq_numeral)
  with True show ?thesis
    by (simp add: page_list_def page_providers_def Let_def min_def)
next
  case False
  then show ?thesis by (auto simp: page_list_def page_providers_def Let_def)
qed

lemma pages_prefix: "concat (map (\<lambda>i. page_list found (int i)) [0..<m]) = take (m * K) found"
  by (induction m) (simp_all add: page_list_slice add.commute [of 8] take_add)

lemma page_bound: "k \<le> 88 \<Longrightarrow> k \<le> 8 * (k div 9 + 2)" for k :: nat
  using div_le_mono [of k 88 9] div_mult_mod_eq [of k 9] mod_less_divisor [of 9 k]
  by (cases "k div 9 = 9") auto

text \<open>
  C34. The pages of the providers of a key are consecutive: the pages from 0 to the \<^verbatim>\<open>p\<close> a node answers
  with, which are the ones a searching node asks for, hold the providers in order, without gaps and
  without repetition. They hold all of them exactly when \<open>length found \<le> 8 * (length found div 9 + 2)\<close>,
  so for at most 88 providers, and not for 89: the number of pages is computed with \<^verbatim>\<open>K+1\<close> in place
  of \<^verbatim>\<open>K\<close>.
\<close>

theorem pages_cover:
  assumes "found \<noteq> []"
  defines "pages \<equiv> concat (map (\<lambda>i. page_list found (int i)) [0..<nat (page_count found) + 1])"
  shows "pages = take (8 * (length found div 9 + 2)) found \<and> (pages = found \<longleftrightarrow> length found \<le> 8 * (length found div 9 + 2)) \<and>
    (length found \<le> 88 \<longrightarrow> pages = found)"
proof -
  have "nat (page_count found) + 1 = length found div 9 + 2"
    using assms(1) by (simp add: page_count_def nat_add_distrib zdiv_int [symmetric])
  then have "pages = take (8 * (length found div 9 + 2)) found"
    unfolding pages_def by (simp only: pages_prefix mult.commute)
  moreover have "take m found = found \<longleftrightarrow> length found \<le> m" for m by (metis length_take min_def nle_le take_all)
  ultimately show ?thesis using page_bound [of "length found"] by simp
qed

theorem pages_cover_witness:
  "length (concat (map (\<lambda>i. page_list (replicate 89 [1]) (int i)) [0..<nat (page_count (replicate 89 [1])) + 1])) = 88 \<and>
   length (concat (map (\<lambda>i. page_list (replicate 88 [1]) (int i)) [0..<nat (page_count (replicate 88 [1])) + 1])) = 88"
proof -
  have "replicate 89 [1 :: byte] \<noteq> []" "replicate 88 [1 :: byte] \<noteq> []" by simp_all
  from pages_cover [OF this(1)] pages_cover [OF this(2)] show ?thesis
    by (simp only: length_take length_replicate) (simp add: min_def)
qed

end
