(* ===== verification/DhtLookup.thy ===== *)
theory DhtLookup
  imports DhtNode
begin

text \<open>
  Lookups, the client side of \<^verbatim>\<open>dht/node.go\<close>. What the network answers to a query and in which order the
  answers of a round arrive are arguments, so the theorems hold for every network.
  \<^verbatim>\<open>net.ParseIP\<close> is an argument too; nothing is assumed of it.
\<close>

section \<open>Reading responses\<close>

abbreviation (input) Alpha :: nat where "Alpha \<equiv> 5"
abbreviation (input) CompactAddrSize :: nat where "CompactAddrSize \<equiv> 54"

type_synonym resp = "(bytes \<times> any) list"

definition net_IPv4 :: "bytes \<Rightarrow> ip_addr" where
  "net_IPv4 b = v4InV6Prefix @ b"

definition parseContactTriple :: "(bytes \<Rightarrow> ip_addr option) \<Rightarrow> any \<Rightarrow> Peer option" where
  "parseContactTriple ParseIP item =
     (case item of
        AList triple \<Rightarrow>
          if length triple < 3 then None
          else
            let nodeIDBytes = toBytes (Some (triple ! 0)); ipBytes = toBytes (Some (triple ! 1));
                port = toBencInt (Some (triple ! 2))
            in if length nodeIDBytes \<noteq> HashSize \<or> port \<le> 0 \<or> port > 65535 then None
               else
                 (case (if length ipBytes = 4 then Some (net_IPv4 ipBytes) else ParseIP ipBytes) of
                    None \<Rightarrow> None
                  | Some ip \<Rightarrow> Some \<lparr>PeerID = nodeIDBytes, IP = ip, UDPPort = port, TCPPort = 0, LastSeen = 0\<rparr>)
      | _ \<Rightarrow> None)"

definition parseContactTriples :: "(bytes \<Rightarrow> ip_addr option) \<Rightarrow> any list \<Rightarrow> Peer list" where
  "parseContactTriples ParseIP l = List.map_filter (parseContactTriple ParseIP) l"

definition extractContacts :: "(bytes \<Rightarrow> ip_addr option) \<Rightarrow> resp \<Rightarrow> Peer list" where
  "extractContacts ParseIP resp =
     (case map_of resp (str ''3'') of
        Some (AList v) \<Rightarrow> parseContactTriples ParseIP v
      | Some (ADict v) \<Rightarrow>
          (case map_of v (str ''contacts'') of Some (AList cl) \<Rightarrow> parseContactTriples ParseIP cl | _ \<Rightarrow> [])
      | _ \<Rightarrow> [])"

definition parseBlobPeer :: "any \<Rightarrow> Peer option" where
  "parseBlobPeer item =
     (let compact = toBytes (Some item)
      in if length compact \<noteq> CompactAddrSize then None
         else
           case ParseCompactAddr compact of
             (ip, port, nodeID) \<Rightarrow>
               if To4 ip = None \<or> port \<le> 0 \<or> port > 65535 then None
               else Some \<lparr>PeerID = nodeID, IP = ip, UDPPort = 0, TCPPort = port, LastSeen = 0\<rparr>)"

definition extractBlobPeers :: "resp \<Rightarrow> node_id \<Rightarrow> Peer list" where
  "extractBlobPeers response key =
     (case map_of response (str ''3'') of
        Some (ADict payload) \<Rightarrow>
          (case map_of payload key of Some (AList encoded) \<Rightarrow> List.map_filter parseBlobPeer encoded | _ \<Rightarrow> [])
      | _ \<Rightarrow> [])"

section \<open>The iterative lookup\<close>

record lookup =
  shortlist :: "Peer list"
  contacted :: "node_id list"
  responded :: "node_id list"
  table :: RoutingTable
  callbacks :: "(Peer \<times> resp) list"

definition to_query :: "lookup \<Rightarrow> Peer list" where
  "to_query s = take Alpha (filter (\<lambda>p. PeerID p \<notin> set (contacted s)) (shortlist s))"

definition add_new :: "node_id \<Rightarrow> Peer \<Rightarrow> Peer list \<Rightarrow> Peer list" where
  "add_new self np sl =
     (if \<not> has_peer (PeerID np) sl \<and> PeerID np \<noteq> self then sl @ [np] else sl)"

text \<open>One result of a round; \<^verbatim>\<open>r.err\<close> is the left summand.\<close>

definition on_result :: "(bytes \<Rightarrow> ip_addr option) \<Rightarrow> node_id \<Rightarrow> Peer \<times> (bytes + resp) \<Rightarrow> lookup \<Rightarrow> lookup" where
  "on_result ParseIP self r s =
     (case r of
        (peer, Inl err) \<Rightarrow> s\<lparr>table := snd (MarkFailure (table s) (PeerID peer))\<rparr>
      | (peer, Inr resp) \<Rightarrow>
          s\<lparr>responded := PeerID peer # responded s,
            callbacks := callbacks s @ [(peer, resp)],
            shortlist := fold (add_new self) (extractContacts ParseIP resp) (shortlist s)\<rparr>)"

definition retry_contacts :: "int \<Rightarrow> lookup \<Rightarrow> lookup" where
  "retry_contacts now s =
     s\<lparr>table := fold (\<lambda>peer rt. if PeerID peer \<in> set (responded s) then snd (AddPeer now rt peer) else rt)
                 (shortlist s) (table s)\<rparr>"

definition sort_shortlist :: "node_id \<Rightarrow> lookup \<Rightarrow> lookup" where
  "sort_shortlist key s =
     (let sorted = sort_key (\<lambda>p. Distance key (PeerID p)) (shortlist s)
      in s\<lparr>shortlist := (if length sorted > K * 2 then take (K * 2) sorted else sorted)\<rparr>)"

text \<open>
  The network: the answer to the query of a peer in a round, and the order in which the answers of a
  round arrive.
\<close>

record network =
  answer :: "nat \<Rightarrow> Peer \<Rightarrow> bytes + resp"
  arrival :: "nat \<Rightarrow> Peer list \<Rightarrow> Peer list"
  clock :: "nat \<Rightarrow> int"

definition lookup_round :: "(bytes \<Rightarrow> ip_addr option) \<Rightarrow> network \<Rightarrow> node_id \<Rightarrow> node_id \<Rightarrow> nat \<Rightarrow> lookup \<Rightarrow> lookup" where
  "lookup_round ParseIP net self key round s =
     (let toQuery = to_query s;
          s1 = s\<lparr>contacted := map PeerID toQuery @ contacted s\<rparr>;
          results = map (\<lambda>p. (p, answer net round p)) (arrival net round toQuery)
      in sort_shortlist key (retry_contacts (clock net round) (fold (on_result ParseIP self) results s1)))"

fun lookup_rounds :: "(bytes \<Rightarrow> ip_addr option) \<Rightarrow> network \<Rightarrow> node_id \<Rightarrow> node_id \<Rightarrow> nat \<Rightarrow> nat \<Rightarrow> lookup \<Rightarrow> lookup" where
  "lookup_rounds ParseIP net self key 0 round s = s"
| "lookup_rounds ParseIP net self key (Suc left) round s =
     (if to_query s = [] then s
      else lookup_rounds ParseIP net self key left (round + 1) (lookup_round ParseIP net self key round s))"

definition lookup_start :: "RoutingTable \<Rightarrow> node_id \<Rightarrow> lookup" where
  "lookup_start rt key = \<lparr>shortlist = ClosestPeers rt key K, contacted = [], responded = [], table = rt, callbacks = []\<rparr>"

definition iterativeLookupWithCallback ::
  "(bytes \<Rightarrow> ip_addr option) \<Rightarrow> network \<Rightarrow> node_id \<Rightarrow> RoutingTable \<Rightarrow> node_id \<Rightarrow> Peer list \<times> lookup" where
  "iterativeLookupWithCallback ParseIP net self rt key =
     (let s0 = lookup_start rt key
      in if length (shortlist s0) = 0 then ([], s0)
         else
           let s = lookup_rounds ParseIP net self key 10 0 s0
           in (take K (filter (\<lambda>p. PeerID p \<in> set (responded s)) (shortlist s)), s))"

section \<open>Finding providers\<close>

text \<open>
  The providers collected so far, by address and in the order they were first seen. An address is a
  pair of IP and TCP port; \<^verbatim>\<open>net.JoinHostPort\<close> prints it, and prints both forms of an IPv4 address alike.
\<close>

definition address :: "Peer \<Rightarrow> bytes \<times> int" where
  "address p = (case To4 (IP p) of Some ip \<Rightarrow> ip | None \<Rightarrow> IP p, TCPPort p)"

fun put_provider :: "Peer \<Rightarrow> Peer list \<Rightarrow> Peer list" where
  "put_provider p [] = [p]"
| "put_provider p (q # qs) = (if address q = address p then p # qs else q # put_provider p qs)"

definition collect :: "node_id \<Rightarrow> resp \<Rightarrow> Peer list \<Rightarrow> nat \<times> Peer list" where
  "collect key resp providers =
     (let peers = extractBlobPeers resp key in (length peers, fold put_provider peers providers))"

definition last_page :: "resp \<Rightarrow> int" where
  "last_page resp =
     (case map_of resp (str ''3'') of Some (ADict payload) \<Rightarrow> toBencInt (map_of payload (str ''p'')) | _ \<Rightarrow> 0)"

text \<open>The loop over the pages of one peer: \<open>left\<close> pages are still announced.\<close>

fun fetch_pages :: "(nat \<Rightarrow> bytes + resp) \<Rightarrow> node_id \<Rightarrow> nat \<Rightarrow> nat \<Rightarrow> nat \<Rightarrow> Peer list \<Rightarrow> Peer list" where
  "fetch_pages ask key 0 page got providers = providers"
| "fetch_pages ask key (Suc left) page got providers =
     (if got \<ge> K then
        (case ask page of
           Inl err \<Rightarrow> providers
         | Inr pageResponse \<Rightarrow>
             case collect key pageResponse providers of
               (got', providers') \<Rightarrow> fetch_pages ask key left (page + 1) got' providers')
      else providers)"

definition on_response :: "(Peer \<Rightarrow> nat \<Rightarrow> bytes + resp) \<Rightarrow> node_id \<Rightarrow> Peer \<times> resp \<Rightarrow> Peer list \<Rightarrow> Peer list" where
  "on_response ask key pr providers =
     (case pr of (peer, resp) \<Rightarrow>
        case collect key resp providers of
          (got, providers') \<Rightarrow> fetch_pages (ask peer) key (nat (last_page resp)) 1 got providers')"

definition FindValue ::
  "(bytes \<Rightarrow> ip_addr option) \<Rightarrow> network \<Rightarrow> (Peer \<Rightarrow> nat \<Rightarrow> bytes + resp) \<Rightarrow> Node \<Rightarrow> node_id \<Rightarrow> Peer list \<times> Peer list" where
  "FindValue ParseIP net ask n key =
     (case iterativeLookupWithCallback ParseIP net (NodeID n) (routing n) key of
        (closest, s) \<Rightarrow> (fold (on_response ask key) (callbacks s) [], closest))"

definition FindNode :: "(bytes \<Rightarrow> ip_addr option) \<Rightarrow> network \<Rightarrow> Node \<Rightarrow> node_id \<Rightarrow> Peer list" where
  "FindNode ParseIP net n key = fst (iterativeLookupWithCallback ParseIP net (NodeID n) (routing n) key)"

section \<open>Every network\<close>

text \<open>
  The invariant of the rounds: the shortlist has no identifier twice and never the own one, a peer
  answers only after it was asked, and peers are asked at most once.
\<close>

definition id_ok :: "node_id \<Rightarrow> Peer \<Rightarrow> bool" where
  "id_ok self p \<longleftrightarrow> length (PeerID p) = HashSize \<and> PeerID p \<noteq> self"

definition lookup_inv :: "node_id \<Rightarrow> lookup \<Rightarrow> bool" where
  "lookup_inv self s \<longleftrightarrow> distinct (map PeerID (shortlist s)) \<and> (\<forall>p\<in>set (shortlist s). id_ok self p) \<and>
     distinct (contacted s) \<and> set (responded s) \<subseteq> set (contacted s) \<and> rt_inv (table s) \<and>
     map (PeerID \<circ> fst) (callbacks s) = rev (responded s)"

lemma parseContactTriple_id: "parseContactTriple f item = Some p \<Longrightarrow> length (PeerID p) = HashSize"
  by (auto simp: parseContactTriple_def Let_def split: any.splits if_splits option.splits)

lemma parseContactTriples_id: "p \<in> set (parseContactTriples f l) \<Longrightarrow> length (PeerID p) = HashSize"
  by (auto simp: parseContactTriples_def List.map_filter_def intro: parseContactTriple_id)

lemma extractContacts_id: "p \<in> set (extractContacts f resp) \<Longrightarrow> length (PeerID p) = HashSize"
  using parseContactTriples_id [of p f] unfolding extractContacts_def
  by (simp only: split: option.split_asm any.split_asm) simp_all

lemma has_peer_iff: "has_peer i ps \<longleftrightarrow> i \<in> PeerID ` set ps"
  by (auto simp: has_peer_def list_ex_iff)

lemma add_new_keeps:
  assumes "distinct (map PeerID sl)" "\<forall>p\<in>set sl. id_ok self p" "length (PeerID np) = HashSize"
  shows "distinct (map PeerID (add_new self np sl)) \<and> (\<forall>p\<in>set (add_new self np sl). id_ok self p) \<and> set sl \<subseteq> set (add_new self np sl)"
  using assms by (auto simp: add_new_def has_peer_iff id_ok_def)

lemma fold_add_new_keeps:
  assumes "\<forall>np\<in>set nps. length (PeerID np) = HashSize" "distinct (map PeerID sl)" "\<forall>p\<in>set sl. id_ok self p"
  shows "distinct (map PeerID (fold (add_new self) nps sl)) \<and> (\<forall>p\<in>set (fold (add_new self) nps sl). id_ok self p)"
  using assms
proof (induction nps arbitrary: sl)
  case (Cons np nps)
  have "distinct (map PeerID (add_new self np sl)) \<and> (\<forall>p\<in>set (add_new self np sl). id_ok self p)"
    using add_new_keeps [of sl self np] Cons.prems by simp
  with Cons.IH [of "add_new self np sl"] Cons.prems show ?case by simp
qed simp

lemma on_result_inv:
  assumes "lookup_inv self s" "PeerID (fst r) \<in> set (contacted s)" "length (PeerID (fst r)) = HashSize"
  shows "lookup_inv self (on_result f self r s) \<and> contacted (on_result f self r s) = contacted s"
proof (cases r)
  case (Pair peer a)
  show ?thesis
  proof (cases a)
    case (Inl e)
    with Pair assms show ?thesis by (simp add: on_result_def lookup_inv_def rt_inv_MarkFailure)
  next
    case (Inr resp)
    have "\<forall>np\<in>set (extractContacts f resp). length (PeerID np) = HashSize" by (blast intro: extractContacts_id)
    with Pair Inr assms fold_add_new_keeps [of "extractContacts f resp" "shortlist s" self]
    show ?thesis by (simp add: on_result_def lookup_inv_def)
  qed
qed

lemma fold_on_result_inv:
  assumes "lookup_inv self s" "\<forall>r\<in>set rs. PeerID (fst r) \<in> set (contacted s) \<and> length (PeerID (fst r)) = HashSize"
  shows "lookup_inv self (fold (on_result f self) rs s) \<and> contacted (fold (on_result f self) rs s) = contacted s"
  using assms
proof (induction rs arbitrary: s)
  case (Cons r rs)
  have "lookup_inv self (on_result f self r s) \<and> contacted (on_result f self r s) = contacted s"
    using on_result_inv [of self s r f] Cons.prems by simp
  with Cons.IH [of "on_result f self r s"] Cons.prems show ?case by simp
qed simp

lemma retry_table_inv:
  "rt_inv rt \<Longrightarrow> \<forall>p\<in>set ps. length (PeerID p) = HashSize \<Longrightarrow>
     rt_inv (fold (\<lambda>peer rt. if P peer then snd (AddPeer now rt peer) else rt) ps rt)"
  by (induction ps arbitrary: rt) (auto simp: rt_inv_AddPeer)

lemma retry_contacts_inv: "lookup_inv self s \<Longrightarrow> lookup_inv self (retry_contacts now s)"
  by (auto simp: lookup_inv_def retry_contacts_def id_ok_def intro!: retry_table_inv)

lemma sort_shortlist_inv: "lookup_inv self s \<Longrightarrow> lookup_inv self (sort_shortlist key s)"
proof -
  assume inv: "lookup_inv self s"
  let ?l = "sort_key (\<lambda>p. Distance key (PeerID p)) (shortlist s)"
  have "distinct (map PeerID ?l)" using inv by (simp add: lookup_inv_def distinct_map)
  then have "distinct (map PeerID (take n ?l))" for n using distinct_take by (metis take_map)
  moreover have "set (take n ?l) \<subseteq> set (shortlist s)" for n using set_take_subset by (metis set_sort)
  ultimately show ?thesis
    using inv unfolding lookup_inv_def sort_shortlist_def Let_def by (auto simp: distinct_map)
qed

lemma to_query_facts:
  assumes "lookup_inv self s"
  shows "set (to_query s) \<subseteq> set (shortlist s)" "length (to_query s) \<le> Alpha" "distinct (map PeerID (to_query s))"
    "set (map PeerID (to_query s)) \<inter> set (contacted s) = {}"
proof -
  show "set (to_query s) \<subseteq> set (shortlist s)" by (auto simp: to_query_def dest: in_set_takeD)
  show "length (to_query s) \<le> Alpha" by (simp add: to_query_def)
  have "distinct (map PeerID (filter (\<lambda>p. PeerID p \<notin> set (contacted s)) (shortlist s)))"
    using assms by (simp add: lookup_inv_def distinct_map_filter)
  then show "distinct (map PeerID (to_query s))" by (simp add: to_query_def take_map [symmetric] distinct_take)
  show "set (map PeerID (to_query s)) \<inter> set (contacted s) = {}" by (auto simp: to_query_def dest: in_set_takeD)
qed

lemma lookup_round_inv:
  assumes inv: "lookup_inv self s" and perm: "\<And>r ps. mset (arrival net r ps) = mset ps"
  shows "lookup_inv self (lookup_round f net self key round s)"
    and "contacted (lookup_round f net self key round s) = map PeerID (to_query s) @ contacted s"
proof -
  let ?s1 = "s\<lparr>contacted := map PeerID (to_query s) @ contacted s\<rparr>"
  let ?rs = "map (\<lambda>p. (p, answer net round p)) (arrival net round (to_query s))"
  have "lookup_inv self ?s1" using inv to_query_facts [OF inv] by (auto simp: lookup_inv_def)
  moreover have "set (arrival net round (to_query s)) = set (to_query s)" using perm by (metis set_mset_mset)
  then have "\<forall>r\<in>set ?rs. PeerID (fst r) \<in> set (contacted ?s1) \<and> length (PeerID (fst r)) = HashSize"
    using inv to_query_facts(1) [OF inv] by (auto simp: lookup_inv_def id_ok_def)
  ultimately have *: "lookup_inv self (fold (on_result f self) ?rs ?s1)" "contacted (fold (on_result f self) ?rs ?s1) = contacted ?s1"
    using fold_on_result_inv by blast+
  then show "lookup_inv self (lookup_round f net self key round s)"
    by (simp add: lookup_round_def Let_def retry_contacts_inv sort_shortlist_inv)
  show "contacted (lookup_round f net self key round s) = map PeerID (to_query s) @ contacted s"
    using *(2) by (simp add: lookup_round_def Let_def retry_contacts_def sort_shortlist_def)
qed

lemma lookup_rounds_inv:
  assumes "lookup_inv self s" and perm: "\<And>r ps. mset (arrival net r ps) = mset ps"
  shows "lookup_inv self (lookup_rounds f net self key left round s) \<and>
    length (contacted (lookup_rounds f net self key left round s)) \<le> length (contacted s) + Alpha * left"
  using assms(1)
proof (induction left arbitrary: round s)
  case (Suc left)
  show ?case
  proof (cases "to_query s = []")
    case False
    have "lookup_inv self (lookup_round f net self key round s)"
      and "length (contacted (lookup_round f net self key round s)) \<le> Alpha + length (contacted s)"
      using lookup_round_inv [OF Suc.prems perm] to_query_facts(2) [OF Suc.prems] by simp_all
    with Suc.IH [of "lookup_round f net self key round s" "round + 1"] False show ?thesis by auto
  qed (use Suc in simp)
qed simp

lemma ClosestPeers_facts:
  assumes "rt_inv rt"
  shows "set (ClosestPeers rt key k) \<subseteq> contacts rt" "distinct (map PeerID (ClosestPeers rt key k))"
    "sorted (map (\<lambda>p. Distance key (PeerID p)) (ClosestPeers rt key k))"
proof -
  let ?l = "sort_key (\<lambda>p. Distance key (PeerID p)) (concat (buckets rt))"
  have "distinct (map PeerID (concat (buckets rt)))"
    using contacts_distinct [OF assms] contacts_inj [OF assms] by (simp add: distinct_map contacts_def)
  then have "distinct (map PeerID ?l)" by (simp add: distinct_map)
  then show "distinct (map PeerID (ClosestPeers rt key k))"
    unfolding ClosestPeers_def by (metis distinct_take take_map)
  show "set (ClosestPeers rt key k) \<subseteq> contacts rt"
    unfolding ClosestPeers_def contacts_def by (metis set_sort set_take_subset)
  show "sorted (map (\<lambda>p. Distance key (PeerID p)) (ClosestPeers rt key k))"
    unfolding ClosestPeers_def by (metis sorted_sort_key sorted_wrt_take take_map)
qed

lemma lookup_start_inv:
  assumes "rt_inv rt" and "selfID rt = self"
  shows "lookup_inv self (lookup_start rt key)"
proof -
  have "p \<in> contacts rt \<Longrightarrow> id_ok self p" for p
    using assms by (auto simp: contacts_iff rt_inv_def bucket_ok_def peer_ok_def id_ok_def)
  then show ?thesis
    using assms ClosestPeers_facts [OF assms(1), of key 8] by (auto simp: lookup_inv_def lookup_start_def)
qed

definition near :: "node_id \<Rightarrow> Peer list \<Rightarrow> bool" where
  "near key ps = sorted (map (\<lambda>p. Distance key (PeerID p)) ps)"

lemma lookup_rounds_near: "near key (shortlist s) \<Longrightarrow> near key (shortlist (lookup_rounds f net self key left round s))"
proof (induction left arbitrary: round s)
  case (Suc left)
  have "near key (take k (sort_key (\<lambda>p. Distance key (PeerID p)) l))" for k l
    unfolding near_def by (metis sorted_sort_key sorted_wrt_take take_map)
  moreover have "near key (sort_key (\<lambda>p. Distance key (PeerID p)) l)" for l
    by (simp add: near_def)
  ultimately have "near key (shortlist (lookup_round f net self key round s))"
    by (simp add: lookup_round_def Let_def sort_shortlist_def)
  with Suc show ?case by simp
qed simp

lemma near_strict:
  assumes "near key ps" "distinct (map PeerID ps)" "\<forall>p\<in>set ps. length (PeerID p) = length key"
  shows "sorted_wrt (\<lambda>p q. DistanceLess (Distance key (PeerID p)) (Distance key (PeerID q))) ps"
proof -
  have "distinct (map (\<lambda>p. Distance key (PeerID p)) ps)"
    using assms(2,3) by (auto simp: distinct_map inj_on_def Distance_inject)
  then have "sorted_wrt (<) (map (\<lambda>p. Distance key (PeerID p)) ps)"
    using assms(1) by (simp add: near_def strict_sorted_iff)
  then show ?thesis
    using assms(3) by (auto simp: sorted_wrt_map DistanceLess_less length_Distance elim!: sorted_wrt_mono_rel [rotated])
qed

text \<open>
  C35. Whatever the network answers and in whatever order, an iterative lookup ends after at most ten
  rounds; it asks at most fifty peers and none twice; it returns at most \<^verbatim>\<open>K\<close> peers, each one a peer
  that was asked and answered, none of them the node itself, no identifier twice, and strictly ordered
  by their distance to the key; and it leaves the routing table in order.
\<close>

theorem iterativeLookup_correct:
  assumes inv: "rt_inv rt" "selfID rt = self" and key: "length key = HashSize"
    and perm: "\<And>r ps. mset (arrival net r ps) = mset ps"
    and result: "iterativeLookupWithCallback ParseIP net self rt key = (peers, s)"
  shows "length peers \<le> 8 \<and>
    sorted_wrt (\<lambda>p q. DistanceLess (Distance key (PeerID p)) (Distance key (PeerID q))) peers \<and>
    distinct (map PeerID peers) \<and> self \<notin> PeerID ` set peers \<and>
    PeerID ` set peers \<subseteq> PeerID ` fst ` set (callbacks s) \<and> PeerID ` fst ` set (callbacks s) \<subseteq> set (contacted s) \<and>
    distinct (contacted s) \<and> length (contacted s) \<le> 50 \<and> rt_inv (table s)"
proof (cases "shortlist (lookup_start rt key) = []")
  case True
  with result lookup_start_inv [OF inv, of key] show ?thesis
    by (auto simp: iterativeLookupWithCallback_def Let_def lookup_inv_def) (simp_all add: lookup_start_def)
next
  case False
  let ?s = "lookup_rounds ParseIP net self key 10 0 (lookup_start rt key)"
  have s: "s = ?s" and peers: "peers = take 8 (filter (\<lambda>p. PeerID p \<in> set (responded s)) (shortlist s))"
    using result False by (auto simp: iterativeLookupWithCallback_def Let_def)
  have linv: "lookup_inv self s" and len: "length (contacted s) \<le> 50"
    using lookup_rounds_inv [OF lookup_start_inv [OF inv, of key] perm, of ParseIP key 10 0] s by (auto simp: lookup_start_def)
  have cb: "PeerID ` fst ` set (callbacks s) = set (responded s)"
    using linv unfolding lookup_inv_def by (metis image_comp list.set_map set_rev)
  have "near key (shortlist s)"
    unfolding s using ClosestPeers_facts(3) [OF inv(1)]
    by (intro lookup_rounds_near) (simp add: near_def lookup_start_def)
  then have "near key (filter (\<lambda>p. PeerID p \<in> set (responded s)) (shortlist s))"
    unfolding near_def by (simp add: sorted_filter)
  then have near: "near key peers" unfolding near_def peers by (metis sorted_wrt_take take_map)
  have "distinct (map PeerID (filter (\<lambda>p. PeerID p \<in> set (responded s)) (shortlist s)))"
    using linv by (simp add: lookup_inv_def distinct_map_filter)
  then have d: "distinct (map PeerID peers)" unfolding peers by (metis distinct_take take_map)
  have mem: "p \<in> set peers \<Longrightarrow> id_ok self p \<and> PeerID p \<in> set (responded s)" for p
    using linv unfolding peers lookup_inv_def by (auto dest!: in_set_takeD)
  then have "sorted_wrt (\<lambda>p q. DistanceLess (Distance key (PeerID p)) (Distance key (PeerID q))) peers"
    using near d key by (intro near_strict) (auto simp: id_ok_def)
  moreover have "length peers \<le> 8" by (simp add: peers)
  moreover have "self \<notin> PeerID ` set peers" "PeerID ` set peers \<subseteq> set (responded s)"
    using mem by (auto simp: id_ok_def)
  ultimately show ?thesis
    using d len linv unfolding cb lookup_inv_def by blast
qed

definition example_net :: network where
  "example_net = \<lparr>answer = (\<lambda>_ _. Inr []), arrival = (\<lambda>_. rev), clock = (\<lambda>_. 0)\<rparr>"

theorem iterativeLookup_correct_witness:
  "length (contacted (snd (iterativeLookupWithCallback (\<lambda>_. None) example_net (replicate 48 1)
     (snd (AddPeer 3 (NewRoutingTable (replicate 48 1)) example_peer)) (replicate 48 9)))) \<le> 50"
proof -
  have "rt_inv (snd (AddPeer 3 (NewRoutingTable (replicate 48 1)) example_peer))"
    by (intro rt_inv_AddPeer rt_inv_new) (simp_all add: example_peer_def)
  moreover have "selfID (NewRoutingTable (replicate 48 1)) = replicate 48 1" by (simp add: NewRoutingTable_def)
  moreover have "mset (arrival example_net r ps) = mset ps" for r ps by (simp add: example_net_def)
  ultimately show ?thesis
    by (intro iterativeLookup_correct [OF _ _ _ _ prod.collapse [symmetric], THEN conjunct2, THEN conjunct2,
        THEN conjunct2, THEN conjunct2, THEN conjunct2, THEN conjunct2, THEN conjunct2, THEN conjunct1]) simp_all
qed

section \<open>A searching node and an answering node\<close>

text \<open>What a node answers to the request for a page, as the searching node sees it.\<close>

definition served :: "Node \<Rightarrow> int \<Rightarrow> UDPAddr \<Rightarrow> node_id \<Rightarrow> nat \<Rightarrow> bytes + resp" where
  "served n now from key page =
     (case handleFindValue n now from [ABytes key, ADict [(str ''p'', AInt (int page))]] of
        Inl e \<Rightarrow> Inl (str e) | Inr v \<Rightarrow> Inr [(str ''3'', v)])"

definition blob_peer :: "Peer \<Rightarrow> Peer" where
  "blob_peer p = \<lparr>PeerID = PeerID p, IP = v4InV6Prefix @ the (To4 (IP p)), UDPPort = 0, TCPPort = TCPPort p, LastSeen = 0\<rparr>"

lemma To4_mapped: "length ip = 4 \<Longrightarrow> To4 (v4InV6Prefix @ ip) = Some ip"
  by (simp add: To4_def v4InV6Prefix_def)

lemma To4_length: "To4 ip = Some v \<Longrightarrow> length v = 4"
  by (auto simp: To4_def split: if_splits)

text \<open>Compact addresses of IPv4 providers are read back.\<close>

lemma ParseCompactAddr_CompactAddr:
  assumes "To4 (IP p) = Some ip" "length (PeerID p) = HashSize" "0 \<le> TCPPort p" "TCPPort p \<le> 65535"
  shows "ParseCompactAddr (CompactAddr p) = (v4InV6Prefix @ ip, TCPPort p, PeerID p)" "length (CompactAddr p) = CompactAddrSize"
  using assms To4_length [OF assms(1)] by (simp_all add: ParseCompactAddr_def CompactAddr_def be_value_be_bytes)

lemma parseBlobPeer_CompactAddr:
  assumes "To4 (IP p) \<noteq> None" "provider_ok key i p"
  shows "parseBlobPeer (ABytes (CompactAddr p)) = Some (blob_peer p)" "address (blob_peer p) = address p"
proof -
  obtain ip where ip: "To4 (IP p) = Some ip" using assms(1) by blast
  then show "parseBlobPeer (ABytes (CompactAddr p)) = Some (blob_peer p)"
    using assms(2) ParseCompactAddr_CompactAddr [OF ip] To4_length [OF ip]
    by (simp add: parseBlobPeer_def toBytes_def provider_ok_def blob_peer_def To4_mapped)
  show "address (blob_peer p) = address p"
    using ip To4_length [OF ip] by (simp add: address_def blob_peer_def To4_mapped)
qed

lemma str_keys: "length key = HashSize \<Longrightarrow> length s \<noteq> HashSize \<Longrightarrow> str s \<noteq> key"
  by auto

lemma served_page:
  assumes "length key = HashSize"
  obtains r where "served n now from key page = Inr r" "last_page r = page_count (announced n now key)"
    "extractBlobPeers r key = List.map_filter parseBlobPeer (map ABytes (page_list (announced n now key) (int page)))"
proof -
  let ?found = "announced n now key"
  let ?reply = "[(str ''token'', AString (makeToken n (AddrIP from))), (str ''protocolVersion'', AInt 1)] @
    (if int page = 0 then [(str ''contacts'', AList (peersToContactList (ClosestPeers (routing n) key K)))] else []) @
    [(str ''p'', AInt (page_count ?found))] @
    (case page_providers ?found (int page) of Some ps \<Rightarrow> [(key, AList (map ABytes ps))] | None \<Rightarrow> [])"
  have k: "str ''token'' \<noteq> key" "str ''protocolVersion'' \<noteq> key" "str ''contacts'' \<noteq> key" "str ''p'' \<noteq> key"
    using assms by (auto intro!: str_keys)
  have p: "str ''token'' \<noteq> str ''p''" "str ''protocolVersion'' \<noteq> str ''p''" "str ''contacts'' \<noteq> str ''p''"
    by (simp_all add: str_def)
  have "served n now from key page = Inr [(str ''3'', ADict ?reply)]"
    using assms by (simp add: served_def handleFindValue_def toBytes_def toBencInt_def getKeywordArguments_def Let_def)
  moreover have "extractBlobPeers [(str ''3'', ADict ?reply)] key =
      List.map_filter parseBlobPeer (map ABytes (page_list ?found (int page)))"
    using k k [symmetric] by (simp add: extractBlobPeers_def page_list_def List.map_filter_simps split: option.split)
  moreover have "last_page [(str ''3'', ADict ?reply)] = page_count ?found"
    using p p [symmetric] by (simp add: last_page_def toBencInt_def)
  ultimately show thesis by (intro that)
qed

lemma map_filter_all: "(\<And>x. x \<in> set xs \<Longrightarrow> f x = Some (g x)) \<Longrightarrow> List.map_filter f xs = map g xs"
  by (induction xs) (simp_all add: List.map_filter_simps)

lemma fetch_pages_all:
  assumes ask: "\<And>i. \<exists>r. ask i = Inr r \<and> extractBlobPeers r key = map g (page_list found (int i))"
  shows "fetch_pages ask key left (Suc i) (length (page_list found (int i))) ps =
    fold put_provider (map g (take (left * K) (drop (Suc i * K) found))) ps"
proof (induction left arbitrary: i ps)
  case (Suc left)
  show ?case
  proof (cases "K \<le> length (page_list found (int i))")
    case True
    obtain r where r: "ask (Suc i) = Inr r" "extractBlobPeers r key = map g (page_list found (int (Suc i)))" using ask by blast
    have "fetch_pages ask key (Suc left) (Suc i) (length (page_list found (int i))) ps =
        fold put_provider (map g (take (left * K) (drop (Suc (Suc i) * K) found)))
          (fold put_provider (map g (page_list found (int (Suc i)))) ps)"
      using True r Suc.IH [of "Suc i"] by (simp add: collect_def)
    also have "\<dots> = fold put_provider (map g (page_list found (int (Suc i)) @ take (left * K) (drop (Suc (Suc i) * K) found))) ps"
      by simp
    also have "page_list found (int (Suc i)) @ take (left * K) (drop (Suc (Suc i) * K) found) =
        take (Suc left * K) (drop (Suc i * K) found)"
      unfolding page_list_slice by (simp add: take_add)
    finally show ?thesis .
  next
    case False
    then have "length found \<le> Suc i * K" by (simp add: page_list_slice min_def split: if_splits)
    with False show ?thesis by simp
  qed
qed simp

lemma put_provider_address:
  "address ` set (put_provider p ps) = insert (address p) (address ` set ps)"
  "distinct (map address ps) \<Longrightarrow> distinct (map address (put_provider p ps))"
proof -
  show *: "address ` set (put_provider p ps) = insert (address p) (address ` set ps)"
    for ps by (induction ps) auto
  show "distinct (map address ps) \<Longrightarrow> distinct (map address (put_provider p ps))"
  proof (induction ps)
    case (Cons q qs)
    have "address q \<noteq> address p \<Longrightarrow> address q \<notin> address ` set (put_provider p qs)"
      using Cons.prems by (simp add: *)
    with Cons show ?case by (auto simp: image_iff)
  qed simp
qed

lemma fold_put_provider_address:
  "address ` set (fold put_provider qs ps) = address ` set qs \<union> address ` set ps"
  "distinct (map address ps) \<Longrightarrow> distinct (map address (fold put_provider qs ps))"
  by (induction qs arbitrary: ps) (simp_all add: put_provider_address)

text \<open>The providers a node would list for a key at a time.\<close>

definition live_providers :: "Node \<Rightarrow> int \<Rightarrow> node_id \<Rightarrow> Peer set" where
  "live_providers n now key = {p. \<exists>i t. entry n key i = Some (p, t) \<and> now < t + AnnouncementExpiration}"

lemma on_response_served:
  assumes inv: "node_inv self secret n" and key: "length key = HashSize"
    and v4: "\<forall>p\<in>live_providers n now key. To4 (IP p) \<noteq> None"
    and r0: "served n now from key 0 = Inr r0"
  obtains g where "on_response (\<lambda>_. served n now from key) key (peer, r0) ps =
      fold put_provider (map g (take (nat (page_count (announced n now key)) * K + K) (announced n now key))) ps"
    "address ` g ` set (announced n now key) = address ` live_providers n now key"
proof -
  let ?found = "announced n now key"
  have ann: "ann_inv n" using inv by (simp add: node_inv_def)
  let ?g = "\<lambda>x. the (parseBlobPeer (ABytes x))"
  have found: "set ?found = CompactAddr ` live_providers n now key"
    by (auto simp: announced_iff [OF ann] live_providers_def image_iff) blast+
  have parse: "parseBlobPeer (ABytes (CompactAddr p)) = Some (blob_peer p)" "address (blob_peer p) = address p"
    if mem: "p \<in> live_providers n now key" for p
  proof -
    obtain i where "provider_ok key i p"
      using mem inv unfolding live_providers_def node_inv_def by blast
    then show "parseBlobPeer (ABytes (CompactAddr p)) = Some (blob_peer p)" "address (blob_peer p) = address p"
      using mem v4 parseBlobPeer_CompactAddr by blast+
  qed
  have page: "\<exists>r. served n now from key i = Inr r \<and> last_page r = page_count ?found \<and>
      extractBlobPeers r key = map ?g (page_list ?found (int i))" for i
  proof -
    obtain r where r: "served n now from key i = Inr r" "last_page r = page_count ?found"
      "extractBlobPeers r key = List.map_filter parseBlobPeer (map ABytes (page_list ?found (int i)))"
      by (rule served_page [OF key])
    have sub: "set (page_list ?found (int i)) \<subseteq> set ?found"
      unfolding page_list_slice by (meson set_drop_subset set_take_subset subset_trans)
    have "List.map_filter parseBlobPeer (map ABytes (page_list ?found (int i))) = map (\<lambda>v. the (parseBlobPeer v)) (map ABytes (page_list ?found (int i)))"
      using sub parse(1) unfolding found by (intro map_filter_all) force
    with r show ?thesis by (simp add: comp_def)
  qed
  then have r0': "last_page r0 = page_count ?found" "extractBlobPeers r0 key = map ?g (page_list ?found 0)"
    using r0 by (metis Inr_inject, metis Inr_inject int_ops(1))
  have "fetch_pages (served n now from key) key m (Suc 0) (length (page_list ?found (int 0))) qs =
      fold put_provider (map ?g (take (m * K) (drop (Suc 0 * K) ?found))) qs" for m qs
    using page by (intro fetch_pages_all) blast
  then have "on_response (\<lambda>_. served n now from key) key (peer, r0) ps =
      fold put_provider (map ?g (take (nat (page_count ?found) * K) (drop K ?found)))
        (fold put_provider (map ?g (page_list ?found (int 0))) ps)"
    using r0' by (simp add: on_response_def collect_def)
  also have "\<dots> = fold put_provider (map ?g (page_list ?found (int 0) @ take (nat (page_count ?found) * K) (drop K ?found))) ps"
    by simp
  also have "page_list ?found (int 0) @ take (nat (page_count ?found) * K) (drop K ?found) = take (nat (page_count ?found) * K + K) ?found"
    unfolding page_list_slice by (simp add: take_add add.commute)
  finally have *: "on_response (\<lambda>_. served n now from key) key (peer, r0) ps =
      fold put_provider (map ?g (take (nat (page_count ?found) * K + K) ?found)) ps" .
  have "address ` ?g ` CompactAddr ` live_providers n now key = address ` live_providers n now key"
    using parse by (force simp: image_iff)
  with * found show thesis by (intro that [of ?g]) simp_all
qed

text \<open>
  C36. A searching node that reads the pages of an answering node ends up with the address of every
  provider the answering node has a live announcement of, each once, and with no other, as long as the
  providers are at most 88 and have IPv4 addresses. This composes the page loop of \<^verbatim>\<open>FindValue\<close> with
  \<^verbatim>\<open>handleFindValue\<close> of the other node.
\<close>

theorem find_pages_complete:
  fixes peer :: Peer
  assumes inv: "node_inv self secret n" and key: "length key = HashSize"
    and few: "length (announced n now key) \<le> 88"
    and v4: "\<forall>p\<in>live_providers n now key. To4 (IP p) \<noteq> None"
    and first: "served n now from key 0 = Inr r0"
  defines "found \<equiv> on_response (\<lambda>_. served n now from key) key (peer, r0) []"
  shows "address ` set found = address ` live_providers n now key \<and> distinct (map address found)"
proof -
  let ?l = "announced n now key"
  obtain g where g: "found = fold put_provider (map g (take (nat (page_count ?l) * K + K) ?l)) []"
    "address ` g ` set ?l = address ` live_providers n now key"
    unfolding found_def by (rule on_response_served [OF inv key v4 first])
  have all: "take (nat (page_count ?l) * K + K) ?l = ?l"
  proof (rule take_all)
    have "length ?l \<le> 8 * (length ?l div 9 + 2)" using few by (rule page_bound)
    then show "length ?l \<le> nat (page_count ?l) * K + K"
      by (cases "?l = []") (simp_all add: page_count_def nat_add_distrib zdiv_int [symmetric])
  qed
  show ?thesis
    unfolding g(1) all using g(2) fold_put_provider_address(1) [of "map g ?l" "[]"]
      fold_put_provider_address(2) [of "[]" "map g ?l"] by simp
qed

definition example_store :: "any list" where
  "example_store = [ABytes example_id, AString (makeToken example_node (AddrIP example_addr)), AInt 3333, ABytes (replicate 48 9), AInt 0]"

definition example_provider_node :: Node where
  "example_provider_node = fst (handleStore example_node 10 example_addr example_store)"

lemma example_providers:
  "announcements example_provider_node example_id = Some [(replicate 48 9, provider example_addr example_store)]"
  "entry example_provider_node = (\<lambda>k j. if k = example_id \<and> j = replicate 48 9 then Some (provider example_addr example_store, 10) else None)"
proof -
  have ok: "store_ok example_node example_addr example_store"
    by (simp add: store_ok_def example_store_def toBytes_def toBencInt_def example_id_def)
  have "announcements example_node = Map.empty" by (simp add: example_node_def NewNodeWithID_def)
  then show "announcements example_provider_node example_id = Some [(replicate 48 9, provider example_addr example_store)]"
    using handleStore_accept [OF ok, of 10]
    by (simp add: example_provider_node_def store_announcement_def put2_def Let_def example_store_def toBytes_def)
  have "ann_inv example_node" using example_inv by (simp add: node_inv_def)
  moreover have "entry example_node k j = None" for k j by (simp add: entry_def example_node_def NewNodeWithID_def)
  ultimately show "entry example_provider_node = (\<lambda>k j. if k = example_id \<and> j = replicate 48 9 then Some (provider example_addr example_store, 10) else None)"
    using ok by (simp add: example_provider_node_def entry_handleStore spec_store_def fun_eq_iff example_store_def toBytes_def)
qed

theorem find_pages_complete_witness:
  "\<exists>r0. served example_provider_node 20 example_addr example_id 0 = Inr r0 \<and>
     address ` set (on_response (\<lambda>_. served example_provider_node 20 example_addr example_id) example_id (example_peer, r0) [])
     = {([10, 0, 0, 1], 3333)}"
proof -
  let ?n = example_provider_node
  have key: "length example_id = 48" by (simp add: example_id_def)
  obtain r0 where r0: "served ?n 20 example_addr example_id 0 = Inr r0"
    by (rule served_page [OF key])
  have inv: "node_inv (replicate 48 1) (replicate 48 2) ?n"
    unfolding example_provider_node_def by (rule node_inv_store [OF example_inv])
  have live: "live_providers ?n 20 example_id = {provider example_addr example_store}"
    by (auto simp: live_providers_def example_providers)
  have ip: "To4 (IP (provider example_addr example_store)) = Some [10, 0, 0, 1]"
    "TCPPort (provider example_addr example_store) = 3333"
    by (simp_all add: provider_def To4_def example_addr_def example_store_def toBencInt_def)
  have "length (announced ?n 20 example_id) \<le> 1"
    by (simp add: announced_def example_providers(1))
  with find_pages_complete [OF inv key _ _ r0] r0 live ip show ?thesis
    by (auto simp: address_def)
qed

end
