(* ===== verification/HeaderChain.thy ===== *)
theory HeaderChain
  imports Headers
begin

text \<open>
  The proofs on the header store of \<^verbatim>\<open>wallet/headers.go\<close>: what a write does to the storage, that fetching keeps
  every checkpointed chunk verified or known to be missing and ends with all of them verified when the network
  serves them, and that an accepted chunk of headers extends the chain by the rules of validation.
\<close>

section \<open>Storage\<close>

lemma length_Resize [simp]: "length (Resize n d) = n"
  by (simp add: Resize_def)

lemma take_Resize: "n \<le> length d \<Longrightarrow> n \<le> m \<Longrightarrow> take n (Resize m d) = take n d"
  by (simp add: Resize_def min_def)

lemma WriteAt_eq: "offset \<le> length d \<Longrightarrow> WriteAt source offset d = take offset d @ source @ drop (offset + length source) d"
  by (auto simp: WriteAt_def Let_def take_Resize)

lemma slice_below: "a + m \<le> k \<Longrightarrow> k \<le> length st \<Longrightarrow> take m (drop a (take k st @ src @ rest)) = take m (drop a st)"
  by (auto simp: drop_take min_def)

lemma slice_above: "k + length src \<le> a \<Longrightarrow> k \<le> length st \<Longrightarrow> drop a (take k st @ src @ drop (k + length src) st) = drop a st"
  by simp

lemma slice_inside:
  "k \<le> a \<Longrightarrow> a + m \<le> k + length src \<Longrightarrow> k \<le> length st \<Longrightarrow> take m (drop a (take k st @ src @ rest)) = take m (drop (a - k) src)"
  by simp

definition header_at :: "Headers \<Rightarrow> nat \<Rightarrow> bytes" where
  "header_at headers k = take HeaderSize (drop (k * HeaderSize) (storage headers))"

definition last_checkpoint :: "Headers \<Rightarrow> nat" where
  "last_checkpoint headers = (checkpoint_len (checkpoints headers) - 1) * checkpointInterval"

text \<open>The storage holds the headers that the size counts, and reaches the last checkpoint.\<close>

definition sized :: "Headers \<Rightarrow> bool" where
  "sized headers \<longleftrightarrow> store_size headers * HeaderSize \<le> length (storage headers) \<and>
     last_checkpoint headers * HeaderSize \<le> length (storage headers)"

lemma writeLocked_fields [simp]:
  "opened (writeLocked headers k src) = opened headers" "checkpoints (writeLocked headers k src) = checkpoints headers"
  "missingCheckpoints (writeLocked headers k src) = missingCheckpoints headers" "genesisHash (writeLocked headers k src) = genesisHash headers"
  "validateDifficulty (writeLocked headers k src) = validateDifficulty headers" "maxTarget (writeLocked headers k src) = maxTarget headers"
  "targetTimespan (writeLocked headers k src) = targetTimespan headers"
  by (simp_all add: writeLocked_def Let_def)

lemma writeLocked_storage:
  assumes "k * HeaderSize \<le> length (storage headers)"
  shows "storage (writeLocked headers k src) = take (k * HeaderSize) (storage headers) @ src @ drop (k * HeaderSize + length src) (storage headers)"
    "store_size (writeLocked headers k src) = max (store_size headers) (max (length (storage headers)) (k * HeaderSize + length src) div HeaderSize)"
proof -
  show *: "storage (writeLocked headers k src) = take (k * HeaderSize) (storage headers) @ src @ drop (k * HeaderSize + length src) (storage headers)"
    using assms by (simp add: writeLocked_def Let_def WriteAt_eq)
  have "length (take (k * HeaderSize) (storage headers) @ src @ drop (k * HeaderSize + length src) (storage headers)) =
    max (length (storage headers)) (k * HeaderSize + length src)" using assms by simp
  then show "store_size (writeLocked headers k src) = max (store_size headers) (max (length (storage headers)) (k * HeaderSize + length src) div HeaderSize)"
    using assms by (simp add: writeLocked_def Let_def WriteAt_eq)
qed

lemma writeLocked_sized:
  assumes "sized headers" and "k * HeaderSize \<le> length (storage headers)"
  shows "sized (writeLocked headers k src)"
proof -
  let ?n = "max (length (storage headers)) (k * HeaderSize + length src)"
  have n: "length (storage (writeLocked headers k src)) = ?n" using assms(2) by (simp add: writeLocked_storage)
  have whole: "max a (n div c) * c \<le> n" if "a * c \<le> n" for a c n :: nat using that by (simp add: max_def)
  have "store_size headers * HeaderSize \<le> ?n" using assms(1) by (simp add: sized_def le_max_iff_disj)
  then have "store_size (writeLocked headers k src) * HeaderSize \<le> ?n"
    unfolding writeLocked_storage(2) [OF assms(2)] by (rule whole)
  moreover have "last_checkpoint headers * HeaderSize \<le> ?n" using assms(1) by (simp add: sized_def le_max_iff_disj)
  ultimately show ?thesis by (simp add: sized_def n last_checkpoint_def)
qed

section \<open>Checkpoints\<close>

text \<open>The chunk of a checkpoint hashes to it.\<close>

definition verified :: "Headers \<Rightarrow> nat \<Rightarrow> bool" where
  "verified headers i \<longleftrightarrow>
     checkpoint_at (checkpoints headers) i =
       Some (HashHeader (take CheckpointChunkBytes (drop (i * checkpointInterval * HeaderSize) (storage headers))))"

text \<open>Every checkpointed chunk is known to be missing or verified.\<close>

definition checked :: "Headers \<Rightarrow> bool" where
  "checked headers \<longleftrightarrow>
     (\<forall>i < checkpoint_len (checkpoints headers). i * checkpointInterval \<in> set (missingCheckpoints headers) \<or> verified headers i)"

lemma checkpoint_lookup_at: "checkpoint_lookup table (int (i * checkpointInterval)) = checkpoint_at table i"
  by (simp add: checkpoint_lookup_def nat_div_distrib)

lemmas checkpoint_lookup_simp = checkpoint_lookup_at [simplified]

lemma checkpoint_at_Some: "checkpoint_at table i = Some c \<Longrightarrow> i < checkpoint_len table"
  by (simp add: checkpoint_at_def split: if_splits)

lemma chunk_offset: "i < checkpoint_len (checkpoints headers) \<Longrightarrow> i * checkpointInterval \<le> last_checkpoint headers"
  by (simp add: last_checkpoint_def)

text \<open>Writing one chunk leaves the others as they were: only the last can reach beyond the storage.\<close>

lemma chunk_written:
  assumes "sized headers" and "i < checkpoint_len (checkpoints headers)" and "length chunk = CheckpointChunkBytes"
  defines "h' \<equiv> writeLocked headers (i * checkpointInterval) chunk"
  shows "checkpoint_at (checkpoints headers) i = Some (HashHeader chunk) \<Longrightarrow> verified h' i"
    "j \<noteq> i \<Longrightarrow> j < checkpoint_len (checkpoints headers) \<Longrightarrow> verified h' j \<longleftrightarrow> verified headers j"
    "k div checkpointInterval \<noteq> i \<Longrightarrow> header_at h' k = header_at headers k"
    "sized h'"
proof -
  let ?st = "storage headers" let ?o = "i * checkpointInterval * HeaderSize"
  have "i * checkpointInterval \<le> last_checkpoint headers" by (rule chunk_offset [OF assms(2)])
  then have o: "?o \<le> length ?st" using assms(1) by (simp add: sized_def le_max_iff_disj)
  note st = writeLocked_storage(1) [OF o, of chunk, folded h'_def]
  show "checkpoint_at (checkpoints headers) i = Some (HashHeader chunk) \<Longrightarrow> verified h' i"
    unfolding verified_def st using o assms(3) by (simp add: h'_def)
  show "sized h'" unfolding h'_def using assms(1) o by (rule writeLocked_sized)
  show "header_at h' k = header_at headers k" if "k div checkpointInterval \<noteq> i"
  proof (cases "k div checkpointInterval < i")
    case True
    then have "k < i * checkpointInterval" by (simp add: div_less_iff_less_mult)
    then have "k * HeaderSize + HeaderSize \<le> ?o" by simp
    then show ?thesis unfolding header_at_def st by (rule slice_below [OF _ o])
  next
    case False
    then have "Suc i \<le> k div checkpointInterval" using that by simp
    then have "Suc i * checkpointInterval \<le> k" by (simp add: less_eq_div_iff_mult_less_eq)
    then have "?o + length chunk \<le> k * HeaderSize" using assms(3) by simp
    then show ?thesis unfolding header_at_def st by (simp only: slice_above [OF _ o])
  qed
  assume j: "j \<noteq> i" "j < checkpoint_len (checkpoints headers)"
  have "take CheckpointChunkBytes (drop (j * checkpointInterval * HeaderSize) (storage h')) =
    take CheckpointChunkBytes (drop (j * checkpointInterval * HeaderSize) ?st)"
  proof (cases "j < i")
    case True
    then have "j * checkpointInterval * HeaderSize + CheckpointChunkBytes \<le> ?o" by (cases i) auto
    then show ?thesis unfolding st by (rule slice_below [OF _ o])
  next
    case False
    then have "?o + length chunk \<le> j * checkpointInterval * HeaderSize" using j(1) assms(3) by (cases j) auto
    then show ?thesis unfolding st by (simp only: slice_above [OF _ o])
  qed
  then show "verified h' j \<longleftrightarrow> verified headers j" by (simp add: verified_def h'_def)
qed

lemma accept_chunk_cases:
  assumes "sized headers" and "checked headers" and "length chunk = CheckpointChunkBytes" and "accept_chunk (i * checkpointInterval) chunk headers = (h', e)"
  shows "h' = headers \<and> (e = None \<longrightarrow> checkpoint_at (checkpoints headers) i = None) \<or>
    e = None \<and> opened headers \<and> checkpoint_at (checkpoints headers) i = Some (HashHeader chunk) \<and>
      h' = (writeLocked headers (i * checkpointInterval) chunk)\<lparr>missingCheckpoints := removeAll (i * checkpointInterval) (missingCheckpoints headers)\<rparr>"
  using assms(4) by (auto simp: accept_chunk_def Let_def checkpoint_lookup_simp split: if_splits option.splits)

text \<open>A header is known unless its chunk is missing.\<close>

definition known :: "Headers \<Rightarrow> nat \<Rightarrow> bool" where
  "known headers k \<longleftrightarrow>
     (k div checkpointInterval < checkpoint_len (checkpoints headers) \<longrightarrow>
      k div checkpointInterval * checkpointInterval \<notin> set (missingCheckpoints headers))"

text \<open>What the fetch of an absent chunk may do to a store, for every network: it stays sized and checked, and no known
  header changes or gets lost.\<close>

definition fetch_keeps :: "Headers \<Rightarrow> Headers \<Rightarrow> bool" where
  "fetch_keeps h h' \<longleftrightarrow>
     sized h' \<and> checked h' \<and> set (missingCheckpoints h') \<subseteq> set (missingCheckpoints h) \<and>
     (\<forall>k. known h k \<longrightarrow> header_at h' k = header_at h k) \<and>
     opened h' = opened h \<and> checkpoints h' = checkpoints h \<and> genesisHash h' = genesisHash h \<and>
     validateDifficulty h' = validateDifficulty h \<and> maxTarget h' = maxTarget h \<and> targetTimespan h' = targetTimespan h"

lemma fetch_keeps_refl: "sized h \<Longrightarrow> checked h \<Longrightarrow> fetch_keeps h h"
  by (simp add: fetch_keeps_def)

lemma fetch_keeps_trans: "fetch_keeps h h' \<Longrightarrow> fetch_keeps h' h'' \<Longrightarrow> fetch_keeps h h''"
  unfolding fetch_keeps_def known_def by auto

lemma accepted_keeps:
  assumes "sized headers" and "checked headers" and "length chunk = CheckpointChunkBytes"
    and "checkpoint_at (checkpoints headers) i = Some (HashHeader chunk)" and "i * checkpointInterval \<in> set (missingCheckpoints headers)"
  defines "h' \<equiv> (writeLocked headers (i * checkpointInterval) chunk)\<lparr>missingCheckpoints := removeAll (i * checkpointInterval) (missingCheckpoints headers)\<rparr>"
  shows "fetch_keeps headers h'"
proof -
  let ?w = "writeLocked headers (i * checkpointInterval) chunk"
  note i = checkpoint_at_Some [OF assms(4)]
  note w = chunk_written [OF assms(1) i assms(3)]
  have same: "verified h' j = verified ?w j" "header_at h' k = header_at ?w k" "sized h' = sized ?w" for j k
    by (simp_all add: h'_def verified_def header_at_def sized_def last_checkpoint_def)
  have "j * checkpointInterval \<in> set (missingCheckpoints h') \<or> verified h' j" if j: "j < checkpoint_len (checkpoints headers)" for j
  proof (cases "j = i")
    case True
    then show ?thesis using w(1) [OF assms(4)] same(1) by blast
  next
    case False
    then show ?thesis using assms(2) w(2) [OF False j] j same(1) by (auto simp: checked_def h'_def)
  qed
  then have "checked h'" by (simp add: checked_def h'_def)
  moreover have "header_at h' k = header_at headers k" if "known headers k" for k
    unfolding same(2) by (rule w(3)) (use that assms(5) i in \<open>auto simp: known_def\<close>)
  ultimately show ?thesis unfolding fetch_keeps_def using same w(4) by (auto simp: h'_def)
qed

lemma FetchChunk_keeps:
  assumes "sized headers" and "checked headers" and "FetchChunk inflate getter w headers height = (w', h', e)"
    and "\<not> known headers (nat height) \<or> checkpoint_len (checkpoints headers) \<le> nat height div checkpointInterval"
  shows "fetch_keeps headers h'"
proof -
  have "h' = headers \<or> (\<exists>chunk. length chunk = CheckpointChunkBytes \<and> accept_chunk (nat height div checkpointInterval * checkpointInterval) chunk headers = (h', e))"
    using assms(3) by (auto simp: FetchChunk_def decodeCheckpointChunk_def Let_def split: if_splits option.splits prod.splits sum.splits)
  then consider "h' = headers" | chunk where "length chunk = CheckpointChunkBytes"
      "accept_chunk (nat height div checkpointInterval * checkpointInterval) chunk headers = (h', e)" by blast
  then show ?thesis
  proof cases
    case 2
    have absent: "nat height div checkpointInterval * checkpointInterval \<in> set (missingCheckpoints headers)"
      if "checkpoint_at (checkpoints headers) (nat height div checkpointInterval) = Some c" for c
      using assms(4) checkpoint_at_Some [OF that] by (auto simp: known_def)
    from accept_chunk_cases [OF assms(1,2) 2] show ?thesis
      using fetch_keeps_refl [OF assms(1,2)] accepted_keeps [OF assms(1,2) 2(1)] absent by blast
  qed (use assms in \<open>simp add: fetch_keeps_refl\<close>)
qed

lemma HasHeader_checkpointed:
  assumes "opened headers" and "i < checkpoint_len (checkpoints headers)" and "nat height div checkpointInterval = i" and "0 \<le> height"
  shows "HasHeader headers height = Inr (i * checkpointInterval \<notin> set (missingCheckpoints headers))"
proof -
  have "height div int checkpointInterval * int checkpointInterval = int (i * checkpointInterval)"
    using assms(3,4) by (metis int_nat_eq of_nat_mult zdiv_int)
  moreover obtain c where "checkpoint_at (checkpoints headers) i = Some c" using assms(2) by (simp add: checkpoint_at_def)
  ultimately show ?thesis using assms(1,4) unfolding HasHeader_def hasHeaderLocked_def Let_def by (simp add: checkpoint_lookup_simp nat_mult_distrib)
qed

lemma EnsureChunkAt_keeps:
  assumes "sized headers" and "checked headers" and "EnsureChunkAt inflate getter w headers height = (w', h', e)"
  shows "fetch_keeps headers h'"
proof (cases "HasHeader headers height = Inr False")
  case True
  then have "FetchChunk inflate getter w headers height = (w', h', e)" using assms(3) by (simp add: EnsureChunkAt_def)
  moreover have "opened headers" "0 \<le> height" using True by (auto simp: HasHeader_def hasHeaderLocked_def split: if_splits)
  then have "\<not> known headers (nat height) \<or> checkpoint_len (checkpoints headers) \<le> nat height div checkpointInterval"
    using True HasHeader_checkpointed [of headers "nat height div checkpointInterval" height] by (auto simp: known_def not_le)
  ultimately show ?thesis by (rule FetchChunk_keeps [OF assms(1,2)])
next
  case False
  then have "h' = headers" using assms(3) by (auto simp: EnsureChunkAt_def split: sum.splits bool.splits)
  then show ?thesis using assms by (simp add: fetch_keeps_refl)
qed

lemma fetch_keeps_state: "fetch_keeps h h' \<Longrightarrow> sized h'" "fetch_keeps h h' \<Longrightarrow> checked h'"
  by (simp_all add: fetch_keeps_def)

lemma ensure_all_keeps:
  "sized headers \<Longrightarrow> checked headers \<Longrightarrow> ensure_all inflate getter w headers heights = (w', h', e) \<Longrightarrow> fetch_keeps headers h'"
proof (induction heights arbitrary: w headers)
  case (Cons height heights)
  obtain w1 h1 e1 where E: "EnsureChunkAt inflate getter w headers height = (w1, h1, e1)" by (cases "EnsureChunkAt inflate getter w headers height") auto
  have k: "fetch_keeps headers h1" using Cons.prems(1,2) E by (rule EnsureChunkAt_keeps)
  show ?case
  proof (cases e1)
    case None
    then have "ensure_all inflate getter w1 h1 heights = (w', h', e)" using Cons.prems(3) E by simp
    from Cons.IH [OF fetch_keeps_state [OF k] this] show ?thesis using k by (rule fetch_keeps_trans [rotated])
  next
    case Some
    then show ?thesis using Cons.prems(3) E k by simp
  qed
qed (simp add: fetch_keeps_refl)

text \<open>A fetch that ends without an error leaves the chunk present.\<close>

lemma EnsureChunkAt_present:
  assumes "sized headers" and "checked headers" and "opened headers" and "i < checkpoint_len (checkpoints headers)"
    and "nat height div checkpointInterval = i" and "0 \<le> height"
    and "EnsureChunkAt inflate getter w headers height = (w', h', None)"
  shows "i * checkpointInterval \<notin> set (missingCheckpoints h')"
proof (cases "i * checkpointInterval \<in> set (missingCheckpoints headers)")
  case True
  then have "FetchChunk inflate getter w headers height = (w', h', None)"
    using HasHeader_checkpointed [OF assms(3-6)] assms(7) by (simp add: EnsureChunkAt_def)
  then obtain chunk where c: "length chunk = CheckpointChunkBytes" "accept_chunk (i * checkpointInterval) chunk headers = (h', None)"
    using assms(5) by (auto simp: FetchChunk_def decodeCheckpointChunk_def Let_def split: if_splits option.splits prod.splits sum.splits)
  obtain c0 where "checkpoint_at (checkpoints headers) i = Some c0" using assms(4) by (simp add: checkpoint_at_def)
  with accept_chunk_cases [OF assms(1,2) c] show ?thesis by auto
next
  case False
  then show ?thesis using HasHeader_checkpointed [OF assms(3-6)] assms(7) by (simp add: EnsureChunkAt_def)
qed

text \<open>Filling. A round that ends without an error leaves no checkpointed chunk missing.\<close>

lemma ensure_all_present:
  assumes "sized headers" and "checked headers" and "opened headers"
    and "\<And>h. h \<in> set heights \<Longrightarrow> 0 \<le> h \<and> nat h div checkpointInterval < checkpoint_len (checkpoints headers)"
    and "ensure_all inflate getter w headers heights = (w', h', None)"
  shows "\<forall>h \<in> set heights. nat h div checkpointInterval * checkpointInterval \<notin> set (missingCheckpoints h')"
  using assms
proof (induction heights arbitrary: w headers)
  case (Cons height heights)
  obtain w1 h1 e1 where E: "EnsureChunkAt inflate getter w headers height = (w1, h1, e1)" by (cases "EnsureChunkAt inflate getter w headers height") auto
  then have e: "e1 = None" and rest: "ensure_all inflate getter w1 h1 heights = (w', h', None)" using Cons.prems(5) by (cases e1; simp)+
  have k: "fetch_keeps headers h1" using Cons.prems(1,2) E by (rule EnsureChunkAt_keeps)
  then have same: "opened h1 = opened headers" "checkpoints h1 = checkpoints headers" by (simp_all add: fetch_keeps_def)
  have "nat height div checkpointInterval * checkpointInterval \<notin> set (missingCheckpoints h1)"
    using Cons.prems(4) [of height] E e by (intro EnsureChunkAt_present [OF Cons.prems(1-3)]) auto
  moreover have "fetch_keeps h1 h'" using fetch_keeps_state [OF k] rest by (rule ensure_all_keeps)
  moreover have "\<forall>h \<in> set heights. nat h div checkpointInterval * checkpointInterval \<notin> set (missingCheckpoints h')"
    using Cons.prems(3,4) by (intro Cons.IH [OF fetch_keeps_state [OF k] _ _ rest]) (auto simp: same)
  ultimately show ?case unfolding fetch_keeps_def by auto
qed simp

lemma FillMissingCheckpoints_complete:
  assumes "sized headers" and "checked headers" and "opened headers"
    and "FillMissingCheckpoints inflate getter w headers = (w', h', None)"
    and "i < checkpoint_len (checkpoints headers)"
  shows "i * checkpointInterval \<notin> set (missingCheckpoints h')" "verified h' i"
proof -
  let ?m = "map int (MissingCheckpointedChunks headers)"
  have fill: "ensure_all inflate getter w headers ?m = (w', h', None)" using assms(4) by (simp add: FillMissingCheckpoints_def)
  have k: "fetch_keeps headers h'" using assms(1,2) fill by (rule ensure_all_keeps)
  show gone: "i * checkpointInterval \<notin> set (missingCheckpoints h')"
  proof (cases "i * checkpointInterval \<in> set (missingCheckpoints headers)")
    case True
    then have "i * checkpointInterval \<in> set (MissingCheckpointedChunks headers)" using assms(5) by (simp add: MissingCheckpointedChunks_def)
    then have "int (i * checkpointInterval) \<in> set ?m" unfolding set_map by (rule imageI)
    moreover have "\<forall>h \<in> set ?m. nat h div checkpointInterval * checkpointInterval \<notin> set (missingCheckpoints h')"
      by (rule ensure_all_present [OF assms(1-3) _ fill]) (auto simp: MissingCheckpointedChunks_def)
    ultimately have "nat (int (i * checkpointInterval)) div checkpointInterval * checkpointInterval \<notin> set (missingCheckpoints h')" by blast
    then show ?thesis by (simp only: nat_int) simp
  next
    case False
    then show ?thesis using k by (auto simp: fetch_keeps_def)
  qed
  show "verified h' i" using k gone assms(5) by (auto simp: fetch_keeps_def checked_def)
qed

text \<open>A network that serves the checkpointed chunks makes every fetch succeed.\<close>

definition serves :: "inflater \<Rightarrow> checkpointTable \<Rightarrow> 'w getter \<Rightarrow> bool" where
  "serves inflate table get \<longleftrightarrow>
     (\<forall>w i. i < checkpoint_len table \<longrightarrow>
       (\<exists>w' response chunk. get w (i * checkpointInterval) = (w', Inr response) \<and>
          decodeCheckpointChunk inflate response = Inr chunk \<and> checkpoint_at table i = Some (HashHeader chunk)))"

lemma EnsureChunkAt_served:
  assumes "serves inflate (checkpoints headers) get" and "opened headers" and "i < checkpoint_len (checkpoints headers)"
  shows "\<exists>w' h'. EnsureChunkAt inflate (Some get) w headers (int (i * checkpointInterval)) = (w', h', None)"
proof -
  from assms(1,3) obtain w' response chunk where "get w (i * checkpointInterval) = (w', Inr response)"
    "decodeCheckpointChunk inflate response = Inr chunk" "checkpoint_at (checkpoints headers) i = Some (HashHeader chunk)"
    unfolding serves_def by blast
  then show ?thesis using assms(2) HasHeader_checkpointed [OF assms(2,3), of "int (i * checkpointInterval)"]
    by (simp add: EnsureChunkAt_def FetchChunk_def accept_chunk_def Let_def checkpoint_lookup_simp nat_mult_distrib split: bool.split)
qed

lemma ensure_all_served:
  assumes "sized headers" and "checked headers" and "serves inflate (checkpoints headers) get" and "opened headers"
    and "\<And>i. i \<in> set is \<Longrightarrow> i < checkpoint_len (checkpoints headers)"
  shows "\<exists>w' h'. ensure_all inflate (Some get) w headers (map (\<lambda>i. int (i * checkpointInterval)) is) = (w', h', None)"
  using assms
proof (induction "is" arbitrary: w headers)
  case (Cons i "is")
  obtain w1 h1 where E: "EnsureChunkAt inflate (Some get) w headers (int (i * checkpointInterval)) = (w1, h1, None)"
    using EnsureChunkAt_served [OF Cons.prems(3,4) Cons.prems(5) [OF list.set_intros(1)]] by blast
  have k: "fetch_keeps headers h1" using Cons.prems(1,2) E by (rule EnsureChunkAt_keeps)
  then have same: "opened h1 = opened headers" "checkpoints h1 = checkpoints headers" by (simp_all add: fetch_keeps_def)
  have "\<exists>w' h'. ensure_all inflate (Some get) w1 h1 (map (\<lambda>i. int (i * checkpointInterval)) is) = (w', h', None)"
    using Cons.prems by (intro Cons.IH fetch_keeps_state [OF k]) (simp_all add: same)
  then show ?case using E by simp
qed simp

section \<open>Opening\<close>

lemma find_missing_fields:
  "find_missing is headers = (h', e) \<Longrightarrow> \<exists>m. h' = headers\<lparr>missingCheckpoints := m\<rparr> \<and> set (missingCheckpoints headers) \<subseteq> set m"
proof (induction "is" headers rule: find_missing.induct)
  case (1 headers)
  then show ?case by (intro exI [of _ "missingCheckpoints headers"]) simp
next
  case (2 i "is" headers)
  show ?case
  proof (cases "i * checkpointInterval \<in> set (missingCheckpoints headers)")
    case False
    show ?thesis
    proof (cases "chunkHashLocked headers (int (i * checkpointInterval)) (int checkpointInterval)")
      case Inl
      then have "h' = headers" using 2(3) False by (simp add: Let_def)
      then show ?thesis by (intro exI [of _ "missingCheckpoints headers"]) simp
    next
      case (Inr actual)
      let ?h = "if Some actual \<noteq> checkpoint_at (checkpoints headers) i
        then headers\<lparr>missingCheckpoints := i * checkpointInterval # missingCheckpoints headers\<rparr> else headers"
      have "find_missing is ?h = (h', e)" using 2(3) False Inr by (simp add: Let_def)
      from 2(2) [OF refl False Inr this] obtain m where m: "h' = ?h\<lparr>missingCheckpoints := m\<rparr>" "set (missingCheckpoints ?h) \<subseteq> set m" by blast
      show ?thesis by (rule exI [of _ m]) (use m in \<open>auto split: if_splits\<close>)
    qed
  qed (use 2 in \<open>simp add: Let_def\<close>)
qed

lemma find_missing_checked:
  "find_missing is headers = (h', None) \<Longrightarrow> i \<in> set is \<Longrightarrow> i * checkpointInterval \<in> set (missingCheckpoints h') \<or> verified h' i"
proof (induction "is" headers rule: find_missing.induct)
  case (2 k "is" headers)
  show ?case
  proof (cases "k * checkpointInterval \<in> set (missingCheckpoints headers)")
    case True
    then have f: "find_missing is headers = (h', None)" using 2(3) by simp
    with find_missing_fields [OF this] True 2(1) [OF refl True f] 2(4) show ?thesis by auto
  next
    case False
    then obtain actual where a: "chunkHashLocked headers (int (k * checkpointInterval)) (int checkpointInterval) = Inr actual"
      using 2(3) by (auto simp: Let_def split: sum.splits)
    let ?h = "if Some actual \<noteq> checkpoint_at (checkpoints headers) k
        then headers\<lparr>missingCheckpoints := k * checkpointInterval # missingCheckpoints headers\<rparr> else headers"
    have f: "find_missing is ?h = (h', None)" using 2(3) False a by (simp add: Let_def)
    from find_missing_fields [OF f] obtain m where m: "h' = ?h\<lparr>missingCheckpoints := m\<rparr>" "set (missingCheckpoints ?h) \<subseteq> set m" by blast
    have "k * checkpointInterval \<in> set (missingCheckpoints h') \<or> verified h' k"
    proof (cases "Some actual = checkpoint_at (checkpoints headers) k")
      case True
      then show ?thesis using a m(1) by (simp add: verified_def chunkHashLocked_def nat_mult_distrib split: if_splits)
    qed (use m in simp)
    then show ?thesis using 2(2) [OF refl False a f] 2(4) by auto
  qed
qed simp

lemma repair_loop_sized:
  "repair_loop heights previousHash headers = (h', e) \<Longrightarrow> store_size headers * HeaderSize \<le> length (storage headers) \<Longrightarrow>
   (\<And>h. h \<in> set heights \<Longrightarrow> h < store_size headers) \<Longrightarrow>
   store_size h' * HeaderSize \<le> length (storage h') \<and> checkpoints h' = checkpoints headers \<and> opened h' = opened headers \<and>
   missingCheckpoints h' = missingCheckpoints headers"
proof (induction heights previousHash headers rule: repair_loop.induct)
  case (2 height heights previousHash headers)
  then show ?case by (auto simp: Let_def truncateForRepairLocked_def split: sum.splits if_splits)
qed simp

lemma Open_state:
  assumes "Open contents headers = (h', None)" and "missingCheckpoints headers = []"
  shows "sized h'" "checked h'" "opened h'" "checkpoints h' = checkpoints headers"
proof -
  let ?h1 = "headers\<lparr>storage := contents, store_size := length contents div HeaderSize, opened := True\<rparr>"
  let ?start = "if length contents mod HeaderSize \<noteq> 0 then 0 else lastHeight (checkpoints headers) + int checkpointInterval"
  obtain h2 where R: "repairLocked ?start ?h1 = (h2, None)" and F: "findMissingCheckpointsLocked (ensureCheckpointedSizeLocked h2) = (h', None)"
    using assms(1) by (auto simp: Open_def Let_def split: if_splits prod.splits option.splits)
  have h2: "store_size h2 * HeaderSize \<le> length (storage h2)" "checkpoints h2 = checkpoints headers" "opened h2" "missingCheckpoints h2 = []"
    using R assms(2) repair_loop_sized [of "[nat ?start..<store_size ?h1]" None ?h1 h2 None]
    by (auto simp: repairLocked_def split: if_splits)
  let ?h3 = "ensureCheckpointedSizeLocked h2"
  have h3: "sized ?h3" "checkpoints ?h3 = checkpoints headers" "opened ?h3"
    using h2 by (auto simp: ensureCheckpointedSizeLocked_def Let_def sized_def last_checkpoint_def lastHeight_def split: if_splits)
  from find_missing_fields [OF F [unfolded findMissingCheckpointsLocked_def]] obtain m where m: "h' = ?h3\<lparr>missingCheckpoints := m\<rparr>" by blast
  then show "sized h'" "opened h'" "checkpoints h' = checkpoints headers" using h3 by (simp_all add: sized_def last_checkpoint_def)
  show "checked h'" unfolding checked_def
    using find_missing_checked [OF F [unfolded findMissingCheckpointsLocked_def]] m h3(2) by simp
qed

text \<open>
  C9. Checkpoints. After opening a store on whatever the file holds, a fill that ends without an error leaves
  no checkpointed chunk missing, and every chunk of the store hashes to its checkpoint, whatever the peers sent.
  The fill does end without an error when the network serves the chunks of the table.
\<close>

theorem FillMissingCheckpoints_verifies:
  assumes "Open contents (NewHeaders table) = (headers, None)"
  shows "(FillMissingCheckpoints inflate getter w headers = (w', h', None) \<longrightarrow>
      MissingCheckpointedChunks h' = [] \<and> (\<forall>i < checkpoint_len table. verified h' i)) \<and>
    (serves inflate table get \<longrightarrow> (\<exists>w'' h''. FillMissingCheckpoints inflate (Some get) w headers = (w'', h'', None)))"
proof -
  have "missingCheckpoints (NewHeaders table) = []" "checkpoints (NewHeaders table) = table" by (simp_all add: NewHeaders_def)
  note o = Open_state [OF assms this(1), unfolded this(2)]
  have "MissingCheckpointedChunks h' = [] \<and> (\<forall>i < checkpoint_len table. verified h' i)"
    if fill: "FillMissingCheckpoints inflate getter w headers = (w', h', None)"
  proof -
    note filled = FillMissingCheckpoints_complete [OF o(1-3) fill, unfolded o(4)]
    have "fetch_keeps headers h'" using ensure_all_keeps [OF o(1,2)] fill by (simp add: FillMissingCheckpoints_def)
    then have "checkpoints h' = table" using o(4) by (simp add: fetch_keeps_def)
    then show ?thesis using filled by (auto simp: MissingCheckpointedChunks_def filter_empty_conv)
  qed
  moreover have "\<exists>w'' h''. FillMissingCheckpoints inflate (Some get) w headers = (w'', h'', None)" if "serves inflate table get"
  proof -
    let ?is = "filter (\<lambda>i. i * checkpointInterval \<in> set (missingCheckpoints headers)) (rev [0..<checkpoint_len table])"
    have "map int (MissingCheckpointedChunks headers) = map (\<lambda>i. int (i * checkpointInterval)) ?is"
      by (simp add: MissingCheckpointedChunks_def filter_map o_def o(4))
    moreover have "\<exists>w' h'. ensure_all inflate (Some get) w headers (map (\<lambda>i. int (i * checkpointInterval)) ?is) = (w', h', None)"
      using that by (intro ensure_all_served o(1-3)) (auto simp: o(4))
    ultimately show ?thesis by (simp only: FillMissingCheckpoints_def)
  qed
  ultimately show ?thesis by blast
qed

lemma length_StdEncoding: "length (StdEncoding bs) = 4 * ((length bs + 2) div 3)"
proof (induction bs rule: StdEncoding.induct)
  case (4 a b c bs)
  have "(n + 5) div 3 = (n + 2) div 3 + 1" for n :: nat by presburger
  from this [of "length bs"] 4 show ?case by (simp add: add.commute)
qed simp_all

lemma Open_fresh: "\<exists>headers. Open [] (NewHeaders table) = (headers, None)" if "length table = 32"
proof -
  have "checkpoint_len table = 1" "lastHeight table = 0" using that by (simp_all add: checkpoint_len_def lastHeight_def)
  then show ?thesis
    by (simp add: Open_def NewHeaders_def repairLocked_def ensureCheckpointedSizeLocked_def findMissingCheckpointsLocked_def chunkHashLocked_def int64_max_def Let_def split: prod.split)
qed

lemma decode_uncompressed:
  assumes "length chunk = 112000"
  shows "decodeCheckpointChunk (\<lambda>limit bs. Inr (take limit bs)) (StdEncoding chunk) = Inr chunk"
proof -
  have "decodePythonBase64 (StdEncoding chunk) = Inr chunk"
    unfolding decodePythonBase64_def using decode_encode_loop [of 0 0 "[]" chunk] by (simp only: append_Nil)
  moreover have "length (StdEncoding chunk) = 149336" unfolding length_StdEncoding assms by simp
  ultimately show ?thesis using assms by (simp add: decodeCheckpointChunk_def)
qed

theorem FillMissingCheckpoints_verifies_witness:
  "\<exists>headers w' h'. Open [] (NewHeaders (rev (doubleSHA256 (replicate 112000 7)))) = (headers, None) \<and>
     FillMissingCheckpoints (\<lambda>limit bs. Inr (take limit bs)) (Some (\<lambda>n _. (n + 1, Inr (StdEncoding (replicate 112000 7))))) (0 :: nat) headers = (w', h', None) \<and>
     verified h' 0"
proof -
  obtain chunk :: bytes where c: "chunk = replicate 112000 7" by blast
  let ?table = "rev (doubleSHA256 chunk)"
  let ?get = "\<lambda>(n :: nat) (_ :: nat). (n + 1, Inr (StdEncoding chunk) :: string + string)" let ?inflate = "\<lambda>limit bs. Inr (take limit bs)"
  have len: "length ?table = 32" by (simp add: doubleSHA256_def)
  then have one: "checkpoint_len ?table = 1" by (simp add: checkpoint_len_def)
  obtain headers where O: "Open [] (NewHeaders ?table) = (headers, None)" using Open_fresh [OF len] by blast
  have d: "decodeCheckpointChunk ?inflate (StdEncoding chunk) = Inr chunk" unfolding c by (rule decode_uncompressed [OF length_replicate])
  have "checkpoint_at ?table 0 = Some (HashHeader chunk)"
    using len one by (simp add: checkpoint_at_def HashHeader_def encodeReversedHeaderHash_def)
  then have s: "serves ?inflate ?table ?get" unfolding serves_def one using d by auto
  have "\<exists>w' h'. FillMissingCheckpoints ?inflate (Some ?get) 0 headers = (w', h', None)"
    by (rule FillMissingCheckpoints_verifies [OF O, THEN conjunct2, rule_format, OF s])
  then obtain w' h' where f: "FillMissingCheckpoints ?inflate (Some ?get) 0 headers = (w', h', None)" by (elim exE)
  have "verified h' 0" using FillMissingCheckpoints_verifies [OF O, THEN conjunct1, rule_format, OF f] one by simp
  then show ?thesis unfolding c [symmetric] using O f by (intro exI conjI)
qed

section \<open>Connecting\<close>

text \<open>The rules of the chain for one stored header, from its two predecessors in the store.\<close>

definition decoded_at :: "Headers \<Rightarrow> nat \<Rightarrow> BlockHeader" where
  "decoded_at headers k = projr (DeserializeHeader (int k) (header_at headers k))"

definition predecessor :: "Headers \<Rightarrow> nat \<Rightarrow> nat \<Rightarrow> BlockHeader option" where
  "predecessor headers d k = (if k < d then None else Some (decoded_at headers (k - d)))"

definition linked :: "(bytes \<Rightarrow> bytes) \<Rightarrow> Headers \<Rightarrow> nat \<Rightarrow> bool" where
  "linked ripemd160 headers k \<longleftrightarrow>
     (if k = 0 then genesisHash headers = None \<or> genesisHash headers = Some (HashHeader (header_at headers 0))
      else HeaderPreviousHash (decoded_at headers k) = HashHeader (header_at headers (k - 1)) \<and>
        (validateDifficulty headers \<longrightarrow>
          (\<exists>target work. NextBlockTarget (maxTarget headers) (targetTimespan headers) (predecessor headers 2 k) (predecessor headers 1 k) = Some target \<and>
             HeaderBits (decoded_at headers k) = Compact target \<and>
             ProofOfWork ripemd160 (HashHeader (header_at headers k)) = Inr work \<and> work \<le> target)))"

text \<open>The headers above the checkpoints and below a height obey the rules, and their predecessors are known.\<close>

definition valid_upto :: "(bytes \<Rightarrow> bytes) \<Rightarrow> Headers \<Rightarrow> nat \<Rightarrow> bool" where
  "valid_upto ripemd160 headers m \<longleftrightarrow>
     (\<forall>k. checkpoint_len (checkpoints headers) * checkpointInterval \<le> k \<and> k < m \<longrightarrow>
        linked ripemd160 headers k \<and> known headers (k - 1) \<and> known headers (k - 2))"

definition same_rules :: "Headers \<Rightarrow> Headers \<Rightarrow> bool" where
  "same_rules h h' \<longleftrightarrow> genesisHash h' = genesisHash h \<and> validateDifficulty h' = validateDifficulty h \<and>
     maxTarget h' = maxTarget h \<and> targetTimespan h' = targetTimespan h"

lemma linked_cong:
  assumes "same_rules h h'" and "header_at h' k = header_at h k" and "header_at h' (k - 1) = header_at h (k - 1)" and "header_at h' (k - 2) = header_at h (k - 2)"
  shows "linked ripemd160 h' k = linked ripemd160 h k"
proof -
  have "decoded_at h' k = decoded_at h k" "predecessor h' 2 k = predecessor h 2 k" "predecessor h' 1 k = predecessor h 1 k"
    using assms(2-4) by (simp_all add: decoded_at_def predecessor_def)
  then show ?thesis using assms by (cases "k = 0") (simp_all add: linked_def same_rules_def)
qed

lemma split_headers_nth: "i < n \<Longrightarrow> split_headers n s ! i = take HeaderSize (drop (i * HeaderSize) s)"
  by (induction n s arbitrary: i rule: split_headers.induct) (auto simp: nth_Cons add.commute split: nat.split)

lemma length_split_headers [simp]: "length (split_headers n s) = n"
  by (induction n s rule: split_headers.induct) simp_all

lemma DeserializeHeader_decoded: "DeserializeHeader (int k) (header_at headers k) = Inr d \<Longrightarrow> decoded_at headers k = d"
  by (simp add: decoded_at_def)

lemma validateHeader_linked:
  assumes "validateHeader ripemd160 headers height (HashHeader (header_at h' k)) (decoded_at h' k)
      (if k = 0 then None else Some (HashHeader (header_at h' (k - 1)))) target = None"
    and "NextBlockTarget (maxTarget headers) (targetTimespan headers) (predecessor h' 2 k) (predecessor h' 1 k) = Some target"
    and "same_rules headers h'"
  shows "linked ripemd160 h' k"
  using assms unfolding linked_def validateHeader_def same_rules_def by (auto split: if_splits sum.splits)

lemma validate_loop_linked:
  assumes "validate_loop ripemd160 headers start n raws previousHash previous previousPrevious = None"
    and "same_rules headers h'" and "k = nat start + n" and "0 \<le> start"
    and "previousHash = (if k = 0 then None else Some (HashHeader (header_at h' (k - 1))))"
    and "previous = predecessor h' 1 k" and "previousPrevious = predecessor h' 2 k"
    and "\<And>i. i < length raws \<Longrightarrow> header_at h' (k + i) = raws ! i"
  shows "i < length raws \<Longrightarrow> linked ripemd160 h' (k + i)"
  using assms
proof (induction raws arbitrary: n k previousHash previous previousPrevious i)
  case (Cons raw raws)
  have raw: "header_at h' k = raw" using Cons.prems(9) [of 0] by simp
  have height: "start + int n = int k" using Cons.prems(4,5) by simp
  from Cons.prems(2) obtain current target where D: "DeserializeHeader (int k) raw = Inr current"
    and N: "NextBlockTarget (maxTarget headers) (targetTimespan headers) previousPrevious previous = Some target"
    and V: "validateHeader ripemd160 headers start (HashHeader raw) current previousHash target = None"
    and rest: "validate_loop ripemd160 headers start (Suc n) raws (Some (HashHeader raw)) (Some current) previous = None"
    by (auto simp: Let_def height split: sum.splits option.splits)
  have c: "decoded_at h' k = current" using D raw by (intro DeserializeHeader_decoded) simp
  have here: "linked ripemd160 h' k"
    using V N Cons.prems(3) unfolding Cons.prems(6-8) c [symmetric] raw [symmetric] by (rule validateHeader_linked)
  show ?case
  proof (cases i)
    case (Suc j)
    have "linked ripemd160 h' (Suc k + j)"
    proof (rule Cons.IH [OF _ rest Cons.prems(3)])
      show "header_at h' (Suc k + i') = raws ! i'" if "i' < length raws" for i' using Cons.prems(9) [of "Suc i'"] that by simp
    qed (use Cons.prems Suc c raw in \<open>auto simp: predecessor_def\<close>)
    then show ?thesis using Suc by simp
  qed (use here in simp)
qed simp

lemma read_header_at:
  assumes "read_header headers (int k) = Inr (raw, d)"
  shows "raw = header_at headers k" "decoded_at headers k = d" "Suc k * HeaderSize \<le> length (storage headers)"
proof -
  have r: "raw = header_at headers k" "length raw = HeaderSize" "DeserializeHeader (int k) raw = Inr d"
    using assms by (auto simp: read_header_def readLocked_def header_at_def and_then_Inr Let_def split: if_splits)
  then show "raw = header_at headers k" "decoded_at headers k = d" by (auto intro: DeserializeHeader_decoded)
  show "Suc k * HeaderSize \<le> length (storage headers)" using r(2) unfolding r(1) header_at_def by simp
qed

text \<open>A validated chunk, once written, obeys the rules.\<close>

lemma validateChunkLocked_linked:
  fixes start :: nat
  assumes "validateChunkLocked ripemd160 headers (int start) serialized = None" and "length serialized mod HeaderSize = 0"
  defines "n \<equiv> length serialized div HeaderSize" and "h' \<equiv> writeLocked headers start serialized"
  shows "start * HeaderSize \<le> length (storage headers)"
    "i < n \<Longrightarrow> header_at h' (start + i) = take HeaderSize (drop (i * HeaderSize) serialized)"
    "i < n \<Longrightarrow> linked ripemd160 h' (start + i)"
    "k < start \<Longrightarrow> header_at h' k = header_at headers k"
proof -
  have len: "length serialized = n * HeaderSize" using assms(2) unfolding n_def by (metis dvd_div_mult_self mod_0_imp_dvd)
  have one: "start > 0 \<Longrightarrow> \<exists>raw d. read_header headers (int (start - 1)) = Inr (raw, d)"
    and two: "start > 1 \<Longrightarrow> \<exists>raw d. read_header headers (int (start - 2)) = Inr (raw, d)"
    using assms(1) by (auto simp: validateChunkLocked_def and_then_Inr of_nat_diff split: sum.splits if_splits)
  show off: "start * HeaderSize \<le> length (storage headers)"
  proof (cases "start = 0")
    case False
    then obtain raw d where "read_header headers (int (start - 1)) = Inr (raw, d)" using one by blast
    from read_header_at(3) [OF this] False show ?thesis by simp
  qed simp
  note st = writeLocked_storage(1) [OF off, of serialized, folded h'_def]
  show at: "header_at h' (start + i) = take HeaderSize (drop (i * HeaderSize) serialized)" if "i < n" for i
  proof -
    have "(start + i) * HeaderSize + HeaderSize \<le> start * HeaderSize + length serialized" using that len by simp
    then have "take HeaderSize (drop ((start + i) * HeaderSize) (storage h')) = take HeaderSize (drop ((start + i) * HeaderSize - start * HeaderSize) serialized)"
      unfolding st by (intro slice_inside [OF _ _ off]) simp_all
    then show ?thesis by (simp add: header_at_def)
  qed
  show below: "header_at h' k = header_at headers k" if "k < start" for k
    unfolding header_at_def st by (rule slice_below [OF _ off]) (use that in simp)
  have rules: "same_rules headers h'" by (simp add: same_rules_def h'_def)
  let ?hash = "if start = 0 then None else Some (HashHeader (header_at h' (start - 1)))"
  have "validate_loop ripemd160 headers (int start) 0 (split_headers n serialized) ?hash (predecessor h' 1 start) (predecessor h' 2 start) = None"
  proof -
    have p: "(if int start > 0 then and_then (read_header headers (int start - 1)) (\<lambda>(raw, decoded). Inr (Some (HashHeader raw), Some decoded))
        else Inr (None, None)) = Inr (?hash, predecessor h' 1 start)"
    proof (cases "start = 0")
      case False
      then obtain raw d where R: "read_header headers (int (start - 1)) = Inr (raw, d)" using one by blast
      from read_header_at(1,2) [OF this] R False below [of "start - 1"] show ?thesis by (simp add: predecessor_def decoded_at_def of_nat_diff)
    qed (simp add: predecessor_def)
    have pp: "(if int start > 1 then and_then (read_header headers (int start - 2)) (\<lambda>(_, decoded). Inr (Some decoded)) else Inr None) = Inr (predecessor h' 2 start)"
    proof (cases "start > 1")
      case True
      then obtain raw d where R: "read_header headers (int (start - 2)) = Inr (raw, d)" using two by blast
      from read_header_at(1,2) [OF this] R True below [of "start - 2"] show ?thesis by (simp add: predecessor_def decoded_at_def of_nat_diff)
    qed (simp add: predecessor_def)
    show ?thesis using assms(1) unfolding validateChunkLocked_def p pp by (simp add: n_def)
  qed
  from validate_loop_linked [OF this rules, of start] show "linked ripemd160 h' (start + i)" if "i < n" for i
    using that at by (simp add: split_headers_nth)
qed

lemma fetch_keeps_rules: "fetch_keeps h h' \<Longrightarrow> same_rules h h'" "fetch_keeps h h' \<Longrightarrow> checkpoints h' = checkpoints h"
  "fetch_keeps h h' \<Longrightarrow> known h k \<Longrightarrow> known h' k" "fetch_keeps h h' \<Longrightarrow> known h k \<Longrightarrow> header_at h' k = header_at h k"
  "fetch_keeps h h' \<Longrightarrow> opened h' = opened h"
  by (auto simp: fetch_keeps_def same_rules_def known_def)

lemma known_above: "checkpoint_len (checkpoints headers) * checkpointInterval \<le> k \<Longrightarrow> known headers k"
  by (simp add: known_def less_eq_div_iff_mult_less_eq not_less [symmetric] div_less_iff_less_mult)

lemma valid_upto_fetch:
  assumes "fetch_keeps h h'" and "valid_upto ripemd160 h m"
  shows "valid_upto ripemd160 h' m"
  unfolding valid_upto_def fetch_keeps_rules(2) [OF assms(1)]
proof (intro allI impI)
  fix k assume k: "checkpoint_len (checkpoints h) * checkpointInterval \<le> k \<and> k < m"
  then have l: "linked ripemd160 h k" "known h (k - 1)" "known h (k - 2)" using assms(2) unfolding valid_upto_def by blast+
  have "known h k" using k by (intro known_above) blast
  with l show "linked ripemd160 h' k \<and> known h' (k - 1) \<and> known h' (k - 2)"
    using linked_cong [of h h' k] by (simp add: fetch_keeps_rules [OF assms(1)])
qed

text \<open>With a getter the two predecessors of a chunk are known before it is validated.\<close>

lemma ensure_all_known:
  assumes "sized headers" and "checked headers" and "ensure_all inflate getter w headers heights = (w', h', None)" and "int k \<in> set heights"
  shows "known h' k"
  using assms
proof (induction heights arbitrary: w headers)
  case (Cons height heights)
  obtain w1 h1 e1 where E: "EnsureChunkAt inflate getter w headers height = (w1, h1, e1)" by (cases "EnsureChunkAt inflate getter w headers height") auto
  then have e: "e1 = None" and rest: "ensure_all inflate getter w1 h1 heights = (w', h', None)" using Cons.prems(3) by (cases e1; simp)+
  have keep: "fetch_keeps headers h1" using Cons.prems(1,2) E by (rule EnsureChunkAt_keeps)
  have keep': "fetch_keeps h1 h'" using fetch_keeps_state [OF keep] rest by (rule ensure_all_keeps)
  show ?case
  proof (cases "int k = height")
    case True
    have "opened headers" using E e by (auto simp: EnsureChunkAt_def HasHeader_def split: if_splits)
    have "known h1 k"
      unfolding known_def fetch_keeps_rules(2) [OF keep]
    proof
      assume "k div checkpointInterval < checkpoint_len (checkpoints headers)"
      then show "k div checkpointInterval * checkpointInterval \<notin> set (missingCheckpoints h1)"
        using E e True by (intro EnsureChunkAt_present [OF Cons.prems(1,2) \<open>opened headers\<close>, of _ "int k"]) auto
    qed
    then show ?thesis by (rule fetch_keeps_rules(3) [OF keep'])
  next
    case False
    then show ?thesis using Cons.prems(4) by (intro Cons.IH [OF fetch_keeps_state [OF keep] rest]) simp
  qed
qed simp

lemma predecessors_known:
  assumes "sized headers" and "checked headers" and "ensureValidationPredecessors inflate (Some get) w headers (int start) = (w', h', None)"
  shows "start > 0 \<Longrightarrow> known h' (start - 1)" "start > 1 \<Longrightarrow> known h' (start - 2)"
proof -
  let ?heights = "(if int start > 0 then [int start - 1] else []) @ (if int start > 1 then [int start - 2] else [])"
  have "ensure_all inflate (Some get) w headers ?heights = (w', h', None)"
    using assms(3) unfolding ensureValidationPredecessors_def by (simp only: option.distinct if_False)
  note known = ensure_all_known [OF assms(1,2) this]
  show "start > 0 \<Longrightarrow> known h' (start - 1)" "start > 1 \<Longrightarrow> known h' (start - 2)" by (rule known; simp add: of_nat_diff)+
qed

lemma write_keeps_checked:
  assumes "sized headers" and "checked headers" and "checkpoint_len (checkpoints headers) * checkpointInterval \<le> start" and "start * HeaderSize \<le> length (storage headers)"
  shows "sized (writeLocked headers start serialized)" "checked (writeLocked headers start serialized)"
proof -
  show "sized (writeLocked headers start serialized)" using assms(1,4) by (rule writeLocked_sized)
  have "verified (writeLocked headers start serialized) i = verified headers i" if "i < checkpoint_len (checkpoints headers)" for i
  proof -
    have "Suc i * checkpointInterval \<le> start" using that assms(3) by (metis Suc_leI le_trans mult_le_mono1)
    then have "i * checkpointInterval * HeaderSize + CheckpointChunkBytes \<le> start * HeaderSize" by simp
    from slice_below [OF this assms(4)] show ?thesis
      unfolding verified_def writeLocked_storage(1) [OF assms(4)] by (simp only: writeLocked_fields)
  qed
  then show "checked (writeLocked headers start serialized)" using assms(2) by (simp add: checked_def)
qed

lemma Connect_cases:
  assumes "ensureValidationPredecessors inflate getter w headers (int start) = (w1, h1, e1)"
    and "Connect ripemd160 inflate getter w headers (int start) serialized = (w', h', r)"
  shows "(h' = headers \<or> h' = h1) \<and> (\<forall>n. r \<noteq> Inr (Suc n)) \<or>
    e1 = None \<and> validateChunkLocked ripemd160 h1 (int start) serialized = None \<and> h' = writeLocked h1 start serialized \<and>
      r = Inr (length serialized div HeaderSize) \<and> length serialized mod HeaderSize = 0"
proof (cases "length serialized mod HeaderSize = 0 \<and> length serialized \<noteq> 0")
  case True
  note C = assms(2) [unfolded Connect_def assms(1)]
  show ?thesis
  proof (cases e1)
    case None
    show ?thesis
    proof (cases "validateChunkLocked ripemd160 h1 (int start) serialized")
      case valid: None
      then show ?thesis using C True None by (cases "opened h1") auto
    next
      case (Some e)
      then show ?thesis using C True None by (cases "opened h1"; cases e) auto
    qed
  next
    case (Some e)
    then show ?thesis using C True by auto
  qed
next
  case False
  then show ?thesis using assms(2) unfolding Connect_def by (cases "length serialized mod HeaderSize = 0") auto
qed

lemma connected_valid:
  assumes "\<And>i. i < n \<Longrightarrow> linked ripemd160 h' (start + i)" and "\<And>k. k < start \<Longrightarrow> header_at h' k = header_at h k" and "same_rules h h'"
    and "checkpoints h' = checkpoints h" and "\<And>k. known h' k = known h k" and "valid_upto ripemd160 h start"
    and "checkpoint_len (checkpoints h) * checkpointInterval \<le> start" and "start > 0 \<Longrightarrow> known h (start - 1)" and "start > 1 \<Longrightarrow> known h (start - 2)"
  shows "valid_upto ripemd160 h' (start + n)"
  unfolding valid_upto_def assms(4)
proof (intro allI impI)
  fix k assume k: "checkpoint_len (checkpoints h) * checkpointInterval \<le> k \<and> k < start + n"
  show "linked ripemd160 h' k \<and> known h' (k - 1) \<and> known h' (k - 2)"
  proof (cases "k < start")
    case True
    then have "linked ripemd160 h k" "known h (k - 1)" "known h (k - 2)" using assms(6) k unfolding valid_upto_def by blast+
    moreover have "linked ripemd160 h' k = linked ripemd160 h k" using True by (intro linked_cong assms(2,3)) auto
    ultimately show ?thesis by (simp add: assms(5))
  next
    case False
    then have "k - start < n" using k by linarith
    from assms(1) [OF this] False have "linked ripemd160 h' k" by simp
    moreover have "known h j" if "j = k - 1 \<or> j = k - 2" for j
    proof (cases "start \<le> j")
      case True
      then show ?thesis using assms(7) by (intro known_above) simp
    next
      case below: False
      then have "j = start - 1 \<and> start > 0 \<or> j = start - 2 \<and> start > 1 \<or> j = 0 \<and> start = 1" using that False by auto
      then show ?thesis using assms(8,9) by auto
    qed
    ultimately show ?thesis by (simp add: assms(5))
  qed
qed

text \<open>
  C5. Connecting headers above the checkpoints. When a chunk of \<open>n\<close> headers is accepted at a height below which the
  stored chain obeys the rules, it is stored there, the chain obeys the rules up to its end, with every predecessor
  known, and no known header below changed. A refused chunk, and an error, leave every known header as it was.
  Checkpointed chunks stay verified in every case, whatever the peers sent.
\<close>

theorem Connect_extends_chain:
  assumes "sized headers" and "checked headers" and "checkpoint_len (checkpoints headers) * checkpointInterval \<le> start"
    and "valid_upto ripemd160 headers start"
    and "Connect ripemd160 inflate (Some get) w headers (int start) serialized = (w', h', r)"
  shows "sized h' \<and> checked h' \<and>
    (case r of
       Inr (Suc n) \<Rightarrow>
         length serialized = Suc n * HeaderSize \<and> valid_upto ripemd160 h' (start + Suc n) \<and>
         (\<forall>i \<le> n. header_at h' (start + i) = take HeaderSize (drop (i * HeaderSize) serialized)) \<and>
         (\<forall>k < start. known headers k \<longrightarrow> header_at h' k = header_at headers k)
     | _ \<Rightarrow> \<forall>k. known headers k \<longrightarrow> header_at h' k = header_at headers k)"
proof -
  obtain w1 h1 e1 where E: "ensureValidationPredecessors inflate (Some get) w headers (int start) = (w1, h1, e1)"
    by (cases "ensureValidationPredecessors inflate (Some get) w headers (int start)") auto
  have keep: "fetch_keeps headers h1" using E ensure_all_keeps [OF assms(1,2)] by (simp add: ensureValidationPredecessors_def)
  note kept = fetch_keeps_rules [OF keep] fetch_keeps_state [OF keep]
  from Connect_cases [OF E assms(5)] show ?thesis
  proof
    assume unchanged: "(h' = headers \<or> h' = h1) \<and> (\<forall>n. r \<noteq> Inr (Suc n))"
    have "sized h' \<and> checked h'" using unchanged assms(1,2) kept(6,7) by blast
    moreover have "\<forall>k. known headers k \<longrightarrow> header_at h' k = header_at headers k" using unchanged kept(4) by blast
    moreover have "r \<noteq> Inr (Suc n)" for n using unchanged by blast
    ultimately show ?thesis
    proof (cases r)
      case (Inr n)
      with \<open>\<And>n. r \<noteq> Inr (Suc n)\<close> have "n = 0" by (cases n) auto
      with Inr \<open>sized h' \<and> checked h'\<close> \<open>\<forall>k. known headers k \<longrightarrow> header_at h' k = header_at headers k\<close> show ?thesis by simp
    qed simp
  next
    assume "e1 = None \<and> validateChunkLocked ripemd160 h1 (int start) serialized = None \<and> h' = writeLocked h1 start serialized \<and>
      r = Inr (length serialized div HeaderSize) \<and> length serialized mod HeaderSize = 0"
    then have accepted: "e1 = None" "validateChunkLocked ripemd160 h1 (int start) serialized = None" "h' = writeLocked h1 start serialized"
      "r = Inr (length serialized div HeaderSize)" "length serialized mod HeaderSize = 0" by simp_all
    note chunk = validateChunkLocked_linked [OF accepted(2,5), folded accepted(3)]
    let ?n = "length serialized div HeaderSize" let ?base = "checkpoint_len (checkpoints headers) * checkpointInterval"
    have base: "checkpoint_len (checkpoints h1) * checkpointInterval \<le> start" using assms(3) kept(2) by simp
    note inv = write_keeps_checked [OF kept(6,7) base chunk(1), of serialized, folded accepted(3)]
    have known_same: "known h' k = known h1 k" for k by (simp add: known_def accepted(3))
    note predecessors = predecessors_known [OF assms(1,2) E [unfolded accepted(1)]]
    have valid: "valid_upto ripemd160 h' (start + ?n)"
      by (rule connected_valid [OF chunk(3,4) _ _ known_same valid_upto_fetch [OF keep assms(4)] base predecessors])
        (simp_all add: same_rules_def accepted(3))
    have len: "length serialized = ?n * HeaderSize" using accepted(5) by auto
    have same: "header_at h' k = header_at headers k" if "known headers k" "k < start" for k using chunk(4) kept(4) that by simp
    show ?thesis
    proof (cases ?n)
      case 0
      then have "storage h' = storage h1" using len chunk(1) by (simp add: accepted(3) writeLocked_storage)
      then have "\<forall>k. known headers k \<longrightarrow> header_at h' k = header_at headers k" using kept(4) by (simp add: header_at_def)
      then show ?thesis using inv 0 accepted(4) by simp
    next
      case (Suc m)
      then have "header_at h' (start + i) = take HeaderSize (drop (i * HeaderSize) serialized)" if "i \<le> m" for i using chunk(2) that by simp
      then show ?thesis using inv valid len same Suc accepted(4) by simp
    qed
  qed
qed

lemma encodeReversedHeaderHash_doubleSHA256: "encodeReversedHeaderHash (doubleSHA256 raw) = HashHeader raw"
  by (simp add: HashHeader_def)

text \<open>A store without checkpoints and without proof of work, as on the test network, that takes two headers.\<close>

theorem Connect_extends_chain_witness:
  "\<exists>w' h'. let genesis = replicate 112 1; second = replicate 4 0 @ doubleSHA256 genesis @ replicate 76 0;
     headers = (NewHeadersForNetwork [] RegTest)\<lparr>opened := True, genesisHash := Some (HashHeader genesis)\<rparr>
   in Connect (\<lambda>_. []) (\<lambda>_ _. Inl ''closed'') (Some (\<lambda>n _. (n, Inl ''closed''))) (0 :: nat) headers 0 (genesis @ second) = (w', h', Inr 2) \<and>
     valid_upto (\<lambda>_. []) h' 2 \<and> header_at h' 1 = second"
proof -
  obtain genesis :: bytes where g: "genesis = replicate 112 1" by blast
  obtain second where s: "second = replicate 4 0 @ doubleSHA256 genesis @ replicate 76 0" by blast
  let ?headers = "(NewHeadersForNetwork [] RegTest)\<lparr>opened := True, genesisHash := Some (HashHeader genesis)\<rparr>"
  have len: "length genesis = 112" "length (doubleSHA256 genesis) = 32" "length second = 112" by (simp_all add: g s doubleSHA256_def)
  have split: "split_headers 2 (genesis @ second) = [genesis, second]" using len by (simp add: numeral_2_eq_2)
  have prev: "encodeReversedHeaderHash (take 32 (drop 4 second)) = HashHeader genesis" unfolding s using len(2) by (simp add: HashHeader_def)
  have target: "NextBlockTarget m 150 None (Some c) \<noteq> None" for m c by (simp add: NextBlockTarget_def Divide_def Let_def)
  have "validateChunkLocked (\<lambda>_. []) ?headers 0 (genesis @ second) = None"
    using len split prev target
    by (simp add: validateChunkLocked_def NewHeadersForNetwork_def NewHeaders_def Let_def DeserializeHeader_def validateHeader_def NextBlockTarget_def Divide_def)
  then obtain w' h' where C: "Connect (\<lambda>_. []) (\<lambda>_ _. Inl ''closed'') (Some (\<lambda>n _. (n, Inl ''closed''))) (0 :: nat) ?headers (int 0) (genesis @ second) = (w', h', Inr (Suc 1))"
    using len by (simp add: Connect_def ensureValidationPredecessors_def)
  have "sized ?headers" "checked ?headers" "valid_upto (\<lambda>_. []) ?headers 0" "checkpoint_len (checkpoints ?headers) * 1000 \<le> 0"
    by (simp_all add: sized_def checked_def valid_upto_def NewHeadersForNetwork_def NewHeaders_def Let_def checkpoint_len_def last_checkpoint_def)
  note c = Connect_extends_chain [OF this(1,2,4,3) C, simplified sum.case nat.case, THEN conjunct2, THEN conjunct2]
  have two: "0 + Suc 1 = (2 :: nat)" "Suc 1 = (2 :: nat)" by simp_all
  have v: "valid_upto (\<lambda>_. []) h' 2" using c unfolding two add_0 by (elim conjE)
  have "header_at h' (0 + 1) = take 112 (drop (1 * 112) (genesis @ second))" using c by (elim conjE allE [of _ 1]) simp
  then have "header_at h' 1 = second" using len by simp
  with v C show ?thesis unfolding Let_def g [symmetric] s [symmetric] two by (intro exI conjI) simp_all
qed

end
