(* ===== verification/HexText.thy ===== *)
theory HexText
  imports TransactionBuild
begin

text \<open>
  The round trip of \<^verbatim>\<open>encoding/hex\<close>, which hashes, keys and names of streams and the branches of Merkle proofs share.
\<close>

lemma nibbles: "unat (b :: byte) div 16 < 16" "unat (b :: byte) mod 16 < 16"
proof -
  have "n div 16 < 16" if "n < 256" for n :: nat using that by auto
  from this [OF unat_byte_less [of b]] show "unat b div 16 < 16" .
  show "unat b mod 16 < 16" by simp
qed

lemma EncodeToString_Cons: "EncodeToString (b # bs) = hex_digit (unat b div 16) # hex_digit (unat b mod 16) # EncodeToString bs"
  "EncodeToString [] = []"
  by (simp_all add: EncodeToString_def)

lemma EncodeToString_chars: "c \<in> set (EncodeToString bs) \<Longrightarrow> \<exists>d < 16. c = hex_digit d"
  by (induction bs) (simp_all add: EncodeToString_Cons, use nibbles in blast)

lemma hex_value_hex_digit: "d < 16 \<Longrightarrow> hex_value (hex_digit d) = Some d"
proof -
  have "list_all (\<lambda>d. hex_value (hex_digit d) = Some d) [0..<16]" by (simp add: upt_rec hex_digit_def hex_value_def)
  then show "d < 16 \<Longrightarrow> ?thesis" by (simp add: list_all_iff)
qed

lemma DecodeString_EncodeToString [simp]: "DecodeString (EncodeToString bs) = Some bs"
proof (induction bs)
  case (Cons b bs)
  have "16 * (unat b div 16) + unat b mod 16 = unat b" by simp
  then show ?case using Cons hex_value_hex_digit [OF nibbles(1) [of b]] hex_value_hex_digit [OF nibbles(2) [of b]] unfolding EncodeToString_Cons
    by (simp only: DecodeString.simps prod.case option.case) simp
qed (simp add: EncodeToString_Cons)

lemma DecodeString_length: "DecodeString s = Some bs \<Longrightarrow> length s = 2 * length bs"
  by (induction s arbitrary: bs rule: DecodeString.induct) (auto split: option.splits prod.splits)

end
