(* ===== verification/LiveHeaders.thy ===== *)
theory LiveHeaders
  imports HeaderChain HexText
begin

text \<open>
  Following the tip of the chain, \<^verbatim>\<open>wallet/spv_tip.go\<close>: new headers are connected, and while the hub's headers do not
  fit, the ledger goes back one header at a time, up to a limit. The hub, the store's getter and the hooks share the
  state \<open>'w\<close>. What a hub puts into the field \<^verbatim>\<open>hex\<close> of an answer is a text, a value that Python takes for false,
  another value, or nothing. The loop may run as long as the hub delivers headers, so it is a partial function.
\<close>

datatype hub_hex = HexText string | HexFalsey | HexOther | HexMissing

datatype live_error = ErrSPVLiveHeaderHexMissing | ErrSPVLiveHeaderHexType | CallFailed string | LiveHexInvalid | ConnectFailed header_error
  | RewindHookFailed string | GenesisRewind | TooManyRewinds nat

abbreviation (input) SPVLiveHeaderBatchSize :: nat where "SPVLiveHeaderBatchSize \<equiv> 2001"
abbreviation (input) SPVHeaderRPCRestrictionDistance :: int where "SPVHeaderRPCRestrictionDistance \<equiv> 100"
abbreviation (input) SPVLiveHeaderMaxRewind :: nat where "SPVLiveHeaderMaxRewind \<equiv> 100"

record SPVLiveHeaderUpdate =
  UpdateHeight :: int
  UpdateHex :: string

text \<open>The hub and the hooks; a hook that is nil does nothing. The flag of a call says whether only synchronised sessions may answer.\<close>

record 'w live_env =
  RetriableCall :: "'w \<Rightarrow> int \<Rightarrow> bool \<Rightarrow> 'w \<times> (string + hub_hex)"
  RemoteHeight :: "'w \<Rightarrow> int"
  onAdded :: "'w \<Rightarrow> int \<Rightarrow> nat \<Rightarrow> 'w"
  onRewind :: "'w \<Rightarrow> int \<Rightarrow> 'w \<times> string option"
  onRejected :: "'w \<Rightarrow> 'w"

definition spvLiveHeaderHex :: "hub_hex \<Rightarrow> live_error + string" where
  "spvLiveHeaderHex v =
     (case v of HexMissing \<Rightarrow> Inl ErrSPVLiveHeaderHexMissing | HexText s \<Rightarrow> Inr s | HexFalsey \<Rightarrow> Inr [] | HexOther \<Rightarrow> Inl ErrSPVLiveHeaderHexType)"

text \<open>The headers to connect: those that are at hand, or those the hub has from a height on.\<close>

definition next_headers :: "'w live_env \<Rightarrow> int \<Rightarrow> string \<Rightarrow> 'w \<Rightarrow> 'w \<times> (live_error + string)" where
  "next_headers env height encoded w =
     (if encoded \<noteq> [] then (w, Inr encoded)
      else
        (case RetriableCall env w height (height \<ge> RemoteHeight env w - SPVHeaderRPCRestrictionDistance) of
           (w1, Inl e) \<Rightarrow> (w1, Inl (CallFailed e))
         | (w1, Inr v) \<Rightarrow> (w1, spvLiveHeaderHex v)))"

text \<open>
  One round of the loop after the headers were connected: the new height, whether headers were rewound and
  whether the loop ends. A negative number cannot be returned by \<^verbatim>\<open>ConnectContext\<close>.
\<close>

definition after_connect :: "'w live_env \<Rightarrow> bool \<Rightarrow> int \<Rightarrow> nat \<Rightarrow> nat \<Rightarrow> 'w \<Rightarrow> Headers \<Rightarrow> 'w \<times> int \<times> nat \<times> live_error option \<times> bool" where
  "after_connect env subscriptionUpdate height rewound added w headers =
     (if added > 0 then
        let height1 = height + int added; w1 = onAdded env w (int (store_size headers) - 1) added
        in if rewound > 0 then
             (case onRewind env w1 height1 of
                (w2, Some e) \<Rightarrow> (w2, height1, 0, Some (RewindHookFailed e), True)
              | (w2, None) \<Rightarrow> (w2, height1, 0, None, subscriptionUpdate))
           else (w1, height1, 0, None, subscriptionUpdate)
      else (onRejected env w, height - 1, rewound + 1, None, False))"

partial_function (option) live_loop ::
  "(bytes \<Rightarrow> bytes) \<Rightarrow> inflater \<Rightarrow> 'w getter option \<Rightarrow> 'w live_env \<Rightarrow> bool \<Rightarrow> int \<Rightarrow> string \<Rightarrow> bool \<Rightarrow> nat \<Rightarrow> 'w \<Rightarrow> Headers \<Rightarrow>
    ('w \<times> Headers \<times> live_error option) option" where
  "live_loop ripemd160 inflate getter env noUpdate height0 encoded0 subscription0 rewound w headers =
     (let reset = (noUpdate \<or> height0 > int (store_size headers)); height = (if reset then int (store_size headers) else height0);
          encoded = (if reset then [] else encoded0); subscriptionUpdate = (\<not> reset \<and> subscription0)
      in case next_headers env height encoded w of
           (w1, Inl e) \<Rightarrow> Some (w1, headers, Some e)
         | (w1, Inr text) \<Rightarrow>
             if text = [] then Some (w1, headers, None)
             else
               (case DecodeString text of
                  None \<Rightarrow> Some (w1, headers, Some LiveHexInvalid)
                | Some raw \<Rightarrow>
                    (case Connect ripemd160 inflate getter w1 headers height raw of
                       (w2, headers2, Inl e) \<Rightarrow> Some (w2, headers2, Some (ConnectFailed e))
                     | (w2, headers2, Inr added) \<Rightarrow>
                         (case after_connect env subscriptionUpdate height rewound added w2 headers2 of
                            (w3, height1, rewound1, Some e, stop) \<Rightarrow> Some (w3, headers2, Some e)
                          | (w3, height1, rewound1, None, stop) \<Rightarrow>
                              if stop then Some (w3, headers2, None)
                              else if height1 < 0 then Some (w3, headers2, Some GenesisRewind)
                              else if rewound1 \<ge> SPVLiveHeaderMaxRewind then Some (w3, headers2, Some (TooManyRewinds rewound1))
                              else live_loop ripemd160 inflate getter env False height1 [] False rewound1 w3 headers2))))"

definition updateSPVLiveHeaders ::
  "(bytes \<Rightarrow> bytes) \<Rightarrow> inflater \<Rightarrow> 'w getter option \<Rightarrow> 'w live_env \<Rightarrow> SPVLiveHeaderUpdate option \<Rightarrow> 'w \<Rightarrow> Headers \<Rightarrow> ('w \<times> Headers \<times> live_error option) option" where
  "updateSPVLiveHeaders ripemd160 inflate getter env update w headers =
     (case update of
        None \<Rightarrow> live_loop ripemd160 inflate getter env True 0 [] False 0 w headers
      | Some u \<Rightarrow> live_loop ripemd160 inflate getter env False (UpdateHeight u) (UpdateHex u) True 0 w headers)"

section \<open>Connecting the headers of a hub\<close>

text \<open>The first height above the checkpoints, and a header that does not look like a missing one.\<close>

abbreviation (input) base_height :: "Headers \<Rightarrow> nat" where
  "base_height headers \<equiv> checkpoint_len (checkpoints headers) * checkpointInterval"

definition visible :: "bytes \<Rightarrow> bool" where
  "visible raw \<longleftrightarrow> HashHeader raw \<noteq> checkpointEmptyHash \<and> HashHeader raw \<noteq> checkpointZeroHeaderHash"

text \<open>An open store that holds exactly the headers it counts, in a number that addresses allow.\<close>

definition tip_store :: "Headers \<Rightarrow> bool" where
  "tip_store headers \<longleftrightarrow> opened headers \<and> length (storage headers) = store_size headers * HeaderSize \<and> targetTimespan headers \<noteq> 0 \<and>
     int (store_size headers) \<le> int64_max div int HeaderSize"

lemma HasHeader_visible:
  assumes "opened headers" and "base_height headers \<le> k" and "int k \<le> int64_max div int HeaderSize" and "visible (header_at headers k)"
  shows "HasHeader headers (int k) = Inr True"
proof -
  have "checkpoint_len (checkpoints headers) \<le> k div checkpointInterval" using assms(2) by (simp add: less_eq_div_iff_mult_less_eq)
  then have "checkpoint_lookup (checkpoints headers) (int k div 1000 * 1000) = None"
    by (simp add: checkpoint_lookup_def checkpoint_at_def nat_div_distrib)
  moreover have "chunkHashLocked headers (int k) 1 = Inr (HashHeader (header_at headers k))" using assms(3) by (simp add: chunkHashLocked_def header_at_def int64_max_def)
  ultimately show ?thesis using assms(1,4) by (simp add: HasHeader_def hasHeaderLocked_def visible_def)
qed

lemma predecessors_present:
  assumes "tip_store headers" and "base_height headers + 2 \<le> start" and "start \<le> store_size headers"
    and "visible (header_at headers (start - 1))" and "visible (header_at headers (start - 2))"
  shows "ensureValidationPredecessors inflate getter w headers (int start) = (w, headers, None)"
proof -
  have "int (store_size headers) \<le> int64_max div int HeaderSize" and opened: "opened headers" using assms(1) unfolding tip_store_def by blast+
  then have o: "opened headers" "int (start - 1) \<le> int64_max div int HeaderSize" "int (start - 2) \<le> int64_max div int HeaderSize"
    using assms(3) by linarith+
  have "HasHeader headers (int (start - 1)) = Inr True" "HasHeader headers (int (start - 2)) = Inr True"
    using assms(2) by (intro HasHeader_visible o assms(4,5); simp)+
  then show ?thesis using assms(2) by (simp add: ensureValidationPredecessors_def EnsureChunkAt_def of_nat_diff)
qed

lemma length_header_at: "length (storage headers) = store_size headers * HeaderSize \<Longrightarrow> k < store_size headers \<Longrightarrow> length (header_at headers k) = HeaderSize"
  by (simp add: header_at_def)

lemma DeserializeHeader_at: "length (header_at headers k) = HeaderSize \<Longrightarrow> DeserializeHeader (int k) (header_at headers k) = Inr (decoded_at headers k)"
  by (simp add: decoded_at_def DeserializeHeader_def)

lemma read_header_tip:
  assumes "tip_store headers" and "k < store_size headers"
  shows "read_header headers (int k) = Inr (header_at headers k, decoded_at headers k)"
proof -
  have l: "length (header_at headers k) = HeaderSize" using assms by (intro length_header_at) (simp_all add: tip_store_def)
  then have "readLocked headers (int k) = Inr (header_at headers k)" using assms(2) by (simp add: readLocked_def header_at_def)
  then show ?thesis using DeserializeHeader_at [OF l] by (simp add: read_header_def)
qed

lemma NextBlockTarget_some: "t \<noteq> 0 \<Longrightarrow> \<exists>target. NextBlockTarget m t p (Some c) = Some target"
  by (simp add: NextBlockTarget_def Divide_def Let_def)

text \<open>A chunk of the hub's chain.\<close>

definition hub_chunk :: "Headers \<Rightarrow> nat \<Rightarrow> nat \<Rightarrow> bytes" where
  "hub_chunk hub k n = concat (map (header_at hub) [k..<k + n])"

lemma split_hub_chunk:
  assumes "\<And>i. k \<le> i \<Longrightarrow> i < k + n \<Longrightarrow> length (header_at hub i) = HeaderSize"
  shows "length (hub_chunk hub k n) = n * HeaderSize" "split_headers n (hub_chunk hub k n) = map (header_at hub) [k..<k + n]"
    "i < n \<Longrightarrow> take HeaderSize (drop (i * HeaderSize) (hub_chunk hub k n)) = header_at hub (k + i)"
proof -
  have both: "length (hub_chunk hub k n) = n * HeaderSize \<and> split_headers n (hub_chunk hub k n) = map (header_at hub) [k..<k + n]"
    using assms
  proof (induction n arbitrary: k)
    case (Suc n)
    have "length (hub_chunk hub (Suc k) n) = n * HeaderSize \<and> split_headers n (hub_chunk hub (Suc k) n) = map (header_at hub) [Suc k..<Suc k + n]"
      using Suc.prems by (intro Suc.IH) simp_all
    moreover have "hub_chunk hub k (Suc n) = header_at hub k @ hub_chunk hub (Suc k) n" by (simp add: hub_chunk_def upt_conv_Cons del: upt_Suc)
    moreover have "length (header_at hub k) = HeaderSize" using Suc.prems by simp
    ultimately show ?case by (simp add: upt_conv_Cons del: upt_Suc)
  qed (simp add: hub_chunk_def)
  then show "length (hub_chunk hub k n) = n * HeaderSize" "split_headers n (hub_chunk hub k n) = map (header_at hub) [k..<k + n]" by simp_all
  show "i < n \<Longrightarrow> take HeaderSize (drop (i * HeaderSize) (hub_chunk hub k n)) = header_at hub (k + i)"
    using both split_headers_nth [of i n "hub_chunk hub k n"] by simp
qed

text \<open>Headers that obey the rules pass the loop.\<close>

lemma linked_validateHeader:
  assumes "linked ripemd160 hub k" and "0 < k" and "same_rules headers hub"
    and "NextBlockTarget (maxTarget headers) (targetTimespan headers) (predecessor hub 2 k) (predecessor hub 1 k) = Some target"
  shows "validateHeader ripemd160 headers height (HashHeader (header_at hub k)) (decoded_at hub k) (Some (HashHeader (header_at hub (k - 1)))) target = None"
  using assms by (auto simp: linked_def validateHeader_def same_rules_def)

lemma validate_loop_hub:
  assumes "\<And>i. k \<le> i \<Longrightarrow> i < k + n \<Longrightarrow> linked ripemd160 hub i \<and> length (header_at hub i) = HeaderSize" and "same_rules headers hub"
    and "targetTimespan headers \<noteq> 0" and "k = start + j" and "2 \<le> k"
  shows "validate_loop ripemd160 headers (int start) j (map (header_at hub) [k..<k + n]) (Some (HashHeader (header_at hub (k - 1))))
    (Some (decoded_at hub (k - 1))) (Some (decoded_at hub (k - 2))) = None"
  using assms
proof (induction n arbitrary: k j)
  case (Suc n)
  have here: "linked ripemd160 hub k" "length (header_at hub k) = HeaderSize" using Suc.prems(1) by simp_all
  have height: "int start + int j = int k" using Suc.prems(4) by simp
  obtain target where t: "NextBlockTarget (maxTarget headers) (targetTimespan headers) (Some (decoded_at hub (k - 2))) (Some (decoded_at hub (k - 1))) = Some target"
    using NextBlockTarget_some [OF Suc.prems(3)] by blast
  have "validateHeader ripemd160 headers (int start) (HashHeader (header_at hub k)) (decoded_at hub k) (Some (HashHeader (header_at hub (k - 1)))) target = None"
    using here(1) Suc.prems(2,5) t by (intro linked_validateHeader) (simp_all add: predecessor_def)
  moreover have "validate_loop ripemd160 headers (int start) (Suc j) (map (header_at hub) [Suc k..<Suc k + n]) (Some (HashHeader (header_at hub (Suc k - 1))))
      (Some (decoded_at hub (Suc k - 1))) (Some (decoded_at hub (Suc k - 2))) = None"
    using Suc.prems by (intro Suc.IH) simp_all
  moreover have "Suc k - 1 = k" "Suc k - 2 = k - 1" by simp_all
  ultimately show ?case
    using t DeserializeHeader_at [OF here(2)] by (simp add: upt_conv_Cons height Let_def del: upt_Suc)
qed simp

text \<open>
  A hub with a chain of \<open>N\<close> headers that obeys the rules above the checkpoints. Two headers of the hub and of a
  store with the same hash are the same, unless SHA-256 collides.
\<close>

definition hub_chain :: "(bytes \<Rightarrow> bytes) \<Rightarrow> Headers \<Rightarrow> Headers \<Rightarrow> nat \<Rightarrow> bool" where
  "hub_chain ripemd160 headers hub N \<longleftrightarrow> same_rules headers hub \<and> int N \<le> int64_max div int HeaderSize \<and>
     (\<forall>k. base_height headers \<le> k \<and> k < N \<longrightarrow> linked ripemd160 hub k \<and> length (header_at hub k) = HeaderSize \<and> visible (header_at hub k))"

definition header_collision :: "Headers \<Rightarrow> Headers \<Rightarrow> bool" where
  "header_collision headers hub \<longleftrightarrow> (\<exists>k. header_at headers k \<noteq> header_at hub k \<and> HashHeader (header_at headers k) = HashHeader (header_at hub k))"

lemma Connect_hub:
  assumes "tip_store headers" and "hub_chain ripemd160 headers hub N" and "base_height headers + 2 \<le> start" and "start \<le> store_size headers"
    and "0 < n" and "start + n \<le> N"
    and same: "header_at headers (start - 1) = header_at hub (start - 1)" "header_at headers (start - 2) = header_at hub (start - 2)"
  shows "Connect ripemd160 inflate getter w headers (int start) (hub_chunk hub start n) = (w, writeLocked headers start (hub_chunk hub start n), Inr n)"
    "validateChunkLocked ripemd160 headers (int start) (hub_chunk hub start n) = None" "length (hub_chunk hub start n) = n * HeaderSize"
proof -
  have hub: "linked ripemd160 hub i \<and> length (header_at hub i) = HeaderSize \<and> visible (header_at hub i)" if "base_height headers \<le> i" "i < N" for i
    using assms(2) that by (simp add: hub_chain_def)
  have rules: "same_rules headers hub" using assms(2) by (simp add: hub_chain_def)
  have ends: "base_height headers \<le> start - 1" "start - 1 < N" "base_height headers \<le> start - 2" "start - 2 < N" using assms(3,5,6) by simp_all
  have chunk: "length (header_at hub i) = HeaderSize" if "start \<le> i" "i < start + n" for i using hub [of i] assms(3,6) that by simp
  note c = split_hub_chunk [where k = start and n = n, OF chunk]
  show len: "length (hub_chunk hub start n) = n * HeaderSize" by (rule c(1))
  have e: "ensureValidationPredecessors inflate getter w headers (int start) = (w, headers, None)"
    by (rule predecessors_present [OF assms(1,3,4)]; unfold same) (use hub [OF ends(1,2)] hub [OF ends(3,4)] in blast)+
  have r: "read_header headers (int (start - 1)) = Inr (header_at hub (start - 1), decoded_at hub (start - 1))"
    "read_header headers (int (start - 2)) = Inr (header_at hub (start - 2), decoded_at hub (start - 2))"
    using read_header_tip [OF assms(1), of "start - 1"] read_header_tip [OF assms(1), of "start - 2"] assms(3,4) same by (simp_all add: decoded_at_def)
  have "validate_loop ripemd160 headers (int start) 0 (map (header_at hub) [start..<start + n]) (Some (HashHeader (header_at hub (start - 1))))
      (Some (decoded_at hub (start - 1))) (Some (decoded_at hub (start - 2))) = None"
    using assms(1,3,6) hub rules by (intro validate_loop_hub) (simp_all add: tip_store_def)
  then show v: "validateChunkLocked ripemd160 headers (int start) (hub_chunk hub start n) = None"
    using r assms(3) by (simp add: validateChunkLocked_def of_nat_diff len c(2))
  show "Connect ripemd160 inflate getter w headers (int start) (hub_chunk hub start n) = (w, writeLocked headers start (hub_chunk hub start n), Inr n)"
    using e v assms(1,5) by (simp add: Connect_def len tip_store_def)
qed

lemma Connect_fork:
  assumes "tip_store headers" and "hub_chain ripemd160 headers hub N" and "base_height headers + 2 \<le> start" and "start \<le> store_size headers"
    and "0 < n" and "start + n \<le> N" and "visible (header_at headers (start - 1))" and "visible (header_at headers (start - 2))"
    and differ: "HashHeader (header_at headers (start - 1)) \<noteq> HashHeader (header_at hub (start - 1))"
  shows "Connect ripemd160 inflate getter w headers (int start) (hub_chunk hub start n) = (w, headers, Inr 0)"
proof -
  have hub: "linked ripemd160 hub i \<and> length (header_at hub i) = HeaderSize" if "base_height headers \<le> i" "i < N" for i
    using assms(2) that by (simp add: hub_chain_def)
  have chunk: "length (header_at hub i) = HeaderSize" if "start \<le> i" "i < start + n" for i using hub [of i] assms(3,6) that by simp
  note c = split_hub_chunk [where k = start and n = n, OF chunk]
  have e: "ensureValidationPredecessors inflate getter w headers (int start) = (w, headers, None)"
    using assms(1,3,4,7,8) by (intro predecessors_present)
  have r: "read_header headers (int (start - 1)) = Inr (header_at headers (start - 1), decoded_at headers (start - 1))"
    "read_header headers (int (start - 2)) = Inr (header_at headers (start - 2), decoded_at headers (start - 2))"
    using read_header_tip [OF assms(1), of "start - 1"] read_header_tip [OF assms(1), of "start - 2"] assms(3,4) by simp_all
  obtain target where t: "NextBlockTarget (maxTarget headers) (targetTimespan headers) (Some (decoded_at headers (start - 2))) (Some (decoded_at headers (start - 1))) = Some target"
    using NextBlockTarget_some assms(1) unfolding tip_store_def by blast
  have first: "linked ripemd160 hub start" "length (header_at hub start) = HeaderSize" using hub [of start] assms(3,5,6) by simp_all
  then have "HeaderPreviousHash (decoded_at hub start) \<noteq> HashHeader (header_at headers (start - 1))" using differ assms(3) by (simp add: linked_def)
  then have "validateHeader ripemd160 headers (int start) (HashHeader (header_at hub start)) (decoded_at hub start) (Some (HashHeader (header_at headers (start - 1)))) target =
      Some (InvalidHeaderError (int start) ''previous hash mismatch'')" by (simp add: validateHeader_def)
  moreover have "split_headers (length (hub_chunk hub start n) div HeaderSize) (hub_chunk hub start n) = header_at hub start # map (header_at hub) [Suc start..<start + n]"
    using assms(5) by (simp add: c(1,2) upt_conv_Cons)
  ultimately have "validateChunkLocked ripemd160 headers (int start) (hub_chunk hub start n) = Some (InvalidHeaderError (int start) ''previous hash mismatch'')"
    using r assms(3) t DeserializeHeader_at [OF first(2)]
    by (simp add: validateChunkLocked_def of_nat_diff Let_def)
  then show ?thesis using e assms(1,5) by (simp add: Connect_def c(1) tip_store_def)
qed

text \<open>The store after a chunk of the hub was written at its end or below it.\<close>

lemma write_hub:
  assumes "tip_store headers" and "start \<le> store_size headers" and "store_size headers \<le> start + n" and "int (start + n) \<le> int64_max div int HeaderSize"
    and v: "validateChunkLocked ripemd160 headers (int start) (hub_chunk hub start n) = None" and len: "length (hub_chunk hub start n) = n * HeaderSize"
    and hub: "\<And>i. start \<le> i \<Longrightarrow> i < start + n \<Longrightarrow> length (header_at hub i) = HeaderSize"
  defines "h' \<equiv> writeLocked headers start (hub_chunk hub start n)"
  shows "tip_store h'" "store_size h' = start + n" "checkpoints h' = checkpoints headers" "same_rules headers h'"
    "k < start \<Longrightarrow> header_at h' k = header_at headers k" "start \<le> k \<Longrightarrow> k < start + n \<Longrightarrow> header_at h' k = header_at hub k"
    "i < n \<Longrightarrow> linked ripemd160 h' (start + i)"
proof -
  have off: "start * HeaderSize \<le> length (storage headers)" using assms(1,2) by (simp add: tip_store_def)
  have l: "max (length (storage headers)) (start * HeaderSize + length (hub_chunk hub start n)) = (start + n) * HeaderSize"
    using assms(1,3) by (simp add: tip_store_def len)
  note st = writeLocked_storage [OF off, of "hub_chunk hub start n", folded h'_def]
  show size: "store_size h' = start + n" unfolding st(2) l using assms(3) by simp
  have "length (storage h') = (start + n) * HeaderSize" unfolding st(1) using off l by simp
  then show "tip_store h'" using assms(1,4) size by (simp add: tip_store_def h'_def)
  show "checkpoints h' = checkpoints headers" "same_rules headers h'" by (simp_all add: h'_def same_rules_def)
  note linked = validateChunkLocked_linked [OF v, unfolded len, folded h'_def]
  show "k < start \<Longrightarrow> header_at h' k = header_at headers k" by (rule linked(4)) simp_all
  show "i < n \<Longrightarrow> linked ripemd160 h' (start + i)" by (rule linked(3)) simp_all
  show "header_at h' k = header_at hub k" if "start \<le> k" "k < start + n"
    using linked(2) [of "k - start"] split_hub_chunk(3) [of start n hub "k - start", OF hub] that by simp
qed

section \<open>The loop against a hub\<close>

text \<open>A hub that answers every call with its headers from the height on, and hooks that do not fail.\<close>

definition hub_serves :: "'w live_env \<Rightarrow> Headers \<Rightarrow> nat \<Rightarrow> bool" where
  "hub_serves env hub N \<longleftrightarrow>
     (\<forall>w k flag. \<exists>w'. RetriableCall env w (int k) flag = (w', Inr (HexText (EncodeToString (hub_chunk hub k (min SPVLiveHeaderBatchSize (N - k))))))) \<and>
     (\<forall>w k. snd (onRewind env w k) = None)"

lemma EncodeToString_Nil: "EncodeToString bs = [] \<longleftrightarrow> bs = []"
  by (simp add: EncodeToString_def)

text \<open>One round that connects a chunk of the hub, and one that finds a fork.\<close>

lemma live_accept:
  assumes "hub_serves env hub N" and "next_headers env (int k) encoded w = (w1, Inr (EncodeToString chunk))" and "chunk \<noteq> []" and "k \<le> store_size headers"
    and "Connect ripemd160 inflate getter w1 headers (int k) chunk = (w1, h', Inr n)" and "0 < n"
  shows "\<exists>w2. live_loop ripemd160 inflate getter env False (int k) encoded subscription rewound w headers =
    (if subscription then Some (w2, h', None) else live_loop ripemd160 inflate getter env False (int (k + n)) [] False 0 w2 h')"
proof -
  let ?w = "onAdded env w1 (int (store_size h') - 1) n"
  have hook: "snd (onRewind env u j) = None" for u j using assms(1) by (simp add: hub_serves_def)
  have after: "after_connect env s (int k) rewound n w1 h' = (if rewound > 0 then fst (onRewind env ?w (int k + int n)) else ?w, int k + int n, 0, None, s)" for s
    using assms(6) hook [of ?w "int k + int n"] by (cases "onRewind env ?w (int k + int n)") (simp add: after_connect_def Let_def)
  show ?thesis using assms(2-5)
    by (intro exI [of _ "if rewound > 0 then fst (onRewind env ?w (int k + int n)) else ?w"], subst live_loop.simps) (simp add: Let_def after EncodeToString_Nil)
qed

lemma live_reject:
  assumes "next_headers env (int k) encoded w = (w1, Inr (EncodeToString chunk))" and "chunk \<noteq> []" and "k \<le> store_size headers" and "0 < k"
    and "Connect ripemd160 inflate getter w1 headers (int k) chunk = (w1, headers, Inr 0)" and "rewound + 1 < SPVLiveHeaderMaxRewind"
  shows "\<exists>w2. live_loop ripemd160 inflate getter env False (int k) encoded subscription rewound w headers =
    live_loop ripemd160 inflate getter env False (int (k - 1)) [] False (rewound + 1) w2 headers"
  using assms by (intro exI [of _ "onRejected env w1"], subst live_loop.simps) (simp add: Let_def after_connect_def EncodeToString_Nil of_nat_diff)

lemma next_hub:
  assumes "hub_serves env hub N"
  shows "\<exists>w'. next_headers env (int k) [] w = (w', Inr (EncodeToString (hub_chunk hub k (min SPVLiveHeaderBatchSize (N - k)))))"
proof -
  obtain w' where "RetriableCall env w (int k) (int k \<ge> RemoteHeight env w - SPVHeaderRPCRestrictionDistance) =
      (w', Inr (HexText (EncodeToString (hub_chunk hub k (min SPVLiveHeaderBatchSize (N - k))))))" using assms unfolding hub_serves_def by blast
  then show ?thesis by (simp add: next_headers_def spvLiveHeaderHex_def)
qed

text \<open>What a store has after it followed the hub from a height on.\<close>

definition follows :: "Headers \<Rightarrow> Headers \<Rightarrow> nat \<Rightarrow> nat \<Rightarrow> Headers \<Rightarrow> bool" where
  "follows headers hub N k h' \<longleftrightarrow> tip_store h' \<and> store_size h' = N \<and> checkpoints h' = checkpoints headers \<and> same_rules headers h' \<and>
     (\<forall>j < k. header_at h' j = header_at headers j) \<and> (\<forall>j. k \<le> j \<and> j < N \<longrightarrow> header_at h' j = header_at hub j)"

lemma follows_trans:
  assumes "follows headers hub M k h'" and "follows h' hub N M h''" and "k \<le> M"
  shows "follows headers hub N k h''"
proof -
  have "header_at h'' j = header_at hub j" if "k \<le> j" "j < N" for j using assms(1,2) that by (cases "j < M") (simp_all add: follows_def)
  moreover have "header_at h'' j = header_at headers j" if "j < k" for j using assms that by (simp add: follows_def)
  ultimately show ?thesis using assms(1,2) by (simp add: follows_def same_rules_def)
qed

lemma connect_chunk:
  assumes "tip_store headers" and "hub_chain ripemd160 headers hub N" and "base_height headers + 2 \<le> k" and "k \<le> store_size headers" and "store_size headers \<le> k + n"
    and "0 < n" and "k + n \<le> N" and same: "header_at headers (k - 1) = header_at hub (k - 1)" "header_at headers (k - 2) = header_at hub (k - 2)"
  shows "\<exists>h'. (\<forall>w. Connect ripemd160 inflate getter w headers (int k) (hub_chunk hub k n) = (w, h', Inr n)) \<and> hub_chunk hub k n \<noteq> [] \<and>
    follows headers hub (k + n) k h' \<and> hub_chain ripemd160 h' hub N"
proof -
  note c = Connect_hub [OF assms(1-4,6,7) same]
  let ?h = "writeLocked headers k (hub_chunk hub k n)"
  have hub: "length (header_at hub i) = HeaderSize" if "k \<le> i" "i < k + n" for i using assms(2,3,7) that by (simp add: hub_chain_def)
  have "int (k + n) \<le> int64_max div int HeaderSize" using assms(2,7) unfolding hub_chain_def by linarith
  note w = write_hub [OF assms(1,4,5) this c(2,3) hub]
  have "follows headers hub (k + n) k ?h" using w(1-6) by (simp add: follows_def)
  moreover have "hub_chain ripemd160 ?h hub N" using assms(2) w(3,4) by (simp add: hub_chain_def same_rules_def)
  moreover have "hub_chunk hub k n \<noteq> []" using c(3) assms(6) by auto
  ultimately show ?thesis using c(1) [where inflate = inflate and getter = getter] by (intro exI [of _ ?h]) simp
qed

lemma live_forward:
  assumes "hub_serves env hub N"
  shows "tip_store headers \<Longrightarrow> hub_chain ripemd160 headers hub N \<Longrightarrow> base_height headers + 2 \<le> store_size headers \<Longrightarrow> store_size headers \<le> N \<Longrightarrow>
    header_at headers (store_size headers - 1) = header_at hub (store_size headers - 1) \<Longrightarrow> header_at headers (store_size headers - 2) = header_at hub (store_size headers - 2) \<Longrightarrow>
    \<exists>w' h'. live_loop ripemd160 inflate getter env False (int (store_size headers)) [] False 0 w headers = Some (w', h', None) \<and> follows headers hub N (store_size headers) h'"
proof (induction "N - store_size headers" arbitrary: headers w rule: less_induct)
  case less
  let ?k = "store_size headers" let ?n = "min SPVLiveHeaderBatchSize (N - ?k)"
  obtain w1 where w1: "next_headers env (int ?k) [] w = (w1, Inr (EncodeToString (hub_chunk hub ?k ?n)))" using next_hub [OF assms] by blast
  show ?case
  proof (cases "?k = N")
    case True
    then have "next_headers env (int ?k) [] w = (w1, Inr [])" using w1 EncodeToString_Nil by (simp add: hub_chunk_def)
    then have "live_loop ripemd160 inflate getter env False (int ?k) [] False 0 w headers = Some (w1, headers, None)" by (subst live_loop.simps) (simp add: Let_def)
    moreover have "follows headers hub N ?k headers" using True less.prems(1) by (auto simp: follows_def same_rules_def)
    ultimately show ?thesis by blast
  next
    case False
    then have n: "0 < ?n" "?k + ?n \<le> N" using less.prems(4) by simp_all
    obtain h' where h': "\<forall>w. Connect ripemd160 inflate getter w headers (int ?k) (hub_chunk hub ?k ?n) = (w, h', Inr ?n)" "hub_chunk hub ?k ?n \<noteq> []"
      and f: "follows headers hub (?k + ?n) ?k h'" and hub: "hub_chain ripemd160 h' hub N"
      using connect_chunk [OF less.prems(1-3) le_refl le_add1 n less.prems(5,6)] by blast
    obtain w2 where step: "live_loop ripemd160 inflate getter env False (int ?k) [] False 0 w headers = live_loop ripemd160 inflate getter env False (int (?k + ?n)) [] False 0 w2 h'"
      using live_accept [OF assms w1 h'(2) le_refl h'(1) [rule_format] n(1), where subscription = False and rewound = 0] by auto
    have h: "tip_store h'" "store_size h' = ?k + ?n" "checkpoints h' = checkpoints headers" "same_rules headers h'"
      "\<And>j. j < ?k \<Longrightarrow> header_at h' j = header_at headers j" "\<And>j. ?k \<le> j \<Longrightarrow> j < ?k + ?n \<Longrightarrow> header_at h' j = header_at hub j"
      using f by (simp_all add: follows_def)
    have at: "header_at h' (?k + ?n - 1) = header_at hub (?k + ?n - 1)" using n(1) by (intro h(6)) simp_all
    have at2: "header_at h' (?k + ?n - 2) = header_at hub (?k + ?n - 2)"
    proof (cases "?n = 1")
      case True
      then show ?thesis using h(5) [of "?k - 1"] less.prems(3,5) by simp
    next
      case False
      then show ?thesis using n(1) by (intro h(6)) simp_all
    qed
    have smaller: "N - store_size h' < N - ?k" using n h(2) by linarith
    have above: "base_height h' + 2 \<le> store_size h'" "store_size h' \<le> N" using less.prems(3) n h(2,3) by simp_all
    have agree: "header_at h' (store_size h' - 1) = header_at hub (store_size h' - 1)" "header_at h' (store_size h' - 2) = header_at hub (store_size h' - 2)"
      using at at2 h(2) by simp_all
    obtain w' h'' where r: "live_loop ripemd160 inflate getter env False (int (?k + ?n)) [] False 0 w2 h' = Some (w', h'', None)" "follows h' hub N (?k + ?n) h''"
      using less.hyps [OF smaller h(1) hub above agree, of w2] unfolding h(2) by blast
    have "follows headers hub N ?k h''" by (rule follows_trans [OF f r(2)]) simp
    then show ?thesis using step r(1) by auto
  qed
qed

text \<open>Two chains that agree at a height and obey the rules agree below it, down to the checkpoints.\<close>

lemma agree_below:
  assumes "hub_chain ripemd160 headers hub N" and none: "\<not> header_collision headers hub"
    and h: "\<And>k. base_height headers \<le> k \<Longrightarrow> k < store_size headers \<Longrightarrow> linked ripemd160 headers k"
    and "m < store_size headers" and "m < N" and "header_at headers m = header_at hub m" and "j \<le> m" and "base_height headers \<le> j"
  shows "header_at headers j = header_at hub j"
  using assms(7,4,5,6,8)
proof (induction m rule: dec_induct)
  case (step m)
  have "linked ripemd160 headers (Suc m)" using step h by simp
  moreover have "linked ripemd160 hub (Suc m)" using assms(1) step by (simp add: hub_chain_def)
  moreover have "decoded_at headers (Suc m) = decoded_at hub (Suc m)" using step by (simp add: decoded_at_def)
  ultimately have "HashHeader (header_at headers m) = HashHeader (header_at hub m)" by (simp add: linked_def)
  then have "header_at headers m = header_at hub m" using none unfolding header_collision_def by blast
  then show ?case using step by simp
qed

text \<open>The last headers of a store that has followed the hub are those of the hub.\<close>

lemma follows_ends:
  assumes "follows headers hub M k h'" and "k < M" and "2 \<le> k" and "header_at headers (k - 1) = header_at hub (k - 1)"
  shows "header_at h' (M - 1) = header_at hub (M - 1)" "header_at h' (M - 2) = header_at hub (M - 2)"
proof -
  show "header_at h' (M - 1) = header_at hub (M - 1)" using assms(1,2) by (simp add: follows_def)
  show "header_at h' (M - 2) = header_at hub (M - 2)"
  proof (cases "M = Suc k")
    case True
    then have "header_at h' (k - 1) = header_at headers (k - 1)" using assms(1,3) by (simp add: follows_def)
    then show ?thesis using True assms(4) by (simp add: numeral_2_eq_2)
  next
    case False
    then show ?thesis using assms(1,2) by (simp add: follows_def)
  qed
qed

lemma live_settle:
  assumes serves: "hub_serves env hub N" and tip: "tip_store headers" and hub: "hub_chain ripemd160 headers hub N" and none: "\<not> header_collision headers hub"
    and h: "\<And>k. base_height headers \<le> k \<Longrightarrow> k < store_size headers \<Longrightarrow> linked ripemd160 headers k"
    and longer: "store_size headers < N" and k: "base_height headers + 2 \<le> k" "k \<le> store_size headers" "store_size headers < k + SPVLiveHeaderMaxRewind"
    and agree: "header_at headers (k - 1) = header_at hub (k - 1)"
  shows "\<exists>w' h'. live_loop ripemd160 inflate getter env False (int k) [] False rewound w headers = Some (w', h', None) \<and> follows headers hub N k h'"
proof -
  let ?n = "min SPVLiveHeaderBatchSize (N - k)"
  have n: "0 < ?n" "k + ?n \<le> N" "store_size headers \<le> k + ?n" using longer k by simp_all
  have agree2: "header_at headers (k - 2) = header_at hub (k - 2)"
    by (rule agree_below [OF hub none h _ _ agree]) (use k longer in simp_all)
  obtain w1 where w1: "next_headers env (int k) [] w = (w1, Inr (EncodeToString (hub_chunk hub k ?n)))" using next_hub [OF serves] by blast
  obtain h' where h': "\<forall>w. Connect ripemd160 inflate getter w headers (int k) (hub_chunk hub k ?n) = (w, h', Inr ?n)" "hub_chunk hub k ?n \<noteq> []"
    and f: "follows headers hub (k + ?n) k h'" and hub': "hub_chain ripemd160 h' hub N"
    using connect_chunk [OF tip hub k(1,2) n(3,1,2) agree agree2] by blast
  obtain w2 where step: "live_loop ripemd160 inflate getter env False (int k) [] False rewound w headers = live_loop ripemd160 inflate getter env False (int (k + ?n)) [] False 0 w2 h'"
    using live_accept [OF serves w1 h'(2) k(2) h'(1) [rule_format] n(1), where subscription = False and rewound = rewound] by auto
  have s: "tip_store h'" "store_size h' = k + ?n" "checkpoints h' = checkpoints headers" using f by (simp_all add: follows_def)
  have above: "base_height h' + 2 \<le> store_size h'" "store_size h' \<le> N" using k(1) n(2) s(2,3) by simp_all
  have "k < k + ?n" "2 \<le> k" using n(1) k(1) by simp_all
  note ends = follows_ends [OF f this agree, folded s(2)]
  obtain w' h'' where r: "live_loop ripemd160 inflate getter env False (int (k + ?n)) [] False 0 w2 h' = Some (w', h'', None)" "follows h' hub N (k + ?n) h''"
    using live_forward [OF serves s(1) hub' above ends, of inflate getter w2] unfolding s(2) by blast
  have "follows headers hub N k h''" by (rule follows_trans [OF f r(2)]) simp
  then show ?thesis using step r(1) by auto
qed

lemma live_backward:
  assumes serves: "hub_serves env hub N" and tip: "tip_store headers" and hub: "hub_chain ripemd160 headers hub N" and none: "\<not> header_collision headers hub"
    and h: "\<And>k. base_height headers \<le> k \<Longrightarrow> k < store_size headers \<Longrightarrow> linked ripemd160 headers k \<and> visible (header_at headers k)"
    and longer: "store_size headers < N" and fork: "base_height headers + 2 \<le> f" "header_at headers (f - 1) = header_at hub (f - 1)" "store_size headers < f + SPVLiveHeaderMaxRewind"
  shows "f \<le> k \<Longrightarrow> k \<le> store_size headers \<Longrightarrow> rewound = store_size headers - k \<Longrightarrow>
    \<exists>w' h' m. live_loop ripemd160 inflate getter env False (int k) [] False rewound w headers = Some (w', h', None) \<and> follows headers hub N m h' \<and>
      base_height headers + 2 \<le> m \<and> m \<le> store_size headers \<and> header_at headers (m - 1) = header_at hub (m - 1)"
proof (induction k arbitrary: rewound w rule: dec_induct)
  case base
  then show ?case using live_settle [OF serves tip hub none _ longer fork(1) _ fork(3,2)] h fork(1,2) by blast
next
  case (step k)
  have k: "base_height headers + 2 \<le> Suc k" "store_size headers < Suc k + SPVLiveHeaderMaxRewind" "Suc k < N" using fork step.hyps step.prems(1) longer by simp_all
  show ?case
  proof (cases "header_at headers k = header_at hub k")
    case True
    then have at: "header_at headers (Suc k - 1) = header_at hub (Suc k - 1)" by simp
    obtain w' h' where "live_loop ripemd160 inflate getter env False (int (Suc k)) [] False rewound w headers = Some (w', h', None)" "follows headers hub N (Suc k) h'"
      using live_settle [OF serves tip hub none _ longer k(1) step.prems(1) k(2) at, of inflate getter rewound w] h by blast
    then show ?thesis using k(1) step.prems(1) at by (intro exI [of _ w'] exI [of _ h'] exI [of _ "Suc k"]) simp
  next
    case False
    then have differ: "HashHeader (header_at headers (Suc k - 1)) \<noteq> HashHeader (header_at hub (Suc k - 1))" using none by (auto simp: header_collision_def)
    let ?n = "min SPVLiveHeaderBatchSize (N - Suc k)"
    have n: "0 < ?n" "Suc k + ?n \<le> N" using k(3) by simp_all
    have below: "base_height headers \<le> Suc k - 1" "Suc k - 1 < store_size headers" "base_height headers \<le> Suc k - 2" "Suc k - 2 < store_size headers"
      using step.prems(1) k(1) by simp_all
    have visible: "visible (header_at headers (Suc k - 1))" "visible (header_at headers (Suc k - 2))" using h [OF below(1,2)] h [OF below(3,4)] by blast+
    obtain w1 where w1: "next_headers env (int (Suc k)) [] w = (w1, Inr (EncodeToString (hub_chunk hub (Suc k) ?n)))" using next_hub [OF serves] by blast
    have "length (header_at hub i) = HeaderSize" if "Suc k \<le> i" "i < Suc k + ?n" for i using hub k(1) n(2) that by (simp add: hub_chain_def)
    from split_hub_chunk(1) [where k = "Suc k" and n = ?n, OF this] have ne: "hub_chunk hub (Suc k) ?n \<noteq> []" using n(1) by auto
    have "rewound + 1 < SPVLiveHeaderMaxRewind" using step fork(3) by simp
    from live_reject [OF w1 ne step.prems(1) zero_less_Suc Connect_fork [OF tip hub k(1) step.prems(1) n visible differ] this, where inflate = inflate and getter = getter and subscription = False]
    obtain w2 where again: "live_loop ripemd160 inflate getter env False (int (Suc k)) [] False rewound w headers = live_loop ripemd160 inflate getter env False (int k) [] False (rewound + 1) w2 headers"
      by auto
    have "k \<le> store_size headers" "rewound + 1 = store_size headers - k" using step.prems by simp_all
    from step.IH [OF this, of w2] show ?thesis unfolding again .
  qed
qed

lemma live_reset:
  assumes "noUpdate \<or> height > int (store_size headers)"
  shows "live_loop ripemd160 inflate getter env noUpdate height encoded subscription rewound w headers =
    live_loop ripemd160 inflate getter env False (int (store_size headers)) [] False rewound w headers"
proof -
  have "(noUpdate \<or> height > int (store_size headers)) = True" "(False \<or> int (store_size headers) > int (store_size headers)) = False" using assms by simp_all
  then show ?thesis
    unfolding live_loop.simps [of ripemd160 inflate getter env noUpdate height encoded subscription rewound w headers]
      live_loop.simps [of ripemd160 inflate getter env False "int (store_size headers)" "[]" False rewound w headers]
    by (simp only: Let_def if_True if_False simp_thms if_cancel)
qed

lemma live_subscription:
  assumes serves: "hub_serves env hub N" and tip: "tip_store headers" and hub: "hub_chain ripemd160 headers hub N" and none: "\<not> header_collision headers hub"
    and h: "\<And>k. base_height headers \<le> k \<Longrightarrow> k < store_size headers \<Longrightarrow> linked ripemd160 headers k \<and> visible (header_at headers k)"
    and longer: "Suc (store_size headers) = N" and fork: "base_height headers + 2 \<le> f" "f \<le> store_size headers" "header_at headers (f - 1) = header_at hub (f - 1)"
      "store_size headers < f + SPVLiveHeaderMaxRewind"
  shows "\<exists>w' h' m. live_loop ripemd160 inflate getter env False (int (store_size headers)) (EncodeToString (header_at hub (store_size headers))) True 0 w headers =
      Some (w', h', None) \<and> follows headers hub N m h' \<and> base_height headers + 2 \<le> m \<and> m \<le> store_size headers \<and> header_at headers (m - 1) = header_at hub (m - 1)"
proof -
  let ?k = "store_size headers"
  have chunk: "hub_chunk hub ?k 1 = header_at hub ?k" by (simp add: hub_chunk_def)
  have "length (header_at hub ?k) = HeaderSize" using hub longer fork by (simp add: hub_chain_def)
  then have ne: "hub_chunk hub ?k 1 \<noteq> []" unfolding chunk by auto
  then have w1: "next_headers env (int ?k) (EncodeToString (header_at hub ?k)) w = (w, Inr (EncodeToString (hub_chunk hub ?k 1)))"
    unfolding chunk by (simp add: next_headers_def EncodeToString_Nil)
  have k: "base_height headers + 2 \<le> ?k" "0 < ?k" "?k < N" "?k + 1 \<le> N" using fork(1,2) longer by simp_all
  show ?thesis
  proof (cases "header_at headers (?k - 1) = header_at hub (?k - 1)")
    case True
    have agree2: "header_at headers (?k - 2) = header_at hub (?k - 2)" by (rule agree_below [OF hub none _ _ _ True]) (use h k in simp_all)
    obtain h' where h': "\<forall>w. Connect ripemd160 inflate getter w headers (int ?k) (hub_chunk hub ?k 1) = (w, h', Inr 1)" and f: "follows headers hub (?k + 1) ?k h'"
      using connect_chunk [OF tip hub k(1) le_refl le_add1 zero_less_one k(4) True agree2] by blast
    obtain w2 where "live_loop ripemd160 inflate getter env False (int ?k) (EncodeToString (header_at hub ?k)) True 0 w headers = Some (w2, h', None)"
      using live_accept [OF serves w1 ne le_refl h' [rule_format] zero_less_one, where subscription = True and rewound = 0] by auto
    then show ?thesis using f longer k(1) True by (intro exI [of _ w2] exI [of _ h'] exI [of _ ?k]) simp
  next
    case False
    then have differ: "HashHeader (header_at headers (?k - 1)) \<noteq> HashHeader (header_at hub (?k - 1))" using none by (auto simp: header_collision_def)
    have below: "base_height headers \<le> ?k - 1" "?k - 1 < ?k" "base_height headers \<le> ?k - 2" "?k - 2 < ?k" using k by simp_all
    have visible: "visible (header_at headers (?k - 1))" "visible (header_at headers (?k - 2))" using h [OF below(1,2)] h [OF below(3,4)] by blast+
    have "f \<noteq> ?k" using False fork(3) by blast
    then have f: "f \<le> ?k - 1" "?k - 1 \<le> ?k" "0 + 1 = ?k - (?k - 1)" using fork(2) k(2) by simp_all
    have "(0::nat) + 1 < SPVLiveHeaderMaxRewind" by simp
    from live_reject [OF w1 ne le_refl k(2) Connect_fork [OF tip hub k(1) le_refl zero_less_one k(4) visible differ] this, where inflate = inflate and getter = getter and subscription = True]
    obtain w2 where again: "live_loop ripemd160 inflate getter env False (int ?k) (EncodeToString (header_at hub ?k)) True 0 w headers =
        live_loop ripemd160 inflate getter env False (int (?k - 1)) [] False (0 + 1) w2 headers" by auto
    show ?thesis unfolding again by (rule live_backward [OF serves tip hub none h k(3) fork(1,3,4) f])
  qed
qed

section \<open>A store follows its hub through a reorganisation\<close>

text \<open>The headers of a chain above the checkpoints of a store obey the rules of the store.\<close>

definition rules_upto :: "(bytes \<Rightarrow> bytes) \<Rightarrow> Headers \<Rightarrow> Headers \<Rightarrow> nat \<Rightarrow> bool" where
  "rules_upto ripemd160 headers hub N \<longleftrightarrow> same_rules headers hub \<and> int N \<le> int64_max div int HeaderSize \<and>
     (\<forall>k. base_height headers \<le> k \<and> k < N \<longrightarrow> linked ripemd160 hub k \<and> length (header_at hub k) = HeaderSize)"

text \<open>Two headers share a hash, or a header has one of the two hashes that stand for a header that is missing.\<close>

definition hash_accident :: "Headers \<Rightarrow> Headers \<Rightarrow> nat \<Rightarrow> bool" where
  "hash_accident headers hub N \<longleftrightarrow> header_collision headers hub \<or>
     (\<exists>k \<ge> base_height headers. k < store_size headers \<and> \<not> visible (header_at headers k) \<or> k < N \<and> \<not> visible (header_at hub k))"

lemma no_accident:
  assumes "\<not> hash_accident headers hub N" and "rules_upto ripemd160 headers headers (store_size headers)" and "rules_upto ripemd160 headers hub N"
  shows "hub_chain ripemd160 headers hub N" "\<not> header_collision headers hub"
    "base_height headers \<le> k \<Longrightarrow> k < store_size headers \<Longrightarrow> linked ripemd160 headers k \<and> visible (header_at headers k)"
  using assms by (simp_all add: hash_accident_def rules_upto_def hub_chain_def)

lemma follows_all:
  assumes "hub_chain ripemd160 headers hub N" and "\<not> header_collision headers hub" and "\<And>k. base_height headers \<le> k \<Longrightarrow> k < store_size headers \<Longrightarrow> linked ripemd160 headers k"
    and f: "follows headers hub N m h'" and m: "base_height headers + 2 \<le> m" "m \<le> store_size headers" "header_at headers (m - 1) = header_at hub (m - 1)" and "store_size headers < N"
  shows "store_size h' = N \<and> (\<forall>j. base_height headers \<le> j \<and> j < N \<longrightarrow> header_at h' j = header_at hub j) \<and> (\<forall>j < base_height headers. header_at h' j = header_at headers j)"
proof -
  have "header_at h' j = header_at hub j" if "base_height headers \<le> j" "j < N" for j
  proof (cases "j < m")
    case True
    then have "header_at headers j = header_at hub j" using that m assms(8) by (intro agree_below [OF assms(1-3) _ _ m(3)]) simp_all
    then show ?thesis using f True by (simp add: follows_def)
  qed (use f that in \<open>simp add: follows_def\<close>)
  then show ?thesis using f m(1) by (simp add: follows_def)
qed

lemma live_update:
  assumes serves: "hub_serves env hub N" and tip: "tip_store headers" and hub: "hub_chain ripemd160 headers hub N" and none: "\<not> header_collision headers hub"
    and h: "\<And>k. base_height headers \<le> k \<Longrightarrow> k < store_size headers \<Longrightarrow> linked ripemd160 headers k \<and> visible (header_at headers k)"
    and longer: "store_size headers < N" and fork: "base_height headers + 2 \<le> f" "f \<le> store_size headers" "header_at headers (f - 1) = header_at hub (f - 1)"
      "store_size headers < f + SPVLiveHeaderMaxRewind"
    and update: "update = None \<or> update = Some \<lparr>UpdateHeight = int (N - 1), UpdateHex = EncodeToString (header_at hub (N - 1))\<rparr>"
  shows "\<exists>w' h' m. updateSPVLiveHeaders ripemd160 inflate getter env update w headers = Some (w', h', None) \<and> follows headers hub N m h' \<and>
    base_height headers + 2 \<le> m \<and> m \<le> store_size headers \<and> header_at headers (m - 1) = header_at hub (m - 1)"
proof -
  let ?loop = "updateSPVLiveHeaders ripemd160 inflate getter env update w headers" let ?k = "store_size headers"
  have from_end: "\<exists>w' h' m. live_loop ripemd160 inflate getter env False (int ?k) [] False 0 w headers = Some (w', h', None) \<and>
      follows headers hub N m h' \<and> base_height headers + 2 \<le> m \<and> m \<le> ?k \<and> header_at headers (m - 1) = header_at hub (m - 1)"
    by (rule live_backward [OF serves tip hub none h longer fork(1,3,4,2)]) simp_all
  show ?thesis
  proof (cases update)
    case None
    then have "?loop = live_loop ripemd160 inflate getter env False (int ?k) [] False 0 w headers" by (simp add: updateSPVLiveHeaders_def live_reset)
    with from_end show ?thesis by simp
  next
    case (Some u)
    with update have loop: "?loop = live_loop ripemd160 inflate getter env False (int (N - 1)) (EncodeToString (header_at hub (N - 1))) True 0 w headers"
      by (simp add: updateSPVLiveHeaders_def)
    show ?thesis
    proof (cases "Suc ?k = N")
      case True
      then show ?thesis unfolding loop using live_subscription [OF serves tip hub none h True fork, of inflate getter w] by auto
    next
      case False
      then have "?loop = live_loop ripemd160 inflate getter env False (int ?k) [] False 0 w headers" unfolding loop using longer by (intro live_reset) simp
      with from_end show ?thesis by simp
    qed
  qed
qed

text \<open>
  C11. A store whose chain and the hub's chain obey the rules above the checkpoints, and which leave each other by fewer than
  100 headers, ends with the hub's chain: whether the ledger asks for headers or was told the last one, the update
  ends without an error, the store has as many headers as the hub, above the checkpoints they are those of the hub, and those
  below are as before. The only exceptions are headers that share a hash, or hash to a value that stands for a missing header.
\<close>

theorem updateSPVLiveHeaders_reorganises:
  assumes serves: "hub_serves env hub N" and tip: "tip_store headers"
    and own: "rules_upto ripemd160 headers headers (store_size headers)" and theirs: "rules_upto ripemd160 headers hub N" and longer: "store_size headers < N"
    and fork: "base_height headers + 2 \<le> f" "f \<le> store_size headers" "header_at headers (f - 1) = header_at hub (f - 1)" "store_size headers < f + SPVLiveHeaderMaxRewind"
    and update: "update = None \<or> update = Some \<lparr>UpdateHeight = int (N - 1), UpdateHex = EncodeToString (header_at hub (N - 1))\<rparr>"
  shows "hash_accident headers hub N \<or>
    (\<exists>w' h'. updateSPVLiveHeaders ripemd160 inflate getter env update w headers = Some (w', h', None) \<and> store_size h' = N \<and>
       (\<forall>j. base_height headers \<le> j \<and> j < N \<longrightarrow> header_at h' j = header_at hub j) \<and> (\<forall>j < base_height headers. header_at h' j = header_at headers j))"
proof (cases "hash_accident headers hub N")
  case False
  note ok = no_accident [OF False own theirs]
  obtain w' h' m where r: "updateSPVLiveHeaders ripemd160 inflate getter env update w headers = Some (w', h', None)" "follows headers hub N m h'"
      "base_height headers + 2 \<le> m" "m \<le> store_size headers" "header_at headers (m - 1) = header_at hub (m - 1)"
    using live_update [OF serves tip ok(1,2,3) longer fork update] by blast
  then show ?thesis using follows_all [OF ok(1,2) _ r(2-5) longer] ok(3) by blast
qed blast


text \<open>A store of three headers and a hub of four that share two.\<close>

lemma rules_upto_chain:
  assumes "same_rules headers hub" and "\<not> validateDifficulty hub" and "genesisHash hub = Some (HashHeader (header_at hub 0))" and "length (header_at hub 0) = HeaderSize"
    and "int N \<le> int64_max div int HeaderSize"
    and step: "\<And>k. Suc k < N \<Longrightarrow> \<exists>rest. length rest = 76 \<and> header_at hub (Suc k) = replicate 4 0 @ doubleSHA256 (header_at hub k) @ rest"
  shows "rules_upto ripemd160 headers hub N"
proof -
  have "linked ripemd160 hub k \<and> length (header_at hub k) = HeaderSize" if k: "k < N" for k
  proof (cases k)
    case 0
    then show ?thesis using assms(3,4) by (simp add: linked_def)
  next
    case (Suc i)
    then obtain rest where r: "length rest = 76" "header_at hub (Suc i) = replicate 4 0 @ doubleSHA256 (header_at hub i) @ rest" using step [of i] k by blast
    then have l: "length (header_at hub (Suc i)) = HeaderSize" by (simp add: doubleSHA256_def)
    then have "HeaderPreviousHash (decoded_at hub (Suc i)) = HashHeader (header_at hub i)"
      using r(1) unfolding decoded_at_def r(2) by (simp add: DeserializeHeader_def doubleSHA256_def HashHeader_def)
    then show ?thesis using l assms(2) Suc by (simp add: linked_def)
  qed
  then show ?thesis using assms(1,5) by (simp add: rules_upto_def)
qed

theorem updateSPVLiveHeaders_reorganises_witness:
  "let genesis = replicate 112 1; second = replicate 4 0 @ doubleSHA256 genesis @ replicate 76 0; third = replicate 4 0 @ doubleSHA256 second @ replicate 76 0;
     fork = replicate 4 0 @ doubleSHA256 second @ replicate 76 1; tip = replicate 4 0 @ doubleSHA256 fork @ replicate 76 0;
     store = (NewHeadersForNetwork [] RegTest)\<lparr>opened := True, genesisHash := Some (HashHeader genesis)\<rparr>;
     headers = store\<lparr>store_size := 3, storage := genesis @ second @ third\<rparr>; hub = store\<lparr>storage := genesis @ second @ fork @ tip\<rparr>;
     env = \<lparr>RetriableCall = \<lambda>n height _. (Suc n, Inr (HexText (EncodeToString (hub_chunk hub (nat height) (min 2001 (4 - nat height)))))),
       RemoteHeight = \<lambda>_. 3, onAdded = \<lambda>n _ _. n, onRewind = \<lambda>n _. (n, None), onRejected = \<lambda>n. n\<rparr>
   in hash_accident headers hub 4 \<or>
     (\<exists>n h'. updateSPVLiveHeaders (\<lambda>_. []) (\<lambda>_ _. Inl ''closed'') None env None (0 :: nat) headers = Some (n, h', None) \<and> store_size h' = 4 \<and>
       header_at h' 2 = fork \<and> header_at h' 3 = tip)"
proof -
  obtain genesis second third fork tip :: bytes where g: "genesis = replicate 112 1" and s: "second = replicate 4 0 @ doubleSHA256 genesis @ replicate 76 0"
    and t: "third = replicate 4 0 @ doubleSHA256 second @ replicate 76 0" and f: "fork = replicate 4 0 @ doubleSHA256 second @ replicate 76 1"
    and u: "tip = replicate 4 0 @ doubleSHA256 fork @ replicate 76 0" by blast
  obtain store where store: "store = (NewHeadersForNetwork [] RegTest)\<lparr>opened := True, genesisHash := Some (HashHeader genesis)\<rparr>" by blast
  obtain headers hub where headers: "headers = store\<lparr>store_size := 3, storage := genesis @ second @ third\<rparr>" and hub: "hub = store\<lparr>storage := genesis @ second @ fork @ tip\<rparr>" by blast
  obtain env :: "nat live_env" where env: "env = \<lparr>RetriableCall = \<lambda>n height _. (Suc n, Inr (HexText (EncodeToString (hub_chunk hub (nat height) (min 2001 (4 - nat height)))))),
       RemoteHeight = \<lambda>_. 3, onAdded = \<lambda>n _ _. n, onRewind = \<lambda>n _. (n, None), onRejected = \<lambda>n. n\<rparr>" by blast
  have len: "length genesis = 112" "length second = 112" "length third = 112" "length fork = 112" "length tip = 112" by (simp_all add: g s t f u doubleSHA256_def)
  have fields: "opened store" "\<not> validateDifficulty store" "targetTimespan store = 150" "checkpoints store = []" "genesisHash store = Some (HashHeader genesis)"
    by (simp_all add: store NewHeadersForNetwork_def NewHeaders_def Let_def)
  have at: "header_at headers 0 = genesis" "header_at headers (Suc 0) = second" "header_at headers (Suc (Suc 0)) = third"
    "header_at hub 0 = genesis" "header_at hub (Suc 0) = second" "header_at hub (Suc (Suc 0)) = fork" "header_at hub (Suc (Suc (Suc 0))) = tip"
    using len by (simp_all add: header_at_def headers hub)
  have nd: "\<not> validateDifficulty headers" "\<not> validateDifficulty hub" by (simp_all add: headers hub fields)
  have size: "store_size headers = 3" by (simp add: headers)
  have base: "base_height headers = 0" by (simp add: headers fields checkpoint_len_def)
  have own: "rules_upto (\<lambda>_. []) headers headers (store_size headers)"
  proof (rule rules_upto_chain)
    fix k assume "Suc k < store_size headers"
    then consider "k = 0" | "k = Suc 0" unfolding size by linarith
    then show "\<exists>rest. length rest = 76 \<and> header_at headers (Suc k) = replicate 4 0 @ doubleSHA256 (header_at headers k) @ rest"
      by cases (use s t in \<open>auto simp: at\<close>)
  qed (use nd len in \<open>simp_all add: at size same_rules_def int64_max_def\<close>, simp add: headers fields)
  have theirs: "rules_upto (\<lambda>_. []) headers hub 4"
  proof (rule rules_upto_chain)
    fix k :: nat assume "Suc k < 4"
    then consider "k = 0" | "k = Suc 0" | "k = Suc (Suc 0)" by linarith
    then show "\<exists>rest. length rest = 76 \<and> header_at hub (Suc k) = replicate 4 0 @ doubleSHA256 (header_at hub k) @ rest"
      by cases (use s f u in \<open>auto simp: at\<close>)
  qed (use nd len in \<open>simp_all add: at int64_max_def\<close>, simp_all add: headers hub fields same_rules_def)
  have serves: "hub_serves env hub 4" by (simp add: hub_serves_def env)
  have tip_store: "tip_store headers" using len by (simp add: tip_store_def headers fields int64_max_def)
  have "store_size headers < 4" "base_height headers + 2 \<le> 2" "2 \<le> store_size headers" "header_at headers (2 - 1) = header_at hub (2 - 1)" "store_size headers < 2 + 100"
    by (simp_all add: size base at)
  from updateSPVLiveHeaders_reorganises [OF serves tip_store own theirs this, of None "\<lambda>_ _. Inl ''closed''" None 0]
  have "hash_accident headers hub 4 \<or> (\<exists>n h'. updateSPVLiveHeaders (\<lambda>_. []) (\<lambda>_ _. Inl ''closed'') None env None 0 headers = Some (n, h', None) \<and> store_size h' = 4 \<and>
      header_at h' 2 = header_at hub 2 \<and> header_at h' 3 = header_at hub 3)" unfolding base by auto
  then show ?thesis using at(6,7) unfolding Let_def g [symmetric] s [symmetric] t [symmetric] f [symmetric] u [symmetric] store [symmetric] headers [symmetric] hub [symmetric] env [symmetric]
    by (simp add: numeral_2_eq_2 numeral_3_eq_3)
qed

end
