(* ===== verification/TransactionMerkle.thy ===== *)
theory TransactionMerkle
  imports HexText Decimal Base58
begin

text \<open>
  Merkle proofs of transactions, \<^verbatim>\<open>wallet/transaction_merkle.go\<close>, against the tree over the hashes of a block.
\<close>

record VerifiableTransaction = Transaction +
  IsVerified :: bool

text \<open>Values of a decoded JSON object, and integers of Go's types: signed ones, unsigned ones.\<close>

datatype any = AnyStrings "string list" | AnyList "any list" | AnyString string | JsonNumber bytes | GoInt int | GoUint nat | AnyOther string | AnyNil

datatype merkle_error = MalformedBranch nat | MalformedMerkle | MalformedPos

datatype TransactionMerkleVerificationStatus = TransactionMerkleHeightGated | TransactionMerkleProofRequired | TransactionMerkleProofMissing
  | TransactionMerkleMatched | TransactionMerkleMismatched

fun merkle_loop :: "nat \<Rightarrow> int \<Rightarrow> string list \<Rightarrow> bytes \<Rightarrow> merkle_error + bytes" where
  "merkle_loop i branchPosition [] working = Inr working"
| "merkle_loop i branchPosition (branch # branches) working =
     (case DecodeString branch of
        None \<Rightarrow> Inl (MalformedBranch i)
      | Some decoded \<Rightarrow>
          let other = rev decoded; combined = (if bit branchPosition i then other @ working else working @ other)
          in merkle_loop (Suc i) branchPosition branches (doubleSHA256 combined))"

definition TransactionMerkleRoot :: "string list \<Rightarrow> int \<Rightarrow> bytes \<Rightarrow> merkle_error + string" where
  "TransactionMerkleRoot branches branchPosition workingBranch =
     and_then (merkle_loop 0 branchPosition branches workingBranch) (\<lambda>working. Inr (EncodeToString (rev working)))"

fun any_strings :: "nat \<Rightarrow> any list \<Rightarrow> merkle_error + string list" where
  "any_strings i [] = Inr []"
| "any_strings i (v # vs) =
     (case v of AnyString s \<Rightarrow> and_then (any_strings (Suc i) vs) (\<lambda>ss. Inr (s # ss)) | _ \<Rightarrow> Inl (MalformedBranch i))"

definition transactionMerkleBranches :: "any \<Rightarrow> merkle_error + string list" where
  "transactionMerkleBranches v = (case v of AnyStrings ss \<Rightarrow> Inr ss | AnyList vs \<Rightarrow> any_strings 0 vs | _ \<Rightarrow> Inl MalformedMerkle)"

definition transactionMerkleInteger :: "any \<Rightarrow> int option" where
  "transactionMerkleInteger v =
     (case v of
        JsonNumber s \<Rightarrow> ParseInt s
      | GoInt n \<Rightarrow> Some n
      | GoUint n \<Rightarrow> if int n > int64_max then None else Some (int n)
      | _ \<Rightarrow> None)"

definition ApplyTransactionMerkleVerification ::
  "VerifiableTransaction \<Rightarrow> int \<Rightarrow> int \<Rightarrow> string \<Rightarrow> (string \<rightharpoonup> any) \<Rightarrow> VerifiableTransaction \<times> (merkle_error + TransactionMerkleVerificationStatus)" where
  "ApplyTransactionMerkleVerification transaction remoteHeight headerCount headerMerkleRoot merkle =
     (let t1 = transaction\<lparr>TxHeight := remoteHeight\<rparr>
      in if remoteHeight \<le> 0 \<or> remoteHeight \<ge> headerCount then (t1, Inr TransactionMerkleHeightGated)
         else if merkle = Map.empty then (t1, Inr TransactionMerkleProofRequired)
         else
           case merkle ''merkle'' of
             None \<Rightarrow> (t1, Inr TransactionMerkleProofMissing)
           | Some branchesValue \<Rightarrow>
               (case transactionMerkleBranches branchesValue of
                  Inl e \<Rightarrow> (t1, Inl e)
                | Inr branches \<Rightarrow>
                    (case merkle ''pos'' of
                       None \<Rightarrow> (t1, Inl MalformedPos)
                     | Some positionValue \<Rightarrow>
                         (case transactionMerkleInteger positionValue of
                            None \<Rightarrow> (t1, Inl MalformedPos)
                          | Some position \<Rightarrow>
                              (case TransactionMerkleRoot branches position (TxHash t1) of
                                 Inl e \<Rightarrow> (t1, Inl e)
                               | Inr root \<Rightarrow>
                                   let verified = (root = headerMerkleRoot)
                                   in (t1\<lparr>TxPosition := position, IsVerified := verified\<rparr>,
                                       Inr (if verified then TransactionMerkleMatched else TransactionMerkleMismatched)))))))"

section \<open>Merkle trees\<close>

text \<open>The tree over the hashes of a block: neighbours are hashed together, an odd last one with itself.\<close>

fun level_up :: "bytes list \<Rightarrow> bytes list" where
  "level_up [] = []"
| "level_up [x] = [doubleSHA256 (x @ x)]"
| "level_up (x # y # xs) = doubleSHA256 (x @ y) # level_up xs"

lemma length_level_up [simp]: "length (level_up xs) = (length xs + 1) div 2"
  by (induction xs rule: level_up.induct) simp_all

function merkle_root :: "bytes list \<Rightarrow> bytes" where
  "merkle_root xs = (if length xs \<le> 1 then hd xs else merkle_root (level_up xs))"
  by auto
termination by (relation "measure length") auto

declare merkle_root.simps [simp del]

text \<open>The hash next to position \<open>i\<close> of a level, and the branch of a leaf.\<close>

definition sibling :: "bytes list \<Rightarrow> nat \<Rightarrow> bytes" where
  "sibling xs i = (if odd i then xs ! (i - 1) else if i + 1 < length xs then xs ! (i + 1) else xs ! i)"

function merkle_branch :: "bytes list \<Rightarrow> nat \<Rightarrow> bytes list" where
  "merkle_branch xs i = (if length xs \<le> 1 then [] else sibling xs i # merkle_branch (level_up xs) (i div 2))"
  by auto
termination by (relation "measure (\<lambda>(xs, i). length xs)") auto

declare merkle_branch.simps [simp del]

lemma level_up_nth:
  "j < length (level_up xs) \<Longrightarrow> level_up xs ! j = doubleSHA256 (xs ! (2 * j) @ (if 2 * j + 1 < length xs then xs ! (2 * j + 1) else xs ! (2 * j)))"
proof (induction xs arbitrary: j rule: level_up.induct)
  case (3 x y xs)
  show ?case
  proof (cases j)
    case (Suc k)
    then have "k < length (level_up xs)" using 3(2) by simp
    from 3(1) [OF this] show ?thesis using Suc by simp
  qed simp
qed simp_all

text \<open>One step of the program on a level of the tree: the parent of a node.\<close>

lemma parent:
  assumes "i < length xs"
  shows "level_up xs ! (i div 2) = doubleSHA256 (if odd i then sibling xs i @ xs ! i else xs ! i @ sibling xs i)"
proof -
  have "i div 2 < length (level_up xs)" using assms by simp
  from level_up_nth [OF this] show ?thesis using assms by (cases "odd i") (auto simp: sibling_def elim!: oddE)
qed

definition displayed :: "bytes list \<Rightarrow> string list" where
  "displayed = map (\<lambda>b. EncodeToString (rev b))"

lemma merkle_loop_branch:
  assumes "i < length xs" and "xs \<noteq> []" and "\<And>n. bit p (k + n) = bit i n"
  shows "merkle_loop k p (displayed (merkle_branch xs i)) (xs ! i) = Inr (merkle_root xs)"
  using assms
proof (induction xs i arbitrary: k rule: merkle_branch.induct)
  case (1 xs i)
  show ?case
  proof (cases "length xs \<le> 1")
    case True
    then have "xs = [xs ! 0]" "i = 0" using 1(2,3) by (cases xs; simp)+
    then show ?thesis using True by (simp add: merkle_branch.simps merkle_root.simps displayed_def hd_conv_nth "1.prems"(2))
  next
    case False
    have bits: "bit p (Suc k + n) = bit (i div 2) n" for n using "1.prems"(3) [of "Suc n"] by (simp add: bit_Suc)
    have odd: "bit p k = odd i" using "1.prems"(3) [of 0] by (simp add: bit_0)
    have half: "i div 2 < length (level_up xs)" "level_up xs \<noteq> []" using "1.prems"(1) False by (simp, cases xs rule: level_up.cases) auto
    have "merkle_loop (Suc k) p (displayed (merkle_branch (level_up xs) (i div 2))) (level_up xs ! (i div 2)) = Inr (merkle_root (level_up xs))"
      using False half bits by (intro "1.IH") auto
    then show ?thesis using False parent [OF "1.prems"(1)] odd
      by (simp add: merkle_branch.simps [of xs] merkle_root.simps [of xs] displayed_def)
  qed
qed

text \<open>The texts that the tree hashes, and those that the program hashes on its way up.\<close>

fun level_inputs :: "bytes list \<Rightarrow> bytes list" where
  "level_inputs [] = []"
| "level_inputs [x] = [x @ x]"
| "level_inputs (x # y # xs) = (x @ y) # level_inputs xs"

function tree_inputs :: "bytes list \<Rightarrow> bytes list" where
  "tree_inputs xs = (if length xs \<le> 1 then [] else level_inputs xs @ tree_inputs (level_up xs))"
  by auto
termination by (relation "measure length") auto

declare tree_inputs.simps [simp del]

fun loop_inputs :: "nat \<Rightarrow> int \<Rightarrow> string list \<Rightarrow> bytes \<Rightarrow> bytes list" where
  "loop_inputs i branchPosition [] working = []"
| "loop_inputs i branchPosition (branch # branches) working =
     (case DecodeString branch of
        None \<Rightarrow> []
      | Some decoded \<Rightarrow>
          let combined = (if bit branchPosition i then rev decoded @ working else working @ rev decoded)
          in combined # loop_inputs (Suc i) branchPosition branches (doubleSHA256 combined))"

lemma level_up_inputs: "level_up xs = map doubleSHA256 (level_inputs xs)"
  by (induction xs rule: level_up.induct) simp_all

lemma level_inputs_parts: "y \<in> set (level_inputs xs) \<Longrightarrow> \<exists>l r. y = l @ r \<and> l \<in> set xs \<and> r \<in> set xs"
  by (induction xs rule: level_inputs.induct) auto

lemma length_level_up_hash: "x \<in> set (level_up xs) \<Longrightarrow> length x = 32"
  by (auto simp: level_up_inputs doubleSHA256_def)

lemma length_merkle_branch: "length (merkle_branch xs i) = length (merkle_branch xs j)"
proof (induction xs i arbitrary: j rule: merkle_branch.induct)
  case (1 xs i)
  show ?case by (cases "length xs \<le> 1") (simp_all add: merkle_branch.simps [of xs] 1)
qed

lemma merkle_loop_sound:
  assumes "merkle_loop k p bs w = Inr (merkle_root xs)" and "xs \<noteq> []" and "length bs = length (merkle_branch xs i)"
    and "length w = 32" and "\<forall>x \<in> set xs. length x = 32"
  shows "w \<in> set xs \<or> (\<exists>x \<in> set (loop_inputs k p bs w). \<exists>y \<in> set (tree_inputs xs). x \<noteq> y \<and> doubleSHA256 x = doubleSHA256 y)"
  using assms
proof (induction xs i arbitrary: k bs w rule: merkle_branch.induct)
  case (1 xs i)
  show ?case
  proof (cases "length xs \<le> 1")
    case True
    then have "bs = []" using "1.prems"(3) by (simp add: merkle_branch.simps)
    then have "w = hd xs" using "1.prems"(1) True by (simp add: merkle_root.simps)
    then show ?thesis using "1.prems"(2) by simp
  next
    case False
    then obtain b bs' where bs: "bs = b # bs'" "length bs' = length (merkle_branch (level_up xs) (i div 2))"
      using "1.prems"(3) by (cases bs) (simp_all add: merkle_branch.simps [of xs])
    obtain d where d: "DecodeString b = Some d" using "1.prems"(1) bs(1) by (auto split: option.splits)
    let ?c = "if bit p k then rev d @ w else w @ rev d"
    have loop: "merkle_loop (Suc k) p bs' (doubleSHA256 ?c) = Inr (merkle_root (level_up xs))"
      using "1.prems"(1) False d bs(1) by (simp add: merkle_root.simps [of xs] Let_def)
    have inputs: "loop_inputs k p bs w = ?c # loop_inputs (Suc k) p bs' (doubleSHA256 ?c)" using d bs(1) by (simp add: Let_def)
    have tree: "tree_inputs xs = level_inputs xs @ tree_inputs (level_up xs)" using False by (simp add: tree_inputs.simps)
    have up: "level_up xs \<noteq> []" using False by (cases xs rule: level_up.cases) auto
    have "doubleSHA256 ?c \<in> set (level_up xs) \<or>
      (\<exists>x \<in> set (loop_inputs (Suc k) p bs' (doubleSHA256 ?c)). \<exists>y \<in> set (tree_inputs (level_up xs)). x \<noteq> y \<and> doubleSHA256 x = doubleSHA256 y)"
      using bs up length_level_up_hash by (intro "1.IH" [OF False loop]) (auto simp: doubleSHA256_def)
    then show ?thesis
    proof
      assume "doubleSHA256 ?c \<in> set (level_up xs)"
      then obtain y where y: "y \<in> set (level_inputs xs)" "doubleSHA256 ?c = doubleSHA256 y" by (auto simp: level_up_inputs)
      show ?thesis
      proof (cases "?c = y")
        case True
        obtain l r where lr: "y = l @ r" "l \<in> set xs" "r \<in> set xs" using level_inputs_parts [OF y(1)] by blast
        then have "length l = 32" "length r = 32" using "1.prems"(5) by blast+
        moreover have "length ?c = length (l @ r)" using True lr(1) by simp
        ultimately have "length (rev d) = 32" using "1.prems"(4) by (auto split: if_splits)
        with \<open>length l = 32\<close> \<open>length r = 32\<close> have "w = l \<or> w = r" using True lr(1) "1.prems"(4) by (auto split: if_splits)
        then show ?thesis using lr by blast
      next
        case False
        have "?c \<in> set (loop_inputs k p bs w)" unfolding inputs by simp
        moreover have "y \<in> set (tree_inputs xs)" unfolding tree using y(1) by simp
        ultimately show ?thesis using False y(2) by blast
      qed
    qed (auto simp: inputs tree)
  qed
qed

text \<open>Branches of any length: the loop continues where a part of it ended, and a level of the tree is a tree with the same root.\<close>

lemma merkle_loop_append: "merkle_loop k p (bs @ cs) w = and_then (merkle_loop k p bs w) (\<lambda>v. merkle_loop (k + length bs) p cs v)"
  by (induction bs arbitrary: k w) (auto simp: Let_def split: option.split)

lemma loop_inputs_append:
  "merkle_loop k p bs w = Inr v \<Longrightarrow> loop_inputs k p (bs @ cs) w = loop_inputs k p bs w @ loop_inputs (k + length bs) p cs v"
  by (induction bs arbitrary: k w) (auto simp: Let_def split: option.splits)

lemma merkle_loop_last: "merkle_loop k p bs w = Inr v \<Longrightarrow> bs \<noteq> [] \<Longrightarrow> v \<in> doubleSHA256 ` set (loop_inputs k p bs w)"
proof (induction bs arbitrary: k w)
  case (Cons b bs)
  then obtain d where d: "DecodeString b = Some d" by (auto split: option.splits)
  let ?c = "if bit p k then rev d @ w else w @ rev d"
  have rest: "merkle_loop (Suc k) p bs (doubleSHA256 ?c) = Inr v" using Cons.prems(1) d by (simp add: Let_def)
  have inputs: "loop_inputs k p (b # bs) w = ?c # loop_inputs (Suc k) p bs (doubleSHA256 ?c)" using d by (simp add: Let_def)
  show ?case
  proof (cases "bs = []")
    case True
    then have "v = doubleSHA256 ?c" using rest by simp
    then show ?thesis unfolding inputs by simp
  next
    case False
    from Cons.IH [OF rest this] show ?thesis unfolding inputs by (simp only: list.set image_insert insert_iff simp_thms)
  qed
qed simp

lemma length_loop_hash: "merkle_loop k p bs w = Inr v \<Longrightarrow> length w = 32 \<Longrightarrow> length v = 32"
  by (induction bs arbitrary: k w) (auto simp: Let_def doubleSHA256_def split: option.splits)

definition merkle_height :: "bytes list \<Rightarrow> nat" where
  "merkle_height xs = length (merkle_branch xs 0)"

lemma merkle_height_rec: "merkle_height xs = (if length xs \<le> 1 then 0 else Suc (merkle_height (level_up xs)))"
  unfolding merkle_height_def by (subst merkle_branch.simps) (simp add: length_merkle_branch [of "level_up xs" 0])

lemma level_of_tree:
  assumes "n \<le> merkle_height xs" and "xs \<noteq> []" and "\<forall>x \<in> set xs. length x = 32"
  shows "\<exists>ys. merkle_root ys = merkle_root xs \<and> merkle_height ys = n \<and> ys \<noteq> [] \<and> (\<forall>y \<in> set ys. length y = 32) \<and>
    set (tree_inputs ys) \<subseteq> set (tree_inputs xs) \<and> (if n = merkle_height xs then ys = xs else set ys \<subseteq> doubleSHA256 ` set (tree_inputs xs))"
  using assms
proof (induction xs rule: merkle_root.induct)
  case (1 xs)
  show ?case
  proof (cases "n = merkle_height xs")
    case False
    then have big: "\<not> length xs \<le> 1" and n: "n \<le> merkle_height (level_up xs)" using "1.prems"(1) merkle_height_rec [of xs] by (auto split: if_splits)
    have "0 < length (level_up xs)" using big by simp
    then have up: "level_up xs \<noteq> []" "\<forall>y \<in> set (level_up xs). length y = 32" using length_level_up_hash [of _ xs] by blast+
    obtain ys where ys: "merkle_root ys = merkle_root (level_up xs)" "merkle_height ys = n" "ys \<noteq> []" "\<forall>y \<in> set ys. length y = 32"
      "set (tree_inputs ys) \<subseteq> set (tree_inputs (level_up xs))"
      "if n = merkle_height (level_up xs) then ys = level_up xs else set ys \<subseteq> doubleSHA256 ` set (tree_inputs (level_up xs))"
      using "1.IH" [OF big n up] by blast
    have inputs: "tree_inputs xs = level_inputs xs @ tree_inputs (level_up xs)" using big by (simp add: tree_inputs.simps)
    have "set ys \<subseteq> doubleSHA256 ` set (tree_inputs xs)" using ys(6) unfolding inputs level_up_inputs by (auto split: if_splits)
    moreover have "merkle_root xs = merkle_root (level_up xs)" using big by (simp add: merkle_root.simps [of xs])
    ultimately show ?thesis using ys(1-5) False inputs by (intro exI [of _ ys]) auto
  qed (use "1.prems" in auto)
qed

lemma length_tree_inputs: "\<forall>x \<in> set xs. length x = 32 \<Longrightarrow> y \<in> set (tree_inputs xs) \<Longrightarrow> length y = 64"
proof (induction xs rule: tree_inputs.induct)
  case (1 xs)
  then show ?case using length_level_up_hash [of _ xs] by (auto simp: tree_inputs.simps [of xs] dest!: level_inputs_parts split: if_splits)
qed

text \<open>What a branch proves: of the right length a leaf, too short an inner node, too long a text that the program hashed to a leaf.\<close>

lemma merkle_loop_proves:
  assumes "merkle_loop 0 p bs w = Inr (merkle_root xs)" and "xs \<noteq> []" and "length w = 32" and "\<forall>x \<in> set xs. length x = 32"
  shows "(\<exists>x \<in> set (loop_inputs 0 p bs w). \<exists>y \<in> set (tree_inputs xs). x \<noteq> y \<and> doubleSHA256 x = doubleSHA256 y) \<or>
    (if length bs < merkle_height xs then w \<in> doubleSHA256 ` set (tree_inputs xs)
     else if length bs = merkle_height xs then w \<in> set xs
     else \<exists>c \<in> set (loop_inputs 0 p bs w). doubleSHA256 c \<in> set xs)"
proof (cases "length bs \<le> merkle_height xs")
  case True
  from level_of_tree [OF this assms(2,4)] obtain ys where ys: "merkle_root ys = merkle_root xs" "merkle_height ys = length bs" "ys \<noteq> []"
    "\<forall>y \<in> set ys. length y = 32" "set (tree_inputs ys) \<subseteq> set (tree_inputs xs)"
    "if length bs = merkle_height xs then ys = xs else set ys \<subseteq> doubleSHA256 ` set (tree_inputs xs)" by blast
  have "w \<in> set ys \<or> (\<exists>x \<in> set (loop_inputs 0 p bs w). \<exists>y \<in> set (tree_inputs ys). x \<noteq> y \<and> doubleSHA256 x = doubleSHA256 y)"
    by (rule merkle_loop_sound [where i = 0]) (use assms(1,3) ys in \<open>simp_all add: merkle_height_def\<close>)
  then show ?thesis using ys(5,6) True by (auto split: if_splits)
next
  case False
  define n where "n = length bs - merkle_height xs"
  let ?a = "take n bs" and ?b = "drop n bs"
  have n: "n \<noteq> 0" "length ?a = n" "length ?b = merkle_height xs" using False by (simp_all add: n_def)
  have "merkle_loop 0 p (?a @ ?b) w = Inr (merkle_root xs)" using assms(1) by simp
  then obtain v where v: "merkle_loop 0 p ?a w = Inr v" "merkle_loop n p ?b v = Inr (merkle_root xs)"
    unfolding merkle_loop_append and_then_Inr n(2) add_0 by blast
  have inputs: "loop_inputs 0 p bs w = loop_inputs 0 p ?a w @ loop_inputs n p ?b v" using loop_inputs_append [OF v(1), of ?b] n(2) by simp
  have "?a \<noteq> []" using n(1,2) by auto
  then have "v \<in> doubleSHA256 ` set (loop_inputs 0 p ?a w)" by (rule merkle_loop_last [OF v(1)])
  moreover have "v \<in> set xs \<or> (\<exists>x \<in> set (loop_inputs n p ?b v). \<exists>y \<in> set (tree_inputs xs). x \<noteq> y \<and> doubleSHA256 x = doubleSHA256 y)"
    by (rule merkle_loop_sound [where i = 0]) (use v(2) assms(2,4) n(3) length_loop_hash [OF v(1) assms(3)] in \<open>simp_all add: merkle_height_def\<close>)
  ultimately show ?thesis using False unfolding inputs by auto
qed

text \<open>The root of a block, from the serialized transactions, as a header has it, and the proof that a server sends.\<close>

definition block_root :: "bytes list \<Rightarrow> string" where
  "block_root raws = EncodeToString (rev (merkle_root (map doubleSHA256 raws)))"

definition block_proof :: "bytes list \<Rightarrow> nat \<Rightarrow> string \<rightharpoonup> any" where
  "block_proof raws i = [''merkle'' \<mapsto> AnyStrings (displayed (merkle_branch (map doubleSHA256 raws) i)), ''pos'' \<mapsto> GoInt (int i)]"

text \<open>Two texts with the same double hash, one that the program hashed (or the transaction itself) and one of the block.\<close>

definition collision :: "bytes list \<Rightarrow> string list \<Rightarrow> int \<Rightarrow> VerifiableTransaction \<Rightarrow> bool" where
  "collision raws branches position t \<longleftrightarrow>
     (\<exists>x \<in> insert (RawSansSegWit t) (set (loop_inputs 0 position branches (TxHash t))).
        \<exists>y \<in> set raws \<union> set (tree_inputs (map doubleSHA256 raws)). x \<noteq> y \<and> doubleSHA256 x = doubleSHA256 y)"

lemma verification_root:
  assumes "snd (ApplyTransactionMerkleVerification t height headerCount (EncodeToString (rev root)) merkle) = Inr TransactionMerkleMatched"
  obtains v branches pv position where "merkle ''merkle'' = Some v" "transactionMerkleBranches v = Inr branches" "merkle ''pos'' = Some pv"
    "transactionMerkleInteger pv = Some position" "merkle_loop 0 position branches (TxHash t) = Inr root"
proof -
  from assms obtain v branches pv position where p: "merkle ''merkle'' = Some v" "transactionMerkleBranches v = Inr branches" "merkle ''pos'' = Some pv"
    "transactionMerkleInteger pv = Some position" "TransactionMerkleRoot branches position (TxHash t) = Inr (EncodeToString (rev root))"
    by (auto simp: ApplyTransactionMerkleVerification_def Let_def split: if_splits option.splits sum.splits)
  from p(5) obtain r where r: "merkle_loop 0 position branches (TxHash t) = Inr r" "EncodeToString (rev r) = EncodeToString (rev root)"
    by (auto simp: TransactionMerkleRoot_def and_then_Inr)
  then have "rev r = rev root" by (metis DecodeString_EncodeToString option.inject)
  then show thesis using that p(1-4) r(1) by simp
qed

lemma proof_verifies:
  assumes "i < length raws" and "raws ! i = RawSansSegWit t" and "TxHash t = doubleSHA256 (RawSansSegWit t)" and "0 < height" and "height < headerCount"
  shows "ApplyTransactionMerkleVerification t height headerCount (block_root raws) (block_proof raws i) =
    (t\<lparr>TxHeight := height, TxPosition := int i, IsVerified := True\<rparr>, Inr TransactionMerkleMatched)"
proof -
  have "merkle_loop 0 (int i) (displayed (merkle_branch (map doubleSHA256 raws) i)) (map doubleSHA256 raws ! i) = Inr (merkle_root (map doubleSHA256 raws))"
    using assms(1) by (intro merkle_loop_branch) (auto simp: bit_of_nat_iff_bit)
  then show ?thesis using assms
    by (simp add: ApplyTransactionMerkleVerification_def TransactionMerkleRoot_def transactionMerkleBranches_def transactionMerkleInteger_def block_root_def block_proof_def)
qed

text \<open>
  C10. Merkle proofs. For a block with the given serialized transactions and a transaction whose hash is that of its
  serialization: if the transaction is in the block, the proof that servers send verifies it and records position and
  height. Whatever the server sends, a transaction that the program marks as verified is in the block, except in three cases:
  a text that the program hashed collides with one of the block; the branch is shorter than the tree is high
  and the transaction has exactly 64 bytes; or the branch is longer than the tree is high and a text that was hashed on the way is
  the serialization of a transaction of the block. The code checks neither the length of the branch nor that of the
  hashes in it, so the last two cannot be left out.
\<close>

theorem ApplyTransactionMerkleVerification_correct:
  assumes "raws \<noteq> []" and hash: "TxHash t = doubleSHA256 (RawSansSegWit t)" and "0 < height" and "height < headerCount"
  shows "(\<forall>i. i < length raws \<and> raws ! i = RawSansSegWit t \<longrightarrow>
      ApplyTransactionMerkleVerification t height headerCount (block_root raws) (block_proof raws i) =
      (t\<lparr>TxHeight := height, TxPosition := int i, IsVerified := True\<rparr>, Inr TransactionMerkleMatched)) \<and>
    (snd (ApplyTransactionMerkleVerification t height headerCount (block_root raws) merkle) = Inr TransactionMerkleMatched \<longrightarrow>
      (\<exists>v branches pv position. merkle ''merkle'' = Some v \<and> transactionMerkleBranches v = Inr branches \<and>
         merkle ''pos'' = Some pv \<and> transactionMerkleInteger pv = Some position \<and>
         (RawSansSegWit t \<in> set raws \<or> collision raws branches position t \<or>
          length branches < merkle_height (map doubleSHA256 raws) \<and> length (RawSansSegWit t) = 64 \<or>
          length branches > merkle_height (map doubleSHA256 raws) \<and> set (loop_inputs 0 position branches (TxHash t)) \<inter> set raws \<noteq> {})))"
proof (intro conjI impI allI)
  fix i
  assume "i < length raws \<and> raws ! i = RawSansSegWit t"
  then show "ApplyTransactionMerkleVerification t height headerCount (block_root raws) (block_proof raws i) =
      (t\<lparr>TxHeight := height, TxPosition := int i, IsVerified := True\<rparr>, Inr TransactionMerkleMatched)" using proof_verifies assms by blast
next
  let ?xs = "map doubleSHA256 raws"
  assume "snd (ApplyTransactionMerkleVerification t height headerCount (block_root raws) merkle) = Inr TransactionMerkleMatched"
  from verification_root [OF this [unfolded block_root_def]] obtain v branches pv position where p: "merkle ''merkle'' = Some v"
    "transactionMerkleBranches v = Inr branches" "merkle ''pos'' = Some pv" "transactionMerkleInteger pv = Some position"
    and loop: "merkle_loop 0 position branches (TxHash t) = Inr (merkle_root ?xs)" by blast
  have xs: "\<forall>x \<in> set ?xs. length x = 32" and len: "length (TxHash t) = 32" by (simp_all add: hash doubleSHA256_def)
  note proves = merkle_loop_proves [OF loop _ len xs]
  have two: "length y = 64" if "y \<in> set (tree_inputs ?xs)" for y using length_tree_inputs [OF xs that] .
  have "RawSansSegWit t \<in> set raws \<or> collision raws branches position t \<or>
      length branches < merkle_height ?xs \<and> length (RawSansSegWit t) = 64 \<or>
      length branches > merkle_height ?xs \<and> set (loop_inputs 0 position branches (TxHash t)) \<inter> set raws \<noteq> {}"
  proof (cases "collision raws branches position t")
    case False
    have same: "x = y" if "x = RawSansSegWit t \<or> x \<in> set (loop_inputs 0 position branches (TxHash t))" "y \<in> set raws \<or> y \<in> set (tree_inputs ?xs)" "doubleSHA256 x = doubleSHA256 y"
      for x y using False that unfolding collision_def by blast
    then have none: "\<not> (\<exists>x \<in> set (loop_inputs 0 position branches (TxHash t)). \<exists>y \<in> set (tree_inputs ?xs). x \<noteq> y \<and> doubleSHA256 x = doubleSHA256 y)" by blast
    consider "length branches < merkle_height ?xs" | "length branches = merkle_height ?xs" | "length branches > merkle_height ?xs" by linarith
    then show ?thesis
    proof cases
      case 1
      with proves none assms(1) obtain y where y: "y \<in> set (tree_inputs ?xs)" "doubleSHA256 (RawSansSegWit t) = doubleSHA256 y" by (auto simp: hash)
      with same [of "RawSansSegWit t" y] two [OF y(1)] 1 show ?thesis by simp
    next
      case 2
      with proves none assms(1) obtain y where y: "y \<in> set raws" "doubleSHA256 (RawSansSegWit t) = doubleSHA256 y" by (auto simp: hash)
      with same [of "RawSansSegWit t" y] show ?thesis by simp
    next
      case 3
      with proves none assms(1) obtain c y where y: "c \<in> set (loop_inputs 0 position branches (TxHash t))" "y \<in> set raws" "doubleSHA256 c = doubleSHA256 y" by auto
      with same [of c y] 3 show ?thesis by blast
    qed
  qed simp
  with p show "\<exists>v branches pv position. merkle ''merkle'' = Some v \<and> transactionMerkleBranches v = Inr branches \<and>
         merkle ''pos'' = Some pv \<and> transactionMerkleInteger pv = Some position \<and>
         (RawSansSegWit t \<in> set raws \<or> collision raws branches position t \<or>
          length branches < merkle_height ?xs \<and> length (RawSansSegWit t) = 64 \<or>
          length branches > merkle_height ?xs \<and> set (loop_inputs 0 position branches (TxHash t)) \<inter> set raws \<noteq> {})" by blast
qed

text \<open>A block of two transactions, the second of which is verified.\<close>

theorem ApplyTransactionMerkleVerification_correct_witness:
  "\<exists>t'. ApplyTransactionMerkleVerification
      \<lparr>Raw = [7], RawSansSegWit = [7], TxHash = doubleSHA256 [7], ID = [], Version = 1, LockTime = 0, SegWitFlag = 0, Witnesses = [], Inputs = [], Outputs = [],
       Trailing = [], TxHeight = 0, TxPosition = - 1, IsVerified = False\<rparr> 7 9 (block_root [[5], [7]]) (block_proof [[5], [7]] 1) =
    (t', Inr TransactionMerkleMatched) \<and> IsVerified t'"
proof -
  let ?t = "\<lparr>Raw = [7], RawSansSegWit = [7], TxHash = doubleSHA256 [7], ID = [], Version = 1, LockTime = 0, SegWitFlag = 0, Witnesses = [], Inputs = [], Outputs = [],
       Trailing = [], TxHeight = 0, TxPosition = - 1, IsVerified = False\<rparr> :: VerifiableTransaction"
  have "[[5], [7]] \<noteq> ([] :: bytes list)" "TxHash ?t = doubleSHA256 (RawSansSegWit ?t)" "(0 :: int) < 7" "(7 :: int) < 9" by simp_all
  from ApplyTransactionMerkleVerification_correct [OF this, THEN conjunct1, rule_format, of 1] show ?thesis by simp
qed

text \<open>
  The last case happens: a transaction that is in no block is verified when its hash is at the end of one that is in the
  block, with the rest of that one as the first hash of the branch.
\<close>

lemma foreign_transaction_verifies:
  assumes "i < length raws" and "raws ! i = before @ TxHash t" and "0 < height" and "height < headerCount"
  shows "snd (ApplyTransactionMerkleVerification t height headerCount (block_root raws)
    [''merkle'' \<mapsto> AnyStrings (displayed (before # merkle_branch (map doubleSHA256 raws) i)), ''pos'' \<mapsto> GoInt (2 * int i + 1)]) = Inr TransactionMerkleMatched"
proof -
  let ?xs = "map doubleSHA256 raws"
  have "bit (2 * int i + 1) (Suc 0 + n) = bit i n" for n by (simp add: bit_Suc bit_of_nat_iff_bit)
  then have "merkle_loop (Suc 0) (2 * int i + 1) (displayed (merkle_branch ?xs i)) (?xs ! i) = Inr (merkle_root ?xs)"
    using assms(1) by (intro merkle_loop_branch) auto
  moreover have "?xs ! i = doubleSHA256 (before @ TxHash t)" using assms(1,2) by simp
  moreover have "bit (2 * int i + 1) 0" by (simp add: bit_0)
  ultimately have "merkle_loop 0 (2 * int i + 1) (displayed (before # merkle_branch ?xs i)) (TxHash t) = Inr (merkle_root ?xs)"
    by (simp add: displayed_def)
  then show ?thesis using assms(3,4)
    by (simp add: ApplyTransactionMerkleVerification_def TransactionMerkleRoot_def transactionMerkleBranches_def transactionMerkleInteger_def block_root_def)
qed

end
