(* ===== verification/Aes.thy ===== *)
theory Aes
  imports Sha2
begin

text \<open>
  The AES block cipher of \<^verbatim>\<open>crypto/aes\<close> and the CBC mode of \<^verbatim>\<open>crypto/cipher\<close>, of Go's standard library, as FIPS 197 and
  SP 800-38A define them. A block is the list of its 16 bytes, column after column. Decryption inverts encryption
  for every list of round keys; the mode is treated once for every block cipher, in the locale
  \<open>block_cipher\<close>, which AES interprets.
\<close>

unbundle bit_operations_syntax

section \<open>Substitution\<close>

definition sboxRows :: "nat list list" where
  "sboxRows =
    [[99, 124, 119, 123, 242, 107, 111, 197, 48, 1, 103, 43, 254, 215, 171, 118],
     [202, 130, 201, 125, 250, 89, 71, 240, 173, 212, 162, 175, 156, 164, 114, 192],
     [183, 253, 147, 38, 54, 63, 247, 204, 52, 165, 229, 241, 113, 216, 49, 21],
     [4, 199, 35, 195, 24, 150, 5, 154, 7, 18, 128, 226, 235, 39, 178, 117],
     [9, 131, 44, 26, 27, 110, 90, 160, 82, 59, 214, 179, 41, 227, 47, 132],
     [83, 209, 0, 237, 32, 252, 177, 91, 106, 203, 190, 57, 74, 76, 88, 207],
     [208, 239, 170, 251, 67, 77, 51, 133, 69, 249, 2, 127, 80, 60, 159, 168],
     [81, 163, 64, 143, 146, 157, 56, 245, 188, 182, 218, 33, 16, 255, 243, 210],
     [205, 12, 19, 236, 95, 151, 68, 23, 196, 167, 126, 61, 100, 93, 25, 115],
     [96, 129, 79, 220, 34, 42, 144, 136, 70, 238, 184, 20, 222, 94, 11, 219],
     [224, 50, 58, 10, 73, 6, 36, 92, 194, 211, 172, 98, 145, 149, 228, 121],
     [231, 200, 55, 109, 141, 213, 78, 169, 108, 86, 244, 234, 101, 122, 174, 8],
     [186, 120, 37, 46, 28, 166, 180, 198, 232, 221, 116, 31, 75, 189, 139, 138],
     [112, 62, 181, 102, 72, 3, 246, 14, 97, 53, 87, 185, 134, 193, 29, 158],
     [225, 248, 152, 17, 105, 217, 142, 148, 155, 30, 135, 233, 206, 85, 40, 223],
     [140, 161, 137, 13, 191, 230, 66, 104, 65, 153, 45, 15, 176, 84, 187, 22]]"

definition invSboxRows :: "nat list list" where
  "invSboxRows =
    [[82, 9, 106, 213, 48, 54, 165, 56, 191, 64, 163, 158, 129, 243, 215, 251],
     [124, 227, 57, 130, 155, 47, 255, 135, 52, 142, 67, 68, 196, 222, 233, 203],
     [84, 123, 148, 50, 166, 194, 35, 61, 238, 76, 149, 11, 66, 250, 195, 78],
     [8, 46, 161, 102, 40, 217, 36, 178, 118, 91, 162, 73, 109, 139, 209, 37],
     [114, 248, 246, 100, 134, 104, 152, 22, 212, 164, 92, 204, 93, 101, 182, 146],
     [108, 112, 72, 80, 253, 237, 185, 218, 94, 21, 70, 87, 167, 141, 157, 132],
     [144, 216, 171, 0, 140, 188, 211, 10, 247, 228, 88, 5, 184, 179, 69, 6],
     [208, 44, 30, 143, 202, 63, 15, 2, 193, 175, 189, 3, 1, 19, 138, 107],
     [58, 145, 17, 65, 79, 103, 220, 234, 151, 242, 207, 206, 240, 180, 230, 115],
     [150, 172, 116, 34, 231, 173, 53, 133, 226, 249, 55, 232, 28, 117, 223, 110],
     [71, 241, 26, 113, 29, 41, 197, 137, 111, 183, 98, 14, 170, 24, 190, 27],
     [252, 86, 62, 75, 198, 210, 121, 32, 154, 219, 192, 254, 120, 205, 90, 244],
     [31, 221, 168, 51, 136, 7, 199, 49, 177, 18, 16, 89, 39, 128, 236, 95],
     [96, 81, 127, 169, 25, 181, 74, 13, 45, 229, 122, 159, 147, 201, 156, 239],
     [160, 224, 59, 77, 174, 42, 245, 176, 200, 235, 187, 60, 131, 83, 153, 97],
     [23, 43, 4, 126, 186, 119, 214, 38, 225, 105, 20, 99, 85, 33, 12, 125]]"

definition table :: "nat list list \<Rightarrow> nat \<Rightarrow> nat" where
  "table rows n = rows ! (n div 16) ! (n mod 16)"

definition subByte :: "byte \<Rightarrow> byte" where
  "subByte b = of_nat (table sboxRows (unat b))"

definition invSubByte :: "byte \<Rightarrow> byte" where
  "invSubByte b = of_nat (table invSboxRows (unat b))"

section \<open>The transformations of the state\<close>

definition xor_bytes :: "bytes \<Rightarrow> bytes \<Rightarrow> bytes" where
  "xor_bytes xs ys = map2 (\<lambda>x y. x XOR y) xs ys"

definition shiftRows :: "bytes \<Rightarrow> bytes" where
  "shiftRows s = map (\<lambda>i. s ! ((i + 4 * (i mod 4)) mod 16)) [0..<16]"

definition invShiftRows :: "bytes \<Rightarrow> bytes" where
  "invShiftRows s = map (\<lambda>i. s ! ((i + 12 * (i mod 4)) mod 16)) [0..<16]"

text \<open>Products in the field of 256 elements.\<close>

definition xtime :: "byte \<Rightarrow> byte" where
  "xtime b = push_bit 1 b XOR (if bit b 7 then 0x1b else 0)"

definition mul2 :: "byte \<Rightarrow> byte" where "mul2 b = xtime b"
definition mul3 :: "byte \<Rightarrow> byte" where "mul3 b = xtime b XOR b"
definition mul9 :: "byte \<Rightarrow> byte" where "mul9 b = xtime (xtime (xtime b)) XOR b"
definition mul11 :: "byte \<Rightarrow> byte" where "mul11 b = xtime (xtime (xtime b)) XOR xtime b XOR b"
definition mul13 :: "byte \<Rightarrow> byte" where "mul13 b = xtime (xtime (xtime b)) XOR xtime (xtime b) XOR b"
definition mul14 :: "byte \<Rightarrow> byte" where "mul14 b = xtime (xtime (xtime b)) XOR xtime (xtime b) XOR xtime b"

fun mixColumns :: "bytes \<Rightarrow> bytes" where
  "mixColumns (a # b # c # d # s) =
     [mul2 a XOR mul3 b XOR c XOR d, a XOR mul2 b XOR mul3 c XOR d,
      a XOR b XOR mul2 c XOR mul3 d, mul3 a XOR b XOR c XOR mul2 d] @ mixColumns s"
| "mixColumns s = []"

fun invMixColumns :: "bytes \<Rightarrow> bytes" where
  "invMixColumns (a # b # c # d # s) =
     [mul14 a XOR mul11 b XOR mul13 c XOR mul9 d, mul9 a XOR mul14 b XOR mul11 c XOR mul13 d,
      mul13 a XOR mul9 b XOR mul14 c XOR mul11 d, mul11 a XOR mul13 b XOR mul9 c XOR mul14 d] @ invMixColumns s"
| "invMixColumns s = []"

section \<open>Rounds\<close>

fun encryptRounds :: "bytes list \<Rightarrow> bytes \<Rightarrow> bytes" where
  "encryptRounds [] s = s"
| "encryptRounds [k] s = xor_bytes (shiftRows (map subByte s)) k"
| "encryptRounds (k # ks) s = encryptRounds ks (xor_bytes (mixColumns (shiftRows (map subByte s))) k)"

fun decryptRounds :: "bytes list \<Rightarrow> bytes \<Rightarrow> bytes" where
  "decryptRounds [] s = s"
| "decryptRounds [k] s = map invSubByte (invShiftRows (xor_bytes s k))"
| "decryptRounds (k # ks) s = map invSubByte (invShiftRows (invMixColumns (xor_bytes (decryptRounds ks s) k)))"

section \<open>The key schedule\<close>

definition subWord :: "bytes \<Rightarrow> bytes" where
  "subWord w = map subByte w"

definition nextWord :: "nat \<Rightarrow> bytes list \<Rightarrow> bytes" where
  "nextWord nk ws =
     (let i = length ws; temp = last ws;
          temp1 = (if i mod nk = 0 then xor_bytes (subWord (rotate1 temp)) [(xtime ^^ (i div nk - 1)) 1, 0, 0, 0]
                   else if nk > 6 \<and> i mod nk = 4 then subWord temp else temp)
      in xor_bytes (ws ! (i - nk)) temp1)"

fun expandWords :: "nat \<Rightarrow> nat \<Rightarrow> bytes list \<Rightarrow> bytes list" where
  "expandWords nk 0 ws = ws"
| "expandWords nk (Suc n) ws = expandWords nk n (ws @ [nextWord nk ws])"

text \<open>Round keys of a key of 16, 24 or 32 bytes.\<close>

definition expandKey :: "bytes \<Rightarrow> bytes list" where
  "expandKey key =
     (let nk = length key div 4; rounds = nk + 6
      in chunks 16 (rounds + 1) (concat (expandWords nk (4 * (rounds + 1) - nk) (chunks 4 nk key))))"

definition aesEncrypt :: "bytes \<Rightarrow> bytes \<Rightarrow> bytes" where
  "aesEncrypt key block = (let ks = expandKey key in encryptRounds (tl ks) (xor_bytes block (hd ks)))"

definition aesDecrypt :: "bytes \<Rightarrow> bytes \<Rightarrow> bytes" where
  "aesDecrypt key block = (let ks = expandKey key in xor_bytes (decryptRounds (tl ks) block) (hd ks))"

text \<open>\<^verbatim>\<open>aes.NewCipher\<close> refuses other lengths of the key.\<close>

definition aesKeySize :: "bytes \<Rightarrow> bool" where
  "aesKeySize key \<longleftrightarrow> length key = 16 \<or> length key = 24 \<or> length key = 32"

section \<open>Decryption inverts encryption\<close>

lemmas sbox_rows =
  arg_cong [OF sboxRows_def, of "\<lambda>rows. rows ! 0", simplified]
  arg_cong [OF sboxRows_def, of "\<lambda>rows. rows ! 1", simplified]
  arg_cong [OF sboxRows_def, of "\<lambda>rows. rows ! 2", simplified]
  arg_cong [OF sboxRows_def, of "\<lambda>rows. rows ! 3", simplified]
  arg_cong [OF sboxRows_def, of "\<lambda>rows. rows ! 4", simplified]
  arg_cong [OF sboxRows_def, of "\<lambda>rows. rows ! 5", simplified]
  arg_cong [OF sboxRows_def, of "\<lambda>rows. rows ! 6", simplified]
  arg_cong [OF sboxRows_def, of "\<lambda>rows. rows ! 7", simplified]
  arg_cong [OF sboxRows_def, of "\<lambda>rows. rows ! 8", simplified]
  arg_cong [OF sboxRows_def, of "\<lambda>rows. rows ! 9", simplified]
  arg_cong [OF sboxRows_def, of "\<lambda>rows. rows ! 10", simplified]
  arg_cong [OF sboxRows_def, of "\<lambda>rows. rows ! 11", simplified]
  arg_cong [OF sboxRows_def, of "\<lambda>rows. rows ! 12", simplified]
  arg_cong [OF sboxRows_def, of "\<lambda>rows. rows ! 13", simplified]
  arg_cong [OF sboxRows_def, of "\<lambda>rows. rows ! 14", simplified]
  arg_cong [OF sboxRows_def, of "\<lambda>rows. rows ! 15", simplified]

lemmas inv_sbox_rows =
  arg_cong [OF invSboxRows_def, of "\<lambda>rows. rows ! 0", simplified]
  arg_cong [OF invSboxRows_def, of "\<lambda>rows. rows ! 1", simplified]
  arg_cong [OF invSboxRows_def, of "\<lambda>rows. rows ! 2", simplified]
  arg_cong [OF invSboxRows_def, of "\<lambda>rows. rows ! 3", simplified]
  arg_cong [OF invSboxRows_def, of "\<lambda>rows. rows ! 4", simplified]
  arg_cong [OF invSboxRows_def, of "\<lambda>rows. rows ! 5", simplified]
  arg_cong [OF invSboxRows_def, of "\<lambda>rows. rows ! 6", simplified]
  arg_cong [OF invSboxRows_def, of "\<lambda>rows. rows ! 7", simplified]
  arg_cong [OF invSboxRows_def, of "\<lambda>rows. rows ! 8", simplified]
  arg_cong [OF invSboxRows_def, of "\<lambda>rows. rows ! 9", simplified]
  arg_cong [OF invSboxRows_def, of "\<lambda>rows. rows ! 10", simplified]
  arg_cong [OF invSboxRows_def, of "\<lambda>rows. rows ! 11", simplified]
  arg_cong [OF invSboxRows_def, of "\<lambda>rows. rows ! 12", simplified]
  arg_cong [OF invSboxRows_def, of "\<lambda>rows. rows ! 13", simplified]
  arg_cong [OF invSboxRows_def, of "\<lambda>rows. rows ! 14", simplified]
  arg_cong [OF invSboxRows_def, of "\<lambda>rows. rows ! 15", simplified]

lemma tables_inverse:
  assumes "n < 256"
  shows "table invSboxRows (table sboxRows n) = n" "table sboxRows n < 256"
proof -
  have "list_all (\<lambda>n. table sboxRows n < 256 \<and> table invSboxRows (table sboxRows n) = n) [0..<256]"
    by (simp add: upt_rec table_def sbox_rows inv_sbox_rows)
  then show "table invSboxRows (table sboxRows n) = n" "table sboxRows n < 256" using assms by (simp_all add: list_all_iff)
qed

lemma invSubByte_subByte [simp]: "invSubByte (subByte b) = b"
  using tables_inverse [OF unat_byte_less [of b]] by (simp add: subByte_def invSubByte_def)

lemma length_xor_bytes [simp]: "length (xor_bytes xs ys) = min (length xs) (length ys)"
  by (simp add: xor_bytes_def)

lemma xor_bytes_cancel [simp]: "length xs \<le> length ys \<Longrightarrow> xor_bytes (xor_bytes xs ys) ys = xs"
proof (induction xs arbitrary: ys)
  case (Cons x xs)
  then obtain y zs where "ys = y # zs" by (cases ys) auto
  with Cons show ?case by (simp add: xor_bytes_def xor.assoc)
qed (simp add: xor_bytes_def)

lemma length_shiftRows [simp]: "length (shiftRows s) = 16" "length (invShiftRows s) = 16"
  by (simp_all add: shiftRows_def invShiftRows_def)

lemma invShiftRows_shiftRows [simp]: "length s = 16 \<Longrightarrow> invShiftRows (shiftRows s) = s"
proof (rule nth_equalityI)
  fix i assume s: "length s = 16" and "i < length (invShiftRows (shiftRows s))"
  then have i: "i < 16" by simp
  have "\<forall>i \<in> set [0..<16]. ((i + 12 * (i mod 4)) mod 16 + 4 * ((i + 12 * (i mod 4)) mod 16 mod 4)) mod 16 = (i :: nat)"
    by (simp add: upt_rec)
  then have "((i + 12 * (i mod 4)) mod 16 + 4 * ((i + 12 * (i mod 4)) mod 16 mod 4)) mod 16 = i" using i by simp
  then show "invShiftRows (shiftRows s) ! i = s ! i" using i by (simp add: shiftRows_def invShiftRows_def)
qed simp

lemma xtime_xor: "xtime (a XOR b) = xtime a XOR xtime b"
  unfolding xtime_def by (simp add: push_bit_xor bit_xor_iff ac_simps)

lemmas mul_simps = mul2_def mul3_def mul9_def mul11_def mul13_def mul14_def xtime_xor

lemma invMixColumns_mixColumns: "length s mod 4 = 0 \<Longrightarrow> invMixColumns (mixColumns s) = s"
proof (induction s rule: mixColumns.induct)
  case (1 a b c d s)
  have "length s mod 4 = 0" using 1(2) by simp
  then have "invMixColumns (mixColumns s) = s" by (rule 1(1))
  moreover have "mul14 (mul2 a XOR mul3 b XOR c XOR d) XOR mul11 (a XOR mul2 b XOR mul3 c XOR d) XOR
      mul13 (a XOR b XOR mul2 c XOR mul3 d) XOR mul9 (mul3 a XOR b XOR c XOR mul2 d) = a"
    "mul9 (mul2 a XOR mul3 b XOR c XOR d) XOR mul14 (a XOR mul2 b XOR mul3 c XOR d) XOR
      mul11 (a XOR b XOR mul2 c XOR mul3 d) XOR mul13 (mul3 a XOR b XOR c XOR mul2 d) = b"
    "mul13 (mul2 a XOR mul3 b XOR c XOR d) XOR mul9 (a XOR mul2 b XOR mul3 c XOR d) XOR
      mul14 (a XOR b XOR mul2 c XOR mul3 d) XOR mul11 (mul3 a XOR b XOR c XOR mul2 d) = c"
    "mul11 (mul2 a XOR mul3 b XOR c XOR d) XOR mul13 (a XOR mul2 b XOR mul3 c XOR d) XOR
      mul9 (a XOR b XOR mul2 c XOR mul3 d) XOR mul14 (mul3 a XOR b XOR c XOR mul2 d) = d"
    by (simp_all add: mul_simps xor.left_commute xor.commute xor.assoc)
  ultimately show ?case by simp
qed auto

lemma length_mixColumns [simp]: "length s mod 4 = 0 \<Longrightarrow> length (mixColumns s) = length s"
  by (induction s rule: mixColumns.induct) auto

lemma length_encryptRounds: "(\<And>k. k \<in> set ks \<Longrightarrow> length k = 16) \<Longrightarrow> length s = 16 \<Longrightarrow> length (encryptRounds ks s) = 16"
  by (induction ks s rule: encryptRounds.induct) simp_all

lemma decryptRounds_encryptRounds:
  "(\<And>k. k \<in> set ks \<Longrightarrow> length k = 16) \<Longrightarrow> length s = 16 \<Longrightarrow> decryptRounds ks (encryptRounds ks s) = s"
proof (induction ks s rule: encryptRounds.induct)
  case (3 k k' ks s)
  let ?t = "mixColumns (shiftRows (map subByte s))"
  have "decryptRounds (k' # ks) (encryptRounds (k' # ks) (xor_bytes ?t k)) = xor_bytes ?t k"
    using 3 by (intro 3(1)) simp_all
  moreover have "length k = 16" using 3 by simp
  ultimately show ?case using 3(3) by (simp add: invMixColumns_mixColumns o_def)
qed (simp_all add: o_def)

lemma length_chunks: "length (chunks n k xs) = k"
  by (induction k arbitrary: xs) simp_all

lemma chunks_sizes: "k * n \<le> length xs \<Longrightarrow> x \<in> set (chunks n k xs) \<Longrightarrow> length x = n"
proof (induction k arbitrary: xs)
  case (Suc k)
  show ?case
  proof (cases "x = take n xs")
    case False
    then have "x \<in> set (chunks n k (drop n xs))" using Suc.prems by simp
    then show ?thesis using Suc.prems by (intro Suc.IH [of "drop n xs"]) simp_all
  qed (use Suc.prems in simp)
qed simp

lemma length_nextWord:
  assumes "\<And>w. w \<in> set ws \<Longrightarrow> length w = 4" and "0 < nk" and "nk \<le> length ws"
  shows "length (nextWord nk ws) = 4"
proof -
  have "ws \<noteq> []" using assms(2,3) by auto
  then have "length (last ws) = 4" "length (ws ! (length ws - nk)) = 4" using assms by auto
  then show ?thesis by (simp add: nextWord_def subWord_def Let_def)
qed

lemma expandWords_sizes:
  assumes "\<And>w. w \<in> set ws \<Longrightarrow> length w = 4" and "0 < nk" and "nk \<le> length ws"
  shows "length (expandWords nk n ws) = length ws + n \<and> (\<forall>w \<in> set (expandWords nk n ws). length w = 4)"
  using assms
proof (induction n arbitrary: ws)
  case (Suc n)
  have "length (expandWords nk n (ws @ [nextWord nk ws])) = length (ws @ [nextWord nk ws]) + n \<and>
    (\<forall>w \<in> set (expandWords nk n (ws @ [nextWord nk ws])). length w = 4)"
    using Suc.prems length_nextWord [OF Suc.prems] by (intro Suc.IH) auto
  then show ?case by simp
qed simp

lemma length_concat_const: "(\<forall>w \<in> set ws. length w = n) \<Longrightarrow> length (concat ws) = length ws * n"
  by (induction ws) simp_all

lemma expandKey_sizes:
  assumes "aesKeySize key"
  shows "expandKey key \<noteq> []" "k \<in> set (expandKey key) \<Longrightarrow> length k = 16"
proof -
  let ?nk = "length key div 4" let ?r = "?nk + 6 + 1"
  let ?ws = "expandWords ?nk (4 * ?r - ?nk) (chunks 4 ?nk key)"
  have e: "expandKey key = chunks 16 ?r (concat ?ws)" unfolding expandKey_def Let_def by (rule refl)
  have "0 < ?nk" using assms by (auto simp: aesKeySize_def)
  moreover have "length w = 4" if "w \<in> set (chunks 4 ?nk key)" for w using chunks_sizes [OF _ that] by simp
  ultimately have ws: "length ?ws = ?nk + (4 * ?r - ?nk)" "\<forall>w \<in> set ?ws. length w = 4"
    using expandWords_sizes [of "chunks 4 ?nk key" ?nk "4 * ?r - ?nk"] unfolding length_chunks by blast+
  have "length ?ws = 4 * ?r" using ws(1) by simp
  with length_concat_const [OF ws(2)] have "?r * 16 \<le> length (concat ?ws)" by simp
  then show "k \<in> set (expandKey key) \<Longrightarrow> length k = 16" unfolding e by (rule chunks_sizes)
  show "expandKey key \<noteq> []" unfolding e using length_chunks [of 16 ?r "concat ?ws"] by fastforce
qed

lemma aesDecrypt_aesEncrypt:
  assumes "aesKeySize key" and "length block = 16"
  shows "aesDecrypt key (aesEncrypt key block) = block" "length (aesEncrypt key block) = 16"
proof -
  obtain k ks where ks: "expandKey key = k # ks" using expandKey_sizes(1) [OF assms(1)] by (cases "expandKey key") auto
  with expandKey_sizes(2) [OF assms(1)] have "length k = 16" "\<And>k. k \<in> set ks \<Longrightarrow> length k = 16" by simp_all
  then show "aesDecrypt key (aesEncrypt key block) = block" "length (aesEncrypt key block) = 16"
    using assms(2) ks decryptRounds_encryptRounds [of ks "xor_bytes block k"] length_encryptRounds [of ks "xor_bytes block k"]
    by (simp_all add: aesDecrypt_def aesEncrypt_def)
qed

section \<open>Cipher block chaining\<close>

text \<open>\<^verbatim>\<open>CryptBlocks\<close> over the full blocks of its input; the library panics on a partial block.\<close>

function cbcEncrypt :: "(bytes \<Rightarrow> bytes) \<Rightarrow> bytes \<Rightarrow> bytes \<Rightarrow> bytes" where
  "cbcEncrypt enc iv bs =
     (if length bs < 16 then [] else let c = enc (xor_bytes (take 16 bs) iv) in c @ cbcEncrypt enc c (drop 16 bs))"
  by auto
termination by (relation "measure (\<lambda>(enc, iv, bs). length bs)") auto

function cbcDecrypt :: "(bytes \<Rightarrow> bytes) \<Rightarrow> bytes \<Rightarrow> bytes \<Rightarrow> bytes" where
  "cbcDecrypt dec iv bs =
     (if length bs < 16 then [] else xor_bytes (dec (take 16 bs)) iv @ cbcDecrypt dec (take 16 bs) (drop 16 bs))"
  by auto
termination by (relation "measure (\<lambda>(dec, iv, bs). length bs)") auto

declare cbcEncrypt.simps [simp del] cbcDecrypt.simps [simp del]

locale block_cipher =
  fixes enc dec :: "'k \<Rightarrow> bytes \<Rightarrow> bytes" and accepted :: "'k \<Rightarrow> bool"
  assumes dec_enc: "accepted key \<Longrightarrow> length block = 16 \<Longrightarrow> dec key (enc key block) = block"
    and length_enc: "accepted key \<Longrightarrow> length block = 16 \<Longrightarrow> length (enc key block) = 16"
begin

lemma length_cbc: "accepted key \<Longrightarrow> length iv = 16 \<Longrightarrow> length (cbcEncrypt (enc key) iv bs) = length bs div 16 * 16"
proof (induction bs arbitrary: iv rule: measure_induct_rule [of length])
  case (less bs)
  show ?case
  proof (cases "length bs < 16")
    case False
    then have n: "length bs div 16 = Suc ((length bs - 16) div 16)" by (simp add: le_div_geq)
    let ?c = "enc key (xor_bytes (take 16 bs) iv)"
    have c: "length ?c = 16" using False less.prems by (simp add: length_enc)
    have "length (cbcEncrypt (enc key) ?c (drop 16 bs)) = length (drop 16 bs) div 16 * 16" using False less.prems by (intro less.IH c) simp_all
    with c False n show ?thesis by (subst cbcEncrypt.simps) (simp add: Let_def)
  qed (simp add: cbcEncrypt.simps)
qed

lemma cbc_round_trip: "accepted key \<Longrightarrow> length iv = 16 \<Longrightarrow> length bs mod 16 = 0 \<Longrightarrow> cbcDecrypt (dec key) iv (cbcEncrypt (enc key) iv bs) = bs"
proof (induction bs arbitrary: iv rule: measure_induct_rule [of length])
  case (less bs)
  show ?case
  proof (cases "length bs < 16")
    case True
    then show ?thesis using less.prems by (simp add: cbcEncrypt.simps cbcDecrypt.simps)
  next
    case False
    let ?c = "enc key (xor_bytes (take 16 bs) iv)"
    have c: "length ?c = 16" "dec key ?c = xor_bytes (take 16 bs) iv" using False less.prems by (simp_all add: length_enc dec_enc)
    have "cbcDecrypt (dec key) ?c (cbcEncrypt (enc key) ?c (drop 16 bs)) = drop 16 bs"
      using False less.prems by (intro less.IH c) (simp_all add: le_mod_geq)
    with c False less.prems show ?thesis
      by (subst cbcEncrypt.simps) (simp add: Let_def cbcDecrypt.simps [of "dec key" iv])
  qed
qed

end

text \<open>AES is a block cipher under every key that \<^verbatim>\<open>NewCipher\<close> accepts.\<close>

interpretation aes: block_cipher aesEncrypt aesDecrypt aesKeySize
  by unfold_locales (rule aesDecrypt_aesEncrypt; assumption)+

section \<open>Padding\<close>

text \<open>The padding that both \<^verbatim>\<open>EncryptAccountSecret\<close> and the stream creator write out: as many bytes as are missing to the
  next full block, at least one, each holding their number.\<close>

definition padded :: "bytes \<Rightarrow> bytes" where
  "padded plaintext =
     (let paddingLength = 16 - length plaintext mod 16 in plaintext @ replicate paddingLength (of_nat paddingLength))"

lemma full_blocks: "(n + (16 - n mod 16)) mod 16 = 0" for n :: nat
  by presburger

lemma padded_facts:
  fixes bs :: bytes
  defines "p \<equiv> 16 - length bs mod 16"
  shows "padded bs = bs @ replicate p (of_nat p)" "1 \<le> p" "p \<le> 16" "length (padded bs) = length bs + p"
    "length (padded bs) mod 16 = 0" "padded bs \<noteq> []" "unat (last (padded bs)) = p"
proof -
  show e: "padded bs = bs @ replicate p (of_nat p)" by (simp add: padded_def p_def Let_def)
  show p: "1 \<le> p" "p \<le> 16" by (simp_all add: p_def)
  show l: "length (padded bs) = length bs + p" by (simp add: e)
  show "length (padded bs) mod 16 = 0" unfolding l p_def by (rule full_blocks)
  show "padded bs \<noteq> []" using l p by auto
  have "last (padded bs) = of_nat p" unfolding e using p by (simp add: last_append last_replicate)
  then show "unat (last (padded bs)) = p" using p by simp
qed

end
