(* ===== verification/Utf8.thy ===== *)
theory Utf8
  imports Prelude
begin

text \<open>
  UTF-8 as \<^verbatim>\<open>unicode/utf8\<close> of Go's standard library reads it: encodings of one to four bytes, without overlong
  forms, surrogates and values above the last code point.
\<close>

text \<open>For a leading byte the length of the encoding and the range of the second byte.\<close>

definition leading :: "byte \<Rightarrow> (nat \<times> nat \<times> nat) option" where
  "leading b =
     (let v = unat b
      in if 0xC2 \<le> v \<and> v \<le> 0xDF then Some (2, 0x80, 0xBF)
         else if v = 0xE0 then Some (3, 0xA0, 0xBF)
         else if v = 0xED then Some (3, 0x80, 0x9F)
         else if 0xE1 \<le> v \<and> v \<le> 0xEF then Some (3, 0x80, 0xBF)
         else if v = 0xF0 then Some (4, 0x90, 0xBF)
         else if 0xF1 \<le> v \<and> v \<le> 0xF3 then Some (4, 0x80, 0xBF)
         else if v = 0xF4 then Some (4, 0x80, 0x8F)
         else None)"

definition continuation :: "byte \<Rightarrow> bool" where
  "continuation b \<longleftrightarrow> 0x80 \<le> unat b \<and> unat b \<le> 0xBF"

text \<open>The number of bytes of the encoding at the front, if there is one.\<close>

definition encoded_size :: "bytes \<Rightarrow> nat option" where
  "encoded_size bs =
     (case bs of
        [] \<Rightarrow> None
      | b # cs \<Rightarrow>
          if unat b < 0x80 then Some 1
          else (case leading b of
                  None \<Rightarrow> None
                | Some (n, lo, hi) \<Rightarrow>
                    if n - 1 \<le> length cs \<and> lo \<le> unat (hd cs) \<and> unat (hd cs) \<le> hi \<and> list_all continuation (take (n - 2) (tl cs))
                    then Some n else None))"

lemma encoded_size_bounds: "encoded_size bs = Some n \<Longrightarrow> 1 \<le> n \<and> n \<le> 4 \<and> n \<le> length bs"
  by (auto simp: encoded_size_def leading_def Let_def split: list.splits if_splits)

text \<open>\<^verbatim>\<open>utf8.Valid\<close>.\<close>

function utf8_valid :: "bytes \<Rightarrow> bool" where
  "utf8_valid bs = (if bs = [] then True else case encoded_size bs of None \<Rightarrow> False | Some n \<Rightarrow> utf8_valid (drop n bs))"
  by auto
termination
proof (relation "measure length")
  fix bs :: bytes and n assume "bs \<noteq> []" "encoded_size bs = Some n"
  then show "(drop n bs, bs) \<in> measure length" using encoded_size_bounds [of bs n] by (cases bs) auto
qed simp

declare utf8_valid.simps [simp del]

lemma utf8_valid_ascii: "(\<And>b. b \<in> set bs \<Longrightarrow> unat b < 0x80) \<Longrightarrow> utf8_valid bs"
proof (induction bs)
  case (Cons b bs)
  then have "encoded_size (b # bs) = Some 1" by (simp add: encoded_size_def)
  then show ?case using Cons by (subst utf8_valid.simps) simp
qed (simp add: utf8_valid.simps)

end
