(* ===== verification/AccountCrypt.thy ===== *)
theory AccountCrypt
  imports Base58 Base64 Aes Utf8
begin

text \<open>
  The encryption of account secrets, \<^verbatim>\<open>wallet/crypt.go\<close>: AES in CBC mode under the doubly hashed password, a
  random vector in front, and Base64 around. Texts are the bytes of Go strings.
\<close>

unbundle bit_operations_syntax

section \<open>Account secrets\<close>

datatype crypt_error = ErrInvalidAccountPassword | ErrInvalidAccountIV nat | NotUtf8 | RandomFailed | CipherText base64_error | KeySizeError

text \<open>The result of reading 16 random bytes is an argument, used when no vector is given.\<close>

definition EncryptAccountSecret :: "bytes option \<Rightarrow> bytes \<Rightarrow> bytes \<Rightarrow> bytes option \<Rightarrow> crypt_error + string" where
  "EncryptAccountSecret generated password value initializationVector =
     and_then (case initializationVector of
                 Some iv \<Rightarrow> Inr iv
               | None \<Rightarrow> (case generated of None \<Rightarrow> Inl RandomFailed | Some iv \<Rightarrow> Inr iv)) (\<lambda>iv.
       if length iv \<noteq> 16 then Inl (ErrInvalidAccountIV (length iv))
       else if \<not> utf8_valid password \<or> \<not> utf8_valid value then Inl NotUtf8
       else
         let key = doubleSHA256 password
         in if \<not> aesKeySize key then Inl KeySizeError
            else Inr (StdEncoding (iv @ cbcEncrypt (aesEncrypt key) iv (padded value))))"

definition unpadAccountSecret :: "bytes \<Rightarrow> crypt_error + bytes" where
  "unpadAccountSecret value =
     (if value = [] then Inl ErrInvalidAccountPassword
      else
        let paddingLength = unat (last value)
        in if paddingLength < 1 \<or> paddingLength > 16 \<or> paddingLength > length value then Inl ErrInvalidAccountPassword
           else if \<not> list_all (\<lambda>b. b = of_nat paddingLength) (drop (length value - paddingLength) value) then Inl ErrInvalidAccountPassword
           else Inr (take (length value - paddingLength) value))"

text \<open>The text, the vector when it was read, and the error.\<close>

definition DecryptAccountSecret :: "bytes \<Rightarrow> string \<Rightarrow> bytes \<times> bytes option \<times> crypt_error option" where
  "DecryptAccountSecret password encoded =
     (if \<not> utf8_valid password \<or> \<not> utf8_valid (str encoded) then ([], None, Some NotUtf8)
      else
        case decodePythonBase64 encoded of
          Inl e \<Rightarrow> ([], None, Some (CipherText e))
        | Inr d \<Rightarrow>
            if length d < 16 then ([], None, Some (ErrInvalidAccountIV (length d)))
            else
              let initializationVector = take 16 d;
                  ciphertext = take ((length d - 16) div 16 * 16) (drop 16 d);
                  key = doubleSHA256 password
              in if \<not> aesKeySize key then ([], Some initializationVector, Some KeySizeError)
                 else
                   case unpadAccountSecret (cbcDecrypt (aesDecrypt key) initializationVector ciphertext) of
                     Inl e \<Rightarrow> ([], Some initializationVector, Some e)
                   | Inr plaintext \<Rightarrow>
                       if \<not> utf8_valid plaintext then ([], Some initializationVector, Some ErrInvalidAccountPassword)
                       else (plaintext, Some initializationVector, None))"

lemma unpadAccountSecret_padded: "unpadAccountSecret (padded value) = Inr value"
proof -
  obtain p where p: "padded value = value @ replicate p (of_nat p)" "1 \<le> p" "p \<le> 16" using padded_facts(1-3) by blast
  then have "last (value @ replicate p (of_nat p)) = (of_nat p :: byte)" "unat (of_nat p :: byte) = p" by (simp_all add: last_append last_replicate)
  then show ?thesis using p by (simp add: unpadAccountSecret_def Let_def list_all_iff)
qed

lemma StdEncoding_ascii: "c \<in> set (StdEncoding bs) \<Longrightarrow> c = CHR ''='' \<or> c \<in> set base64Alphabet"
proof -
  have n: "length base64Alphabet = 64" by (simp add: base64Alphabet_def)
  show "c \<in> set (StdEncoding bs) \<Longrightarrow> ?thesis"
    by (induction bs rule: StdEncoding.induct) (auto simp: n intro!: nth_mem digit_bounds)
qed

lemma utf8_valid_StdEncoding: "utf8_valid (str (StdEncoding bs))"
proof (rule utf8_valid_ascii)
  fix b assume "b \<in> set (str (StdEncoding bs))"
  then obtain c where c: "c \<in> set (StdEncoding bs)" "b = of_char c" by (auto simp: str_def)
  have "list_all (\<lambda>c. unat (of_char c :: byte) < 128) (CHR ''='' # base64Alphabet)" by (simp add: base64Alphabet_def)
  then show "unat b < 128" using StdEncoding_ascii [OF c(1)] c(2) by (auto simp: list_all_iff)
qed

text \<open>
  C38. Account secrets. A text encrypted under a password is read back with it, and the vector with the text; the
  encryption fails only for texts that are not UTF-8, for vectors of a wrong length and when there is no
  randomness.
\<close>

theorem DecryptAccountSecret_EncryptAccountSecret:
  "(case EncryptAccountSecret generated password secret initializationVector of
      Inr encoded \<Rightarrow>
        (\<exists>iv. length iv = 16 \<and> (initializationVector = Some iv \<or> initializationVector = None \<and> generated = Some iv) \<and>
           DecryptAccountSecret password encoded = (secret, Some iv, None))
    | Inl e \<Rightarrow> e = NotUtf8 \<and> \<not> (utf8_valid password \<and> utf8_valid secret) \<or>
        e = RandomFailed \<and> initializationVector = None \<and> generated = None \<or> (\<exists>n. e = ErrInvalidAccountIV n \<and> n \<noteq> 16))"
proof -
  have "length (doubleSHA256 password) = 32" by (simp add: doubleSHA256_def)
  then have key: "aesKeySize (doubleSHA256 password)" by (simp add: aesKeySize_def)
  let ?e = "cbcEncrypt (aesEncrypt (doubleSHA256 password))" let ?d = "cbcDecrypt (aesDecrypt (doubleSHA256 password))"
  have "DecryptAccountSecret password (StdEncoding (iv @ ?e iv (padded secret))) = (secret, Some iv, None)"
    if iv: "length iv = 16" and v: "utf8_valid password" "utf8_valid secret" for iv
  proof -
    note p = padded_facts(5) [of secret]
    have len: "length (?e iv (padded secret)) = length (padded secret)" using aes.length_cbc [OF key iv, of "padded secret"] p by auto
    have "?d iv (?e iv (padded secret)) = padded secret" using key iv p by (rule aes.cbc_round_trip)
    moreover have "decodePythonBase64 (StdEncoding bs) = Inr bs" for bs
      using decode_encode_loop [of 0 0 "[]" bs] by (simp add: decodePythonBase64_def)
    moreover have "length (padded secret) div 16 * 16 = length (padded secret)" using p by auto
    ultimately show ?thesis using iv v key len by (simp add: DecryptAccountSecret_def utf8_valid_StdEncoding unpadAccountSecret_padded Let_def)
  qed
  then show ?thesis using key
    by (auto simp: EncryptAccountSecret_def Let_def split: option.splits)
qed

theorem DecryptAccountSecret_EncryptAccountSecret_witness:
  "\<exists>encoded. EncryptAccountSecret None [112, 119] [115, 101, 101, 100] (Some (replicate 16 7)) = Inr encoded \<and>
     DecryptAccountSecret [112, 119] encoded = ([115, 101, 101, 100], Some (replicate 16 7), None)"
proof -
  have u: "utf8_valid [112, 119]" "utf8_valid [115, 101, 101, 100]" by (auto intro!: utf8_valid_ascii)
  obtain r where r: "EncryptAccountSecret None [112, 119] [115, 101, 101, 100] (Some (replicate 16 7)) = r" by blast
  show ?thesis
  proof (cases r)
    case (Inl e)
    then show ?thesis using DecryptAccountSecret_EncryptAccountSecret [where generated = None and password = "[112, 119]"
        and secret = "[115, 101, 101, 100]" and initializationVector = "Some (replicate 16 7)"] r u
      by (auto simp: EncryptAccountSecret_def Let_def aesKeySize_def doubleSHA256_def)
  next
    case (Inr encoded)
    then show ?thesis using DecryptAccountSecret_EncryptAccountSecret [where generated = None and password = "[112, 119]"
        and secret = "[115, 101, 101, 100]" and initializationVector = "Some (replicate 16 7)"] r by auto
  qed
qed

end
