(* ===== verification/SyncCrypt.thy ===== *)
theory SyncCrypt
  imports AccountCrypt Decimal
begin

text \<open>
  The encryption of synchronised wallets, \<^verbatim>\<open>wallet/sync_crypto.go\<close>: AES under a key that \<^verbatim>\<open>scrypt\<close> derives from the
  password, in an envelope that names the parameters of the derivation. \<^verbatim>\<open>scrypt\<close> is a third-party package and a
  parameter: a function of the password, the salt, the three numbers and the length of the key.
\<close>

type_synonym scrypt = "bytes \<Rightarrow> bytes \<Rightarrow> int \<Rightarrow> int \<Rightarrow> int \<Rightarrow> nat \<Rightarrow> string + bytes"

datatype sync_error = PasswordNotUtf8 | NoEntropy | DeriveFailed string | SyncKeySize | ErrInvalidWalletPassword
  | EnvelopeBase64 base64_error | EnvelopeFields nat | EnvelopeInteger bytes | EnvelopeIV nat | EnvelopeDerive string

section \<open>Integers as Python reads them\<close>

definition python_space :: "byte \<Rightarrow> bool" where
  "python_space b \<longleftrightarrow> b \<in> {0x20, 0x09, 0x0A, 0x0B, 0x0C, 0x0D}"

definition Trim :: "bytes \<Rightarrow> bytes" where
  "Trim s = rev (dropWhile python_space (rev (dropWhile python_space s)))"

text \<open>Digits, with single underscores between them.\<close>

definition literal_at :: "bytes \<Rightarrow> nat \<Rightarrow> nat \<Rightarrow> bool" where
  "literal_at s digitStart i \<longleftrightarrow> is_digit (s ! i) \<or>
     s ! i = 0x5F \<and> i > digitStart \<and> i + 1 < length s \<and> is_digit (s ! (i - 1)) \<and> is_digit (s ! (i + 1))"

definition pythonBytesDecimalInteger :: "bytes \<Rightarrow> int option" where
  "pythonBytesDecimalInteger given =
     (let s = Trim given
      in if s = [] then None
         else
           let digitStart = (if s ! 0 = 0x2B \<or> s ! 0 = 0x2D then 1 else 0)
           in if digitStart = length s \<or> \<not> list_all (literal_at s digitStart) [digitStart..<length s] then None
              else
                let magnitude = map_option int (ParseUint (filter (\<lambda>b. b \<noteq> 0x5F) (drop digitStart s)))
                in if s ! 0 = 0x2D then map_option uminus magnitude else magnitude)"

definition walletSyncScryptInteger :: "bytes \<Rightarrow> sync_error + int" where
  "walletSyncScryptInteger s =
     (case pythonBytesDecimalInteger s of
        None \<Rightarrow> Inl (EnvelopeInteger s)
      | Some n \<Rightarrow> if \<not> is_int64 n then Inl (EnvelopeInteger s) else Inr n)"

section \<open>The envelope\<close>

definition betterAESEncrypt :: "scrypt \<Rightarrow> bytes option \<Rightarrow> bytes \<Rightarrow> bytes \<Rightarrow> sync_error + string" where
  "betterAESEncrypt scrypt_Key entropy password secret =
     (if \<not> utf8_valid password then Inl PasswordNotUtf8
      else
        case entropy of
          None \<Rightarrow> Inl NoEntropy
        | Some random \<Rightarrow>
            if length random < 16 then Inl NoEntropy
            else
              let initializationVector = take 16 random
              in case scrypt_Key password initializationVector 8192 16 1 32 of
                   Inl e \<Rightarrow> Inl (DeriveFailed e)
                 | Inr key \<Rightarrow>
                     if \<not> aesKeySize key then Inl SyncKeySize
                     else Inr (StdEncoding (str ''s:8192:16:1:'' @ initializationVector @
                            cbcEncrypt (aesEncrypt key) initializationVector (padded secret))))"

text \<open>\<^verbatim>\<open>strings.SplitN\<close> at a byte.\<close>

fun SplitN :: "bytes \<Rightarrow> byte \<Rightarrow> nat \<Rightarrow> bytes list" where
  "SplitN s sep 0 = []"
| "SplitN s sep (Suc 0) = [s]"
| "SplitN s sep (Suc (Suc n)) = (if sep \<in> set s then before_byte sep s # SplitN (after_byte sep s) sep (Suc n) else [s])"

definition unpadWalletSyncValue :: "bytes \<Rightarrow> sync_error + bytes" where
  "unpadWalletSyncValue d =
     (if d = [] then Inl ErrInvalidWalletPassword
      else
        let paddingLength = unat (last d)
        in if paddingLength < 1 \<or> paddingLength > 16 \<or> paddingLength > length d then Inl ErrInvalidWalletPassword
           else if \<not> list_all (\<lambda>b. b = of_nat paddingLength) (drop (length d - paddingLength) d) then Inl ErrInvalidWalletPassword
           else Inr (take (length d - paddingLength) d))"

definition decrypt_payload :: "scrypt \<Rightarrow> bytes \<Rightarrow> int \<Rightarrow> int \<Rightarrow> int \<Rightarrow> bytes \<Rightarrow> sync_error + bytes" where
  "decrypt_payload scrypt_Key password n r p payload =
     (if length payload < 16 then Inl (EnvelopeIV (length payload))
      else
        let initializationVector = take 16 payload; ciphertext = drop 16 payload
        in case scrypt_Key password initializationVector n r p 32 of
             Inl e \<Rightarrow> Inl (EnvelopeDerive e)
           | Inr key \<Rightarrow>
               if \<not> aesKeySize key then Inl SyncKeySize
               else unpadWalletSyncValue (cbcDecrypt (aesDecrypt key) initializationVector (take (length ciphertext div 16 * 16) ciphertext)))"

definition BetterAESDecrypt :: "scrypt \<Rightarrow> bytes \<Rightarrow> string \<Rightarrow> sync_error + bytes" where
  "BetterAESDecrypt scrypt_Key password encoded =
     (if \<not> utf8_valid password then Inl PasswordNotUtf8
      else
        case decodePythonBase64 encoded of
          Inl e \<Rightarrow> Inl (EnvelopeBase64 e)
        | Inr decoded \<Rightarrow>
            let fields = SplitN decoded 0x3A 5
            in if length fields \<noteq> 5 then Inl (EnvelopeFields (length fields))
               else
                 and_then (walletSyncScryptInteger (fields ! 1)) (\<lambda>n.
                 and_then (walletSyncScryptInteger (fields ! 2)) (\<lambda>r.
                 and_then (walletSyncScryptInteger (fields ! 3)) (\<lambda>p.
                   decrypt_payload scrypt_Key password n r p (fields ! 4)))))"

section \<open>Round trip\<close>

lemma unpadWalletSyncValue_padded: "unpadWalletSyncValue (padded d) = Inr d"
proof -
  obtain p where p: "padded d = d @ replicate p (of_nat p)" "1 \<le> p" "p \<le> 16" using padded_facts(1-3) by blast
  then have "last (d @ replicate p (of_nat p)) = (of_nat p :: byte)" "unat (of_nat p :: byte) = p" by (simp_all add: last_append last_replicate)
  then show ?thesis using p by (simp add: unpadWalletSyncValue_def Let_def list_all_iff)
qed

text \<open>A field of an envelope, with white space around its number and underscores between digits.\<close>

lemma scrypt_numbers:
  "walletSyncScryptInteger (str ''8192'') = Inr 8192" "walletSyncScryptInteger (str ''16'') = Inr 16" "walletSyncScryptInteger (str ''1'') = Inr 1"
  by code_simp+

lemma SplitN_header: "SplitN (str ''s:8192:16:1:'' @ payload) 0x3A 5 = [str ''s'', str ''8192'', str ''16'', str ''1'', payload]"
proof -
  have five: "5 = Suc (Suc (Suc (Suc (Suc 0))))" by simp
  show ?thesis unfolding five by (simp add: str_def before_byte_def after_byte_def)
qed

lemma filter_StdEncoding: "filter significant (StdEncoding bs) = StdEncoding bs"
proof (rule filter_True, rule ballI)
  fix c assume "c \<in> set (StdEncoding bs)"
  then have "c = CHR ''='' \<or> c \<in> set base64Alphabet" by (rule StdEncoding_ascii)
  then show "significant c"
  proof
    assume "c \<in> set base64Alphabet"
    moreover have "length base64Alphabet = 64" by (simp add: base64Alphabet_def)
    ultimately obtain n where "n < 64" "c = base64Alphabet ! n" unfolding in_set_conv_nth by metis
    with digit_of_alphabet [of n] show ?thesis by (simp add: significant_def)
  qed (simp add: significant_def)
qed

lemma decrypt_payload_encrypted:
  assumes "scrypt_Key password iv n r p 32 = Inr key" and "aesKeySize key" and "length iv = 16"
  shows "decrypt_payload scrypt_Key password n r p (iv @ cbcEncrypt (aesEncrypt key) iv (padded secret)) = Inr secret"
proof -
  note m = padded_facts(5) [of secret]
  have "length (cbcEncrypt (aesEncrypt key) iv (padded secret)) = length (padded secret)" using aes.length_cbc [OF assms(2,3), of "padded secret"] m by auto
  moreover have "length (padded secret) div 16 * 16 = length (padded secret)" using m by auto
  ultimately show ?thesis using assms aes.cbc_round_trip [OF assms(2,3) m] by (simp add: decrypt_payload_def unpadWalletSyncValue_padded Let_def)
qed

text \<open>
  C39. Wallet synchronisation. With a \<^verbatim>\<open>scrypt\<close> that gives keys of the length it is asked for, encryption of any value
  succeeds for a password in UTF-8 and 16 random bytes, and decryption with the same password gives the value, also
  when characters outside the Base64 alphabet are strewn into the text.
\<close>

theorem BetterAESDecrypt_betterAESEncrypt:
  assumes key: "scrypt_Key password (take 16 random) 8192 16 1 32 = Inr key" "length key = 32" and "utf8_valid password" and "16 \<le> length random"
  shows "\<exists>encoded. betterAESEncrypt scrypt_Key (Some random) password secret = Inr encoded \<and>
    (\<forall>received. filter significant received = encoded \<longrightarrow> BetterAESDecrypt scrypt_Key password received = Inr secret)"
proof -
  have size: "aesKeySize key" using key(2) by (simp add: aesKeySize_def)
  let ?iv = "take 16 random" let ?envelope = "str ''s:8192:16:1:'' @ ?iv @ cbcEncrypt (aesEncrypt key) ?iv (padded secret)"
  have "betterAESEncrypt scrypt_Key (Some random) password secret = Inr (StdEncoding ?envelope)"
    using assms(3,4) key(1) size by (simp add: betterAESEncrypt_def Let_def)
  moreover have "BetterAESDecrypt scrypt_Key password received = Inr secret" if "filter significant received = StdEncoding ?envelope" for received
  proof -
    have "decrypt_payload scrypt_Key password 8192 16 1 (?iv @ cbcEncrypt (aesEncrypt key) ?iv (padded secret)) = Inr secret"
      using key(1) size assms(4) by (intro decrypt_payload_encrypted) simp_all
    then show ?thesis using assms(3) decodePythonBase64_StdEncoding [OF that]
      by (simp add: BetterAESDecrypt_def SplitN_header scrypt_numbers Let_def)
  qed
  ultimately show ?thesis by blast
qed

theorem BetterAESDecrypt_betterAESEncrypt_witness:
  "\<exists>encoded. betterAESEncrypt (\<lambda>password salt n r p size. Inr (replicate size 5)) (Some (replicate 16 7)) [112, 119] [1, 2, 3] = Inr encoded \<and>
     BetterAESDecrypt (\<lambda>password salt n r p size. Inr (replicate size 5)) [112, 119] encoded = Inr [1, 2, 3]"
proof -
  let ?key = "\<lambda>password salt n r p size. Inr (replicate size 5) :: string + bytes"
  have "utf8_valid [112, 119]" by (auto intro!: utf8_valid_ascii)
  moreover have "?key [112, 119] (take 16 (replicate 16 7)) 8192 16 1 32 = Inr (replicate 32 5)" "length (replicate 32 (5 :: byte)) = 32" by simp_all
  moreover have "16 \<le> length (replicate 16 (7 :: byte))" by simp
  ultimately obtain encoded where e: "betterAESEncrypt ?key (Some (replicate 16 7)) [112, 119] [1, 2, 3] = Inr encoded"
    "\<And>received. filter significant received = encoded \<Longrightarrow> BetterAESDecrypt ?key [112, 119] received = Inr [1, 2, 3]"
    using BetterAESDecrypt_betterAESEncrypt [where scrypt_Key = ?key and password = "[112, 119]" and random = "replicate 16 7" and secret = "[1, 2, 3]" and key = "replicate 32 5"] by blast
  have "filter significant encoded = encoded" using e(1) by (auto simp: betterAESEncrypt_def Let_def filter_StdEncoding split: if_splits)
  with e show ?thesis by blast
qed

end
