(* ===== verification/Mnemonic.thy ===== *)
theory Mnemonic
  imports Radix Sha2 HexText
begin

text \<open>
  Seeds as words, \<^verbatim>\<open>wallet/mnemonic/mnemonic.go\<close>, with the list of \<^verbatim>\<open>wallet/mnemonic/english.txt\<close>: a number is written with
  the words as digits, the lowest first. Texts are the bytes of Go strings. \<^verbatim>\<open>NormalizeText\<close>, which rests on the tables
  of a third-party package, the derivation of keys and the draw of a random number are parameters; loops that
  may not end are partial functions.
\<close>

section \<open>The words\<close>

definition words_a :: "string list" where
  "words_a =
   [''abandon'', ''ability'', ''able'', ''about'', ''above'', ''absent'', ''absorb'', ''abstract'', ''absurd'', ''abuse'', ''access'', ''accident'',
    ''account'', ''accuse'', ''achieve'', ''acid'', ''acoustic'', ''acquire'', ''across'', ''act'', ''action'', ''actor'', ''actress'', ''actual'',
    ''adapt'', ''add'', ''addict'', ''address'', ''adjust'', ''admit'', ''adult'', ''advance'', ''advice'', ''aerobic'', ''affair'', ''afford'',
    ''afraid'', ''again'', ''age'', ''agent'', ''agree'', ''ahead'', ''aim'', ''air'', ''airport'', ''aisle'', ''alarm'', ''album'', ''alcohol'',
    ''alert'', ''alien'', ''all'', ''alley'', ''allow'', ''almost'', ''alone'', ''alpha'', ''already'', ''also'', ''alter'', ''always'', ''amateur'',
    ''amazing'', ''among'', ''amount'', ''amused'', ''analyst'', ''anchor'', ''ancient'', ''anger'', ''angle'', ''angry'', ''animal'', ''ankle'',
    ''announce'', ''annual'', ''another'', ''answer'', ''antenna'', ''antique'', ''anxiety'', ''any'', ''apart'', ''apology'', ''appear'', ''apple'',
    ''approve'', ''april'', ''arch'', ''arctic'', ''area'', ''arena'', ''argue'', ''arm'', ''armed'', ''armor'', ''army'', ''around'', ''arrange'',
    ''arrest'', ''arrive'', ''arrow'', ''art'', ''artefact'', ''artist'', ''artwork'', ''ask'', ''aspect'', ''assault'', ''asset'', ''assist'',
    ''assume'', ''asthma'', ''athlete'', ''atom'', ''attack'', ''attend'', ''attitude'', ''attract'', ''auction'', ''audit'', ''august'', ''aunt'',
    ''author'', ''auto'', ''autumn'', ''average'', ''avocado'', ''avoid'', ''awake'', ''aware'', ''away'', ''awesome'', ''awful'', ''awkward'',
    ''axis'']"

definition words_b :: "string list" where
  "words_b =
   [''baby'', ''bachelor'', ''bacon'', ''badge'', ''bag'', ''balance'', ''balcony'', ''ball'', ''bamboo'', ''banana'', ''banner'', ''bar'',
    ''barely'', ''bargain'', ''barrel'', ''base'', ''basic'', ''basket'', ''battle'', ''beach'', ''bean'', ''beauty'', ''because'', ''become'',
    ''beef'', ''before'', ''begin'', ''behave'', ''behind'', ''believe'', ''below'', ''belt'', ''bench'', ''benefit'', ''best'', ''betray'',
    ''better'', ''between'', ''beyond'', ''bicycle'', ''bid'', ''bike'', ''bind'', ''biology'', ''bird'', ''birth'', ''bitter'', ''black'', ''blade'',
    ''blame'', ''blanket'', ''blast'', ''bleak'', ''bless'', ''blind'', ''blood'', ''blossom'', ''blouse'', ''blue'', ''blur'', ''blush'', ''board'',
    ''boat'', ''body'', ''boil'', ''bomb'', ''bone'', ''bonus'', ''book'', ''boost'', ''border'', ''boring'', ''borrow'', ''boss'', ''bottom'',
    ''bounce'', ''box'', ''boy'', ''bracket'', ''brain'', ''brand'', ''brass'', ''brave'', ''bread'', ''breeze'', ''brick'', ''bridge'', ''brief'',
    ''bright'', ''bring'', ''brisk'', ''broccoli'', ''broken'', ''bronze'', ''broom'', ''brother'', ''brown'', ''brush'', ''bubble'', ''buddy'',
    ''budget'', ''buffalo'', ''build'', ''bulb'', ''bulk'', ''bullet'', ''bundle'', ''bunker'', ''burden'', ''burger'', ''burst'', ''bus'',
    ''business'', ''busy'', ''butter'', ''buyer'', ''buzz'']"

definition words_c :: "string list" where
  "words_c =
   [''cabbage'', ''cabin'', ''cable'', ''cactus'', ''cage'', ''cake'', ''call'', ''calm'', ''camera'', ''camp'', ''can'', ''canal'', ''cancel'',
    ''candy'', ''cannon'', ''canoe'', ''canvas'', ''canyon'', ''capable'', ''capital'', ''captain'', ''car'', ''carbon'', ''card'', ''cargo'',
    ''carpet'', ''carry'', ''cart'', ''case'', ''cash'', ''casino'', ''castle'', ''casual'', ''cat'', ''catalog'', ''catch'', ''category'',
    ''cattle'', ''caught'', ''cause'', ''caution'', ''cave'', ''ceiling'', ''celery'', ''cement'', ''census'', ''century'', ''cereal'', ''certain'',
    ''chair'', ''chalk'', ''champion'', ''change'', ''chaos'', ''chapter'', ''charge'', ''chase'', ''chat'', ''cheap'', ''check'', ''cheese'',
    ''chef'', ''cherry'', ''chest'', ''chicken'', ''chief'', ''child'', ''chimney'', ''choice'', ''choose'', ''chronic'', ''chuckle'', ''chunk'',
    ''churn'', ''cigar'', ''cinnamon'', ''circle'', ''citizen'', ''city'', ''civil'', ''claim'', ''clap'', ''clarify'', ''claw'', ''clay'', ''clean'',
    ''clerk'', ''clever'', ''click'', ''client'', ''cliff'', ''climb'', ''clinic'', ''clip'', ''clock'', ''clog'', ''close'', ''cloth'', ''cloud'',
    ''clown'', ''club'', ''clump'', ''cluster'', ''clutch'', ''coach'', ''coast'', ''coconut'', ''code'', ''coffee'', ''coil'', ''coin'', ''collect'',
    ''color'', ''column'', ''combine'', ''come'', ''comfort'', ''comic'', ''common'', ''company'', ''concert'', ''conduct'', ''confirm'',
    ''congress'', ''connect'', ''consider'', ''control'', ''convince'', ''cook'', ''cool'', ''copper'', ''copy'', ''coral'', ''core'', ''corn'',
    ''correct'', ''cost'', ''cotton'', ''couch'', ''country'', ''couple'', ''course'', ''cousin'', ''cover'', ''coyote'', ''crack'', ''cradle'',
    ''craft'', ''cram'', ''crane'', ''crash'', ''crater'', ''crawl'', ''crazy'', ''cream'', ''credit'', ''creek'', ''crew'', ''cricket'', ''crime'',
    ''crisp'', ''critic'', ''crop'', ''cross'', ''crouch'', ''crowd'', ''crucial'', ''cruel'', ''cruise'', ''crumble'', ''crunch'', ''crush'',
    ''cry'', ''crystal'', ''cube'', ''culture'', ''cup'', ''cupboard'', ''curious'', ''current'', ''curtain'', ''curve'', ''cushion'', ''custom'',
    ''cute'', ''cycle'']"

definition words_d :: "string list" where
  "words_d =
   [''dad'', ''damage'', ''damp'', ''dance'', ''danger'', ''daring'', ''dash'', ''daughter'', ''dawn'', ''day'', ''deal'', ''debate'', ''debris'',
    ''decade'', ''december'', ''decide'', ''decline'', ''decorate'', ''decrease'', ''deer'', ''defense'', ''define'', ''defy'', ''degree'', ''delay'',
    ''deliver'', ''demand'', ''demise'', ''denial'', ''dentist'', ''deny'', ''depart'', ''depend'', ''deposit'', ''depth'', ''deputy'', ''derive'',
    ''describe'', ''desert'', ''design'', ''desk'', ''despair'', ''destroy'', ''detail'', ''detect'', ''develop'', ''device'', ''devote'',
    ''diagram'', ''dial'', ''diamond'', ''diary'', ''dice'', ''diesel'', ''diet'', ''differ'', ''digital'', ''dignity'', ''dilemma'', ''dinner'',
    ''dinosaur'', ''direct'', ''dirt'', ''disagree'', ''discover'', ''disease'', ''dish'', ''dismiss'', ''disorder'', ''display'', ''distance'',
    ''divert'', ''divide'', ''divorce'', ''dizzy'', ''doctor'', ''document'', ''dog'', ''doll'', ''dolphin'', ''domain'', ''donate'', ''donkey'',
    ''donor'', ''door'', ''dose'', ''double'', ''dove'', ''draft'', ''dragon'', ''drama'', ''drastic'', ''draw'', ''dream'', ''dress'', ''drift'',
    ''drill'', ''drink'', ''drip'', ''drive'', ''drop'', ''drum'', ''dry'', ''duck'', ''dumb'', ''dune'', ''during'', ''dust'', ''dutch'', ''duty'',
    ''dwarf'', ''dynamic'']"

definition words_e :: "string list" where
  "words_e =
   [''eager'', ''eagle'', ''early'', ''earn'', ''earth'', ''easily'', ''east'', ''easy'', ''echo'', ''ecology'', ''economy'', ''edge'', ''edit'',
    ''educate'', ''effort'', ''egg'', ''eight'', ''either'', ''elbow'', ''elder'', ''electric'', ''elegant'', ''element'', ''elephant'', ''elevator'',
    ''elite'', ''else'', ''embark'', ''embody'', ''embrace'', ''emerge'', ''emotion'', ''employ'', ''empower'', ''empty'', ''enable'', ''enact'',
    ''end'', ''endless'', ''endorse'', ''enemy'', ''energy'', ''enforce'', ''engage'', ''engine'', ''enhance'', ''enjoy'', ''enlist'', ''enough'',
    ''enrich'', ''enroll'', ''ensure'', ''enter'', ''entire'', ''entry'', ''envelope'', ''episode'', ''equal'', ''equip'', ''era'', ''erase'',
    ''erode'', ''erosion'', ''error'', ''erupt'', ''escape'', ''essay'', ''essence'', ''estate'', ''eternal'', ''ethics'', ''evidence'', ''evil'',
    ''evoke'', ''evolve'', ''exact'', ''example'', ''excess'', ''exchange'', ''excite'', ''exclude'', ''excuse'', ''execute'', ''exercise'',
    ''exhaust'', ''exhibit'', ''exile'', ''exist'', ''exit'', ''exotic'', ''expand'', ''expect'', ''expire'', ''explain'', ''expose'', ''express'',
    ''extend'', ''extra'', ''eye'', ''eyebrow'']"

definition words_f :: "string list" where
  "words_f =
   [''fabric'', ''face'', ''faculty'', ''fade'', ''faint'', ''faith'', ''fall'', ''false'', ''fame'', ''family'', ''famous'', ''fan'', ''fancy'',
    ''fantasy'', ''farm'', ''fashion'', ''fat'', ''fatal'', ''father'', ''fatigue'', ''fault'', ''favorite'', ''feature'', ''february'', ''federal'',
    ''fee'', ''feed'', ''feel'', ''female'', ''fence'', ''festival'', ''fetch'', ''fever'', ''few'', ''fiber'', ''fiction'', ''field'', ''figure'',
    ''file'', ''film'', ''filter'', ''final'', ''find'', ''fine'', ''finger'', ''finish'', ''fire'', ''firm'', ''first'', ''fiscal'', ''fish'',
    ''fit'', ''fitness'', ''fix'', ''flag'', ''flame'', ''flash'', ''flat'', ''flavor'', ''flee'', ''flight'', ''flip'', ''float'', ''flock'',
    ''floor'', ''flower'', ''fluid'', ''flush'', ''fly'', ''foam'', ''focus'', ''fog'', ''foil'', ''fold'', ''follow'', ''food'', ''foot'', ''force'',
    ''forest'', ''forget'', ''fork'', ''fortune'', ''forum'', ''forward'', ''fossil'', ''foster'', ''found'', ''fox'', ''fragile'', ''frame'',
    ''frequent'', ''fresh'', ''friend'', ''fringe'', ''frog'', ''front'', ''frost'', ''frown'', ''frozen'', ''fruit'', ''fuel'', ''fun'', ''funny'',
    ''furnace'', ''fury'', ''future'']"

definition words_g :: "string list" where
  "words_g =
   [''gadget'', ''gain'', ''galaxy'', ''gallery'', ''game'', ''gap'', ''garage'', ''garbage'', ''garden'', ''garlic'', ''garment'', ''gas'', ''gasp'',
    ''gate'', ''gather'', ''gauge'', ''gaze'', ''general'', ''genius'', ''genre'', ''gentle'', ''genuine'', ''gesture'', ''ghost'', ''giant'',
    ''gift'', ''giggle'', ''ginger'', ''giraffe'', ''girl'', ''give'', ''glad'', ''glance'', ''glare'', ''glass'', ''glide'', ''glimpse'', ''globe'',
    ''gloom'', ''glory'', ''glove'', ''glow'', ''glue'', ''goat'', ''goddess'', ''gold'', ''good'', ''goose'', ''gorilla'', ''gospel'', ''gossip'',
    ''govern'', ''gown'', ''grab'', ''grace'', ''grain'', ''grant'', ''grape'', ''grass'', ''gravity'', ''great'', ''green'', ''grid'', ''grief'',
    ''grit'', ''grocery'', ''group'', ''grow'', ''grunt'', ''guard'', ''guess'', ''guide'', ''guilt'', ''guitar'', ''gun'', ''gym'']"

definition words_h :: "string list" where
  "words_h =
   [''habit'', ''hair'', ''half'', ''hammer'', ''hamster'', ''hand'', ''happy'', ''harbor'', ''hard'', ''harsh'', ''harvest'', ''hat'', ''have'',
    ''hawk'', ''hazard'', ''head'', ''health'', ''heart'', ''heavy'', ''hedgehog'', ''height'', ''hello'', ''helmet'', ''help'', ''hen'', ''hero'',
    ''hidden'', ''high'', ''hill'', ''hint'', ''hip'', ''hire'', ''history'', ''hobby'', ''hockey'', ''hold'', ''hole'', ''holiday'', ''hollow'',
    ''home'', ''honey'', ''hood'', ''hope'', ''horn'', ''horror'', ''horse'', ''hospital'', ''host'', ''hotel'', ''hour'', ''hover'', ''hub'',
    ''huge'', ''human'', ''humble'', ''humor'', ''hundred'', ''hungry'', ''hunt'', ''hurdle'', ''hurry'', ''hurt'', ''husband'', ''hybrid'']"

definition words_i :: "string list" where
  "words_i =
   [''ice'', ''icon'', ''idea'', ''identify'', ''idle'', ''ignore'', ''ill'', ''illegal'', ''illness'', ''image'', ''imitate'', ''immense'',
    ''immune'', ''impact'', ''impose'', ''improve'', ''impulse'', ''inch'', ''include'', ''income'', ''increase'', ''index'', ''indicate'',
    ''indoor'', ''industry'', ''infant'', ''inflict'', ''inform'', ''inhale'', ''inherit'', ''initial'', ''inject'', ''injury'', ''inmate'',
    ''inner'', ''innocent'', ''input'', ''inquiry'', ''insane'', ''insect'', ''inside'', ''inspire'', ''install'', ''intact'', ''interest'', ''into'',
    ''invest'', ''invite'', ''involve'', ''iron'', ''island'', ''isolate'', ''issue'', ''item'', ''ivory'']"

definition words_j :: "string list" where
  "words_j =
   [''jacket'', ''jaguar'', ''jar'', ''jazz'', ''jealous'', ''jeans'', ''jelly'', ''jewel'', ''job'', ''join'', ''joke'', ''journey'', ''joy'',
    ''judge'', ''juice'', ''jump'', ''jungle'', ''junior'', ''junk'', ''just'']"

definition words_k :: "string list" where
  "words_k =
   [''kangaroo'', ''keen'', ''keep'', ''ketchup'', ''key'', ''kick'', ''kid'', ''kidney'', ''kind'', ''kingdom'', ''kiss'', ''kit'', ''kitchen'',
    ''kite'', ''kitten'', ''kiwi'', ''knee'', ''knife'', ''knock'', ''know'']"

definition words_l :: "string list" where
  "words_l =
   [''lab'', ''label'', ''labor'', ''ladder'', ''lady'', ''lake'', ''lamp'', ''language'', ''laptop'', ''large'', ''later'', ''latin'', ''laugh'',
    ''laundry'', ''lava'', ''law'', ''lawn'', ''lawsuit'', ''layer'', ''lazy'', ''leader'', ''leaf'', ''learn'', ''leave'', ''lecture'', ''left'',
    ''leg'', ''legal'', ''legend'', ''leisure'', ''lemon'', ''lend'', ''length'', ''lens'', ''leopard'', ''lesson'', ''letter'', ''level'', ''liar'',
    ''liberty'', ''library'', ''license'', ''life'', ''lift'', ''light'', ''like'', ''limb'', ''limit'', ''link'', ''lion'', ''liquid'', ''list'',
    ''little'', ''live'', ''lizard'', ''load'', ''loan'', ''lobster'', ''local'', ''lock'', ''logic'', ''lonely'', ''long'', ''loop'', ''lottery'',
    ''loud'', ''lounge'', ''love'', ''loyal'', ''lucky'', ''luggage'', ''lumber'', ''lunar'', ''lunch'', ''luxury'', ''lyrics'']"

definition words_m :: "string list" where
  "words_m =
   [''machine'', ''mad'', ''magic'', ''magnet'', ''maid'', ''mail'', ''main'', ''major'', ''make'', ''mammal'', ''man'', ''manage'', ''mandate'',
    ''mango'', ''mansion'', ''manual'', ''maple'', ''marble'', ''march'', ''margin'', ''marine'', ''market'', ''marriage'', ''mask'', ''mass'',
    ''master'', ''match'', ''material'', ''math'', ''matrix'', ''matter'', ''maximum'', ''maze'', ''meadow'', ''mean'', ''measure'', ''meat'',
    ''mechanic'', ''medal'', ''media'', ''melody'', ''melt'', ''member'', ''memory'', ''mention'', ''menu'', ''mercy'', ''merge'', ''merit'',
    ''merry'', ''mesh'', ''message'', ''metal'', ''method'', ''middle'', ''midnight'', ''milk'', ''million'', ''mimic'', ''mind'', ''minimum'',
    ''minor'', ''minute'', ''miracle'', ''mirror'', ''misery'', ''miss'', ''mistake'', ''mix'', ''mixed'', ''mixture'', ''mobile'', ''model'',
    ''modify'', ''mom'', ''moment'', ''monitor'', ''monkey'', ''monster'', ''month'', ''moon'', ''moral'', ''more'', ''morning'', ''mosquito'',
    ''mother'', ''motion'', ''motor'', ''mountain'', ''mouse'', ''move'', ''movie'', ''much'', ''muffin'', ''mule'', ''multiply'', ''muscle'',
    ''museum'', ''mushroom'', ''music'', ''must'', ''mutual'', ''myself'', ''mystery'', ''myth'']"

definition words_n :: "string list" where
  "words_n =
   [''naive'', ''name'', ''napkin'', ''narrow'', ''nasty'', ''nation'', ''nature'', ''near'', ''neck'', ''need'', ''negative'', ''neglect'',
    ''neither'', ''nephew'', ''nerve'', ''nest'', ''net'', ''network'', ''neutral'', ''never'', ''news'', ''next'', ''nice'', ''night'', ''noble'',
    ''noise'', ''nominee'', ''noodle'', ''normal'', ''north'', ''nose'', ''notable'', ''note'', ''nothing'', ''notice'', ''novel'', ''now'',
    ''nuclear'', ''number'', ''nurse'', ''nut'']"

definition words_o :: "string list" where
  "words_o =
   [''oak'', ''obey'', ''object'', ''oblige'', ''obscure'', ''observe'', ''obtain'', ''obvious'', ''occur'', ''ocean'', ''october'', ''odor'',
    ''off'', ''offer'', ''office'', ''often'', ''oil'', ''okay'', ''old'', ''olive'', ''olympic'', ''omit'', ''once'', ''one'', ''onion'', ''online'',
    ''only'', ''open'', ''opera'', ''opinion'', ''oppose'', ''option'', ''orange'', ''orbit'', ''orchard'', ''order'', ''ordinary'', ''organ'',
    ''orient'', ''original'', ''orphan'', ''ostrich'', ''other'', ''outdoor'', ''outer'', ''output'', ''outside'', ''oval'', ''oven'', ''over'',
    ''own'', ''owner'', ''oxygen'', ''oyster'', ''ozone'']"

definition words_p :: "string list" where
  "words_p =
   [''pact'', ''paddle'', ''page'', ''pair'', ''palace'', ''palm'', ''panda'', ''panel'', ''panic'', ''panther'', ''paper'', ''parade'', ''parent'',
    ''park'', ''parrot'', ''party'', ''pass'', ''patch'', ''path'', ''patient'', ''patrol'', ''pattern'', ''pause'', ''pave'', ''payment'', ''peace'',
    ''peanut'', ''pear'', ''peasant'', ''pelican'', ''pen'', ''penalty'', ''pencil'', ''people'', ''pepper'', ''perfect'', ''permit'', ''person'',
    ''pet'', ''phone'', ''photo'', ''phrase'', ''physical'', ''piano'', ''picnic'', ''picture'', ''piece'', ''pig'', ''pigeon'', ''pill'', ''pilot'',
    ''pink'', ''pioneer'', ''pipe'', ''pistol'', ''pitch'', ''pizza'', ''place'', ''planet'', ''plastic'', ''plate'', ''play'', ''please'',
    ''pledge'', ''pluck'', ''plug'', ''plunge'', ''poem'', ''poet'', ''point'', ''polar'', ''pole'', ''police'', ''pond'', ''pony'', ''pool'',
    ''popular'', ''portion'', ''position'', ''possible'', ''post'', ''potato'', ''pottery'', ''poverty'', ''powder'', ''power'', ''practice'',
    ''praise'', ''predict'', ''prefer'', ''prepare'', ''present'', ''pretty'', ''prevent'', ''price'', ''pride'', ''primary'', ''print'',
    ''priority'', ''prison'', ''private'', ''prize'', ''problem'', ''process'', ''produce'', ''profit'', ''program'', ''project'', ''promote'',
    ''proof'', ''property'', ''prosper'', ''protect'', ''proud'', ''provide'', ''public'', ''pudding'', ''pull'', ''pulp'', ''pulse'', ''pumpkin'',
    ''punch'', ''pupil'', ''puppy'', ''purchase'', ''purity'', ''purpose'', ''purse'', ''push'', ''put'', ''puzzle'', ''pyramid'']"

definition words_q :: "string list" where
  "words_q =
   [''quality'', ''quantum'', ''quarter'', ''question'', ''quick'', ''quit'', ''quiz'', ''quote'']"

definition words_r :: "string list" where
  "words_r =
   [''rabbit'', ''raccoon'', ''race'', ''rack'', ''radar'', ''radio'', ''rail'', ''rain'', ''raise'', ''rally'', ''ramp'', ''ranch'', ''random'',
    ''range'', ''rapid'', ''rare'', ''rate'', ''rather'', ''raven'', ''raw'', ''razor'', ''ready'', ''real'', ''reason'', ''rebel'', ''rebuild'',
    ''recall'', ''receive'', ''recipe'', ''record'', ''recycle'', ''reduce'', ''reflect'', ''reform'', ''refuse'', ''region'', ''regret'',
    ''regular'', ''reject'', ''relax'', ''release'', ''relief'', ''rely'', ''remain'', ''remember'', ''remind'', ''remove'', ''render'', ''renew'',
    ''rent'', ''reopen'', ''repair'', ''repeat'', ''replace'', ''report'', ''require'', ''rescue'', ''resemble'', ''resist'', ''resource'',
    ''response'', ''result'', ''retire'', ''retreat'', ''return'', ''reunion'', ''reveal'', ''review'', ''reward'', ''rhythm'', ''rib'', ''ribbon'',
    ''rice'', ''rich'', ''ride'', ''ridge'', ''rifle'', ''right'', ''rigid'', ''ring'', ''riot'', ''ripple'', ''risk'', ''ritual'', ''rival'',
    ''river'', ''road'', ''roast'', ''robot'', ''robust'', ''rocket'', ''romance'', ''roof'', ''rookie'', ''room'', ''rose'', ''rotate'', ''rough'',
    ''round'', ''route'', ''royal'', ''rubber'', ''rude'', ''rug'', ''rule'', ''run'', ''runway'', ''rural'']"

definition words_s :: "string list" where
  "words_s =
   [''sad'', ''saddle'', ''sadness'', ''safe'', ''sail'', ''salad'', ''salmon'', ''salon'', ''salt'', ''salute'', ''same'', ''sample'', ''sand'',
    ''satisfy'', ''satoshi'', ''sauce'', ''sausage'', ''save'', ''say'', ''scale'', ''scan'', ''scare'', ''scatter'', ''scene'', ''scheme'',
    ''school'', ''science'', ''scissors'', ''scorpion'', ''scout'', ''scrap'', ''screen'', ''script'', ''scrub'', ''sea'', ''search'', ''season'',
    ''seat'', ''second'', ''secret'', ''section'', ''security'', ''seed'', ''seek'', ''segment'', ''select'', ''sell'', ''seminar'', ''senior'',
    ''sense'', ''sentence'', ''series'', ''service'', ''session'', ''settle'', ''setup'', ''seven'', ''shadow'', ''shaft'', ''shallow'', ''share'',
    ''shed'', ''shell'', ''sheriff'', ''shield'', ''shift'', ''shine'', ''ship'', ''shiver'', ''shock'', ''shoe'', ''shoot'', ''shop'', ''short'',
    ''shoulder'', ''shove'', ''shrimp'', ''shrug'', ''shuffle'', ''shy'', ''sibling'', ''sick'', ''side'', ''siege'', ''sight'', ''sign'', ''silent'',
    ''silk'', ''silly'', ''silver'', ''similar'', ''simple'', ''since'', ''sing'', ''siren'', ''sister'', ''situate'', ''six'', ''size'', ''skate'',
    ''sketch'', ''ski'', ''skill'', ''skin'', ''skirt'', ''skull'', ''slab'', ''slam'', ''sleep'', ''slender'', ''slice'', ''slide'', ''slight'',
    ''slim'', ''slogan'', ''slot'', ''slow'', ''slush'', ''small'', ''smart'', ''smile'', ''smoke'', ''smooth'', ''snack'', ''snake'', ''snap'',
    ''sniff'', ''snow'', ''soap'', ''soccer'', ''social'', ''sock'', ''soda'', ''soft'', ''solar'', ''soldier'', ''solid'', ''solution'', ''solve'',
    ''someone'', ''song'', ''soon'', ''sorry'', ''sort'', ''soul'', ''sound'', ''soup'', ''source'', ''south'', ''space'', ''spare'', ''spatial'',
    ''spawn'', ''speak'', ''special'', ''speed'', ''spell'', ''spend'', ''sphere'', ''spice'', ''spider'', ''spike'', ''spin'', ''spirit'', ''split'',
    ''spoil'', ''sponsor'', ''spoon'', ''sport'', ''spot'', ''spray'', ''spread'', ''spring'', ''spy'', ''square'', ''squeeze'', ''squirrel'',
    ''stable'', ''stadium'', ''staff'', ''stage'', ''stairs'', ''stamp'', ''stand'', ''start'', ''state'', ''stay'', ''steak'', ''steel'', ''stem'',
    ''step'', ''stereo'', ''stick'', ''still'', ''sting'', ''stock'', ''stomach'', ''stone'', ''stool'', ''story'', ''stove'', ''strategy'',
    ''street'', ''strike'', ''strong'', ''struggle'', ''student'', ''stuff'', ''stumble'', ''style'', ''subject'', ''submit'', ''subway'',
    ''success'', ''such'', ''sudden'', ''suffer'', ''sugar'', ''suggest'', ''suit'', ''summer'', ''sun'', ''sunny'', ''sunset'', ''super'',
    ''supply'', ''supreme'', ''sure'', ''surface'', ''surge'', ''surprise'', ''surround'', ''survey'', ''suspect'', ''sustain'', ''swallow'',
    ''swamp'', ''swap'', ''swarm'', ''swear'', ''sweet'', ''swift'', ''swim'', ''swing'', ''switch'', ''sword'', ''symbol'', ''symptom'', ''syrup'',
    ''system'']"

definition words_t :: "string list" where
  "words_t =
   [''table'', ''tackle'', ''tag'', ''tail'', ''talent'', ''talk'', ''tank'', ''tape'', ''target'', ''task'', ''taste'', ''tattoo'', ''taxi'',
    ''teach'', ''team'', ''tell'', ''ten'', ''tenant'', ''tennis'', ''tent'', ''term'', ''test'', ''text'', ''thank'', ''that'', ''theme'', ''then'',
    ''theory'', ''there'', ''they'', ''thing'', ''this'', ''thought'', ''three'', ''thrive'', ''throw'', ''thumb'', ''thunder'', ''ticket'', ''tide'',
    ''tiger'', ''tilt'', ''timber'', ''time'', ''tiny'', ''tip'', ''tired'', ''tissue'', ''title'', ''toast'', ''tobacco'', ''today'', ''toddler'',
    ''toe'', ''together'', ''toilet'', ''token'', ''tomato'', ''tomorrow'', ''tone'', ''tongue'', ''tonight'', ''tool'', ''tooth'', ''top'',
    ''topic'', ''topple'', ''torch'', ''tornado'', ''tortoise'', ''toss'', ''total'', ''tourist'', ''toward'', ''tower'', ''town'', ''toy'',
    ''track'', ''trade'', ''traffic'', ''tragic'', ''train'', ''transfer'', ''trap'', ''trash'', ''travel'', ''tray'', ''treat'', ''tree'', ''trend'',
    ''trial'', ''tribe'', ''trick'', ''trigger'', ''trim'', ''trip'', ''trophy'', ''trouble'', ''truck'', ''true'', ''truly'', ''trumpet'', ''trust'',
    ''truth'', ''try'', ''tube'', ''tuition'', ''tumble'', ''tuna'', ''tunnel'', ''turkey'', ''turn'', ''turtle'', ''twelve'', ''twenty'', ''twice'',
    ''twin'', ''twist'', ''two'', ''type'', ''typical'']"

definition words_u :: "string list" where
  "words_u =
   [''ugly'', ''umbrella'', ''unable'', ''unaware'', ''uncle'', ''uncover'', ''under'', ''undo'', ''unfair'', ''unfold'', ''unhappy'', ''uniform'',
    ''unique'', ''unit'', ''universe'', ''unknown'', ''unlock'', ''until'', ''unusual'', ''unveil'', ''update'', ''upgrade'', ''uphold'', ''upon'',
    ''upper'', ''upset'', ''urban'', ''urge'', ''usage'', ''use'', ''used'', ''useful'', ''useless'', ''usual'', ''utility'']"

definition words_v :: "string list" where
  "words_v =
   [''vacant'', ''vacuum'', ''vague'', ''valid'', ''valley'', ''valve'', ''van'', ''vanish'', ''vapor'', ''various'', ''vast'', ''vault'',
    ''vehicle'', ''velvet'', ''vendor'', ''venture'', ''venue'', ''verb'', ''verify'', ''version'', ''very'', ''vessel'', ''veteran'', ''viable'',
    ''vibrant'', ''vicious'', ''victory'', ''video'', ''view'', ''village'', ''vintage'', ''violin'', ''virtual'', ''virus'', ''visa'', ''visit'',
    ''visual'', ''vital'', ''vivid'', ''vocal'', ''voice'', ''void'', ''volcano'', ''volume'', ''vote'', ''voyage'']"

definition words_w :: "string list" where
  "words_w =
   [''wage'', ''wagon'', ''wait'', ''walk'', ''wall'', ''walnut'', ''want'', ''warfare'', ''warm'', ''warrior'', ''wash'', ''wasp'', ''waste'',
    ''water'', ''wave'', ''way'', ''wealth'', ''weapon'', ''wear'', ''weasel'', ''weather'', ''web'', ''wedding'', ''weekend'', ''weird'',
    ''welcome'', ''west'', ''wet'', ''whale'', ''what'', ''wheat'', ''wheel'', ''when'', ''where'', ''whip'', ''whisper'', ''wide'', ''width'',
    ''wife'', ''wild'', ''will'', ''win'', ''window'', ''wine'', ''wing'', ''wink'', ''winner'', ''winter'', ''wire'', ''wisdom'', ''wise'', ''wish'',
    ''witness'', ''wolf'', ''woman'', ''wonder'', ''wood'', ''wool'', ''word'', ''work'', ''world'', ''worry'', ''worth'', ''wrap'', ''wreck'',
    ''wrestle'', ''wrist'', ''write'', ''wrong'']"

definition words_y :: "string list" where
  "words_y =
   [''yard'', ''year'', ''yellow'', ''you'', ''young'', ''youth'']"

definition words_z :: "string list" where
  "words_z =
   [''zebra'', ''zero'', ''zone'', ''zoo'']"

definition englishWordData :: "string list" where
  "englishWordData = concat [words_a, words_b, words_c, words_d, words_e, words_f, words_g, words_h, words_i, words_j, words_k, words_l, words_m, words_n, words_o, words_p, words_q, words_r, words_s, words_t, words_u, words_v, words_w, words_y, words_z]"

text \<open>Words in strictly ascending order, with one initial and lower-case letters.\<close>

fun lex_less :: "string \<Rightarrow> string \<Rightarrow> bool" where
  "lex_less xs [] = False"
| "lex_less [] (y # ys) = True"
| "lex_less (x # xs) (y # ys) = (if x = y then lex_less xs ys else (of_char x :: nat) < of_char y)"

fun ascending :: "string list \<Rightarrow> bool" where
  "ascending (x # y # xs) = (lex_less x y \<and> ascending (y # xs))"
| "ascending xs = True"

definition lower_word :: "char \<Rightarrow> string \<Rightarrow> bool" where
  "lower_word c w \<longleftrightarrow> w \<noteq> [] \<and> hd w = c \<and> list_all (\<lambda>x. 97 \<le> (of_char x :: nat) \<and> of_char x \<le> (122 :: nat)) w"

definition block :: "char \<Rightarrow> string list \<Rightarrow> bool" where
  "block c ws \<longleftrightarrow> ascending ws \<and> list_all (lower_word c) ws"

lemma blocks:
  "block (CHR ''a'') words_a"
  "block (CHR ''b'') words_b"
  "block (CHR ''c'') words_c"
  "block (CHR ''d'') words_d"
  "block (CHR ''e'') words_e"
  "block (CHR ''f'') words_f"
  "block (CHR ''g'') words_g"
  "block (CHR ''h'') words_h"
  "block (CHR ''i'') words_i"
  "block (CHR ''j'') words_j"
  "block (CHR ''k'') words_k"
  "block (CHR ''l'') words_l"
  "block (CHR ''m'') words_m"
  "block (CHR ''n'') words_n"
  "block (CHR ''o'') words_o"
  "block (CHR ''p'') words_p"
  "block (CHR ''q'') words_q"
  "block (CHR ''r'') words_r"
  "block (CHR ''s'') words_s"
  "block (CHR ''t'') words_t"
  "block (CHR ''u'') words_u"
  "block (CHR ''v'') words_v"
  "block (CHR ''w'') words_w"
  "block (CHR ''y'') words_y"
  "block (CHR ''z'') words_z"
  by (simp_all add: block_def lower_word_def words_a_def words_b_def words_c_def words_d_def words_e_def words_f_def words_g_def words_h_def words_i_def words_j_def words_k_def words_l_def words_m_def words_n_def words_o_def words_p_def words_q_def words_r_def words_s_def words_t_def words_u_def words_v_def words_w_def words_y_def words_z_def)

lemma word_counts:
  "length words_a = 136"
  "length words_b = 117"
  "length words_c = 186"
  "length words_d = 112"
  "length words_e = 100"
  "length words_f = 106"
  "length words_g = 76"
  "length words_h = 64"
  "length words_i = 55"
  "length words_j = 20"
  "length words_k = 20"
  "length words_l = 76"
  "length words_m = 105"
  "length words_n = 41"
  "length words_o = 55"
  "length words_p = 132"
  "length words_q = 8"
  "length words_r = 108"
  "length words_s = 250"
  "length words_t = 121"
  "length words_u = 35"
  "length words_v = 46"
  "length words_w = 69"
  "length words_y = 6"
  "length words_z = 4"
  by (simp_all add: words_a_def words_b_def words_c_def words_d_def words_e_def words_f_def words_g_def words_h_def words_i_def words_j_def words_k_def words_l_def words_m_def words_n_def words_o_def words_p_def words_q_def words_r_def words_s_def words_t_def words_u_def words_v_def words_w_def words_y_def words_z_def)

lemma lex_less_trans: "lex_less x y \<Longrightarrow> lex_less y z \<Longrightarrow> lex_less x z"
proof (induction x y arbitrary: z rule: lex_less.induct)
  case (3 x xs y ys)
  then show ?case by (cases z) (auto split: if_splits)
next
  case (2 y ys)
  then show ?case by (cases z) auto
qed simp

lemma lex_less_irrefl: "\<not> lex_less x x"
  by (induction x) simp_all

lemma ascending_distinct: "ascending ws \<Longrightarrow> distinct ws \<and> (\<forall>w ws'. ws = w # ws' \<longrightarrow> (\<forall>v \<in> set ws'. lex_less w v))"
proof (induction ws rule: ascending.induct)
  case (1 x y xs)
  then have less: "\<forall>v \<in> set (y # xs). lex_less x v" using lex_less_trans [of x y] by auto
  then have "x \<notin> set (y # xs)" using lex_less_irrefl by blast
  with 1 less show ?case by auto
qed simp_all

lemma blocks_distinct:
  "list_all2 block cs wss \<Longrightarrow> distinct cs \<Longrightarrow> distinct (concat wss) \<and> (\<forall>w \<in> set (concat wss). \<exists>c \<in> set cs. lower_word c w)"
proof (induction cs wss rule: list_all2_induct)
  case (Cons c cs ws wss)
  then have d: "distinct (concat wss)" "\<forall>w \<in> set (concat wss). \<exists>c \<in> set cs. lower_word c w" and b: "distinct ws" "\<forall>w \<in> set ws. lower_word c w" and c: "c \<notin> set cs"
    using ascending_distinct by (auto simp: block_def list_all_iff)
  have "set ws \<inter> set (concat wss) = {}"
  proof (rule ccontr)
    assume "set ws \<inter> set (concat wss) \<noteq> {}"
    then obtain w c' where "lower_word c w" "c' \<in> set cs" "lower_word c' w" using d(2) b(2) by blast
    then show False using c by (simp add: lower_word_def)
  qed
  with d b show ?case by auto
qed simp

lemma englishWordData_facts:
  "distinct englishWordData" "length englishWordData = 2048" "w \<in> set englishWordData \<Longrightarrow> \<exists>c. lower_word c w"
proof -
  have b: "list_all2 block ''abcdefghijklmnopqrstuvwyz'' [words_a, words_b, words_c, words_d, words_e, words_f, words_g, words_h, words_i, words_j, words_k, words_l, words_m, words_n, words_o, words_p, words_q, words_r, words_s, words_t, words_u, words_v, words_w, words_y, words_z]"
    by (simp add: blocks)
  from blocks_distinct [OF b] have "distinct englishWordData \<and> (\<forall>w \<in> set englishWordData. \<exists>c \<in> set ''abcdefghijklmnopqrstuvwyz''. lower_word c w)"
    unfolding englishWordData_def by (simp del: concat.simps)
  then show "distinct englishWordData" "w \<in> set englishWordData \<Longrightarrow> \<exists>c. lower_word c w" by blast+
  show "length englishWordData = 2048" by (simp add: englishWordData_def word_counts)
qed

section \<open>Encoding\<close>

record Mnemonic =
  words :: "bytes list"

datatype mnemonic_error = ErrLanguageUnavailable string | UnknownWordError bytes | ReadEntropy string | CannotExtract

definition loadEnglishWords :: "bytes list" where
  "loadEnglishWords = map str englishWordData"

definition New :: "string \<Rightarrow> mnemonic_error + Mnemonic" where
  "New lang = (if lang \<in> {''es'', ''ja'', ''pt'', ''zh''} then Inl (ErrLanguageUnavailable lang) else Inr \<lparr>words = loadEnglishWords\<rparr>)"

fun Join :: "bytes list \<Rightarrow> bytes" where
  "Join [] = []"
| "Join [w] = w"
| "Join (w # v # ws) = w @ [0x20] @ Join (v # ws)"

text \<open>The words of the digits, the lowest first. With fewer than two words the loop of the code would not end; every list has more.\<close>

function encode_words :: "bytes list \<Rightarrow> nat \<Rightarrow> bytes list" where
  "encode_words ws remaining =
     (if remaining = 0 \<or> length ws < 2 then [] else ws ! (remaining mod length ws) # encode_words ws (remaining div length ws))"
  by auto
termination by (relation "measure snd") (auto intro: div_less_dividend)

declare encode_words.simps [simp del]

definition Encode :: "Mnemonic \<Rightarrow> nat \<Rightarrow> bytes" where
  "Encode m v = Join (encode_words (words m) v)"

text \<open>White space of Python as UTF-8 writes it; the length of the encoding at the front of a text.\<close>

definition pythonWhitespace :: "bytes list" where
  "pythonWhitespace = map (\<lambda>n. [of_nat n]) ([0x09..<0x0E] @ [0x1C..<0x21]) @ [[0xC2, 0x85], [0xC2, 0xA0], [0xE1, 0x9A, 0x80]] @
     map (\<lambda>n. [0xE2, 0x80, of_nat n]) [0x80..<0x8B] @ [[0xE2, 0x80, 0xA8], [0xE2, 0x80, 0xA9], [0xE2, 0x80, 0xAF], [0xE2, 0x81, 0x9F], [0xE3, 0x80, 0x80]]"

definition space_at :: "bytes \<Rightarrow> nat" where
  "space_at s = (case find (\<lambda>w. take (length w) s = w) pythonWhitespace of None \<Rightarrow> 0 | Some w \<Rightarrow> length w)"

text \<open>\<^verbatim>\<open>strings.FieldsFunc\<close>, with the field that is being read.\<close>

function split_fields :: "bytes \<Rightarrow> bytes \<Rightarrow> bytes list" where
  "split_fields part s =
     (if s = [] then if part = [] then [] else [part]
      else
        let n = space_at s
        in if n = 0 then split_fields (part @ [hd s]) (tl s)
           else (if part = [] then [] else [part]) @ split_fields [] (drop n s))"
  by auto
termination by (relation "measure (\<lambda>(_, s). length s)") auto

declare split_fields.simps [simp del]

definition splitPythonWhitespace :: "bytes \<Rightarrow> bytes list" where
  "splitPythonWhitespace s = split_fields [] s"

definition Decode :: "Mnemonic \<Rightarrow> bytes \<Rightarrow> mnemonic_error + nat" where
  "Decode m phrase =
     (case horner (length (words m)) (IndexByte (words m)) 0 (rev (splitPythonWhitespace phrase)) of
        Inl w \<Rightarrow> Inl (UnknownWordError w)
      | Inr v \<Rightarrow> Inr v)"

section \<open>Seeds\<close>

text \<open>\<^verbatim>\<open>crypto/hmac\<close> with SHA-512.\<close>

definition hmac_sha512 :: "bytes \<Rightarrow> bytes \<Rightarrow> bytes" where
  "hmac_sha512 key message =
     (let short = (if length key > 128 then sha512 key else key); k = short @ replicate (128 - length short) 0
      in sha512 (map (xor 0x5C) k @ sha512 (map (xor 0x36) k @ message)))"

definition IsNewSeed :: "(bytes \<Rightarrow> bytes) \<Rightarrow> bytes \<Rightarrow> string \<Rightarrow> bool" where
  "IsNewSeed NormalizeText phrase prefix =
     (let encoded = EncodeToString (hmac_sha512 (str ''Seed version'') (NormalizeText phrase)) in take (length prefix) encoded = prefix)"

type_synonym 'r rand_Int = "nat \<Rightarrow> 'r \<Rightarrow> 'r \<times> (string + nat)"

partial_function (option) entropy_loop :: "'r rand_Int \<Rightarrow> nat \<Rightarrow> nat \<Rightarrow> nat \<Rightarrow> 'r \<Rightarrow> ('r \<times> (mnemonic_error + nat)) option" where
  "entropy_loop draw minimum maximum entropy r =
     (if 0 < entropy \<and> entropy < minimum then
        (case draw maximum r of
           (r', Inl e) \<Rightarrow> Some (r', Inl (ReadEntropy e))
         | (r', Inr n) \<Rightarrow> entropy_loop draw minimum maximum n r')
      else Some (r, Inr entropy))"

partial_function (option) seed_loop :: "(bytes \<Rightarrow> bytes) \<Rightarrow> Mnemonic \<Rightarrow> string \<Rightarrow> nat \<Rightarrow> nat \<Rightarrow> (mnemonic_error + bytes) option" where
  "seed_loop NormalizeText m prefix entropy nonce =
     (let candidate = entropy + nonce; phrase = Encode m candidate
      in case Decode m phrase of
           Inl e \<Rightarrow> Some (Inl e)
         | Inr decoded \<Rightarrow>
             if decoded \<noteq> candidate then Some (Inl CannotExtract)
             else if IsNewSeed NormalizeText phrase prefix then Some (Inr phrase)
             else seed_loop NormalizeText m prefix entropy (nonce + 1))"

text \<open>
  The list has 2048 words, so a word holds 11 bits and the floating-point numbers of the code are whole: the bits are
  rounded up to a multiple of 11.
\<close>

definition roundedBits :: "int \<Rightarrow> int" where
  "roundedBits numBits = - (- numBits div 11) * 11"

definition MakeSeed :: "(bytes \<Rightarrow> bytes) \<Rightarrow> 'r rand_Int \<Rightarrow> Mnemonic \<Rightarrow> string \<Rightarrow> int \<Rightarrow> 'r \<Rightarrow> ('r \<times> (mnemonic_error + bytes)) option" where
  "MakeSeed NormalizeText draw m prefix numBits r =
     (let minimumExponent = roundedBits numBits - 11
      in case (if minimumExponent > 0 then entropy_loop draw (2 ^ nat minimumExponent) (2 ^ nat (roundedBits numBits)) 1 r else Some (r, Inr 1)) of
           None \<Rightarrow> None
         | Some (r', Inl e) \<Rightarrow> Some (r', Inl e)
         | Some (r', Inr entropy) \<Rightarrow> map_option (\<lambda>result. (r', result)) (seed_loop NormalizeText m prefix entropy 1))"

definition MakeDefaultSeed :: "(bytes \<Rightarrow> bytes) \<Rightarrow> 'r rand_Int \<Rightarrow> Mnemonic \<Rightarrow> 'r \<Rightarrow> ('r \<times> (mnemonic_error + bytes)) option" where
  "MakeDefaultSeed NormalizeText draw m r = MakeSeed NormalizeText draw m ''01'' 132 r"

section \<open>Words are digits\<close>

lemma unat_of_char: "unat (of_char c :: byte) = of_char c"
proof -
  have "of_char c = (of_nat (of_char c) :: byte)" by (simp only: of_nat_of_char)
  moreover have "(of_char c :: nat) < 256" by (cases c) (auto simp: of_char_Char split: bool.splits)
  ultimately show ?thesis by (metis unat_of_nat_byte)
qed

text \<open>The list is an alphabet in the sense of positional numerals.\<close>

lemma loadEnglishWords_facts:
  "distinct loadEnglishWords" "length loadEnglishWords = 2048" "w \<in> set loadEnglishWords \<Longrightarrow> w \<noteq> [] \<and> (\<forall>b \<in> set w. 97 \<le> unat b \<and> unat b \<le> 122)"
proof -
  have "x = y" if "(of_char x :: byte) = of_char y" for x y using arg_cong [OF that, of unat] by (simp add: unat_of_char)
  then have inj: "inj str" unfolding str_def by (intro inj_mapI injI)
  show "distinct loadEnglishWords" unfolding loadEnglishWords_def using englishWordData_facts(1) inj by (simp add: distinct_map inj_on_subset [OF _ subset_UNIV])
  show "length loadEnglishWords = 2048" by (simp add: loadEnglishWords_def englishWordData_facts(2))
  assume "w \<in> set loadEnglishWords"
  then obtain v where v: "w = str v" "v \<in> set englishWordData" unfolding loadEnglishWords_def set_map by (elim imageE)
  obtain c where "lower_word c v" using englishWordData_facts(3) [OF v(2)] by (elim exE)
  then show "w \<noteq> [] \<and> (\<forall>b \<in> set w. 97 \<le> unat b \<and> unat b \<le> 122)" unfolding v(1) by (auto simp: str_def lower_word_def list_all_iff unat_of_char)
qed

interpretation en: positional_alphabet 2048 "\<lambda>d. loadEnglishWords ! d" "IndexByte loadEnglishWords"
proof
  show "IndexByte loadEnglishWords (loadEnglishWords ! d) = Some d" if "d < 2048" for d
    using that by (intro IndexByte_nth loadEnglishWords_facts(1)) (simp add: loadEnglishWords_facts(2))
  show "d < 2048 \<and> loadEnglishWords ! d = c" if "IndexByte loadEnglishWords c = Some d" for c d
    using IndexByte_Some [OF that] by (simp add: loadEnglishWords_facts(2))
qed simp

lemma encode_words_digits: "encode_words loadEnglishWords n = map (\<lambda>d. loadEnglishWords ! d) (digits_le 2048 n)"
proof (induction n rule: less_induct)
  case (less n)
  show ?case
  proof (cases "n = 0")
    case False
    then have "encode_words loadEnglishWords (n div 2048) = map (\<lambda>d. loadEnglishWords ! d) (digits_le 2048 (n div 2048))" by (intro less.IH) simp
    with False show ?thesis by (subst encode_words.simps) (simp add: digits_le_step loadEnglishWords_facts(2))
  qed (simp add: encode_words.simps)
qed

lemma space_at_letter:
  assumes "97 \<le> unat b" and "unat b \<le> 122"
  shows "space_at (b # s) = 0"
proof -
  have "list_all (\<lambda>w. w \<noteq> [] \<and> \<not> (97 \<le> unat (hd w) \<and> unat (hd w) \<le> 122)) pythonWhitespace" by (simp add: pythonWhitespace_def upt_rec)
  moreover have "hd w = b" if "take (length w) (b # s) = w" "w \<noteq> []" for w using that by (cases w) auto
  ultimately have "find (\<lambda>w. take (length w) (b # s) = w) pythonWhitespace = None"
    using assms unfolding find_None_iff list_all_iff by blast
  then show ?thesis by (simp add: space_at_def)
qed

lemma space_at_space: "space_at (0x20 # s) = 1"
  by (simp add: space_at_def pythonWhitespace_def upt_rec)

lemma split_fields_word: "\<forall>b \<in> set w. 97 \<le> unat b \<and> unat b \<le> 122 \<Longrightarrow> split_fields part (w @ s) = split_fields (part @ w) s"
proof (induction w arbitrary: part)
  case (Cons b w)
  then have "split_fields part ((b # w) @ s) = split_fields (part @ [b]) (w @ s)" by (subst split_fields.simps) (simp add: space_at_letter)
  with Cons show ?case by simp
qed simp

lemma split_fields_Join:
  "\<forall>w \<in> set ws. w \<noteq> [] \<and> (\<forall>b \<in> set w. 97 \<le> unat b \<and> unat b \<le> 122) \<Longrightarrow> split_fields [] (Join ws) = ws"
proof (induction ws rule: Join.induct)
  case (2 w)
  then show ?case using split_fields_word [of w "[]" "[]"] by (simp add: split_fields.simps)
next
  case (3 w v ws)
  have "split_fields [] (Join (w # v # ws)) = split_fields w (0x20 # Join (v # ws))"
    using split_fields_word [of w "[]" "0x20 # Join (v # ws)"] 3(2) by simp
  also have "\<dots> = w # split_fields [] (Join (v # ws))" using 3(2) by (subst split_fields.simps) (simp add: space_at_space)
  finally show ?case using 3 by simp
qed (simp add: split_fields.simps)

lemma Decode_Encode: "New lang = Inr m \<Longrightarrow> Decode m (Encode m v) = Inr v"
proof -
  assume "New lang = Inr m"
  then have m: "words m = loadEnglishWords" by (auto simp: New_def split: if_splits)
  have letters: "\<forall>w \<in> set (encode_words loadEnglishWords v). w \<noteq> [] \<and> (\<forall>b \<in> set w. 97 \<le> unat b \<and> unat b \<le> 122)"
  proof
    fix w assume "w \<in> set (encode_words loadEnglishWords v)"
    then obtain d where "d \<in> set (digits_le 2048 v)" "w = loadEnglishWords ! d" unfolding encode_words_digits set_map by (elim imageE)
    then have "w \<in> set loadEnglishWords" using digits_le_less [of d 2048 v] loadEnglishWords_facts(2) by simp
    then show "w \<noteq> [] \<and> (\<forall>b \<in> set w. 97 \<le> unat b \<and> unat b \<le> 122)" by (rule loadEnglishWords_facts(3))
  qed
  have "splitPythonWhitespace (Encode m v) = map (\<lambda>d. loadEnglishWords ! d) (digits_le 2048 v)"
    using split_fields_Join [OF letters] unfolding splitPythonWhitespace_def Encode_def m encode_words_digits .
  then show ?thesis using en.horner_digits [of v] by (simp add: Decode_def m loadEnglishWords_facts(2) rev_map)
qed

lemma seed_loop_finds:
  assumes "New lang = Inr m" and "IsNewSeed NormalizeText (Encode m (entropy + k)) prefix" and "j \<le> k"
  shows "\<exists>i. j \<le> i \<and> i \<le> k \<and> seed_loop NormalizeText m prefix entropy j = Some (Inr (Encode m (entropy + i))) \<and>
    IsNewSeed NormalizeText (Encode m (entropy + i)) prefix \<and> (\<forall>h. j \<le> h \<and> h < i \<longrightarrow> \<not> IsNewSeed NormalizeText (Encode m (entropy + h)) prefix)"
  using assms(3)
proof (induction rule: inc_induct)
  case base
  show ?case using assms(1,2) by (intro exI [of _ k]) (auto simp: seed_loop.simps [of _ _ _ _ k] Decode_Encode Let_def)
next
  case (step j)
  show ?case
  proof (cases "IsNewSeed NormalizeText (Encode m (entropy + j)) prefix")
    case True
    then show ?thesis using assms(1) step(2) by (intro exI [of _ j]) (auto simp: seed_loop.simps [of _ _ _ _ j] Decode_Encode Let_def)
  next
    case False
    then have next_nonce: "seed_loop NormalizeText m prefix entropy j = seed_loop NormalizeText m prefix entropy (Suc j)"
      using assms(1) by (subst seed_loop.simps) (simp add: Decode_Encode Let_def)
    from step(3) obtain i where i: "Suc j \<le> i" "i \<le> k" "seed_loop NormalizeText m prefix entropy (Suc j) = Some (Inr (Encode m (entropy + i)))"
      "IsNewSeed NormalizeText (Encode m (entropy + i)) prefix" "\<forall>h. Suc j \<le> h \<and> h < i \<longrightarrow> \<not> IsNewSeed NormalizeText (Encode m (entropy + h)) prefix" by blast
    have "\<not> IsNewSeed NormalizeText (Encode m (entropy + h)) prefix" if "j \<le> h" "h < i" for h using that i(5) False by (cases "h = j") auto
    then show ?thesis using i(1-4) next_nonce by (intro exI [of _ i]) auto
  qed
qed

text \<open>
  C40. Seeds. Every number is read back from its words, and when a draw gives enough entropy and some nonce leads to
  a seed of the wanted version, \<^verbatim>\<open>MakeSeed\<close> returns the words of the first such nonce: a phrase of the version, from
  which the entropy plus the nonce can be read back.
\<close>

theorem MakeSeed_finds:
  assumes "New lang = Inr m" and "numBits > 11" and "draw (2 ^ nat (roundedBits numBits)) r = (r', Inr entropy)"
    and "2 ^ nat (roundedBits numBits - 11) \<le> entropy" and "1 \<le> k" and "IsNewSeed NormalizeText (Encode m (entropy + k)) prefix"
  shows "\<exists>i phrase. 1 \<le> i \<and> i \<le> k \<and> MakeSeed NormalizeText draw m prefix numBits r = Some (r', Inr phrase) \<and>
    Decode m phrase = Inr (entropy + i) \<and> IsNewSeed NormalizeText phrase prefix \<and>
    (\<forall>h. 1 \<le> h \<and> h < i \<longrightarrow> \<not> IsNewSeed NormalizeText (Encode m (entropy + h)) prefix)"
proof -
  have "- numBits div 11 \<le> - 2" using assms(2) by linarith
  then have pos: "roundedBits numBits - 11 > 0" unfolding roundedBits_def by linarith
  then have "(1 :: nat) < 2 ^ nat (roundedBits numBits - 11)" by (intro one_less_power) simp_all
  then have "entropy_loop draw (2 ^ nat (roundedBits numBits - 11)) (2 ^ nat (roundedBits numBits)) 1 r = Some (r', Inr entropy)"
    using assms(3,4) by (subst entropy_loop.simps) (simp add: entropy_loop.simps [of _ _ _ entropy])
  moreover from seed_loop_finds [OF assms(1,6,5)] obtain i where i: "1 \<le> i" "i \<le> k" "seed_loop NormalizeText m prefix entropy 1 = Some (Inr (Encode m (entropy + i)))"
    "IsNewSeed NormalizeText (Encode m (entropy + i)) prefix" "\<forall>h. 1 \<le> h \<and> h < i \<longrightarrow> \<not> IsNewSeed NormalizeText (Encode m (entropy + h)) prefix" by blast
  ultimately show ?thesis using pos Decode_Encode [OF assms(1)] by (intro exI [of _ i] exI [of _ "Encode m (entropy + i)"]) (simp add: MakeSeed_def)
qed

theorem MakeSeed_finds_witness:
  "\<exists>m phrase. New ''en'' = Inr m \<and> MakeSeed (\<lambda>t. t) (\<lambda>maximum r. (r, Inr (maximum - 1))) m '''' 132 () = Some ((), Inr phrase) \<and> Decode m phrase = Inr (2 ^ 132)"
proof -
  obtain m where m: "New ''en'' = Inr m" by (simp add: New_def)
  have r: "roundedBits 132 = 132" by (simp add: roundedBits_def)
  let ?draw = "\<lambda>maximum r. (r :: unit, Inr (maximum - 1) :: string + nat)"
  from MakeSeed_finds [OF m, where numBits = 132 and draw = ?draw and r = "()" and entropy = "2 ^ 132 - 1" and k = 1 and NormalizeText = "\<lambda>t. t" and prefix = "''''"]
  have "\<exists>i phrase. 1 \<le> i \<and> i \<le> 1 \<and> MakeSeed (\<lambda>t. t) ?draw m '''' 132 () = Some ((), Inr phrase) \<and> Decode m phrase = Inr (2 ^ 132 - 1 + i)"
    by (auto simp: r IsNewSeed_def)
  then obtain i phrase where "1 \<le> i" "i \<le> 1" "MakeSeed (\<lambda>t. t) ?draw m '''' 132 () = Some ((), Inr phrase)" "Decode m phrase = Inr (2 ^ 132 - 1 + i)" by blast
  with m show ?thesis by (intro exI [of _ m] exI [of _ phrase]) simp
qed

end
