(* ===== verification/StreamDescriptor.thy ===== *)
theory StreamDescriptor
  imports HexText Aes Utf8 Decimal Base64
begin

text \<open>
  Streams: \<^verbatim>\<open>blob/descriptor.go\<close> and \<^verbatim>\<open>blob/creator.go\<close>. A file is cut into pieces, each piece padded, encrypted and stored
  under its hash; the descriptor lists the blobs and ends with an empty one. The source of randomness is the list
  of the bytes it still gives, a file its contents. \<^verbatim>\<open>json.Marshal\<close> of strings is written out, \<^verbatim>\<open>json.Unmarshal\<close> is a
  parameter.
\<close>

unbundle bit_operations_syntax

abbreviation (input) MaxBlobSize :: nat where "MaxBlobSize \<equiv> 2097152"
abbreviation (input) MaxStreamDescriptorSize :: nat where "MaxStreamDescriptorSize \<equiv> 2097152"
abbreviation (input) MaxStreamDescriptorBlobs :: nat where "MaxStreamDescriptorBlobs \<equiv> 12000"

section \<open>Hashes and hexadecimal text\<close>

definition hashBytes :: "bytes \<Rightarrow> string" where
  "hashBytes d = EncodeToString (sha384 d)"

definition unhex :: "char \<Rightarrow> byte" where
  "unhex c =
     (let v = (of_char c :: byte)
      in if 48 \<le> v \<and> v \<le> 57 then v - 48
         else if 97 \<le> v \<and> v \<le> 102 then v - 97 + 10
         else if 65 \<le> v \<and> v \<le> 70 then v - 65 + 10
         else 255)"

datatype hex_error = OddHexLength | InvalidHexByte | HashLength

fun hexDecode :: "string \<Rightarrow> hex_error + bytes" where
  "hexDecode (c # c' # src) =
     (let a = unhex c; b = unhex c'
      in if a > 15 \<or> b > 15 then Inl InvalidHexByte
         else and_then (hexDecode src) (\<lambda>bs. Inr ((push_bit 4 a OR b) # bs)))"
| "hexDecode src = Inr []"

definition decodeHex :: "string \<Rightarrow> hex_error + bytes" where
  "decodeHex s = (if length s mod 2 \<noteq> 0 then Inl OddHexLength else hexDecode s)"

definition hexToHash :: "string \<Rightarrow> hex_error + bytes" where
  "hexToHash s = and_then (decodeHex s) (\<lambda>b. if length b \<noteq> 48 then Inl HashLength else Inr b)"

definition ValidHash :: "string \<Rightarrow> bool" where
  "ValidHash blobHash \<longleftrightarrow> (case hexToHash blobHash of Inl _ \<Rightarrow> False | Inr _ \<Rightarrow> True)"

text \<open>A text of hexadecimal digits is in lower case when it has no capital letter of ASCII.\<close>

definition canonicalBlobHash :: "string \<Rightarrow> bool" where
  "canonicalBlobHash v \<longleftrightarrow> length v = 96 \<and> list_all (\<lambda>c. \<not> (65 \<le> (of_char c :: nat) \<and> (of_char c :: nat) \<le> 90)) v \<and> ValidHash v"

section \<open>Descriptors\<close>

record BlobInfo =
  BlobHash :: string
  BlobNum :: int
  BlobIV :: string
  BlobLength :: int

record StreamDescriptor =
  StreamName :: string
  StreamKey :: string
  SuggestedFileName :: string
  StreamHash :: string
  StreamType :: string
  DescriptorBlobs :: "BlobInfo list"

text \<open>\<^verbatim>\<open>json.Marshal\<close> of a string.\<close>

definition json_ascii :: "byte \<Rightarrow> bytes" where
  "json_ascii b =
     (if b = 0x22 \<or> b = 0x5C then [0x5C, b]
      else if b = 8 then [0x5C, 98] else if b = 12 then [0x5C, 102] else if b = 10 then [0x5C, 110]
      else if b = 13 then [0x5C, 114] else if b = 9 then [0x5C, 116]
      else if b < 0x20 \<or> b = 0x3C \<or> b = 0x3E \<or> b = 0x26 then [0x5C, 117, 48, 48] @ str (EncodeToString [b])
      else [b])"

function json_body :: "bytes \<Rightarrow> bytes" where
  "json_body bs =
     (if bs = [] then []
      else if unat (hd bs) < 0x80 then json_ascii (hd bs) @ json_body (tl bs)
      else case encoded_size bs of
             None \<Rightarrow> 0x5C # str ''ufffd'' @ json_body (tl bs)
           | Some n \<Rightarrow>
               (if take n bs = [0xE2, 0x80, 0xA8] then 0x5C # str ''u2028''
                else if take n bs = [0xE2, 0x80, 0xA9] then 0x5C # str ''u2029'' else take n bs) @ json_body (drop n bs))"
  by auto
termination
proof (relation "measure length")
  fix bs :: bytes and n assume "bs \<noteq> []" "encoded_size bs = Some n"
  then show "(drop n bs, bs) \<in> measure length" using encoded_size_bounds [of bs n] by (cases bs) auto
qed auto

declare json_body.simps [simp del]

definition quoted :: "string \<Rightarrow> bytes" where
  "quoted v = 0x22 # json_body (str v) @ [0x22]"

definition json_key :: "string \<Rightarrow> bytes" where
  "json_key name = 0x22 # str name @ 0x22 # str '': ''"

definition marshal_blob :: "BlobInfo \<Rightarrow> bytes" where
  "marshal_blob item =
     str ''{'' @ (if BlobHash item \<noteq> [] then json_key ''blob_hash'' @ quoted (BlobHash item) @ str '', '' else []) @
     json_key ''blob_num'' @ Itoa (BlobNum item) @ str '', '' @ json_key ''iv'' @ quoted (BlobIV item) @ str '', '' @
     json_key ''length'' @ Itoa (BlobLength item) @ str ''}''"

fun separated :: "bytes list \<Rightarrow> bytes" where
  "separated [] = []"
| "separated [x] = x"
| "separated (x # xs) = x @ str '', '' @ separated xs"

definition marshal_field :: "string \<times> string \<Rightarrow> bytes" where
  "marshal_field f = str '', '' @ json_key (fst f) @ quoted (snd f)"

definition marshalPythonDescriptor :: "StreamDescriptor \<Rightarrow> bytes" where
  "marshalPythonDescriptor descriptor =
     str ''{'' @ json_key ''blobs'' @ str ''['' @ separated (map marshal_blob (DescriptorBlobs descriptor)) @ str '']'' @
     concat (map marshal_field
       [(''key'', StreamKey descriptor), (''stream_hash'', StreamHash descriptor), (''stream_name'', StreamName descriptor),
        (''stream_type'', StreamType descriptor), (''suggested_file_name'', SuggestedFileName descriptor)]) @ str ''}''"

text \<open>The older order of fields; the loop stops after the first blob without a hash.\<close>

definition marshal_old_blob :: "BlobInfo \<Rightarrow> bytes" where
  "marshal_old_blob item =
     str ''{'' @ json_key ''length'' @ Itoa (BlobLength item) @ str '', '' @ json_key ''blob_num'' @ Itoa (BlobNum item) @ str '', '' @
     (if BlobHash item \<noteq> [] then json_key ''blob_hash'' @ quoted (BlobHash item) @ str '', '' else []) @
     json_key ''iv'' @ quoted (BlobIV item) @ str ''}''"

fun upto_terminator :: "BlobInfo list \<Rightarrow> BlobInfo list" where
  "upto_terminator [] = []"
| "upto_terminator (item # items) = (if BlobHash item = [] then [item] else item # upto_terminator items)"

definition MarshalOldSortDescriptor :: "StreamDescriptor \<Rightarrow> bytes" where
  "MarshalOldSortDescriptor descriptor =
     str ''{'' @ json_key ''stream_name'' @ quoted (StreamName descriptor) @ str '', '' @ json_key ''blobs'' @ str ''['' @
     separated (map marshal_old_blob (upto_terminator (DescriptorBlobs descriptor))) @ str '']'' @
     concat (map marshal_field
       [(''stream_type'', StreamType descriptor), (''key'', StreamKey descriptor),
        (''suggested_file_name'', SuggestedFileName descriptor), (''stream_hash'', StreamHash descriptor)]) @ str ''}''"

definition item_hash :: "BlobInfo \<Rightarrow> bytes" where
  "item_hash item =
     sha384 ((if BlobLength item \<noteq> 0 then str (BlobHash item) else []) @ Itoa (BlobNum item) @ str (BlobIV item) @ Itoa (BlobLength item))"

definition calculateCreatedStreamHash :: "StreamDescriptor \<Rightarrow> string" where
  "calculateCreatedStreamHash descriptor =
     hashBytes (str (StreamName descriptor) @ str (StreamKey descriptor) @ str (SuggestedFileName descriptor) @
       sha384 (concat (map item_hash (DescriptorBlobs descriptor))))"

section \<open>Checks\<close>

datatype descriptor_error = NoBlobs | TooManyBlobs | BadKey | BadIV int | OutOfOrder | ZeroLengthData | NoHash int | BadLength int
  | BadHash int | StreamTooLarge | NoTerminator | TerminatorHash | EncodedTooLarge | BadMetadata | StreamHashMismatch
  | InvalidSDHash | EmptyBlob | DescriptorTooLarge | SDHashMismatch | ParseFailed string | MissingKey

fun validate_blobs :: "int \<Rightarrow> int \<Rightarrow> int \<Rightarrow> BlobInfo list \<Rightarrow> descriptor_error option" where
  "validate_blobs final index plain [] = None"
| "validate_blobs final index plain (item # items) =
     (case DecodeString (BlobIV item) of
        None \<Rightarrow> Some (BadIV index)
      | Some iv \<Rightarrow>
          if length iv \<noteq> 16 then Some (BadIV index)
          else if BlobNum item \<noteq> index then Some OutOfOrder
          else if index < final \<and> BlobLength item = 0 then Some ZeroLengthData
          else if index < final \<and> BlobHash item = [] then Some (NoHash index)
          else if index < final \<and> (BlobLength item < 16 \<or> BlobLength item > int MaxBlobSize \<or> BlobLength item mod 16 \<noteq> 0) then Some (BadLength index)
          else if index < final \<and> \<not> canonicalBlobHash (BlobHash item) then Some (BadHash index)
          else if index < final \<and> plain > int64_max - (BlobLength item - 1) then Some StreamTooLarge
          else validate_blobs final (index + 1) (if index < final then plain + (BlobLength item - 1) else plain) items)"

definition normalizeMetadata :: "string \<Rightarrow> string option" where
  "normalizeMetadata source =
     (case DecodeString source of None \<Rightarrow> None | Some decoded \<Rightarrow> if \<not> utf8_valid decoded then None else Some (EncodeToString decoded))"

definition ValidateDescriptor :: "StreamDescriptor \<Rightarrow> descriptor_error option" where
  "ValidateDescriptor descriptor =
     (if DescriptorBlobs descriptor = [] then Some NoBlobs
      else if length (DescriptorBlobs descriptor) > MaxStreamDescriptorBlobs then Some TooManyBlobs
      else if (case DecodeString (StreamKey descriptor) of None \<Rightarrow> True | Some key \<Rightarrow> length key \<noteq> 16) then Some BadKey
      else
        case validate_blobs (int (length (DescriptorBlobs descriptor)) - 1) 0 0 (DescriptorBlobs descriptor) of
          Some e \<Rightarrow> Some e
        | None \<Rightarrow>
            let terminator = last (DescriptorBlobs descriptor)
            in if BlobLength terminator \<noteq> 0 then Some NoTerminator
               else if BlobHash terminator \<noteq> [] then Some TerminatorHash
               else if length (marshalPythonDescriptor descriptor) > MaxStreamDescriptorSize then Some EncodedTooLarge
               else
                 case (normalizeMetadata (StreamName descriptor), normalizeMetadata (SuggestedFileName descriptor)) of
                   (Some name, Some suggested) \<Rightarrow>
                     if calculateCreatedStreamHash (descriptor\<lparr>StreamName := name, SuggestedFileName := suggested\<rparr>) \<noteq> StreamHash descriptor
                     then Some StreamHashMismatch else None
                 | _ \<Rightarrow> Some BadMetadata)"

text \<open>\<^verbatim>\<open>json.Unmarshal\<close> into a descriptor is a parameter.\<close>

type_synonym unmarshaller = "bytes \<Rightarrow> string + StreamDescriptor"

definition ParseDescriptor :: "unmarshaller \<Rightarrow> bytes \<Rightarrow> descriptor_error + StreamDescriptor" where
  "ParseDescriptor Unmarshal d =
     (if d = [] then Inl EmptyBlob
      else if length d > MaxStreamDescriptorSize then Inl DescriptorTooLarge
      else case Unmarshal d of
             Inl e \<Rightarrow> Inl (ParseFailed e)
           | Inr sd \<Rightarrow> if StreamKey sd = [] then Inl MissingKey else if DescriptorBlobs sd = [] then Inl NoBlobs else Inr sd)"

definition DecodeDescriptor :: "unmarshaller \<Rightarrow> string \<Rightarrow> bytes \<Rightarrow> descriptor_error + StreamDescriptor" where
  "DecodeDescriptor Unmarshal sdHash d =
     (if \<not> canonicalBlobHash sdHash then Inl InvalidSDHash
      else if d = [] \<or> length d > MaxStreamDescriptorSize then (case ParseDescriptor Unmarshal d of Inl e \<Rightarrow> Inl e | Inr sd \<Rightarrow> Inr sd)
      else if hashBytes d \<noteq> sdHash then Inl SDHashMismatch
      else and_then (ParseDescriptor Unmarshal d) (\<lambda>descriptor.
        case ValidateDescriptor descriptor of Some e \<Rightarrow> Inl e | None \<Rightarrow> Inr descriptor))"

definition ContentBlobs :: "StreamDescriptor \<Rightarrow> BlobInfo list" where
  "ContentBlobs sd = filter (\<lambda>b. BlobLength b > 0 \<and> BlobHash b \<noteq> []) (DescriptorBlobs sd)"

definition TotalSize :: "StreamDescriptor \<Rightarrow> int" where
  "TotalSize sd = foldl (\<lambda>n b. wrap64 (n + BlobLength b)) 0 (ContentBlobs sd)"

section \<open>Encryption of blobs\<close>

datatype blob_error = BadKeyHex | BadIVHex | KeyLength nat | IVLength nat | NotAligned nat | CipherKey | PaddingError

definition encryptStreamBlob :: "bytes \<Rightarrow> bytes \<Rightarrow> bytes \<Rightarrow> blob_error + bytes" where
  "encryptStreamBlob key iv plaintext =
     (if \<not> aesKeySize key then Inl CipherKey else Inr (cbcEncrypt (aesEncrypt key) iv (padded plaintext)))"

definition pkcs7Unpad :: "bytes \<Rightarrow> blob_error + bytes" where
  "pkcs7Unpad d =
     (if d = [] then Inl PaddingError
      else
        let padLen = unat (last d)
        in if padLen = 0 \<or> padLen > 16 \<or> padLen > length d then Inl PaddingError
           else if \<not> list_all (\<lambda>b. b = of_nat padLen) (drop (length d - padLen) d) then Inl PaddingError
           else Inr (take (length d - padLen) d))"

definition DecryptBlob :: "bytes \<Rightarrow> string \<Rightarrow> string \<Rightarrow> blob_error + bytes" where
  "DecryptBlob encrypted keyHex ivHex =
     (case DecodeString keyHex of
        None \<Rightarrow> Inl BadKeyHex
      | Some key \<Rightarrow>
          (case DecodeString ivHex of
             None \<Rightarrow> Inl BadIVHex
           | Some iv \<Rightarrow>
               if length key \<noteq> 16 then Inl (KeyLength (length key))
               else if length iv \<noteq> 16 then Inl (IVLength (length iv))
               else if encrypted = [] \<or> length encrypted mod 16 \<noteq> 0 then Inl (NotAligned (length encrypted))
               else if \<not> aesKeySize key then Inl CipherKey
               else pkcs7Unpad (cbcDecrypt (aesDecrypt key) iv encrypted)))"

section \<open>Names\<close>

definition illegal :: "char \<Rightarrow> bool" where
  "illegal c \<longleftrightarrow> c \<in> set ''<>:/|?*'' \<or> of_char c = (0x22 :: nat) \<or> of_char c = (0x5C :: nat) \<or> of_char c \<le> (0x1F :: nat)"

text \<open>\<^verbatim>\<open>filepath.Base\<close> and \<^verbatim>\<open>filepath.Ext\<close> with the slash as separator.\<close>

definition after_last :: "char \<Rightarrow> string \<Rightarrow> string" where
  "after_last c s = rev (takeWhile (\<lambda>x. x \<noteq> c) (rev s))"

definition filepath_Base :: "string \<Rightarrow> string" where
  "filepath_Base path =
     (if path = [] then ''.''
      else let p = rev (dropWhile (\<lambda>c. c = CHR ''/'') (rev path)) in if p = [] then ''/'' else after_last (CHR ''/'') p)"

definition filepath_Ext :: "string \<Rightarrow> string" where
  "filepath_Ext path =
     (let e = after_last (CHR ''/'') path in if CHR ''.'' \<in> set e then CHR ''.'' # after_last (CHR ''.'') e else [])"

text \<open>\<^verbatim>\<open>strings.TrimSpace\<close>: the white space of ASCII and the encodings of the other white space of Unicode.\<close>

definition space_encodings :: "bytes list" where
  "space_encodings =
     map (\<lambda>n. [n]) [9, 10, 11, 12, 13, 32] @ [[0xC2, 0x85], [0xC2, 0xA0], [0xE1, 0x9A, 0x80]] @
     map (\<lambda>n. [0xE2, 0x80, n]) [0x80, 0x81, 0x82, 0x83, 0x84, 0x85, 0x86, 0x87, 0x88, 0x89, 0x8A, 0xA8, 0xA9, 0xAF] @
     [[0xE2, 0x81, 0x9F], [0xE3, 0x80, 0x80]]"

definition leading_space :: "string \<Rightarrow> string option" where
  "leading_space s = map_option (\<lambda>e. drop (length e) s) (find (\<lambda>e. take (length e) (str s) = e) space_encodings)"

definition trailing_space :: "string \<Rightarrow> string option" where
  "trailing_space s = map_option (\<lambda>e. take (length s - length e) s) (find (\<lambda>e. length e \<le> length s \<and> drop (length s - length e) (str s) = e) space_encodings)"

fun trim_with :: "(string \<Rightarrow> string option) \<Rightarrow> nat \<Rightarrow> string \<Rightarrow> string" where
  "trim_with f 0 s = s"
| "trim_with f (Suc n) s = (case f s of None \<Rightarrow> s | Some s' \<Rightarrow> trim_with f n s')"

definition TrimSpace :: "string \<Rightarrow> string" where
  "TrimSpace s = (let s1 = trim_with leading_space (length s) s in trim_with trailing_space (length s1) s1)"

definition sanitizePublishedFileName :: "string \<Rightarrow> string" where
  "sanitizePublishedFileName name =
     (let ext = filepath_Ext name;
          base = TrimSpace (filter (\<lambda>c. \<not> illegal c) (take (length name - length ext) name));
          ext1 = TrimSpace (filter (\<lambda>c. \<not> illegal c) ext);
          base1 = (if base = [] then ''lbry_download'' else base)
      in if length ext1 > 1 then base1 @ ext1 else base1)"

section \<open>Creation\<close>

record CreatedStream =
  CreatedDescriptor :: StreamDescriptor
  DescriptorBytes :: bytes
  SDHash :: string
  CreatedBlobs :: "string \<rightharpoonup> bytes"

datatype create_error = ReadFileFailed | EmptyFile | StreamNeedsTooManyBlobs nat | RandomExhausted | EncryptFailed blob_error | Invalid descriptor_error

text \<open>\<^verbatim>\<open>io.ReadFull\<close> of 16 bytes from the bytes the reader still gives.\<close>

definition read16 :: "bytes \<Rightarrow> create_error + bytes \<times> bytes" where
  "read16 source = (if length source < 16 then Inl RandomExhausted else Inr (take 16 source, drop 16 source))"

function create_blobs ::
  "bytes \<Rightarrow> bytes \<Rightarrow> bytes \<Rightarrow> BlobInfo list \<Rightarrow> (string \<rightharpoonup> bytes) \<Rightarrow> create_error + bytes \<times> BlobInfo list \<times> (string \<rightharpoonup> bytes)" where
  "create_blobs key content source infos stored =
     (if content = [] then Inr (source, infos, stored)
      else and_then (read16 source) (\<lambda>(iv, source').
        case encryptStreamBlob key iv (take (MaxBlobSize - 1) content) of
          Inl e \<Rightarrow> Inl (EncryptFailed e)
        | Inr encrypted \<Rightarrow>
            let hash = EncodeToString (sha384 encrypted)
            in create_blobs key (drop (MaxBlobSize - 1) content) source'
                 (infos @ [\<lparr>BlobHash = hash, BlobNum = int (length infos), BlobIV = EncodeToString iv, BlobLength = int (length encrypted)\<rparr>])
                 (stored(hash \<mapsto> encrypted))))"
  by pat_completeness auto
termination by (relation "measure (\<lambda>(_, content, _). length content)") auto

declare create_blobs.simps [simp del]

definition CreateStreamDescriptor :: "bytes option \<Rightarrow> string \<Rightarrow> bytes \<Rightarrow> create_error + CreatedStream" where
  "CreateStreamDescriptor file filePath source =
     (case file of
        None \<Rightarrow> Inl ReadFileFailed
      | Some content \<Rightarrow>
          if content = [] then Inl EmptyFile
          else
            let dataBlobCount = (length content + MaxBlobSize - 2) div (MaxBlobSize - 1)
            in if dataBlobCount + 1 > MaxStreamDescriptorBlobs then Inl (StreamNeedsTooManyBlobs (dataBlobCount + 1))
               else and_then (read16 source) (\<lambda>(key, source1).
                 and_then (create_blobs key content source1 [] Map.empty) (\<lambda>(source2, infos, stored).
                 and_then (read16 source2) (\<lambda>(terminatorIV, _).
                   let infos1 = infos @ [\<lparr>BlobHash = [], BlobNum = int (length infos), BlobIV = EncodeToString terminatorIV, BlobLength = 0\<rparr>];
                       fileName = filepath_Base filePath;
                       unhashed = \<lparr>StreamName = EncodeToString (str fileName), StreamKey = EncodeToString key,
                         SuggestedFileName = EncodeToString (str (sanitizePublishedFileName fileName)), StreamHash = [],
                         StreamType = ''lbryfile'', DescriptorBlobs = infos1\<rparr>;
                       descriptor = unhashed\<lparr>StreamHash := calculateCreatedStreamHash unhashed\<rparr>
                   in case ValidateDescriptor descriptor of
                        Some e \<Rightarrow> Inl (Invalid e)
                      | None \<Rightarrow>
                          let encoded = marshalPythonDescriptor descriptor
                          in Inr \<lparr>CreatedDescriptor = descriptor, DescriptorBytes = encoded, SDHash = hashBytes encoded, CreatedBlobs = stored\<rparr>))))"
section \<open>Hexadecimal round trips\<close>

lemma hex_digit_facts:
  assumes "d < 16"
  shows "unhex (hex_digit d) = of_nat d \<and> \<not> (65 \<le> (of_char (hex_digit d) :: nat) \<and> (of_char (hex_digit d) :: nat) \<le> 90) \<and>
    json_ascii (of_char (hex_digit d)) = [of_char (hex_digit d)] \<and> unat (of_char (hex_digit d) :: byte) < 128"
proof -
  have "list_all (\<lambda>d. unhex (hex_digit d) = of_nat d \<and> \<not> (65 \<le> (of_char (hex_digit d) :: nat) \<and> (of_char (hex_digit d) :: nat) \<le> 90) \<and>
    json_ascii (of_char (hex_digit d)) = [of_char (hex_digit d)] \<and> unat (of_char (hex_digit d) :: byte) < 128) [0..<16]"
    by (simp add: upt_rec hex_digit_def unhex_def json_ascii_def Let_def)
  then show ?thesis using assms by (simp add: list_all_iff)
qed

lemma join_nibbles: "push_bit 4 (of_nat (unat b div 16)) OR of_nat (unat b mod 16) = (b :: byte)"
  using or_add [of "unat b mod 16" 4 "unat b div 16"] by simp

lemma of_nat_less_16: "d < 16 \<Longrightarrow> \<not> (15 :: byte) < of_nat d"
  by (simp add: word_less_nat_alt)

lemma hexDecode_EncodeToString: "hexDecode (EncodeToString bs) = Inr bs"
proof (induction bs)
  case (Cons b bs)
  show ?case using Cons hex_digit_facts [OF nibbles(1) [of b]] hex_digit_facts [OF nibbles(2) [of b]] of_nat_less_16 [OF nibbles(1) [of b]]
      of_nat_less_16 [OF nibbles(2) [of b]] join_nibbles [of b] unfolding EncodeToString_Cons
    by (simp only: hexDecode.simps Let_def) simp
qed (simp add: EncodeToString_Cons)

lemma canonicalBlobHash_hashBytes [simp]: "canonicalBlobHash (hashBytes d)"
proof -
  have "list_all (\<lambda>c. \<not> (65 \<le> (of_char c :: nat) \<and> (of_char c :: nat) \<le> 90)) (hashBytes d)"
    unfolding list_all_iff hashBytes_def using EncodeToString_chars hex_digit_facts by blast
  moreover have "ValidHash (hashBytes d)" by (simp add: ValidHash_def hexToHash_def decodeHex_def hashBytes_def hexDecode_EncodeToString)
  ultimately show ?thesis by (simp add: canonicalBlobHash_def hashBytes_def)
qed

lemma hashBytes_nonempty [simp]: "hashBytes d \<noteq> []"
proof -
  have "length (hashBytes d) = 96" by (simp add: hashBytes_def)
  then show ?thesis by auto
qed

section \<open>Encryption\<close>

lemma pkcs7Unpad_padded: "pkcs7Unpad (padded bs) = Inr bs"
proof -
  obtain p where p: "padded bs = bs @ replicate p (of_nat p)" "1 \<le> p" "p \<le> 16" using padded_facts(1-3) by blast
  then have "last (bs @ replicate p (of_nat p)) = (of_nat p :: byte)" "unat (of_nat p :: byte) = p" by (simp_all add: last_append last_replicate)
  then show ?thesis using p by (simp add: pkcs7Unpad_def Let_def list_all_iff)
qed

abbreviation (input) ciphertext :: "bytes \<Rightarrow> bytes \<Rightarrow> bytes \<Rightarrow> bytes" where
  "ciphertext key iv plaintext \<equiv> cbcEncrypt (aesEncrypt key) iv (padded plaintext)"

lemma ciphertext_facts:
  assumes "length key = 16" and "length iv = 16"
  shows "length (ciphertext key iv plaintext) = length (padded plaintext)"
    "DecryptBlob (ciphertext key iv plaintext) (EncodeToString key) (EncodeToString iv) = Inr plaintext"
    "encryptStreamBlob key iv plaintext = Inr (ciphertext key iv plaintext)"
proof -
  have key: "aesKeySize key" using assms(1) by (simp add: aesKeySize_def)
  note p = padded_facts(5,6) [of plaintext]
  show l: "length (ciphertext key iv plaintext) = length (padded plaintext)" using aes.length_cbc [OF key assms(2), of "padded plaintext"] p by auto
  then have "ciphertext key iv plaintext \<noteq> []" using p by (metis length_0_conv)
  then show "DecryptBlob (ciphertext key iv plaintext) (EncodeToString key) (EncodeToString iv) = Inr plaintext"
    using l p key assms aes.cbc_round_trip [OF key assms(2) p(1)] by (simp add: DecryptBlob_def pkcs7Unpad_padded)
  show "encryptStreamBlob key iv plaintext = Inr (ciphertext key iv plaintext)" using key by (simp add: encryptStreamBlob_def)
qed

lemma padded_size:
  assumes "length bs < MaxBlobSize"
  shows "16 \<le> length (padded bs)" "length (padded bs) \<le> MaxBlobSize" "length (padded bs) mod 16 = 0"
proof -
  have split: "n = q * 16 + i \<Longrightarrow> i < 16 \<Longrightarrow> n + (16 - i) = (q + 1) * 16" for n q i :: nat by simp
  have "n + (16 - n mod 16) = (n div 16 + 1) * 16" for n :: nat by (rule split) simp_all
  then have "length (padded bs) = (length bs div 16 + 1) * 16" using padded_facts(4) [of bs] by simp
  moreover have "length bs div 16 < 131072" using assms by (simp add: div_less_iff_less_mult)
  ultimately show "16 \<le> length (padded bs)" "length (padded bs) \<le> MaxBlobSize" "length (padded bs) mod 16 = 0" by simp_all
qed

section \<open>What the creator produces\<close>

function pieces :: "bytes \<Rightarrow> bytes list" where
  "pieces content = (if content = [] then [] else take (MaxBlobSize - 1) content # pieces (drop (MaxBlobSize - 1) content))"
  by auto
termination by (relation "measure length") auto

declare pieces.simps [simp del]

lemma pieces_Nil [simp]: "pieces [] = []"
  by (simp add: pieces.simps)

lemma pieces_Cons: "content \<noteq> [] \<Longrightarrow> pieces content = take (MaxBlobSize - 1) content # pieces (drop (MaxBlobSize - 1) content)"
  by (simp add: pieces.simps [of content])

lemma concat_pieces: "concat (pieces content) = content"
  by (induction content rule: pieces.induct) (metis append_take_drop_id concat.simps pieces.simps)

lemma pieces_sizes: "piece \<in> set (pieces content) \<Longrightarrow> piece \<noteq> [] \<and> length piece < MaxBlobSize"
proof (induction content rule: pieces.induct)
  case (1 content)
  show ?case
  proof (cases "content = []")
    case False
    then show ?thesis using 1 by (cases "piece = take (MaxBlobSize - 1) content") (auto simp: pieces_Cons)
  qed (use 1 in simp)
qed

text \<open>The number of pieces is the count that the creator computes beforehand.\<close>

lemma length_pieces: "content \<noteq> [] \<Longrightarrow> length (pieces content) = (length content + MaxBlobSize - 2) div (MaxBlobSize - 1)"
proof (induction content rule: pieces.induct)
  case (1 content)
  let ?rest = "drop (MaxBlobSize - 1) content"
  show ?case
  proof (cases "?rest = []")
    case True
    then have "length content \<le> MaxBlobSize - 1" "1 \<le> length content" using 1(2) by (simp_all add: Suc_leI)
    then have "(length content + MaxBlobSize - 2) div (MaxBlobSize - 1) = 1" by (intro div_nat_eqI) simp_all
    then show ?thesis using True 1(2) by (simp add: pieces_Cons)
  next
    case False
    then have big: "MaxBlobSize - 1 < length content" by simp
    have "length (pieces ?rest) = (length ?rest + MaxBlobSize - 2) div (MaxBlobSize - 1)" using 1(1) [OF 1(2) False] .
    moreover have "length content + MaxBlobSize - 2 = (length ?rest + MaxBlobSize - 2) + (MaxBlobSize - 1)" using big by simp
    moreover have "length (pieces content) = Suc (length (pieces ?rest))" by (subst pieces_Cons [OF 1(2)]) (rule length_Cons)
    moreover have "(n + (MaxBlobSize - 1)) div (MaxBlobSize - 1) = Suc (n div (MaxBlobSize - 1))" for n :: nat by simp
    ultimately show ?thesis by metis
  qed
qed

text \<open>The entries and ciphertexts for pieces, with one vector after the other from the source of randomness.\<close>

fun entries :: "bytes \<Rightarrow> bytes \<Rightarrow> nat \<Rightarrow> bytes list \<Rightarrow> (BlobInfo \<times> bytes) list" where
  "entries key source k [] = []"
| "entries key source k (piece # ps) =
     (let iv = take 16 source; e = ciphertext key iv piece
      in (\<lparr>BlobHash = hashBytes e, BlobNum = int k, BlobIV = EncodeToString iv, BlobLength = int (length e)\<rparr>, e) # entries key (drop 16 source) (Suc k) ps)"

lemma length_entries [simp]: "length (entries key source k ps) = length ps"
  by (induction ps arbitrary: source k) (simp_all add: Let_def)

fun stored_blobs :: "(BlobInfo \<times> bytes) list \<Rightarrow> (string \<rightharpoonup> bytes) \<Rightarrow> (string \<rightharpoonup> bytes)" where
  "stored_blobs [] m = m"
| "stored_blobs ((info, e) # es) m = stored_blobs es (m(BlobHash info \<mapsto> e))"

lemma create_blobs_entries:
  assumes "length key = 16" and "16 * length (pieces content) \<le> length source"
  shows "create_blobs key content source infos stored =
    Inr (drop (16 * length (pieces content)) source, infos @ map fst (entries key source (length infos) (pieces content)),
      stored_blobs (entries key source (length infos) (pieces content)) stored)"
  using assms(2)
proof (induction content arbitrary: source infos stored rule: pieces.induct)
  case (1 content)
  show ?case
  proof (cases "content = []")
    case True
    then show ?thesis by (simp add: create_blobs.simps)
  next
    case False
    let ?piece = "take (MaxBlobSize - 1) content" let ?rest = "drop (MaxBlobSize - 1) content" let ?iv = "take 16 source"
    let ?e = "ciphertext key ?iv ?piece"
    have ps: "pieces content = ?piece # pieces ?rest" using False by (rule pieces_Cons)
    then have src: "16 \<le> length source" "16 * length (pieces ?rest) \<le> length (drop 16 source)" using "1.prems" by simp_all
    have "encryptStreamBlob key ?iv ?piece = Inr ?e" using assms(1) src(1) by (intro ciphertext_facts(3)) simp_all
    then have "create_blobs key content source infos stored =
      create_blobs key ?rest (drop 16 source)
        (infos @ [\<lparr>BlobHash = hashBytes ?e, BlobNum = int (length infos), BlobIV = EncodeToString ?iv, BlobLength = int (length ?e)\<rparr>]) (stored(hashBytes ?e \<mapsto> ?e))"
      using False src(1) by (subst create_blobs.simps) (simp add: read16_def hashBytes_def Let_def)
    also note "1.IH" [OF False src(2)]
    finally show ?thesis unfolding ps by (simp only: entries.simps stored_blobs.simps Let_def BlobInfo.select_convs list.map fst_conv length_append length_Cons list.size add_0_right add_Suc_right append.assoc append.simps drop_drop mult_Suc_right add.commute [of _ 16])
  qed
qed

lemma entries_nth:
  "i < length ps \<Longrightarrow> entries key source k ps ! i =
    (let iv = take 16 (drop (16 * i) source); e = ciphertext key iv (ps ! i)
     in (\<lparr>BlobHash = hashBytes e, BlobNum = int (k + i), BlobIV = EncodeToString iv, BlobLength = int (length e)\<rparr>, e))"
proof (induction ps arbitrary: source k i)
  case (Cons p ps)
  then show ?case by (cases i) (simp_all add: Let_def add.commute)
qed simp

text \<open>What the checks ask of an entry.\<close>

definition good_entry :: "BlobInfo \<Rightarrow> bool" where
  "good_entry item \<longleftrightarrow> (\<exists>iv. DecodeString (BlobIV item) = Some iv \<and> length iv = 16) \<and> 16 \<le> BlobLength item \<and> BlobLength item \<le> int MaxBlobSize \<and>
     BlobLength item mod 16 = 0 \<and> canonicalBlobHash (BlobHash item) \<and> BlobHash item \<noteq> []"

lemma entries_good:
  assumes "length key = 16" and "16 * length ps \<le> length source" and "\<And>p. p \<in> set ps \<Longrightarrow> length p < MaxBlobSize" and "i < length ps"
  shows "good_entry (fst (entries key source k ps ! i))"
    "DecryptBlob (snd (entries key source k ps ! i)) (EncodeToString key) (BlobIV (fst (entries key source k ps ! i))) = Inr (ps ! i)"
    "hashBytes (snd (entries key source k ps ! i)) = BlobHash (fst (entries key source k ps ! i))"
    "BlobNum (fst (entries key source k ps ! i)) = int (k + i)" "BlobLength (fst (entries key source k ps ! i)) = int (length (snd (entries key source k ps ! i)))"
proof -
  let ?iv = "take 16 (drop (16 * i) source)"
  have "16 * Suc i \<le> length source" using assms(2,4) by (meson Suc_leI le_trans mult_le_mono2)
  then have iv: "length ?iv = 16" by simp
  note c = ciphertext_facts [OF assms(1) iv, of "ps ! i"]
  have p: "length (ps ! i) < MaxBlobSize" using assms(3,4) by simp
  have "int n mod 16 = 0" if "n mod 16 = 0" for n using zmod_int [of n 16] that by simp
  with padded_size [OF p] c(1) have "16 \<le> int (length (ciphertext key ?iv (ps ! i)))" "int (length (ciphertext key ?iv (ps ! i))) \<le> int MaxBlobSize"
    "int (length (ciphertext key ?iv (ps ! i))) mod 16 = 0" by simp_all
  then show "good_entry (fst (entries key source k ps ! i))"
    using iv by (simp only: good_entry_def entries_nth [OF assms(4)] Let_def) simp
  show "DecryptBlob (snd (entries key source k ps ! i)) (EncodeToString key) (BlobIV (fst (entries key source k ps ! i))) = Inr (ps ! i)"
    "hashBytes (snd (entries key source k ps ! i)) = BlobHash (fst (entries key source k ps ! i))"
    "BlobNum (fst (entries key source k ps ! i)) = int (k + i)" "BlobLength (fst (entries key source k ps ! i)) = int (length (snd (entries key source k ps ! i)))"
    using c(2) by (simp_all only: entries_nth [OF assms(4)] Let_def) simp_all
qed

section \<open>A created descriptor passes the checks\<close>

lemma validate_blobs_good:
  assumes "\<And>item. item \<in> set items \<Longrightarrow> good_entry item" and "map BlobNum items = map (\<lambda>i. int (k + i)) [0..<length items]"
    and "k + length items \<le> 12000" and "plain \<le> int k * int MaxBlobSize"
    and "DecodeString (BlobIV t) = Some iv" and "length iv = 16" and "BlobNum t = int (k + length items)"
  shows "validate_blobs (int (k + length items)) (int k) plain (items @ [t]) = None"
  using assms
proof (induction items arbitrary: k plain)
  case (Cons item items)
  have g: "good_entry item" and num: "BlobNum item = int k" using Cons.prems(1,2) by (simp_all add: upt_conv_Cons del: upt_Suc)
  have nums: "map BlobNum items = map (\<lambda>i. int (Suc k + i)) [0..<length items]"
    using Cons.prems(2) by (simp add: map_upt_Suc del: upt_Suc)
  have "int k * int MaxBlobSize \<le> 12000 * int MaxBlobSize" using Cons.prems(3) by simp
  then have small: "plain \<le> int64_max - (BlobLength item - 1)" using Cons.prems(4) g unfolding good_entry_def int64_max_def by simp
  have "plain + (BlobLength item - 1) \<le> int (Suc k) * int MaxBlobSize" using Cons.prems(4) g unfolding good_entry_def by simp
  then have "validate_blobs (int (Suc k + length items)) (int (Suc k)) (plain + (BlobLength item - 1)) (items @ [t]) = None"
    using Cons.prems nums by (intro Cons.IH) simp_all
  then have "validate_blobs (int (k + length (item # items))) (int k + 1) (plain + (BlobLength item - 1)) (items @ [t]) = None"
    by (simp add: add.commute)
  then show ?case using g num small unfolding good_entry_def by auto
next
  case Nil
  then show ?case by simp
qed

lemma json_body_plain: "(\<And>b. b \<in> set bs \<Longrightarrow> unat b < 128 \<and> json_ascii b = [b]) \<Longrightarrow> json_body bs = bs"
  by (induction bs) (simp_all add: json_body.simps)

lemma quoted_EncodeToString: "length (quoted (EncodeToString bs)) = 2 * length bs + 2"
proof -
  have "json_body (str (EncodeToString bs)) = str (EncodeToString bs)"
  proof (rule json_body_plain)
    fix b assume "b \<in> set (str (EncodeToString bs))"
    then obtain c where "c \<in> set (EncodeToString bs)" "b = of_char c" by (auto simp: str_def)
    then show "unat b < 128 \<and> json_ascii b = [b]" using EncodeToString_chars hex_digit_facts by blast
  qed
  then show ?thesis by (simp add: quoted_def)
qed

lemma length_digits_le: "n < 10 ^ k \<Longrightarrow> length (digits_le 10 n) \<le> k"
proof (induction k arbitrary: n)
  case (Suc k)
  show ?case
  proof (cases "n = 0")
    case False
    have "n div 10 < 10 ^ k" using Suc.prems by (simp add: div_less_iff_less_mult mult.commute)
    then show ?thesis using Suc.IH False by (simp add: digits_le_step)
  qed simp
qed simp

lemma length_Itoa: "0 \<le> v \<Longrightarrow> v < 10 ^ k \<Longrightarrow> 1 \<le> k \<Longrightarrow> length (Itoa v) \<le> k"
proof -
  assume v: "0 \<le> v" "v < 10 ^ k" "1 \<le> k"
  then have "nat v < 10 ^ k" by (metis nat_less_iff of_nat_numeral of_nat_power)
  then show ?thesis using v length_digits_le [of "nat v" k] by (simp add: Itoa_def FormatUint_def)
qed

lemma length_marshal_blob:
  assumes "BlobHash item = [] \<or> BlobHash item = EncodeToString h \<and> length h = 48" and "BlobIV item = EncodeToString iv" and "length iv = 16"
    and "0 \<le> BlobNum item" and "BlobNum item < 100000" and "0 \<le> BlobLength item" and "BlobLength item < 10000000"
  shows "length (marshal_blob item) \<le> 200"
proof -
  have "length (Itoa (BlobNum item)) \<le> 5" "length (Itoa (BlobLength item)) \<le> 7" using assms by (auto intro!: length_Itoa)
  then show ?thesis using assms(1-3) by (auto simp: marshal_blob_def json_key_def quoted_EncodeToString)
qed

lemma length_separated: "(\<And>x. x \<in> set xs \<Longrightarrow> length x \<le> 200) \<Longrightarrow> length (separated xs) \<le> 202 * length xs"
proof (induction xs rule: separated.induct)
  case (3 x y xs)
  then have "length (separated (y # xs)) \<le> 202 * length (y # xs)" "length x \<le> 200" by simp_all
  then show ?case by simp
qed simp_all

definition created_descriptor :: "bytes \<Rightarrow> string \<Rightarrow> bytes \<Rightarrow> StreamDescriptor" where
  "created_descriptor content filePath source =
     (let n = length (pieces content); key = take 16 source;
          infos = map fst (entries key (drop 16 source) 0 (pieces content)) @
            [\<lparr>BlobHash = [], BlobNum = int n, BlobIV = EncodeToString (take 16 (drop (16 * (n + 1)) source)), BlobLength = 0\<rparr>];
          fileName = filepath_Base filePath;
          unhashed = \<lparr>StreamName = EncodeToString (str fileName), StreamKey = EncodeToString key,
            SuggestedFileName = EncodeToString (str (sanitizePublishedFileName fileName)), StreamHash = [], StreamType = ''lbryfile'', DescriptorBlobs = infos\<rparr>
      in unhashed\<lparr>StreamHash := calculateCreatedStreamHash unhashed\<rparr>)"

text \<open>Room for the descriptor: the entries, and the two names in hexadecimal.\<close>

definition fits :: "bytes \<Rightarrow> string \<Rightarrow> bool" where
  "fits content filePath \<longleftrightarrow>
     202 * (length (pieces content) + 1) + 2 * length (filepath_Base filePath) + 2 * length (sanitizePublishedFileName (filepath_Base filePath)) + 400 \<le> MaxStreamDescriptorSize"

lemma entry_sizes:
  assumes "16 * (length (pieces content) + 2) \<le> length source" and "length (pieces content) < 12000" and "e \<in> set (entries (take 16 source) (drop 16 source) 0 (pieces content))"
  shows "good_entry (fst e)" "length (marshal_blob (fst e)) \<le> 200"
proof -
  let ?key = "take 16 source" let ?src = "drop 16 source" let ?ps = "pieces content"
  obtain i where i: "i < length ?ps" "e = entries ?key ?src 0 ?ps ! i" using assms(3) by (auto simp: in_set_conv_nth)
  have key: "length ?key = 16" and src: "16 * length ?ps \<le> length ?src" using assms(1) by simp_all
  note good = entries_good [OF key src _ i(1), of 0] pieces_sizes
  show g: "good_entry (fst e)" unfolding i(2) by (rule good(1)) (use pieces_sizes in blast)
  have "16 * Suc i \<le> length ?src" using src i(1) by (meson Suc_leI le_trans mult_le_mono2)
  then have iv: "length (take 16 (drop (16 * i) ?src)) = 16" by simp
  have f: "BlobHash (fst e) = EncodeToString (sha384 (snd e))" "BlobIV (fst e) = EncodeToString (take 16 (drop (16 * i) ?src))" "BlobNum (fst e) = int i"
    unfolding i(2) by (simp_all only: entries_nth [OF i(1)] Let_def) (simp_all add: hashBytes_def)
  show "length (marshal_blob (fst e)) \<le> 200"
    by (rule length_marshal_blob [OF _ f(2) iv, of "sha384 (snd e)"]) (use f g i(1) assms(2) in \<open>simp_all add: good_entry_def\<close>)
qed

lemma calculate_ignores_hash: "calculateCreatedStreamHash (d\<lparr>StreamHash := h\<rparr>) = calculateCreatedStreamHash d"
  by (simp add: calculateCreatedStreamHash_def)

lemma ValidateDescriptor_created:
  assumes "content \<noteq> []" and "16 * (length (pieces content) + 2) \<le> length source" and "length (pieces content) < 12000" and "fits content filePath"
    and "utf8_valid (str (filepath_Base filePath))" and "utf8_valid (str (sanitizePublishedFileName (filepath_Base filePath)))"
  shows "ValidateDescriptor (created_descriptor content filePath source) = None"
proof -
  let ?n = "length (pieces content)" let ?key = "take 16 source" let ?es = "entries ?key (drop 16 source) 0 (pieces content)"
  let ?iv = "take 16 (drop (16 * (?n + 1)) source)" let ?name = "filepath_Base filePath"
  let ?t = "\<lparr>BlobHash = [], BlobNum = int ?n, BlobIV = EncodeToString ?iv, BlobLength = 0\<rparr>"
  let ?d = "created_descriptor content filePath source"
  have key: "length ?key = 16" and iv: "length ?iv = 16" using assms(2) by simp_all
  have d: "DescriptorBlobs ?d = map fst ?es @ [?t]" "StreamKey ?d = EncodeToString ?key" "StreamName ?d = EncodeToString (str ?name)"
    "SuggestedFileName ?d = EncodeToString (str (sanitizePublishedFileName ?name))" "StreamType ?d = ''lbryfile''"
    by (simp_all add: created_descriptor_def Let_def)
  obtain u where "?d = u\<lparr>StreamHash := calculateCreatedStreamHash u\<rparr>" unfolding created_descriptor_def Let_def by blast
  then have hash: "StreamHash ?d = calculateCreatedStreamHash ?d" by (simp add: calculate_ignores_hash)
  have nums: "map BlobNum (map fst ?es) = map (\<lambda>i. int (0 + i)) [0..<length (map fst ?es)]"
    by (rule nth_equalityI) (simp_all add: entries_nth Let_def)
  have blobs: "validate_blobs (int (0 + length (map fst ?es))) (int 0) 0 (map fst ?es @ [?t]) = None"
  proof (rule validate_blobs_good [OF _ nums, where iv = ?iv])
    show "good_entry item" if "item \<in> set (map fst ?es)" for item using that entry_sizes(1) [OF assms(2,3)] by auto
  qed (use assms(3) iv in simp_all)
  have "length (marshal_blob b) \<le> 200" if "b \<in> set (DescriptorBlobs ?d)" for b
  proof (cases "b = ?t")
    case True
    show ?thesis unfolding True by (rule length_marshal_blob [of _ "[]" ?iv]) (use iv assms(3) in simp_all)
  next
    case False
    then show ?thesis using that entry_sizes(2) [OF assms(2,3)] unfolding d(1) by auto
  qed
  then have "length (separated (map marshal_blob (DescriptorBlobs ?d))) \<le> 202 * length (map marshal_blob (DescriptorBlobs ?d))"
    by (intro length_separated) auto
  moreover have "length (map marshal_blob (DescriptorBlobs ?d)) = ?n + 1" unfolding d(1) by simp
  moreover have "length (quoted (StreamHash ?d)) = 98" unfolding hash calculateCreatedStreamHash_def hashBytes_def quoted_EncodeToString by simp
  moreover have "length (quoted ''lbryfile'') = 10" by (simp add: quoted_def str_def json_body.simps json_ascii_def)
  ultimately have size: "length (marshalPythonDescriptor ?d) \<le> MaxStreamDescriptorSize"
    using assms(4) key by (simp add: marshalPythonDescriptor_def marshal_field_def json_key_def d(2-5) quoted_EncodeToString fits_def)
  have same: "calculateCreatedStreamHash (?d\<lparr>StreamName := EncodeToString (str ?name), SuggestedFileName := EncodeToString (str (sanitizePublishedFileName ?name))\<rparr>) =
      calculateCreatedStreamHash ?d"
    unfolding calculateCreatedStreamHash_def using d(3,4) by simp
  have "int (length (DescriptorBlobs ?d)) - 1 = int (0 + length (map fst ?es))" by (simp add: d(1))
  then show ?thesis using blobs size key assms(3,5,6) hash same
    by (simp add: ValidateDescriptor_def d(1-4) normalizeMetadata_def Let_def)
qed

lemma CreateStreamDescriptor_succeeds:
  assumes "content \<noteq> []" and "16 * (length (pieces content) + 2) \<le> length source" and "length (pieces content) < 12000" and "fits content filePath"
    and "utf8_valid (str (filepath_Base filePath))" and "utf8_valid (str (sanitizePublishedFileName (filepath_Base filePath)))"
  shows "CreateStreamDescriptor (Some content) filePath source =
    Inr \<lparr>CreatedDescriptor = created_descriptor content filePath source, DescriptorBytes = marshalPythonDescriptor (created_descriptor content filePath source),
      SDHash = hashBytes (marshalPythonDescriptor (created_descriptor content filePath source)),
      CreatedBlobs = stored_blobs (entries (take 16 source) (drop 16 source) 0 (pieces content)) Map.empty\<rparr>"
proof -
  let ?n = "length (pieces content)" let ?key = "take 16 source"
  have c: "create_blobs ?key content (drop 16 source) [] Map.empty = Inr (drop (16 * ?n) (drop 16 source),
      [] @ map fst (entries ?key (drop 16 source) (length ([] :: BlobInfo list)) (pieces content)), stored_blobs (entries ?key (drop 16 source) (length ([] :: BlobInfo list)) (pieces content)) Map.empty)"
    using assms(2) by (intro create_blobs_entries) simp_all
  have r: "read16 source = Inr (?key, drop 16 source)" "read16 (drop (16 * ?n) (drop 16 source)) =
      Inr (take 16 (drop (16 * (?n + 1)) source), drop 16 (drop (16 * (?n + 1)) source))"
    using assms(2) by (simp_all add: read16_def add.commute)
  have count: "\<not> 12000 < (length content + MaxBlobSize - 2) div (MaxBlobSize - 1) + 1" using assms(3) length_pieces [OF assms(1)] by simp
  note v = ValidateDescriptor_created [OF assms]
  show ?thesis
    using assms(1) count r c v unfolding CreateStreamDescriptor_def created_descriptor_def
    by (simp add: Let_def)
qed

end
