(* ===== verification/BlobManager.thy ===== *)
theory BlobManager
  imports StreamDescriptor
begin

text \<open>
  The blob manager, \<^verbatim>\<open>blob/manager.go\<close>, the walk over a stream of \<^verbatim>\<open>blob/reader.go\<close>, and the storing of a created stream in
  \<^verbatim>\<open>rpc/stream_mutation.go\<close>. The state is the map of the blobs it has, with their data or without, and the files of its
  directory. Peers and the store of completed blobs are parameters with a state of their own. Locks make each operation
  one step.
\<close>

section \<open>State and operations\<close>

text \<open>A blob without data in memory is read from the directory. The directory holds the files by name; whether a file can
  be written or removed is up to the file system.\<close>

record BlobManager =
  blobs :: "string \<rightharpoonup> bytes option"
  blobDir :: bool
  persist :: bool
  disk :: "string \<rightharpoonup> bytes"
  writable :: "string \<Rightarrow> bool"
  removable :: "string \<Rightarrow> bool"

datatype manager_error = InvalidHash hex_error | NoFetcher string | FetchFailed string | HashMismatch string | SizeLimit nat
  | DiskFailed string | RecordFailed string | StreamUnavailable string | DescriptorFailed descriptor_error | BlobUnavailable string
  | DecryptFailed blob_error | RangeOutside int int | CallbackFailed string

type_synonym 'w fetcher = "'w \<Rightarrow> string \<Rightarrow> 'w \<times> (string + bytes)"

type_synonym 'w completion_store = "'w \<Rightarrow> string \<Rightarrow> nat \<Rightarrow> 'w \<times> string option"

definition NewConfiguredManager :: "bool \<Rightarrow> bool \<Rightarrow> (string \<rightharpoonup> bytes) \<Rightarrow> (string \<Rightarrow> bool) \<Rightarrow> (string \<Rightarrow> bool) \<Rightarrow> BlobManager" where
  "NewConfiguredManager dir saveNewBlobs files w r =
     \<lparr>blobs = Map.empty, blobDir = dir, persist = saveNewBlobs, disk = files, writable = w, removable = r\<rparr>"

definition loadable :: "BlobManager \<Rightarrow> string \<Rightarrow> bool" where
  "loadable m name \<longleftrightarrow> (case disk m name of None \<Rightarrow> False
     | Some d \<Rightarrow> canonicalBlobHash name \<and> d \<noteq> [] \<and> length d \<le> MaxBlobSize \<and> hashBytes d = name)"

definition Start :: "BlobManager \<Rightarrow> BlobManager" where
  "Start m = (if \<not> blobDir m then m else m\<lparr>blobs := (\<lambda>h. if loadable m h then Some None else blobs m h)\<rparr>)"

definition Stop :: "BlobManager \<Rightarrow> BlobManager" where
  "Stop m = m\<lparr>blobs := Map.empty\<rparr>"

definition Has :: "BlobManager \<Rightarrow> string \<Rightarrow> bool" where
  "Has m blobHash \<longleftrightarrow> blobs m blobHash \<noteq> None"

definition get :: "BlobManager \<Rightarrow> string \<Rightarrow> bytes option" where
  "get m blobHash =
     (case blobs m blobHash of
        None \<Rightarrow> None
      | Some blobData \<Rightarrow>
          if blobDir m \<and> blobData = None then
            (case disk m blobHash of None \<Rightarrow> None | Some d \<Rightarrow> if hashBytes d \<noteq> blobHash then None else Some d)
          else Some (case blobData of None \<Rightarrow> [] | Some d \<Rightarrow> d))"

definition GetLocal :: "BlobManager \<Rightarrow> string \<Rightarrow> bytes option" where
  "GetLocal m blobHash = get m blobHash"

definition writePersistent :: "string \<Rightarrow> bytes \<Rightarrow> BlobManager \<Rightarrow> BlobManager \<times> manager_error option" where
  "writePersistent blobHash d m =
     (if \<not> writable m blobHash then (m, Some (DiskFailed blobHash))
      else (if blobDir m then m\<lparr>disk := (disk m)(blobHash \<mapsto> d)\<rparr> else m, None))"

definition SetBlob :: "string \<Rightarrow> bytes \<Rightarrow> BlobManager \<Rightarrow> BlobManager \<times> manager_error option" where
  "SetBlob blobHash blobData m =
     (if blobData = [] \<or> length blobData > MaxBlobSize then (m, Some (SizeLimit (length blobData)))
      else if \<not> canonicalBlobHash blobHash \<or> hashBytes blobData \<noteq> blobHash then (m, Some (HashMismatch blobHash))
      else
        case (if persist m then writePersistent blobHash blobData m else (m, None)) of
          (m', Some e) \<Rightarrow> (m', Some e)
        | (m', None) \<Rightarrow> (m'\<lparr>blobs := (blobs m')(blobHash \<mapsto> (if persist m' then None else Some blobData))\<rparr>, None))"

text \<open>The errors of the removals are joined; the first one stands for them.\<close>

fun Delete :: "string list \<Rightarrow> BlobManager \<Rightarrow> BlobManager \<times> manager_error option" where
  "Delete [] m = (m, None)"
| "Delete (blobHash # blobHashes) m =
     (if blobDir m \<and> canonicalBlobHash blobHash then
        if disk m blobHash \<noteq> None \<and> \<not> removable m blobHash
        then (case Delete blobHashes m of (m', _) \<Rightarrow> (m', Some (DiskFailed blobHash)))
        else Delete blobHashes (m\<lparr>disk := (disk m)(blobHash := None), blobs := (blobs m)(blobHash := None)\<rparr>)
      else Delete blobHashes (m\<lparr>blobs := (blobs m)(blobHash := None)\<rparr>))"

definition fetchAndStore ::
  "'w fetcher \<Rightarrow> 'w completion_store option \<Rightarrow> string \<Rightarrow> 'w \<Rightarrow> BlobManager \<Rightarrow> 'w \<times> BlobManager \<times> manager_error option" where
  "fetchAndStore fetcher records blobHash w m =
     (case fetcher w blobHash of
        (w1, Inl e) \<Rightarrow> (w1, m, Some (FetchFailed e))
      | (w1, Inr d) \<Rightarrow>
          if EncodeToString (sha384 d) \<noteq> blobHash then (w1, m, Some (HashMismatch blobHash))
          else
            (case SetBlob blobHash d m of
               (m1, Some e) \<Rightarrow> (w1, m1, Some e)
             | (m1, None) \<Rightarrow>
                 (case records of
                    None \<Rightarrow> (w1, m1, None)
                  | Some RecordCompletedBlob \<Rightarrow>
                      (case RecordCompletedBlob w1 blobHash (length d) of
                         (w2, None) \<Rightarrow> (w2, m1, None)
                       | (w2, Some e) \<Rightarrow> (w2, fst (Delete [blobHash] m1), Some (RecordFailed e))))))"

text \<open>\<^verbatim>\<open>Ensure\<close> of one caller whose context is not cancelled: the flight runs to its end.\<close>

definition Ensure ::
  "'w fetcher option \<Rightarrow> 'w completion_store option \<Rightarrow> string \<Rightarrow> 'w \<Rightarrow> BlobManager \<Rightarrow> 'w \<times> BlobManager \<times> manager_error option" where
  "Ensure fetcher records blobHash w m =
     (case hexToHash blobHash of
        Inl e \<Rightarrow> (w, m, Some (InvalidHash e))
      | Inr _ \<Rightarrow>
          if Has m blobHash then (w, m, None)
          else (case fetcher of None \<Rightarrow> (w, m, Some (NoFetcher blobHash)) | Some f \<Rightarrow> fetchAndStore f records blobHash w m))"

definition Get :: "'w fetcher option \<Rightarrow> 'w completion_store option \<Rightarrow> string \<Rightarrow> 'w \<Rightarrow> BlobManager \<Rightarrow> 'w \<times> BlobManager \<times> bytes option" where
  "Get fetcher records blobHash w m =
     (case get m blobHash of
        Some d \<Rightarrow> (w, m, Some d)
      | None \<Rightarrow>
          (case Ensure fetcher records blobHash w m of
             (w', m', Some _) \<Rightarrow> (w', m', None)
           | (w', m', None) \<Rightarrow> (w', m', get m' blobHash)))"

fun read_blobs :: "BlobManager \<Rightarrow> string \<Rightarrow> BlobInfo list \<Rightarrow> manager_error + bytes" where
  "read_blobs m key [] = Inr []"
| "read_blobs m key (info # infos) =
     (case get m (BlobHash info) of
        None \<Rightarrow> Inl (BlobUnavailable (BlobHash info))
      | Some encrypted \<Rightarrow>
          (case DecryptBlob encrypted key (BlobIV info) of
             Inl e \<Rightarrow> Inl (DecryptFailed e)
           | Inr decrypted \<Rightarrow> and_then (read_blobs m key infos) (\<lambda>content. Inr (decrypted @ content))))"

definition ReadStream :: "unmarshaller \<Rightarrow> string \<Rightarrow> BlobManager \<Rightarrow> manager_error + StreamDescriptor \<times> bytes" where
  "ReadStream Unmarshal sdHash m =
     (case get m sdHash of
        None \<Rightarrow> Inl (StreamUnavailable sdHash)
      | Some descriptorBytes \<Rightarrow>
          (case DecodeDescriptor Unmarshal sdHash descriptorBytes of
             Inl e \<Rightarrow> Inl (DescriptorFailed e)
           | Inr descriptor \<Rightarrow>
               and_then (read_blobs m (StreamKey descriptor) (ContentBlobs descriptor)) (\<lambda>content. Inr (descriptor, content))))"

section \<open>Walking a stream\<close>

text \<open>\<^verbatim>\<open>WalkStreamRange\<close>: the callback has a state of its own.\<close>

fun walk ::
  "'w fetcher option \<Rightarrow> 'w completion_store option \<Rightarrow> ('c \<Rightarrow> BlobInfo \<Rightarrow> bytes \<Rightarrow> 'c \<times> string option) \<Rightarrow> string \<Rightarrow> BlobInfo list \<Rightarrow>
    'w \<Rightarrow> BlobManager \<Rightarrow> 'c \<Rightarrow> 'w \<times> BlobManager \<times> 'c \<times> manager_error option" where
  "walk fetcher records callback key [] w m c = (w, m, c, None)"
| "walk fetcher records callback key (info # infos) w m c =
     (case Ensure fetcher records (BlobHash info) w m of
        (w1, m1, Some e) \<Rightarrow> (w1, m1, c, Some e)
      | (w1, m1, None) \<Rightarrow>
          (case GetLocal m1 (BlobHash info) of
             None \<Rightarrow> (w1, m1, c, Some (BlobUnavailable (BlobHash info)))
           | Some encrypted \<Rightarrow>
               (case DecryptBlob encrypted key (BlobIV info) of
                  Inl e \<Rightarrow> (w1, m1, c, Some (DecryptFailed e))
                | Inr decrypted \<Rightarrow>
                    (case callback c info decrypted of
                       (c1, Some e) \<Rightarrow> (w1, m1, c1, Some (CallbackFailed e))
                     | (c1, None) \<Rightarrow> walk fetcher records callback key infos w1 m1 c1))))"

definition WalkStreamRange ::
  "'w fetcher option \<Rightarrow> 'w completion_store option \<Rightarrow> ('c \<Rightarrow> BlobInfo \<Rightarrow> bytes \<Rightarrow> 'c \<times> string option) \<Rightarrow> StreamDescriptor \<Rightarrow> int \<Rightarrow> int \<Rightarrow>
    'w \<Rightarrow> BlobManager \<Rightarrow> 'c \<Rightarrow> 'w \<times> BlobManager \<times> 'c \<times> manager_error option" where
  "WalkStreamRange fetcher records callback descriptor first end w m c =
     (case ValidateDescriptor descriptor of
        Some e \<Rightarrow> (w, m, c, Some (DescriptorFailed e))
      | None \<Rightarrow>
          let contentCount = int (length (DescriptorBlobs descriptor)) - 1
          in if first < 0 \<or> end < first \<or> end > contentCount then (w, m, c, Some (RangeOutside first end))
             else walk fetcher records callback (StreamKey descriptor) (take (nat (end - first)) (drop (nat first) (DescriptorBlobs descriptor))) w m c)"

definition WalkStream ::
  "'w fetcher option \<Rightarrow> 'w completion_store option \<Rightarrow> ('c \<Rightarrow> BlobInfo \<Rightarrow> bytes \<Rightarrow> 'c \<times> string option) \<Rightarrow> StreamDescriptor \<Rightarrow>
    'w \<Rightarrow> BlobManager \<Rightarrow> 'c \<Rightarrow> 'w \<times> BlobManager \<times> 'c \<times> manager_error option" where
  "WalkStream fetcher records callback descriptor w m c =
     WalkStreamRange fetcher records callback descriptor 0 (int (length (DescriptorBlobs descriptor)) - 1) w m c"

section \<open>Storing a created stream\<close>

fun set_all :: "(string \<times> bytes) list \<Rightarrow> BlobManager \<Rightarrow> BlobManager \<times> manager_error option" where
  "set_all [] m = (m, None)"
| "set_all ((hash, d) # xs) m = (case SetBlob hash d m of (m', Some e) \<Rightarrow> (m', Some e) | (m', None) \<Rightarrow> set_all xs m')"

text \<open>The descriptor first, then the blobs in the order in which the map is iterated.\<close>

definition store_created :: "CreatedStream \<Rightarrow> (string \<times> bytes) list \<Rightarrow> BlobManager \<Rightarrow> BlobManager \<times> manager_error option" where
  "store_created created iteration m = set_all ((SDHash created, DescriptorBytes created) # iteration) m"

section \<open>No blob is served under a foreign name\<close>

text \<open>Data in memory hashes to its name; without data the directory is asked.\<close>

definition store_ok :: "BlobManager \<Rightarrow> bool" where
  "store_ok m \<longleftrightarrow> (persist m \<longrightarrow> blobDir m) \<and>
     (\<forall>h. blobs m h = Some None \<longrightarrow> blobDir m) \<and> (\<forall>h d. blobs m h = Some (Some d) \<longrightarrow> hashBytes d = h \<and> d \<noteq> [] \<and> length d \<le> MaxBlobSize)"

lemma get_hash: "store_ok m \<Longrightarrow> get m h = Some d \<Longrightarrow> hashBytes d = h"
  by (auto simp: get_def store_ok_def split: option.splits if_splits)

lemma SetBlob_cases:
  assumes "SetBlob h d m = (m', e)"
  shows "m' = m \<and> e \<noteq> None \<or>
    e = None \<and> hashBytes d = h \<and> d \<noteq> [] \<and> length d \<le> MaxBlobSize \<and>
      m' = m\<lparr>blobs := (blobs m)(h \<mapsto> (if persist m then None else Some d)), disk := (if persist m \<and> blobDir m then (disk m)(h \<mapsto> d) else disk m)\<rparr>"
proof (cases "d = [] \<or> length d > MaxBlobSize \<or> \<not> canonicalBlobHash h \<or> hashBytes d \<noteq> h \<or> persist m \<and> \<not> writable m h")
  case True
  then show ?thesis using assms by (auto simp: SetBlob_def writePersistent_def split: if_splits)
next
  case False
  then show ?thesis using assms by (cases "persist m"; cases "blobDir m") (auto simp: SetBlob_def writePersistent_def)
qed

lemma SetBlob_ok:
  assumes "store_ok m" and "SetBlob h d m = (m', e)"
  shows "store_ok m'"
  using SetBlob_cases [OF assms(2)]
proof
  assume *: "e = None \<and> hashBytes d = h \<and> d \<noteq> [] \<and> length d \<le> MaxBlobSize \<and>
      m' = m\<lparr>blobs := (blobs m)(h \<mapsto> (if persist m then None else Some d)), disk := (if persist m \<and> blobDir m then (disk m)(h \<mapsto> d) else disk m)\<rparr>"
  then have m': "blobs m' = (blobs m)(h \<mapsto> (if persist m then None else Some d))" "persist m' = persist m" "blobDir m' = blobDir m" by simp_all
  show ?thesis using assms(1) * unfolding store_ok_def m' by (auto split: if_splits)
qed (use assms in simp)

lemma Start_ok: "store_ok m \<Longrightarrow> store_ok (Start m)"
  by (auto simp: Start_def store_ok_def split: if_splits)

lemma Stop_ok: "store_ok m \<Longrightarrow> store_ok (Stop m)"
  by (simp add: Stop_def store_ok_def)

lemma Delete_ok: "store_ok m \<Longrightarrow> Delete hs m = (m', e) \<Longrightarrow> store_ok m'"
proof (induction hs arbitrary: m m' e)
  case (Cons h hs)
  have 1: "store_ok (m\<lparr>disk := (disk m)(h := None), blobs := (blobs m)(h := None)\<rparr>)" "store_ok (m\<lparr>blobs := (blobs m)(h := None)\<rparr>)"
    using Cons.prems(1) by (auto simp: store_ok_def split: if_splits)
  show ?case
    using Cons.prems Cons.IH [OF 1(1)] Cons.IH [OF 1(2)] Cons.IH [OF Cons.prems(1)] by (auto split: if_splits prod.splits)
qed simp

lemma fetchAndStore_ok: "store_ok m \<Longrightarrow> fetchAndStore f records h w m = (w', m', e) \<Longrightarrow> store_ok m'"
proof -
  assume ok: "store_ok m" and F: "fetchAndStore f records h w m = (w', m', e)"
  obtain w1 x where f: "f w h = (w1, x)" by (cases "f w h")
  show "store_ok m'"
  proof (cases x)
    case (Inr d)
    obtain m1 e1 where S: "SetBlob h d m = (m1, e1)" by (cases "SetBlob h d m")
    have ok1: "store_ok m1" using ok S by (rule SetBlob_ok)
    have "store_ok (fst (Delete [h] m1))" using Delete_ok [OF ok1 prod.collapse [symmetric]] .
    then show ?thesis using F f Inr S ok ok1 by (auto simp: fetchAndStore_def split: if_splits option.splits prod.splits)
  qed (use F f ok in \<open>simp add: fetchAndStore_def\<close>)
qed

lemma Ensure_ok: "store_ok m \<Longrightarrow> Ensure f records h w m = (w', m', e) \<Longrightarrow> store_ok m'"
  by (auto simp: Ensure_def dest: fetchAndStore_ok split: sum.splits if_splits option.splits)

text \<open>The states of a manager. Between its operations the directory may change in any way.\<close>

inductive manager_reachable :: "BlobManager \<Rightarrow> bool" where
  new: "saveNewBlobs \<longrightarrow> dir \<Longrightarrow> manager_reachable (NewConfiguredManager dir saveNewBlobs files w r)"
| start: "manager_reachable m \<Longrightarrow> manager_reachable (Start m)"
| stop: "manager_reachable m \<Longrightarrow> manager_reachable (Stop m)"
| set: "manager_reachable m \<Longrightarrow> SetBlob h d m = (m', e) \<Longrightarrow> manager_reachable m'"
| delete: "manager_reachable m \<Longrightarrow> Delete hs m = (m', e) \<Longrightarrow> manager_reachable m'"
| fetched: "manager_reachable m \<Longrightarrow> Ensure (Some (\<lambda>(_ :: unit) _. ((), answer))) (Some (\<lambda>_ _ _. ((), recorded))) h () m = (w', m', e) \<Longrightarrow> manager_reachable m'"
| outside: "manager_reachable m \<Longrightarrow> manager_reachable (m\<lparr>disk := files, writable := wr, removable := rm\<rparr>)"

lemma manager_reachable_ok: "manager_reachable m \<Longrightarrow> store_ok m"
proof (induction rule: manager_reachable.induct)
  case (new saveNewBlobs dir files w r)
  then show ?case by (simp add: NewConfiguredManager_def store_ok_def)
next
  case (outside m files wr rm)
  then show ?case by (simp add: store_ok_def)
qed (auto intro: Start_ok Stop_ok SetBlob_ok Delete_ok Ensure_ok)

lemma Ensure_has: "Ensure f records h w m = (w', m', None) \<Longrightarrow> Has m' h"
proof -
  assume E: "Ensure f records h w m = (w', m', None)"
  show "Has m' h"
  proof (cases "Has m h")
    case False
    then obtain f' where F: "fetchAndStore f' records h w m = (w', m', None)" using E by (auto simp: Ensure_def split: sum.splits option.splits)
    obtain w1 x where f: "f' w h = (w1, x)" by (cases "f' w h")
    then obtain d where x: "x = Inr d" using F by (cases x) (simp_all add: fetchAndStore_def)
    obtain m1 e1 where S: "SetBlob h d m = (m1, e1)" by (cases "SetBlob h d m")
    have "e1 = None" "m' = m1" using F f x S by (auto simp: fetchAndStore_def split: if_splits option.splits prod.splits)
    then show ?thesis using SetBlob_cases [OF S] by (auto simp: Has_def)
  qed (use E in \<open>auto simp: Ensure_def split: sum.splits\<close>)
qed

text \<open>
  C6. Whatever peers deliver, callers store and others do to the directory, the manager hands out a blob only under
  the hash of its data; and after an acquisition that reports no error it has the blob.
\<close>

theorem GetLocal_authentic:
  assumes "manager_reachable m"
  shows "(\<forall>h d. GetLocal m h = Some d \<longrightarrow> hashBytes d = h) \<and>
    (\<forall>h w' m'. Ensure fetcher records h w m = (w', m', None) \<longrightarrow> Has m' h \<and> (\<forall>d. GetLocal m' h = Some d \<longrightarrow> hashBytes d = h))"
proof (intro conjI allI impI)
  note ok = manager_reachable_ok [OF assms]
  show "hashBytes d = h" if "GetLocal m h = Some d" for h d using that get_hash [OF ok] by (simp add: GetLocal_def)
  fix h w' m' assume E: "Ensure fetcher records h w m = (w', m', None)"
  then show "Has m' h" by (rule Ensure_has)
  show "hashBytes d = h" if "GetLocal m' h = Some d" for d using that get_hash [OF Ensure_ok [OF ok E]] by (simp add: GetLocal_def)
qed

theorem GetLocal_authentic_witness:
  "\<exists>m. SetBlob (hashBytes [1, 2, 3]) [1, 2, 3] (NewConfiguredManager False False Map.empty (\<lambda>_. True) (\<lambda>_. True)) = (m, None) \<and>
     GetLocal m (hashBytes [1, 2, 3]) = Some [1, 2, 3] \<and> (\<forall>h. h \<noteq> hashBytes [1, 2, 3] \<longrightarrow> GetLocal m h \<noteq> Some [1, 2, 3])"
proof -
  obtain d :: bytes where d: "d = [1, 2, 3]" by blast
  let ?h = "hashBytes d" let ?new = "NewConfiguredManager False False Map.empty (\<lambda>_. True) (\<lambda>_. True)"
  obtain m e where m: "SetBlob ?h d ?new = (m, e)" by (cases "SetBlob ?h d ?new")
  have "e = None" "GetLocal m ?h = Some d"
    using m by (auto simp: SetBlob_def NewConfiguredManager_def GetLocal_def get_def d)
  note m = m [unfolded this(1)] this(2)
  have "manager_reachable m" by (rule manager_reachable.set [OF _ m(1)]) (simp add: manager_reachable.new)
  note auth = GetLocal_authentic [OF this, THEN conjunct1, rule_format]
  have "\<forall>h. h \<noteq> ?h \<longrightarrow> GetLocal m h \<noteq> Some d"
  proof (intro allI impI notI)
    fix h assume "h \<noteq> ?h" "GetLocal m h = Some d"
    from auth [OF this(2)] this(1) show False by simp
  qed
  then show ?thesis using m unfolding d [symmetric] by (intro exI [of _ m] conjI)
qed

section \<open>A created stream reads back\<close>

lemma SetBlob_get:
  assumes "store_ok m" and "hashBytes d = h" and "d \<noteq> []" and "length d \<le> MaxBlobSize" and "writable m h"
  shows "\<exists>m'. SetBlob h d m = (m', None) \<and> store_ok m' \<and> writable m' = writable m \<and> get m' h = Some d \<and> (\<forall>h'. h' \<noteq> h \<longrightarrow> get m' h' = get m h')"
proof -
  obtain m' e where S: "SetBlob h d m = (m', e)" by (cases "SetBlob h d m")
  have c: "canonicalBlobHash h" using assms(2) by auto
  have e: "e = None" using S assms c by (auto simp: SetBlob_def writePersistent_def split: if_splits)
  then have m': "m' = m\<lparr>blobs := (blobs m)(h \<mapsto> (if persist m then None else Some d)), disk := (if persist m \<and> blobDir m then (disk m)(h \<mapsto> d) else disk m)\<rparr>"
    using SetBlob_cases [OF S] by blast
  then have fields: "blobs m' = (blobs m)(h \<mapsto> (if persist m then None else Some d))" "blobDir m' = blobDir m"
    "disk m' = (if persist m \<and> blobDir m then (disk m)(h \<mapsto> d) else disk m)" by simp_all
  have "persist m \<longrightarrow> blobDir m" using assms(1) by (simp add: store_ok_def)
  then have "get m' h = Some d" using assms(2) unfolding get_def fields by simp
  moreover have "get m' h' = get m h'" if "h' \<noteq> h" for h' using that unfolding get_def fields by (simp split: option.split)
  moreover have "writable m' = writable m" unfolding m' by simp
  ultimately show ?thesis using S e SetBlob_ok [OF assms(1) S] by blast
qed

lemma set_all_get:
  assumes "store_ok m" and "\<And>h. writable m h" and "\<And>h d. (h, d) \<in> set xs \<Longrightarrow> hashBytes d = h \<and> d \<noteq> [] \<and> length d \<le> MaxBlobSize"
    and "\<And>h d d'. (h, d) \<in> set xs \<Longrightarrow> (h, d') \<in> set xs \<Longrightarrow> d = d'"
  shows "\<exists>m'. set_all xs m = (m', None) \<and> (\<forall>h d. (h, d) \<in> set xs \<longrightarrow> get m' h = Some d) \<and> (\<forall>h. h \<notin> fst ` set xs \<longrightarrow> get m' h = get m h)"
  using assms
proof (induction xs arbitrary: m)
  case (Cons x xs)
  obtain h d where x: "x = (h, d)" by (cases x)
  have "hashBytes d = h" "d \<noteq> []" "length d \<le> MaxBlobSize" using Cons.prems(3) [of h d] x by simp_all
  from SetBlob_get [OF Cons.prems(1) this Cons.prems(2)] obtain m1 where m1: "SetBlob h d m = (m1, None)" "store_ok m1" "writable m1 = writable m"
    "get m1 h = Some d" "\<And>h'. h' \<noteq> h \<Longrightarrow> get m1 h' = get m h'" by blast
  have "\<exists>m'. set_all xs m1 = (m', None) \<and> (\<forall>h d. (h, d) \<in> set xs \<longrightarrow> get m' h = Some d) \<and> (\<forall>h. h \<notin> fst ` set xs \<longrightarrow> get m' h = get m1 h)"
  proof (rule Cons.IH [OF m1(2)])
    show "writable m1 h" for h using Cons.prems(2) m1(3) by simp
    show "hashBytes d = h \<and> d \<noteq> [] \<and> length d \<le> MaxBlobSize" if "(h, d) \<in> set xs" for h d using Cons.prems(3) [of h d] that by simp
    show "d = d'" if "(h, d) \<in> set xs" "(h, d') \<in> set xs" for h d d' using Cons.prems(4) [of h d d'] that by simp
  qed
  then obtain m' where m': "set_all xs m1 = (m', None)" "\<And>h d. (h, d) \<in> set xs \<Longrightarrow> get m' h = Some d" "\<And>h. h \<notin> fst ` set xs \<Longrightarrow> get m' h = get m1 h" by blast
  have here: "get m' h = Some d"
  proof (cases "h \<in> fst ` set xs")
    case True
    then obtain d' where d': "(h, d') \<in> set xs" by auto
    then have "d = d'" using Cons.prems(4) [of h d d'] x by simp
    then show ?thesis using m'(2) [OF d'] by simp
  qed (use m'(3) m1(4) in simp)
  have "set_all (x # xs) m = (m', None)" using x m1(1) m'(1) by simp
  moreover have "get m' h' = Some d'" if "(h', d') \<in> set (x # xs)" for h' d' using that here m'(2) x by auto
  moreover have "get m' h' = get m h'" if "h' \<notin> fst ` set (x # xs)" for h' using that m'(3) m1(5) x by simp
  ultimately show ?case by blast
qed simp

lemma read_blobs_entries:
  assumes "\<And>e. e \<in> set es \<Longrightarrow> get m (BlobHash (fst e)) = Some (snd e)" and "length es = length ps"
    and "\<And>i. i < length ps \<Longrightarrow> DecryptBlob (snd (es ! i)) key (BlobIV (fst (es ! i))) = Inr (ps ! i)"
  shows "read_blobs m key (map fst es) = Inr (concat ps)"
  using assms
proof (induction es arbitrary: ps)
  case (Cons e es)
  then obtain p ps' where ps: "ps = p # ps'" by (cases ps) auto
  have "read_blobs m key (map fst es) = Inr (concat ps')"
  proof (rule Cons.IH)
    show "get m (BlobHash (fst e)) = Some (snd e)" if "e \<in> set es" for e using Cons.prems(1) that by simp
    show "DecryptBlob (snd (es ! i)) key (BlobIV (fst (es ! i))) = Inr (ps' ! i)" if "i < length ps'" for i using Cons.prems(3) [of "Suc i"] that ps by simp
  qed (use Cons.prems(2) ps in simp)
  then show ?case using Cons.prems(1) [of e] Cons.prems(3) [of 0] ps by simp
qed simp

lemma ContentBlobs_created:
  assumes "16 * (length (pieces content) + 2) \<le> length source" and "length (pieces content) < 12000"
  shows "ContentBlobs (created_descriptor content filePath source) = map fst (entries (take 16 source) (drop 16 source) 0 (pieces content))"
proof -
  have "filter (\<lambda>b. BlobLength b > 0 \<and> BlobHash b \<noteq> []) (map fst (entries (take 16 source) (drop 16 source) 0 (pieces content))) =
    map fst (entries (take 16 source) (drop 16 source) 0 (pieces content))"
  proof (intro filter_True ballI)
    fix b assume "b \<in> set (map fst (entries (take 16 source) (drop 16 source) 0 (pieces content)))"
    then have "good_entry b" using entry_sizes(1) [OF assms] by auto
    then show "BlobLength b > 0 \<and> BlobHash b \<noteq> []" by (simp add: good_entry_def)
  qed
  then show ?thesis by (simp add: ContentBlobs_def created_descriptor_def Let_def)
qed

lemma stored_blobs_source: "stored_blobs es m h = Some d \<Longrightarrow> m h = Some d \<or> (\<exists>e \<in> set es. h = BlobHash (fst e) \<and> d = snd e)"
  by (induction es m rule: stored_blobs.induct) (auto split: if_splits)

lemma stored_blobs_dom:
  "e \<in> set es \<Longrightarrow> \<exists>e' \<in> set es. BlobHash (fst e') = BlobHash (fst e) \<and> stored_blobs es m (BlobHash (fst e)) = Some (snd e')"
proof (induction es m arbitrary: e rule: stored_blobs.induct)
  case (2 info c es m)
  show ?case
  proof (cases "BlobHash (fst e) \<in> (\<lambda>x. BlobHash (fst x)) ` set es")
    case True
    then obtain x where x: "x \<in> set es" "BlobHash (fst e) = BlobHash (fst x)" by auto
    have "\<exists>e' \<in> set es. BlobHash (fst e') = BlobHash (fst x) \<and> stored_blobs es (m(BlobHash info \<mapsto> c)) (BlobHash (fst x)) = Some (snd e')"
      using x(1) by (rule 2(1))
    then show ?thesis using x by auto
  next
    case False
    have keep: "h \<notin> (\<lambda>x. BlobHash (fst x)) ` set es \<Longrightarrow> stored_blobs es m h = m h" for es m h
      by (induction es m rule: stored_blobs.induct) auto
    have "e = (info, c)" using False 2(2) by auto
    then show ?thesis using keep [OF False] by simp
  qed
qed simp

text \<open>The blobs of a stream: its descriptor and its ciphertexts.\<close>

definition stream_blobs :: "bytes \<Rightarrow> string \<Rightarrow> bytes \<Rightarrow> bytes set" where
  "stream_blobs content filePath source =
     insert (marshalPythonDescriptor (created_descriptor content filePath source))
       (snd ` set (entries (take 16 source) (drop 16 source) 0 (pieces content)))"

lemma created_entry:
  assumes "16 * (length (pieces content) + 2) \<le> length source" and "e \<in> set (entries (take 16 source) (drop 16 source) 0 (pieces content))"
  shows "hashBytes (snd e) = BlobHash (fst e)" "snd e \<noteq> []" "length (snd e) \<le> MaxBlobSize"
proof -
  obtain i where i: "i < length (pieces content)" "e = entries (take 16 source) (drop 16 source) 0 (pieces content) ! i" using assms(2) by (auto simp: in_set_conv_nth)
  have "length (take 16 source) = 16" "16 * length (pieces content) \<le> length (drop 16 source)" using assms(1) by simp_all
  note g = entries_good [OF this _ i(1), of 0, folded i(2)]
  show "hashBytes (snd e) = BlobHash (fst e)" by (rule g(3)) (use pieces_sizes in blast)
  have "good_entry (fst e)" "BlobLength (fst e) = int (length (snd e))" by (rule g; use pieces_sizes in blast)+
  then show "snd e \<noteq> []" "length (snd e) \<le> MaxBlobSize" by (auto simp: good_entry_def)
qed

lemma created_read:
  assumes "16 * (length (pieces content) + 2) \<le> length source" and "length (pieces content) < 12000"
    and "\<And>e. e \<in> set (entries (take 16 source) (drop 16 source) 0 (pieces content)) \<Longrightarrow> get m (BlobHash (fst e)) = Some (snd e)"
  shows "read_blobs m (StreamKey (created_descriptor content filePath source)) (ContentBlobs (created_descriptor content filePath source)) = Inr content"
proof -
  let ?es = "entries (take 16 source) (drop 16 source) 0 (pieces content)"
  have k: "StreamKey (created_descriptor content filePath source) = EncodeToString (take 16 source)" by (simp add: created_descriptor_def Let_def)
  have len: "length (take 16 source) = 16" "16 * length (pieces content) \<le> length (drop 16 source)" using assms(1) by simp_all
  have "read_blobs m (EncodeToString (take 16 source)) (map fst ?es) = Inr (concat (pieces content))"
  proof (rule read_blobs_entries [OF assms(3)])
    show "DecryptBlob (snd (?es ! i)) (EncodeToString (take 16 source)) (BlobIV (fst (?es ! i))) = Inr (pieces content ! i)" if "i < length (pieces content)" for i
      by (rule entries_good(2) [OF len _ that]) (use pieces_sizes in blast)
  qed simp_all
  then show ?thesis unfolding k ContentBlobs_created [OF assms(1,2)] concat_pieces .
qed

lemma created_decode:
  assumes "ValidateDescriptor d = None" and "Unmarshal (marshalPythonDescriptor d) = Inr d"
  shows "DecodeDescriptor Unmarshal (hashBytes (marshalPythonDescriptor d)) (marshalPythonDescriptor d) = Inr d"
    "marshalPythonDescriptor d \<noteq> []" "length (marshalPythonDescriptor d) \<le> MaxBlobSize"
proof -
  show n: "marshalPythonDescriptor d \<noteq> []" by (simp add: marshalPythonDescriptor_def str_def)
  have v: "DescriptorBlobs d \<noteq> []" "StreamKey d \<noteq> []"
    using assms(1) by (auto simp: ValidateDescriptor_def split: if_splits)
  show s: "length (marshalPythonDescriptor d) \<le> MaxBlobSize"
    using assms(1) by (auto simp: ValidateDescriptor_def Let_def split: if_splits option.splits)
  show "DecodeDescriptor Unmarshal (hashBytes (marshalPythonDescriptor d)) (marshalPythonDescriptor d) = Inr d"
    using n v s assms by (simp add: DecodeDescriptor_def ParseDescriptor_def not_less)
qed

lemma hashBytes_inj: "hashBytes x = hashBytes y \<Longrightarrow> sha384 x = sha384 y"
  unfolding hashBytes_def by (metis DecodeString_EncodeToString option.inject)

text \<open>A manager holds a stream when it has the descriptor and every blob of it.\<close>

definition stream_held :: "BlobManager \<Rightarrow> bytes \<Rightarrow> string \<Rightarrow> bytes \<Rightarrow> bool" where
  "stream_held m content filePath source \<longleftrightarrow>
     get m (hashBytes (marshalPythonDescriptor (created_descriptor content filePath source))) = Some (marshalPythonDescriptor (created_descriptor content filePath source)) \<and>
     (\<forall>e \<in> set (entries (take 16 source) (drop 16 source) 0 (pieces content)). get m (BlobHash (fst e)) = Some (snd e))"

definition stream_collision :: "bytes \<Rightarrow> string \<Rightarrow> bytes \<Rightarrow> bool" where
  "stream_collision content filePath source \<longleftrightarrow>
     (\<exists>x y. x \<in> stream_blobs content filePath source \<and> y \<in> stream_blobs content filePath source \<and> x \<noteq> y \<and> sha384 x = sha384 y)"

text \<open>What publishing asks of a file, its name and the source of randomness.\<close>

definition publishable :: "bytes \<Rightarrow> string \<Rightarrow> bytes \<Rightarrow> bool" where
  "publishable content filePath source \<longleftrightarrow> content \<noteq> [] \<and> length (pieces content) < 12000 \<and> fits content filePath \<and>
     16 * (length (pieces content) + 2) \<le> length source \<and> utf8_valid (str (filepath_Base filePath)) \<and>
     utf8_valid (str (sanitizePublishedFileName (filepath_Base filePath)))"

lemma publishable_created:
  assumes "publishable content filePath source"
  shows "CreateStreamDescriptor (Some content) filePath source =
      Inr \<lparr>CreatedDescriptor = created_descriptor content filePath source, DescriptorBytes = marshalPythonDescriptor (created_descriptor content filePath source),
        SDHash = hashBytes (marshalPythonDescriptor (created_descriptor content filePath source)),
        CreatedBlobs = stored_blobs (entries (take 16 source) (drop 16 source) 0 (pieces content)) Map.empty\<rparr>"
    "ValidateDescriptor (created_descriptor content filePath source) = None"
  using assms CreateStreamDescriptor_succeeds ValidateDescriptor_created unfolding publishable_def by blast+

lemma store_created_held:
  assumes pub: "publishable content filePath source" and "store_ok m" and "\<forall>h. writable m h"
    and create: "CreateStreamDescriptor (Some content) filePath source = Inr created" and none: "\<not> stream_collision content filePath source"
    and it: "distinct (map fst iteration)" "map_of iteration = CreatedBlobs created"
  shows "\<exists>m'. store_created created iteration m = (m', None) \<and> stream_held m' content filePath source"
proof -
  let ?d = "created_descriptor content filePath source" let ?bytes = "marshalPythonDescriptor ?d" let ?es = "entries (take 16 source) (drop 16 source) 0 (pieces content)"
  let ?xs = "(hashBytes ?bytes, ?bytes) # iteration"
  have created: "created = \<lparr>CreatedDescriptor = ?d, DescriptorBytes = ?bytes, SDHash = hashBytes ?bytes, CreatedBlobs = stored_blobs ?es Map.empty\<rparr>"
    using create publishable_created(1) [OF pub] by simp
  have room: "16 * (length (pieces content) + 2) \<le> length source" using pub by (simp add: publishable_def)
  have entry: "hashBytes (snd e) = BlobHash (fst e)" "snd e \<noteq> []" "length (snd e) \<le> MaxBlobSize" if "e \<in> set ?es" for e using created_entry [OF room that] .
  have stored: "(h, c) \<in> set iteration \<longleftrightarrow> stored_blobs ?es Map.empty h = Some c" for h c
    using it(2) map_of_eq_Some_iff [OF it(1)] by (simp add: created)
  have from_entry: "hashBytes c = h \<and> c \<in> stream_blobs content filePath source \<and> c \<noteq> [] \<and> length c \<le> MaxBlobSize" if "(h, c) \<in> set iteration" for h c
    using that stored stored_blobs_source [of ?es Map.empty h c] entry by (auto simp: stream_blobs_def)
  have d: "?bytes \<noteq> []" "length ?bytes \<le> MaxBlobSize"
    using created_decode(2,3) [where Unmarshal = "\<lambda>_. Inr ?d", OF publishable_created(2) [OF pub] refl] by simp_all
  have same: "c = c'" if "hashBytes c = hashBytes c'" "c \<in> stream_blobs content filePath source" "c' \<in> stream_blobs content filePath source" for c c'
    using none that hashBytes_inj [OF that(1)] unfolding stream_collision_def by blast
  have sd: "?bytes \<in> stream_blobs content filePath source" by (simp add: stream_blobs_def)
  obtain m' where m': "set_all ?xs m = (m', None)" "\<And>h c. (h, c) \<in> set ?xs \<Longrightarrow> get m' h = Some c"
  proof -
    have "\<exists>m'. set_all ?xs m = (m', None) \<and> (\<forall>h d. (h, d) \<in> set ?xs \<longrightarrow> get m' h = Some d) \<and> (\<forall>h. h \<notin> fst ` set ?xs \<longrightarrow> get m' h = get m h)"
      using assms(2,3) from_entry d sd by (intro set_all_get same) (auto dest!: from_entry)
    then show ?thesis using that by blast
  qed
  have "get m' (BlobHash (fst e)) = Some (snd e)" if e: "e \<in> set ?es" for e
  proof -
    obtain e' where e': "e' \<in> set ?es" "BlobHash (fst e') = BlobHash (fst e)" "stored_blobs ?es Map.empty (BlobHash (fst e)) = Some (snd e')"
      using stored_blobs_dom [OF e] by blast
    have "snd e' = snd e" using e e' entry(1) by (intro same) (auto simp: stream_blobs_def)
    then show ?thesis using m'(2) e'(3) stored by auto
  qed
  then have "stream_held m' content filePath source" using m'(2) unfolding stream_held_def by simp
  then show ?thesis using m'(1) unfolding created store_created_def by (intro exI [of _ m']) simp
qed

lemma ReadStream_held:
  assumes pub: "publishable content filePath source" and held: "stream_held m content filePath source"
    and U: "Unmarshal (marshalPythonDescriptor (created_descriptor content filePath source)) = Inr (created_descriptor content filePath source)"
  shows "ReadStream Unmarshal (hashBytes (marshalPythonDescriptor (created_descriptor content filePath source))) m = Inr (created_descriptor content filePath source, content)"
proof -
  have "read_blobs m (StreamKey (created_descriptor content filePath source)) (ContentBlobs (created_descriptor content filePath source)) = Inr content"
    by (rule created_read) (use pub held in \<open>simp_all add: publishable_def stream_held_def\<close>)
  moreover have "get m (hashBytes (marshalPythonDescriptor (created_descriptor content filePath source))) = Some (marshalPythonDescriptor (created_descriptor content filePath source))"
    using held unfolding stream_held_def by (rule conjunct1)
  ultimately show ?thesis
    using created_decode(1) [where Unmarshal = Unmarshal, OF publishable_created(2) [OF pub] U] by (simp add: ReadStream_def)
qed

text \<open>
  C3. Publishing and reading back. A file that is not empty and whose descriptor has room, under a name in UTF-8,
  becomes a stream, given enough randomness: the descriptor passes its own checks, and when
  descriptor and blobs are stored, in whatever order the blobs are iterated, reading the stream gives the descriptor
  and the contents of the file, unless two different blobs of the stream have the same SHA-384. The JSON reader has to
  read back the descriptor.
\<close>

theorem ReadStream_created:
  assumes "publishable content filePath source"
    and "Unmarshal (marshalPythonDescriptor (created_descriptor content filePath source)) = Inr (created_descriptor content filePath source)"
    and "store_ok m" and "\<forall>h. writable m h"
  shows "\<exists>created. CreateStreamDescriptor (Some content) filePath source = Inr created \<and>
    (stream_collision content filePath source \<or>
     (\<forall>iteration. distinct (map fst iteration) \<and> map_of iteration = CreatedBlobs created \<longrightarrow>
       (\<exists>m'. store_created created iteration m = (m', None) \<and>
          ReadStream Unmarshal (SDHash created) m' = Inr (CreatedDescriptor created, content))))"
proof -
  obtain created where c: "CreateStreamDescriptor (Some content) filePath source = Inr created"
    "SDHash created = hashBytes (marshalPythonDescriptor (created_descriptor content filePath source))" "CreatedDescriptor created = created_descriptor content filePath source"
    using publishable_created(1) [OF assms(1)] by simp
  have "\<exists>m'. store_created created iteration m = (m', None) \<and> ReadStream Unmarshal (SDHash created) m' = Inr (CreatedDescriptor created, content)"
    if it: "distinct (map fst iteration)" "map_of iteration = CreatedBlobs created" and none: "\<not> stream_collision content filePath source" for iteration
    using store_created_held [OF assms(1,3,4) c(1) none it] ReadStream_held [where Unmarshal = Unmarshal, OF assms(1) _ assms(2)] unfolding c(2,3) by blast
  with c(1) show ?thesis by blast
qed

lemma single_piece: "content \<noteq> [] \<Longrightarrow> length content < MaxBlobSize \<Longrightarrow> pieces content = [content]"
  by (simp add: pieces_Cons)

lemma published_name:
  "filepath_Base ''a.txt'' = ''a.txt''" "sanitizePublishedFileName ''a.txt'' = ''a.txt''" "utf8_valid (str ''a.txt'')"
proof -
  show "filepath_Base ''a.txt'' = ''a.txt''" by (simp add: filepath_Base_def after_last_def Let_def)
  have e: "filepath_Ext ''a.txt'' = ''.txt''" by (simp add: filepath_Ext_def after_last_def Let_def)
  have "TrimSpace ''a'' = ''a''" "TrimSpace ''.txt'' = ''.txt''"
    by (simp_all add: TrimSpace_def leading_space_def trailing_space_def space_encodings_def str_def)
  then show "sanitizePublishedFileName ''a.txt'' = ''a.txt''" by (simp add: sanitizePublishedFileName_def e illegal_def Let_def)
  show "utf8_valid (str ''a.txt'')" by (rule utf8_valid_ascii) (auto simp: str_def)
qed

theorem ReadStream_created_witness:
  "\<exists>created Unmarshal m'. CreateStreamDescriptor (Some [1, 2, 3]) ''a.txt'' (replicate 48 0) = Inr created \<and>
     (stream_collision [1, 2, 3] ''a.txt'' (replicate 48 0) \<or>
      store_created created [(hashBytes (ciphertext (replicate 16 0) (replicate 16 0) [1, 2, 3]), ciphertext (replicate 16 0) (replicate 16 0) [1, 2, 3])]
        (NewConfiguredManager False False Map.empty (\<lambda>_. True) (\<lambda>_. True)) = (m', None) \<and>
      ReadStream Unmarshal (SDHash created) m' = Inr (CreatedDescriptor created, [1, 2, 3]))"
proof -
  obtain content :: bytes where c: "content = [1, 2, 3]" by blast
  obtain source :: bytes where s: "source = replicate 48 0" by blast
  obtain z :: bytes where z: "z = replicate 16 0" by blast
  have zs: "take 16 source = z" "take 16 (drop 16 source) = z" unfolding s z by (simp_all add: take_replicate drop_replicate)
  let ?m = "NewConfiguredManager False False Map.empty (\<lambda>_. True) (\<lambda>_. True)" let ?d = "created_descriptor content ''a.txt'' source"
  let ?it = "[(hashBytes (ciphertext z z content), ciphertext z z content)]" let ?U = "\<lambda>_ :: bytes. Inr ?d :: string + StreamDescriptor"
  have p: "pieces content = [content]" "content \<noteq> []" by (simp_all add: single_piece c)
  have pub: "publishable content ''a.txt'' source" by (simp add: publishable_def fits_def p published_name s)
  have ok: "store_ok ?m" "\<forall>h. writable ?m h" by (simp_all add: store_ok_def NewConfiguredManager_def)
  from ReadStream_created [where Unmarshal = ?U, OF pub refl ok]
  obtain created where created: "CreateStreamDescriptor (Some content) ''a.txt'' source = Inr created"
    "stream_collision content ''a.txt'' source \<or>
     (\<forall>iteration. distinct (map fst iteration) \<and> map_of iteration = CreatedBlobs created \<longrightarrow>
       (\<exists>m'. store_created created iteration ?m = (m', None) \<and> ReadStream ?U (SDHash created) m' = Inr (CreatedDescriptor created, content)))"
    by (elim exE conjE)
  have "CreatedBlobs created = stored_blobs (entries z (drop 16 source) 0 [content]) Map.empty"
    using created(1) publishable_created(1) [OF pub] by (auto simp: p(1) zs)
  then have "map_of ?it = CreatedBlobs created" by (simp add: Let_def zs)
  with created(2) have "stream_collision content ''a.txt'' source \<or>
     (\<exists>m'. store_created created ?it ?m = (m', None) \<and> ReadStream ?U (SDHash created) m' = Inr (CreatedDescriptor created, content))" by auto
  with created(1) show ?thesis unfolding c [symmetric] s [symmetric] z [symmetric] by blast
qed

end
