(* ===== verification/StreamServer.thy ===== *)
theory StreamServer
  imports BlobManager Decimal
begin

text \<open>
  The media server, \<^verbatim>\<open>stream/server.go\<close>: byte ranges of a stream, and the bookkeeping of requests. The connection to a
  client is a state \<open>'c\<close> with a function that writes to it and may fail; the lookup of managed streams and the
  lifecycle callbacks are parameters that thread the state \<open>'w\<close>. Headers of a request are the bytes of Go strings.
  Contexts are not cancelled by the client; the content type of a response and the log are left out.
\<close>

section \<open>Byte ranges\<close>

record ManagedStreamInfo =
  ManagedSize :: int

record preparedStreamRange =
  range_start :: int
  range_end :: int
  range_total :: int

datatype range_error = NotSatisfiable | InvalidStreamSize | ImplausibleStreamSize | InvalidByteRange

fun total_size :: "int \<Rightarrow> BlobInfo list \<Rightarrow> int \<times> range_error option" where
  "total_size size0 [] = (size0, None)"
| "total_size size0 (blobInfo # infos) =
     (if BlobLength blobInfo \<le> 0 \<or> size0 > int64_max - (BlobLength blobInfo - 1) then (size0, Some InvalidStreamSize)
      else total_size (size0 + (BlobLength blobInfo - 1)) infos)"

text \<open>The two numbers of a header, with the total size.\<close>

definition parse_range :: "bytes \<Rightarrow> preparedStreamRange \<Rightarrow> preparedStreamRange \<times> range_error option" where
  "parse_range given result =
     (let total = range_total result;
          header = (if given = [] then str ''bytes=0-'' else given);
          header1 = (if 0x3D \<in> set header then after_byte 0x3D header else header);
          startText = before_byte 0x2D header1; endText = after_byte 0x2D header1
      in if 0x2D \<notin> set header1 \<or> 0x2D \<in> set endText then (result, Some InvalidByteRange)
         else
           (case ParseInt startText of
              None \<Rightarrow> (result, Some NotSatisfiable)
            | Some start \<Rightarrow>
                if start < 0 \<or> start \<ge> total then (result, Some NotSatisfiable)
                else
                  (case (if endText = [] then Some (total - 1) else ParseInt endText) of
                     None \<Rightarrow> (result, Some InvalidByteRange)
                   | Some end \<Rightarrow>
                       if end < start \<or> end \<ge> total then (result, Some NotSatisfiable)
                       else (result\<lparr>range_start := start, range_end := end\<rparr>, None))))"

text \<open>The size found so far is returned with an error too.\<close>

definition prepareStreamRangeWithClaimSize :: "bytes \<Rightarrow> StreamDescriptor \<Rightarrow> int \<Rightarrow> preparedStreamRange \<times> range_error option" where
  "prepareStreamRangeWithClaimSize header descriptor claimSize =
     (case total_size 0 (ContentBlobs descriptor) of
        (size0, Some e) \<Rightarrow> (\<lparr>range_start = 0, range_end = 0, range_total = size0\<rparr>, Some e)
      | (size0, None) \<Rightarrow>
          if claimSize > 0 \<and> (claimSize > size0 \<or> size0 - claimSize > 16)
          then (\<lparr>range_start = 0, range_end = 0, range_total = size0\<rparr>, Some ImplausibleStreamSize)
          else
            let result = \<lparr>range_start = 0, range_end = 0, range_total = (if claimSize > 0 then claimSize else size0)\<rparr>
            in if range_total result \<le> 0 then (result, Some NotSatisfiable) else parse_range header result)"

record plannedStreamBlob =
  plan_index :: nat
  plan_start :: int
  plan_end :: int

text \<open>The loop of \<^verbatim>\<open>planStreamBlobs\<close>, over the blobs before the terminator; a decoded descriptor has a terminator.\<close>

fun plan_from :: "int \<Rightarrow> nat \<Rightarrow> preparedStreamRange \<Rightarrow> BlobInfo list \<Rightarrow> plannedStreamBlob list" where
  "plan_from position i streamRange [] = []"
| "plan_from position i streamRange (info # infos) =
     (let len = BlobLength info - 1; blobEnd = wrap64 (position + len);
          rest = plan_from blobEnd (Suc i) streamRange infos
      in if range_start streamRange < blobEnd \<and> range_end streamRange \<ge> position
         then \<lparr>plan_index = i, plan_start = max (range_start streamRange - position) 0,
               plan_end = min (range_end streamRange - position + 1) len\<rparr> # rest
         else rest)"

definition planStreamBlobs :: "StreamDescriptor \<Rightarrow> preparedStreamRange \<Rightarrow> range_error + plannedStreamBlob list" where
  "planStreamBlobs descriptor streamRange =
     (let plan = plan_from 0 0 streamRange (butlast (DescriptorBlobs descriptor))
      in if plan = [] then Inl NotSatisfiable else Inr plan)"

section \<open>Writing to a client\<close>

text \<open>\<^verbatim>\<open>io.Writer\<close>: how many bytes were taken, and an error.\<close>

type_synonym 'c writer = "'c \<Rightarrow> bytes \<Rightarrow> 'c \<times> nat \<times> string option"

text \<open>The loop that writes zeros, in chunks of 32 KiB.\<close>

function write_zeroes :: "'c writer \<Rightarrow> nat \<Rightarrow> 'c \<Rightarrow> 'c \<times> string option" where
  "write_zeroes Write padding c =
     (if padding = 0 then (c, None)
      else
        let chunk = min padding 32768
        in (case Write c (replicate chunk 0) of
              (c1, n, Some e) \<Rightarrow> (c1, Some e)
            | (c1, n, None) \<Rightarrow> if n \<noteq> chunk then (c1, Some ''short write'') else write_zeroes Write (padding - chunk) c1))"
  by pat_completeness auto
termination by (relation "measure (\<lambda>(_, padding, _). padding)") auto

declare write_zeroes.simps [simp del]

text \<open>The range of an entry of a plan is not negative.\<close>

definition writePlannedBlob :: "'c writer \<Rightarrow> bytes \<Rightarrow> plannedStreamBlob \<Rightarrow> 'c \<Rightarrow> 'c \<times> string option" where
  "writePlannedBlob Write d plan c =
     (let dataEnd = min (plan_end plan) (int (length d)); padding = plan_end plan - max (plan_start plan) (int (length d))
      in case (if plan_start plan < dataEnd then
                 (case Write c (take (nat (dataEnd - plan_start plan)) (drop (nat (plan_start plan)) d)) of
                    (c1, n, Some e) \<Rightarrow> (c1, Some e)
                  | (c1, n, None) \<Rightarrow> if int n \<noteq> dataEnd - plan_start plan then (c1, Some ''short write'') else (c1, None))
               else (c, None)) of
           (c1, Some e) \<Rightarrow> (c1, Some e)
         | (c1, None) \<Rightarrow> if padding \<le> 0 then (c1, None) else write_zeroes Write (nat padding) c1)"

record StreamResponse =
  Status :: nat
  ContentRange :: "bytes option"
  ContentLength :: "bytes option"

definition http_Error :: "'c writer \<Rightarrow> string \<Rightarrow> nat \<Rightarrow> bytes option \<Rightarrow> 'c \<Rightarrow> 'c \<times> StreamResponse" where
  "http_Error Write message status contentRange c =
     (fst (Write c (str message @ [10])), \<lparr>Status = status, ContentRange = contentRange, ContentLength = None\<rparr>)"

section \<open>Requests and their lifecycle\<close>

text \<open>
  The maps of the server. A timer is the number it was created with; \<open>shutDown\<close> is the cancelled context of the server
  and \<open>hasIdle\<close> whether a callback for idle streams is set.
\<close>

record StreamServer =
  blocked :: "string set"
  active :: "string \<Rightarrow> nat set"
  idleTimers :: "string \<rightharpoonup> nat"
  nextStreamID :: nat
  nextTimer :: nat
  shutDown :: bool
  hasIdle :: bool

definition CreateServer :: "bool \<Rightarrow> StreamServer" where
  "CreateServer idle = \<lparr>blocked = {}, active = (\<lambda>_. {}), idleTimers = Map.empty, nextStreamID = 0, nextTimer = 0, shutDown = False, hasIdle = idle\<rparr>"

definition scheduleIdleLocked :: "string \<Rightarrow> StreamServer \<Rightarrow> StreamServer" where
  "scheduleIdleLocked sdHash srv =
     (if \<not> hasIdle srv \<or> sdHash \<in> blocked srv \<or> shutDown srv then srv
      else srv\<lparr>idleTimers := (idleTimers srv)(sdHash \<mapsto> nextTimer srv), nextTimer := Suc (nextTimer srv)\<rparr>)"

definition registerStream :: "string \<Rightarrow> StreamServer \<Rightarrow> StreamServer \<times> nat option" where
  "registerStream sdHash srv =
     (if sdHash \<in> blocked srv then (srv, None)
      else
        let i = Suc (nextStreamID srv)
        in (srv\<lparr>idleTimers := (idleTimers srv)(sdHash := None), nextStreamID := i,
                active := (active srv)(sdHash := insert i (active srv sdHash))\<rparr>, Some i))"

text \<open>The function that \<^verbatim>\<open>registerStream\<close> returns.\<close>

definition release_stream :: "string \<Rightarrow> nat \<Rightarrow> StreamServer \<Rightarrow> StreamServer" where
  "release_stream sdHash i srv =
     (let srv1 = srv\<lparr>active := (active srv)(sdHash := active srv sdHash - {i})\<rparr>
      in if active srv1 sdHash = {} then scheduleIdleLocked sdHash srv1 else srv1)"

text \<open>The locked part of \<^verbatim>\<open>cancelManagedStream\<close>; the caller then cancels the streams that were active and waits for them.\<close>

definition cancelManagedStream :: "string \<Rightarrow> bool \<Rightarrow> StreamServer \<Rightarrow> StreamServer \<times> nat set" where
  "cancelManagedStream sdHash block srv =
     (srv\<lparr>blocked := (if block then insert sdHash (blocked srv) else blocked srv), idleTimers := (idleTimers srv)(sdHash := None)\<rparr>, active srv sdHash)"

definition AllowManagedStream :: "string \<Rightarrow> StreamServer \<Rightarrow> StreamServer" where
  "AllowManagedStream sdHash srv = srv\<lparr>blocked := blocked srv - {sdHash}\<rparr>"

definition ScheduleManagedStreamIdle :: "string \<Rightarrow> StreamServer \<Rightarrow> StreamServer" where
  "ScheduleManagedStreamIdle sdHash srv = (if active srv sdHash = {} then scheduleIdleLocked sdHash srv else srv)"

definition Shutdown :: "StreamServer \<Rightarrow> StreamServer" where
  "Shutdown srv = srv\<lparr>shutDown := True, idleTimers := Map.empty\<rparr>"

text \<open>The check of a timer that has run out: the stream is still idle and the timer is the current one.\<close>

definition timer_expires :: "string \<Rightarrow> nat \<Rightarrow> StreamServer \<Rightarrow> StreamServer option" where
  "timer_expires sdHash timer srv =
     (if idleTimers srv sdHash \<noteq> Some timer \<or> active srv sdHash \<noteq> {} \<or> sdHash \<in> blocked srv \<or> shutDown srv then None
      else Some (srv\<lparr>idleTimers := (idleTimers srv)(sdHash := None)\<rparr>))"

section \<open>The handler\<close>

type_synonym 'w stream_lookup = "'w \<Rightarrow> string \<Rightarrow> 'w \<times> (string + ManagedStreamInfo \<times> bool)"
type_synonym 'w lifecycle = "'w \<Rightarrow> string \<Rightarrow> 'w \<times> string option"

text \<open>The callback of the walk; an index outside the plan would be a panic.\<close>

definition serve_blob :: "'c writer \<Rightarrow> plannedStreamBlob list \<Rightarrow> 'c \<Rightarrow> BlobInfo \<Rightarrow> bytes \<Rightarrow> 'c \<times> string option" where
  "serve_blob Write plan c info d =
     (let i = BlobNum info - int (plan_index (hd plan))
      in if i < 0 \<or> i \<ge> int (length plan) then (c, Some ''index out of range'') else writePlannedBlob Write d (plan ! nat i) c)"

text \<open>From the descriptor on: the range, the plan and the walk. A failure of the walk ends the body early.\<close>

definition serve_range ::
  "'w fetcher option \<Rightarrow> 'w completion_store option \<Rightarrow> 'c writer \<Rightarrow> bool \<Rightarrow> bytes \<Rightarrow> int \<Rightarrow> StreamDescriptor \<Rightarrow> 'w \<Rightarrow> BlobManager \<Rightarrow> 'c \<Rightarrow>
     'w \<times> BlobManager \<times> 'c \<times> StreamResponse" where
  "serve_range fetcher records Write head header claimSize descriptor w m c =
     (case prepareStreamRangeWithClaimSize header descriptor claimSize of
        (streamRange, Some NotSatisfiable) \<Rightarrow>
          (w, m, http_Error Write ''Requested Range Not Satisfiable'' 416 (Some (str ''bytes */'' @ Itoa (range_total streamRange))) c)
      | (streamRange, Some e) \<Rightarrow> (w, m, http_Error Write ''Malformed range header.'' 500 None c)
      | (streamRange, None) \<Rightarrow>
          (case planStreamBlobs descriptor streamRange of
             Inl e \<Rightarrow> (w, m, http_Error Write ''Malformed stream descriptor.'' 500 None c)
           | Inr plan \<Rightarrow>
               let response = \<lparr>Status = 206,
                     ContentRange = Some (str ''bytes '' @ Itoa (range_start streamRange) @ [0x2D] @ Itoa (range_end streamRange) @ [0x2F] @ Itoa (range_total streamRange)),
                     ContentLength = Some (Itoa (range_end streamRange - range_start streamRange + 1))\<rparr>
               in if head then (w, m, c, response)
                  else (case WalkStreamRange fetcher records (serve_blob Write plan) descriptor
                               (int (plan_index (hd plan))) (int (plan_index (last plan)) + 1) w m c of
                          (w1, m1, c1, _) \<Rightarrow> (w1, m1, c1, response))))"

definition handleSDHash ::
  "unmarshaller \<Rightarrow> 'w stream_lookup option \<Rightarrow> 'w lifecycle option \<Rightarrow> 'w fetcher option \<Rightarrow> 'w completion_store option \<Rightarrow> 'c writer \<Rightarrow> bool \<Rightarrow> bytes \<Rightarrow> string \<Rightarrow>
     'w \<Rightarrow> BlobManager \<Rightarrow> 'c \<Rightarrow> 'w \<times> BlobManager \<times> 'c \<times> StreamResponse" where
  "handleSDHash Unmarshal managedStream streamActive fetcher records Write head header sdHash w m c =
     (case (case managedStream of None \<Rightarrow> (w, Inr (\<lparr>ManagedSize = 0\<rparr>, True)) | Some lookup \<Rightarrow> lookup w sdHash) of
        (w1, Inl e) \<Rightarrow> (w1, m, http_Error Write ''Unable to inspect managed stream.'' 500 None c)
      | (w1, Inr (info, False)) \<Rightarrow> (w1, m, http_Error Write ''Stream not found.'' 404 None c)
      | (w1, Inr (info, True)) \<Rightarrow>
          (case (case streamActive of None \<Rightarrow> (w1, None) | Some callback \<Rightarrow> callback w1 sdHash) of
             (w2, Some e) \<Rightarrow> (w2, m, http_Error Write ''Unable to start managed stream.'' 500 None c)
           | (w2, None) \<Rightarrow>
               (case (case GetLocal m sdHash of
                        Some d \<Rightarrow> (w2, m, Some d)
                      | None \<Rightarrow>
                          (case Ensure fetcher records sdHash w2 m of
                             (w3, m3, Some e) \<Rightarrow> (w3, m3, None)
                           | (w3, m3, None) \<Rightarrow> (w3, m3, GetLocal m3 sdHash))) of
                  (w3, m3, None) \<Rightarrow> (w3, m3, http_Error Write ''Blob not found.'' 404 None c)
                | (w3, m3, Some blobData) \<Rightarrow>
                    (case DecodeDescriptor Unmarshal sdHash blobData of
                       Inl e \<Rightarrow> (w3, m3, http_Error Write ''Malformed stream descriptor.'' 500 None c)
                     | Inr descriptor \<Rightarrow> serve_range fetcher records Write head header (ManagedSize info) descriptor w3 m3 c))))"

text \<open>\<^verbatim>\<open>handleStream\<close> with the registration of the request around it; the method is given in upper case.\<close>

definition handleStream ::
  "unmarshaller \<Rightarrow> 'w stream_lookup option \<Rightarrow> 'w lifecycle option \<Rightarrow> 'w fetcher option \<Rightarrow> 'w completion_store option \<Rightarrow> 'c writer \<Rightarrow> string \<Rightarrow> bytes \<Rightarrow> string \<Rightarrow>
     'w \<Rightarrow> BlobManager \<Rightarrow> StreamServer \<Rightarrow> 'c \<Rightarrow> 'w \<times> BlobManager \<times> StreamServer \<times> 'c \<times> StreamResponse" where
  "handleStream Unmarshal managedStream streamActive fetcher records Write meth header sdHash w m srv c =
     (if meth = ''OPTIONS'' then (w, m, srv, c, \<lparr>Status = 204, ContentRange = None, ContentLength = None\<rparr>)
      else if meth = ''GET'' \<or> meth = ''HEAD'' then
        (case registerStream sdHash srv of
           (srv1, None) \<Rightarrow> (w, m, srv1, http_Error Write ''Stream not found.'' 404 None c)
         | (srv1, Some i) \<Rightarrow>
             (case handleSDHash Unmarshal managedStream streamActive fetcher records Write (meth = ''HEAD'') header sdHash w m c of
                (w1, m1, c1, response) \<Rightarrow> (w1, m1, release_stream sdHash i srv1, c1, response)))
      else (w, m, srv, http_Error Write ''HTTP method not allowed.'' 405 None c))"

section \<open>A plan serves the range\<close>

text \<open>A client that takes everything keeps the bytes it got.\<close>

definition body_writer :: "bytes writer" where
  "body_writer c bs = (c @ bs, length bs, None)"

lemma write_zeroes_body: "write_zeroes body_writer n c = (c @ replicate n 0, None)"
proof (induction n arbitrary: c rule: less_induct)
  case (less n)
  have split: "replicate n (0 :: byte) = replicate (min n 32768) 0 @ replicate (n - min n 32768) 0"
    by (simp add: replicate_add [symmetric])
  show ?case
  proof (cases "n = 0")
    case False
    then have "write_zeroes body_writer n c = write_zeroes body_writer (n - min n 32768) (c @ replicate (min n 32768) 0)"
      by (subst write_zeroes.simps) (simp add: body_writer_def Let_def)
    also have "\<dots> = ((c @ replicate (min n 32768) 0) @ replicate (n - min n 32768) 0, None)" using False by (intro less.IH) simp
    finally show ?thesis by (simp add: split)
  qed (simp add: write_zeroes.simps)
qed

text \<open>What an entry of a plan takes of a blob, with zeros behind it.\<close>

definition planned_slice :: "plannedStreamBlob \<Rightarrow> bytes \<Rightarrow> bytes" where
  "planned_slice entry d = drop (nat (plan_start entry)) (take (nat (plan_end entry)) (d @ replicate (nat (plan_end entry) - length d) 0))"

lemma writePlannedBlob_body:
  assumes "0 \<le> plan_start p" and "plan_start p \<le> plan_end p"
  shows "writePlannedBlob body_writer d p c = (c @ planned_slice p d, None)"
proof -
  obtain s e where se: "plan_start p = int s" "plan_end p = int e" "s \<le> e" using assms by (metis nat_0_le nat_mono order_trans)
  show ?thesis
  proof (cases "s < length d")
    case True
    then show ?thesis using se
      by (cases "e \<le> length d") (auto simp: writePlannedBlob_def Let_def body_writer_def planned_slice_def write_zeroes_body drop_take nat_diff_distrib min_def)
  next
    case False
    then have "nat (int e - int s) = e - s" by simp
    then show ?thesis using se False
      by (auto simp: writePlannedBlob_def Let_def planned_slice_def write_zeroes_body min_def max_def)
  qed
qed

text \<open>The plan for blobs of given sizes, with natural numbers.\<close>

fun nplan :: "nat \<Rightarrow> nat \<Rightarrow> nat \<Rightarrow> nat \<Rightarrow> nat list \<Rightarrow> plannedStreamBlob list" where
  "nplan pos i a b [] = []"
| "nplan pos i a b (l # ls) =
     (if a < pos + l \<and> pos \<le> b then [\<lparr>plan_index = i, plan_start = int (a - pos), plan_end = int (min (Suc b - pos) l)\<rparr>] else []) @
     nplan (pos + l) (Suc i) a b ls"

lemma plan_from_nplan:
  assumes "range_start rng = int a" and "range_end rng = int b" and "map BlobLength infos = map (\<lambda>l. int l + 1) ls" and "int (pos + sum_list ls) \<le> int64_max"
  shows "plan_from (int pos) i rng infos = nplan pos i a b ls"
  using assms(3,4)
proof (induction infos arbitrary: ls pos i)
  case (Cons info infos)
  then obtain l ls' where ls: "ls = l # ls'" "BlobLength info = int l + 1" "map BlobLength infos = map (\<lambda>l. int l + 1) ls'" by (cases ls) auto
  have w: "wrap64 (int pos + (BlobLength info - 1)) = int (pos + l)"
    using Cons.prems(2) ls(1,2) by (simp add: is_int64_def int64_min_def)
  have "plan_from (int (pos + l)) (Suc i) rng infos = nplan (pos + l) (Suc i) a b ls'"
    using Cons.prems(2) ls by (intro Cons.IH) (simp_all add: add.assoc)
  moreover have "(int a < int (pos + l) \<and> int pos \<le> int b) = (a < pos + l \<and> pos \<le> b)" by (simp del: of_nat_add)
  moreover have "max (int a - int pos) 0 = int (a - pos)" "pos \<le> b \<Longrightarrow> min (int b - int pos + 1) (int l) = int (min (Suc b - pos) l)" by auto
  ultimately show ?case unfolding ls(1) plan_from.simps nplan.simps Let_def w assms(1,2) by (simp add: ls(2) del: of_nat_add)
qed simp

lemma nplan_after: "b < pos \<Longrightarrow> nplan pos i a b ls = []"
  by (induction ls arbitrary: pos i) simp_all

lemma nplan_entries: "e \<in> set (nplan pos i a b ls) \<Longrightarrow> a \<le> b \<Longrightarrow> 0 \<le> plan_start e \<and> plan_start e \<le> plan_end e"
proof (induction ls arbitrary: pos i)
  case (Cons l ls)
  show ?case
  proof (cases "e \<in> set (nplan (pos + l) (Suc i) a b ls)")
    case True
    then show ?thesis using Cons by blast
  next
    case False
    then have "a < pos + l" "pos \<le> b" "e = \<lparr>plan_index = i, plan_start = int (a - pos), plan_end = int (min (Suc b - pos) l)\<rparr>"
      using Cons.prems(1) by (auto split: if_splits)
    then show ?thesis using Cons.prems(2) by auto
  qed
qed simp

text \<open>The entries are consecutive.\<close>

lemma nplan_indices_inside:
  "a \<le> pos \<Longrightarrow> 0 \<notin> set ls \<Longrightarrow> map plan_index (nplan pos i a b ls) = [i..<i + length (nplan pos i a b ls)] \<and> length (nplan pos i a b ls) \<le> length ls"
proof (induction ls arbitrary: pos i)
  case (Cons l ls)
  have IH: "map plan_index (nplan (pos + l) (Suc i) a b ls) = [Suc i..<Suc i + length (nplan (pos + l) (Suc i) a b ls)]"
    "length (nplan (pos + l) (Suc i) a b ls) \<le> length ls"
    using Cons.IH [of "pos + l" "Suc i"] Cons.prems by simp_all
  show ?case
  proof (cases "pos \<le> b")
    case True
    then have "nplan pos i a b (l # ls) = \<lparr>plan_index = i, plan_start = int (a - pos), plan_end = int (min (Suc b - pos) l)\<rparr> # nplan (pos + l) (Suc i) a b ls"
      using Cons.prems by auto
    then show ?thesis using IH by (simp add: upt_conv_Cons del: upt_Suc)
  next
    case False
    then show ?thesis by (simp add: nplan_after del: nplan.simps)
  qed
qed simp

lemma nplan_indices:
  "0 \<notin> set ls \<Longrightarrow> \<exists>j. map plan_index (nplan pos i a b ls) = [j..<j + length (nplan pos i a b ls)] \<and> i \<le> j \<and> j + length (nplan pos i a b ls) \<le> i + length ls"
proof (induction ls arbitrary: pos i)
  case (Cons l ls)
  show ?case
  proof (cases "a < pos + l \<and> pos \<le> b")
    case True
    then show ?thesis using nplan_indices_inside [of a "pos + l" ls "Suc i" b] Cons.prems by (intro exI [of _ i]) (simp add: upt_conv_Cons del: upt_Suc)
  next
    case False
    then have n: "nplan pos i a b (l # ls) = nplan (pos + l) (Suc i) a b ls" by auto
    obtain j where "map plan_index (nplan (pos + l) (Suc i) a b ls) = [j..<j + length (nplan (pos + l) (Suc i) a b ls)]" "Suc i \<le> j"
      "j + length (nplan (pos + l) (Suc i) a b ls) \<le> Suc i + length ls"
      using Cons.IH [of "pos + l" "Suc i"] Cons.prems by auto
    then show ?thesis unfolding n by (intro exI [of _ j]) simp
  qed
qed auto

text \<open>A blob as the range counts it: the contents, and zeros up to its size.\<close>

definition filled :: "nat \<Rightarrow> bytes \<Rightarrow> bytes" where
  "filled l p = p @ replicate (l - length p) 0"

lemma take_filled: "length p \<le> l \<Longrightarrow> e \<le> l \<Longrightarrow> take e (p @ replicate (e - length p) 0) = take e (filled l p)"
  by (simp add: filled_def take_replicate min_def)

lemma length_filled: "length p \<le> l \<Longrightarrow> length (filled l p) = l"
  by (simp add: filled_def)

lemma drop_take_append: "drop k (take n (xs @ ys)) = drop k (take n xs) @ drop (k - length xs) (take (n - length xs) ys)"
  by (cases "n \<le> length xs") (simp_all add: min_def)

lemma nplan_serves:
  assumes "list_all2 (\<lambda>l p. length p \<le> l) ls ps" and "\<And>k. k < length ps \<Longrightarrow> f (i + k) = ps ! k" and "a \<le> b"
  shows "concat (map (\<lambda>e. planned_slice e (f (plan_index e))) (nplan pos i a b ls)) = drop (a - pos) (take (Suc b - pos) (concat (map2 filled ls ps)))"
  using assms(1,2)
proof (induction ls ps arbitrary: pos i rule: list_all2_induct)
  case (Cons l ls p ps)
  let ?e = "\<lparr>plan_index = i, plan_start = int (a - pos), plan_end = int (min (Suc b - pos) l)\<rparr>"
  have len: "length (filled l p) = l" using Cons.hyps(1) by (rule length_filled)
  have fs: "f (Suc i + k) = ps ! k" if "k < length ps" for k using Cons.prems(1) [of "Suc k"] that by simp
  have IH: "concat (map (\<lambda>e. planned_slice e (f (plan_index e))) (nplan (pos + l) (Suc i) a b ls)) = drop (a - (pos + l)) (take (Suc b - (pos + l)) (concat (map2 filled ls ps)))"
    by (rule Cons.IH) (rule fs)
  have "planned_slice ?e p = drop (a - pos) (take (min (Suc b - pos) l) (filled l p))"
    using take_filled [OF Cons.hyps(1), of "min (Suc b - pos) l"] by (simp add: planned_slice_def)
  also have "take (min (Suc b - pos) l) (filled l p) = take (Suc b - pos) (filled l p)" using len by (simp add: min_def)
  finally have e: "planned_slice ?e p = drop (a - pos) (take (Suc b - pos) (filled l p))" .
  have "concat (map (\<lambda>e. planned_slice e (f (plan_index e))) (if a < pos + l \<and> pos \<le> b then [?e] else [])) = drop (a - pos) (take (Suc b - pos) (filled l p))"
    using e Cons.prems(1) [of 0] len by auto
  then show ?case unfolding nplan.simps map_append concat_append IH list.map zip_Cons_Cons prod.case concat.simps drop_take_append len diff_diff_left by (rule arg_cong2 [of _ _ _ _ append]) (rule refl)
qed simp

lemma parse_range_numbers:
  assumes "is_int64 (int a)" and "is_int64 (int b)"
  shows "parse_range (str ''bytes='' @ Itoa (int a) @ [0x2D] @ Itoa (int b)) result =
    (if a \<le> b \<and> int b < range_total result then (result\<lparr>range_start := int a, range_end := int b\<rparr>, None) else (result, Some NotSatisfiable))"
proof -
  have digits: "(0x2D :: byte) \<notin> set (FormatUint n)" for n using FormatUint_digits [of n] by (auto simp: list_all_iff is_digit_def)
  have b: "str ''bytes='' = [0x62, 0x79, 0x74, 0x65, 0x73, 0x3D]" by (simp add: str_def)
  let ?h = "Itoa (int a) @ [0x2D] @ Itoa (int b)"
  have cut: "after_byte 0x3D (str ''bytes='' @ ?h) = ?h" by (simp add: after_byte_def b)
  have parts: "before_byte 0x2D ?h = Itoa (int a)" "after_byte 0x2D ?h = Itoa (int b)"
    using cut_at [OF digits [of a]] by (simp_all add: Itoa_def)
  have "(0x2D :: byte) \<notin> set (Itoa (int b))" "Itoa (int b) \<noteq> []" using digits [of b] by (simp_all add: Itoa_def)
  moreover have "(0x3D :: byte) \<in> set (str ''bytes='' @ ?h)" "str ''bytes='' @ ?h \<noteq> []" by (simp_all add: b)
  moreover obtain H h A B where "H = str ''bytes='' @ ?h" "h = ?h" "A = Itoa (int a)" "B = Itoa (int b)" by blast
  moreover have "(0x2D :: byte) \<in> set ?h" "ParseInt (Itoa (int a)) = Some (int a)" "ParseInt (Itoa (int b)) = Some (int b)" using assms by simp_all
  ultimately have f: "H \<noteq> []" "0x3D \<in> set H" "after_byte 0x3D H = h" "before_byte 0x2D h = A" "after_byte 0x2D h = B" "0x2D \<in> set h" "0x2D \<notin> set B" "B \<noteq> []"
    "ParseInt A = Some (int a)" "ParseInt B = Some (int b)" and H: "str ''bytes='' @ ?h = H" using cut parts by (simp_all only: not_False_eq_True simp_thms)
  show ?thesis unfolding H parse_range_def by (simp add: f Let_def not_less)
qed

lemma walk_serves:
  assumes "\<And>info. info \<in> set infos \<Longrightarrow> canonicalBlobHash (BlobHash info) \<and> get m (BlobHash info) = Some (e info) \<and> DecryptBlob (e info) key (BlobIV info) = Inr (f info)"
    and "\<And>info c. info \<in> set infos \<Longrightarrow> callback c info (f info) = (c @ g info, None)"
  shows "walk fetcher records callback key infos w m c = (w, m, c @ concat (map g infos), None)"
  using assms
proof (induction infos arbitrary: c)
  case (Cons info infos)
  have i: "canonicalBlobHash (BlobHash info)" "get m (BlobHash info) = Some (e info)" "DecryptBlob (e info) key (BlobIV info) = Inr (f info)"
    "callback c info (f info) = (c @ g info, None)" using Cons.prems by simp_all
  then have "Has m (BlobHash info)" "ValidHash (BlobHash info)" by (auto simp: Has_def get_def canonicalBlobHash_def split: option.splits)
  then have "Ensure fetcher records (BlobHash info) w m = (w, m, None)" by (auto simp: Ensure_def ValidHash_def split: sum.splits)
  moreover have "walk fetcher records callback key infos w m (c @ g info) = (w, m, (c @ g info) @ concat (map g infos), None)"
    using Cons.prems by (intro Cons.IH) simp_all
  ultimately show ?case using i by (simp add: GetLocal_def)
qed simp

section \<open>The sizes of a created stream\<close>

definition counted :: "bytes \<Rightarrow> nat list" where
  "counted content = map (\<lambda>p. length (padded p) - 1) (pieces content)"

lemma counted_piece: "p \<noteq> [] \<Longrightarrow> length p < MaxBlobSize \<Longrightarrow> length p \<le> length (padded p) - 1 \<and> 0 < length (padded p) - 1 \<and> length (padded p) - 1 < MaxBlobSize \<and> length (padded p) - 1 \<le> length p + 15"
proof -
  assume p: "p \<noteq> []" "length p < MaxBlobSize"
  obtain n m k where nm: "n = length p" "m = length (padded p)" "k = n mod 16" by blast
  have "m = n + (16 - k)" "k < 16" "m \<le> MaxBlobSize" "0 < n" using padded_facts(4) [of p] padded_size(2) [OF p(2)] p(1) by (simp_all add: nm)
  then show ?thesis unfolding nm(1,2) [symmetric] by linarith
qed

lemma counted_facts:
  "list_all2 (\<lambda>l p. length p \<le> l) (counted content) (pieces content)" "0 \<notin> set (counted content)" "sum_list (counted content) \<le> length (pieces content) * MaxBlobSize"
proof -
  have piece: "length p \<le> length (padded p) - 1" "0 < length (padded p) - 1" "length (padded p) - 1 \<le> MaxBlobSize" if "p \<in> set (pieces content)" for p
    using counted_piece [of p] pieces_sizes [OF that] by simp_all
  show "list_all2 (\<lambda>l p. length p \<le> l) (counted content) (pieces content)"
    unfolding counted_def list_all2_map1 by (rule list.rel_refl_strong) (rule piece(1))
  show "0 \<notin> set (counted content)"
  proof
    assume "0 \<in> set (counted content)"
    then obtain p where "p \<in> set (pieces content)" "0 = length (padded p) - 1" unfolding counted_def set_map by (elim imageE)
    with piece(2) [of p] show False by simp
  qed
  have "sum_list (map f ps) \<le> length ps * M" if "\<And>p. p \<in> set ps \<Longrightarrow> f p \<le> M" for f :: "bytes \<Rightarrow> nat" and ps M
    using that by (induction ps) (simp_all add: add_mono)
  then show "sum_list (counted content) \<le> length (pieces content) * MaxBlobSize"
    unfolding counted_def using piece(3) .
qed

lemma filled_content: "content \<noteq> [] \<Longrightarrow> \<exists>k \<le> 15. concat (map2 filled (counted content) (pieces content)) = content @ replicate k 0"
proof (induction content rule: pieces.induct)
  case (1 content)
  let ?p = "take (MaxBlobSize - 1) content" let ?rest = "drop (MaxBlobSize - 1) content"
  have ps: "pieces content = ?p # pieces ?rest" using 1(2) by (rule pieces_Cons)
  have unfold: "concat (map2 filled (counted content) (pieces content)) = filled (length (padded ?p) - 1) ?p @ concat (map2 filled (counted ?rest) (pieces ?rest))"
    unfolding counted_def ps by (simp only: list.map zip_Cons_Cons prod.case concat.simps)
  show ?case
  proof (cases "?rest = []")
    case True
    then have p: "?p = content" by simp
    have "length content < MaxBlobSize" using True by simp
    from counted_piece [OF 1(2) this] have k: "length (padded content) - 1 - length content \<le> 15" by auto
    have "concat (map2 filled (counted content) (pieces content)) = content @ replicate (length (padded content) - 1 - length content) 0"
      unfolding unfold p True by (simp add: filled_def counted_def)
    with k show ?thesis by blast
  next
    case False
    then have n: "length ?p = 2097151" by simp
    have "filled (length (padded ?p) - 1) ?p = ?p" unfolding filled_def using padded_facts(4) [of ?p] n by simp
    moreover obtain k where "k \<le> 15" "concat (map2 filled (counted ?rest) (pieces ?rest)) = ?rest @ replicate k 0" using 1(1) [OF 1(2) False] by blast
    ultimately have "concat (map2 filled (counted content) (pieces content)) = ?p @ ?rest @ replicate k 0" unfolding unfold by simp
    then show ?thesis using \<open>k \<le> 15\<close> by (metis append.assoc append_take_drop_id)
  qed
qed

lemma length_filled_concat: "list_all2 (\<lambda>l p. length p \<le> l) ls ps \<Longrightarrow> length (concat (map2 filled ls ps)) = sum_list ls"
  by (induction ls ps rule: list_all2_induct) (simp_all add: length_filled)

lemma total_size_lengths:
  "map BlobLength infos = map (\<lambda>l. int l + 1) ls \<Longrightarrow> int (n + sum_list ls) \<le> int64_max \<Longrightarrow> total_size (int n) infos = (int (n + sum_list ls), None)"
proof (induction infos arbitrary: ls n)
  case (Cons info infos)
  then obtain l ls' where ls: "ls = l # ls'" "BlobLength info = int l + 1" "map BlobLength infos = map (\<lambda>l. int l + 1) ls'" by (cases ls) auto
  have "total_size (int (n + l)) infos = (int ((n + l) + sum_list ls'), None)" using Cons.prems(2) ls by (intro Cons.IH) (simp_all add: add.assoc)
  then show ?case using Cons.prems(2) ls by (simp add: add.assoc)
qed simp

lemma created_infos:
  assumes pub: "publishable content filePath source"
  shows "butlast (DescriptorBlobs (created_descriptor content filePath source)) = map fst (entries (take 16 source) (drop 16 source) 0 (pieces content))"
    "ContentBlobs (created_descriptor content filePath source) = map fst (entries (take 16 source) (drop 16 source) 0 (pieces content))"
    "map BlobLength (map fst (entries (take 16 source) (drop 16 source) 0 (pieces content))) = map (\<lambda>l. int l + 1) (counted content)"
proof -
  let ?es = "entries (take 16 source) (drop 16 source) 0 (pieces content)"
  have room: "16 * (length (pieces content) + 2) \<le> length source" "length (pieces content) < 12000" using pub by (simp_all add: publishable_def)
  show "butlast (DescriptorBlobs (created_descriptor content filePath source)) = map fst ?es" by (simp add: created_descriptor_def Let_def)
  show "ContentBlobs (created_descriptor content filePath source) = map fst ?es" using room by (rule ContentBlobs_created)
  show "map BlobLength (map fst ?es) = map (\<lambda>l. int l + 1) (counted content)"
  proof (rule nth_equalityI)
    fix i assume "i < length (map BlobLength (map fst ?es))"
    then have i: "i < length (pieces content)" by simp
    have "16 * Suc i \<le> length (drop 16 source)" using room(1) i by simp
    then have iv: "length (take 16 (drop (16 * i) (drop 16 source))) = 16" "length (take 16 source) = 16" using room(1) by simp_all
    have p: "padded (pieces content ! i) \<noteq> []" by (rule padded_facts(6))
    have "BlobLength (fst (?es ! i)) = int (length (padded (pieces content ! i)))"
      unfolding entries_nth [OF i] Let_def using ciphertext_facts(1) [OF iv(2,1)] by simp
    also have "\<dots> = int (length (padded (pieces content ! i)) - 1) + 1" using p by (cases "padded (pieces content ! i)") simp_all
    finally show "map BlobLength (map fst ?es) ! i = map (\<lambda>l. int l + 1) (counted content) ! i" using i by (simp add: counted_def)
  qed (simp add: counted_def)
qed

text \<open>The total that a range refers to: the size of the claim, or what the blobs count.\<close>

definition served_total :: "bytes \<Rightarrow> int \<Rightarrow> nat" where
  "served_total content claimSize = (if claimSize = 0 then sum_list (counted content) else length content)"

lemma counted_sum:
  assumes "content \<noteq> []"
  shows "\<exists>k \<le> 15. concat (map2 filled (counted content) (pieces content)) = content @ replicate k 0 \<and> sum_list (counted content) = length content + k"
proof -
  obtain k where "k \<le> 15" "concat (map2 filled (counted content) (pieces content)) = content @ replicate k 0" using filled_content [OF assms] by blast
  then show ?thesis using length_filled_concat [OF counted_facts(1) [of content]] by (intro exI [of _ k]) simp
qed

lemma prepare_created:
  assumes pub: "publishable content filePath source" and "claimSize = 0 \<or> claimSize = int (length content)" and ab: "is_int64 (int a)" "is_int64 (int b)"
  shows "prepareStreamRangeWithClaimSize (str ''bytes='' @ Itoa (int a) @ [0x2D] @ Itoa (int b)) (created_descriptor content filePath source) claimSize =
    (if a \<le> b \<and> b < served_total content claimSize then (\<lparr>range_start = int a, range_end = int b, range_total = int (served_total content claimSize)\<rparr>, None)
     else (\<lparr>range_start = 0, range_end = 0, range_total = int (served_total content claimSize)\<rparr>, Some NotSatisfiable))"
proof -
  have ne: "content \<noteq> []" "length (pieces content) < 12000" using pub by (simp_all add: publishable_def)
  obtain k where k: "k \<le> 15" "sum_list (counted content) = length content + k" using counted_sum [OF ne(1)] by blast
  have "int (0 + sum_list (counted content)) \<le> 12000 * int MaxBlobSize" using counted_facts(3) [of content] ne(2) by linarith
  then have "int (0 + sum_list (counted content)) \<le> int64_max" by (simp add: int64_max_def)
  from total_size_lengths [OF created_infos(3) [OF pub] this] have t: "total_size 0 (ContentBlobs (created_descriptor content filePath source)) = (int (length content + k), None)"
    by (simp add: created_infos(2) [OF pub] k(2))
  have pos: "0 < length content" using ne(1) by simp
  have size: "(if claimSize > 0 then claimSize else int (length content + k)) = int (served_total content claimSize)" "0 < served_total content claimSize"
    "\<not> (claimSize > 0 \<and> (claimSize > int (length content + k) \<or> int (length content + k) - claimSize > 16))"
    using assms(2) pos k by (auto simp: served_total_def)
  show ?thesis unfolding prepareStreamRangeWithClaimSize_def t prod.case option.case using size(2,3)
    by (simp only: if_False Let_def size(1) preparedStreamRange.select_convs parse_range_numbers [OF ab]) (simp add: of_nat_le_0_iff)
qed

lemma plan_created:
  assumes pub: "publishable content filePath source" and "a \<le> b" and "b < sum_list (counted content)"
  shows "planStreamBlobs (created_descriptor content filePath source) \<lparr>range_start = int a, range_end = int b, range_total = t\<rparr> = Inr (nplan 0 0 a b (counted content))"
    "nplan 0 0 a b (counted content) \<noteq> []"
    "concat (map (\<lambda>e. planned_slice e (pieces content ! plan_index e)) (nplan 0 0 a b (counted content))) = drop a (take (Suc b) (content @ replicate 15 0))"
proof -
  let ?plan = "nplan 0 0 a b (counted content)"
  have ne: "content \<noteq> []" "length (pieces content) < 12000" using pub by (simp_all add: publishable_def)
  obtain k where k: "k \<le> 15" "concat (map2 filled (counted content) (pieces content)) = content @ replicate k 0" "sum_list (counted content) = length content + k"
    using counted_sum [OF ne(1)] by blast
  have "concat (map (\<lambda>e. planned_slice e (pieces content ! plan_index e)) ?plan) = drop (a - 0) (take (Suc b - 0) (concat (map2 filled (counted content) (pieces content))))"
    by (rule nplan_serves [OF counted_facts(1)]) (simp_all add: assms(2))
  also have "\<dots> = drop a (take (Suc b) (content @ replicate k 0))" by (simp add: k(2))
  also have "take (Suc b) (content @ replicate k 0) = take (Suc b) (content @ replicate 15 0)" using assms(3) k(1,3) by (simp add: take_replicate min_def) arith
  finally show body: "concat (map (\<lambda>e. planned_slice e (pieces content ! plan_index e)) ?plan) = drop a (take (Suc b) (content @ replicate 15 0))" .
  have "a < length (take (Suc b) (content @ replicate 15 0))" using assms(2,3) k(1,3) by simp
  then have "drop a (take (Suc b) (content @ replicate 15 0)) \<noteq> []" unfolding drop_eq_Nil not_le .
  with body show ne_plan: "?plan \<noteq> []" by (metis concat.simps(1) list.map(1))
  have "int (0 + sum_list (counted content)) \<le> 12000 * int MaxBlobSize" using counted_facts(3) [of content] ne(2) by linarith
  then have bound: "int (0 + sum_list (counted content)) \<le> int64_max" by (simp add: int64_max_def)
  have "plan_from (int 0) 0 \<lparr>range_start = int a, range_end = int b, range_total = t\<rparr> (map fst (entries (take 16 source) (drop 16 source) 0 (pieces content))) = ?plan"
    by (rule plan_from_nplan [OF _ _ created_infos(3) [OF pub] bound]) simp_all
  then show "planStreamBlobs (created_descriptor content filePath source) \<lparr>range_start = int a, range_end = int b, range_total = t\<rparr> = Inr ?plan"
    using ne_plan by (simp add: planStreamBlobs_def created_infos(1) [OF pub])
qed

text \<open>The walk over the blobs of a plan writes their slices.\<close>

lemma walk_created:
  assumes pub: "publishable content filePath source" and held: "stream_held m content filePath source" and "a \<le> b" and "b < sum_list (counted content)"
  shows "WalkStreamRange fetcher records (serve_blob body_writer (nplan 0 0 a b (counted content))) (created_descriptor content filePath source)
      (int (plan_index (hd (nplan 0 0 a b (counted content))))) (int (plan_index (last (nplan 0 0 a b (counted content)))) + 1) w m c =
    (w, m, c @ drop a (take (Suc b) (content @ replicate 15 0)), None)"
proof -
  let ?plan = "nplan 0 0 a b (counted content)" let ?d = "created_descriptor content filePath source"
  let ?es = "entries (take 16 source) (drop 16 source) 0 (pieces content)" let ?key = "EncodeToString (take 16 source)"
  obtain n where n: "n = length ?plan" by blast
  have room: "16 * (length (pieces content) + 2) \<le> length source" using pub by (simp add: publishable_def)
  note plan = plan_created [OF pub assms(3,4)]
  obtain j where j: "map plan_index ?plan = [j..<j + n]" "j + n \<le> length (pieces content)"
    using nplan_indices [OF counted_facts(2), of 0 0 a b content] by (auto simp: n counted_def)
  have idx: "plan_index (?plan ! i) = j + i" if "i < n" for i using that j(1) n by (metis length_map nth_map nth_upt add_less_cancel_left)
  have pos: "0 < n" using plan(2) n by simp
  then have ends: "plan_index (hd ?plan) = j" "plan_index (last ?plan) = j + (n - 1)"
    using plan(2) idx [of 0] idx [of "n - 1"] n by (simp_all add: hd_conv_nth last_conv_nth)
  let ?sub = "map (\<lambda>i. fst (?es ! (j + i))) [0..<n]"
  let ?f = "\<lambda>info. pieces content ! nat (BlobNum info)" let ?g = "\<lambda>info. planned_slice (?plan ! (nat (BlobNum info) - j)) (pieces content ! nat (BlobNum info))"
  have len: "length (take 16 source) = 16" "16 * length (pieces content) \<le> length (drop 16 source)" using room by simp_all
  have sizes: "length p < MaxBlobSize" if "p \<in> set (pieces content)" for p using pieces_sizes [OF that] by (rule conjunct2)
  have entry: "canonicalBlobHash (BlobHash (fst (?es ! i)))" "get m (BlobHash (fst (?es ! i))) = Some (snd (?es ! i))"
    "DecryptBlob (snd (?es ! i)) ?key (BlobIV (fst (?es ! i))) = Inr (pieces content ! i)" "BlobNum (fst (?es ! i)) = int i" if i: "i < length (pieces content)" for i
  proof -
    note g = entries_good [OF len sizes i, of 0]
    show "canonicalBlobHash (BlobHash (fst (?es ! i)))" using g(1) by (simp add: good_entry_def)
    have "?es ! i \<in> set ?es" using i by (intro nth_mem) simp
    then show "get m (BlobHash (fst (?es ! i))) = Some (snd (?es ! i))" using held unfolding stream_held_def by blast
    show "DecryptBlob (snd (?es ! i)) ?key (BlobIV (fst (?es ! i))) = Inr (pieces content ! i)" "BlobNum (fst (?es ! i)) = int i" using g(2,4) by simp_all
  qed
  have sub: "take n (drop j (DescriptorBlobs ?d)) = ?sub"
  proof -
    have "take n (drop j (DescriptorBlobs ?d)) = take n (drop j (map fst ?es))" using j(2) by (simp add: created_descriptor_def Let_def)
    also have "\<dots> = ?sub" using j(2) by (intro nth_equalityI) simp_all
    finally show ?thesis .
  qed
  have "walk fetcher records (serve_blob body_writer ?plan) ?key ?sub w m c = (w, m, c @ concat (map ?g ?sub), None)"
  proof (rule walk_serves [where e = "\<lambda>info. snd (?es ! nat (BlobNum info))" and f = ?f])
    fix info c assume "info \<in> set ?sub"
    then obtain i where i: "i < n" "info = fst (?es ! (j + i))" by auto
    then have e: "j + i < length (pieces content)" using j(2) by simp
    note en = entry [OF e]
    have "?plan ! i \<in> set ?plan" using i(1) n by simp
    then have "0 \<le> plan_start (?plan ! i) \<and> plan_start (?plan ! i) \<le> plan_end (?plan ! i)" using assms(3) by (rule nplan_entries)
    then show "serve_blob body_writer ?plan c info (?f info) = (c @ ?g info, None)"
      unfolding i(2) en(4) using i(1) n by (simp add: serve_blob_def ends(1) en(4) writePlannedBlob_body nat_int_add)
    show "canonicalBlobHash (BlobHash info) \<and> get m (BlobHash info) = Some (snd (?es ! nat (BlobNum info))) \<and> DecryptBlob (snd (?es ! nat (BlobNum info))) ?key (BlobIV info) = Inr (?f info)"
      unfolding i(2) using en by (simp add: nat_int_add)
  qed
  moreover have "map ?g ?sub = map (\<lambda>e. planned_slice e (pieces content ! plan_index e)) ?plan"
  proof (rule nth_equalityI)
    fix i assume "i < length (map ?g ?sub)"
    then have i: "i < n" by simp
    then have "BlobNum (fst (?es ! (j + i))) = int (j + i)" using j(2) by (intro entry(4)) simp
    then show "map ?g ?sub ! i = map (\<lambda>e. planned_slice e (pieces content ! plan_index e)) ?plan ! i" using i n idx [OF i] by (simp add: nat_int_add)
  qed (simp add: n)
  moreover have "StreamKey ?d = ?key" "int (length (DescriptorBlobs ?d)) - 1 = int (length (pieces content))" by (simp_all add: created_descriptor_def Let_def)
  ultimately show ?thesis
    using publishable_created(2) [OF pub] j(2) pos plan(3) by (simp add: WalkStreamRange_def Let_def ends sub nat_diff_distrib of_nat_diff)
qed

text \<open>The answer to a request for the bytes from \<open>a\<close> to \<open>b\<close>: body and headers.\<close>

definition range_answer :: "bytes \<Rightarrow> nat \<Rightarrow> nat \<Rightarrow> nat \<Rightarrow> bytes \<times> StreamResponse" where
  "range_answer content whole a b =
     (if a \<le> b \<and> b < whole
      then (drop a (take (Suc b) (content @ replicate 15 0)),
            \<lparr>Status = 206, ContentRange = Some (str ''bytes '' @ Itoa (int a) @ [0x2D] @ Itoa (int b) @ [0x2F] @ Itoa (int whole)),
             ContentLength = Some (Itoa (int b - int a + 1))\<rparr>)
      else (str ''Requested Range Not Satisfiable'' @ [10],
            \<lparr>Status = 416, ContentRange = Some (str ''bytes */'' @ Itoa (int whole)), ContentLength = None\<rparr>))"

definition range_header :: "nat \<Rightarrow> nat \<Rightarrow> bytes" where
  "range_header a b = str ''bytes='' @ Itoa (int a) @ [0x2D] @ Itoa (int b)"

lemma serve_range_created:
  assumes pub: "publishable content filePath source" and held: "stream_held m content filePath source" and "claimSize = 0 \<or> claimSize = int (length content)"
    and ab: "is_int64 (int a)" "is_int64 (int b)"
  shows "serve_range fetcher records body_writer False (range_header a b) claimSize (created_descriptor content filePath source) w m [] =
    (w, m, range_answer content (served_total content claimSize) a b)"
proof (cases "a \<le> b \<and> b < served_total content claimSize")
  case True
  have "content \<noteq> []" using pub by (simp add: publishable_def)
  from counted_sum [OF this] have "length content \<le> sum_list (counted content)" by auto
  then have "b < sum_list (counted content)" using True by (simp add: served_total_def split: if_splits)
  note plan = plan_created(1) [OF pub conjunct1 [OF True] this] and walk = walk_created [OF pub held conjunct1 [OF True] this, where c = "[]"]
  show ?thesis unfolding serve_range_def range_header_def prepare_created [OF assms(1,3) ab] if_P [OF True] range_answer_def prod.case option.case plan sum.case preparedStreamRange.select_convs Let_def walk
    by simp
next
  case False
  show ?thesis unfolding serve_range_def range_header_def prepare_created [OF assms(1,3) ab] if_not_P [OF False] range_answer_def
    by (simp add: http_Error_def body_writer_def)
qed

lemma handleStream_held:
  assumes pub: "publishable content filePath source" and held: "stream_held m content filePath source"
    and U: "Unmarshal (marshalPythonDescriptor (created_descriptor content filePath source)) = Inr (created_descriptor content filePath source)"
    and claimed: "claimSize = 0 \<or> claimSize = int (length content)" and sd: "sd = hashBytes (marshalPythonDescriptor (created_descriptor content filePath source))"
    and lookup: "lookup w sd = (w1, Inr (\<lparr>ManagedSize = claimSize\<rparr>, True))" and start: "activate w1 sd = (w2, None)" and free: "sd \<notin> blocked srv"
    and ab: "is_int64 (int a)" "is_int64 (int b)"
  shows "\<exists>srv'. handleStream Unmarshal (Some lookup) (Some activate) fetcher records body_writer ''GET'' (range_header a b) sd w m srv [] =
    (w2, m, srv', range_answer content (served_total content claimSize) a b)"
proof -
  let ?d = "created_descriptor content filePath source"
  obtain srv1 i where reg: "registerStream sd srv = (srv1, Some i)" using free by (simp add: registerStream_def Let_def)
  have l: "GetLocal m sd = Some (marshalPythonDescriptor ?d)" using held unfolding sd stream_held_def GetLocal_def by (rule conjunct1)
  have d: "DecodeDescriptor Unmarshal sd (marshalPythonDescriptor ?d) = Inr ?d"
    unfolding sd by (rule created_decode(1) [where Unmarshal = Unmarshal, OF publishable_created(2) [OF pub] U])
  obtain body response where a: "range_answer content (served_total content claimSize) a b = (body, response)" by (cases "range_answer content (served_total content claimSize) a b")
  note s = serve_range_created [OF pub held claimed ab, where fetcher = fetcher and records = records and w = w2, unfolded a]
  show ?thesis by (intro exI [of _ "release_stream sd i srv1"]) (simp add: handleStream_def handleSDHash_def reg lookup start l d s a)
qed

text \<open>
  C4. Range requests. A published file is served as it is: when descriptor and blobs are stored (unless two different
  blobs of the stream have the same SHA-384), a GET request for the bytes from \<open>a\<close> to \<open>b\<close> of the stream, which is
  managed and not blocked, is answered with status 206, exactly those bytes of the file and matching headers. The total
  is the size of the file when the claim gives it; otherwise it is at most 15 bytes more, and the bytes after the end
  are zeros. Every other pair of numbers is answered with status 416 and the total.
\<close>

theorem handleStream_serves:
  assumes pub: "publishable content filePath source"
    and U: "Unmarshal (marshalPythonDescriptor (created_descriptor content filePath source)) = Inr (created_descriptor content filePath source)"
    and "store_ok m" and "\<forall>h. writable m h" and claimed: "claimSize = 0 \<or> claimSize = int (length content)"
    and lookup: "\<forall>w h. \<exists>w'. lookup w h = (w', Inr (\<lparr>ManagedSize = claimSize\<rparr>, True))" and start: "\<forall>w h. \<exists>w'. activate w h = (w', None)"
  shows "\<exists>created. CreateStreamDescriptor (Some content) filePath source = Inr created \<and>
    (stream_collision content filePath source \<or>
     (\<forall>iteration. distinct (map fst iteration) \<and> map_of iteration = CreatedBlobs created \<longrightarrow>
       (\<exists>m' whole. store_created created iteration m = (m', None) \<and>
          length content \<le> whole \<and> whole \<le> length content + 15 \<and> (claimSize \<noteq> 0 \<longrightarrow> whole = length content) \<and>
          (\<forall>a b w srv. is_int64 (int a) \<and> is_int64 (int b) \<and> SDHash created \<notin> blocked srv \<longrightarrow>
             (\<exists>w' srv'. handleStream Unmarshal (Some lookup) (Some activate) fetcher records body_writer ''GET'' (range_header a b) (SDHash created) w m' srv [] =
               (w', m', srv', range_answer content whole a b))))))"
proof -
  let ?d = "created_descriptor content filePath source" let ?total = "served_total content claimSize"
  obtain created where c: "CreateStreamDescriptor (Some content) filePath source = Inr created" "SDHash created = hashBytes (marshalPythonDescriptor ?d)"
    using publishable_created(1) [OF pub] by simp
  have "content \<noteq> []" using pub by (simp add: publishable_def)
  from counted_sum [OF this] have whole: "length content \<le> ?total" "?total \<le> length content + 15" "claimSize \<noteq> 0 \<longrightarrow> ?total = length content"
    by (auto simp: served_total_def)
  have "\<exists>w' srv'. handleStream Unmarshal (Some lookup) (Some activate) fetcher records body_writer ''GET'' (range_header a b) (SDHash created) w m' srv [] =
      (w', m', srv', range_answer content ?total a b)"
    if held: "stream_held m' content filePath source" and ab: "is_int64 (int a)" "is_int64 (int b)" and free: "SDHash created \<notin> blocked srv" for m' a b w srv
  proof -
    obtain w1 where w1: "lookup w (SDHash created) = (w1, Inr (\<lparr>ManagedSize = claimSize\<rparr>, True))" using lookup by blast
    obtain w2 where "activate w1 (SDHash created) = (w2, None)" using start by blast
    from handleStream_held [where Unmarshal = Unmarshal and lookup = lookup and activate = activate, OF pub held U claimed c(2) w1 this free ab] show ?thesis by blast
  qed
  then have "\<exists>m' whole. store_created created iteration m = (m', None) \<and> length content \<le> whole \<and> whole \<le> length content + 15 \<and> (claimSize \<noteq> 0 \<longrightarrow> whole = length content) \<and>
      (\<forall>a b w srv. is_int64 (int a) \<and> is_int64 (int b) \<and> SDHash created \<notin> blocked srv \<longrightarrow>
         (\<exists>w' srv'. handleStream Unmarshal (Some lookup) (Some activate) fetcher records body_writer ''GET'' (range_header a b) (SDHash created) w m' srv [] =
           (w', m', srv', range_answer content whole a b)))"
    if "\<not> stream_collision content filePath source" "distinct (map fst iteration)" "map_of iteration = CreatedBlobs created" for iteration
    using store_created_held [OF pub assms(3,4) c(1) that] whole by blast
  with c(1) show ?thesis by blast
qed

theorem handleStream_serves_witness:
  "\<exists>created m' srv'. CreateStreamDescriptor (Some [1, 2, 3]) ''a.txt'' (replicate 48 0) = Inr created \<and>
     (stream_collision [1, 2, 3] ''a.txt'' (replicate 48 0) \<or>
      handleStream (\<lambda>_. Inr (created_descriptor [1, 2, 3] ''a.txt'' (replicate 48 0))) (Some (\<lambda>w h. (w, Inr (\<lparr>ManagedSize = 3\<rparr>, True)))) (Some (\<lambda>w h. (w, None)))
        None None body_writer ''GET'' (range_header 1 2) (SDHash created) () m' (CreateServer True) [] =
      ((), m', srv', [2, 3], \<lparr>Status = 206, ContentRange = Some (str ''bytes 1-2/3''), ContentLength = Some (str ''2'')\<rparr>))"
proof -
  obtain content :: bytes where c: "content = [1, 2, 3]" by blast
  obtain source :: bytes where s: "source = replicate 48 0" by blast
  let ?m = "NewConfiguredManager False False Map.empty (\<lambda>_. True) (\<lambda>_. True)" let ?d = "created_descriptor content ''a.txt'' source"
  have p: "pieces content = [content]" "content \<noteq> []" by (simp_all add: single_piece c)
  have pub: "publishable content ''a.txt'' source" by (simp add: publishable_def fits_def p published_name s)
  have ok: "store_ok ?m" "\<forall>h. writable ?m h" by (simp_all add: store_ok_def NewConfiguredManager_def)
  let ?lookup = "\<lambda>w h. (w :: unit, Inr (\<lparr>ManagedSize = 3\<rparr>, True) :: string + ManagedStreamInfo \<times> bool)" let ?act = "\<lambda>w h. (w :: unit, None :: string option)"
  have lk: "\<forall>w h. \<exists>w'. ?lookup w h = (w', Inr (\<lparr>ManagedSize = 3\<rparr>, True))" "\<forall>w h. \<exists>w'. ?act w h = (w', None)" by simp_all
  have three: "(3 :: int) = 0 \<or> (3 :: int) = int (length content)" by (simp add: c)
  from handleStream_serves [where lookup = ?lookup and activate = ?act and Unmarshal = "\<lambda>_. Inr ?d" and fetcher = None and records = None, OF pub refl ok three lk]
  obtain created where created: "CreateStreamDescriptor (Some content) ''a.txt'' source = Inr created"
    and serve: "stream_collision content ''a.txt'' source \<or>
     (\<forall>iteration. distinct (map fst iteration) \<and> map_of iteration = CreatedBlobs created \<longrightarrow>
       (\<exists>m' whole. store_created created iteration ?m = (m', None) \<and> length content \<le> whole \<and> whole \<le> length content + 15 \<and> ((3 :: int) \<noteq> 0 \<longrightarrow> whole = length content) \<and>
          (\<forall>a b w srv. is_int64 (int a) \<and> is_int64 (int b) \<and> SDHash created \<notin> blocked srv \<longrightarrow>
             (\<exists>w' srv'. handleStream (\<lambda>_. Inr ?d) (Some ?lookup) (Some ?act) None None body_writer ''GET'' (range_header a b) (SDHash created) w m' srv [] =
               (w', m', srv', range_answer content whole a b)))))"
    by (elim exE conjE)
  have "CreatedBlobs created = stored_blobs (entries (take 16 source) (drop 16 source) 0 [content]) Map.empty"
    using created publishable_created(1) [OF pub] by (auto simp: p(1))
  then obtain h e where it: "distinct (map fst [(h, e)]) \<and> map_of [(h, e)] = CreatedBlobs created" by (simp add: Let_def)
  have int64: "is_int64 (int 1) \<and> is_int64 (int 2) \<and> SDHash created \<notin> blocked (CreateServer True)" by (simp add: is_int64_def int64_min_def int64_max_def CreateServer_def)
  have serves: "\<exists>m' srv'. handleStream (\<lambda>_. Inr ?d) (Some ?lookup) (Some ?act) None None body_writer ''GET'' (range_header 1 2) (SDHash created) () m' (CreateServer True) [] =
      ((), m', srv', range_answer content (length content) 1 2)" if none: "\<not> stream_collision content ''a.txt'' source"
  proof -
    note all = mp [OF disj_imp [THEN iffD1, OF serve] none]
    from all [rule_format, OF it] obtain m' whole where w: "(3 :: int) \<noteq> 0 \<longrightarrow> whole = length content"
      and h: "\<forall>a b w srv. is_int64 (int a) \<and> is_int64 (int b) \<and> SDHash created \<notin> blocked srv \<longrightarrow>
        (\<exists>w' srv'. handleStream (\<lambda>_. Inr ?d) (Some ?lookup) (Some ?act) None None body_writer ''GET'' (range_header a b) (SDHash created) w m' srv [] =
          (w', m', srv', range_answer content whole a b))"
      by (elim exE conjE)
    have whole: "whole = length content" using w by simp
    from h [rule_format, OF int64, where w = "()"] show ?thesis unfolding whole by auto
  qed
  have numbers: "Itoa 1 = [49]" "Itoa 2 = [50]" "Itoa 3 = [51]" by (simp_all add: Itoa_def FormatUint_def digit_byte_def digits_le.simps)
  have answer: "range_answer content (length content) 1 2 = ([2, 3], \<lparr>Status = 206, ContentRange = Some (str ''bytes 1-2/3''), ContentLength = Some (str ''2'')\<rparr>)"
    by (simp add: range_answer_def c numbers str_def)
  show ?thesis using created serves unfolding answer c [symmetric] s [symmetric] by blast
qed

section \<open>Requests, timers and the callbacks\<close>

text \<open>
  The interleavings of requests, timers and the methods. A request is registered under the first lock, makes its call
  of the callback for active streams under the second one and serves from then on; a timer that passes its check
  holds the second lock until it has called the callback for idle streams, which is \<open>pendingIdle\<close>. A call is recorded
  with the hash and whether it was the one for active streams, the latest first. \<open>cancels\<close> are the callers of
  \<^verbatim>\<open>BlockManagedStream\<close> that wait for the streams they found, \<open>quiet\<close> the hashes for which it has returned and that
  were not allowed again.
\<close>

record stream_world =
  server :: StreamServer
  requests :: "nat \<rightharpoonup> string \<times> bool"
  pendingIdle :: "string option"
  calls :: "(string \<times> bool) list"
  cancels :: "(string \<times> nat set) set"
  quiet :: "string set"

definition stream_world_init :: stream_world where
  "stream_world_init = \<lparr>server = CreateServer True, requests = Map.empty, pendingIdle = None, calls = [], cancels = {}, quiet = {}\<rparr>"

inductive stream_step :: "stream_world \<Rightarrow> stream_world \<Rightarrow> bool" where
  register: "registerStream h (server s) = (srv', Some i) \<Longrightarrow> stream_step s (s\<lparr>server := srv', requests := (requests s)(i \<mapsto> (h, False))\<rparr>)"
| activate: "requests s i = Some (h, False) \<Longrightarrow> pendingIdle s = None \<Longrightarrow>
    stream_step s (s\<lparr>calls := (h, True) # calls s, requests := (requests s)(i \<mapsto> (h, ok))\<rparr>)"
| finish: "requests s i = Some (h, serving) \<Longrightarrow>
    stream_step s (s\<lparr>server := release_stream h i (server s), requests := (requests s)(i := None)\<rparr>)"
| expire: "pendingIdle s = None \<Longrightarrow> timer_expires h timer (server s) = Some srv' \<Longrightarrow> stream_step s (s\<lparr>server := srv', pendingIdle := Some h\<rparr>)"
| idle: "pendingIdle s = Some h \<Longrightarrow> stream_step s (s\<lparr>calls := (h, False) # calls s, pendingIdle := None\<rparr>)"
| cancel: "cancelManagedStream h block (server s) = (srv', ids) \<Longrightarrow>
    stream_step s (s\<lparr>server := srv', cancels := (if block then insert (h, ids) (cancels s) else cancels s)\<rparr>)"
| returned: "(h, ids) \<in> cancels s \<Longrightarrow> \<forall>i \<in> ids. requests s i = None \<Longrightarrow>
    stream_step s (s\<lparr>cancels := cancels s - {(h, ids)}, quiet := insert h (quiet s)\<rparr>)"
| allow: "stream_step s (s\<lparr>server := AllowManagedStream h (server s), cancels := {c \<in> cancels s. fst c \<noteq> h}, quiet := quiet s - {h}\<rparr>)"
| schedule: "stream_step s (s\<lparr>server := ScheduleManagedStreamIdle h (server s)\<rparr>)"
| shutdown: "stream_step s (s\<lparr>server := Shutdown (server s)\<rparr>)"

inductive stream_reachable :: "stream_world \<Rightarrow> bool" where
  init: "stream_reachable stream_world_init"
| step: "stream_reachable s \<Longrightarrow> stream_step s s' \<Longrightarrow> stream_reachable s'"

text \<open>What the maps of the server say of each other, and of requests.\<close>

definition server_inv :: "StreamServer \<Rightarrow> bool" where
  "server_inv srv \<longleftrightarrow> (\<forall>h i. i \<in> active srv h \<longrightarrow> i \<le> nextStreamID srv) \<and>
     (\<forall>h. idleTimers srv h \<noteq> None \<longrightarrow> h \<notin> blocked srv \<and> active srv h = {})"

definition requests_inv :: "stream_world \<Rightarrow> bool" where
  "requests_inv s \<longleftrightarrow> (\<forall>i h. (i \<in> active (server s) h) = (\<exists>serving. requests s i = Some (h, serving)))"

definition calls_inv :: "stream_world \<Rightarrow> bool" where
  "calls_inv s \<longleftrightarrow> (\<forall>i h. requests s i = Some (h, True) \<longrightarrow> map_of (calls s) h = Some True \<and> pendingIdle s \<noteq> Some h)"

definition blocks_inv :: "stream_world \<Rightarrow> bool" where
  "blocks_inv s \<longleftrightarrow> (\<forall>h ids. (h, ids) \<in> cancels s \<longrightarrow> h \<in> blocked (server s) \<and> active (server s) h \<subseteq> ids) \<and>
     (\<forall>h \<in> quiet s. h \<in> blocked (server s) \<and> active (server s) h = {})"

lemmas server_defs = registerStream_def release_stream_def scheduleIdleLocked_def timer_expires_def cancelManagedStream_def AllowManagedStream_def
  ScheduleManagedStreamIdle_def Shutdown_def Let_def

lemma server_step: "stream_step s s' \<Longrightarrow> server_inv (server s) \<Longrightarrow> server_inv (server s')"
  by (induction rule: stream_step.induct) (auto simp: server_inv_def server_defs split: if_splits; fastforce)+

lemma requests_step:
  assumes "stream_step s s'" and "requests_inv s" and "server_inv (server s)"
  shows "requests_inv s'"
  using assms
proof (induction rule: stream_step.induct)
  case (register h s srv' i)
  then have "i = Suc (nextStreamID (server s))" "\<And>h j. j \<in> active (server s) h \<Longrightarrow> j \<le> nextStreamID (server s)" by (auto simp: server_inv_def server_defs split: if_splits)
  then have fresh: "i \<notin> active (server s) h'" for h' using Suc_n_not_le_n by blast
  have "requests s i = None"
  proof (cases "requests s i")
    case (Some r)
    then have "i \<in> active (server s) (fst r)" using register(2) by (cases r) (auto simp: requests_inv_def)
    with fresh show ?thesis by simp
  qed
  with register show ?case by (auto simp: requests_inv_def server_defs split: if_splits)
qed (auto simp: requests_inv_def server_defs split: if_splits)

lemma request_active: "requests_inv s \<Longrightarrow> requests s i = Some (h, serving) \<Longrightarrow> i \<in> active (server s) h"
  by (auto simp: requests_inv_def)

lemma calls_step:
  assumes "stream_step s s'" and "calls_inv s" and "requests_inv s"
  shows "calls_inv s'"
  using assms
proof (induction rule: stream_step.induct)
  case (expire s h timer srv')
  then have "requests s i \<noteq> Some (h, b)" for i b by (auto simp: requests_inv_def timer_expires_def split: if_splits)
  with expire show ?case by (auto simp: calls_inv_def)
qed (auto simp: calls_inv_def split: if_splits)

lemma blocks_step:
  assumes "stream_step s s'" and "blocks_inv s" and "requests_inv s"
  shows "blocks_inv s'"
  using assms
proof (induction rule: stream_step.induct)
  case (returned h ids s)
  have "active (server s) h = {}"
  proof (rule ccontr)
    assume "active (server s) h \<noteq> {}"
    then obtain i where "i \<in> active (server s) h" by blast
    moreover from this have "requests s i \<noteq> None" using returned(4) by (auto simp: requests_inv_def)
    moreover have "active (server s) h \<subseteq> ids" using returned(1,3) by (simp add: blocks_inv_def)
    ultimately have "i \<in> ids" "requests s i \<noteq> None" by blast+
    with returned(2) show False by simp
  qed
  with returned show ?case by (auto simp: blocks_inv_def)
qed (auto simp: blocks_inv_def server_defs split: if_splits, blast+)

lemma stream_reachable_inv: "stream_reachable s \<Longrightarrow> server_inv (server s) \<and> requests_inv s \<and> calls_inv s \<and> blocks_inv s"
proof (induction rule: stream_reachable.induct)
  case init
  show ?case by (simp add: stream_world_init_def CreateServer_def server_inv_def requests_inv_def calls_inv_def blocks_inv_def)
next
  case (step s s')
  then show ?case using server_step requests_step calls_step blocks_step by blast
qed

text \<open>
  C12. Callbacks of streams. In every interleaving of requests, timers, cancellations and the end of the server: while a
  request serves a stream, the latest lifecycle call for it was the one that marks it active and no call that marks it
  idle is under way; after \<^verbatim>\<open>BlockManagedStream\<close> has returned, no request for the stream is left or admitted until
  it is allowed again; and a timer waits only for streams that nobody requests and that are not blocked.
\<close>

theorem stream_lifecycle:
  assumes "stream_reachable s"
  shows "(\<forall>i h. requests s i = Some (h, True) \<longrightarrow> map_of (calls s) h = Some True \<and> pendingIdle s \<noteq> Some h) \<and>
    (\<forall>h i serving. h \<in> quiet s \<longrightarrow> requests s i \<noteq> Some (h, serving) \<and> registerStream h (server s) = (server s, None)) \<and>
    (\<forall>h i serving. idleTimers (server s) h \<noteq> None \<longrightarrow> requests s i \<noteq> Some (h, serving) \<and> h \<notin> blocked (server s))"
proof (intro conjI allI impI)
  note inv = stream_reachable_inv [OF assms]
  fix h i serving
  show "map_of (calls s) h = Some True" "pendingIdle s \<noteq> Some h" if "requests s i = Some (h, True)" using that inv by (auto simp: calls_inv_def)
  show "requests s i \<noteq> Some (h, serving)" if "h \<in> quiet s"
    using that inv request_active [of s i h serving] by (auto simp: blocks_inv_def)
  show "registerStream h (server s) = (server s, None)" if "h \<in> quiet s" using that inv by (auto simp: blocks_inv_def registerStream_def)
  show "requests s i \<noteq> Some (h, serving)" if "idleTimers (server s) h \<noteq> None" 
    using that inv request_active [of s i h serving] by (auto simp: server_inv_def)
  show "h \<notin> blocked (server s)" if "idleTimers (server s) h \<noteq> None" using that inv by (auto simp: server_inv_def)
qed

theorem stream_lifecycle_witness:
  "\<exists>s. stream_reachable s \<and> requests s 1 = Some (''a'', True) \<and> map_of (calls s) ''a'' = Some True \<and> pendingIdle s \<noteq> Some ''a''"
proof -
  let ?srv = "fst (registerStream ''a'' (CreateServer True))"
  let ?s1 = "stream_world_init\<lparr>server := ?srv, requests := (requests stream_world_init)(1 \<mapsto> (''a'', False))\<rparr>"
  let ?s2 = "?s1\<lparr>calls := (''a'', True) # calls ?s1, requests := (requests ?s1)(1 \<mapsto> (''a'', True))\<rparr>"
  have "stream_step stream_world_init ?s1" by (rule stream_step.register) (simp add: stream_world_init_def registerStream_def CreateServer_def)
  then have "stream_reachable ?s1" using stream_reachable.init stream_reachable.step by blast
  moreover have "stream_step ?s1 ?s2" by (rule stream_step.activate) (simp_all add: stream_world_init_def)
  ultimately have r: "stream_reachable ?s2" using stream_reachable.step by blast
  have q: "requests ?s2 1 = Some (''a'', True)" by simp
  note s = stream_lifecycle [OF r, THEN conjunct1, rule_format, OF q]
  from r q s show ?thesis by blast
qed

end
