(* ===== verification/Spec2Isabelle.thy ===== *)
theory Spec2Isabelle
  imports ComponentGraph TransactionScriptRedeem Payment DhtLookup LiveHeaders TransactionMerkle SyncCrypt Mnemonic StreamServer
begin

text \<open>
  A verification of the core of an LBRY daemon written in Go: the wallet (transactions, scripts, coins, headers,
  secrets), the distributed hash table, the store of blobs and streams with the media server, and the order in which the
  components of the daemon start. Files are named relative to \<^verbatim>\<open>src/\<close>.

  \<^bold>\<open>The program.\<close> \<^verbatim>\<open>app.go\<close> creates the components and starts them stage by stage, in the order that
  \<^verbatim>\<open>componentgraph\<close> computes from their dependencies. A file that is published is cut into encrypted blobs with a
  descriptor (\<^verbatim>\<open>blob/creator.go\<close>), which the blob manager (\<^verbatim>\<open>blob/manager.go\<close>) stores under their hashes and hands
  out to readers and peers and to the media server, which answers ranges of a stream (\<^verbatim>\<open>stream/server.go\<close>); blobs it does not have are fetched from peers, which the hash table (\<^verbatim>\<open>dht\<close>) finds: a node
  keeps a routing table, answers requests that are bencoded datagrams, remembers who announced which blob, and looks
  up other nodes. The wallet connects block headers it is given (\<^verbatim>\<open>wallet/headers.go\<close>), follows the chain of its hub
  (\<^verbatim>\<open>wallet/spv_tip.go\<close>), checks with a Merkle proof
  that a transaction is in a block (\<^verbatim>\<open>wallet/transaction_merkle.go\<close>), keeps outputs in a database
  (\<^verbatim>\<open>wallet/ledgerdb\<close>), and pays: it builds a transaction with outputs, selects and reserves coins until inputs cover
  outputs and fee, gives change and signs (\<^verbatim>\<open>wallet/transaction_balancing_accounts.go\<close>,
  \<^verbatim>\<open>wallet/transaction_balancing.go\<close>, \<^verbatim>\<open>wallet/coin_selection.go\<close>).

  \<^bold>\<open>Conventions.\<close> Structs are records and enumerations datatypes, with the names of the code; a field whose name
  would clash carries the name of its type. A byte is an 8-bit word, \<^verbatim>\<open>uint32\<close> and \<^verbatim>\<open>uint64\<close> are words, \<^verbatim>\<open>int64\<close> and
  \<^verbatim>\<open>int\<close> are integers with \<open>wrap64\<close> where the code does not check for overflow. A method on a pointer returns the
  changed record. An error is the left summand of a sum with a datatype of errors; panics are a value of their own
  where the code can panic. Operations under a mutex are one step. Code outside the repository is a parameter: the
  network, the engine of the database where its order shows, \<^verbatim>\<open>ripemd160\<close>, the decoding of JSON, the inflating of
  chunks, the elliptic curve, \<^verbatim>\<open>scrypt\<close>, the normalisation of phrases, sources of randomness, the connection of a
  client and the clock. Functions of Go's standard library are written
  out: SHA-2, AES with CBC, hexadecimal, Base64 and decimal texts, UTF-8 and the quoting of JSON strings.

  \<^bold>\<open>The theories.\<close>

  \<^item> \<open>Prelude\<close>: machine types, byte order, collections of lemmas. \<open>Radix\<close>: positional numerals, locale
    \<open>positional_alphabet\<close>. \<open>Codec\<close>: the contracts of a reader and a writer that belong together
    (\<open>wire_codec\<close>) and of a reader that only consumes (\<open>consuming_reader\<close>), interpreted on every field of a
    transaction. \<open>Sha2\<close>, \<open>Aes\<close>, \<open>Decimal\<close>, \<open>HexText\<close>, \<open>Utf8\<close>, \<open>Base64\<close>: the standard library; the
    mode of operation is treated for every \<open>block_cipher\<close> and interpreted on AES.

  \<^item> \<open>Base58\<close>: \<^verbatim>\<open>wallet/keys/base58.go\<close> and \<^verbatim>\<open>dht/identity.go\<close>, two independent codecs on one
    \<open>positional_alphabet\<close>: round trips, soundness of accepted checksums, equality of the two encoders.

  \<^item> \<open>ComponentGraph\<close>: \<^verbatim>\<open>componentgraph/graph.go\<close> and \<^verbatim>\<open>componentgraph/legacy.go\<close>: start stages hold every active
    component once, after all it depends on, as early as possible; which of the errors is reported; the order in which
    maps are iterated does not show; the table of the daemon starts.

  \<^item> \<open>TransactionScript\<close>, \<open>TransactionScriptBuild\<close>, \<open>TransactionScriptRedeem\<close>:
    \<^verbatim>\<open>wallet/transaction_script.go\<close> and \<^verbatim>\<open>wallet/transaction_script_build.go\<close>: parsing and generating scripts
    are inverse up to the shortest pushes. \<open>Transaction\<close> and \<open>TransactionBuild\<close>: \<^verbatim>\<open>wallet/transaction.go\<close> and
    \<^verbatim>\<open>wallet/transaction_build.go\<close>: the wire format with witnesses, identifiers, sizes, adding inputs and outputs.

  \<^item> \<open>CoinSelection\<close>: \<^verbatim>\<open>wallet/coin_selection.go\<close> and \<^verbatim>\<open>wallet/coin_selection_python_random.go\<close>: branch and bound
    equals exhaustive search; every strategy is safe for every source of random numbers in the contract
    \<open>coin_random\<close>, which the Mersenne twister of the code meets.

  \<^item> \<open>Balancing\<close>: \<^verbatim>\<open>wallet/transaction_balancing.go\<close>, the balance loop with its callbacks, as a contract
    of what it needs of them. \<open>Spendables\<close>: \<^verbatim>\<open>wallet/ledgerdb/spendables.go\<close>, queries and reservations on the tables of
    \<^verbatim>\<open>wallet/ledgerdb/schema.go\<close>. \<open>Funding\<close>: \<^verbatim>\<open>wallet/transaction_balancing_accounts.go\<close>, which composes them:
    reservations follow the transaction, in success and in failure. \<open>TransactionSigning\<close>:
    \<^verbatim>\<open>wallet/transaction_signing.go\<close>, \<^verbatim>\<open>wallet/transaction_signing_accounts.go\<close> and \<^verbatim>\<open>wallet/keys/signing.go\<close>: signing
    changes only scripts and makes no unsigned input longer, and it succeeds when the keys are known. \<open>Payment\<close>: the
    selection and the signer of the wallet meet the contract of the balance, so a created transaction pays its fee and
    not much more.

  \<^item> \<open>HeaderTarget\<close>, \<open>Headers\<close>, \<open>HeaderChain\<close>: \<^verbatim>\<open>wallet/headers.go\<close>, \<^verbatim>\<open>wallet/header_fetch.go\<close>,
    \<^verbatim>\<open>wallet/header_storage.go\<close>, \<^verbatim>\<open>wallet/checkpoints.go\<close>: compact targets, validation, connecting, repair and the
    filling of checkpointed chunks; accepted headers extend the chain, and a fill ends with every chunk verified.
    \<open>LiveHeaders\<close>: \<^verbatim>\<open>wallet/spv_tip.go\<close>, the loop that follows a hub: after a reorganisation the store ends with the
    chain of the hub. \<open>TransactionMerkle\<close>: \<^verbatim>\<open>wallet/transaction_merkle.go\<close>, against the tree over a block, for every
    answer of a server.

  \<^item> \<open>AccountCrypt\<close>: \<^verbatim>\<open>wallet/crypt.go\<close>, encryption and decryption of account secrets. \<open>SyncCrypt\<close>:
    \<^verbatim>\<open>wallet/sync_crypto.go\<close>, the envelope of synchronised wallets. \<open>Mnemonic\<close>: \<^verbatim>\<open>wallet/mnemonic\<close>, phrases as
    numerals of 2048 words (again a \<open>positional_alphabet\<close>) and the search for a seed, which ends.

  \<^item> \<open>StreamDescriptor\<close>: \<^verbatim>\<open>blob/descriptor.go\<close> and \<^verbatim>\<open>blob/creator.go\<close>. \<open>BlobManager\<close>: \<^verbatim>\<open>blob/manager.go\<close>,
    \<^verbatim>\<open>blob/reader.go\<close> and the storing of a created stream: what is served has the hash that was asked for, and a
    published file reads back. \<open>StreamServer\<close>: \<^verbatim>\<open>stream/server.go\<close>: a range of a published file is served byte by
    byte, and the registry of requests with its timers as a step relation with its invariant.

  \<^item> \<open>Bencode\<close>: \<^verbatim>\<open>dht/bencode.go\<close>. \<open>Kademlia\<close>, \<open>DhtNode\<close>, \<open>DhtLookup\<close>: \<^verbatim>\<open>dht/node.go\<close>: the metric and the
    routing table; the handlers of a node as a step relation with its invariant, and the store of announcements, which
    refines an abstract map through the locale \<open>announcement_store\<close>; the lookups against every network.

  \<^bold>\<open>Bounds.\<close> The decoder of bencode carries fuel, twice the length of the input and one more, which is never used up
  (\<open>BencodeDecode_total\<close>). The search of a dependency in the component graph has the number of components as fuel.
  Branch and bound stops after the tries of the code; its optimality assumes that they cover the tree. The search of a
  database window has fuel 11, which is shown to be enough for its schedule. A lookup runs the ten rounds of the code.
  The loop that follows a hub and the search for a seed may run as long as the hub or the hash function wishes: they are
  partial functions, and that they return is proved for a hub that serves its chain and for a number that has a seed.
  All other loops are structural recursions or have a termination proof by the length of what is left.

  \<^bold>\<open>Cryptography.\<close> No property assumes that a hash has no collisions. Where the code relies on it, the conclusion has
  the alternative that two of the inputs that were really hashed collide.

  \<^bold>\<open>Not modelled.\<close> The JSON-RPC server, the command line, configuration, the assembly of the daemon, logging and
  metrics (glue and output); SQL other than the spendable outputs, whose meaning is that of a third-party engine;
  sockets, timers and goroutines of the SPV client, the peer and reflector servers, trackers and downloads; claims,
  supports and hub answers, which are messages of a third-party protocol buffer package; the
  derivation of keys and addresses and the search for the key of an address, which rest on a third-party curve and on SQL; the normalisation of mnemonics; exchange rates and the
  estimate of time stamps, which are floating-point computations. Inside modelled components: waiting for a fetch
  that is in progress, cancelled contexts, and failures of the file system other than those the error values name.
\<close>

end
